(* ===== verification/Base.thy ===== *)
theory Base
  imports Main "HOL-Library.Word"
begin

text \<open>
  Shared vocabulary of the development: machine words and byte orders, raw memory blocks as byte
  lists, the result type of fallible C functions, and the generic lemmas on lists, options and
  words that the component theories use.

  Conventions of every theory that imports this one:
  \<^item> \<open>byte\<close>, \<open>u16\<close>, \<open>u32\<close>, \<open>u64\<close> are the unsigned types of the source at their width;
  \<^item> a fallible function returns \<open>'a result\<close>: \<open>Inl code\<close> for a negative return value carrying the
    error code, \<open>Inr v\<close> for success;
  \<^item> where C leaves the behaviour undefined (an access outside of a block) or aborts (a failed
    \<open>assert\<close>, \<open>abort\<close>), the model returns \<open>None\<close>; \<open>Some\<close> is a defined execution.
\<close>

unbundle bit_operations_syntax

named_theorems word_nat \<open>moving 32 bit index arithmetic to natural numbers\<close>
named_theorems mem \<open>reads and writes of memory blocks\<close>
named_theorems wire \<open>network byte order conversions\<close>

type_synonym byte = "8 word"
type_synonym u16 = "16 word"
type_synonym u32 = "32 word"
type_synonym u64 = "64 word"

section \<open>Words\<close>

lemma unat_add_of_nat [word_nat]:
  fixes w :: "'a::len word"
  assumes "unat w + n < 2 ^ LENGTH('a)"
  shows "unat (w + of_nat n) = unat w + n"
proof -
  have "unat (w + of_nat n) = (unat w + n mod 2 ^ LENGTH('a)) mod 2 ^ LENGTH('a)"
    by (simp add: unat_word_ariths unat_of_nat)
  also have "\<dots> = unat w + n"
    using assms by simp
  finally show ?thesis .
qed

lemma unat_of_nat_small [word_nat]:
  "n < 2 ^ LENGTH('a) \<Longrightarrow> unat (of_nat n :: 'a::len word) = n"
  by (simp add: unat_of_nat)

lemma unat_plus_small [word_nat]:
  fixes a b :: "'a::len word"
  assumes "unat a + unat b < 2 ^ LENGTH('a)"
  shows "unat (a + b) = unat a + unat b"
  using assms by (simp add: unat_word_ariths)

lemma unat_minus_small [word_nat]:
  fixes a b :: "'a::len word"
  assumes "unat b \<le> unat a"
  shows "unat (a - b) = unat a - unat b"
  using assms by (simp add: unat_sub word_le_nat_alt)

lemma word_eq_of_nat_iff:
  fixes w :: "'a::len word"
  assumes "n < 2 ^ LENGTH('a)"
  shows "w = of_nat n \<longleftrightarrow> unat w = n"
  using assms by (metis unat_of_nat_small word_unat_eq_iff)

section \<open>Byte orders\<close>

datatype byte_order = Little_Endian | Big_Endian

text \<open>Big endian (network order) bytes of a word, and back.\<close>

definition be16 :: "u16 \<Rightarrow> byte list" where
  "be16 w = [ucast (drop_bit 8 w), ucast w]"

definition be32 :: "u32 \<Rightarrow> byte list" where
  "be32 w = [ucast (drop_bit 24 w), ucast (drop_bit 16 w), ucast (drop_bit 8 w), ucast w]"

definition be64 :: "u64 \<Rightarrow> byte list" where
  "be64 w = be32 (ucast (drop_bit 32 w)) @ be32 (ucast w)"

fun of_be16 :: "byte list \<Rightarrow> u16" where
  "of_be16 [a, b] = push_bit 8 (ucast a) OR ucast b"
| "of_be16 _ = 0"

fun of_be32 :: "byte list \<Rightarrow> u32" where
  "of_be32 [a, b, c, d] =
     push_bit 24 (ucast a) OR push_bit 16 (ucast b) OR push_bit 8 (ucast c) OR ucast d"
| "of_be32 _ = 0"

fun of_be64 :: "byte list \<Rightarrow> u64" where
  "of_be64 [a, b, c, d, e, f, g, h] =
     push_bit 32 (ucast (of_be32 [a, b, c, d])) OR ucast (of_be32 [e, f, g, h])"
| "of_be64 _ = 0"

lemma length_be [simp]: "length (be16 w) = 2" "length (be32 x) = 4" "length (be64 y) = 8"
  by (simp_all add: be16_def be32_def be64_def)

lemma bit_byte_beyond: "8 \<le> n \<Longrightarrow> \<not> bit (b :: byte) n"
  using bit_imp_le_length [of b n] by auto

lemma of_be16_be16 [simp, wire]: "of_be16 (be16 w) = w"
  unfolding be16_def of_be16.simps
  by (rule bit_word_eqI) (auto simp: bit_simps)

lemma of_be32_be32 [simp, wire]: "of_be32 (be32 w) = w"
proof (rule bit_word_eqI)
  fix n assume "n < LENGTH(32)"
  then consider "n < 8" | "8 \<le> n" "n < 16" | "16 \<le> n" "n < 24" | "24 \<le> n" "n < 32"
    by fastforce
  then show "bit (of_be32 (be32 w)) n = bit w n"
    by cases (auto simp: be32_def bit_simps)
qed

lemma be32_of_be32: "be32 (of_be32 [a, b, c, d]) = [a, b, c, d]"
  unfolding be32_def of_be32.simps
  by (auto intro!: bit_word_eqI simp: bit_simps bit_byte_beyond)

lemma be16_of_be16: "be16 (of_be16 [a, b]) = [a, b]"
  unfolding be16_def of_be16.simps
  by (auto intro!: bit_word_eqI simp: bit_simps bit_byte_beyond)

lemma of_be32_be32_elems: "of_be32 [ucast (drop_bit 24 w), ucast (drop_bit 16 w), ucast (drop_bit 8 w), ucast w] = w"
  using of_be32_be32 [of w] by (simp only: be32_def)

lemma of_be64_be64 [simp, wire]: "of_be64 (be64 w) = w"
proof -
  have "of_be64 (be64 w) =
      push_bit 32 (ucast (ucast (drop_bit 32 w) :: u32)) OR ucast (ucast w :: u32)"
    by (simp only: be64_def be32_def append.simps of_be64.simps of_be32_be32_elems)
  also have "\<dots> = w"
    by (rule bit_word_eqI) (auto simp: bit_simps)
  finally show ?thesis .
qed

text \<open>How an unsigned object of the host lies in memory.\<close>

definition mem16 :: "byte_order \<Rightarrow> u16 \<Rightarrow> byte list" where
  "mem16 bo w = (case bo of Big_Endian \<Rightarrow> be16 w | Little_Endian \<Rightarrow> rev (be16 w))"

definition mem32 :: "byte_order \<Rightarrow> u32 \<Rightarrow> byte list" where
  "mem32 bo w = (case bo of Big_Endian \<Rightarrow> be32 w | Little_Endian \<Rightarrow> rev (be32 w))"

definition mem64 :: "byte_order \<Rightarrow> u64 \<Rightarrow> byte list" where
  "mem64 bo w = (case bo of Big_Endian \<Rightarrow> be64 w | Little_Endian \<Rightarrow> rev (be64 w))"

definition load16 :: "byte_order \<Rightarrow> byte list \<Rightarrow> u16" where
  "load16 bo bs = of_be16 (case bo of Big_Endian \<Rightarrow> bs | Little_Endian \<Rightarrow> rev bs)"

definition load32 :: "byte_order \<Rightarrow> byte list \<Rightarrow> u32" where
  "load32 bo bs = of_be32 (case bo of Big_Endian \<Rightarrow> bs | Little_Endian \<Rightarrow> rev bs)"

definition load64 :: "byte_order \<Rightarrow> byte list \<Rightarrow> u64" where
  "load64 bo bs = of_be64 (case bo of Big_Endian \<Rightarrow> bs | Little_Endian \<Rightarrow> rev bs)"

text \<open>\<open>htons\<close> and \<open>htonl\<close> reverse the bytes on a little endian host (and so do \<open>ntohs\<close>, \<open>ntohl\<close>).\<close>

definition htons :: "byte_order \<Rightarrow> u16 \<Rightarrow> u16" where
  "htons bo w = (case bo of Big_Endian \<Rightarrow> w | Little_Endian \<Rightarrow> of_be16 (rev (be16 w)))"

definition htonl :: "byte_order \<Rightarrow> u32 \<Rightarrow> u32" where
  "htonl bo w = (case bo of Big_Endian \<Rightarrow> w | Little_Endian \<Rightarrow> of_be32 (rev (be32 w)))"

abbreviation ntohs :: "byte_order \<Rightarrow> u16 \<Rightarrow> u16" where "ntohs \<equiv> htons"
abbreviation ntohl :: "byte_order \<Rightarrow> u32 \<Rightarrow> u32" where "ntohl \<equiv> htonl"

lemma length_mem [simp]: "length (mem16 bo w) = 2" "length (mem32 bo x) = 4" "length (mem64 bo y) = 8"
  by (simp_all add: mem16_def mem32_def mem64_def split: byte_order.split)

lemma load_mem [simp]:
  "load16 bo (mem16 bo w) = w" "load32 bo (mem32 bo x) = x" "load64 bo (mem64 bo y) = y"
  by (simp_all add: load16_def load32_def load64_def mem16_def mem32_def mem64_def
      split: byte_order.split)

lemma mem16_htons [simp, wire]: "mem16 bo (htons bo w) = be16 w"
proof (cases bo)
  case Little_Endian
  then show ?thesis
    by (simp add: mem16_def htons_def be16_def [of w] be16_of_be16 del: of_be16.simps)
qed (simp add: mem16_def htons_def)

lemma mem32_htonl [simp, wire]: "mem32 bo (htonl bo w) = be32 w"
proof (cases bo)
  case Little_Endian
  then show ?thesis
    by (simp add: mem32_def htonl_def be32_def [of w] be32_of_be32 del: of_be32.simps)
qed (simp add: mem32_def htonl_def)

lemma htons_htons [simp]: "htons bo (htons bo w) = w"
  by (metis load_mem(1) mem16_htons of_be16_be16 load16_def mem16_def)

lemma htonl_htonl [simp]: "htonl bo (htonl bo w) = w"
  by (metis load_mem(2) mem32_htonl of_be32_be32 load32_def mem32_def)

lemma ntohl_load32_be32 [simp, wire]: "ntohl bo (load32 bo (be32 w)) = w"
  by (metis htonl_htonl load_mem(2) mem32_htonl)

lemma ntohs_load16_be16 [simp, wire]: "ntohs bo (load16 bo (be16 w)) = w"
  by (metis htons_htons load_mem(1) mem16_htons)

section \<open>Memory blocks\<close>

text \<open>
  A block is the list of its bytes. \<open>mem_write blk off src\<close> is \<open>memcpy(blk + off, src, len)\<close>,
  \<open>mem_read blk off n\<close> the \<open>n\<close> bytes at \<open>blk + off\<close>; both are undefined outside of the block.
\<close>

definition mem_write :: "'a list \<Rightarrow> nat \<Rightarrow> 'a list \<Rightarrow> 'a list option" where
  "mem_write blk off src =
     (if off + length src \<le> length blk
      then Some (take off blk @ src @ drop (off + length src) blk) else None)"

definition mem_read :: "'a list \<Rightarrow> nat \<Rightarrow> nat \<Rightarrow> 'a list option" where
  "mem_read blk off n = (if off + n \<le> length blk then Some (take n (drop off blk)) else None)"

lemma mem_write_length [mem]: "mem_write blk off src = Some blk' \<Longrightarrow> length blk' = length blk"
  by (auto simp: mem_write_def split: if_splits)

lemma mem_write_Some [mem]:
  "off + length src \<le> length blk \<Longrightarrow>
   mem_write blk off src = Some (take off blk @ src @ drop (off + length src) blk)"
  by (simp add: mem_write_def)

lemma mem_write_take [mem]:
  assumes "mem_write blk off src = Some blk'" and "n \<le> off"
  shows "take n blk' = take n blk"
  using assms by (auto simp: mem_write_def min_def split: if_splits)

lemma mem_write_take_end [mem]:
  assumes "mem_write blk off src = Some blk'"
  shows "take (off + length src) blk' = take off blk @ src"
  using assms by (auto simp: mem_write_def split: if_splits)

lemma mem_read_length [mem]: "mem_read blk off n = Some bs \<Longrightarrow> length bs = n"
  by (auto simp: mem_read_def split: if_splits)

lemma mem_read_write [mem]:
  assumes "mem_write blk off src = Some blk'"
  shows "mem_read blk' off (length src) = Some src"
  using assms by (auto simp: mem_write_def mem_read_def split: if_splits)

lemma list5E:
  assumes "5 \<le> length xs"
  obtains a b c d e r where "xs = a # b # c # d # e # r"
proof -
  have "length (take 5 xs) = Suc (Suc (Suc (Suc (Suc 0))))" using assms by simp
  then obtain a b c d e where "take 5 xs = [a, b, c, d, e]"
    by (auto simp only: length_Suc_conv length_0_conv)
  then have "xs = a # b # c # d # e # drop 5 xs"
    by (metis append_Cons append_Nil append_take_drop_id)
  then show ?thesis by (rule that)
qed

lemma take_add_split: "take (m + n) xs = take m xs @ take n (drop m xs)"
  by (rule take_add)

section \<open>Sizes and results\<close>

lemma unit_sum_not_Inl [simp]: "(\<forall>e. (r :: 'e + unit) \<noteq> Inl e) \<longleftrightarrow> r = Inr ()"
  by (cases r) auto

text \<open>\<open>size_t\<close> arithmetic on a 64 bit host, with the wrap-around written out.\<close>

definition size_add :: "nat \<Rightarrow> nat \<Rightarrow> nat" where "size_add a b = (a + b) mod 2 ^ 64"
definition size_sub :: "nat \<Rightarrow> nat \<Rightarrow> nat" where "size_sub a b = (a + 2 ^ 64 - b) mod 2 ^ 64"

lemma size_add_small [simp]: "a + b < 2 ^ 64 \<Longrightarrow> size_add a b = a + b"
  by (simp add: size_add_def)

lemma size_sub_small [simp]: "b \<le> a \<Longrightarrow> a < 2 ^ 64 \<Longrightarrow> size_sub a b = a - b"
proof -
  assume "b \<le> a" "a < 2 ^ 64"
  then have "a + 2 ^ 64 - b = (a - b) + 2 ^ 64" and "a - b < 2 ^ 64" by simp_all
  then show ?thesis unfolding size_sub_def by (metis mod_add_self2 mod_less)
qed

text \<open>\<open>realloc\<close>: the old bytes are kept up to the new size, fresh bytes are zero in the model.\<close>

definition resize_block :: "byte list \<Rightarrow> nat \<Rightarrow> byte list" where
  "resize_block blk n = take n blk @ replicate (n - length blk) 0"

lemma length_resize_block [simp]: "length (resize_block blk n) = n"
  by (simp add: resize_block_def)

lemma take_resize_block: "m \<le> n \<Longrightarrow> m \<le> length blk \<Longrightarrow> take m (resize_block blk n) = take m blk"
  by (simp add: resize_block_def)

lemma mem_write_resize:
  "mem_write (resize_block blk (length blk + length src)) (length blk) src = Some (blk @ src)"
  by (simp add: mem_write_def resize_block_def)

end
