(* ===== verification/PError.thy ===== *)
theory PError
  imports Base
begin

text \<open>
  Error values (\<open>src/libprelude-error/prelude-error.c\<close>). A \<open>prelude_error_t\<close> packs the source of
  an error, a flag for a verbose message and the error code into one negative integer. The first
  part models the packing on integers; the second names the error codes that the other theories
  return as the left side of a \<open>result\<close>.
\<close>

section \<open>Packed error values\<close>

definition PRELUDE_ERROR_CODE_MASK :: int where "PRELUDE_ERROR_CODE_MASK = 65536 - 1"
definition PRELUDE_ERROR_SOURCE_MASK :: int where "PRELUDE_ERROR_SOURCE_MASK = 256 - 1"
definition PRELUDE_ERROR_VERBOSE_MASK :: int where "PRELUDE_ERROR_VERBOSE_MASK = 1"
definition PRELUDE_ERROR_SOURCE_SHIFT :: nat where "PRELUDE_ERROR_SOURCE_SHIFT = 23"
definition PRELUDE_ERROR_VERBOSE_SHIFT :: nat where "PRELUDE_ERROR_VERBOSE_SHIFT = 22"

lemmas error_layout =
  PRELUDE_ERROR_CODE_MASK_def PRELUDE_ERROR_SOURCE_MASK_def PRELUDE_ERROR_VERBOSE_MASK_def
  PRELUDE_ERROR_SOURCE_SHIFT_def PRELUDE_ERROR_VERBOSE_SHIFT_def

definition prelude_error_make :: "int \<Rightarrow> int \<Rightarrow> int" where
  "prelude_error_make source code =
     (if code = 0 then code else - (push_bit PRELUDE_ERROR_SOURCE_SHIFT source OR code))"

text \<open>
  The string handling of \<open>prelude_error_verbose_make_v\<close> can fail (\<open>set_msg < 0\<close>), in which case
  that failure is returned instead of the error.
\<close>

definition prelude_error_verbose_make_v :: "int \<Rightarrow> int \<Rightarrow> int \<Rightarrow> int" where
  "prelude_error_verbose_make_v set_msg source code =
     (if set_msg < 0 then set_msg
      else - ((- prelude_error_make source code) OR push_bit PRELUDE_ERROR_VERBOSE_SHIFT 1))"

definition prelude_error_get_code :: "int \<Rightarrow> int" where
  "prelude_error_get_code error = (- error) AND PRELUDE_ERROR_CODE_MASK"

definition prelude_error_get_source :: "int \<Rightarrow> int" where
  "prelude_error_get_source error =
     drop_bit PRELUDE_ERROR_SOURCE_SHIFT (- error) AND PRELUDE_ERROR_SOURCE_MASK"

definition prelude_error_is_verbose :: "int \<Rightarrow> bool" where
  "prelude_error_is_verbose error \<longleftrightarrow>
     drop_bit PRELUDE_ERROR_VERBOSE_SHIFT (- error) AND PRELUDE_ERROR_VERBOSE_MASK \<noteq> 0"

text \<open>Both directions of the \<open>errno\<close> tables, over generated tables given as parameters.\<close>

definition PRELUDE_ERROR_SYSTEM_ERROR :: int where "PRELUDE_ERROR_SYSTEM_ERROR = push_bit 15 1"
definition PRELUDE_ERROR_UNKNOWN_ERRNO :: int where "PRELUDE_ERROR_UNKNOWN_ERRNO = 16382"

definition prelude_error_code_from_errno :: "(int \<Rightarrow> int) \<Rightarrow> (nat \<Rightarrow> int) \<Rightarrow> int \<Rightarrow> int" where
  "prelude_error_code_from_errno errno_to_idx err_code_from_index err =
     (if err = 0 then 0
      else let idx = errno_to_idx err in
        if idx < 0 then PRELUDE_ERROR_UNKNOWN_ERRNO
        else PRELUDE_ERROR_SYSTEM_ERROR OR err_code_from_index (nat idx))"

definition prelude_error_code_to_errno :: "int list \<Rightarrow> int \<Rightarrow> int" where
  "prelude_error_code_to_errno err_code_to_errno code =
     (if code AND PRELUDE_ERROR_SYSTEM_ERROR = 0 then 0
      else let c = code AND NOT PRELUDE_ERROR_SYSTEM_ERROR in
        if 0 \<le> c \<and> nat c < length err_code_to_errno then err_code_to_errno ! nat c else 0)"

definition prelude_error_make_from_errno :: "(int \<Rightarrow> int) \<Rightarrow> (nat \<Rightarrow> int) \<Rightarrow> int \<Rightarrow> int \<Rightarrow> int" where
  "prelude_error_make_from_errno errno_to_idx err_code_from_index source err =
     prelude_error_make source (prelude_error_code_from_errno errno_to_idx err_code_from_index err)"

lemma mask_lits: "(65535 :: int) = mask 16" "(255 :: int) = mask 8"
  by (simp_all add: mask_eq_exp_minus_1)

lemma small_int_take_bit: "0 \<le> c \<Longrightarrow> c < 2 ^ n \<Longrightarrow> take_bit n c = (c :: int)"
  by (simp add: take_bit_int_eq_self_iff)

lemma small_int_drop_bit: "0 \<le> c \<Longrightarrow> c < 2 ^ n \<Longrightarrow> drop_bit n c = (0 :: int)"
  by (simp add: drop_bit_eq_div)

lemma packed_code:
  assumes "0 \<le> c" "c < 65536"
  shows "take_bit 16 (push_bit 23 s OR c) = (c :: int)"
  using assms by (simp add: take_bit_push_bit small_int_take_bit)

lemma packed_source:
  assumes "0 \<le> c" "c < 4194304 * 2" "0 \<le> s" "s < 256"
  shows "take_bit 8 (drop_bit 23 (push_bit 23 s OR c)) = (s :: int)"
proof -
  have "drop_bit 23 (push_bit 23 s OR c) = s"
    using assms by (simp add: drop_bit_push_bit small_int_drop_bit)
  with assms show ?thesis by (simp add: small_int_take_bit)
qed

lemma packed_range:
  assumes "0 < c" "c < 8388608" "0 \<le> s" "s < 256"
  shows "0 < push_bit 23 s OR (c :: int)" "push_bit 23 s OR c < 2 ^ 31"
proof -
  have "push_bit 23 s < (2 :: int) ^ 31" using assms by (simp add: push_bit_eq_mult)
  then show "push_bit 23 s OR c < 2 ^ 31"
    using assms by (intro OR_upper) (auto simp: push_bit_eq_mult)
  have "push_bit 23 s OR c \<ge> c"
    using assms by (metis OR_lower or.commute or_greater_eq push_bit_nonnegative_int_iff)
  with assms show "0 < push_bit 23 s OR c" by linarith
qed

text \<open>The readers of the fields as bit fields of the negated value.\<close>

lemma get_code_take_bit: "prelude_error_get_code e = take_bit 16 (- e)"
  by (simp add: prelude_error_get_code_def error_layout mask_lits take_bit_eq_mask)

lemma get_source_take_bit: "prelude_error_get_source e = take_bit 8 (drop_bit 23 (- e))"
  by (simp add: prelude_error_get_source_def error_layout mask_lits take_bit_eq_mask)

lemma is_verbose_bit: "prelude_error_is_verbose e \<longleftrightarrow> bit (- e) 22"
  by (simp add: prelude_error_is_verbose_def error_layout and_one_eq bit_iff_odd_drop_bit
      odd_iff_mod_2_eq_one)

lemma make_nonzero: "c \<noteq> 0 \<Longrightarrow> - prelude_error_make s c = push_bit 23 s OR c"
  by (simp add: prelude_error_make_def error_layout)

lemma get_code_make: "0 < c \<Longrightarrow> c < 65536 \<Longrightarrow> prelude_error_get_code (prelude_error_make s c) = c"
  using packed_code [of c s] by (simp add: get_code_take_bit make_nonzero del: take_bit_or)

lemma get_source_make:
  "0 < c \<Longrightarrow> c < 65536 \<Longrightarrow> 0 \<le> s \<Longrightarrow> s < 256 \<Longrightarrow>
   prelude_error_get_source (prelude_error_make s c) = s"
  using packed_source [of c s] by (simp add: get_source_take_bit make_nonzero del: drop_bit_or)

lemma make_not_verbose:
  assumes "0 < c" "c < 65536"
  shows "\<not> prelude_error_is_verbose (prelude_error_make s c)"
proof -
  have "take_bit 22 c = c"
    using assms by (simp add: small_int_take_bit)
  then have "\<not> bit c 22"
    by (metis bit_take_bit_iff less_irrefl)
  then show ?thesis
    using assms by (simp add: is_verbose_bit make_nonzero bit_simps)
qed

lemma verbose_make_fields:
  assumes "0 \<le> set_msg"
  shows "prelude_error_get_code (prelude_error_verbose_make_v set_msg s c) =
           prelude_error_get_code (prelude_error_make s c)"
    and "prelude_error_get_source (prelude_error_verbose_make_v set_msg s c) =
           prelude_error_get_source (prelude_error_make s c)"
    and "prelude_error_is_verbose (prelude_error_verbose_make_v set_msg s c)"
proof -
  have v: "- prelude_error_verbose_make_v set_msg s c =
      (- prelude_error_make s c) OR push_bit 22 1"
    using assms by (simp add: prelude_error_verbose_make_v_def error_layout)
  show "prelude_error_get_code (prelude_error_verbose_make_v set_msg s c) =
      prelude_error_get_code (prelude_error_make s c)"
    unfolding get_code_take_bit v by (simp add: take_bit_push_bit)
  show "prelude_error_get_source (prelude_error_verbose_make_v set_msg s c) =
      prelude_error_get_source (prelude_error_make s c)"
    unfolding get_source_take_bit v by (simp add: drop_bit_push_bit)
  show "prelude_error_is_verbose (prelude_error_verbose_make_v set_msg s c)"
    unfolding is_verbose_bit v by (simp add: bit_simps)
qed

lemma make_range:
  assumes "0 < c" "c < 65536" "0 \<le> s" "s < 256"
  shows "prelude_error_make s c < 0" "- (2 ^ 31) < prelude_error_make s c"
  using packed_range [of c s] make_nonzero [of c s] assms by linarith+

text \<open>
  Packing loses nothing: for every 8 bit source and every non zero 16 bit code, the packed
  value is a negative 32 bit integer from which the source and the code are read back, whether or
  not a verbose message is attached, and the verbose flag tells the two apart.
\<close>

theorem prelude_error_roundtrip:
  assumes "0 < code" "code < 65536" "0 \<le> source" "source < 256" "0 \<le> set_msg"
  shows "prelude_error_get_code (prelude_error_make source code) = code
    \<and> prelude_error_get_source (prelude_error_make source code) = source
    \<and> \<not> prelude_error_is_verbose (prelude_error_make source code)
    \<and> prelude_error_make source code < 0 \<and> - (2 ^ 31) < prelude_error_make source code
    \<and> prelude_error_get_code (prelude_error_verbose_make_v set_msg source code) = code
    \<and> prelude_error_get_source (prelude_error_verbose_make_v set_msg source code) = source
    \<and> prelude_error_is_verbose (prelude_error_verbose_make_v set_msg source code)"
  using assms make_range [of code source]
  by (simp add: verbose_make_fields get_code_make get_source_make make_not_verbose)

theorem prelude_error_roundtrip_witness:
  "prelude_error_get_code (prelude_error_make 2 6) = 6
    \<and> prelude_error_get_source (prelude_error_verbose_make_v 0 2 6) = 2"
  using prelude_error_roundtrip [of 6 2 0] by simp

section \<open>Error codes of the library\<close>

text \<open>
  The codes returned by the modelled functions (\<open>src/libprelude-error/err-codes.h.in\<close>); the
  five last ones are system errors, \<open>PRELUDE_ERROR_SYSTEM_ERROR\<close> or'ed with the number of the errno.
\<close>

datatype prelude_error_code =
    PRELUDE_ERROR_GENERIC
  | PRELUDE_ERROR_INVAL_LENGTH
  | PRELUDE_ERROR_PROTOCOL_VERSION
  | PRELUDE_ERROR_EOF
  | PRELUDE_ERROR_INVAL_INT8
  | PRELUDE_ERROR_INVAL_INT16
  | PRELUDE_ERROR_INVAL_INT32
  | PRELUDE_ERROR_INVAL_INT64
  | PRELUDE_ERROR_INVAL_FLOAT
  | PRELUDE_ERROR_INVAL_CHAR
  | PRELUDE_ERROR_STRING_NOT_NULL_TERMINATED
  | PRELUDE_ERROR_TLS_WARNING_ALERT
  | PRELUDE_ERROR_ASSERTION
  | PRELUDE_ERROR_EAGAIN
  | PRELUDE_ERROR_EINTR
  | PRELUDE_ERROR_ENOMEM
  | PRELUDE_ERROR_ECONNRESET
  | PRELUDE_ERROR_EIO
  | PRELUDE_ERROR_IDMEF_VALUE_TYPE_UNKNOWN
  | PRELUDE_ERROR_IDMEF_VALUE_TYPE_COPY_UNAVAILABLE
  | PRELUDE_ERROR_IDMEF_VALUE_TYPE_CLONE_UNAVAILABLE
  | PRELUDE_ERROR_IDMEF_VALUE_TYPE_COMPARE_UNAVAILABLE
  | PRELUDE_ERROR_IDMEF_VALUE_TYPE_READ_UNAVAILABLE
  | PRELUDE_ERROR_IDMEF_VALUE_TYPE_WRITE_UNAVAILABLE
  | PRELUDE_ERROR_IDMEF_VALUE_TYPE_COMPARE_MISMATCH
  | PRELUDE_ERROR_IDMEF_VALUE_TYPE_PARSE
  | PRELUDE_ERROR_IDMEF_CLASS_UNKNOWN
  | PRELUDE_ERROR_IDMEF_CLASS_UNKNOWN_CHILD
  | PRELUDE_ERROR_IDMEF_CLASS_UNKNOWN_NAME
  | PRELUDE_ERROR_IDMEF_PATH_LENGTH
  | PRELUDE_ERROR_IDMEF_PATH_DEPTH
  | PRELUDE_ERROR_IDMEF_PATH_PARENT_ROOT
  | PRELUDE_ERROR_IDMEF_PATH_INTEGRITY
  | PRELUDE_ERROR_IDMEF_PATH_INDEX_RESERVED
  | PRELUDE_ERROR_IDMEF_PATH_INDEX_FORBIDDEN
  | PRELUDE_ERROR_IDMEF_PATH_INDEX_UNDEFINED
  | PRELUDE_ERROR_IDMEF_TREE_INDEX_UNDEFINED
  | PRELUDE_ERROR_IDMEF_CRITERION_UNSUPPORTED_OPERATOR
  | PRELUDE_ERROR_IDMEF_CRITERION_INVALID_REGEX
  | PRELUDE_ERROR_IDMEF_CLASS_CHILD_NOT_CLASS
  | PRELUDE_ERROR_IDMEF_VALUE_TYPE_REF_UNAVAILABLE
  | PRELUDE_ERROR_IDMEF_CLASS_CHILD_NOT_UNION
  | PRELUDE_ERROR_PROFILE
  | PRELUDE_ERROR_CONNECTION_STRING
  | PRELUDE_ERROR_CANT_RESOLVE
  | PRELUDE_ERROR_UNKNOWN_PERMISSION_TYPE
  | PRELUDE_ERROR_UNKNOWN_PERMISSION_BIT

fun error_code_value :: "prelude_error_code \<Rightarrow> int" where
  "error_code_value PRELUDE_ERROR_GENERIC = 1"
| "error_code_value PRELUDE_ERROR_INVAL_LENGTH = 3"
| "error_code_value PRELUDE_ERROR_PROTOCOL_VERSION = 5"
| "error_code_value PRELUDE_ERROR_EOF = 6"
| "error_code_value PRELUDE_ERROR_INVAL_INT8 = 17"
| "error_code_value PRELUDE_ERROR_INVAL_INT16 = 18"
| "error_code_value PRELUDE_ERROR_INVAL_INT32 = 19"
| "error_code_value PRELUDE_ERROR_INVAL_INT64 = 20"
| "error_code_value PRELUDE_ERROR_INVAL_FLOAT = 21"
| "error_code_value PRELUDE_ERROR_INVAL_CHAR = 22"
| "error_code_value PRELUDE_ERROR_STRING_NOT_NULL_TERMINATED = 50"
| "error_code_value PRELUDE_ERROR_TLS_WARNING_ALERT = 58"
| "error_code_value PRELUDE_ERROR_ASSERTION = 61"
| "error_code_value PRELUDE_ERROR_EAGAIN = 32768 + 6"
| "error_code_value PRELUDE_ERROR_EINTR = 32768 + 47"
| "error_code_value PRELUDE_ERROR_ENOMEM = 32768 + 86"
| "error_code_value PRELUDE_ERROR_ECONNRESET = 32768 + 26"
| "error_code_value PRELUDE_ERROR_EIO = 32768 + 49"
| "error_code_value PRELUDE_ERROR_IDMEF_VALUE_TYPE_UNKNOWN = 25"
| "error_code_value PRELUDE_ERROR_IDMEF_VALUE_TYPE_COPY_UNAVAILABLE = 26"
| "error_code_value PRELUDE_ERROR_IDMEF_VALUE_TYPE_CLONE_UNAVAILABLE = 27"
| "error_code_value PRELUDE_ERROR_IDMEF_VALUE_TYPE_COMPARE_UNAVAILABLE = 28"
| "error_code_value PRELUDE_ERROR_IDMEF_VALUE_TYPE_READ_UNAVAILABLE = 29"
| "error_code_value PRELUDE_ERROR_IDMEF_VALUE_TYPE_WRITE_UNAVAILABLE = 30"
| "error_code_value PRELUDE_ERROR_IDMEF_VALUE_TYPE_COMPARE_MISMATCH = 31"
| "error_code_value PRELUDE_ERROR_IDMEF_VALUE_TYPE_PARSE = 32"
| "error_code_value PRELUDE_ERROR_IDMEF_CLASS_UNKNOWN = 33"
| "error_code_value PRELUDE_ERROR_IDMEF_CLASS_UNKNOWN_CHILD = 34"
| "error_code_value PRELUDE_ERROR_IDMEF_CLASS_UNKNOWN_NAME = 35"
| "error_code_value PRELUDE_ERROR_IDMEF_PATH_LENGTH = 36"
| "error_code_value PRELUDE_ERROR_IDMEF_PATH_DEPTH = 37"
| "error_code_value PRELUDE_ERROR_IDMEF_PATH_PARENT_ROOT = 38"
| "error_code_value PRELUDE_ERROR_IDMEF_PATH_INTEGRITY = 41"
| "error_code_value PRELUDE_ERROR_IDMEF_PATH_INDEX_RESERVED = 42"
| "error_code_value PRELUDE_ERROR_IDMEF_PATH_INDEX_FORBIDDEN = 43"
| "error_code_value PRELUDE_ERROR_IDMEF_PATH_INDEX_UNDEFINED = 44"
| "error_code_value PRELUDE_ERROR_IDMEF_TREE_INDEX_UNDEFINED = 45"
| "error_code_value PRELUDE_ERROR_IDMEF_CRITERION_UNSUPPORTED_OPERATOR = 56"
| "error_code_value PRELUDE_ERROR_IDMEF_CRITERION_INVALID_REGEX = 57"
| "error_code_value PRELUDE_ERROR_IDMEF_CLASS_CHILD_NOT_CLASS = 60"
| "error_code_value PRELUDE_ERROR_IDMEF_VALUE_TYPE_REF_UNAVAILABLE = 62"
| "error_code_value PRELUDE_ERROR_IDMEF_CLASS_CHILD_NOT_UNION = 63"
| "error_code_value PRELUDE_ERROR_PROFILE = 8"
| "error_code_value PRELUDE_ERROR_CONNECTION_STRING = 24"
| "error_code_value PRELUDE_ERROR_CANT_RESOLVE = 51"
| "error_code_value PRELUDE_ERROR_UNKNOWN_PERMISSION_TYPE = 52"
| "error_code_value PRELUDE_ERROR_UNKNOWN_PERMISSION_BIT = 53"

text \<open>The \<open>errno\<close> values that the modelled system calls can set, and their error codes.\<close>

datatype errno = EAGAIN | EINTR | ENOMEM | ECONNRESET | EIO

fun prelude_error_from_errno :: "errno \<Rightarrow> prelude_error_code" where
  "prelude_error_from_errno EAGAIN = PRELUDE_ERROR_EAGAIN"
| "prelude_error_from_errno EINTR = PRELUDE_ERROR_EINTR"
| "prelude_error_from_errno ENOMEM = PRELUDE_ERROR_ENOMEM"
| "prelude_error_from_errno ECONNRESET = PRELUDE_ERROR_ECONNRESET"
| "prelude_error_from_errno EIO = PRELUDE_ERROR_EIO"

type_synonym 'a result = "prelude_error_code + 'a"

lemma error_code_value_range: "0 < error_code_value e" "error_code_value e < 65536"
  by (cases e; simp)+

lemma error_code_value_inj: "error_code_value e = error_code_value e' \<longleftrightarrow> e = e'"
  by (cases e; cases e'; simp)

text \<open>So a function may test the packed value it got for a code, as the callers do.\<close>

lemma get_code_decides:
  "prelude_error_get_code (prelude_error_make s (error_code_value e)) = error_code_value e'
     \<longleftrightarrow> e = e'"
  using error_code_value_range [of e] by (simp add: get_code_make error_code_value_inj)

end
