(* ===== verification/Extract.thy ===== *)
theory Extract
  imports PError
begin

text \<open>
  Decoding of integers received from the network (\<open>src/include/prelude-extract.h\<close>, and the encoder
  \<open>prelude_hton64\<close> of \<open>src/common.c\<close>). Everything is parameterised by the byte order of the host,
  since the source selects its code by it; the theorems hold for both.
\<close>

section \<open>Loads, with and without unaligned access\<close>

text \<open>
  Under \<open>PRELUDE_ALIGNED_ACCESS\<close> the header assembles an integer byte by byte, where the macro
  \<open>byte(type, buf, pos)\<close> picks byte \<open>pos\<close> counted from the most significant end; otherwise it
  dereferences the pointer, which is \<open>load16\<close>, \<open>load32\<close>, \<open>load64\<close>.
\<close>

definition byte_at :: "byte_order \<Rightarrow> nat \<Rightarrow> byte list \<Rightarrow> nat \<Rightarrow> byte" where
  "byte_at bo sz buf pos =
     (case bo of Big_Endian \<Rightarrow> buf ! pos | Little_Endian \<Rightarrow> buf ! (sz - 1 - pos))"

definition prelude_align_uint16 :: "byte_order \<Rightarrow> byte list \<Rightarrow> u16" where
  "prelude_align_uint16 bo buf =
     push_bit 8 (ucast (byte_at bo 2 buf 0)) OR ucast (byte_at bo 2 buf 1)"

definition prelude_align_uint32 :: "byte_order \<Rightarrow> byte list \<Rightarrow> u32" where
  "prelude_align_uint32 bo buf =
     push_bit 24 (ucast (byte_at bo 4 buf 0)) OR push_bit 16 (ucast (byte_at bo 4 buf 1)) OR
     push_bit 8 (ucast (byte_at bo 4 buf 2)) OR ucast (byte_at bo 4 buf 3)"

definition prelude_align_uint64 :: "byte_order \<Rightarrow> byte list \<Rightarrow> u64" where
  "prelude_align_uint64 bo buf =
     push_bit 56 (ucast (byte_at bo 8 buf 0)) OR push_bit 48 (ucast (byte_at bo 8 buf 1)) OR
     push_bit 40 (ucast (byte_at bo 8 buf 2)) OR push_bit 32 (ucast (byte_at bo 8 buf 3)) OR
     push_bit 24 (ucast (byte_at bo 8 buf 4)) OR push_bit 16 (ucast (byte_at bo 8 buf 5)) OR
     push_bit 8 (ucast (byte_at bo 8 buf 6)) OR ucast (byte_at bo 8 buf 7)"

section \<open>Extraction\<close>

definition prelude_extract_uint16 :: "byte_order \<Rightarrow> byte list \<Rightarrow> u16" where
  "prelude_extract_uint16 bo buf = ntohs bo (load16 bo buf)"

definition prelude_extract_uint32 :: "byte_order \<Rightarrow> byte list \<Rightarrow> u32" where
  "prelude_extract_uint32 bo buf = ntohl bo (load32 bo buf)"

text \<open>The signed variant returns the same bits; the value is their two's complement reading.\<close>

definition prelude_extract_int32 :: "byte_order \<Rightarrow> byte list \<Rightarrow> int" where
  "prelude_extract_int32 bo buf = sint (ntohl bo (load32 bo buf))"

text \<open>
  The 64 bit conversions swap the two 32 bit halves of a union and the bytes of each half, on a
  little endian host; on a big endian host they do nothing.
\<close>

definition union32 :: "byte_order \<Rightarrow> u64 \<Rightarrow> u32 \<times> u32" where
  "union32 bo w = (load32 bo (take 4 (mem64 bo w)), load32 bo (drop 4 (mem64 bo w)))"

definition of_union32 :: "byte_order \<Rightarrow> u32 \<times> u32 \<Rightarrow> u64" where
  "of_union32 bo v = load64 bo (mem32 bo (fst v) @ mem32 bo (snd v))"

definition prelude_extract_uint64 :: "byte_order \<Rightarrow> byte list \<Rightarrow> u64" where
  "prelude_extract_uint64 bo buf =
     (case bo of
        Big_Endian \<Rightarrow> load64 bo buf
      | Little_Endian \<Rightarrow>
          (let r = union32 bo (load64 bo buf)
           in of_union32 bo (ntohl bo (snd r), ntohl bo (fst r))))"

definition prelude_hton64 :: "byte_order \<Rightarrow> u64 \<Rightarrow> u64" where
  "prelude_hton64 bo val =
     (case bo of
        Big_Endian \<Rightarrow> val
      | Little_Endian \<Rightarrow>
          (let r = union32 bo val in of_union32 bo (htonl bo (snd r), htonl bo (fst r))))"

text \<open>The safe variants check the length of the buffer first.\<close>

definition prelude_extract_uint8_safe :: "byte list \<Rightarrow> nat \<Rightarrow> byte result" where
  "prelude_extract_uint8_safe buf len =
     (if len \<noteq> 1 then Inl PRELUDE_ERROR_INVAL_INT8 else Inr (buf ! 0))"

definition prelude_extract_uint16_safe :: "byte_order \<Rightarrow> byte list \<Rightarrow> nat \<Rightarrow> u16 result" where
  "prelude_extract_uint16_safe bo buf len =
     (if len \<noteq> 2 then Inl PRELUDE_ERROR_INVAL_INT16 else Inr (prelude_extract_uint16 bo buf))"

definition prelude_extract_uint32_safe :: "byte_order \<Rightarrow> byte list \<Rightarrow> nat \<Rightarrow> u32 result" where
  "prelude_extract_uint32_safe bo buf len =
     (if len \<noteq> 4 then Inl PRELUDE_ERROR_INVAL_INT32 else Inr (prelude_extract_uint32 bo buf))"

definition prelude_extract_int32_safe :: "byte_order \<Rightarrow> byte list \<Rightarrow> nat \<Rightarrow> int result" where
  "prelude_extract_int32_safe bo buf len =
     (if len \<noteq> 4 then Inl PRELUDE_ERROR_INVAL_INT32 else Inr (prelude_extract_int32 bo buf))"

definition prelude_extract_uint64_safe :: "byte_order \<Rightarrow> byte list \<Rightarrow> nat \<Rightarrow> u64 result" where
  "prelude_extract_uint64_safe bo buf len =
     (if len \<noteq> 8 then Inl PRELUDE_ERROR_INVAL_INT64 else Inr (prelude_extract_uint64 bo buf))"

definition prelude_extract_characters_safe :: "byte list \<Rightarrow> nat \<Rightarrow> byte list result" where
  "prelude_extract_characters_safe buf len =
     (if len < 2 \<or> buf ! (len - 1) \<noteq> 0 then Inl PRELUDE_ERROR_INVAL_CHAR else Inr buf)"

section \<open>Correctness\<close>

lemma length4E: "length bs = 4 \<Longrightarrow> (\<And>a b c d. bs = [a, b, c, d] \<Longrightarrow> P) \<Longrightarrow> P"
  by (auto simp: numeral_eq_Suc length_Suc_conv)

lemma length2E: "length bs = 2 \<Longrightarrow> (\<And>a b. bs = [a, b] \<Longrightarrow> P) \<Longrightarrow> P"
  by (auto simp: numeral_eq_Suc length_Suc_conv)

lemma length8E:
  "length bs = 8 \<Longrightarrow> (\<And>a b c d e f g h. bs = [a, b, c, d, e, f, g, h] \<Longrightarrow> P) \<Longrightarrow> P"
  by (auto simp: numeral_eq_Suc length_Suc_conv)

lemma align_uint16_load: "length buf = 2 \<Longrightarrow> prelude_align_uint16 bo buf = load16 bo buf"
  by (erule length2E)
    (simp add: prelude_align_uint16_def byte_at_def load16_def split: byte_order.split)

lemma align_uint32_load: "length buf = 4 \<Longrightarrow> prelude_align_uint32 bo buf = load32 bo buf"
  by (erule length4E)
    (simp add: prelude_align_uint32_def byte_at_def load32_def split: byte_order.split)

lemma ucast_shifted_byte:
  "n \<le> 24 \<Longrightarrow> ucast (push_bit n (ucast (a :: byte)) :: u32) = (push_bit n (ucast a) :: u64)"
  by (rule bit_word_eqI) (auto simp: bit_simps dest: bit_imp_le_length)

lemma ucast_byte_twice: "ucast (ucast (a :: byte) :: u32) = (ucast a :: u64)"
  using ucast_shifted_byte [of 0 a] by simp

lemma be_halves: "push_bit 32 (ucast (of_be32 [a, b, c, d])) OR ucast (of_be32 [e, f, g, h]) =
    (push_bit 56 (ucast a) OR push_bit 48 (ucast b) OR push_bit 40 (ucast c) OR
     push_bit 32 (ucast d) OR push_bit 24 (ucast e) OR push_bit 16 (ucast f) OR
     push_bit 8 (ucast g) OR ucast h :: u64)"
  by (simp add: unsigned_or_eq ucast_shifted_byte ucast_byte_twice push_bit_push_bit or.assoc)

lemma align_uint64_load: "length buf = 8 \<Longrightarrow> prelude_align_uint64 bo buf = load64 bo buf"
  by (erule length8E) (simp add: prelude_align_uint64_def byte_at_def load64_def be_halves
      del: of_be32.simps split: byte_order.split)

lemma join32_halves:
  fixes x y :: u32
  defines "w \<equiv> push_bit 32 (ucast x) OR ucast y :: u64"
  shows "ucast (drop_bit 32 w) = x" "ucast w = y"
proof -
  have "\<not> bit y (32 + n)" for n
    using bit_imp_le_length [of y "32 + n"] by auto
  then show "ucast (drop_bit 32 w) = x" "ucast w = y"
    unfolding w_def by (auto intro!: bit_word_eqI simp: bit_simps)
qed

lemma be64_of_be64: "length bs = 8 \<Longrightarrow> be64 (of_be64 bs) = bs"
  by (erule length8E)
    (simp only: of_be64.simps be64_def join32_halves be32_of_be32 append.simps)

lemma mem64_load64: "length bs = 8 \<Longrightarrow> mem64 bo (load64 bo bs) = bs"
  by (simp add: mem64_def load64_def be64_of_be64 split: byte_order.split)

lemma of_union32_swap:
  "of_union32 Little_Endian (lo, hi) = of_be64 (be32 hi @ be32 lo)"
  by (simp add: of_union32_def load64_def mem32_def)

lemma extract_uint64_be64 [simp, wire]: "prelude_extract_uint64 bo (be64 w) = w"
proof (cases bo)
  case Little_Endian
  have "union32 bo (load64 bo (be64 w)) =
      (load32 bo (be32 (ucast (drop_bit 32 w))), load32 bo (be32 (ucast w)))"
    by (simp add: union32_def mem64_load64) (simp add: be64_def)
  then have "prelude_extract_uint64 bo (be64 w) =
      of_be64 (be32 (ucast (drop_bit 32 w)) @ be32 (ucast w))"
    using Little_Endian by (simp add: prelude_extract_uint64_def Let_def of_union32_swap)
  also have "\<dots> = w"
    by (simp flip: be64_def)
  finally show ?thesis .
qed (simp add: prelude_extract_uint64_def load64_def)

lemma mem64_hton64 [simp, wire]: "mem64 bo (prelude_hton64 bo w) = be64 w"
proof (cases bo)
  case Little_Endian
  have "rev (be64 w) = rev (be32 (ucast w)) @ rev (be32 (ucast (drop_bit 32 w)))"
    by (simp add: be64_def)
  then have "union32 bo w = (ucast w, ucast (drop_bit 32 w))"
    using Little_Endian by (simp add: union32_def mem64_def load32_def)
  then have "mem64 bo (prelude_hton64 bo w) =
      mem32 bo (htonl bo (ucast (drop_bit 32 w))) @ mem32 bo (htonl bo (ucast w))"
    using Little_Endian by (simp add: prelude_hton64_def Let_def of_union32_def mem64_load64)
  then show ?thesis by (simp add: be64_def)
qed (simp add: prelude_hton64_def mem64_def)

lemma extract_uint32_be32 [simp, wire]: "prelude_extract_uint32 bo (be32 w) = w"
  by (simp add: prelude_extract_uint32_def)

lemma extract_uint16_be16 [simp, wire]: "prelude_extract_uint16 bo (be16 w) = w"
  by (simp add: prelude_extract_uint16_def)

lemma extract_uint32_of_be32:
  assumes "length bs = 4"
  shows "prelude_extract_uint32 bo bs = of_be32 bs"
proof -
  have "bs = be32 (of_be32 bs)"
    using assms by (elim length4E) (simp only: be32_of_be32)
  then show ?thesis by (metis extract_uint32_be32)
qed

text \<open>
  On either byte order, an integer stored in memory in network order by \<open>htons\<close>, \<open>htonl\<close> or
  \<open>prelude_hton64\<close> is read back by the corresponding extraction function, and the byte-wise
  loads of the \<open>PRELUDE_ALIGNED_ACCESS\<close> build give the same values as the direct loads.
\<close>

theorem extract_roundtrip:
  "prelude_extract_uint16_safe bo (mem16 bo (htons bo a)) 2 = Inr a
   \<and> prelude_extract_uint32_safe bo (mem32 bo (htonl bo b)) 4 = Inr b
   \<and> prelude_extract_int32_safe bo (mem32 bo (htonl bo b)) 4 = Inr (sint b)
   \<and> prelude_extract_uint64_safe bo (mem64 bo (prelude_hton64 bo c)) 8 = Inr c
   \<and> prelude_align_uint16 bo (mem16 bo a) = a
   \<and> prelude_align_uint32 bo (mem32 bo b) = b
   \<and> prelude_align_uint64 bo (mem64 bo c) = c"
  by (simp add: prelude_extract_uint16_safe_def prelude_extract_uint32_safe_def
      prelude_extract_int32_safe_def prelude_extract_uint64_safe_def prelude_extract_int32_def
      align_uint16_load align_uint32_load align_uint64_load)

end
