(* ===== verification/PIo.thy ===== *)
theory PIo
  imports Extract
begin

text \<open>
  Input and output objects (\<open>src/prelude-io.c\<close>): the in-memory buffer, file streams and plain file
  descriptors behind one \<open>read\<close>/\<open>write\<close> interface. The kernel side of a descriptor is a type
  parameter \<open>'k\<close>, and the system calls \<open>read\<close> and \<open>write\<close> are arguments of the definitions. The
  TLS variant rests on GnuTLS and is not modelled.

  The two locales at the end state what a reader and a writer of bytes promise to the message
  layer; the buffer and descriptor variants are instances.
\<close>

section \<open>The object\<close>

datatype 'a sysret = Sys_Ok 'a | Sys_Err errno

text \<open>The functions installed by \<open>prelude_io_set_buffer_io\<close>, \<open>..._file_io\<close>, \<open>..._sys_io\<close>.\<close>

datatype io_functions = Buffer_Io | File_Io | Sys_Io

text \<open>\<open>fd_ptr\<close>: a null pointer, a memory block, or a stream with its unread and its written bytes.\<close>

datatype fd_ptr = Null | Block "byte list" | Stream "byte list" "byte list"

record 'k prelude_io =
  io_fd :: 'k
  io_fd_ptr :: fd_ptr
  io_size :: nat
  io_rindex :: nat
  io_ops :: "io_functions option"

type_synonym ('a, 'k) io_result = "('a result \<times> 'k prelude_io) option"

section \<open>Memory buffers\<close>

definition buffer_read :: "'k prelude_io \<Rightarrow> nat \<Rightarrow> (byte list, 'k) io_result" where
  "buffer_read pio count =
     (if size_sub (io_size pio) (io_rindex pio) = 0 then Some (Inr [], pio)
      else let n = min count (size_sub (io_size pio) (io_rindex pio)) in
        case io_fd_ptr pio of
          Block blk \<Rightarrow> map_option (\<lambda>bs. (Inr bs, pio\<lparr>io_rindex := size_add (io_rindex pio) n\<rparr>))
                        (mem_read blk (io_rindex pio) n)
        | _ \<Rightarrow> None)"

text \<open>\<open>mem_ok n\<close> tells whether an allocation of \<open>n\<close> bytes succeeds.\<close>

definition buffer_write ::
  "(nat \<Rightarrow> bool) \<Rightarrow> 'k prelude_io \<Rightarrow> byte list \<Rightarrow> (nat, 'k) io_result" where
  "buffer_write mem_ok pio buf =
     (let count = length buf; n = size_add (io_size pio) count in
      if n \<le> io_size pio then Some (Inl PRELUDE_ERROR_GENERIC, pio)
      else if \<not> mem_ok n then Some (Inl PRELUDE_ERROR_ENOMEM, pio)
      else
        let blk = (case io_fd_ptr pio of Block b \<Rightarrow> resize_block b n | _ \<Rightarrow> resize_block [] n)
        in map_option (\<lambda>new. (Inr count, pio\<lparr>io_fd_ptr := Block new, io_size := n\<rparr>))
             (mem_write blk (io_size pio) buf))"

definition buffer_close :: "'k prelude_io \<Rightarrow> (unit, 'k) io_result" where
  "buffer_close pio =
     Some (Inr (), if io_fd_ptr pio \<noteq> Null
                   then pio\<lparr>io_fd_ptr := Null, io_size := 0, io_rindex := 0\<rparr> else pio)"

definition buffer_pending :: "'k prelude_io \<Rightarrow> nat result" where
  "buffer_pending pio = Inr (size_sub (io_size pio) (io_rindex pio))"

section \<open>Streams\<close>

text \<open>
  \<open>fread(buf, count, 1, fd)\<close> reads one item of \<open>count\<close> bytes: it succeeds when that many bytes
  are left, and otherwise consumes what is left and reports the end of the file.
\<close>

definition file_read :: "'k prelude_io \<Rightarrow> nat \<Rightarrow> (byte list, 'k) io_result" where
  "file_read pio count =
     (case io_fd_ptr pio of
        Stream unread written \<Rightarrow>
          if 0 < count \<and> count \<le> length unread
          then Some (Inr (take count unread),
                     pio\<lparr>io_fd_ptr := Stream (drop count unread) written\<rparr>)
          else Some (Inl PRELUDE_ERROR_EOF,
                     pio\<lparr>io_fd_ptr := Stream (drop count unread) written\<rparr>)
      | Null \<Rightarrow> Some (Inl PRELUDE_ERROR_ASSERTION, pio)
      | Block _ \<Rightarrow> None)"

definition file_write :: "'k prelude_io \<Rightarrow> byte list \<Rightarrow> (nat, 'k) io_result" where
  "file_write pio buf =
     (case io_fd_ptr pio of
        Stream unread written \<Rightarrow>
          Some (Inr (length buf), pio\<lparr>io_fd_ptr := Stream unread (written @ buf)\<rparr>)
      | Null \<Rightarrow> Some (Inl PRELUDE_ERROR_ASSERTION, pio)
      | Block _ \<Rightarrow> None)"

section \<open>File descriptors\<close>

text \<open>A system call is repeated while it is interrupted, so the loop may not return (\<open>None\<close>).\<close>

partial_function (option) retry_eintr :: "('k \<Rightarrow> 'a sysret \<times> 'k) \<Rightarrow> 'k \<Rightarrow> ('a sysret \<times> 'k) option"
where
  "retry_eintr call k =
     (let rk = call k in if fst rk = Sys_Err EINTR then retry_eintr call (snd rk) else Some rk)"

definition sys_read ::
  "('k \<Rightarrow> nat \<Rightarrow> byte list sysret \<times> 'k) \<Rightarrow> 'k prelude_io \<Rightarrow> nat \<Rightarrow> (byte list, 'k) io_result" where
  "sys_read kread pio count =
     map_option (\<lambda>(ret, k).
        (case ret of
           Sys_Ok bs \<Rightarrow> if bs = [] then Inl PRELUDE_ERROR_EOF else Inr bs
         | Sys_Err e \<Rightarrow>
             if e = ECONNRESET then Inl PRELUDE_ERROR_EOF else Inl (prelude_error_from_errno e),
         pio\<lparr>io_fd := k\<rparr>))
       (retry_eintr (\<lambda>k. kread k count) (io_fd pio))"

definition sys_write ::
  "('k \<Rightarrow> byte list \<Rightarrow> nat sysret \<times> 'k) \<Rightarrow> 'k prelude_io \<Rightarrow> byte list \<Rightarrow> (nat, 'k) io_result" where
  "sys_write kwrite pio buf =
     map_option (\<lambda>(ret, k).
        (case ret of Sys_Ok n \<Rightarrow> Inr n | Sys_Err e \<Rightarrow> Inl (prelude_error_from_errno e),
         pio\<lparr>io_fd := k\<rparr>))
       (retry_eintr (\<lambda>k. kwrite k buf) (io_fd pio))"

section \<open>The generic interface\<close>

definition prelude_io_new :: "'k \<Rightarrow> 'k prelude_io" where
  "prelude_io_new k =
     \<lparr>io_fd = k, io_fd_ptr = Null, io_size = 0, io_rindex = 0, io_ops = None\<rparr>"

definition prelude_io_set_buffer_io :: "'k prelude_io \<Rightarrow> 'k prelude_io" where
  "prelude_io_set_buffer_io pio =
     pio\<lparr>io_fd_ptr := Null, io_size := 0, io_rindex := 0, io_ops := Some Buffer_Io\<rparr>"

definition prelude_io_set_sys_io :: "'k prelude_io \<Rightarrow> 'k \<Rightarrow> 'k prelude_io" where
  "prelude_io_set_sys_io pio fd = pio\<lparr>io_fd := fd, io_fd_ptr := Null, io_ops := Some Sys_Io\<rparr>"

definition prelude_io_set_file_io :: "'k prelude_io \<Rightarrow> 'k \<Rightarrow> byte list \<Rightarrow> 'k prelude_io" where
  "prelude_io_set_file_io pio fileno content =
     pio\<lparr>io_fd := fileno, io_fd_ptr := Stream content [], io_ops := Some File_Io\<rparr>"

definition prelude_io_read ::
  "('k \<Rightarrow> nat \<Rightarrow> byte list sysret \<times> 'k) \<Rightarrow> 'k prelude_io \<Rightarrow> nat \<Rightarrow> (byte list, 'k) io_result" where
  "prelude_io_read kread pio count =
     (case io_ops pio of
        None \<Rightarrow> Some (Inl PRELUDE_ERROR_ASSERTION, pio)
      | Some Buffer_Io \<Rightarrow> buffer_read pio count
      | Some File_Io \<Rightarrow> file_read pio count
      | Some Sys_Io \<Rightarrow> sys_read kread pio count)"

definition prelude_io_write ::
  "(nat \<Rightarrow> bool) \<Rightarrow> ('k \<Rightarrow> byte list \<Rightarrow> nat sysret \<times> 'k) \<Rightarrow> 'k prelude_io \<Rightarrow> byte list
     \<Rightarrow> (nat, 'k) io_result" where
  "prelude_io_write mem_ok kwrite pio buf =
     (case io_ops pio of
        None \<Rightarrow> Some (Inl PRELUDE_ERROR_ASSERTION, pio)
      | Some Buffer_Io \<Rightarrow> buffer_write mem_ok pio buf
      | Some File_Io \<Rightarrow> file_write pio buf
      | Some Sys_Io \<Rightarrow> sys_write kwrite pio buf)"

definition prelude_io_is_error_fatal :: "prelude_error_code option \<Rightarrow> bool" where
  "prelude_io_is_error_fatal error =
     (case error of
        None \<Rightarrow> False
      | Some code \<Rightarrow> \<not> (code = PRELUDE_ERROR_EAGAIN \<or> code = PRELUDE_ERROR_EINTR \<or>
                         code = PRELUDE_ERROR_TLS_WARNING_ALERT))"

text \<open>
  \<open>copy_forward\<close> moves \<open>count\<close> bytes in pieces of at most 8192. A read of zero bytes makes it
  return zero; otherwise it returns the count it was called with. How much of a piece the
  destination took is not looked at.
\<close>

partial_function (option) copy_loop ::
  "('src \<Rightarrow> nat \<Rightarrow> (byte list result \<times> 'src) option) \<Rightarrow>
   ('dst \<Rightarrow> byte list \<Rightarrow> (nat result \<times> 'dst) option) \<Rightarrow>
   nat \<Rightarrow> 'dst \<Rightarrow> 'src \<Rightarrow> nat \<Rightarrow> (nat result \<times> 'dst \<times> 'src) option"
where
  "copy_loop rd wr scount dst src count =
     (if count = 0 then Some (Inr scount, dst, src)
      else Option.bind (rd src (min count 8192)) (\<lambda>r.
        case fst r of
          Inl e \<Rightarrow> Some (Inl e, dst, snd r)
        | Inr bs \<Rightarrow>
            if bs = [] then Some (Inr 0, dst, snd r)
            else Option.bind (wr dst bs) (\<lambda>w.
              case fst w of
                Inl e \<Rightarrow> Some (Inl e, snd w, snd r)
              | Inr _ \<Rightarrow> copy_loop rd wr scount (snd w) (snd r) (size_sub count (length bs)))))"

definition copy_forward ::
  "('src \<Rightarrow> nat \<Rightarrow> (byte list result \<times> 'src) option) \<Rightarrow>
   ('dst \<Rightarrow> byte list \<Rightarrow> (nat result \<times> 'dst) option) \<Rightarrow>
   'dst \<Rightarrow> 'src \<Rightarrow> nat \<Rightarrow> (nat result \<times> 'dst \<times> 'src) option" where
  "copy_forward rd wr dst src count = copy_loop rd wr count dst src count"

section \<open>Readers and writers of bytes\<close>

text \<open>
  What the message layer relies on when it reads: data comes from the front of the unread bytes
  and is never longer than asked, an error leaves the unread bytes alone, and a reader reports the
  end (by zero bytes, or by \<open>PRELUDE_ERROR_EOF\<close>) only when nothing is left.
\<close>

locale byte_source =
  fixes rd :: "'io \<Rightarrow> nat \<Rightarrow> (byte list result \<times> 'io) option"
    and unread :: "'io \<Rightarrow> byte list"
    and rok :: "'io \<Rightarrow> bool"
  assumes rd_data: "rok io \<Longrightarrow> rd io n = Some (Inr bs, io') \<Longrightarrow>
      rok io' \<and> length bs \<le> n \<and> unread io = bs @ unread io'"
    and rd_nothing: "rok io \<Longrightarrow> rd io n = Some (Inr [], io') \<Longrightarrow> 0 < n \<Longrightarrow> unread io = []"
    and rd_error: "rok io \<Longrightarrow> rd io n = Some (Inl e, io') \<Longrightarrow> rok io' \<and> unread io' = unread io"
    and rd_eof: "rok io \<Longrightarrow> rd io n = Some (Inl PRELUDE_ERROR_EOF, io') \<Longrightarrow> 0 < n \<Longrightarrow> unread io = []"

text \<open>A source that has data delivers some of it, or an error.\<close>

locale live_source = byte_source +
  assumes rd_live: "rok io \<Longrightarrow> 0 < n \<Longrightarrow> unread io \<noteq> [] \<Longrightarrow> \<exists>r io'. rd io n = Some (r, io')"

text \<open>A source that asks for patience (\<open>PRELUDE_ERROR_EAGAIN\<close>) finitely often.\<close>

locale patient_source = live_source +
  fixes patience :: "'io \<Rightarrow> nat"
  assumes rd_patience: "rd io n = Some (r, io') \<Longrightarrow> patience io' \<le> patience io \<and>
      (r = Inl PRELUDE_ERROR_EAGAIN \<longrightarrow> patience io' < patience io)"
begin

definition patience_after :: "'io \<Rightarrow> 'r result \<Rightarrow> 'io \<Rightarrow> bool" where
  "patience_after io r io' \<longleftrightarrow> patience io' \<le> patience io \<and>
     (r = Inl PRELUDE_ERROR_EAGAIN \<longrightarrow> patience io' < patience io)"

lemma patience_trans:
  "patience_after io r io1 \<Longrightarrow> patience_after io1 r' io2 \<Longrightarrow> patience_after io r' io2"
  by (auto simp: patience_after_def)

lemma patience_rd: "rd io n = Some (r, io') \<Longrightarrow> patience_after io r io'"
  using rd_patience by (auto simp: patience_after_def)

end

text \<open>A writer that takes whatever it is given, as long as its capacity lasts.\<close>

locale byte_sink =
  fixes wr :: "'io \<Rightarrow> byte list \<Rightarrow> (nat result \<times> 'io) option"
    and written :: "'io \<Rightarrow> byte list"
    and wok :: "'io \<Rightarrow> bool"
    and room :: "'io \<Rightarrow> nat"
  assumes wr_all: "wok io \<Longrightarrow> bs \<noteq> [] \<Longrightarrow> length bs < room io \<Longrightarrow>
      \<exists>io'. wr io bs = Some (Inr (length bs), io') \<and> wok io'
        \<and> written io' = written io @ bs \<and> room io' = room io - length bs"

subsection \<open>The memory buffer\<close>

definition buffer_content :: "'k prelude_io \<Rightarrow> byte list" where
  "buffer_content pio = (case io_fd_ptr pio of Block blk \<Rightarrow> blk | _ \<Rightarrow> [])"

definition buffer_ok :: "'k prelude_io \<Rightarrow> bool" where
  "buffer_ok pio \<longleftrightarrow>
     io_size pio = length (buffer_content pio) \<and> io_rindex pio \<le> io_size pio
     \<and> io_size pio < 2 ^ 64 \<and> (\<forall>u w. io_fd_ptr pio \<noteq> Stream u w)"

definition buffer_unread :: "'k prelude_io \<Rightarrow> byte list" where
  "buffer_unread pio = drop (io_rindex pio) (buffer_content pio)"

definition buffer_room :: "'k prelude_io \<Rightarrow> nat" where
  "buffer_room pio = 2 ^ 64 - io_size pio"

lemma buffer_new_ok: "buffer_ok (prelude_io_set_buffer_io pio)"
    "buffer_content (prelude_io_set_buffer_io pio) = []"
    "buffer_unread (prelude_io_set_buffer_io pio) = []"
    "buffer_room (prelude_io_set_buffer_io pio) = 2 ^ 64"
  by (simp_all add: prelude_io_set_buffer_io_def buffer_ok_def buffer_content_def
      buffer_unread_def buffer_room_def)

lemma buffer_read_eq:
  assumes "buffer_ok pio"
  shows "buffer_read pio n =
    Some (Inr (take n (buffer_unread pio)),
          pio\<lparr>io_rindex := io_rindex pio + min n (length (buffer_unread pio))\<rparr>)"
  using assms
  by (cases "io_fd_ptr pio")
    (auto simp: buffer_read_def buffer_ok_def buffer_unread_def buffer_content_def mem_read_def
      Let_def min_def)

lemma buffer_unread_advance:
  assumes "buffer_ok pio" and "m = min n (length (buffer_unread pio))"
  shows "buffer_ok (pio\<lparr>io_rindex := io_rindex pio + m\<rparr>)"
    and "buffer_unread (pio\<lparr>io_rindex := io_rindex pio + m\<rparr>) = drop n (buffer_unread pio)"
proof -
  have "buffer_unread (pio\<lparr>io_rindex := io_rindex pio + m\<rparr>) = drop m (buffer_unread pio)"
    by (simp add: buffer_unread_def buffer_content_def add.commute)
  also have "\<dots> = drop n (buffer_unread pio)"
    using assms(2) by (simp add: min_def)
  finally show "buffer_unread (pio\<lparr>io_rindex := io_rindex pio + m\<rparr>) = drop n (buffer_unread pio)" .
  show "buffer_ok (pio\<lparr>io_rindex := io_rindex pio + m\<rparr>)"
    using assms by (auto simp: buffer_ok_def buffer_unread_def buffer_content_def)
qed

lemma buffer_read_no_error: "buffer_read pio n = Some (Inl e, io') \<longleftrightarrow> False"
  by (auto simp: buffer_read_def Let_def split: if_splits fd_ptr.splits)

interpretation buf_src: patient_source buffer_read buffer_unread buffer_ok "\<lambda>_. 0"
  by unfold_locales
    (auto simp: buffer_read_eq buffer_read_no_error buffer_unread_advance [OF _ refl] dest: sym)

lemma buffer_write_eq:
  assumes "buffer_ok pio" "bs \<noteq> []" "length bs < buffer_room pio"
    and "mem_ok (io_size pio + length bs)"
  shows "buffer_write mem_ok pio bs =
    Some (Inr (length bs), pio\<lparr>io_fd_ptr := Block (buffer_content pio @ bs),
                              io_size := io_size pio + length bs\<rparr>)"
  using assms mem_write_resize [of "buffer_content pio" bs]
  by (cases "io_fd_ptr pio")
    (auto simp: buffer_write_def buffer_ok_def buffer_content_def buffer_room_def Let_def)

interpretation buf_snk: byte_sink "buffer_write (\<lambda>_. True)" buffer_unread buffer_ok buffer_room
  by unfold_locales
    (auto simp: buffer_write_eq,
     auto simp: buffer_ok_def buffer_unread_def buffer_content_def buffer_room_def)

end
