(* ===== verification/IoDelimited.thy ===== *)
theory IoDelimited
  imports PIo
begin

text \<open>
  Blocking and length-delimited transfers (\<open>src/prelude-io.c\<close>). \<open>poll\<close> stands for the system call on
  the descriptor of the object: an error, or whether \<open>POLLIN\<close> is set in the returned events.
\<close>

section \<open>Operations\<close>

partial_function (option) read_wait_loop ::
  "('io \<Rightarrow> bool result) \<Rightarrow> ('io \<Rightarrow> nat \<Rightarrow> (byte list result \<times> 'io) option) \<Rightarrow> byte list \<Rightarrow> nat \<Rightarrow> 'io
     \<Rightarrow> (byte list result \<times> 'io) option"
where
  "read_wait_loop poll rd got count io =
     (case poll io of
        Inl e \<Rightarrow> Some (Inl e, io)
      | Inr pollin \<Rightarrow>
          if \<not> pollin then Some (Inl PRELUDE_ERROR_GENERIC, io)
          else Option.bind (rd io (count - length got)) (\<lambda>r.
            case fst r of
              Inl e \<Rightarrow> Some (Inl e, snd r)
            | Inr bs \<Rightarrow>
                if length (got @ bs) = count then Some (Inr (got @ bs), snd r)
                else read_wait_loop poll rd (got @ bs) count (snd r)))"

definition prelude_io_read_wait ::
  "('io \<Rightarrow> bool result) \<Rightarrow> ('io \<Rightarrow> nat \<Rightarrow> (byte list result \<times> 'io) option) \<Rightarrow> 'io \<Rightarrow> nat
     \<Rightarrow> (byte list result \<times> 'io) option" where
  "prelude_io_read_wait poll rd io count = read_wait_loop poll rd [] count io"

text \<open>
  A length of zero bytes read (\<open>ret <= 0\<close>) is returned as it is; it does not occur, as
  \<open>prelude_io_read_wait\<close> returns the two bytes it was asked for.
\<close>

definition prelude_io_read_delimited ::
  "byte_order \<Rightarrow> (nat \<Rightarrow> bool) \<Rightarrow> ('io \<Rightarrow> bool result) \<Rightarrow> ('io \<Rightarrow> nat \<Rightarrow> (byte list result \<times> 'io) option)
     \<Rightarrow> 'io \<Rightarrow> (byte list result \<times> 'io) option" where
  "prelude_io_read_delimited bo mem_ok poll rd io =
     Option.bind (prelude_io_read_wait poll rd io 2) (\<lambda>(ret, io1).
       case ret of
         Inl e \<Rightarrow> Some (Inl e, io1)
       | Inr msglen \<Rightarrow>
           if msglen = [] then Some (Inr [], io1)
           else
             let count = unat (ntohs bo (load16 bo msglen)) in
             if \<not> mem_ok count then Some (Inl PRELUDE_ERROR_ENOMEM, io1)
             else prelude_io_read_wait poll rd io1 count)"

definition prelude_io_write_delimited ::
  "byte_order \<Rightarrow> ('io \<Rightarrow> byte list \<Rightarrow> (nat result \<times> 'io) option) \<Rightarrow> 'io \<Rightarrow> byte list
     \<Rightarrow> (nat result \<times> 'io) option" where
  "prelude_io_write_delimited bo wr io buf =
     Option.bind (wr io (mem16 bo (htons bo (of_nat (length buf))))) (\<lambda>(ret, io1).
       if (case ret of Inl e \<Rightarrow> True | Inr n \<Rightarrow> n = 0) then Some (ret, io1)
       else Option.bind (wr io1 buf) (\<lambda>(ret, io2).
         if (case ret of Inl e \<Rightarrow> True | Inr n \<Rightarrow> n = 0) then Some (ret, io2)
         else Some (Inr (length buf), io2)))"

section \<open>A blocking read returns what was asked for\<close>

text \<open>A reader that always has data ready and reports no error.\<close>

locale ready_source = live_source +
  assumes rd_quiet: "rd io n \<noteq> Some (Inl e, io')"
begin

lemma read_wait_loop_reads:
  assumes "rok io" "length got < count" "unread io = bs @ rest" "length got + length bs = count"
  shows "\<exists>io'. read_wait_loop (\<lambda>_. Inr True) rd got count io = Some (Inr (got @ bs), io') \<and>
    rok io' \<and> unread io' = rest"
  using assms
proof (induction "length bs" arbitrary: got io bs rule: less_induct)
  case less
  have ne: "unread io \<noteq> []" "0 < count - length got" using less.prems by auto
  obtain r io1 where r: "rd io (count - length got) = Some (r, io1)"
    using rd_live [OF less.prems(1) ne(2,1)] by blast
  then obtain cs where cs: "r = Inr cs" using rd_quiet by (cases r) auto
  have d: "rok io1" "length cs \<le> length bs" "bs @ rest = cs @ unread io1" "cs \<noteq> []"
    using rd_data [OF less.prems(1)] rd_nothing [OF less.prems(1)] r cs less.prems ne by auto
  define bs1 where "bs1 = drop (length cs) bs"
  have "cs = take (length cs) (bs @ rest)" using d(3) by simp
  then have split: "bs = cs @ bs1"
    using d(2) by (metis append_take_drop_id bs1_def diff_is_0_eq take0 take_append append_Nil2)
  then have un: "unread io1 = bs1 @ rest" using d(3) by simp
  show ?case
  proof (cases "length (got @ cs) = count")
    case True
    then have "bs1 = []" using split less.prems(4) by auto
    then show ?thesis
      using r cs True split un d(1) by (subst read_wait_loop.simps) simp
  next
    case False
    then have "length (got @ cs) < count" using split less.prems(4) by auto
    moreover have "length bs1 < length bs" using split d(4) by (cases cs) auto
    ultimately obtain io' where "read_wait_loop (\<lambda>_. Inr True) rd (got @ cs) count io1 =
        Some (Inr ((got @ cs) @ bs1), io')" "rok io'" "unread io' = rest"
      using less.hyps [of bs1 io1 "got @ cs"] d(1) un split less.prems(4) by auto
    then show ?thesis using r cs False split by (subst read_wait_loop.simps) simp
  qed
qed

lemma read_wait_reads:
  assumes "rok io" "unread io = bs @ rest" "bs \<noteq> []"
  shows "\<exists>io'. prelude_io_read_wait (\<lambda>_. Inr True) rd io (length bs) = Some (Inr bs, io') \<and>
    rok io' \<and> unread io' = rest"
  using read_wait_loop_reads [OF assms(1), of "[]" "length bs" bs rest] assms
  by (simp add: prelude_io_read_wait_def)

lemma read_delimited_reads:
  assumes "rok io" "unread io = be16 (of_nat (length bs)) @ bs @ rest" "bs \<noteq> []" "length bs < 65536"
  shows "\<exists>io'. prelude_io_read_delimited bo (\<lambda>_. True) (\<lambda>_. Inr True) rd io = Some (Inr bs, io') \<and>
    rok io' \<and> unread io' = rest"
proof -
  let ?n = "of_nat (length bs) :: u16"
  have ne: "be16 ?n \<noteq> []" by (simp add: be16_def)
  obtain io1 where 1: "prelude_io_read_wait (\<lambda>_. Inr True) rd io 2 = Some (Inr (be16 ?n), io1)"
    "rok io1" "unread io1 = bs @ rest"
    using read_wait_reads [OF assms(1,2) ne] by auto
  have n: "unat ?n = length bs" using assms(4) by (subst unat_of_nat_small) simp_all
  obtain io2 where "prelude_io_read_wait (\<lambda>_. Inr True) rd io1 (length bs) = Some (Inr bs, io2)"
    "rok io2" "unread io2 = rest"
    using read_wait_reads [OF 1(2,3) assms(3)] by auto
  then show ?thesis
    using 1(1) n ne by (simp add: prelude_io_read_delimited_def Let_def)
qed

end

context byte_sink
begin

lemma write_delimited_writes:
  assumes "wok io" "bs \<noteq> []" "length bs + 2 < room io"
  shows "\<exists>io'. prelude_io_write_delimited bo wr io bs = Some (Inr (length bs), io') \<and> wok io' \<and>
    written io' = written io @ be16 (of_nat (length bs)) @ bs"
proof -
  let ?h = "be16 (of_nat (length bs))"
  have h: "?h \<noteq> []" "length ?h < room io" using assms by (auto simp: be16_def)
  obtain io1 where 1: "wr io ?h = Some (Inr (length ?h), io1)" "wok io1"
    "written io1 = written io @ ?h" "room io1 = room io - length ?h"
    using wr_all [OF assms(1) h] by blast
  have "length bs < room io1" using 1(4) assms(3) by simp
  then obtain io2 where "wr io1 bs = Some (Inr (length bs), io2)" "wok io2"
    "written io2 = written io1 @ bs"
    using wr_all [OF 1(2) assms(2)] by blast
  then show ?thesis using 1 assms(2) by (simp add: prelude_io_write_delimited_def)
qed

end

interpretation buf_rdy: ready_source buffer_read buffer_unread buffer_ok
  by unfold_locales (simp add: buffer_read_no_error)

text \<open>
  What \<open>prelude_io_write_delimited\<close> writes to a memory buffer (up to 65535 bytes, and at least
  one), \<open>prelude_io_read_delimited\<close> returns, on a host of either byte order, leaving what follows.
\<close>

theorem delimited_roundtrip:
  assumes "buffer_ok io" "buffer_unread io = []" "io_size io < 2 ^ 63" "bs \<noteq> []" "length bs < 65536"
  shows "\<exists>io1 io2. prelude_io_write_delimited bo (buffer_write (\<lambda>_. True)) io bs = Some (Inr (length bs), io1) \<and>
    prelude_io_read_delimited bo' (\<lambda>_. True) (\<lambda>_. Inr True) buffer_read io1 = Some (Inr bs, io2) \<and>
    buffer_ok io2 \<and> buffer_unread io2 = []"
proof -
  have "length bs + 2 < buffer_room io" using assms by (simp add: buffer_room_def)
  then obtain io1 where 1: "prelude_io_write_delimited bo (buffer_write (\<lambda>_. True)) io bs =
      Some (Inr (length bs), io1)" "buffer_ok io1"
    "buffer_unread io1 = be16 (of_nat (length bs)) @ bs @ []"
    using buf_snk.write_delimited_writes [OF assms(1,4)] assms(2) by auto
  obtain io2 where 2: "prelude_io_read_delimited bo' (\<lambda>_. True) (\<lambda>_. Inr True) buffer_read io1 = Some (Inr bs, io2)"
    "buffer_ok io2" "buffer_unread io2 = []"
    using buf_rdy.read_delimited_reads [OF 1(2,3) assms(4,5)] by blast
  show ?thesis by (intro exI conjI) (rule 1(1), rule 2(1), rule 2(2), rule 2(3))
qed

theorem delimited_roundtrip_witness:
  "\<exists>io1 io2. prelude_io_write_delimited Little_Endian (buffer_write (\<lambda>_. True))
       (prelude_io_set_buffer_io (prelude_io_new ())) [1, 2, 3] = Some (Inr 3, io1) \<and>
    prelude_io_read_delimited Big_Endian (\<lambda>_. True) (\<lambda>_. Inr True) buffer_read io1 = Some (Inr [1, 2, 3], io2) \<and>
    buffer_ok io2 \<and> buffer_unread io2 = []"
  using delimited_roundtrip [of "prelude_io_set_buffer_io (prelude_io_new ())" "[1, 2, 3]"
      Little_Endian Big_Endian]
  by (simp add: buffer_new_ok) (simp add: prelude_io_set_buffer_io_def prelude_io_new_def numeral_3_eq_3)

end
