(* ===== verification/PMsg.thy ===== *)
theory PMsg
  imports PIo
begin

text \<open>
  Messages and their wire format (\<open>src/prelude-msg.c\<close>). A message is a header, four 32 bit indices
  and a payload block that starts with room for one encoded header. This theory holds the data
  model and every operation; \<open>PMsg_Read\<close> and \<open>PMsg_Write\<close> hold the theorems.

  Parameters: \<open>bo\<close> is the byte order of the host, \<open>now\<close> what \<open>gettimeofday\<close> returned (the two
  fields as stored, 32 bits each), \<open>mem_ok n\<close> whether an allocation of \<open>n\<close> payload bytes succeeds,
  \<open>rd\<close> and \<open>wr\<close> are \<open>prelude_io_read\<close> and \<open>prelude_io_write\<close> on the peer's I/O object, and \<open>cb\<close> is
  the function stored in \<open>flush_msg_cb\<close>.
\<close>

declare Option.bind_cong [fundef_cong]

section \<open>Data\<close>

definition MSGBUF_SIZE :: u32 where "MSGBUF_SIZE = 8192"
definition PRELUDE_MSG_VERSION :: byte where "PRELUDE_MSG_VERSION = 1"
definition PRELUDE_MSG_HDR_SIZE :: u32 where "PRELUDE_MSG_HDR_SIZE = 16"
definition MINIMUM_FRAGMENT_DATA_SIZE :: u32 where "MINIMUM_FRAGMENT_DATA_SIZE = 1"
definition max_message_size :: nat where "max_message_size = 100 * 1024 * 1024"
definition PRELUDE_MSG_PRIORITY_NONE :: byte where "PRELUDE_MSG_PRIORITY_NONE = 0"

lemmas msg_constants [simp] =
  MSGBUF_SIZE_def PRELUDE_MSG_VERSION_def PRELUDE_MSG_HDR_SIZE_def
  MINIMUM_FRAGMENT_DATA_SIZE_def PRELUDE_MSG_PRIORITY_NONE_def

record prelude_msg_hdr =
  hdr_version :: byte
  hdr_tag :: byte
  hdr_priority :: byte
  hdr_is_fragment :: byte
  hdr_datalen :: u32
  hdr_tv_sec :: u32
  hdr_tv_usec :: u32

text \<open>
  \<open>msg_payload\<close> is \<open>None\<close> for a null pointer. The callback itself is a parameter of the operations
  that call it; the record says whether one is installed.
\<close>

record prelude_msg =
  msg_refcount :: int
  msg_read_index :: u32
  msg_header_index :: u32
  msg_write_index :: u32
  msg_fd_write_index :: u32
  msg_hdr :: prelude_msg_hdr
  msg_hdrbuf :: "byte list"
  msg_payload :: "byte list option"
  msg_flush_msg_cb :: bool

type_synonym 'w flush_cb = "prelude_msg \<Rightarrow> 'w \<Rightarrow> (unit result \<times> prelude_msg \<times> 'w) option"
type_synonym 'io reader = "'io \<Rightarrow> nat \<Rightarrow> (byte list result \<times> 'io) option"
type_synonym 'io writer = "'io \<Rightarrow> byte list \<Rightarrow> (nat result \<times> 'io) option"

abbreviation msg_datalen :: "prelude_msg \<Rightarrow> u32" where
  "msg_datalen m \<equiv> hdr_datalen (msg_hdr m)"

definition set_is_fragment :: "byte \<Rightarrow> prelude_msg \<Rightarrow> prelude_msg" where
  "set_is_fragment v m = m\<lparr>msg_hdr := (msg_hdr m)\<lparr>hdr_is_fragment := v\<rparr>\<rparr>"

section \<open>Building a message\<close>

definition call_alloc_cb :: "'w flush_cb \<Rightarrow> 'w flush_cb" where
  "call_alloc_cb cb msg w =
     Option.bind (cb msg w) (\<lambda>(ret, m, w').
       case ret of
         Inl e \<Rightarrow> Some (Inl e, m, w')
       | Inr _ \<Rightarrow>
           Some (Inr (),
                 set_is_fragment 0
                   (m\<lparr>msg_header_index := 0, msg_write_index := PRELUDE_MSG_HDR_SIZE\<rparr>), w'))"

definition write_message_header :: "byte_order \<Rightarrow> u32 \<times> u32 \<Rightarrow> prelude_msg \<Rightarrow> prelude_msg option" where
  "write_message_header bo now msg =
     (let dlen = htonl bo (msg_write_index msg - msg_header_index msg - PRELUDE_MSG_HDR_SIZE);
          tv_sec = htonl bo (fst now); tv_usec = htonl bo (snd now);
          hbytes = [PRELUDE_MSG_VERSION, hdr_tag (msg_hdr msg), hdr_priority (msg_hdr msg),
                    hdr_is_fragment (msg_hdr msg)]
                   @ mem32 bo dlen @ mem32 bo tv_sec @ mem32 bo tv_usec
      in Option.bind (msg_payload msg) (\<lambda>pl.
           map_option (\<lambda>pl'.
               msg\<lparr>msg_payload := Some pl',
                   msg_hdr := (msg_hdr msg)\<lparr>hdr_tv_sec := tv_sec, hdr_tv_usec := tv_usec\<rparr>\<rparr>)
             (mem_write pl (unat (msg_header_index msg)) hbytes)))"

text \<open>
  \<open>set_data\<close> copies what fits, has the callback flush the full buffer, and goes on with the rest
  in the message that the callback left. A callback that never frees any room makes it recurse
  for ever (\<open>None\<close>).
\<close>

partial_function (option) set_data ::
  "'w flush_cb \<Rightarrow> prelude_msg \<Rightarrow> byte list \<Rightarrow> 'w \<Rightarrow> (unit result \<times> prelude_msg \<times> 'w) option"
where
  "set_data cb msg buf w =
     (let remaining = unat (msg_datalen msg - msg_write_index msg) in
      if \<not> msg_flush_msg_cb msg \<and> remaining < length buf then None
      else Option.bind (msg_payload msg) (\<lambda>pl.
        if remaining < length buf then
          Option.bind (mem_write pl (unat (msg_write_index msg)) (take remaining buf)) (\<lambda>pl'.
            Option.bind
              (call_alloc_cb cb
                (set_is_fragment 1
                  (msg\<lparr>msg_payload := Some pl',
                       msg_write_index := msg_write_index msg + of_nat remaining\<rparr>)) w)
              (\<lambda>r. case fst r of
                     Inl e \<Rightarrow> Some r
                   | Inr _ \<Rightarrow> set_data cb (fst (snd r)) (drop remaining buf) (snd (snd r))))
        else
          Option.bind (mem_write pl (unat (msg_write_index msg)) buf) (\<lambda>pl'.
            Some (Inr (),
                  msg\<lparr>msg_payload := Some pl',
                      msg_write_index := msg_write_index msg + of_nat (length buf)\<rparr>, w))))"

definition prelude_msg_set ::
  "byte_order \<Rightarrow> 'w flush_cb \<Rightarrow> prelude_msg \<Rightarrow> byte \<Rightarrow> byte list \<Rightarrow> 'w
     \<Rightarrow> (unit result \<times> prelude_msg \<times> 'w) option" where
  "prelude_msg_set bo cb msg tag data w =
     Option.bind (set_data cb msg [tag] w) (\<lambda>(ret, m1, w1).
       case ret of Inl e \<Rightarrow> Some (Inl e, m1, w1) | Inr _ \<Rightarrow>
         Option.bind (set_data cb m1 (mem32 bo (htonl bo (of_nat (length data)))) w1)
           (\<lambda>(ret, m2, w2).
             case ret of Inl e \<Rightarrow> Some (Inl e, m2, w2) | Inr _ \<Rightarrow> set_data cb m2 data w2))"

definition prelude_msg_mark_end ::
  "byte_order \<Rightarrow> u32 \<times> u32 \<Rightarrow> 'w flush_cb \<Rightarrow> prelude_msg \<Rightarrow> 'w \<Rightarrow> (prelude_msg \<times> 'w) option" where
  "prelude_msg_mark_end bo now cb msg w =
     (if msg_write_index msg - msg_header_index msg - PRELUDE_MSG_HDR_SIZE \<le> 0 then Some (msg, w)
      else Option.bind (write_message_header bo now msg) (\<lambda>m.
        if msg_datalen m <
             msg_write_index m + PRELUDE_MSG_HDR_SIZE + MINIMUM_FRAGMENT_DATA_SIZE
        then map_option snd (call_alloc_cb cb m w)
        else Some (m\<lparr>msg_header_index := msg_write_index m,
                     msg_write_index := msg_write_index m + PRELUDE_MSG_HDR_SIZE\<rparr>, w)))"

definition prelude_msg_new :: "(nat \<Rightarrow> bool) \<Rightarrow> nat \<Rightarrow> nat \<Rightarrow> byte \<Rightarrow> byte \<Rightarrow> prelude_msg result" where
  "prelude_msg_new mem_ok msgcount msglen tag priority =
     (let len = size_add (size_add msglen ((msgcount * 5) mod 2 ^ 64)) (unat PRELUDE_MSG_HDR_SIZE) in
      if \<not> mem_ok len then Inl PRELUDE_ERROR_ENOMEM
      else Inr \<lparr>msg_refcount = 1, msg_read_index = 0, msg_header_index = 0,
                msg_write_index = PRELUDE_MSG_HDR_SIZE, msg_fd_write_index = 0,
                msg_hdr = \<lparr>hdr_version = PRELUDE_MSG_VERSION, hdr_tag = tag,
                           hdr_priority = priority, hdr_is_fragment = 0,
                           hdr_datalen = of_nat len, hdr_tv_sec = 0, hdr_tv_usec = 0\<rparr>,
                msg_hdrbuf = replicate 16 0, msg_payload = Some (replicate len 0),
                msg_flush_msg_cb = False\<rparr>)"

definition prelude_msg_dynamic_new :: "(nat \<Rightarrow> bool) \<Rightarrow> prelude_msg result" where
  "prelude_msg_dynamic_new mem_ok =
     (if \<not> mem_ok (unat MSGBUF_SIZE) then Inl PRELUDE_ERROR_ENOMEM
      else Inr \<lparr>msg_refcount = 1, msg_read_index = 0, msg_header_index = 0,
                msg_write_index = PRELUDE_MSG_HDR_SIZE, msg_fd_write_index = 0,
                msg_hdr = \<lparr>hdr_version = PRELUDE_MSG_VERSION, hdr_tag = 0, hdr_priority = 0,
                           hdr_is_fragment = 0, hdr_datalen = MSGBUF_SIZE,
                           hdr_tv_sec = 0, hdr_tv_usec = 0\<rparr>,
                msg_hdrbuf = replicate 16 0, msg_payload = Some (replicate (unat MSGBUF_SIZE) 0),
                msg_flush_msg_cb = True\<rparr>)"

section \<open>Sending\<close>

definition prelude_msg_write_r ::
  "byte_order \<Rightarrow> u32 \<times> u32 \<Rightarrow> 'io writer \<Rightarrow> prelude_msg \<Rightarrow> 'io \<Rightarrow> u32
     \<Rightarrow> (unit result \<times> u32 \<times> prelude_msg \<times> 'io) option" where
  "prelude_msg_write_r bo now wr msg dst windex =
     (if msg_write_index msg - PRELUDE_MSG_HDR_SIZE \<le> 0 then Some (Inr (), windex, msg, dst)
      else Option.bind
        (if msg_header_index msg = 0
         then map_option (\<lambda>m. (m, msg_write_index msg)) (write_message_header bo now msg)
         else Some (msg, if hdr_is_fragment (msg_hdr msg) = 0
                         then msg_write_index msg - PRELUDE_MSG_HDR_SIZE
                         else msg_write_index msg))
        (\<lambda>(m, dlen).
          Option.bind (msg_payload m) (\<lambda>pl.
          Option.bind (mem_read pl (unat windex) (unat (dlen - windex))) (\<lambda>bs.
          Option.bind (wr dst bs) (\<lambda>(ret, dst').
            case ret of
              Inl e \<Rightarrow> Some (Inl e, windex, m, dst')
            | Inr n \<Rightarrow>
                if windex + of_nat n = dlen then Some (Inr (), 0, m, dst')
                else Some (Inl PRELUDE_ERROR_EAGAIN, windex + of_nat n, m, dst'))))))"

definition prelude_msg_write ::
  "byte_order \<Rightarrow> u32 \<times> u32 \<Rightarrow> 'io writer \<Rightarrow> prelude_msg \<Rightarrow> 'io
     \<Rightarrow> (unit result \<times> prelude_msg \<times> 'io) option" where
  "prelude_msg_write bo now wr msg dst =
     map_option (\<lambda>(ret, windex, m, dst'). (ret, m\<lparr>msg_fd_write_index := windex\<rparr>, dst'))
       (prelude_msg_write_r bo now wr msg dst (msg_fd_write_index msg))"

definition prelude_msg_recycle :: "prelude_msg \<Rightarrow> prelude_msg" where
  "prelude_msg_recycle msg =
     (let m = msg\<lparr>msg_header_index := 0, msg_fd_write_index := 0,
                  msg_write_index := PRELUDE_MSG_HDR_SIZE\<rparr>
      in if msg_read_index m \<noteq> 0 then m\<lparr>msg_read_index := PRELUDE_MSG_HDR_SIZE\<rparr> else m)"

section \<open>Receiving\<close>

text \<open>
  \<open>read_message_data\<close> asks for the missing bytes until it has them all, and hands over what it
  got before an error. A reader that returns no bytes and no error is asked again, for ever
  (\<open>None\<close>).
\<close>

partial_function (option) read_message_data ::
  "'io reader \<Rightarrow> byte list \<Rightarrow> nat \<Rightarrow> 'io \<Rightarrow> (unit result \<times> byte list \<times> 'io) option"
where
  "read_message_data rd got count fd =
     Option.bind (rd fd (count - length got)) (\<lambda>r.
       case fst r of
         Inl e \<Rightarrow> Some (Inl e, got, snd r)
       | Inr bs \<Rightarrow>
           if length (got @ bs) = count then Some (Inr (), got @ bs, snd r)
           else read_message_data rd (got @ bs) count (snd r))"

definition slice_message_header ::
  "byte_order \<Rightarrow> prelude_msg_hdr \<Rightarrow> byte list \<Rightarrow> unit result \<times> prelude_msg_hdr" where
  "slice_message_header bo h hdrbuf =
     (let h1 = (if hdr_datalen h = 0
                then h\<lparr>hdr_version := hdrbuf ! 0, hdr_tag := hdrbuf ! 1,
                       hdr_tv_sec := prelude_extract_uint32 bo (take 4 (drop 8 hdrbuf)),
                       hdr_tv_usec := prelude_extract_uint32 bo (take 4 (drop 12 hdrbuf))\<rparr>
                else h);
          h2 = (if hdr_priority h1 = PRELUDE_MSG_PRIORITY_NONE
                then h1\<lparr>hdr_priority := hdrbuf ! 2\<rparr> else h1);
          h3 = h2\<lparr>hdr_is_fragment := hdrbuf ! 3\<rparr>;
          tmp = prelude_extract_uint32 bo (take 4 (drop 4 hdrbuf))
      in if hdr_datalen h3 + tmp \<le> hdr_datalen h3 then (Inl PRELUDE_ERROR_INVAL_LENGTH, h3)
         else if max_message_size \<le> unat (hdr_datalen h3 + tmp)
         then (Inl PRELUDE_ERROR_INVAL_LENGTH, h3)
         else (Inr (), h3\<lparr>hdr_datalen := hdr_datalen h3 + tmp\<rparr>))"

definition read_message_header ::
  "byte_order \<Rightarrow> (nat \<Rightarrow> bool) \<Rightarrow> 'io reader \<Rightarrow> prelude_msg \<Rightarrow> 'io
     \<Rightarrow> (unit result \<times> prelude_msg \<times> 'io) option" where
  "read_message_header bo mem_ok rd msg fd =
     Option.bind (read_message_data rd [] (unat (PRELUDE_MSG_HDR_SIZE - msg_header_index msg)) fd)
       (\<lambda>(ret, got, fd').
         Option.bind (mem_write (msg_hdrbuf msg) (unat (msg_header_index msg)) got) (\<lambda>hb.
         let m = msg\<lparr>msg_hdrbuf := hb,
                     msg_header_index := msg_header_index msg + of_nat (length got)\<rparr>
         in case ret of Inl e \<Rightarrow> Some (Inl e, m, fd') | Inr _ \<Rightarrow>
           (case slice_message_header bo (msg_hdr m) hb of (ret, h) \<Rightarrow>
            let m1 = m\<lparr>msg_hdr := h\<rparr> in
            case ret of Inl e \<Rightarrow> Some (Inl e, m1, fd') | Inr _ \<Rightarrow>
              if hdr_datalen h + PRELUDE_MSG_HDR_SIZE \<le> msg_datalen m
              then Some (Inl PRELUDE_ERROR_INVAL_LENGTH, m1, fd')
              else if hdr_version h \<noteq> PRELUDE_MSG_VERSION
              then Some (Inl PRELUDE_ERROR_PROTOCOL_VERSION, m1, fd')
              else
                let m2 = m1\<lparr>msg_write_index := hdr_datalen h + PRELUDE_MSG_HDR_SIZE\<rparr>;
                    n = unat PRELUDE_MSG_HDR_SIZE + unat (hdr_datalen h)
                in if \<not> mem_ok n then Some (Inl PRELUDE_ERROR_ENOMEM, m2, fd')
                   else Some (Inr (),
                     m2\<lparr>msg_payload :=
                         Some (resize_block (case msg_payload m2 of None \<Rightarrow> [] | Some b \<Rightarrow> b) n)\<rparr>,
                     fd'))))"

text \<open>
  The last component of \<open>read_message_content\<close> is \<open>True\<close> where the source calls
  \<open>prelude_msg_read\<close> again for the next fragment; \<open>prelude_msg_read\<close> below makes that call.
\<close>

definition read_message_content ::
  "'io reader \<Rightarrow> prelude_msg \<Rightarrow> 'io \<Rightarrow> (unit result \<times> prelude_msg \<times> 'io \<times> bool) option" where
  "read_message_content rd msg fd =
     Option.bind (msg_payload msg) (\<lambda>pl.
     Option.bind
       (read_message_data rd []
          (unat (msg_datalen msg + PRELUDE_MSG_HDR_SIZE - msg_read_index msg)) fd)
       (\<lambda>(ret, got, fd').
         Option.bind (mem_write pl (unat (msg_read_index msg)) got) (\<lambda>pl'.
         let m = msg\<lparr>msg_payload := Some pl',
                     msg_read_index := msg_read_index msg + of_nat (length got)\<rparr>
         in case ret of
              Inl e \<Rightarrow> Some (Inl e, m, fd', False)
            | Inr _ \<Rightarrow>
                if hdr_is_fragment (msg_hdr m) \<noteq> 0
                then Some (Inr (), m\<lparr>msg_header_index := 0\<rparr>, fd', True)
                else Some (Inr (),
                  set_is_fragment 0 (m\<lparr>msg_header_index := 0,
                                       msg_read_index := PRELUDE_MSG_HDR_SIZE\<rparr>), fd', False))))"

definition fresh_read_msg :: prelude_msg where
  "fresh_read_msg =
     \<lparr>msg_refcount = 1, msg_read_index = PRELUDE_MSG_HDR_SIZE, msg_header_index = 0,
      msg_write_index = 0, msg_fd_write_index = 0,
      msg_hdr = \<lparr>hdr_version = 0, hdr_tag = 0, hdr_priority = PRELUDE_MSG_PRIORITY_NONE,
                 hdr_is_fragment = 0, hdr_datalen = 0, hdr_tv_sec = 0, hdr_tv_usec = 0\<rparr>,
      msg_hdrbuf = replicate 16 0, msg_payload = None, msg_flush_msg_cb = False\<rparr>"

text \<open>
  The end of \<open>prelude_msg_read\<close>: an error other than \<open>PRELUDE_ERROR_EAGAIN\<close> destroys the message
  and clears the caller's pointer.
\<close>

definition finish_read ::
  "unit result \<times> prelude_msg option \<times> 'io \<Rightarrow> unit result \<times> prelude_msg option \<times> 'io" where
  "finish_read r =
     (case r of
        (Inl e, Some m, fd) \<Rightarrow>
          if e \<noteq> PRELUDE_ERROR_EAGAIN then (Inl e, None, fd) else (Inl e, Some m, fd)
      | _ \<Rightarrow> r)"

lemma slice_grows:
  "slice_message_header bo h hb = (Inr (), h') \<Longrightarrow> unat (hdr_datalen h) < unat (hdr_datalen h')"
  by (auto simp: slice_message_header_def Let_def word_le_nat_alt split: if_splits)

lemma read_message_header_grows:
  assumes "read_message_header bo mem_ok rd m fd = Some (Inr (), m', fd')"
  shows "unat (msg_datalen m) < unat (msg_datalen m')"
  using assms
  by (auto simp: read_message_header_def Let_def bind_eq_Some_conv dest!: slice_grows
      split: sum.splits prod.splits if_splits)

lemma read_message_content_again:
  assumes "read_message_content rd m fd = Some (r, m', fd', True)"
  shows "msg_hdr m' = msg_hdr m" "msg_header_index m' = 0"
  using assms
  by (auto simp: read_message_content_def Let_def bind_eq_Some_conv
      split: sum.splits prod.splits if_splits)

function prelude_msg_read ::
  "byte_order \<Rightarrow> (nat \<Rightarrow> bool) \<Rightarrow> 'io reader \<Rightarrow> prelude_msg option \<Rightarrow> 'io
     \<Rightarrow> (unit result \<times> prelude_msg option \<times> 'io) option"
where
  "prelude_msg_read bo mem_ok rd msg pio =
     (if msg = None \<and> \<not> mem_ok 0 then Some (Inl PRELUDE_ERROR_ENOMEM, None, pio)
      else
        let m0 = (case msg of None \<Rightarrow> fresh_read_msg | Some m \<Rightarrow> m) in
        Option.bind
          (if msg_header_index m0 \<noteq> PRELUDE_MSG_HDR_SIZE
           then read_message_header bo mem_ok rd m0 pio else Some (Inr (), m0, pio))
          (\<lambda>(ret, m1, pio1).
            map_option finish_read
              (if msg_payload m1 \<noteq> None \<and> ret = Inr ()
               then Option.bind (read_message_content rd m1 pio1) (\<lambda>(ret, m2, pio2, again).
                      if again then prelude_msg_read bo mem_ok rd (Some m2) pio2
                      else Some (ret, Some m2, pio2))
               else Some (ret, Some m1, pio1))))"
  by pat_completeness auto


text \<open>
  A fragment makes the recursion, and reading its header has made the accumulated length grow;
  the length is a 32 bit integer.
\<close>

termination prelude_msg_read
proof (relation "measure (\<lambda>(bo, mem_ok, rd, msg, pio).
    2 * (2 ^ 32 - unat (case msg of None \<Rightarrow> 0 | Some m \<Rightarrow> msg_datalen m))
    + (case msg of None \<Rightarrow> 0 | Some m \<Rightarrow> if msg_header_index m = 16 then 1 else 0))", goal_cases)
  case (2 bo mem_ok rd msg pio m0 a ret b m1 pio1 c ret2 d m2 e pio2 again)
  have again: "msg_hdr m2 = msg_hdr m1" "msg_header_index m2 = 0"
    using 2 read_message_content_again by auto
  show ?case
  proof (cases "msg_header_index m0 = 16")
    case True
    with 2 have "m1 = m0" and "msg = Some m0"
      by (auto simp: fresh_read_msg_def split: option.splits)
    with True again show ?thesis by simp
  next
    case False
    with 2 have "unat (msg_datalen m0) < unat (msg_datalen m1)"
      by (auto dest!: read_message_header_grows)
    moreover have "unat (msg_datalen m1) < 2 ^ 32"
      using unsigned_less [of "msg_datalen m1"] by simp
    moreover have "unat (msg_datalen m0) = unat (case msg of None \<Rightarrow> 0 | Some m \<Rightarrow> msg_datalen m)"
      using 2 by (auto simp: fresh_read_msg_def split: option.splits)
    ultimately show ?thesis using again by auto
  qed
qed simp

declare prelude_msg_read.simps [simp del]

section \<open>Reading the fields of a message\<close>

text \<open>
  The next chunk: its tag, its length and the bytes at the returned pointer; for an empty chunk
  the pointer is left alone (\<open>None\<close>).
\<close>

definition prelude_msg_get ::
  "byte_order \<Rightarrow> prelude_msg \<Rightarrow> ((byte \<times> u32 \<times> byte list option) result \<times> prelude_msg) option" where
  "prelude_msg_get bo msg =
     (let last = msg_datalen msg + PRELUDE_MSG_HDR_SIZE in
      if msg_read_index msg = last then Some (Inl PRELUDE_ERROR_EOF, msg)
      else if last - 5 < msg_read_index msg then Some (Inl PRELUDE_ERROR_INVAL_LENGTH, msg)
      else
        Option.bind (msg_payload msg) (\<lambda>pl.
        Option.bind (mem_read pl (unat (msg_read_index msg)) 5) (\<lambda>th.
          let tag = th ! 0;
              len = prelude_extract_uint32 bo (drop 1 th);
              m = msg\<lparr>msg_read_index := msg_read_index msg + 5\<rparr>
          in if len = 0 then Some (Inr (tag, len, None), m)
             else if msg_read_index m + len \<le> msg_read_index m
             then Some (Inl PRELUDE_ERROR_INVAL_LENGTH, m)
             else if last < msg_read_index m + len
             then Some (Inl PRELUDE_ERROR_INVAL_LENGTH, m)
             else map_option (\<lambda>bs. (Inr (tag, len, Some bs),
                                   m\<lparr>msg_read_index := msg_read_index m + len\<rparr>))
                    (mem_read pl (unat (msg_read_index m)) (unat len)))))"

section \<open>The other operations\<close>

text \<open>
  \<open>prelude_msg_forward\<close> sends 16 header bytes of which it sets the first eight; \<open>junk\<close> stands for
  the others, which are uninitialised stack memory.
\<close>

definition prelude_msg_forward ::
  "byte_order \<Rightarrow> byte list \<Rightarrow> 'src reader \<Rightarrow> 'dst writer \<Rightarrow> prelude_msg \<Rightarrow> 'dst \<Rightarrow> 'src
     \<Rightarrow> (unit result \<times> 'dst \<times> 'src) option" where
  "prelude_msg_forward bo junk rd wr msg dst src =
     (let h = msg_hdr msg;
          buf = [hdr_version h, hdr_tag h, hdr_priority h, hdr_is_fragment h]
                @ mem32 bo (htonl bo (hdr_datalen h)) @ take 8 junk
      in Option.bind (wr dst buf) (\<lambda>(ret, dst1).
           case ret of Inl e \<Rightarrow> Some (Inl e, dst1, src) | Inr _ \<Rightarrow>
             Option.bind (copy_forward rd wr dst1 src (unat (hdr_datalen h))) (\<lambda>(ret, dst2, src2).
               case ret of Inl e \<Rightarrow> Some (Inl e, dst2, src2) | Inr _ \<Rightarrow> Some (Inr (), dst2, src2))))"

definition prelude_msg_set_tag :: "prelude_msg \<Rightarrow> byte \<Rightarrow> prelude_msg" where
  "prelude_msg_set_tag msg tag = msg\<lparr>msg_hdr := (msg_hdr msg)\<lparr>hdr_tag := tag\<rparr>\<rparr>"

definition prelude_msg_set_priority :: "prelude_msg \<Rightarrow> byte \<Rightarrow> prelude_msg" where
  "prelude_msg_set_priority msg priority =
     msg\<lparr>msg_hdr := (msg_hdr msg)\<lparr>hdr_priority := priority\<rparr>\<rparr>"

definition prelude_msg_get_tag :: "prelude_msg \<Rightarrow> byte" where
  "prelude_msg_get_tag msg = hdr_tag (msg_hdr msg)"

definition prelude_msg_get_priority :: "prelude_msg \<Rightarrow> byte" where
  "prelude_msg_get_priority msg = hdr_priority (msg_hdr msg)"

definition prelude_msg_get_datalen :: "prelude_msg \<Rightarrow> u32" where
  "prelude_msg_get_datalen msg = hdr_datalen (msg_hdr msg)"

definition prelude_msg_get_len :: "prelude_msg \<Rightarrow> u32" where
  "prelude_msg_get_len msg = msg_write_index msg"

definition prelude_msg_get_time :: "prelude_msg \<Rightarrow> u32 \<times> u32" where
  "prelude_msg_get_time msg = (hdr_tv_sec (msg_hdr msg), hdr_tv_usec (msg_hdr msg))"

definition prelude_msg_is_fragment :: "prelude_msg \<Rightarrow> bool" where
  "prelude_msg_is_fragment msg \<longleftrightarrow> hdr_is_fragment (msg_hdr msg) \<noteq> 0"

definition prelude_msg_is_empty :: "prelude_msg \<Rightarrow> bool" where
  "prelude_msg_is_empty msg \<longleftrightarrow>
     msg_write_index msg - msg_header_index msg - PRELUDE_MSG_HDR_SIZE \<le> 0"

definition prelude_msg_ref :: "prelude_msg \<Rightarrow> prelude_msg" where
  "prelude_msg_ref msg = msg\<lparr>msg_refcount := msg_refcount msg + 1\<rparr>"

text \<open>\<open>None\<close>: the message was freed.\<close>

definition prelude_msg_destroy :: "prelude_msg \<Rightarrow> prelude_msg option" where
  "prelude_msg_destroy msg =
     (let m = msg\<lparr>msg_refcount := msg_refcount msg - 1\<rparr>
      in if msg_refcount m = 0 then None else Some m)"

text \<open>The bytes from the returned pointer to the end of the block.\<close>

definition prelude_msg_get_message_data ::
  "byte_order \<Rightarrow> u32 \<times> u32 \<Rightarrow> prelude_msg \<Rightarrow> (byte list \<times> prelude_msg) option" where
  "prelude_msg_get_message_data bo now msg =
     Option.bind (if msg_header_index msg = 0 then write_message_header bo now msg else Some msg)
       (\<lambda>m. Option.bind (msg_payload m) (\<lambda>pl.
          if unat (msg_fd_write_index m) \<le> length pl
          then Some (drop (unat (msg_fd_write_index m)) pl, m) else None))"

text \<open>
  \<open>prelude_msg_clone\<close> copies the structure and \<open>hdr.datalen\<close> bytes after it; the payload pointer
  of the clone points behind the cloned structure.
\<close>

definition prelude_msg_clone :: "(nat \<Rightarrow> bool) \<Rightarrow> prelude_msg \<Rightarrow> prelude_msg result option" where
  "prelude_msg_clone mem_ok src =
     (let n = unat (msg_datalen src) in
      if \<not> mem_ok n then Some (Inl PRELUDE_ERROR_ENOMEM)
      else case msg_payload src of
        None \<Rightarrow> if n = 0 then Some (Inr src) else None
      | Some pl \<Rightarrow> map_option (\<lambda>bs. Inr (src\<lparr>msg_payload := Some bs\<rparr>)) (mem_read pl 0 n))"

end
