(* ===== verification/PMsg_Read.thy ===== *)
theory PMsg_Read
  imports PMsg
begin

text \<open>
  Reading messages. \<open>parse_header\<close> and \<open>parse_content\<close> are the specification of the wire format: a
  pure parser over the whole byte stream. The theorems show that \<open>prelude_msg_read\<close>, which is called
  again and again while a descriptor delivers the stream in pieces, implements that parser whatever
  the pieces are, and that it stays inside of its buffers.
\<close>

section \<open>The wire format as a parser of byte lists\<close>

datatype parsed =
    Parsed prelude_msg_hdr "byte list" "byte list"
  | Incomplete
  | Malformed prelude_error_code

text \<open>
  \<open>h\<close> is the header accumulated over the fragments so far and \<open>d\<close> the data; \<open>hdr_datalen h\<close> counts the
  data of all fragments whose header was seen.
\<close>

function parse_header :: "byte_order \<Rightarrow> prelude_msg_hdr \<Rightarrow> byte list \<Rightarrow> byte list \<Rightarrow> parsed"
  and parse_content :: "byte_order \<Rightarrow> prelude_msg_hdr \<Rightarrow> byte list \<Rightarrow> byte list \<Rightarrow> parsed"
where
  "parse_header bo h d bs =
     (if length bs < 16 then Incomplete
      else case slice_message_header bo h (take 16 bs) of
        (Inl e, _) \<Rightarrow> Malformed e
      | (Inr _, h') \<Rightarrow>
          if hdr_version h' \<noteq> PRELUDE_MSG_VERSION then Malformed PRELUDE_ERROR_PROTOCOL_VERSION
          else parse_content bo h' d (drop 16 bs))"
| "parse_content bo h d bs =
     (let n = unat (hdr_datalen h) - length d in
      if length bs < n then Incomplete
      else if hdr_is_fragment h \<noteq> 0 then parse_header bo h (d @ take n bs) (drop n bs)
      else Parsed h (d @ take n bs) (drop n bs))"
  by pat_completeness auto
termination
  by (relation "measure (\<lambda>x. case x of Inl (bo, h, d, bs) \<Rightarrow> 2 * length bs
                                       | Inr (bo, h, d, bs) \<Rightarrow> 2 * length bs + 1)") auto

declare parse_header.simps [simp del] parse_content.simps [simp del]

abbreviation parse_msg :: "byte_order \<Rightarrow> byte list \<Rightarrow> parsed" where
  "parse_msg bo bs \<equiv> parse_header bo (msg_hdr fresh_read_msg) [] bs"

section \<open>Messages that are being read\<close>

definition read_data :: "prelude_msg \<Rightarrow> byte list" where
  "read_data m = (case msg_payload m of
     None \<Rightarrow> [] | Some pl \<Rightarrow> take (unat (msg_read_index m) - 16) (drop 16 pl))"

text \<open>What the rest \<open>bs\<close> of the stream will make of a message that was read in part.\<close>

definition resume_parse :: "byte_order \<Rightarrow> prelude_msg \<Rightarrow> byte list \<Rightarrow> parsed" where
  "resume_parse bo m bs =
     (if msg_header_index m \<noteq> PRELUDE_MSG_HDR_SIZE
      then parse_header bo (msg_hdr m) (read_data m)
             (take (unat (msg_header_index m)) (msg_hdrbuf m) @ bs)
      else parse_content bo (msg_hdr m) (read_data m) bs)"

definition start_msg :: "prelude_msg option \<Rightarrow> prelude_msg" where
  "start_msg mo = (case mo of None \<Rightarrow> fresh_read_msg | Some m \<Rightarrow> m)"

text \<open>The invariant between two calls of \<open>prelude_msg_read\<close>.\<close>

definition payload_fits :: "prelude_msg \<Rightarrow> bool" where
  "payload_fits m \<longleftrightarrow> unat (msg_datalen m) < max_message_size \<and>
     (case msg_payload m of None \<Rightarrow> msg_datalen m = 0
                          | Some pl \<Rightarrow> length pl = 16 + unat (msg_datalen m))"

definition reading_header :: "prelude_msg \<Rightarrow> bool" where
  "reading_header m \<longleftrightarrow> payload_fits m \<and> length (msg_hdrbuf m) = 16 \<and>
     unat (msg_header_index m) < 16 \<and> unat (msg_read_index m) = 16 + unat (msg_datalen m)"

definition reading_content :: "prelude_msg \<Rightarrow> bool" where
  "reading_content m \<longleftrightarrow> payload_fits m \<and> length (msg_hdrbuf m) = 16 \<and> msg_payload m \<noteq> None \<and>
     msg_header_index m = PRELUDE_MSG_HDR_SIZE \<and> 16 \<le> unat (msg_read_index m) \<and>
     unat (msg_read_index m) < 16 + unat (msg_datalen m) \<and>
     msg_write_index m = msg_datalen m + 16"

definition reading_ok :: "prelude_msg \<Rightarrow> bool" where
  "reading_ok m \<longleftrightarrow> reading_header m \<or> reading_content m"

text \<open>A message that was read to its end, ready for \<open>prelude_msg_get\<close>.\<close>

definition received_ok :: "prelude_msg \<Rightarrow> bool" where
  "received_ok m \<longleftrightarrow> payload_fits m \<and> msg_payload m \<noteq> None \<and> msg_read_index m = 16 \<and>
     msg_header_index m = 0 \<and> hdr_is_fragment (msg_hdr m) = 0 \<and>
     msg_write_index m = msg_datalen m + 16"

definition received_data :: "prelude_msg \<Rightarrow> byte list" where
  "received_data m = drop 16 (the (msg_payload m))"

lemmas reading_defs = reading_ok_def reading_header_def reading_content_def payload_fits_def

lemma fresh_reading_ok [simp]: "reading_ok fresh_read_msg"
  by (simp add: reading_defs fresh_read_msg_def max_message_size_def)

lemma fresh_resume [simp]: "resume_parse bo fresh_read_msg bs = parse_msg bo bs"
  by (simp add: resume_parse_def fresh_read_msg_def read_data_def)

lemma parse_header_full:
  assumes "length hb = 16"
  shows "parse_header bo h d (hb @ bs) =
    (case slice_message_header bo h hb of
       (Inl e, _) \<Rightarrow> Malformed e
     | (Inr _, h') \<Rightarrow>
         if hdr_version h' \<noteq> PRELUDE_MSG_VERSION then Malformed PRELUDE_ERROR_PROTOCOL_VERSION
         else parse_content bo h' d bs)"
proof -
  have "drop 16 (hb @ bs) = bs" using assms by simp
  then show ?thesis
    using assms by (simp only: parse_header.simps [of bo h d "hb @ bs"]) simp
qed

lemma parse_content_advance:
  assumes "length d + length bs \<le> unat (hdr_datalen h)"
  shows "parse_content bo h d (bs @ rest) = parse_content bo h (d @ bs) rest"
proof -
  have "unat (hdr_datalen h) - length d = length bs + (unat (hdr_datalen h) - length (d @ bs))"
    using assms by simp
  then show ?thesis
    by (simp add: parse_content.simps [of bo h] Let_def add.commute [of _ "length bs"])
qed

lemma parse_content_full:
  assumes "length d = unat (hdr_datalen h)"
  shows "parse_content bo h d bs =
    (if hdr_is_fragment h \<noteq> 0 then parse_header bo h d bs else Parsed h d bs)"
  using assms by (simp add: parse_content.simps [of bo h])

lemma slice_error: "slice_message_header bo h hb = (Inl c, h') \<Longrightarrow> c = PRELUDE_ERROR_INVAL_LENGTH"
  by (auto simp: slice_message_header_def Let_def split: if_splits)

lemma parse_malformed:
  "parse_header bo h d bs = Malformed e \<Longrightarrow> e \<noteq> PRELUDE_ERROR_EAGAIN"
  "parse_content bo h d bs = Malformed e \<Longrightarrow> e \<noteq> PRELUDE_ERROR_EAGAIN"
proof (induction bo h d bs and bo h d bs rule: parse_header_parse_content.induct)
  case (1 bo h d bs)
  then show ?case
    by (auto dest!: slice_error simp: parse_header.simps [of bo h d bs] split: if_splits prod.splits sum.splits)
next
  case (2 bo h d bs)
  then show ?case by (auto simp: parse_content.simps [of bo h d bs] Let_def split: if_splits)
qed

lemma resume_malformed: "resume_parse bo m bs = Malformed e \<Longrightarrow> e \<noteq> PRELUDE_ERROR_EAGAIN"
  by (auto simp: resume_parse_def dest: parse_malformed split: if_splits)

lemma resume_empty:
  assumes "reading_ok m"
  shows "resume_parse bo m [] = Incomplete"
  using assms
  by (auto simp: resume_parse_def reading_defs parse_header.simps [of bo "msg_hdr m"]
      parse_content.simps [of bo "msg_hdr m"] read_data_def Let_def)

lemma slice_ok:
  assumes "slice_message_header bo h hb = (Inr (), h')"
  shows "unat (hdr_datalen h) < unat (hdr_datalen h')" "unat (hdr_datalen h') < max_message_size"
  using slice_grows [OF assms] assms
  by (auto simp: slice_message_header_def Let_def split: if_splits)

text \<open>The check for a wrapped length after \<open>slice_message_header\<close> never fires.\<close>

lemma length_check_redundant:
  assumes "slice_message_header bo h hb = (Inr (), h')"
  shows "\<not> hdr_datalen h' + 16 \<le> hdr_datalen h"
proof -
  have "unat (hdr_datalen h' + 16) = unat (hdr_datalen h') + 16"
    using slice_ok [OF assms] by (subst unat_plus_small) (simp_all add: max_message_size_def)
  then show ?thesis using slice_ok(1) [OF assms] by (simp add: word_le_nat_alt)
qed

lemma read_message_header_loop:
  assumes "read_message_header bo mem_ok rd m fd = Some (ret, m1, fd1)"
  shows "\<exists>r bs. read_message_data rd [] (unat (16 - msg_header_index m)) fd = Some (r, bs, fd1) \<and>
    (ret = Inl PRELUDE_ERROR_EAGAIN \<longrightarrow> r = ret)"
proof -
  obtain r bs fd2 where loop:
    "read_message_data rd [] (unat (16 - msg_header_index m)) fd = Some (r, bs, fd2)"
    using assms by (auto simp: read_message_header_def bind_eq_Some_conv)
  obtain hb where hb: "mem_write (msg_hdrbuf m) (unat (msg_header_index m)) bs = Some hb"
    using assms loop by (auto simp: read_message_header_def bind_eq_Some_conv)
  obtain rs h where "slice_message_header bo (msg_hdr m) hb = (rs, h)" by force
  then have "fd2 = fd1 \<and> (ret = Inl PRELUDE_ERROR_EAGAIN \<longrightarrow> r = ret)"
    using assms loop hb slice_error [of bo "msg_hdr m" hb]
    by (cases r; cases rs) (auto simp: read_message_header_def Let_def split: if_splits)
  with loop show ?thesis by blast
qed

lemma read_message_content_loop:
  assumes "read_message_content rd m fd = Some (ret, m1, fd1, again)"
  shows "\<exists>r bs. read_message_data rd [] (unat (msg_datalen m + 16 - msg_read_index m)) fd =
    Some (r, bs, fd1) \<and> (ret = Inl PRELUDE_ERROR_EAGAIN \<longrightarrow> r = ret)"
proof -
  obtain r bs fd2 where loop:
    "read_message_data rd [] (unat (msg_datalen m + 16 - msg_read_index m)) fd = Some (r, bs, fd2)"
    using assms by (auto simp: read_message_content_def bind_eq_Some_conv)
  then have "fd2 = fd1 \<and> (ret = Inl PRELUDE_ERROR_EAGAIN \<longrightarrow> r = ret)"
    using assms by (cases r)
      (auto simp: read_message_content_def Let_def bind_eq_Some_conv split: if_splits)
  with loop show ?thesis by blast
qed

definition enter_content :: "prelude_msg \<Rightarrow> prelude_msg_hdr \<Rightarrow> prelude_msg" where
  "enter_content m h = m\<lparr>msg_hdr := h, msg_write_index := hdr_datalen h + 16,
     msg_payload := Some (resize_block (case msg_payload m of None \<Rightarrow> [] | Some b \<Rightarrow> b)
                            (16 + unat (hdr_datalen h)))\<rparr>"

lemma read_data_enter_content:
  assumes "payload_fits m" "unat (msg_read_index m) = 16 + unat (msg_datalen m)"
    and "unat (msg_datalen m) < unat (hdr_datalen h)"
  shows "read_data (enter_content m h) = read_data m"
  using assms
  by (auto simp: read_data_def enter_content_def payload_fits_def resize_block_def
      split: option.splits)

text \<open>
  How a caller uses \<open>prelude_msg_read\<close>: again with the same message as long as the descriptor has
  nothing to give. The fuel bounds the number of calls.
\<close>

fun poll_read :: "byte_order \<Rightarrow> 'io reader \<Rightarrow> nat \<Rightarrow> prelude_msg option \<Rightarrow> 'io
    \<Rightarrow> (unit result \<times> prelude_msg option \<times> 'io) option" where
  "poll_read bo rd 0 mo fd = None"
| "poll_read bo rd (Suc fuel) mo fd =
     Option.bind (prelude_msg_read bo (\<lambda>_. True) rd mo fd) (\<lambda>(ret, mo', fd').
       if ret = Inl PRELUDE_ERROR_EAGAIN then poll_read bo rd fuel mo' fd'
       else Some (ret, mo', fd'))"

section \<open>The read loop\<close>

context byte_source
begin

definition loop_result :: "byte list \<Rightarrow> nat \<Rightarrow> 'io \<Rightarrow> unit result \<times> byte list \<times> 'io \<Rightarrow> bool" where
  "loop_result got count fd res \<longleftrightarrow>
     (case res of (r, got', fd') \<Rightarrow>
        rok fd' \<and> (\<exists>bs. got' = got @ bs \<and> unread fd = bs @ unread fd') \<and>
        (case r of
           Inr _ \<Rightarrow> length got' = count
         | Inl e \<Rightarrow> length got' < count \<and> (\<exists>io n io'. rok io \<and> rd io n = Some (Inl e, io')) \<and>
                    (e = PRELUDE_ERROR_EOF \<longrightarrow> unread fd' = [])))"

lemma loop_result_step:
  assumes "rok fd" "rd fd n = Some (Inr bs, fd1)" "loop_result (got @ bs) count fd1 res"
  shows "loop_result got count fd res"
  using assms rd_data [OF assms(1,2)]
  by (auto simp: loop_result_def split: prod.splits sum.splits)

lemma read_loop_raw:
  assumes "read_message_data rd' got count fd = Some res"
  shows "rd' = rd \<longrightarrow> rok fd \<longrightarrow> length got < count \<longrightarrow> loop_result got count fd res"
proof (rule read_message_data.raw_induct [OF _ assms], intro impI)
  fix f rda got count fd res
  assume IH: "\<And>rdb got count fd res. f rdb got count fd = Some res \<Longrightarrow>
      rdb = rd \<longrightarrow> rok fd \<longrightarrow> length got < count \<longrightarrow> loop_result got count fd res"
    and body: "Option.bind (rda fd (count - length got)) (\<lambda>r.
       case fst r of
         Inl e \<Rightarrow> Some (Inl e, got, snd r)
       | Inr bs \<Rightarrow> if length (got @ bs) = count then Some (Inr (), got @ bs, snd r)
                   else f rda (got @ bs) count (snd r)) = Some res"
    and pre: "rda = rd" "rok fd" "length got < count"
  from body pre(1) obtain r fd1 where r: "rd fd (count - length got) = Some (r, fd1)"
    by (auto simp: bind_eq_Some_conv)
  show "loop_result got count fd res"
  proof (cases r)
    case (Inl e)
    then have "res = (Inl e, got, fd1)" using body r pre(1) by simp
    then show ?thesis
      using pre r Inl rd_error [OF pre(2)] rd_eof [OF pre(2)] by (auto simp: loop_result_def)
  next
    case (Inr bs)
    have d: "rok fd1 \<and> length bs \<le> count - length got \<and> unread fd = bs @ unread fd1"
      using rd_data [OF pre(2)] r Inr by blast
    have "loop_result (got @ bs) count fd1 res"
    proof (cases "length (got @ bs) = count")
      case True
      then have "res = (Inr (), got @ bs, fd1)" using body r pre(1) Inr by simp
      then show ?thesis using True d by (simp add: loop_result_def)
    next
      case False
      then have "f rda (got @ bs) count fd1 = Some res" using body r pre(1) Inr by simp
      moreover have "length (got @ bs) < count" using d False pre(3) by auto
      ultimately show ?thesis using IH pre(1) d by blast
    qed
    then show ?thesis using loop_result_step pre(2) r Inr by blast
  qed
qed

lemma read_loop:
  assumes "read_message_data rd got count fd = Some res" "rok fd" "length got < count"
  shows "loop_result got count fd res"
  using read_loop_raw [OF assms(1)] assms(2,3) by simp

definition io_error :: "prelude_error_code \<Rightarrow> bool" where
  "io_error e \<longleftrightarrow> (\<exists>io n io'. rok io \<and> rd io n = Some (Inl e, io'))"

text \<open>Reading a header moves the parser over it, or leaves it where it is.\<close>

lemma read_header_step:
  assumes "read_message_header bo (\<lambda>_. True) rd m fd = Some (ret, m1, fd1)"
    and "rok fd" and hdr: "reading_header m"
  shows "rok fd1 \<and>
    (case ret of
       Inr _ \<Rightarrow> reading_content m1 \<and> resume_parse bo m1 (unread fd1) = resume_parse bo m (unread fd)
     | Inl e \<Rightarrow> resume_parse bo m (unread fd) = Malformed e \<or>
         io_error e \<and> reading_header m1 \<and>
         resume_parse bo m1 (unread fd1) = resume_parse bo m (unread fd) \<and>
         (e = PRELUDE_ERROR_EOF \<longrightarrow> unread fd1 = []))"
proof -
  let ?k = "unat (msg_header_index m)"
  have k: "?k < 16" "length (msg_hdrbuf m) = 16" and fits: "payload_fits m"
    and ri: "unat (msg_read_index m) = 16 + unat (msg_datalen m)"
    using hdr by (auto simp: reading_header_def)
  have count: "unat (16 - msg_header_index m) = 16 - ?k"
    using k by (simp add: unat_minus_small)
  obtain r bs where loop: "read_message_data rd [] (unat (16 - msg_header_index m)) fd = Some (r, bs, fd1)"
    using read_message_header_loop [OF assms(1)] by auto
  have res: "loop_result [] (16 - ?k) fd (r, bs, fd1)"
    using read_loop [OF loop assms(2)] k count by simp
  then have un: "unread fd = bs @ unread fd1" "rok fd1" "length bs \<le> 16 - ?k"
    by (auto simp: loop_result_def split: sum.splits)
  let ?hb = "take ?k (msg_hdrbuf m) @ bs @ drop (?k + length bs) (msg_hdrbuf m)"
  let ?m = "m\<lparr>msg_hdrbuf := ?hb, msg_header_index := msg_header_index m + of_nat (length bs)\<rparr>"
  have hb: "mem_write (msg_hdrbuf m) ?k bs = Some ?hb"
    using un k by (simp add: mem_write_def)
  have hi: "unat (msg_header_index m + of_nat (length bs)) = ?k + length bs"
    using un k by (simp add: unat_add_of_nat)
  have rdata: "read_data ?m = read_data m" and pfits: "payload_fits ?m"
    using fits by (simp_all add: read_data_def payload_fits_def split: option.splits)
  have parse: "resume_parse bo m (unread fd) =
      parse_header bo (msg_hdr m) (read_data m) (take ?k (msg_hdrbuf m) @ bs @ unread fd1)"
    using k un by (auto simp: resume_parse_def)
  show ?thesis
  proof (cases r)
    case (Inl e)
    with res have short: "?k + length bs < 16" and err: "io_error e"
      and eof: "e = PRELUDE_ERROR_EOF \<longrightarrow> unread fd1 = []"
      by (auto simp: loop_result_def io_error_def)
    have m1: "ret = Inl e" "m1 = ?m"
      using assms(1) Inl by (auto simp: read_message_header_def loop hb)
    have "reading_header ?m"
      using hdr short k hi by (auto simp: reading_defs split: option.splits)
    moreover have "resume_parse bo ?m (unread fd1) = resume_parse bo m (unread fd)"
      unfolding parse using short k hi rdata by (auto simp: resume_parse_def)
    ultimately show ?thesis using m1 err eof un(2) by simp
  next
    case (Inr u)
    with res k have full: "length bs = 16 - ?k" by (simp add: loop_result_def)
    then have hb16: "?hb = take ?k (msg_hdrbuf m) @ bs" "length (take ?k (msg_hdrbuf m) @ bs) = 16"
      using k by auto
    obtain rs h where sl: "slice_message_header bo (msg_hdr m) (take ?k (msg_hdrbuf m) @ bs) = (rs, h)"
      by force
    have p: "resume_parse bo m (unread fd) =
      (case rs of Inl e \<Rightarrow> Malformed e | Inr _ \<Rightarrow>
         if hdr_version h \<noteq> PRELUDE_MSG_VERSION then Malformed PRELUDE_ERROR_PROTOCOL_VERSION
         else parse_content bo h (read_data m) (unread fd1))"
      unfolding parse append_assoc [symmetric] parse_header_full [OF hb16(2)] sl by simp
    show ?thesis
    proof (cases "rs = Inr () \<and> hdr_version h = PRELUDE_MSG_VERSION")
      case True
      then have ok: "slice_message_header bo (msg_hdr m) (take ?k (msg_hdrbuf m) @ bs) = (Inr (), h)"
        using sl by simp
      have m1: "ret = Inr ()" "m1 = enter_content ?m h"
        using assms(1) Inr True length_check_redundant [OF ok] sl hb16(1)
        by (auto simp: read_message_header_def loop hb Let_def enter_content_def)
      have "reading_content m1"
        using slice_ok [OF ok] k fits ri hi full un(3) m1(2)
        by (auto simp: reading_defs enter_content_def word_unat_eq_iff)
      moreover have "read_data m1 = read_data m"
        using read_data_enter_content [OF pfits, of h] slice_ok(1) [OF ok] ri m1(2) rdata by simp
      moreover have "msg_hdr m1 = h" using m1 by (simp add: enter_content_def)
      ultimately show ?thesis
        using p True m1(1) un(2) by (simp add: resume_parse_def reading_content_def)
    next
      case False
      then show ?thesis
        using p assms(1) Inr sl hb16(1) un(2) length_check_redundant
        by (cases rs) (auto simp: read_message_header_def loop hb Let_def split: if_splits)
    qed
  qed
qed

lemma read_content_step:
  assumes "read_message_content rd m fd = Some (ret, m1, fd1, again)"
    and "rok fd" and "reading_content m"
  shows "rok fd1 \<and>
    (case ret of
       Inr _ \<Rightarrow>
         if again then reading_header m1 \<and>
           resume_parse bo m1 (unread fd1) = resume_parse bo m (unread fd)
         else received_ok m1 \<and>
           resume_parse bo m (unread fd) = Parsed (msg_hdr m1) (received_data m1) (unread fd1)
     | Inl e \<Rightarrow> \<not> again \<and> io_error e \<and> reading_content m1 \<and>
         resume_parse bo m1 (unread fd1) = resume_parse bo m (unread fd) \<and>
         (e = PRELUDE_ERROR_EOF \<longrightarrow> unread fd1 = []))"
proof -
  let ?ri = "unat (msg_read_index m)" and ?dl = "unat (msg_datalen m)"
  obtain pl where pl: "msg_payload m = Some pl" "length pl = 16 + ?dl"
    and ri: "16 \<le> ?ri" "?ri < 16 + ?dl" and dl: "?dl < max_message_size"
    and wi: "msg_write_index m = msg_datalen m + 16"
    using assms(3) by (auto simp: reading_content_def payload_fits_def)
  have sum: "unat (msg_datalen m + 16) = ?dl + 16"
    using dl by (subst unat_plus_small) (simp_all add: max_message_size_def)
  have count: "unat (msg_datalen m + 16 - msg_read_index m) = 16 + ?dl - ?ri"
    using sum ri by (subst unat_minus_small) simp_all
  obtain r bs where loop:
    "read_message_data rd [] (unat (msg_datalen m + 16 - msg_read_index m)) fd = Some (r, bs, fd1)"
    using read_message_content_loop [OF assms(1)] by auto
  have res: "loop_result [] (16 + ?dl - ?ri) fd (r, bs, fd1)"
    using read_loop [OF loop assms(2)] ri count by simp
  then have un: "unread fd = bs @ unread fd1" "rok fd1" "length bs \<le> 16 + ?dl - ?ri"
    by (auto simp: loop_result_def split: sum.splits)
  let ?pl = "take ?ri pl @ bs @ drop (?ri + length bs) pl"
  let ?m = "m\<lparr>msg_payload := Some ?pl, msg_read_index := msg_read_index m + of_nat (length bs)\<rparr>"
  have w: "mem_write pl ?ri bs = Some ?pl"
    using un pl ri by (simp add: mem_write_def)
  have ri': "unat (msg_read_index m + of_nat (length bs)) = ?ri + length bs"
    using un ri dl by (subst unat_add_of_nat) (simp_all add: max_message_size_def)
  have data: "read_data ?m = read_data m @ bs"
    using ri' ri pl un(3) by (simp add: read_data_def drop_take)
  have len: "length (read_data m) = ?ri - 16"
    using pl ri by (simp add: read_data_def)
  have parse: "resume_parse bo m (unread fd) = parse_content bo (msg_hdr m) (read_data ?m) (unread fd1)"
    unfolding data un(1) using assms(3) len un(3) ri
    by (subst parse_content_advance [symmetric]) (simp_all add: resume_parse_def reading_content_def)
  show ?thesis
  proof (cases r)
    case (Inl e)
    with res have short: "?ri + length bs < 16 + ?dl" and err: "io_error e"
      and eof: "e = PRELUDE_ERROR_EOF \<longrightarrow> unread fd1 = []"
      by (auto simp: loop_result_def io_error_def)
    have m1: "ret = Inl e" "m1 = ?m" "\<not> again"
      using assms(1) Inl by (auto simp: read_message_content_def loop pl w)
    have "reading_content ?m"
      using assms(3) short ri ri' pl un(3) by (auto simp: reading_content_def payload_fits_def)
    then show ?thesis
      using m1 err eof un(2) parse by (simp add: resume_parse_def reading_content_def)
  next
    case (Inr u)
    with res ri have full: "?ri + length bs = 16 + ?dl" by (simp add: loop_result_def)
    then have plen: "length ?pl = 16 + ?dl" using pl by simp
    have "length (read_data ?m) = ?dl" using data len full ri by simp
    note p = parse [unfolded parse_content_full [OF this]]
    show ?thesis
    proof (cases "hdr_is_fragment (msg_hdr m) \<noteq> 0")
      case True
      then have m1: "ret = Inr ()" "m1 = ?m\<lparr>msg_header_index := 0\<rparr>" "again"
        using assms(1) Inr by (auto simp: read_message_content_def loop pl w)
      have "reading_header m1"
        using m1 plen ri' full assms(3) pl dl
        by (simp add: reading_header_def payload_fits_def reading_content_def)
      moreover have "read_data m1 = read_data ?m"
        using m1 by (simp add: read_data_def)
      ultimately show ?thesis using m1 p True un(2) by (simp add: resume_parse_def)
    next
      case False
      then have m1: "ret = Inr ()" "\<not> again"
        "m1 = set_is_fragment 0 (?m\<lparr>msg_header_index := 0, msg_read_index := 16\<rparr>)"
        using assms(1) Inr by (auto simp: read_message_content_def loop pl w)
      have "received_ok m1"
        using m1 plen dl wi by (simp add: received_ok_def payload_fits_def set_is_fragment_def)
      moreover have "received_data m1 = read_data ?m"
        using m1 ri' full plen pl
        by (simp add: read_data_def received_data_def set_is_fragment_def)
      moreover have "msg_hdr m1 = msg_hdr m"
        using m1 False by (simp add: set_is_fragment_def)
      ultimately show ?thesis using m1 p False un(2) by simp
    qed
  qed
qed

definition read_outcome :: "byte_order \<Rightarrow> prelude_msg option \<Rightarrow> 'io
    \<Rightarrow> unit result \<times> prelude_msg option \<times> 'io \<Rightarrow> bool" where
  "read_outcome bo mo fd res \<longleftrightarrow>
     (case res of (ret, mo', fd') \<Rightarrow> rok fd' \<and>
        (let parse = resume_parse bo (start_msg mo) (unread fd) in
         case ret of
           Inr _ \<Rightarrow> \<exists>m'. mo' = Some m' \<and> received_ok m' \<and>
             parse = Parsed (msg_hdr m') (received_data m') (unread fd')
         | Inl e \<Rightarrow>
             if e = PRELUDE_ERROR_EAGAIN
             then io_error e \<and>
               (\<exists>m'. mo' = Some m' \<and> reading_ok m' \<and> resume_parse bo m' (unread fd') = parse)
             else mo' = None \<and>
               (parse = Malformed e \<or> io_error e \<and> (e = PRELUDE_ERROR_EOF \<longrightarrow> parse = Incomplete))))"

lemma outcome_of_error:
  assumes "rok fd'" "reading_ok m'" "io_error e"
    and "resume_parse bo m' (unread fd') = resume_parse bo (start_msg mo) (unread fd)"
    and "e = PRELUDE_ERROR_EOF \<longrightarrow> unread fd' = []"
  shows "read_outcome bo mo fd (finish_read (Inl e, Some m', fd'))"
  using assms resume_empty [OF assms(2), of bo]
  by (auto simp: read_outcome_def finish_read_def Let_def)

lemma finish_read_idem [simp]: "finish_read (finish_read r) = finish_read r"
  by (auto simp: finish_read_def split: prod.splits sum.splits option.splits)

lemma outcome_finished: "read_outcome bo mo fd r \<Longrightarrow> finish_read r = r"
  by (auto simp: read_outcome_def finish_read_def Let_def split: prod.splits sum.splits
      option.splits if_splits)

lemma outcome_cong:
  assumes "resume_parse bo (start_msg mo) (unread fd) = resume_parse bo (start_msg mo') (unread fd')"
  shows "read_outcome bo mo fd = read_outcome bo mo' fd'"
  using assms by (simp add: read_outcome_def fun_eq_iff)

lemma content_phase:
  assumes "Option.bind (read_message_content rd m fd) (\<lambda>(ret, m2, fd2, again).
      if again then prelude_msg_read bo (\<lambda>_. True) rd (Some m2) fd2
      else Some (ret, Some m2, fd2)) = Some r"
    and ok: "rok fd" "reading_content m"
    and next_fragment: "\<And>m2 fd2 res. reading_header m2 \<Longrightarrow> msg_datalen m2 = msg_datalen m \<Longrightarrow> rok fd2 \<Longrightarrow>
      prelude_msg_read bo (\<lambda>_. True) rd (Some m2) fd2 = Some res \<Longrightarrow> read_outcome bo (Some m2) fd2 res"
  shows "read_outcome bo (Some m) fd (finish_read r)"
proof -
  obtain ret m2 fd2 again where c: "read_message_content rd m fd = Some (ret, m2, fd2, again)"
    using assms(1) by (auto simp: bind_eq_Some_conv)
  note step = read_content_step [OF c ok, of bo]
  show ?thesis
  proof (cases again)
    case True
    with step obtain u where "ret = Inr u" by (cases ret) auto
    with step True have hdr: "reading_header m2" "rok fd2"
      "resume_parse bo m2 (unread fd2) = resume_parse bo m (unread fd)" by auto
    have "msg_hdr m2 = msg_hdr m"
      using read_message_content_again(1) c True by metis
    moreover have "prelude_msg_read bo (\<lambda>_. True) rd (Some m2) fd2 = Some r"
      using assms(1) c True by simp
    ultimately have "read_outcome bo (Some m2) fd2 r"
      using next_fragment hdr by simp
    moreover have "read_outcome bo (Some m2) fd2 = read_outcome bo (Some m) fd"
      by (rule outcome_cong) (simp add: start_msg_def hdr(3))
    ultimately show ?thesis by (metis outcome_finished)
  next
    case False
    then have r: "r = (ret, Some m2, fd2)" using assms(1) c by simp
    show ?thesis
    proof (cases ret)
      case (Inl e)
      then show ?thesis
        using step r by (simp add: outcome_of_error reading_ok_def start_msg_def)
    next
      case (Inr u)
      then show ?thesis
        using step r False by (simp add: read_outcome_def finish_read_def start_msg_def)
    qed
  qed
qed

lemma header_phase:
  assumes "prelude_msg_read bo (\<lambda>_. True) rd mo fd = Some res" "rok fd" "reading_header (start_msg mo)"
  shows "read_outcome bo mo fd res"
  using assms
proof (induction "2 ^ 32 - unat (msg_datalen (start_msg mo))" arbitrary: mo fd res rule: less_induct)
  case less
  let ?m = "start_msg mo"
  have ne: "msg_header_index ?m \<noteq> PRELUDE_MSG_HDR_SIZE"
    using less.prems(3) by (auto simp: reading_header_def)
  obtain ret m1 fd1 where h: "read_message_header bo (\<lambda>_. True) rd ?m fd = Some (ret, m1, fd1)"
    and res: "map_option finish_read
              (if msg_payload m1 \<noteq> None \<and> ret = Inr ()
               then Option.bind (read_message_content rd m1 fd1) (\<lambda>(ret, m2, pio2, again).
                      if again then prelude_msg_read bo (\<lambda>_. True) rd (Some m2) pio2
                      else Some (ret, Some m2, pio2))
               else Some (ret, Some m1, fd1)) = Some res"
    using less.prems(1) ne
    by (auto simp: prelude_msg_read.simps [of bo _ rd mo] bind_eq_Some_conv start_msg_def Let_def)
  note step = read_header_step [OF h less.prems(2,3)]
  show ?case
  proof (cases ret)
    case (Inl e)
    then have "res = finish_read (Inl e, Some m1, fd1)" using res by auto
    moreover have ?thesis
      if "resume_parse bo ?m (unread fd) = Malformed e" "res = finish_read (Inl e, Some m1, fd1)"
      using that step resume_malformed [OF that(1)] by (simp add: read_outcome_def finish_read_def)
    ultimately show ?thesis
      using step Inl by (auto simp: outcome_of_error reading_ok_def)
  next
    case (Inr u)
    with step have c: "reading_content m1" "rok fd1"
      and eq: "resume_parse bo m1 (unread fd1) = resume_parse bo ?m (unread fd)" by auto
    have grow: "unat (msg_datalen ?m) < unat (msg_datalen m1)"
      using read_message_header_grows h Inr by auto
    have "unat (msg_datalen m1) < 2 ^ 32"
      using unsigned_less [where ?'a = nat, of "msg_datalen m1"] by simp
    with grow have lt: "2 ^ 32 - unat (msg_datalen m1) < 2 ^ 32 - unat (msg_datalen ?m)"
      by linarith
    obtain r where r: "Option.bind (read_message_content rd m1 fd1) (\<lambda>(ret, m2, pio2, again).
                      if again then prelude_msg_read bo (\<lambda>_. True) rd (Some m2) pio2
                      else Some (ret, Some m2, pio2)) = Some r" "res = finish_read r"
      using res c(1) Inr by (auto simp: reading_content_def)
    have "read_outcome bo (Some m1) fd1 (finish_read r)"
    proof (rule content_phase [OF r(1) c(2,1)])
      fix m2 fd2 res
      assume "reading_header m2" "msg_datalen m2 = msg_datalen m1" "rok fd2"
        "prelude_msg_read bo (\<lambda>_. True) rd (Some m2) fd2 = Some res"
      then show "read_outcome bo (Some m2) fd2 res"
        using less.hyps [of "Some m2" fd2 res] lt by (simp add: start_msg_def [of "Some m2"])
    qed
    moreover have "read_outcome bo (Some m1) fd1 = read_outcome bo mo fd"
      by (rule outcome_cong) (simp add: start_msg_def [of "Some m1"] eq)
    ultimately show ?thesis using r(2) by simp
  qed
qed

text \<open>Every call of \<open>prelude_msg_read\<close> implements the parser.\<close>

lemma read_refines_parse:
  assumes "prelude_msg_read bo (\<lambda>_. True) rd mo fd = Some res" "rok fd" "reading_ok (start_msg mo)"
  shows "read_outcome bo mo fd res"
proof (cases "reading_header (start_msg mo)")
  case True
  then show ?thesis using header_phase assms by blast
next
  case False
  with assms(3) have c: "reading_content (start_msg mo)" by (simp add: reading_ok_def)
  then obtain m where mo: "mo = Some m" "reading_content m"
    by (cases mo) (auto simp: start_msg_def fresh_read_msg_def reading_content_def)
  then obtain r where r: "Option.bind (read_message_content rd m fd) (\<lambda>(ret, m2, pio2, again).
                      if again then prelude_msg_read bo (\<lambda>_. True) rd (Some m2) pio2
                      else Some (ret, Some m2, pio2)) = Some r" "res = finish_read r"
    using assms(1) by (auto simp: prelude_msg_read.simps [of bo _ rd "Some m"] reading_content_def)
  show ?thesis
    unfolding mo(1) r(2)
    by (rule content_phase [OF r(1) assms(2) mo(2)])
      (rule header_phase, auto simp: start_msg_def)
qed

end

context live_source
begin

text \<open>A source that reports its end as an error: it always returns, with data or an error.\<close>

definition delivers :: bool where
  "delivers \<longleftrightarrow> (\<forall>io n. rok io \<longrightarrow> 0 < n \<longrightarrow> (\<exists>r io'. rd io n = Some (r, io') \<and> r \<noteq> Inr []))"

lemma read_loop_live:
  assumes "rok fd" "length got < count" "count \<le> length got + length (unread fd) \<or> delivers"
  shows "read_message_data rd got count fd \<noteq> None"
  using assms
proof (induction "count - length got" arbitrary: got fd rule: less_induct)
  case less
  then have ne: "unread fd \<noteq> [] \<or> delivers" "0 < count - length got" by auto
  then obtain r fd1 where r: "rd fd (count - length got) = Some (r, fd1)" "r \<noteq> Inr []"
    using rd_live rd_nothing less.prems(1) unfolding delivers_def by metis
  show ?case
  proof (cases r)
    case (Inl e)
    then show ?thesis using r by (subst read_message_data.simps) simp
  next
    case (Inr bs)
    then have d: "rok fd1" "length bs \<le> count - length got" "unread fd = bs @ unread fd1" "bs \<noteq> []"
      using rd_data [OF less.prems(1)] r by auto
    show ?thesis
    proof (cases "length (got @ bs) = count")
      case True
      then show ?thesis using r Inr by (subst read_message_data.simps) simp
    next
      case False
      then have lt: "length (got @ bs) < count" using d less.prems(2) by auto
      have "count \<le> length (got @ bs) + length (unread fd1) \<or> delivers" using less.prems(3) d(3) by auto
      moreover have "count - length (got @ bs) < count - length got"
        using d(4) lt by (cases bs) auto
      ultimately have "read_message_data rd (got @ bs) count fd1 \<noteq> None"
        using less.hyps [of "got @ bs" fd1] d(1) lt by blast
      then show ?thesis using r Inr False by (subst read_message_data.simps) simp
    qed
  qed
qed

lemma header_live:
  assumes "rok fd" "reading_header m" "resume_parse bo m (unread fd) \<noteq> Incomplete \<or> delivers"
  shows "read_message_header bo (\<lambda>_. True) rd m fd \<noteq> None"
proof -
  let ?k = "unat (msg_header_index m)"
  have k: "?k < 16" "length (msg_hdrbuf m) = 16"
    using assms(2) by (auto simp: reading_header_def)
  then have count: "unat (16 - msg_header_index m) = 16 - ?k"
    by (simp add: unat_minus_small)
  have "16 - ?k \<le> length (unread fd) \<or> delivers"
    using assms(3) k by (auto simp: resume_parse_def parse_header.simps [of bo "msg_hdr m"]
        split: if_splits)
  then obtain r bs fd1 where loop: "read_message_data rd [] (16 - ?k) fd = Some (r, bs, fd1)"
    using read_loop_live [of fd "[]" "16 - ?k"] assms(1) k by auto
  have "loop_result [] (16 - ?k) fd (r, bs, fd1)"
    using read_loop [OF loop assms(1)] k by simp
  then have "length bs \<le> 16 - ?k" by (auto simp: loop_result_def split: sum.splits)
  then have "mem_write (msg_hdrbuf m) ?k bs \<noteq> None"
    using k by (simp add: mem_write_def)
  then show ?thesis
    using loop count
    by (auto simp: read_message_header_def Let_def split: sum.split prod.split)
qed

lemma content_live:
  assumes "rok fd" "reading_content m" "resume_parse bo m (unread fd) \<noteq> Incomplete \<or> delivers"
  shows "read_message_content rd m fd \<noteq> None"
proof -
  let ?ri = "unat (msg_read_index m)" and ?dl = "unat (msg_datalen m)"
  obtain pl where pl: "msg_payload m = Some pl" "length pl = 16 + ?dl"
    and ri: "16 \<le> ?ri" "?ri < 16 + ?dl" and dl: "?dl < max_message_size"
    using assms(2) by (auto simp: reading_content_def payload_fits_def)
  have "unat (msg_datalen m + 16) = ?dl + 16"
    using dl by (subst unat_plus_small) (simp_all add: max_message_size_def)
  then have count: "unat (msg_datalen m + 16 - msg_read_index m) = 16 + ?dl - ?ri"
    using ri by (subst unat_minus_small) simp_all
  have "length (read_data m) = ?ri - 16"
    using pl ri by (simp add: read_data_def)
  then have "16 + ?dl - ?ri \<le> length (unread fd) \<or> delivers"
    using assms(2,3) ri
    by (auto simp: resume_parse_def reading_content_def parse_content.simps [of bo "msg_hdr m"]
        Let_def split: if_splits)
  then obtain r bs fd1 where loop: "read_message_data rd [] (16 + ?dl - ?ri) fd = Some (r, bs, fd1)"
    using read_loop_live [of fd "[]" "16 + ?dl - ?ri"] assms(1) ri by auto
  have "loop_result [] (16 + ?dl - ?ri) fd (r, bs, fd1)"
    using read_loop [OF loop assms(1)] ri by simp
  then have "length bs \<le> 16 + ?dl - ?ri" by (auto simp: loop_result_def split: sum.splits)
  then have "mem_write pl ?ri bs \<noteq> None"
    using ri pl by (simp add: mem_write_def)
  then show ?thesis
    using loop count pl by (auto simp: read_message_content_def Let_def split: sum.split)
qed

lemma content_phase_live:
  assumes ok: "rok fd" "reading_content m" "resume_parse bo m (unread fd) \<noteq> Incomplete \<or> delivers"
    and next_fragment: "\<And>m2 fd2. reading_header m2 \<Longrightarrow> msg_datalen m2 = msg_datalen m \<Longrightarrow> rok fd2 \<Longrightarrow>
      resume_parse bo m2 (unread fd2) \<noteq> Incomplete \<or> delivers \<Longrightarrow>
      prelude_msg_read bo (\<lambda>_. True) rd (Some m2) fd2 \<noteq> None"
  shows "Option.bind (read_message_content rd m fd) (\<lambda>(ret, m2, fd2, again).
      if again then prelude_msg_read bo (\<lambda>_. True) rd (Some m2) fd2
      else Some (ret, Some m2, fd2)) \<noteq> None"
proof -
  obtain ret m2 fd2 again where c: "read_message_content rd m fd = Some (ret, m2, fd2, again)"
    using content_live [OF ok] by auto
  note step = read_content_step [OF c ok(1,2), of bo]
  show ?thesis
  proof (cases again)
    case True
    with step have hdr: "reading_header m2" "rok fd2"
      "resume_parse bo m2 (unread fd2) = resume_parse bo m (unread fd)" by (cases ret; auto)+
    have "msg_hdr m2 = msg_hdr m"
      using read_message_content_again(1) c True by metis
    then show ?thesis using next_fragment hdr ok(3) c True by simp
  qed (simp add: c)
qed

lemma header_phase_live:
  assumes "rok fd" "reading_header (start_msg mo)"
    and "resume_parse bo (start_msg mo) (unread fd) \<noteq> Incomplete \<or> delivers"
  shows "prelude_msg_read bo (\<lambda>_. True) rd mo fd \<noteq> None"
  using assms
proof (induction "2 ^ 32 - unat (msg_datalen (start_msg mo))" arbitrary: mo fd rule: less_induct)
  case less
  let ?m = "start_msg mo"
  have ne: "msg_header_index ?m \<noteq> PRELUDE_MSG_HDR_SIZE"
    using less.prems(2) by (auto simp: reading_header_def)
  obtain ret m1 fd1 where h: "read_message_header bo (\<lambda>_. True) rd ?m fd = Some (ret, m1, fd1)"
    using header_live less.prems by force
  note step = read_header_step [OF h less.prems(1,2)]
  have "(if msg_payload m1 \<noteq> None \<and> ret = Inr ()
               then Option.bind (read_message_content rd m1 fd1) (\<lambda>(ret, m2, pio2, again).
                      if again then prelude_msg_read bo (\<lambda>_. True) rd (Some m2) pio2
                      else Some (ret, Some m2, pio2))
               else Some (ret, Some m1, fd1)) \<noteq> None"
  proof (cases "ret = Inr ()")
    case True
    have "unat (msg_datalen m1) < 2 ^ 32"
      using unsigned_less [where ?'a = nat, of "msg_datalen m1"] by simp
    moreover have "unat (msg_datalen ?m) < unat (msg_datalen m1)"
      using read_message_header_grows h True by auto
    ultimately have lt: "2 ^ 32 - unat (msg_datalen m1) < 2 ^ 32 - unat (msg_datalen ?m)"
      by linarith
    have "Option.bind (read_message_content rd m1 fd1) (\<lambda>(ret, m2, pio2, again).
                      if again then prelude_msg_read bo (\<lambda>_. True) rd (Some m2) pio2
                      else Some (ret, Some m2, pio2)) \<noteq> None"
    proof (rule content_phase_live)
      fix m2 fd2
      assume "reading_header m2" "msg_datalen m2 = msg_datalen m1" "rok fd2"
        "resume_parse bo m2 (unread fd2) \<noteq> Incomplete \<or> delivers"
      then show "prelude_msg_read bo (\<lambda>_. True) rd (Some m2) fd2 \<noteq> None"
        using less.hyps [of "Some m2" fd2] lt by (simp add: start_msg_def [of "Some m2"])
    qed (use step True less.prems(3) in auto)
    with True show ?thesis by simp
  qed simp
  then show ?case
    using h ne
    by (simp add: prelude_msg_read.simps [of bo _ rd mo] start_msg_def Let_def)
qed

text \<open>A call returns whenever the stream decides the message, and always when the source reports its end.\<close>

lemma read_live:
  assumes "rok fd" "reading_ok (start_msg mo)"
    and "resume_parse bo (start_msg mo) (unread fd) \<noteq> Incomplete \<or> delivers"
  shows "prelude_msg_read bo (\<lambda>_. True) rd mo fd \<noteq> None"
proof (cases "reading_header (start_msg mo)")
  case True
  then show ?thesis using header_phase_live assms by blast
next
  case False
  with assms(2) have "reading_content (start_msg mo)" by (simp add: reading_ok_def)
  then obtain m where mo: "mo = Some m" "reading_content m"
    by (cases mo) (auto simp: start_msg_def fresh_read_msg_def reading_content_def)
  have "Option.bind (read_message_content rd m fd) (\<lambda>(ret, m2, pio2, again).
                      if again then prelude_msg_read bo (\<lambda>_. True) rd (Some m2) pio2
                      else Some (ret, Some m2, pio2)) \<noteq> None"
    using assms mo
    by (intro content_phase_live header_phase_live) (simp_all add: start_msg_def)
  then show ?thesis
    unfolding mo(1) using mo(2)
    by (simp add: prelude_msg_read.simps [of bo _ rd "Some m"] reading_content_def)
qed

text \<open>A source without errors: the call is the parser, and waits for ever for bytes that never come.\<close>

lemma quiet_read:
  assumes "rok fd" "reading_ok (start_msg mo)" and quiet: "\<And>io n e io'. rd io n \<noteq> Some (Inl e, io')"
  shows "case resume_parse bo (start_msg mo) (unread fd) of
      Parsed h d rest \<Rightarrow> \<exists>m fd'. prelude_msg_read bo (\<lambda>_. True) rd mo fd = Some (Inr (), Some m, fd') \<and>
        rok fd' \<and> unread fd' = rest \<and> received_ok m \<and> msg_hdr m = h \<and> received_data m = d
    | Malformed e \<Rightarrow> \<exists>fd'. prelude_msg_read bo (\<lambda>_. True) rd mo fd = Some (Inl e, None, fd') \<and> rok fd'
    | Incomplete \<Rightarrow> prelude_msg_read bo (\<lambda>_. True) rd mo fd = None"
proof (cases "prelude_msg_read bo (\<lambda>_. True) rd mo fd")
  case None
  then show ?thesis using read_live [OF assms(1,2), of bo] by (auto split: parsed.split)
next
  case (Some res)
  obtain ret mo' fd' where r: "res = (ret, mo', fd')" by (cases res)
  have "\<not> io_error e" for e using quiet by (simp add: io_error_def)
  then show ?thesis
    using read_refines_parse [OF Some assms(1,2)] Some r
    by (cases ret) (auto simp: read_outcome_def Let_def split: if_splits)
qed

end

context patient_source
begin

lemma read_loop_patience:
  assumes "read_message_data rd' got count fd = Some res"
  shows "rd' = rd \<longrightarrow> patience_after fd (fst res) (snd (snd res))"
proof (rule read_message_data.raw_induct [OF _ assms], intro impI)
  fix f rda got count fd res
  assume IH: "\<And>rdb got count fd res. f rdb got count fd = Some res \<Longrightarrow>
      rdb = rd \<longrightarrow> patience_after fd (fst res) (snd (snd res))"
    and body: "Option.bind (rda fd (count - length got)) (\<lambda>r.
       case fst r of
         Inl e \<Rightarrow> Some (Inl e, got, snd r)
       | Inr bs \<Rightarrow> if length (got @ bs) = count then Some (Inr (), got @ bs, snd r)
                   else f rda (got @ bs) count (snd r)) = Some res"
    and pre: "rda = rd"
  then obtain r fd1 where r: "rd fd (count - length got) = Some (r, fd1)"
    by (auto simp: bind_eq_Some_conv)
  note p = patience_rd [OF r]
  show "patience_after fd (fst res) (snd (snd res))"
  proof (cases r)
    case (Inl e)
    then show ?thesis using body r pre p by (auto simp: patience_after_def)
  next
    case (Inr bs)
    show ?thesis
    proof (cases "length (got @ bs) = count")
      case True
      then show ?thesis using body r pre Inr p by (auto simp: patience_after_def)
    next
      case False
      then have "f rda (got @ bs) count fd1 = Some res" using body r pre Inr by simp
      then show ?thesis using IH pre patience_trans [OF p] by blast
    qed
  qed
qed

lemma header_patience:
  assumes "read_message_header bo mem_ok rd m fd = Some (ret, m1, fd1)"
  shows "patience_after fd ret fd1"
  using read_message_header_loop [OF assms] read_loop_patience
  by (fastforce simp: patience_after_def)

lemma content_patience:
  assumes "read_message_content rd m fd = Some (ret, m1, fd1, again)"
  shows "patience_after fd ret fd1"
  using read_message_content_loop [OF assms] read_loop_patience
  by (fastforce simp: patience_after_def)

lemma finish_read_patience: "patience_after fd (fst (finish_read r)) (snd (snd (finish_read r))) =
    patience_after fd (fst r) (snd (snd r))"
  by (auto simp: finish_read_def split: prod.split sum.split option.split)

lemma read_patience:
  assumes "prelude_msg_read bo mem_ok rd mo fd = Some res"
  shows "patience_after fd (fst res) (snd (snd res))"
proof -
  have "prelude_msg_read bo mem_ok rd' mo fd = Some res \<Longrightarrow> rd' = rd \<Longrightarrow> ?thesis" for rd'
  proof (induction bo mem_ok rd' mo fd arbitrary: res rule: prelude_msg_read.induct)
    case (1 bo mem_ok rd' mo fd)
    let ?m0 = "case mo of None \<Rightarrow> fresh_read_msg | Some m \<Rightarrow> m"
    show ?case
    proof (cases "mo = None \<and> \<not> mem_ok 0")
      case True
      then show ?thesis
        using "1.prems" by (auto simp: prelude_msg_read.simps [of bo mem_ok rd None fd] patience_after_def)
    next
      case False
      let ?hdr = "if msg_header_index ?m0 \<noteq> PRELUDE_MSG_HDR_SIZE
        then read_message_header bo mem_ok rd' ?m0 fd else Some (Inr (), ?m0, fd)"
      obtain ret m1 fd1 where h: "?hdr = Some (ret, m1, fd1)"
        and res: "map_option finish_read
              (if msg_payload m1 \<noteq> None \<and> ret = Inr ()
               then Option.bind (read_message_content rd' m1 fd1) (\<lambda>(ret, m2, pio2, again).
                      if again then prelude_msg_read bo mem_ok rd' (Some m2) pio2
                      else Some (ret, Some m2, pio2))
               else Some (ret, Some m1, fd1)) = Some res"
        using "1.prems"(1) False
        by (auto simp: prelude_msg_read.simps [of bo mem_ok rd' mo fd] bind_eq_Some_conv Let_def)
      have p1: "patience_after fd ret fd1"
        using h header_patience "1.prems"(2) by (auto simp: patience_after_def split: if_splits)
      show ?thesis
      proof (cases "msg_payload m1 \<noteq> None \<and> ret = Inr ()")
        case content: True
        then obtain ret2 m2 fd2 again r where c: "read_message_content rd' m1 fd1 = Some (ret2, m2, fd2, again)"
          and r: "(if again then prelude_msg_read bo mem_ok rd' (Some m2) fd2
                   else Some (ret2, Some m2, fd2)) = Some r" "res = finish_read r"
          using res by (auto simp: bind_eq_Some_conv)
        have p2: "patience_after fd1 ret2 fd2"
          using content_patience c "1.prems"(2) by blast
        have "patience_after fd1 (fst r) (snd (snd r))"
        proof (cases again)
          case True
          have "patience_after fd2 (fst r) (snd (snd r))"
            by (rule "1.IH" [OF False refl h refl refl content c refl refl refl True]) 
              (use r True "1.prems"(2) in auto)
          then show ?thesis by (rule patience_trans [OF p2])
        next
          case False
          then show ?thesis using p2 r by auto
        qed
        then show ?thesis
          unfolding r(2) finish_read_patience by (rule patience_trans [OF p1])
      next
        case False
        then have "res = finish_read (ret, Some m1, fd1)" using res by auto
        then show ?thesis using p1 by (simp add: finish_read_patience)
      qed
    qed
  qed
  then show ?thesis using assms by blast
qed

lemma poll_read_decides:
  assumes "rok fd" "reading_ok (start_msg mo)" "patience fd < fuel"
    and "resume_parse bo (start_msg mo) (unread fd) \<noteq> Incomplete"
    and quiet: "\<And>e. io_error e \<Longrightarrow> e = PRELUDE_ERROR_EAGAIN \<or> e = PRELUDE_ERROR_EOF"
  shows "\<exists>ret mo' fd'. poll_read bo rd fuel mo fd = Some (ret, mo', fd') \<and> rok fd' \<and>
    (case resume_parse bo (start_msg mo) (unread fd) of
       Parsed h d rest \<Rightarrow> ret = Inr () \<and> unread fd' = rest \<and>
         (\<exists>m. mo' = Some m \<and> received_ok m \<and> msg_hdr m = h \<and> received_data m = d)
     | Malformed e \<Rightarrow> ret = Inl e \<and> mo' = None
     | Incomplete \<Rightarrow> False)"
  using assms(1-4)
proof (induction fuel arbitrary: mo fd)
  case (Suc fuel)
  let ?p = "resume_parse bo (start_msg mo) (unread fd)"
  obtain ret mo' fd' where r: "prelude_msg_read bo (\<lambda>_. True) rd mo fd = Some (ret, mo', fd')"
    using read_live Suc.prems by fastforce
  have o: "read_outcome bo mo fd (ret, mo', fd')"
    using read_refines_parse r Suc.prems by blast
  show ?case
  proof (cases "ret = Inl PRELUDE_ERROR_EAGAIN")
    case True
    with o obtain m' where m': "mo' = Some m'" "reading_ok m'" "rok fd'"
      "resume_parse bo m' (unread fd') = ?p"
      by (auto simp: read_outcome_def)
    have "patience fd' < fuel"
      using read_patience [OF r] True Suc.prems(3) by (simp add: patience_after_def)
    then show ?thesis
      using Suc.IH [of fd' "Some m'"] m' Suc.prems(4) r True
      by (simp add: start_msg_def [of "Some m'"])
  next
    case False
    then have "poll_read bo rd (Suc fuel) mo fd = Some (ret, mo', fd')" using r by simp
    moreover have "case ?p of
       Parsed h d rest \<Rightarrow> ret = Inr () \<and> unread fd' = rest \<and>
         (\<exists>m. mo' = Some m \<and> received_ok m \<and> msg_hdr m = h \<and> received_data m = d)
     | Malformed e \<Rightarrow> ret = Inl e \<and> mo' = None
     | Incomplete \<Rightarrow> False"
      using o False Suc.prems(4) quiet
      by (cases ret) (auto simp: read_outcome_def Let_def)
    ultimately show ?thesis using o by (auto simp: read_outcome_def)
  qed
qed simp

end

section \<open>Reading from a memory buffer\<close>

text \<open>
  C31. On a memory buffer \<open>prelude_msg_read\<close> is the parser: it returns the message in front of the
  buffer and leaves the bytes behind it, or the error of a malformed message. When the buffer ends
  inside of a message the call does not return: the buffer reports no error, and
  \<open>read_message_data\<close> asks again for ever.
\<close>

theorem buffer_msg_read:
  assumes "buffer_ok io"
  shows "case parse_msg bo (buffer_unread io) of
      Parsed h d rest \<Rightarrow> \<exists>m io'. prelude_msg_read bo (\<lambda>_. True) buffer_read None io = Some (Inr (), Some m, io') \<and>
        buffer_ok io' \<and> buffer_unread io' = rest \<and> received_ok m \<and> msg_hdr m = h \<and> received_data m = d
    | Malformed e \<Rightarrow>
        \<exists>io'. prelude_msg_read bo (\<lambda>_. True) buffer_read None io = Some (Inl e, None, io') \<and> buffer_ok io'
    | Incomplete \<Rightarrow> prelude_msg_read bo (\<lambda>_. True) buffer_read None io = None"
  using buf_src.quiet_read [OF assms, of None bo] by (simp add: start_msg_def buffer_read_no_error)

definition sample_truncated :: "unit prelude_io" where
  "sample_truncated = \<lparr>io_fd = (), io_fd_ptr = Block [1, 9], io_size = 2, io_rindex = 0,
     io_ops = Some Buffer_Io\<rparr>"

text \<open>Witness: a buffer that holds the first two bytes of a header.\<close>

theorem buffer_msg_read_witness:
  "buffer_ok sample_truncated \<and> parse_msg Little_Endian (buffer_unread sample_truncated) = Incomplete \<and>
   prelude_msg_read Little_Endian (\<lambda>_. True) buffer_read None sample_truncated = None"
proof -
  have ok: "buffer_ok sample_truncated"
    by (simp add: sample_truncated_def buffer_ok_def buffer_content_def)
  have "parse_msg Little_Endian (buffer_unread sample_truncated) = Incomplete"
    by (simp add: sample_truncated_def buffer_unread_def buffer_content_def parse_header.simps)
  with ok show ?thesis using buffer_msg_read [OF ok, of Little_Endian] by simp
qed

end
