(* ===== verification/PMsg_Write.thy ===== *)
theory PMsg_Write
  imports PMsg_Read
begin

text \<open>
  Building messages. A dynamic message collects data in one buffer of \<open>MSGBUF_SIZE\<close> bytes; when the
  buffer is full its flush callback sends it as a fragment. The locale \<open>fragment_flush\<close> states what
  \<open>set_data\<close> relies on in that callback; its lemmas show that every byte handed to \<open>prelude_msg_set\<close>
  is in a fragment or still in the buffer, in order.
\<close>

section \<open>Frames\<close>

record frame =
  f_tag :: byte
  f_priority :: byte
  f_fragment :: byte
  f_sec :: u32
  f_usec :: u32
  f_data :: "byte list"

definition encode_frame :: "frame \<Rightarrow> byte list" where
  "encode_frame f =
     [1, f_tag f, f_priority f, f_fragment f] @ be32 (of_nat (length (f_data f)))
     @ be32 (f_sec f) @ be32 (f_usec f) @ f_data f"

definition frames_bytes :: "frame list \<Rightarrow> byte list" where
  "frames_bytes fs = concat (map encode_frame fs)"

definition frames_data :: "frame list \<Rightarrow> byte list" where
  "frames_data fs = concat (map f_data fs)"

text \<open>The first priority that is not \<open>PRELUDE_MSG_PRIORITY_NONE\<close>.\<close>

fun first_priority :: "byte list \<Rightarrow> byte" where
  "first_priority [] = PRELUDE_MSG_PRIORITY_NONE"
| "first_priority (p # ps) = (if p = PRELUDE_MSG_PRIORITY_NONE then first_priority ps else p)"

lemma first_priority_append:
  "first_priority (ps @ qs) = (if first_priority ps = 0 then first_priority qs else first_priority ps)"
  by (induction ps) auto

section \<open>The parser reads frames\<close>

definition frame_hdr :: "prelude_msg_hdr \<Rightarrow> frame \<Rightarrow> prelude_msg_hdr" where
  "frame_hdr h f =
     (let h1 = (if hdr_datalen h = 0
                then h\<lparr>hdr_version := 1, hdr_tag := f_tag f, hdr_tv_sec := f_sec f,
                       hdr_tv_usec := f_usec f\<rparr> else h);
          h2 = (if hdr_priority h1 = 0 then h1\<lparr>hdr_priority := f_priority f\<rparr> else h1)
      in h2\<lparr>hdr_is_fragment := f_fragment f,
            hdr_datalen := hdr_datalen h + of_nat (length (f_data f))\<rparr>)"

lemma frame_hdr_fields [simp]:
  "hdr_is_fragment (frame_hdr h f) = f_fragment f"
  "hdr_datalen (frame_hdr h f) = hdr_datalen h + of_nat (length (f_data f))"
  by (simp_all add: frame_hdr_def Let_def)

lemma frame_hdr_version:
  "hdr_datalen h = 0 \<or> hdr_version h = 1 \<Longrightarrow> hdr_version (frame_hdr h f) = 1"
  by (auto simp: frame_hdr_def Let_def)

definition frame_head :: "frame \<Rightarrow> byte list" where
  "frame_head f = [1, f_tag f, f_priority f, f_fragment f] @ be32 (of_nat (length (f_data f)))
     @ be32 (f_sec f) @ be32 (f_usec f)"

lemma encode_frame_head: "encode_frame f = frame_head f @ f_data f"
  by (simp add: encode_frame_def frame_head_def)

lemma length_frame_head [simp]: "length (frame_head f) = 16"
  by (simp add: frame_head_def)

lemma slice_frame_head:
  assumes "0 < length (f_data f)" "unat (hdr_datalen h) + length (f_data f) < max_message_size"
  shows "slice_message_header bo h (frame_head f) = (Inr (), frame_hdr h f)"
proof -
  let ?n = "of_nat (length (f_data f)) :: u32"
  have n: "unat ?n = length (f_data f)"
    using assms by (subst unat_of_nat_small) (auto simp: max_message_size_def)
  have sum: "unat (hdr_datalen h + ?n) = unat (hdr_datalen h) + length (f_data f)"
    using assms by (subst unat_add_of_nat) (auto simp: max_message_size_def)
  have words: "take 4 (drop 4 (frame_head f)) = be32 ?n"
    "take 4 (drop 8 (frame_head f)) = be32 (f_sec f)"
    "take 4 (drop 12 (frame_head f)) = be32 (f_usec f)"
    by (simp_all add: frame_head_def)
  have nth: "frame_head f ! 0 = 1" "frame_head f ! 1 = f_tag f" "frame_head f ! 2 = f_priority f"
    "frame_head f ! 3 = f_fragment f"
    by (simp_all add: frame_head_def)
  have "\<not> hdr_datalen h + ?n \<le> hdr_datalen h" "\<not> max_message_size \<le> unat (hdr_datalen h + ?n)"
    using sum assms by (simp_all add: word_le_nat_alt)
  then show ?thesis
    unfolding slice_message_header_def words nth
    by (auto simp: Let_def frame_hdr_def extract_uint32_be32)
qed

text \<open>One frame, then the rest.\<close>

lemma parse_frame:
  assumes "0 < length (f_data f)" "length d + length (f_data f) < max_message_size"
    and "unat (hdr_datalen h) = length d" "hdr_datalen h = 0 \<or> hdr_version h = 1"
  shows "parse_header bo h d (encode_frame f @ bs) =
    (if f_fragment f \<noteq> 0 then parse_header bo (frame_hdr h f) (d @ f_data f) bs
     else Parsed (frame_hdr h f) (d @ f_data f) bs)"
proof -
  have len: "unat (hdr_datalen (frame_hdr h f)) = length (d @ f_data f)"
    using assms by (simp, subst unat_add_of_nat) (auto simp: max_message_size_def)
  have "parse_header bo h d (encode_frame f @ bs) =
      parse_content bo (frame_hdr h f) d (f_data f @ bs)"
    using assms slice_frame_head [of f h bo] frame_hdr_version [OF assms(4)]
    by (simp only: encode_frame_head append_assoc parse_header_full [OF length_frame_head]) simp
  also have "\<dots> = parse_content bo (frame_hdr h f) (d @ f_data f) bs"
    using len by (subst parse_content_advance) auto
  also have "\<dots> = (if f_fragment f \<noteq> 0 then parse_header bo (frame_hdr h f) (d @ f_data f) bs
     else Parsed (frame_hdr h f) (d @ f_data f) bs)"
    using parse_content_full [OF len [symmetric]] by simp
  finally show ?thesis .
qed

lemma parse_frames:
  assumes "\<forall>f \<in> set fs. f_fragment f \<noteq> 0 \<and> f_data f \<noteq> []" "f_fragment l = 0" "f_data l \<noteq> []"
    and "length d + length (frames_data (fs @ [l])) < max_message_size"
    and "unat (hdr_datalen h) = length d" "hdr_datalen h = 0 \<or> hdr_version h = 1"
  shows "parse_header bo h d (frames_bytes (fs @ [l]) @ rest) =
    Parsed (foldl frame_hdr h (fs @ [l])) (d @ frames_data (fs @ [l])) rest"
  using assms
proof (induction fs arbitrary: h d)
  case Nil
  then show ?case
    by (simp add: frames_bytes_def frames_data_def parse_frame)
next
  case (Cons f fs)
  have "parse_header bo h d (frames_bytes ((f # fs) @ [l]) @ rest) =
      parse_header bo (frame_hdr h f) (d @ f_data f) (frames_bytes (fs @ [l]) @ rest)"
    using Cons.prems by (simp add: frames_bytes_def frames_data_def parse_frame)
  also have "\<dots> = Parsed (foldl frame_hdr (frame_hdr h f) (fs @ [l]))
      ((d @ f_data f) @ frames_data (fs @ [l])) rest"
  proof (rule Cons.IH)
    show "unat (hdr_datalen (frame_hdr h f)) = length (d @ f_data f)"
      using Cons.prems by (simp, subst unat_add_of_nat)
        (auto simp: max_message_size_def frames_data_def)
  qed (use Cons.prems frame_hdr_version in \<open>auto simp: frames_data_def\<close>)
  finally show ?case by (simp add: frames_data_def)
qed

text \<open>The accumulated header after all frames.\<close>

lemma foldl_frame_hdr_later:
  assumes "unat (hdr_datalen h) + length (frames_data fs) < max_message_size" "0 < unat (hdr_datalen h)"
  shows "let h' = foldl frame_hdr h fs in
    hdr_tag h' = hdr_tag h \<and> hdr_version h' = hdr_version h \<and>
    hdr_tv_sec h' = hdr_tv_sec h \<and> hdr_tv_usec h' = hdr_tv_usec h \<and>
    hdr_priority h' = first_priority (hdr_priority h # map f_priority fs) \<and>
    unat (hdr_datalen h') = unat (hdr_datalen h) + length (frames_data fs)"
  using assms
proof (induction fs arbitrary: h)
  case Nil
  then show ?case by (simp add: frames_data_def)
next
  case (Cons f fs)
  let ?h = "frame_hdr h f"
  have step: "unat (hdr_datalen ?h) = unat (hdr_datalen h) + length (f_data f)"
    using Cons.prems by (simp, subst unat_add_of_nat) (auto simp: max_message_size_def frames_data_def)
  have keep: "hdr_tag ?h = hdr_tag h" "hdr_version ?h = hdr_version h"
    "hdr_tv_sec ?h = hdr_tv_sec h" "hdr_tv_usec ?h = hdr_tv_usec h"
    "hdr_priority ?h = (if hdr_priority h = 0 then f_priority f else hdr_priority h)"
    using Cons.prems(2) by (auto simp: frame_hdr_def Let_def)
  have len: "length (frames_data (f # fs)) = length (f_data f) + length (frames_data fs)"
    by (simp add: frames_data_def)
  have "unat (hdr_datalen ?h) + length (frames_data fs) < max_message_size" "0 < unat (hdr_datalen ?h)"
    unfolding step using Cons.prems len by simp_all
  from Cons.IH [OF this] show ?case
    unfolding step Let_def keep foldl.simps len by (simp add: keep)
qed

section \<open>Fields\<close>

text \<open>The encoding of one chunk of data under its tag.\<close>

fun encode_field :: "byte \<times> byte list \<Rightarrow> byte list" where
  "encode_field (tag, d) = tag # be32 (of_nat (length d)) @ d"

text \<open>
  \<open>getting_ok\<close> holds of a received message while its fields are taken out by \<open>prelude_msg_get\<close>;
  \<open>unread_fields\<close> is what is left of its data.
\<close>

definition getting_ok :: "prelude_msg \<Rightarrow> bool" where
  "getting_ok m \<longleftrightarrow> payload_fits m \<and> msg_payload m \<noteq> None \<and>
     16 \<le> unat (msg_read_index m) \<and> unat (msg_read_index m) \<le> 16 + unat (msg_datalen m)"

definition unread_fields :: "prelude_msg \<Rightarrow> byte list" where
  "unread_fields m = drop (unat (msg_read_index m)) (the (msg_payload m))"

lemma received_getting_ok:
  "received_ok m \<Longrightarrow> getting_ok m" "received_ok m \<Longrightarrow> unread_fields m = received_data m"
  by (auto simp: received_ok_def getting_ok_def unread_fields_def received_data_def)

text \<open>The bounds that \<open>prelude_msg_get\<close> computes with 32 bit arithmetic, as natural numbers.\<close>

lemma get_bounds:
  assumes "getting_ok m"
  shows "unat (msg_datalen m + 16) = unat (msg_datalen m) + 16"
    "unat (msg_datalen m + 16 - 5) = unat (msg_datalen m) + 11"
    "length (the (msg_payload m)) = unat (msg_datalen m) + 16"
    "unat (msg_datalen m) < max_message_size"
proof -
  show dl: "unat (msg_datalen m) < max_message_size"
    using assms by (simp add: getting_ok_def payload_fits_def)
  then show s: "unat (msg_datalen m + 16) = unat (msg_datalen m) + 16"
    by (subst unat_plus_small) (simp_all add: max_message_size_def)
  then show "unat (msg_datalen m + 16 - 5) = unat (msg_datalen m) + 11"
    by (subst unat_minus_small) simp_all
  show "length (the (msg_payload m)) = unat (msg_datalen m) + 16"
    using assms by (auto simp: getting_ok_def payload_fits_def)
qed

definition advance_read :: "nat \<Rightarrow> prelude_msg \<Rightarrow> prelude_msg" where
  "advance_read k m = m\<lparr>msg_read_index := msg_read_index m + of_nat k\<rparr>"

lemma length_unread_fields:
  "getting_ok m \<Longrightarrow> length (unread_fields m) = unat (msg_datalen m) + 16 - unat (msg_read_index m)"
  by (simp add: unread_fields_def get_bounds)

lemma advance_read:
  assumes "getting_ok m" "k \<le> length (unread_fields m)"
  shows "getting_ok (advance_read k m)" "unread_fields (advance_read k m) = drop k (unread_fields m)"
proof -
  have k: "unat (msg_read_index m) + k \<le> 16 + unat (msg_datalen m)"
    using assms length_unread_fields [OF assms(1)] by (auto simp: getting_ok_def)
  then have ri: "unat (msg_read_index m + of_nat k) = unat (msg_read_index m) + k"
    using get_bounds(4) [OF assms(1)] by (subst unat_add_of_nat) (auto simp: max_message_size_def)
  show "getting_ok (advance_read k m)"
    using assms(1) k ri by (auto simp: getting_ok_def payload_fits_def advance_read_def)
  show "unread_fields (advance_read k m) = drop k (unread_fields m)"
    using ri by (simp add: unread_fields_def advance_read_def add.commute)
qed

text \<open>\<open>prelude_msg_get\<close> in terms of the unread data: its two 32 bit checks are one length check.\<close>

lemma msg_get_eq:
  assumes ok: "getting_ok m"
  defines "u \<equiv> unread_fields m"
  defines "n \<equiv> of_be32 (take 4 (drop 1 u))"
  shows "prelude_msg_get bo m =
    (if u = [] then Some (Inl PRELUDE_ERROR_EOF, m)
     else if length u < 5 then Some (Inl PRELUDE_ERROR_INVAL_LENGTH, m)
     else if n = 0 then Some (Inr (hd u, 0, None), advance_read 5 m)
     else if length u < 5 + unat n then Some (Inl PRELUDE_ERROR_INVAL_LENGTH, advance_read 5 m)
     else Some (Inr (hd u, n, Some (take (unat n) (drop 5 u))), advance_read (5 + unat n) m))"
proof -
  let ?ri = "unat (msg_read_index m)" and ?dl = "unat (msg_datalen m)"
  note b = get_bounds [OF ok]
  have ri: "16 \<le> ?ri" "?ri \<le> 16 + ?dl" using ok by (simp_all add: getting_ok_def)
  obtain pl where pl: "msg_payload m = Some pl" "length pl = ?dl + 16" "u = drop ?ri pl"
    using ok b(3) by (auto simp: getting_ok_def u_def unread_fields_def)
  have lu: "length u = ?dl + 16 - ?ri" using pl by simp
  have e1: "msg_read_index m = msg_datalen m + 16 \<longleftrightarrow> u = []"
    using b(1) ri lu by (auto simp: word_unat_eq_iff)
  have e2: "msg_datalen m + 16 - 5 < msg_read_index m \<longleftrightarrow> length u < 5"
    unfolding word_less_nat_alt b(2) using ri lu by auto
  show ?thesis
  proof (cases "length u < 5")
    case True
    then show ?thesis using e1 e2 by (auto simp: prelude_msg_get_def Let_def)
  next
    case False
    then have une: "u \<noteq> []" by auto
    have ri5: "unat (msg_read_index m + 5) = ?ri + 5"
      using b(4) ri by (subst unat_plus_small) (simp_all add: max_message_size_def)
    have th: "mem_read pl ?ri 5 = Some (take 5 u)"
      using False lu pl(2,3) by (simp add: mem_read_def)
    have u5: "take 5 u ! 0 = hd u" "drop (Suc 0) (take 5 u) = take 4 (drop (Suc 0) u)"
      using False by (cases u; simp add: drop_take)+
    have len: "prelude_extract_uint32 bo (take 4 (drop (Suc 0) u)) = n"
      using False by (simp add: n_def extract_uint32_of_be32)
    have adv: "m\<lparr>msg_read_index := msg_read_index m + 5\<rparr> = advance_read 5 m"
      "m\<lparr>msg_read_index := msg_read_index m + 5 + n\<rparr> = advance_read (5 + unat n) m"
      by (simp_all add: advance_read_def add.assoc)
    have check: "(msg_read_index m + 5 + n \<le> msg_read_index m + 5 \<or>
        msg_datalen m + 16 < msg_read_index m + 5 + n) \<longleftrightarrow> length u < 5 + unat n" if "n \<noteq> 0"
    proof (cases "?ri + 5 + unat n < 2 ^ 32")
      case True
      then have "unat (msg_read_index m + 5 + n) = ?ri + 5 + unat n"
        using ri5 by (subst unat_plus_small) simp_all
      then show ?thesis
        using that b(1) ri lu False ri5 by (auto simp: word_le_nat_alt word_less_nat_alt unat_eq_0)
    next
      case wrap: False
      have "unat n < 2 ^ 32" using unsigned_less [where ?'a = nat, of n] by simp
      then have "unat (msg_read_index m + 5 + n) = ?ri + 5 + unat n - 2 ^ 32"
        using wrap ri5 b(4) ri by (subst unat_word_ariths) (simp add: mod_if max_message_size_def)
      then have "msg_read_index m + 5 + n \<le> msg_read_index m + 5"
        using \<open>unat n < 2 ^ 32\<close> ri5 by (simp add: word_le_nat_alt)
      moreover have "length u < 5 + unat n"
        using wrap lu b(4) by (simp add: max_message_size_def)
      ultimately show ?thesis by simp
    qed
    have g1: "prelude_msg_get bo m =
      (if n = 0 then Some (Inr (hd u, n, None), m\<lparr>msg_read_index := msg_read_index m + 5\<rparr>)
       else if msg_read_index m + 5 + n \<le> msg_read_index m + 5 \<or>
               msg_datalen m + 16 < msg_read_index m + 5 + n
       then Some (Inl PRELUDE_ERROR_INVAL_LENGTH, m\<lparr>msg_read_index := msg_read_index m + 5\<rparr>)
       else map_option (\<lambda>bs. (Inr (hd u, n, Some bs), m\<lparr>msg_read_index := msg_read_index m + 5 + n\<rparr>))
              (mem_read pl (?ri + 5) (unat n)))"
      using e1 e2 False une len u5 th pl(1) ri5
      by (simp add: prelude_msg_get_def Let_def del: nth_take)
    have g2: "prelude_msg_get bo m = (if n = 0 then Some (Inr (hd u, n, None), advance_read 5 m)
       else if length u < 5 + unat n then Some (Inl PRELUDE_ERROR_INVAL_LENGTH, advance_read 5 m)
       else map_option (\<lambda>bs. (Inr (hd u, n, Some bs), advance_read (5 + unat n) m))
              (mem_read pl (?ri + 5) (unat n)))"
      unfolding g1 using check by (simp add: adv)
    have "mem_read pl (?ri + 5) (unat n) = Some (take (unat n) (drop 5 u))"
      if "\<not> length u < 5 + unat n"
      using that lu pl(2,3) by (simp add: mem_read_def add.commute)
    then show ?thesis unfolding g2 using False une by simp
  qed
qed

lemma get_end: "getting_ok m \<Longrightarrow> unread_fields m = [] \<Longrightarrow> prelude_msg_get bo m = Some (Inl PRELUDE_ERROR_EOF, m)"
  by (simp add: msg_get_eq)

lemma get_field:
  assumes "getting_ok m" "unread_fields m = encode_field (t, d) @ rest"
  shows "\<exists>m'. prelude_msg_get bo m =
      Some (Inr (t, of_nat (length d), if d = [] then None else Some d), m') \<and>
    getting_ok m' \<and> unread_fields m' = rest"
proof -
  let ?u = "unread_fields m"
  have lu: "length ?u < max_message_size + 1" "length ?u = 5 + length d + length rest"
    using length_unread_fields [OF assms(1)] get_bounds(4) [OF assms(1)] assms(1,2)
    by (auto simp: getting_ok_def)
  have n: "unat (of_nat (length d) :: u32) = length d"
    using lu by (subst unat_of_nat_small) (auto simp: max_message_size_def)
  have "length (tl ?u) = 4 + (length d + length rest)" "take 4 (drop 1 ?u) = be32 (of_nat (length d))"
    using assms(2) by simp_all
  then have be: "of_be32 (take 4 (drop 1 ?u)) = of_nat (length d)" by simp
  have "drop 5 ?u = d @ rest"
    using assms(2) by (simp add: drop_Cons')
  then have d5: "take (length d) (drop 5 ?u) = d" "drop (5 + length d) ?u = rest"
    by (simp_all add: drop_drop [symmetric] add.commute del: drop_drop)
  have z: "(of_nat (length d) :: u32) = 0 \<longleftrightarrow> d = []"
    using n by (auto simp: word_unat_eq_iff)
  have ne: "?u \<noteq> []" "\<not> length ?u < 5" "hd ?u = t" using assms(2) lu by auto
  have "prelude_msg_get bo m =
      Some (Inr (t, of_nat (length d), if d = [] then None else Some d), advance_read (5 + length d) m)"
    using msg_get_eq [OF assms(1), of bo] ne be z n d5(1) lu(2) by auto
  then show ?thesis using advance_read [OF assms(1), of "5 + length d"] lu(2) d5(2) by auto
qed

text \<open>
  C3. \<open>prelude_msg_get\<close> never reads outside of the payload of a received message, whatever the
  peer put into it, and leaves the read index inside of the payload. A field that it returns is the
  encoded field at the front of the unread data; it refuses exactly the data that hold no complete
  field.
\<close>

theorem msg_get_in_bounds:
  assumes "getting_ok m"
  shows "\<exists>r m'. prelude_msg_get bo m = Some (r, m') \<and> getting_ok m' \<and>
    (case r of
       Inr (tag, len, buf) \<Rightarrow>
         unread_fields m = encode_field (tag, case buf of None \<Rightarrow> [] | Some d \<Rightarrow> d) @ unread_fields m'
     | Inl e \<Rightarrow> e = PRELUDE_ERROR_EOF \<and> unread_fields m = [] \<or>
                e = PRELUDE_ERROR_INVAL_LENGTH \<and> unread_fields m \<noteq> [] \<and>
                (\<forall>t d rest. unread_fields m \<noteq> encode_field (t, d) @ rest))"
proof -
  let ?u = "unread_fields m"
  let ?n = "of_be32 (take 4 (drop 1 ?u)) :: u32"
  have refuse: "\<forall>t d rest. ?u \<noteq> encode_field (t, d) @ rest"
    if "prelude_msg_get bo m = Some (Inl e, m')" for e m'
    using get_field [OF assms, of _ _ _ bo] that by fastforce
  show ?thesis
  proof (cases "length ?u < 5 \<or> ?n \<noteq> 0 \<and> length ?u < 5 + unat ?n")
    case True
    then have "\<exists>e m'. prelude_msg_get bo m = Some (Inl e, m') \<and> getting_ok m' \<and>
        (e = PRELUDE_ERROR_EOF \<and> ?u = [] \<or> e = PRELUDE_ERROR_INVAL_LENGTH \<and> ?u \<noteq> [])"
      using msg_get_eq [OF assms, of bo] assms advance_read(1) [OF assms, of 5] by auto
    then show ?thesis using refuse by fastforce
  next
    case False
    let ?d = "take (unat ?n) (drop 5 ?u)"
    have "length ?u \<ge> 5 + unat ?n" "5 \<le> length ?u" using False by (auto simp: not_less)
    then have len: "length ?d = unat ?n" "5 + unat ?n \<le> length ?u" "5 \<le> length ?u" by simp_all
    obtain a b c e f rest where u: "?u = a # b # c # e # f # rest"
      using len(3) by (rule list5E)
    have "encode_field (hd ?u, ?d) = take 5 ?u @ ?d"
      using u len(1) be32_of_be32 [of b c e f] by simp
    then have "encode_field (hd ?u, ?d) = take (5 + unat ?n) ?u"
      by (simp only: take_add)
    then have split: "encode_field (hd ?u, ?d) @ drop (5 + unat ?n) ?u = ?u"
      by (simp only: append_take_drop_id)
    have "prelude_msg_get bo m =
        Some (Inr (hd ?u, ?n, if ?n = 0 then None else Some ?d), advance_read (5 + unat ?n) m)"
      using msg_get_eq [OF assms, of bo] False u by auto
    moreover have "(case (if ?n = 0 then None else Some ?d) of None \<Rightarrow> [] | Some d \<Rightarrow> d) = ?d"
      by simp
    ultimately show ?thesis
      using advance_read [OF assms len(2)] split [symmetric]
      by (simp del: encode_field.simps split del: if_split)
  qed
qed

text \<open>Witness: a received message with one field of two bytes.\<close>

definition sample_received :: prelude_msg where
  "sample_received = fresh_read_msg
     \<lparr>msg_payload := Some (replicate 16 0 @ [1, 0, 0, 0, 2, 65, 66]),
      msg_hdr := (msg_hdr fresh_read_msg)\<lparr>hdr_datalen := 7\<rparr>\<rparr>"

theorem msg_get_in_bounds_witness:
  "getting_ok sample_received \<and>
   (\<exists>r m'. prelude_msg_get Little_Endian sample_received = Some (r, m') \<and> getting_ok m' \<and>
    (case r of
       Inr (tag, len, buf) \<Rightarrow>
         unread_fields sample_received =
           encode_field (tag, case buf of None \<Rightarrow> [] | Some d \<Rightarrow> d) @ unread_fields m'
     | Inl e \<Rightarrow> e = PRELUDE_ERROR_EOF \<and> unread_fields sample_received = [] \<or>
                e = PRELUDE_ERROR_INVAL_LENGTH \<and> unread_fields sample_received \<noteq> [] \<and>
                (\<forall>t d rest. unread_fields sample_received \<noteq> encode_field (t, d) @ rest)))"
proof -
  have "getting_ok sample_received"
    by (simp add: sample_received_def getting_ok_def payload_fits_def fresh_read_msg_def
        max_message_size_def)
  then show ?thesis using msg_get_in_bounds [of sample_received Little_Endian] by simp
qed

section \<open>Messages that are being built\<close>

definition building :: "prelude_msg \<Rightarrow> bool" where
  "building m \<longleftrightarrow> msg_datalen m = MSGBUF_SIZE \<and> msg_header_index m = 0 \<and> msg_fd_write_index m = 0 \<and>
     msg_flush_msg_cb m \<and> hdr_is_fragment (msg_hdr m) = 0 \<and>
     16 \<le> unat (msg_write_index m) \<and> unat (msg_write_index m) \<le> 8192 \<and>
     (\<exists>pl. msg_payload m = Some pl \<and> length pl = 8192)"

definition pending :: "prelude_msg \<Rightarrow> byte list" where
  "pending m = take (unat (msg_write_index m) - 16) (drop 16 (the (msg_payload m)))"

lemma length_pending:
  assumes "building m"
  shows "length (pending m) = unat (msg_write_index m) - 16" "length (pending m) \<le> 8176"
  using assms by (auto simp: building_def pending_def)

lemma dynamic_new_building:
  "\<exists>m. prelude_msg_dynamic_new (\<lambda>_. True) = Inr m \<and> building m \<and> pending m = [] \<and>
     hdr_tag (msg_hdr m) = 0 \<and> hdr_priority (msg_hdr m) = 0"
  by (simp add: prelude_msg_dynamic_new_def building_def pending_def)

lemma building_set_tag [simp]:
  "building (prelude_msg_set_tag m t) = building m" "pending (prelude_msg_set_tag m t) = pending m"
  by (simp_all add: building_def pending_def prelude_msg_set_tag_def)

lemma building_set_priority [simp]:
  "building (prelude_msg_set_priority m p) = building m"
  "pending (prelude_msg_set_priority m p) = pending m"
  by (simp_all add: building_def pending_def prelude_msg_set_priority_def)

text \<open>Appending to the buffer.\<close>

lemma append_pending:
  assumes "building m" "msg_payload m = Some pl" "mem_write pl (unat (msg_write_index m)) d = Some pl'"
  defines "m' \<equiv> m\<lparr>msg_payload := Some pl', msg_write_index := msg_write_index m + of_nat (length d)\<rparr>"
  shows "building m'" "pending m' = pending m @ d" "msg_hdr m' = msg_hdr m"
proof -
  let ?wi = "unat (msg_write_index m)"
  have b: "16 \<le> ?wi" "?wi + length d \<le> 8192" "length pl = 8192" "pl' = take ?wi pl @ d @ drop (?wi + length d) pl"
    using assms by (auto simp: building_def mem_write_def split: if_splits)
  have wi: "unat (msg_write_index m + of_nat (length d)) = ?wi + length d"
    using b by (subst unat_add_of_nat) auto
  show "building m'" using assms(1) b wi by (auto simp: building_def m'_def)
  show "pending m' = pending m @ d"
    using b wi assms(2) by (simp add: pending_def m'_def drop_take)
qed (simp add: m'_def)

text \<open>
  What \<open>set_data\<close> relies on: the callback sends the buffer as one frame and leaves a message
  whose buffer can be used again.
\<close>

definition flush_of :: "prelude_msg \<Rightarrow> byte \<Rightarrow> frame \<Rightarrow> bool" where
  "flush_of m frag f \<longleftrightarrow> f_data f = pending m \<and> f_tag f = hdr_tag (msg_hdr m) \<and>
     f_priority f = hdr_priority (msg_hdr m) \<and> f_fragment f = frag"

definition after_flush :: "prelude_msg \<Rightarrow> prelude_msg" where
  "after_flush m = set_is_fragment 0
     (m\<lparr>msg_header_index := 0, msg_write_index := PRELUDE_MSG_HDR_SIZE\<rparr>)"

locale fragment_flush =
  fixes cb :: "'w flush_cb"
    and stream :: "'w \<Rightarrow> byte list"
    and ready :: "'w \<Rightarrow> bool"
    and room :: "'w \<Rightarrow> nat"
  assumes flush: "building m \<Longrightarrow> pending m \<noteq> [] \<Longrightarrow> ready w \<Longrightarrow> 8192 < room w \<Longrightarrow>
      \<exists>m' w' f. cb (set_is_fragment frag m) w = Some (Inr (), m', w') \<and> flush_of m frag f \<and>
        building (after_flush m') \<and> hdr_priority (msg_hdr m') = PRELUDE_MSG_PRIORITY_NONE \<and>
        ready w' \<and> stream w' = stream w @ encode_frame f \<and> room w \<le> room w' + 8192"

text \<open>The data, tag and priority of a message of which the frames \<open>fs\<close> are sent already.\<close>

definition content_of :: "frame list \<Rightarrow> prelude_msg \<Rightarrow> byte list" where
  "content_of fs m = frames_data fs @ pending m"

definition tag_of :: "frame list \<Rightarrow> prelude_msg \<Rightarrow> byte" where
  "tag_of fs m = hd (map f_tag fs @ [hdr_tag (msg_hdr m)])"

definition priority_of :: "frame list \<Rightarrow> prelude_msg \<Rightarrow> byte" where
  "priority_of fs m = first_priority (map f_priority fs @ [hdr_priority (msg_hdr m)])"

definition fragments_ok :: "frame list \<Rightarrow> bool" where
  "fragments_ok fs \<longleftrightarrow> (\<forall>f \<in> set fs. f_fragment f \<noteq> 0 \<and> f_data f \<noteq> [])"

lemma after_flush_pending [simp]: "pending (after_flush m) = []"
  by (simp add: pending_def after_flush_def set_is_fragment_def)

lemma after_flush_hdr [simp]:
  "hdr_tag (msg_hdr (after_flush m)) = hdr_tag (msg_hdr m)"
  "hdr_priority (msg_hdr (after_flush m)) = hdr_priority (msg_hdr m)"
  by (simp_all add: after_flush_def set_is_fragment_def)

context fragment_flush
begin

text \<open>
  \<open>sending base fs m w k\<close>: the stream holds \<open>base\<close> and the frames \<open>fs\<close>, the rest is in \<open>m\<close>, and there
  is room for \<open>k\<close> more bytes.
\<close>

definition sending :: "byte list \<Rightarrow> frame list \<Rightarrow> prelude_msg \<Rightarrow> 'w \<Rightarrow> nat \<Rightarrow> bool" where
  "sending base fs m w k \<longleftrightarrow> building m \<and> fragments_ok fs \<and> ready w \<and>
     stream w = base @ frames_bytes fs \<and> 8192 + 2 * (length (pending m) + k) < room w"

definition same_message :: "frame list \<Rightarrow> prelude_msg \<Rightarrow> byte list \<Rightarrow> frame list \<Rightarrow> prelude_msg \<Rightarrow> bool" where
  "same_message fs m d fs' m' \<longleftrightarrow> content_of fs' m' = content_of fs m @ d \<and>
     tag_of fs' m' = tag_of fs m \<and> priority_of fs' m' = priority_of fs m \<and>
     (fs' \<noteq> [] \<longrightarrow> pending m' \<noteq> [])"

lemma flush_step:
  assumes "sending base fs m w (length d + k)" "length (pending m) = 8176" "d \<noteq> []"
  shows "\<exists>f m' w'. call_alloc_cb cb (set_is_fragment 1 m) w = Some (Inr (), m', w') \<and>
    sending base (fs @ [f]) m' w' (length d + k) \<and> pending m' = [] \<and>
    content_of (fs @ [f]) m' = content_of fs m \<and>
    tag_of (fs @ [f]) m' = tag_of fs m \<and> priority_of (fs @ [f]) m' = priority_of fs m"
proof -
  have m: "building m" "pending m \<noteq> []" "ready w" "8192 < room w"
    and big: "8192 + 2 * (8176 + length d + k) < room w"
    using assms by (auto simp: sending_def)
  obtain m1 w' f where f: "cb (set_is_fragment 1 m) w = Some (Inr (), m1, w')" "flush_of m 1 f"
    "building (after_flush m1)" "hdr_priority (msg_hdr m1) = PRELUDE_MSG_PRIORITY_NONE" "ready w'"
    "stream w' = stream w @ encode_frame f" "room w \<le> room w' + 8192"
    using flush [OF m, of 1] by blast
  have "call_alloc_cb cb (set_is_fragment 1 m) w = Some (Inr (), after_flush m1, w')"
    using f(1) by (simp add: call_alloc_cb_def after_flush_def)
  moreover have "sending base (fs @ [f]) (after_flush m1) w' (length d + k)"
    using assms(1) f big m(2) by (auto simp: sending_def fragments_ok_def frames_bytes_def flush_of_def)
  moreover have "content_of (fs @ [f]) (after_flush m1) = content_of fs m"
    using f(2) by (simp add: content_of_def frames_data_def flush_of_def)
  moreover have "tag_of (fs @ [f]) (after_flush m1) = tag_of fs m"
    using f(2) by (cases fs) (simp_all add: tag_of_def flush_of_def)
  moreover have "priority_of (fs @ [f]) (after_flush m1) = priority_of fs m"
    using f(2,4) by (simp add: priority_of_def flush_of_def first_priority_append)
  ultimately show ?thesis using after_flush_pending by blast
qed

lemma set_data_sends:
  assumes "sending base fs m w (length d + k)" "fs \<noteq> [] \<longrightarrow> pending m @ d \<noteq> []"
  shows "\<exists>fs' m' w'. set_data cb m d w = Some (Inr (), m', w') \<and> sending base fs' m' w' k \<and>
    same_message fs m d fs' m'"
  using assms
proof (induction "length d + (if length (pending m) = 8176 then 1 else 0)" arbitrary: fs m w d rule: less_induct)
  case less
  let ?wi = "unat (msg_write_index m)"
  have b: "building m" using less.prems(1) by (simp add: sending_def)
  then obtain pl where pl: "msg_payload m = Some pl" "length pl = 8192" and cbf: "msg_flush_msg_cb m"
    and wi: "16 \<le> ?wi" "?wi \<le> 8192" and dl: "msg_datalen m = 8192"
    by (auto simp: building_def)
  have rem: "unat (msg_datalen m - msg_write_index m) = 8192 - ?wi"
    using wi dl by (simp add: unat_minus_small)
  have plen: "length (pending m) = ?wi - 16" using length_pending(1) [OF b] .
  show ?case
  proof (cases "8192 - ?wi < length d")
    case False
    then have "?wi + length d \<le> length pl" using pl wi by simp
    then obtain pl' where w': "mem_write pl ?wi d = Some pl'"
      using mem_write_Some by blast
    let ?m = "m\<lparr>msg_payload := Some pl', msg_write_index := msg_write_index m + of_nat (length d)\<rparr>"
    have app: "building ?m" "pending ?m = pending m @ d" "msg_hdr ?m = msg_hdr m"
      using append_pending [OF b pl(1) w'] by simp_all
    have "set_data cb m d w = Some (Inr (), ?m, w)"
      using False rem pl cbf w' by (subst set_data.simps) simp
    moreover have "sending base fs ?m w k"
      using less.prems(1) app by (auto simp: sending_def)
    moreover have "same_message fs m d fs ?m"
      using app less.prems(2)
      by (auto simp: same_message_def content_of_def tag_of_def priority_of_def)
    ultimately show ?thesis by blast
  next
    case True
    let ?a = "take (8192 - ?wi) d" and ?d = "drop (8192 - ?wi) d"
    have la: "length ?a = 8192 - ?wi" using True by simp
    then have "?wi + length ?a \<le> length pl" using pl wi by simp
    then obtain pl' where w': "mem_write pl ?wi ?a = Some pl'"
      using mem_write_Some by blast
    let ?m = "m\<lparr>msg_payload := Some pl', msg_write_index := msg_write_index m + of_nat (length ?a)\<rparr>"
    have app: "building ?m" "pending ?m = pending m @ ?a" "msg_hdr ?m = msg_hdr m"
      using append_pending [OF b pl(1) w'] by simp_all
    have full: "length (pending ?m) = 8176"
      using app(2) plen la wi by simp
    have "sending base fs ?m w (length ?d + k)"
      using less.prems(1) app la by (auto simp: sending_def)
    then obtain f m1 w1 where f: "call_alloc_cb cb (set_is_fragment 1 ?m) w = Some (Inr (), m1, w1)"
      "sending base (fs @ [f]) m1 w1 (length ?d + k)" "pending m1 = []"
      "content_of (fs @ [f]) m1 = content_of fs ?m"
      "tag_of (fs @ [f]) m1 = tag_of fs ?m" "priority_of (fs @ [f]) m1 = priority_of fs ?m"
      using flush_step [of base fs ?m w ?d k] full True by auto
    have "set_data cb m d w = set_data cb m1 ?d w1"
      using True rem pl cbf w' f(1) la by (subst set_data.simps) (simp add: set_is_fragment_def)
    moreover have "length ?d + (if length (pending m1) = 8176 then 1 else 0) <
        length d + (if length (pending m) = 8176 then 1 else 0)"
      using f(3) plen wi True by auto
    then obtain fs' m' w' where r: "set_data cb m1 ?d w1 = Some (Inr (), m', w')"
      "sending base fs' m' w' k" "same_message (fs @ [f]) m1 ?d fs' m'"
      using less.hyps [of ?d m1 "fs @ [f]" w1] f(2) True by auto
    moreover have "content_of fs ?m = content_of fs m @ ?a" "tag_of fs ?m = tag_of fs m"
      "priority_of fs ?m = priority_of fs m"
      using app(2,3) by (simp_all add: content_of_def tag_of_def priority_of_def)
    then have "same_message fs m d fs' m'"
      using r(3) f(4-6) by (simp add: same_message_def)
    ultimately show ?thesis by metis
  qed
qed

lemma same_message_trans:
  assumes "same_message fs m d fs1 m1" "same_message fs1 m1 d' fs2 m2"
  shows "same_message fs m (d @ d') fs2 m2"
  using assms by (auto simp: same_message_def)

lemma msg_set_sends:
  assumes "sending base fs m w (5 + length d + k)" "fs \<noteq> [] \<longrightarrow> pending m \<noteq> []"
  shows "\<exists>fs' m' w'. prelude_msg_set bo cb m tag d w = Some (Inr (), m', w') \<and>
    sending base fs' m' w' k \<and> same_message fs m (encode_field (tag, d)) fs' m'"
proof -
  have "sending base fs m w (length [tag] + (4 + length d + k))"
    using assms(1) by (simp add: add.assoc)
  then obtain fs1 m1 w1 where 1: "set_data cb m [tag] w = Some (Inr (), m1, w1)"
    "sending base fs1 m1 w1 (4 + length d + k)" "same_message fs m [tag] fs1 m1"
    using set_data_sends assms(2) by blast
  let ?l = "mem32 bo (htonl bo (of_nat (length d)))"
  have "sending base fs1 m1 w1 (length ?l + (length d + k))"
    using 1(2) by (simp add: add.assoc)
  moreover have "fs1 \<noteq> [] \<longrightarrow> pending m1 @ ?l \<noteq> []" using 1(3) by (simp add: same_message_def)
  ultimately obtain fs2 m2 w2 where 2: "set_data cb m1 ?l w1 = Some (Inr (), m2, w2)"
    "sending base fs2 m2 w2 (length d + k)" "same_message fs1 m1 ?l fs2 m2"
    using set_data_sends by blast
  moreover have "fs2 \<noteq> [] \<longrightarrow> pending m2 @ d \<noteq> []" using 2(3) by (simp add: same_message_def)
  ultimately obtain fs3 m3 w3 where 3: "set_data cb m2 d w2 = Some (Inr (), m3, w3)"
    "sending base fs3 m3 w3 k" "same_message fs2 m2 d fs3 m3"
    using set_data_sends by blast
  have "prelude_msg_set bo cb m tag d w = Some (Inr (), m3, w3)"
    using 1(1) 2(1) 3(1) by (simp add: prelude_msg_set_def)
  moreover have "same_message fs m (encode_field (tag, d)) fs3 m3"
    using same_message_trans [OF same_message_trans [OF 1(3) 2(3)] 3(3)] by simp
  ultimately show ?thesis using 3(2) by blast
qed

end

end
