(* ===== verification/Msgbuf.thy ===== *)
theory Msgbuf
  imports PMsg_Write
begin

text \<open>
  Message buffers (\<open>src/prelude-msgbuf.c\<close>): a dynamic message together with the callback that sends
  it. Synchronous buffers reuse their message after each send, asynchronous ones allocate a new one
  and leave the old one to the sender. \<open>send\<close> is the \<open>send_msg\<close> callback; it gets the message and the
  outside world \<open>'w\<close>.

  The theorems show that writing fields to a message buffer, whose callback writes messages to a
  byte sink, and reading the bytes back with \<open>prelude_msg_read\<close> and \<open>prelude_msg_get\<close> returns the
  fields.
\<close>

section \<open>Operations\<close>

record prelude_msgbuf =
  mb_async :: bool
  mb_msg :: prelude_msg

definition do_send_msg :: "'w flush_cb \<Rightarrow> 'w flush_cb" where
  "do_send_msg send msg w =
     Option.bind (send msg w) (\<lambda>(ret, m, w').
       if ret = Inl PRELUDE_ERROR_EAGAIN then Some (ret, m, w')
       else Some (ret, prelude_msg_set_priority (prelude_msg_recycle m) PRELUDE_MSG_PRIORITY_NONE, w'))"

definition do_send_msg_async :: "(nat \<Rightarrow> bool) \<Rightarrow> 'w flush_cb \<Rightarrow> 'w flush_cb" where
  "do_send_msg_async mem_ok send msg w =
     Option.bind (send msg w) (\<lambda>(ret, m, w').
       if ret = Inl PRELUDE_ERROR_EAGAIN then Some (ret, m, w')
       else case prelude_msg_dynamic_new mem_ok of
         Inl e \<Rightarrow> Some (Inl e, m, w')
       | Inr new \<Rightarrow> Some (Inr (), new, w'))"

text \<open>The returned message is \<open>msgbuf->msg\<close> after the call, which the source copies to \<open>*msg\<close>.\<close>

definition default_send_msg_cb :: "(nat \<Rightarrow> bool) \<Rightarrow> bool \<Rightarrow> 'w flush_cb \<Rightarrow> 'w flush_cb" where
  "default_send_msg_cb mem_ok async send msg w =
     (if async then do_send_msg_async mem_ok send msg w else do_send_msg send msg w)"

definition prelude_msgbuf_set ::
  "byte_order \<Rightarrow> (nat \<Rightarrow> bool) \<Rightarrow> 'w flush_cb \<Rightarrow> prelude_msgbuf \<Rightarrow> byte \<Rightarrow> byte list \<Rightarrow> 'w
     \<Rightarrow> (unit result \<times> prelude_msgbuf \<times> 'w) option" where
  "prelude_msgbuf_set bo mem_ok send mb tag data w =
     map_option (\<lambda>(ret, m, w'). (ret, mb\<lparr>mb_msg := m\<rparr>, w'))
       (prelude_msg_set bo (default_send_msg_cb mem_ok (mb_async mb) send) (mb_msg mb) tag data w)"

definition prelude_msgbuf_new :: "(nat \<Rightarrow> bool) \<Rightarrow> prelude_msgbuf result" where
  "prelude_msgbuf_new mem_ok =
     (if \<not> mem_ok 0 then Inl PRELUDE_ERROR_ENOMEM
      else case prelude_msg_dynamic_new mem_ok of
        Inl e \<Rightarrow> Inl e | Inr m \<Rightarrow> Inr \<lparr>mb_async = False, mb_msg = m\<rparr>)"

definition prelude_msgbuf_get_msg :: "prelude_msgbuf \<Rightarrow> prelude_msg" where
  "prelude_msgbuf_get_msg mb = mb_msg mb"

definition prelude_msgbuf_mark_end ::
  "byte_order \<Rightarrow> ('w \<Rightarrow> u32 \<times> u32) \<Rightarrow> (nat \<Rightarrow> bool) \<Rightarrow> 'w flush_cb \<Rightarrow> prelude_msgbuf \<Rightarrow> 'w
     \<Rightarrow> (prelude_msgbuf \<times> 'w) option" where
  "prelude_msgbuf_mark_end bo clock mem_ok send mb w =
     (let cb = default_send_msg_cb mem_ok (mb_async mb) send in
      Option.bind (prelude_msg_mark_end bo (clock w) cb (mb_msg mb) w) (\<lambda>(m, w1).
        map_option (\<lambda>(ret, m', w2). (mb\<lparr>mb_msg := m'\<rparr>, w2)) (cb m w1)))"

definition prelude_msgbuf_destroy ::
  "(nat \<Rightarrow> bool) \<Rightarrow> 'w flush_cb \<Rightarrow> prelude_msgbuf \<Rightarrow> 'w \<Rightarrow> (prelude_msg option \<times> 'w) option" where
  "prelude_msgbuf_destroy mem_ok send mb w =
     map_option (\<lambda>(ret, m, w'). (prelude_msg_destroy m, w'))
       (if \<not> prelude_msg_is_empty (mb_msg mb)
        then default_send_msg_cb mem_ok (mb_async mb) send (mb_msg mb) w
        else Some (Inr (), mb_msg mb, w))"

definition prelude_msgbuf_set_flags :: "prelude_msgbuf \<Rightarrow> bool \<Rightarrow> prelude_msgbuf" where
  "prelude_msgbuf_set_flags mb async = mb\<lparr>mb_async := async\<rparr>"

definition prelude_msgbuf_get_flags :: "prelude_msgbuf \<Rightarrow> bool" where
  "prelude_msgbuf_get_flags mb = mb_async mb"

section \<open>Sending one buffer\<close>

definition frame_of :: "u32 \<times> u32 \<Rightarrow> byte \<Rightarrow> prelude_msg \<Rightarrow> frame" where
  "frame_of now frag m = \<lparr>f_tag = hdr_tag (msg_hdr m), f_priority = hdr_priority (msg_hdr m),
     f_fragment = frag, f_sec = fst now, f_usec = snd now, f_data = pending m\<rparr>"

lemma flush_of_frame_of [simp]: "flush_of m frag (frame_of now frag m)"
  by (simp add: flush_of_def frame_of_def)

text \<open>The header goes in front of the data that is pending.\<close>

lemma write_header_building:
  assumes "building m" "msg_payload m = Some pl"
  shows "\<exists>h. write_message_header bo now (set_is_fragment frag m) =
      Some (m\<lparr>msg_payload := Some (frame_head (frame_of now frag m) @ drop 16 pl), msg_hdr := h\<rparr>) \<and>
    hdr_tag h = hdr_tag (msg_hdr m) \<and> hdr_priority h = hdr_priority (msg_hdr m) \<and>
    hdr_is_fragment h = frag \<and> hdr_datalen h = hdr_datalen (msg_hdr m)"
proof -
  have b: "msg_header_index m = 0" "length pl = 8192" "16 \<le> unat (msg_write_index m)"
    using assms by (auto simp: building_def)
  then have "msg_write_index m - 16 = of_nat (length (pending m))"
    using length_pending(1) [OF assms(1)]
    by (simp add: word_unat_eq_iff unat_minus_small unat_of_nat)
  then show ?thesis
    using assms(2) b
    by (intro exI [of _ "(msg_hdr m)\<lparr>hdr_is_fragment := frag, hdr_tv_sec := htonl bo (fst now),
          hdr_tv_usec := htonl bo (snd now)\<rparr>"])
      (simp add: write_message_header_def mem_write_def set_is_fragment_def frame_head_def
        frame_of_def Let_def)
qed

text \<open>\<open>prelude_msg_mark_end\<close> of a message with data, up to the choice what to do with a full buffer.\<close>

definition with_header :: "u32 \<times> u32 \<Rightarrow> byte_order \<Rightarrow> prelude_msg \<Rightarrow> prelude_msg" where
  "with_header now bo m = the (write_message_header bo now m)"

lemma with_header_building:
  assumes "building m"
  shows "write_message_header bo now m = Some (with_header now bo m)"
    "building (with_header now bo m)" "pending (with_header now bo m) = pending m"
    "hdr_tag (msg_hdr (with_header now bo m)) = hdr_tag (msg_hdr m)"
    "hdr_priority (msg_hdr (with_header now bo m)) = hdr_priority (msg_hdr m)"
    "msg_write_index (with_header now bo m) = msg_write_index m"
    "take (unat (msg_write_index m)) (the (msg_payload (with_header now bo m))) =
       encode_frame (frame_of now 0 m)"
proof -
  obtain pl where pl: "msg_payload m = Some pl" "length pl = 8192" "16 \<le> unat (msg_write_index m)"
    and frag: "hdr_is_fragment (msg_hdr m) = 0"
    using assms by (auto simp: building_def)
  have id: "set_is_fragment 0 m = m"
    using frag by (simp add: set_is_fragment_def)
  obtain h where h: "write_message_header bo now m =
      Some (m\<lparr>msg_payload := Some (frame_head (frame_of now 0 m) @ drop 16 pl), msg_hdr := h\<rparr>)"
    "hdr_tag h = hdr_tag (msg_hdr m)" "hdr_priority h = hdr_priority (msg_hdr m)"
    "hdr_is_fragment h = 0" "hdr_datalen h = hdr_datalen (msg_hdr m)"
    using write_header_building [OF assms pl(1), of bo now 0] unfolding id by blast
  then have w: "with_header now bo m =
      m\<lparr>msg_payload := Some (frame_head (frame_of now 0 m) @ drop 16 pl), msg_hdr := h\<rparr>"
    by (simp add: with_header_def)
  show "write_message_header bo now m = Some (with_header now bo m)" using h(1) w by simp
  show "building (with_header now bo m)"
    using assms pl h unfolding w by (auto simp: building_def)
  show "pending (with_header now bo m) = pending m"
    unfolding w using pl by (simp add: pending_def)
  show "take (unat (msg_write_index m)) (the (msg_payload (with_header now bo m))) =
       encode_frame (frame_of now 0 m)"
    unfolding w using pl by (simp add: encode_frame_head frame_of_def pending_def)
  show "hdr_tag (msg_hdr (with_header now bo m)) = hdr_tag (msg_hdr m)"
    "hdr_priority (msg_hdr (with_header now bo m)) = hdr_priority (msg_hdr m)"
    "msg_write_index (with_header now bo m) = msg_write_index m"
    unfolding w using h(2,3) by simp_all
qed

context byte_sink
begin

text \<open>\<open>prelude_msg_write\<close> of a message that was not marked as ended.\<close>

lemma write_building:
  assumes m: "building m" "pending m \<noteq> []" and w: "wok w" "8192 < room w"
  shows "\<exists>m' w'. prelude_msg_write bo now wr (set_is_fragment frag m) w = Some (Inr (), m', w') \<and>
    wok w' \<and> written w' = written w @ encode_frame (frame_of now frag m) \<and> room w \<le> room w' + 8192 \<and>
    building (after_flush m') \<and> hdr_tag (msg_hdr m') = hdr_tag (msg_hdr m)"
proof -
  let ?f = "frame_of now frag m" and ?wi = "unat (msg_write_index m)"
  obtain pl where pl: "msg_payload m = Some pl" "length pl = 8192" "16 \<le> ?wi" "?wi \<le> 8192"
    "msg_header_index m = 0" "msg_fd_write_index m = 0"
    using m(1) by (auto simp: building_def)
  obtain h where h: "write_message_header bo now (set_is_fragment frag m) =
      Some (m\<lparr>msg_payload := Some (frame_head ?f @ drop 16 pl), msg_hdr := h\<rparr>)"
    "hdr_tag h = hdr_tag (msg_hdr m)" "hdr_datalen h = hdr_datalen (msg_hdr m)"
    using write_header_building [OF m(1) pl(1)] by blast
  let ?m = "m\<lparr>msg_payload := Some (frame_head ?f @ drop 16 pl), msg_hdr := h\<rparr>"
  have bytes: "mem_read (frame_head ?f @ drop 16 pl) 0 ?wi = Some (encode_frame ?f)"
    using pl by (simp add: mem_read_def encode_frame_head frame_of_def pending_def)
  have len: "length (encode_frame ?f) = ?wi"
    using length_pending(1) [OF m(1)] pl(3) by (simp add: encode_frame_head frame_of_def)
  have ne: "\<not> msg_write_index m - 16 \<le> 0"
    using m(2) length_pending(1) [OF m(1)] pl(3) by (auto simp: word_le_nat_alt unat_minus_small)
  obtain w' where w': "wr w (encode_frame ?f) = Some (Inr (length (encode_frame ?f)), w')" "wok w'"
    "written w' = written w @ encode_frame ?f" "room w' = room w - length (encode_frame ?f)"
    using wr_all [OF w(1), of "encode_frame ?f"] w(2) len pl by (auto simp: encode_frame_def)
  have sel: "msg_write_index (set_is_fragment frag m) = msg_write_index m"
    "msg_header_index (set_is_fragment frag m) = 0" "msg_fd_write_index (set_is_fragment frag m) = 0"
    using pl by (simp_all add: set_is_fragment_def)
  have "prelude_msg_write bo now wr (set_is_fragment frag m) w =
      Some (Inr (), ?m\<lparr>msg_fd_write_index := 0\<rparr>, w')"
    using ne h(1) bytes w'(1) len
    by (simp add: prelude_msg_write_def prelude_msg_write_r_def sel)
  moreover have "building (after_flush (?m\<lparr>msg_fd_write_index := 0\<rparr>))"
    using m(1) h(3) pl by (simp add: building_def after_flush_def set_is_fragment_def)
  ultimately show ?thesis using w' len pl(4) h(2) by auto
qed

end

context byte_sink
begin

text \<open>\<open>prelude_msg_write\<close> of a message that \<open>prelude_msg_mark_end\<close> has ended.\<close>

lemma write_marked:
  fixes bo :: byte_order and now0 :: "u32 \<times> u32"
  assumes m: "building m" "pending m \<noteq> []" and w: "wok w" "8192 < room w"
    and small: "unat (msg_write_index m) + 16 \<le> 8192"
  defines "me \<equiv> (with_header now0 bo m)\<lparr>msg_header_index := msg_write_index m,
     msg_write_index := msg_write_index m + 16\<rparr>"
  shows "\<exists>w'. prelude_msg_write bo now wr me w = Some (Inr (), me, w') \<and>
    wok w' \<and> written w' = written w @ encode_frame (frame_of now0 0 m) \<and> room w \<le> room w' + 8192"
proof -
  let ?f = "frame_of now0 0 m" and ?wi = "unat (msg_write_index m)"
  note h = with_header_building [OF m(1)]
  obtain pl where pl: "msg_payload (with_header now0 bo m) = Some pl" "length pl = 8192"
    using h(2) [of now0 bo] by (auto simp: building_def)
  have wi: "16 \<le> ?wi" "msg_fd_write_index me = 0" "hdr_is_fragment (msg_hdr me) = 0"
    using m(1) h(2) [of now0 bo] by (auto simp: building_def me_def)
  have sel: "msg_write_index me = msg_write_index m + 16" "msg_header_index me = msg_write_index m"
    "msg_payload me = Some pl" "me\<lparr>msg_fd_write_index := 0\<rparr> = me"
    using wi(2) pl(1) by (simp_all add: me_def)
  have ne: "msg_write_index m \<noteq> 0" using wi(1) by auto
  have bytes: "mem_read pl 0 ?wi = Some (encode_frame ?f)"
    using h(7) [of now0 bo] pl small by (simp add: mem_read_def)
  then have len: "length (encode_frame ?f) = ?wi" by (rule mem_read_length)
  obtain w' where w': "wr w (encode_frame ?f) = Some (Inr (length (encode_frame ?f)), w')" "wok w'"
    "written w' = written w @ encode_frame ?f" "room w' = room w - length (encode_frame ?f)"
    using wr_all [OF w(1), of "encode_frame ?f"] w(2) len small by (auto simp: encode_frame_def)
  have "prelude_msg_write bo now wr me w = Some (Inr (), me, w')"
    using ne bytes w'(1) len wi(2,3) sel
    by (simp add: prelude_msg_write_def prelude_msg_write_r_def)
  then show ?thesis using w' len small by auto
qed

end

lemma recycle_building:
  assumes "building (after_flush m)" "hdr_is_fragment (msg_hdr m) = 0"
  shows "building (prelude_msg_set_priority (prelude_msg_recycle m) p)"
    "pending (prelude_msg_set_priority (prelude_msg_recycle m) p) = []"
  using assms
  by (simp_all add: building_def after_flush_def set_is_fragment_def prelude_msg_recycle_def
      pending_def prelude_msg_set_priority_def Let_def)

lemma after_flush_recycle:
  "building (after_flush (prelude_msg_set_priority (prelude_msg_recycle m) p)) =
     building (after_flush (m\<lparr>msg_fd_write_index := 0\<rparr>))"
  by (simp add: building_def after_flush_def set_is_fragment_def prelude_msg_recycle_def
      prelude_msg_set_priority_def Let_def)

lemma after_flush_fd: "building (after_flush m) \<Longrightarrow> building (after_flush (m\<lparr>msg_fd_write_index := 0\<rparr>))"
  by (simp add: building_def after_flush_def set_is_fragment_def)

text \<open>A message buffer whose callback writes its message to a byte sink.\<close>

locale msgbuf_sink = byte_sink wr written wok room
  for wr :: "'io writer" and written :: "'io \<Rightarrow> byte list" and wok :: "'io \<Rightarrow> bool" and room :: "'io \<Rightarrow> nat" +
  fixes bo :: byte_order
    and clock :: "'io \<Rightarrow> u32 \<times> u32"
    and async :: bool
begin

abbreviation send :: "'io flush_cb" where
  "send m w \<equiv> prelude_msg_write bo (clock w) wr m w"

abbreviation cb :: "'io flush_cb" where
  "cb \<equiv> default_send_msg_cb (\<lambda>_. True) async (\<lambda>m w. prelude_msg_write bo (clock w) wr m w)"

lemma cb_flush:
  assumes "building m" "pending m \<noteq> []" "wok w" "8192 < room w"
  shows "\<exists>m' w' f. cb (set_is_fragment frag m) w = Some (Inr (), m', w') \<and> flush_of m frag f \<and>
        building (after_flush m') \<and> hdr_priority (msg_hdr m') = PRELUDE_MSG_PRIORITY_NONE \<and>
        wok w' \<and> written w' = written w @ encode_frame f \<and> room w \<le> room w' + 8192"
proof -
  obtain m1 w' where w: "send (set_is_fragment frag m) w = Some (Inr (), m1, w')" "wok w'"
    "written w' = written w @ encode_frame (frame_of (clock w) frag m)" "room w \<le> room w' + 8192"
    "building (after_flush m1)"
    using write_building [OF assms] by blast
  obtain new where new: "prelude_msg_dynamic_new (\<lambda>_. True) = Inr new" "building new"
    "hdr_priority (msg_hdr new) = 0"
    using dynamic_new_building by blast
  have "building (after_flush new)"
    using new(2) by (auto simp: building_def after_flush_def set_is_fragment_def)
  moreover have "building (after_flush (prelude_msg_set_priority (prelude_msg_recycle m1) 0))"
    using w(5) by (simp add: after_flush_recycle after_flush_fd)
  ultimately have "\<exists>m'. cb (set_is_fragment frag m) w = Some (Inr (), m', w') \<and> building (after_flush m') \<and>
      hdr_priority (msg_hdr m') = PRELUDE_MSG_PRIORITY_NONE"
    using w(1) new
    by (simp add: default_send_msg_cb_def do_send_msg_def do_send_msg_async_def
        prelude_msg_set_priority_def)
  then show ?thesis using w(2-4) flush_of_frame_of by blast
qed

end

sublocale msgbuf_sink \<subseteq> fragment_flush
  "default_send_msg_cb (\<lambda>_. True) async (\<lambda>m w. prelude_msg_write bo (clock w) wr m w)"
  written wok room
  by unfold_locales (rule cb_flush)

context msgbuf_sink
begin

lemma cb_empty:
  assumes "building m" "pending m = []"
  shows "\<exists>m'. cb m w = Some (Inr (), m', w) \<and> building m' \<and> pending m' = []"
proof -
  have wi: "msg_write_index m = 16"
    using assms length_pending(1) [OF assms(1)] by (auto simp: building_def word_unat_eq_iff)
  have "m\<lparr>msg_fd_write_index := msg_fd_write_index m\<rparr> = m" by simp
  then have "send m w = Some (Inr (), m, w)"
    using wi by (simp add: prelude_msg_write_def prelude_msg_write_r_def)
  moreover obtain new where "prelude_msg_dynamic_new (\<lambda>_. True) = Inr new" "building new" "pending new = []"
    using dynamic_new_building by blast
  moreover have "building (after_flush m)" "hdr_is_fragment (msg_hdr m) = 0"
    using assms by (auto simp: building_def after_flush_def set_is_fragment_def)
  note recycle_building [OF this, of 0]
  ultimately show ?thesis
    by (simp add: default_send_msg_cb_def do_send_msg_def do_send_msg_async_def)
qed

text \<open>The buffer has no room for another message behind this one: it is flushed at once.\<close>

lemma mark_end_full:
  assumes m: "building m" "pending m \<noteq> []" "wok w" "8192 < room w"
    and full: "8192 < unat (msg_write_index m) + 17"
  shows "\<exists>m' w' l. prelude_msg_mark_end bo (clock w) cb m w = Some (m', w') \<and> flush_of m 0 l \<and>
    building m' \<and> pending m' = [] \<and> wok w' \<and> written w' = written w @ encode_frame l"
proof -
  let ?h = "with_header (clock w) bo m"
  note h = with_header_building [OF m(1), where bo = bo and now = "clock w"]
  have b: "16 \<le> unat (msg_write_index m)" "unat (msg_write_index m) \<le> 8192" "msg_header_index m = 0"
    and hd: "msg_datalen ?h = 8192" and frag: "set_is_fragment 0 ?h = ?h"
    using m(1) h(2) by (auto simp: building_def set_is_fragment_def)
  have ne: "\<not> msg_write_index m - 16 \<le> 0"
    using m(2) length_pending(1) [OF m(1)] b by (auto simp: word_le_nat_alt unat_minus_small)
  have lt: "msg_datalen ?h < msg_write_index ?h + 16 + 1"
    using full b hd h(6) by (simp add: word_less_nat_alt unat_plus_small)
  obtain m1 w' f where f: "cb (set_is_fragment 0 ?h) w = Some (Inr (), m1, w')" "flush_of ?h 0 f"
    "building (after_flush m1)" "wok w'" "written w' = written w @ encode_frame f"
    using cb_flush [OF h(2), of w 0] m h(3) by auto
  have "call_alloc_cb cb ?h w = Some (Inr (), after_flush m1, w')"
    using f(1) frag by (simp add: call_alloc_cb_def after_flush_def)
  then have "prelude_msg_mark_end bo (clock w) cb m w = Some (after_flush m1, w')"
    using ne lt b by (simp add: prelude_msg_mark_end_def h(1))
  moreover have "flush_of m 0 f" using f(2) h(3-5) by (simp add: flush_of_def)
  ultimately show ?thesis using f after_flush_pending by blast
qed

lemma mark_end_sends:
  assumes "sending base fs (mb_msg mb) w k" "pending (mb_msg mb) \<noteq> []" "mb_async mb = async"
  shows "\<exists>l mb' w'. prelude_msgbuf_mark_end bo clock (\<lambda>_. True) send mb w = Some (mb', w') \<and>
    flush_of (mb_msg mb) 0 l \<and> wok w' \<and> written w' = base @ frames_bytes (fs @ [l]) \<and>
    building (mb_msg mb') \<and> pending (mb_msg mb') = []"
proof -
  let ?m = "mb_msg mb"
  have m: "building ?m" "pending ?m \<noteq> []" "wok w" "8192 < room w"
    and st: "written w = base @ frames_bytes fs"
    using assms by (auto simp: sending_def)
  show ?thesis
  proof (cases "8192 < unat (msg_write_index ?m) + 17")
    case True
    obtain m1 w1 l where l: "prelude_msg_mark_end bo (clock w) cb ?m w = Some (m1, w1)" "flush_of ?m 0 l"
      "building m1" "pending m1 = []" "wok w1" "written w1 = written w @ encode_frame l"
      using mark_end_full [OF m True] by blast
    obtain m2 where "cb m1 w1 = Some (Inr (), m2, w1)" "building m2" "pending m2 = []"
      using cb_empty [OF l(3,4)] by blast
    then show ?thesis
      using l st assms(3)
      by (intro exI [of _ l] exI [of _ "mb\<lparr>mb_msg := m2\<rparr>"] exI [of _ w1])
        (simp add: prelude_msgbuf_mark_end_def frames_bytes_def)
  next
    case False
    let ?h = "with_header (clock w) bo ?m"
    let ?e = "?h\<lparr>msg_header_index := msg_write_index ?m, msg_write_index := msg_write_index ?m + 16\<rparr>"
    note h = with_header_building [OF m(1), where bo = bo and now = "clock w"]
    have b: "16 \<le> unat (msg_write_index ?m)" "msg_header_index ?m = 0"
      and hd: "msg_datalen ?h = 8192" "hdr_is_fragment (msg_hdr ?h) = 0"
      using m(1) h(2) by (auto simp: building_def)
    have ne: "\<not> msg_write_index ?m - 16 \<le> 0"
      using m(2) length_pending(1) [OF m(1)] b by (auto simp: word_le_nat_alt unat_minus_small)
    have lt: "\<not> msg_datalen ?h < msg_write_index ?h + 16 + 1"
      using False b hd h(6) by (simp add: word_less_nat_alt unat_plus_small)
    have me: "prelude_msg_mark_end bo (clock w) cb ?m w = Some (?e, w)"
      using ne lt b h(6) by (simp add: prelude_msg_mark_end_def h(1))
    have "unat (msg_write_index ?m) + 16 \<le> 8192" using False by simp
    from write_marked [OF m this, where bo = bo and now = "clock w" and ?now0.0 = "clock w"]
    obtain w' where w': "send ?e w = Some (Inr (), ?e, w')" "wok w'"
      "written w' = written w @ encode_frame (frame_of (clock w) 0 ?m)"
      by blast
    obtain new where new: "prelude_msg_dynamic_new (\<lambda>_. True) = Inr new" "building new" "pending new = []"
      using dynamic_new_building by blast
    have "building (after_flush ?e)" "hdr_is_fragment (msg_hdr ?e) = 0"
      using h(2) by (auto simp: building_def after_flush_def set_is_fragment_def)
    note r = recycle_building [OF this, of 0]
    have "\<exists>m2. cb ?e w = Some (Inr (), m2, w') \<and> building m2 \<and> pending m2 = []"
      using w'(1) new r
      by (simp add: default_send_msg_cb_def do_send_msg_def do_send_msg_async_def)
    then obtain m2 where "cb ?e w = Some (Inr (), m2, w')" "building m2" "pending m2 = []"
      by blast
    then show ?thesis
      using me w'(2,3) st assms(3) flush_of_frame_of [of ?m 0 "clock w"]
      by (intro exI [of _ "frame_of (clock w) 0 ?m"] exI [of _ "mb\<lparr>mb_msg := m2\<rparr>"] exI [of _ w'])
        (simp add: prelude_msgbuf_mark_end_def frames_bytes_def)
  qed
qed

end

section \<open>Whole messages\<close>

text \<open>
  A sender: it sets tag and priority, adds the fields one after the other and marks the end. A
  receiver: it takes the fields out until there is an error, and returns them with that error.
\<close>

fun send_fields :: "byte_order \<Rightarrow> 'w flush_cb \<Rightarrow> prelude_msgbuf \<Rightarrow> (byte \<times> byte list) list \<Rightarrow> 'w
    \<Rightarrow> (unit result \<times> prelude_msgbuf \<times> 'w) option" where
  "send_fields bo sender mb [] w = Some (Inr (), mb, w)"
| "send_fields bo sender mb ((t, d) # fs) w =
     Option.bind (prelude_msgbuf_set bo (\<lambda>_. True) sender mb t d w) (\<lambda>(ret, mb', w').
       case ret of Inl e \<Rightarrow> Some (Inl e, mb', w') | Inr _ \<Rightarrow> send_fields bo sender mb' fs w')"

definition send_message :: "byte_order \<Rightarrow> ('w \<Rightarrow> u32 \<times> u32) \<Rightarrow> 'w flush_cb \<Rightarrow> prelude_msgbuf \<Rightarrow> byte \<Rightarrow> byte
    \<Rightarrow> (byte \<times> byte list) list \<Rightarrow> 'w \<Rightarrow> (unit result \<times> prelude_msgbuf \<times> 'w) option" where
  "send_message bo clock sender mb tag prio flds w =
     (let m = prelude_msg_set_priority (prelude_msg_set_tag (prelude_msgbuf_get_msg mb) tag) prio in
      Option.bind (send_fields bo sender (mb\<lparr>mb_msg := m\<rparr>) flds w) (\<lambda>(ret, mb1, w1).
        case ret of
          Inl e \<Rightarrow> Some (Inl e, mb1, w1)
        | Inr _ \<Rightarrow> map_option (\<lambda>(mb2, w2). (Inr (), mb2, w2))
                     (prelude_msgbuf_mark_end bo clock (\<lambda>_. True) sender mb1 w1)))"

fun get_fields :: "byte_order \<Rightarrow> nat \<Rightarrow> prelude_msg
    \<Rightarrow> ((byte \<times> byte list) list \<times> prelude_error_code) option" where
  "get_fields bo 0 m = None"
| "get_fields bo (Suc n) m =
     Option.bind (prelude_msg_get bo m) (\<lambda>(r, m').
       case r of
         Inl e \<Rightarrow> Some ([], e)
       | Inr (t, len, buf) \<Rightarrow>
           map_option (\<lambda>(fs, e). ((t, case buf of None \<Rightarrow> [] | Some d \<Rightarrow> d) # fs, e))
             (get_fields bo n m'))"

definition fields_bytes :: "(byte \<times> byte list) list \<Rightarrow> byte list" where
  "fields_bytes flds = concat (map encode_field flds)"

lemma fields_bytes_simps [simp]:
  "fields_bytes [] = []" "fields_bytes (f # fs) = encode_field f @ fields_bytes fs"
  by (simp_all add: fields_bytes_def)

lemma get_fields_all:
  assumes "getting_ok m" "unread_fields m = fields_bytes flds" "length flds < n"
  shows "get_fields bo n m = Some (flds, PRELUDE_ERROR_EOF)"
  using assms
proof (induction n arbitrary: m flds)
  case (Suc n)
  show ?case
  proof (cases flds)
    case Nil
    then show ?thesis using Suc.prems get_end by simp
  next
    case (Cons f fs)
    obtain t d where f: "f = (t, d)" by force
    then have u: "unread_fields m = encode_field (t, d) @ fields_bytes fs"
      using Suc.prems(2) Cons by simp
    obtain m' where m': "prelude_msg_get bo m =
        Some (Inr (t, of_nat (length d), if d = [] then None else Some d), m')"
      "getting_ok m'" "unread_fields m' = fields_bytes fs"
      using get_field [OF Suc.prems(1) u] by blast
    then have "get_fields bo n m' = Some (fs, PRELUDE_ERROR_EOF)"
      using Suc.IH Suc.prems(3) Cons by simp
    then show ?thesis using m'(1) Cons f by simp
  qed
qed simp

context msgbuf_sink
begin

lemma send_fields_sends:
  assumes "sending base fs (mb_msg mb) w (length (fields_bytes flds) + k)"
    and "fs \<noteq> [] \<longrightarrow> pending (mb_msg mb) \<noteq> []" "mb_async mb = async"
  shows "\<exists>fs' mb' w'. send_fields bo send mb flds w = Some (Inr (), mb', w') \<and>
    sending base fs' (mb_msg mb') w' k \<and>
    same_message fs (mb_msg mb) (fields_bytes flds) fs' (mb_msg mb') \<and> mb_async mb' = async"
  using assms
proof (induction flds arbitrary: fs mb w)
  case Nil
  then show ?case by (auto simp: same_message_def)
next
  case (Cons f flds)
  obtain t d where f: "f = (t, d)" by force
  have "sending base fs (mb_msg mb) w (5 + length d + (length (fields_bytes flds) + k))"
    using Cons.prems(1) f by (simp add: ac_simps)
  then obtain fs1 m1 w1 where 1: "prelude_msg_set bo cb (mb_msg mb) t d w = Some (Inr (), m1, w1)"
    "sending base fs1 m1 w1 (length (fields_bytes flds) + k)"
    "same_message fs (mb_msg mb) (encode_field (t, d)) fs1 m1"
    using msg_set_sends Cons.prems(2) by blast
  let ?mb = "mb\<lparr>mb_msg := m1\<rparr>"
  obtain fs2 mb2 w2 where 2: "send_fields bo send ?mb flds w1 = Some (Inr (), mb2, w2)"
    "sending base fs2 (mb_msg mb2) w2 k" "same_message fs1 m1 (fields_bytes flds) fs2 (mb_msg mb2)"
    "mb_async mb2 = async"
    using Cons.IH [of fs1 ?mb w1] 1(2,3) Cons.prems(3) by (auto simp: same_message_def)
  have "send_fields bo send mb (f # flds) w = Some (Inr (), mb2, w2)"
    using 1(1) 2(1) f Cons.prems(3) by (simp add: prelude_msgbuf_set_def)
  then show ?case
    using 2(2,4) same_message_trans [OF 1(3) 2(3)] f by auto
qed

lemma send_message_sends:
  assumes "building (mb_msg mb)" "pending (mb_msg mb) = []" "mb_async mb = async" "wok w"
    and "8192 + 2 * length (fields_bytes flds) < room w" "flds \<noteq> []"
  shows "\<exists>mb' w' fs l. send_message bo clock send mb tag prio flds w = Some (Inr (), mb', w') \<and>
    building (mb_msg mb') \<and> pending (mb_msg mb') = [] \<and> wok w' \<and>
    written w' = written w @ frames_bytes (fs @ [l]) \<and>
    fragments_ok fs \<and> f_fragment l = 0 \<and> f_data l \<noteq> [] \<and>
    frames_data (fs @ [l]) = fields_bytes flds \<and>
    f_tag (hd (fs @ [l])) = tag \<and> first_priority (map f_priority (fs @ [l])) = prio"
proof -
  let ?m = "prelude_msg_set_priority (prelude_msg_set_tag (mb_msg mb) tag) prio"
  let ?mb = "mb\<lparr>mb_msg := ?m\<rparr>"
  have hdr: "hdr_tag (msg_hdr ?m) = tag" "hdr_priority (msg_hdr ?m) = prio"
    by (simp_all add: prelude_msg_set_priority_def prelude_msg_set_tag_def)
  have "sending (written w) [] (mb_msg ?mb) w (length (fields_bytes flds) + 0)"
    using assms by (simp add: sending_def fragments_ok_def frames_bytes_def)
  then obtain fs mb1 w1 where 1: "send_fields bo send ?mb flds w = Some (Inr (), mb1, w1)"
    "sending (written w) fs (mb_msg mb1) w1 0"
    "same_message [] ?m (fields_bytes flds) fs (mb_msg mb1)" "mb_async mb1 = async"
    using send_fields_sends [of "written w" "[]" ?mb w flds 0] assms(3) by auto
  have "fields_bytes flds \<noteq> []" using assms(6) by (cases flds) auto
  then have pend: "pending (mb_msg mb1) \<noteq> []"
    using 1(3) assms(2) by (auto simp: same_message_def content_of_def frames_data_def)
  obtain l mb2 w2 where 2: "prelude_msgbuf_mark_end bo clock (\<lambda>_. True) send mb1 w1 = Some (mb2, w2)"
    "flush_of (mb_msg mb1) 0 l" "wok w2" "written w2 = written w @ frames_bytes (fs @ [l])"
    "building (mb_msg mb2)" "pending (mb_msg mb2) = []"
    using mark_end_sends [OF 1(2) pend 1(4)] by blast
  have "send_message bo clock send mb tag prio flds w = Some (Inr (), mb2, w2)"
    using 1(1) 2(1) by (simp add: send_message_def prelude_msgbuf_get_msg_def)
  moreover have "frames_data (fs @ [l]) = fields_bytes flds"
    using 1(3) 2(2) assms(2)
    by (simp add: same_message_def content_of_def frames_data_def flush_of_def)
  moreover have "f_tag (hd (fs @ [l])) = tag"
    using 1(3) 2(2) hdr by (cases fs) (auto simp: same_message_def tag_of_def flush_of_def)
  moreover have "first_priority (map f_priority (fs @ [l])) = prio"
    using 1(3) 2(2) hdr by (simp add: same_message_def priority_of_def flush_of_def)
  moreover have "fragments_ok fs" "f_fragment l = 0" "f_data l \<noteq> []"
    using 1(2) 2(2) pend by (auto simp: sending_def flush_of_def)
  ultimately show ?thesis using 2(3-6) by blast
qed

end

text \<open>What the parser makes of the frames of one message.\<close>

lemma parse_sent_frames:
  assumes "fragments_ok fs" "f_fragment l = 0" "f_data l \<noteq> []"
    and "length (frames_data (fs @ [l])) < max_message_size"
  shows "\<exists>h. parse_msg bo (frames_bytes (fs @ [l]) @ rest) = Parsed h (frames_data (fs @ [l])) rest \<and>
    hdr_tag h = f_tag (hd (fs @ [l])) \<and> hdr_priority h = first_priority (map f_priority (fs @ [l])) \<and>
    hdr_tv_sec h = f_sec (hd (fs @ [l])) \<and> hdr_tv_usec h = f_usec (hd (fs @ [l])) \<and>
    unat (hdr_datalen h) = length (frames_data (fs @ [l]))"
proof -
  let ?fresh = "msg_hdr fresh_read_msg"
  let ?h = "foldl frame_hdr ?fresh (fs @ [l])"
  have "parse_msg bo (frames_bytes (fs @ [l]) @ rest) = Parsed ?h ([] @ frames_data (fs @ [l])) rest"
    using assms by (intro parse_frames) (auto simp: fragments_ok_def fresh_read_msg_def)
  moreover obtain f gs where f: "fs @ [l] = f # gs" by (cases fs) auto
  have ne: "f_data f \<noteq> []"
    using assms(1,3) f by (cases fs) (auto simp: fragments_ok_def)
  have len: "length (f_data f) + length (frames_data gs) < max_message_size"
    using assms(4) unfolding f by (simp add: frames_data_def)
  then have small: "unat (of_nat (length (f_data f)) :: u32) = length (f_data f)"
    by (subst unat_of_nat_small) (auto simp: max_message_size_def)
  have h1: "hdr_tag (frame_hdr ?fresh f) = f_tag f" "hdr_priority (frame_hdr ?fresh f) = f_priority f"
    "hdr_datalen (frame_hdr ?fresh f) = of_nat (length (f_data f))"
    "hdr_tv_sec (frame_hdr ?fresh f) = f_sec f" "hdr_tv_usec (frame_hdr ?fresh f) = f_usec f"
    by (simp_all add: frame_hdr_def fresh_read_msg_def Let_def)
  have "?h = foldl frame_hdr (frame_hdr ?fresh f) gs" by (simp only: f foldl.simps)
  then have "hdr_tag ?h = f_tag f" "hdr_priority ?h = first_priority (f_priority f # map f_priority gs)"
    "hdr_tv_sec ?h = f_sec f" "hdr_tv_usec ?h = f_usec f"
    "unat (hdr_datalen ?h) = length (f_data f) + length (frames_data gs)"
    using foldl_frame_hdr_later [of "frame_hdr ?fresh f" gs] len small ne h1
    by (simp_all only: Let_def) simp_all
  then have "hdr_tag ?h = f_tag (hd (fs @ [l]))"
    "hdr_priority ?h = first_priority (map f_priority (fs @ [l]))"
    "hdr_tv_sec ?h = f_sec (hd (fs @ [l]))" "hdr_tv_usec ?h = f_usec (hd (fs @ [l]))"
    by (simp_all only: f list.sel list.map)
  moreover have "unat (hdr_datalen ?h) = length (frames_data (fs @ [l]))"
    using \<open>unat (hdr_datalen ?h) = length (f_data f) + length (frames_data gs)\<close> by (simp only: f) (simp add: frames_data_def)
  ultimately show ?thesis by auto
qed

interpretation buf_mb: msgbuf_sink "buffer_write (\<lambda>_. True)" buffer_unread buffer_ok buffer_room bo clock async
  for bo clock async
  by unfold_locales

text \<open>The \<open>send_msg\<close> callback of a message buffer that writes to a memory buffer.\<close>

definition buffer_send :: "byte_order \<Rightarrow> ('k prelude_io \<Rightarrow> u32 \<times> u32) \<Rightarrow> 'k prelude_io flush_cb" where
  "buffer_send bo clock m w = prelude_msg_write bo (clock w) (buffer_write (\<lambda>_. True)) m w"

text \<open>
  C1. Fields written to a message buffer arrive: whatever fields are set (of any number and size, so
  that the message may be split into fragments), whatever the clock and whether the message buffer is
  synchronous or not, the bytes that \<open>prelude_msgbuf_mark_end\<close> has sent are one message that
  \<open>prelude_msg_read\<close> reads completely, with the tag and priority of the sender, and repeated
  \<open>prelude_msg_get\<close> returns exactly the fields, in order, and then \<open>PRELUDE_ERROR_EOF\<close>. Sender and
  receiver may have different byte orders. The message has to stay below the limit of 100 MB.
\<close>

theorem msgbuf_roundtrip:
  assumes "flds \<noteq> []" "length (fields_bytes flds) < max_message_size"
    and "prelude_msgbuf_new (\<lambda>_. True) = Inr mb"
  shows "\<exists>mb' io1 io2 m.
    send_message bo clock (buffer_send bo clock) (prelude_msgbuf_set_flags mb async) tag prio flds
      (prelude_io_set_buffer_io (prelude_io_new k)) = Some (Inr (), mb', io1) \<and>
    prelude_msg_read bo' (\<lambda>_. True) buffer_read None io1 = Some (Inr (), Some m, io2) \<and>
    buffer_unread io2 = [] \<and> prelude_msg_get_tag m = tag \<and> prelude_msg_get_priority m = prio \<and>
    get_fields bo' (Suc (length flds)) m = Some (flds, PRELUDE_ERROR_EOF)"
proof -
  let ?io = "prelude_io_set_buffer_io (prelude_io_new k)"
  let ?mb = "prelude_msgbuf_set_flags mb async"
  have mb: "building (mb_msg ?mb)" "pending (mb_msg ?mb) = []" "mb_async ?mb = async"
    using assms(3) dynamic_new_building
    by (auto simp: prelude_msgbuf_new_def prelude_msgbuf_set_flags_def split: sum.splits)
  have room: "8192 + 2 * length (fields_bytes flds) < buffer_room ?io"
    using assms(2) by (simp add: buffer_new_ok max_message_size_def)
  obtain mb' io1 fs l where s: "send_message bo clock (buffer_send bo clock) ?mb tag prio flds ?io =
      Some (Inr (), mb', io1)" "buffer_ok io1" "buffer_unread io1 = frames_bytes (fs @ [l])"
    "fragments_ok fs" "f_fragment l = 0" "f_data l \<noteq> []" "frames_data (fs @ [l]) = fields_bytes flds"
    "f_tag (hd (fs @ [l])) = tag" "first_priority (map f_priority (fs @ [l])) = prio"
    using buf_mb.send_message_sends [OF mb _ room assms(1), of bo clock tag prio]
    by (auto simp: buffer_new_ok buffer_send_def [abs_def])
  obtain h where h: "parse_msg bo' (buffer_unread io1) = Parsed h (fields_bytes flds) []"
    "hdr_tag h = tag" "hdr_priority h = prio"
    using parse_sent_frames [OF s(4-6), of bo' "[]"] s(3,7-9) assms(2) by auto
  obtain m io2 where m: "prelude_msg_read bo' (\<lambda>_. True) buffer_read None io1 = Some (Inr (), Some m, io2)"
    "buffer_unread io2 = []" "received_ok m" "msg_hdr m = h" "received_data m = fields_bytes flds"
    using buf_src.quiet_read [OF s(2), of None bo'] h(1) by (auto simp: start_msg_def buffer_read_no_error)
  have "get_fields bo' (Suc (length flds)) m = Some (flds, PRELUDE_ERROR_EOF)"
    by (rule get_fields_all) (simp_all add: received_getting_ok m)
  then show ?thesis
    using s(1) m h(2,3) by (simp add: prelude_msg_get_tag_def prelude_msg_get_priority_def)
qed

text \<open>Witness: two fields, one of them empty, from a little endian sender to a big endian receiver.\<close>

theorem msgbuf_roundtrip_witness:
  "\<exists>mb' io1 io2 m.
    send_message Little_Endian (\<lambda>_. (5, 6))
      (buffer_send Little_Endian (\<lambda>_. (5, 6))) (prelude_msgbuf_set_flags (projr (prelude_msgbuf_new (\<lambda>_. True))) True)
      9 2 [(1, [65, 66]), (7, [])]
      (prelude_io_set_buffer_io (prelude_io_new ())) = Some (Inr (), mb', io1) \<and>
    prelude_msg_read Big_Endian (\<lambda>_. True) buffer_read None io1 = Some (Inr (), Some m, io2) \<and>
    buffer_unread io2 = [] \<and> prelude_msg_get_tag m = 9 \<and> prelude_msg_get_priority m = 2 \<and>
    get_fields Big_Endian 3 m = Some ([(1, [65, 66]), (7, [])], PRELUDE_ERROR_EOF)"
proof -
  have "prelude_msgbuf_new (\<lambda>_. True) = Inr (projr (prelude_msgbuf_new (\<lambda>_. True)))"
    by (simp add: prelude_msgbuf_new_def prelude_msg_dynamic_new_def)
  then show ?thesis
    using msgbuf_roundtrip [of "[(1, [65, 66]), (7, [])]" "projr (prelude_msgbuf_new (\<lambda>_. True))"
        Little_Endian "\<lambda>_. (5, 6)" True 9 2 "()" Big_Endian]
    by (simp only: list.size fields_bytes_simps encode_field.simps max_message_size_def)
      (simp only: eval_nat_numeral list.distinct refl, simp)
qed

end
