(* ===== verification/Socket.thy ===== *)
theory Socket
  imports PMsg_Read
begin

text \<open>
  A descriptor whose kernel delivers a byte stream in arbitrary pieces, refuses to deliver now and
  then (\<open>EAGAIN\<close>) and is interrupted (\<open>EINTR\<close>). It instantiates the system call parameter of
  \<open>sys_read\<close> and shows what \<open>prelude_msg_read\<close> does on a non-blocking connection.
\<close>

section \<open>Scripts of deliveries\<close>

datatype delivery = Data "byte list" | Again | Interrupted

fun script_read :: "delivery list \<Rightarrow> nat \<Rightarrow> byte list sysret \<times> delivery list" where
  "script_read [] n = (Sys_Ok [], [])"
| "script_read (Again # s) n = (Sys_Err EAGAIN, s)"
| "script_read (Interrupted # s) n = (Sys_Err EINTR, s)"
| "script_read (Data bs # s) n =
     (if bs = [] then script_read s n
      else if n < length bs then (Sys_Ok (take n bs), Data (drop n bs) # s)
      else (Sys_Ok bs, s))"

fun script_bytes :: "delivery list \<Rightarrow> byte list" where
  "script_bytes [] = []"
| "script_bytes (Data bs # s) = bs @ script_bytes s"
| "script_bytes (_ # s) = script_bytes s"

fun script_agains :: "delivery list \<Rightarrow> nat" where
  "script_agains [] = 0"
| "script_agains (Again # s) = Suc (script_agains s)"
| "script_agains (_ # s) = script_agains s"

definition script_step :: "delivery list \<Rightarrow> nat \<Rightarrow> byte list sysret \<Rightarrow> delivery list \<Rightarrow> bool" where
  "script_step s n ret s' \<longleftrightarrow>
     (case ret of
        Sys_Ok bs \<Rightarrow> length bs \<le> n \<and> script_bytes s = bs @ script_bytes s' \<and>
          (bs = [] \<longrightarrow> 0 < n \<longrightarrow> script_bytes s = []) \<and> script_agains s' \<le> script_agains s
      | Sys_Err e \<Rightarrow> e = EAGAIN \<and> script_bytes s' = script_bytes s \<and> script_agains s' < script_agains s)"

text \<open>The retry loop of \<open>sys_read\<close> ends on every script.\<close>

lemma retry_script:
  "\<exists>ret s'. retry_eintr (\<lambda>k. script_read k n) s = Some (ret, s') \<and> script_step s n ret s'"
proof (induction s)
  case Nil
  then show ?case by (subst retry_eintr.simps) (simp add: script_step_def)
next
  case (Cons a s)
  then obtain ret s' where IH: "retry_eintr (\<lambda>k. script_read k n) s = Some (ret, s')"
    "script_step s n ret s'" by blast
  show ?case
  proof (cases a)
    case (Data bs)
    show ?thesis
    proof (cases "bs = []")
      case True
      then have "retry_eintr (\<lambda>k. script_read k n) (a # s) = retry_eintr (\<lambda>k. script_read k n) s"
        using Data by (subst (1 2) retry_eintr.simps) simp
      then show ?thesis using IH Data True by (auto simp: script_step_def split: sysret.splits)
    next
      case False
      then show ?thesis
        using Data by (subst retry_eintr.simps) (auto simp: script_step_def)
    qed
  next
    case Again
    then show ?thesis by (subst retry_eintr.simps) (simp add: script_step_def)
  next
    case Interrupted
    then have "retry_eintr (\<lambda>k. script_read k n) (a # s) = retry_eintr (\<lambda>k. script_read k n) s"
      by (subst retry_eintr.simps) simp
    then show ?thesis using IH Interrupted by (auto simp: script_step_def split: sysret.splits)
  qed
qed

abbreviation sock_read :: "delivery list prelude_io reader" where
  "sock_read \<equiv> sys_read script_read"

lemma sock_readE:
  assumes "sock_read io n = Some (r, io')"
  obtains ret where "script_step (io_fd io) n ret (io_fd io')"
    "r = (case ret of Sys_Ok bs \<Rightarrow> if bs = [] then Inl PRELUDE_ERROR_EOF else Inr bs
                    | Sys_Err _ \<Rightarrow> Inl PRELUDE_ERROR_EAGAIN)"
proof -
  obtain ret s' where s: "retry_eintr (\<lambda>k. script_read k n) (io_fd io) = Some (ret, s')"
    "script_step (io_fd io) n ret s'"
    using retry_script by blast
  show ?thesis
    by (rule that [of ret]; cases ret) (use s assms in \<open>auto simp: sys_read_def script_step_def\<close>)
qed

lemma sock_read_defined: "sock_read io n \<noteq> None"
  using retry_script [of n "io_fd io"] by (auto simp: sys_read_def)

interpretation sock: patient_source sock_read "\<lambda>io. script_bytes (io_fd io)" "\<lambda>_. True"
    "\<lambda>io. script_agains (io_fd io)"
proof unfold_locales
  fix io n bs io'
  assume "sock_read io n = Some (Inr bs, io')"
  then show "True \<and> length bs \<le> n \<and> script_bytes (io_fd io) = bs @ script_bytes (io_fd io')"
    by (rule sock_readE) (auto simp: script_step_def split: sysret.splits if_splits)
next
  fix io n io'
  assume "sock_read io n = Some (Inr [], io')"
  then show "script_bytes (io_fd io) = []"
    by (rule sock_readE) (auto split: sysret.splits if_splits)
next
  fix io n e io'
  assume "sock_read io n = Some (Inl e, io')"
  then show "True \<and> script_bytes (io_fd io') = script_bytes (io_fd io)"
    by (rule sock_readE) (auto simp: script_step_def split: sysret.splits if_splits)
next
  fix io n io'
  assume "sock_read io n = Some (Inl PRELUDE_ERROR_EOF, io')" "0 < n"
  then show "script_bytes (io_fd io) = []"
    by (elim sock_readE) (auto simp: script_step_def split: sysret.splits if_splits)
next
  fix io :: "delivery list prelude_io" and n :: nat
  show "\<exists>r io'. sock_read io n = Some (r, io')"
    using sock_read_defined [of io n] by auto
next
  fix io n r io'
  assume "sock_read io n = Some (r, io')"
  then show "script_agains (io_fd io') \<le> script_agains (io_fd io) \<and>
      (r = Inl PRELUDE_ERROR_EAGAIN \<longrightarrow> script_agains (io_fd io') < script_agains (io_fd io))"
    by (rule sock_readE) (auto simp: script_step_def split: sysret.splits if_splits)
qed

lemma sock_errors: "sock.io_error e \<Longrightarrow> e = PRELUDE_ERROR_EAGAIN \<or> e = PRELUDE_ERROR_EOF"
  unfolding sock.io_error_def by (auto elim!: sock_readE split: sysret.splits if_splits)

section \<open>Receiving on a non-blocking connection\<close>

definition sock_io :: "delivery list \<Rightarrow> delivery list prelude_io" where
  "sock_io s = prelude_io_set_sys_io (prelude_io_new []) s"

text \<open>
  C2. However a non-blocking descriptor cuts the stream into pieces, and however often it reports
  \<open>EAGAIN\<close> or is interrupted, calling \<open>prelude_msg_read\<close> again after each \<open>PRELUDE_ERROR_EAGAIN\<close>
  ends, and ends with what the parser makes of the whole stream: the message with the accumulated
  header and the data of all its fragments, leaving exactly the bytes behind it unread, or the error
  of a malformed stream with the message destroyed.
\<close>

theorem socket_read_parses_stream:
  assumes "script_agains s < fuel" "parse_msg bo (script_bytes s) \<noteq> Incomplete"
  shows "\<exists>ret mo' io'. poll_read bo sock_read fuel None (sock_io s) = Some (ret, mo', io') \<and>
    (case parse_msg bo (script_bytes s) of
       Parsed h d rest \<Rightarrow> ret = Inr () \<and> script_bytes (io_fd io') = rest \<and>
         (\<exists>m. mo' = Some m \<and> received_ok m \<and> msg_hdr m = h \<and> received_data m = d)
     | Malformed e \<Rightarrow> ret = Inl e \<and> mo' = None
     | Incomplete \<Rightarrow> False)"
  using sock.poll_read_decides [of None "sock_io s" fuel bo] assms sock_errors
  by (simp add: start_msg_def sock_io_def prelude_io_set_sys_io_def prelude_io_new_def)

text \<open>
  Witness: a message of two bytes that arrives in four pieces, with two refusals and an interruption,
  and one byte of the next message behind it.
\<close>

definition sample_script :: "delivery list" where
  "sample_script = [Again, Data [1, 9, 2, 0, 0], Interrupted,
     Data [0, 0, 2, 0, 0, 0, 5, 0, 0, 0, 6, 65], Again, Data [66, 1]]"

lemma sample_parse:
  "parse_msg Little_Endian (script_bytes sample_script) =
     Parsed \<lparr>hdr_version = 1, hdr_tag = 9, hdr_priority = 2, hdr_is_fragment = 0, hdr_datalen = 2,
             hdr_tv_sec = 5, hdr_tv_usec = 6\<rparr> [65, 66] [1]"
  by (simp add: sample_script_def parse_header.simps parse_content.simps slice_message_header_def
      extract_uint32_of_be32 fresh_read_msg_def max_message_size_def Let_def)

theorem socket_read_parses_stream_witness:
  "\<exists>mo' io'. poll_read Little_Endian sock_read 3 None (sock_io sample_script) = Some (Inr (), mo', io') \<and>
     script_bytes (io_fd io') = [1] \<and> (\<exists>m. mo' = Some m \<and> received_ok m \<and> received_data m = [65, 66])"
proof -
  have "script_agains sample_script < 3" by (simp add: sample_script_def)
  then show ?thesis
    using socket_read_parses_stream [of sample_script 3 Little_Endian] by (auto simp: sample_parse)
qed

end
