(* ===== verification/PString.thy ===== *)
theory PString
  imports PError
begin

text \<open>
  Strings (\<open>src/prelude-string.c\<close>): a growing buffer that is owned by the string or refers to memory
  of the caller. A pointer argument is the block of bytes that starts there; \<open>None\<close> as a result is
  undefined behaviour (an access outside of a block, a failed \<open>assert\<close>), and the result of
  \<open>vsnprintf\<close> is a parameter. Fresh memory is zero in the model; no theorem depends on it.
\<close>

section \<open>Data\<close>

record prelude_string =
  str_own_structure :: bool
  str_own_data :: bool
  str_refcount :: int
  str_data :: "byte list option"
  str_size :: nat
  str_index :: nat

definition BUFFER_CHUNK_SIZE :: nat where "BUFFER_CHUNK_SIZE = 16"

definition strlen :: "byte list \<Rightarrow> nat option" where
  "strlen buf = (if 0 \<in> set buf then Some (length (takeWhile (\<lambda>c. c \<noteq> 0) buf)) else None)"

text \<open>\<open>STRING_RETURN_IF_INVALID\<close>\<close>

definition string_invalid :: "byte list \<Rightarrow> nat \<Rightarrow> prelude_error_code option option" where
  "string_invalid buf len =
     (if size_add len 1 \<le> len then Some (Some PRELUDE_ERROR_INVAL_LENGTH)
      else if length buf \<le> len then None
      else if buf ! len \<noteq> 0 then Some (Some PRELUDE_ERROR_STRING_NOT_NULL_TERMINATED)
      else Some None)"

section \<open>The buffer\<close>

definition string_buf_alloc :: "(nat \<Rightarrow> bool) \<Rightarrow> prelude_string \<Rightarrow> nat \<Rightarrow> unit result \<times> prelude_string" where
  "string_buf_alloc mem_ok s len =
     (if \<not> mem_ok (len + 1) then (Inl PRELUDE_ERROR_ENOMEM, s\<lparr>str_data := None\<rparr>)
      else (Inr (), s\<lparr>str_data := Some (replicate (len + 1) 0), str_index := len, str_size := len + 1\<rparr>))"

definition string_buf_copy :: "prelude_string \<Rightarrow> byte list \<Rightarrow> nat \<Rightarrow> prelude_string option" where
  "string_buf_copy s buf len =
     (if \<not> len < str_size s then None
      else Option.bind (str_data s) (\<lambda>dst.
        Option.bind (mem_read buf 0 len) (\<lambda>src.
          map_option (\<lambda>d. s\<lparr>str_data := Some d\<rparr>) (mem_write dst 0 (src @ [0])))))"

definition make_string_own :: "(nat \<Rightarrow> bool) \<Rightarrow> prelude_string \<Rightarrow> nat \<Rightarrow> (unit result \<times> prelude_string) option" where
  "make_string_own mem_ok s len =
     (if \<not> mem_ok len then Some (Inl PRELUDE_ERROR_ENOMEM, s)
      else map_option (\<lambda>d. (Inr (), s\<lparr>str_size := len, str_data := Some d, str_own_data := True\<rparr>))
        (case str_data s of
           None \<Rightarrow> Some (replicate len 0)
         | Some src \<Rightarrow> Option.bind (mem_read src 0 (str_index s + 1)) (mem_write (replicate len 0) 0)))"

text \<open>
  The growth is the maximum of a \<open>size_t\<close> and a \<open>double\<close> (\<open>size * 1.5\<close>), so it is computed as a
  \<open>double\<close> and converted back. From \<open>2 ^ 53\<close> on that is inexact, and undefined above the range of
  \<open>size_t\<close>; the model gives up there.
\<close>

definition growth :: "prelude_string \<Rightarrow> nat \<Rightarrow> nat option" where
  "growth s needed_len =
     (if needed_len = 0 then Some BUFFER_CHUNK_SIZE
      else let len = max (size_sub needed_len (size_sub (str_size s) (str_index s))) (str_size s * 3 div 2)
           in if len < 2 ^ 53 then Some len else None)"

definition allocate_more_chunk_if_needed ::
  "(nat \<Rightarrow> bool) \<Rightarrow> prelude_string \<Rightarrow> nat \<Rightarrow> (unit result \<times> prelude_string) option" where
  "allocate_more_chunk_if_needed mem_ok s needed_len =
     Option.bind (growth s needed_len) (\<lambda>len.
       if size_add (str_size s) len < str_size s then Some (Inl PRELUDE_ERROR_INVAL_LENGTH, s)
       else if str_own_data s then
         if \<not> mem_ok (str_size s + len) then Some (Inl PRELUDE_ERROR_ENOMEM, s)
         else Some (Inr (), s\<lparr>str_size := str_size s + len,
           str_data := Some (resize_block (case str_data s of None \<Rightarrow> [] | Some d \<Rightarrow> d) (str_size s + len))\<rparr>)
       else make_string_own mem_ok s (str_size s + len))"

section \<open>Creating and setting strings\<close>

definition empty_string :: prelude_string where
  "empty_string = \<lparr>str_own_structure = True, str_own_data = False, str_refcount = 1, str_data = None,
     str_size = 0, str_index = 0\<rparr>"

definition prelude_string_new :: "(nat \<Rightarrow> bool) \<Rightarrow> prelude_string result" where
  "prelude_string_new mem_ok = (if \<not> mem_ok 0 then Inl PRELUDE_ERROR_ENOMEM else Inr empty_string)"

definition prelude_string_ref :: "prelude_string \<Rightarrow> prelude_string" where
  "prelude_string_ref s = s\<lparr>str_refcount := str_refcount s + 1\<rparr>"

definition prelude_string_destroy_internal :: "prelude_string \<Rightarrow> prelude_string" where
  "prelude_string_destroy_internal s = s\<lparr>str_data := None, str_index := 0, str_size := 0\<rparr>"

text \<open>The string after the call, or \<open>None\<close> when it was freed.\<close>

definition prelude_string_destroy :: "prelude_string \<Rightarrow> prelude_string option" where
  "prelude_string_destroy s =
     (let s1 = s\<lparr>str_refcount := str_refcount s - 1\<rparr> in
      if str_refcount s1 \<noteq> 0 then Some s1
      else let s2 = prelude_string_destroy_internal s1 in
        if str_own_structure s2 then None else Some s2)"

text \<open>The three ways to hand a buffer over: copy it, take it, refer to it.\<close>

definition prelude_string_set_dup_fast ::
  "(nat \<Rightarrow> bool) \<Rightarrow> prelude_string \<Rightarrow> byte list \<Rightarrow> nat \<Rightarrow> (unit result \<times> prelude_string) option" where
  "prelude_string_set_dup_fast mem_ok s buf len =
     Option.bind (string_invalid buf len) (\<lambda>bad.
       case bad of
         Some e \<Rightarrow> Some (Inl e, s)
       | None \<Rightarrow>
           (case string_buf_alloc mem_ok (prelude_string_destroy_internal s) len of
              (Inl e, s1) \<Rightarrow> Some (Inl e, s1)
            | (Inr _, s1) \<Rightarrow> map_option (\<lambda>s2. (Inr (), s2\<lparr>str_own_data := True\<rparr>)) (string_buf_copy s1 buf len)))"

definition prelude_string_set_nodup_fast ::
  "prelude_string \<Rightarrow> byte list \<Rightarrow> nat \<Rightarrow> (unit result \<times> prelude_string) option" where
  "prelude_string_set_nodup_fast s buf len =
     Option.bind (string_invalid buf len) (\<lambda>bad.
       case bad of
         Some e \<Rightarrow> Some (Inl e, s)
       | None \<Rightarrow> Some (Inr (), (prelude_string_destroy_internal s)
           \<lparr>str_index := len, str_size := len + 1, str_data := Some buf, str_own_data := True\<rparr>))"

definition prelude_string_set_ref_fast ::
  "prelude_string \<Rightarrow> byte list \<Rightarrow> nat \<Rightarrow> (unit result \<times> prelude_string) option" where
  "prelude_string_set_ref_fast s buf len =
     Option.bind (string_invalid buf len) (\<lambda>bad.
       case bad of
         Some e \<Rightarrow> Some (Inl e, s)
       | None \<Rightarrow> Some (Inr (), (prelude_string_destroy_internal s)
           \<lparr>str_index := len, str_size := len + 1, str_data := Some buf, str_own_data := False\<rparr>))"

definition prelude_string_set_dup where
  "prelude_string_set_dup mem_ok s buf = Option.bind (strlen buf) (prelude_string_set_dup_fast mem_ok s buf)"

definition prelude_string_set_nodup where
  "prelude_string_set_nodup s buf = Option.bind (strlen buf) (prelude_string_set_nodup_fast s buf)"

definition prelude_string_set_ref where
  "prelude_string_set_ref s buf = Option.bind (strlen buf) (prelude_string_set_ref_fast s buf)"

text \<open>The same on a fresh string; the check of the argument comes before the allocation.\<close>

definition prelude_string_new_dup_fast ::
  "(nat \<Rightarrow> bool) \<Rightarrow> byte list \<Rightarrow> nat \<Rightarrow> (unit result \<times> prelude_string option) option" where
  "prelude_string_new_dup_fast mem_ok str len =
     Option.bind (string_invalid str len) (\<lambda>bad.
       case bad of
         Some e \<Rightarrow> Some (Inl e, None)
       | None \<Rightarrow>
           (case prelude_string_new mem_ok of
              Inl e \<Rightarrow> Some (Inl e, None)
            | Inr s \<Rightarrow>
                (case string_buf_alloc mem_ok s len of
                   (Inl e, s1) \<Rightarrow> Some (Inl e, Some s1)
                 | (Inr _, s1) \<Rightarrow>
                     map_option (\<lambda>s2. (Inr (), Some (s2\<lparr>str_own_data := True\<rparr>))) (string_buf_copy s1 str len))))"

definition prelude_string_new_nodup_fast ::
  "(nat \<Rightarrow> bool) \<Rightarrow> byte list \<Rightarrow> nat \<Rightarrow> (unit result \<times> prelude_string option) option" where
  "prelude_string_new_nodup_fast mem_ok str len =
     Option.bind (string_invalid str len) (\<lambda>bad.
       case bad of
         Some e \<Rightarrow> Some (Inl e, None)
       | None \<Rightarrow>
           (case prelude_string_new mem_ok of
              Inl e \<Rightarrow> Some (Inl e, None)
            | Inr s \<Rightarrow> Some (Inr (), Some (s\<lparr>str_index := len, str_size := len + 1, str_data := Some str,
                                         str_own_data := True\<rparr>))))"

definition prelude_string_new_ref_fast ::
  "(nat \<Rightarrow> bool) \<Rightarrow> byte list \<Rightarrow> nat \<Rightarrow> (unit result \<times> prelude_string option) option" where
  "prelude_string_new_ref_fast mem_ok buf len =
     Option.bind (string_invalid buf len) (\<lambda>bad.
       case bad of
         Some e \<Rightarrow> Some (Inl e, None)
       | None \<Rightarrow>
           (case prelude_string_new mem_ok of
              Inl e \<Rightarrow> Some (Inl e, None)
            | Inr s \<Rightarrow> Some (Inr (), Some (s\<lparr>str_index := len, str_size := len + 1, str_data := Some buf\<rparr>))))"

definition prelude_string_new_dup where
  "prelude_string_new_dup mem_ok str = Option.bind (strlen str) (prelude_string_new_dup_fast mem_ok str)"

definition prelude_string_new_nodup where
  "prelude_string_new_nodup mem_ok str = Option.bind (strlen str) (prelude_string_new_nodup_fast mem_ok str)"

definition prelude_string_new_ref where
  "prelude_string_new_ref mem_ok str = Option.bind (strlen str) (prelude_string_new_ref_fast mem_ok str)"

section \<open>Copies\<close>

definition prelude_string_copy_ref :: "prelude_string \<Rightarrow> prelude_string \<Rightarrow> prelude_string" where
  "prelude_string_copy_ref src dst = (prelude_string_destroy_internal dst)
     \<lparr>str_size := str_size src, str_index := str_index src, str_data := str_data src, str_own_data := False\<rparr>"

definition fill_copy :: "(nat \<Rightarrow> bool) \<Rightarrow> prelude_string \<Rightarrow> prelude_string \<Rightarrow> (unit result \<times> prelude_string) option" where
  "fill_copy mem_ok src dst =
     (let d = dst\<lparr>str_size := str_size src, str_index := str_index src, str_own_data := True\<rparr> in
      if str_size src = 0 then Some (Inr (), d)
      else if \<not> mem_ok (str_size src) then Some (Inl PRELUDE_ERROR_ENOMEM, d\<lparr>str_data := None\<rparr>)
      else Option.bind (str_data src) (\<lambda>sd.
        map_option (\<lambda>d'. (Inr (), d'))
          (string_buf_copy (d\<lparr>str_data := Some (replicate (str_size src) 0)\<rparr>) sd (str_index src))))"

definition prelude_string_copy_dup ::
  "(nat \<Rightarrow> bool) \<Rightarrow> prelude_string \<Rightarrow> prelude_string \<Rightarrow> (unit result \<times> prelude_string) option" where
  "prelude_string_copy_dup mem_ok src dst = fill_copy mem_ok src (prelude_string_destroy_internal dst)"

text \<open>A clone that could not be completed is destroyed.\<close>

definition prelude_string_clone ::
  "(nat \<Rightarrow> bool) \<Rightarrow> prelude_string \<Rightarrow> (unit result \<times> prelude_string option) option" where
  "prelude_string_clone mem_ok src =
     (case prelude_string_new mem_ok of
        Inl e \<Rightarrow> Some (Inl e, None)
      | Inr s \<Rightarrow> map_option (\<lambda>(ret, d). case ret of Inl e \<Rightarrow> (Inl e, prelude_string_destroy d)
                                                | Inr _ \<Rightarrow> (Inr (), Some d)) (fill_copy mem_ok src s))"

section \<open>Reading\<close>

definition prelude_string_get_len :: "prelude_string \<Rightarrow> nat" where
  "prelude_string_get_len s = str_index s"

definition prelude_string_get_string :: "prelude_string \<Rightarrow> byte list option" where
  "prelude_string_get_string s = str_data s"

definition prelude_string_get_string_or_default :: "prelude_string \<Rightarrow> byte list option \<Rightarrow> byte list option" where
  "prelude_string_get_string_or_default s def = (if str_data s \<noteq> None then str_data s else def)"

definition prelude_string_is_empty :: "prelude_string \<Rightarrow> bool" where
  "prelude_string_is_empty s \<longleftrightarrow> str_index s = 0"

text \<open>\<open>strdup\<close> of the referred memory, or the buffer itself.\<close>

definition prelude_string_get_string_released ::
  "(nat \<Rightarrow> bool) \<Rightarrow> prelude_string \<Rightarrow> (unit result \<times> byte list option \<times> prelude_string) option" where
  "prelude_string_get_string_released mem_ok s =
     (if str_index s = 0 then Some (Inr (), None, s)
      else if \<not> str_own_data s then
        Option.bind (str_data s) (\<lambda>d. Option.bind (strlen d) (\<lambda>n.
          if \<not> mem_ok (n + 1) then Some (Inl PRELUDE_ERROR_ENOMEM, None, s)
          else Some (Inr (), Some (take n d @ [0]), s)))
      else if size_add (str_index s) 1 \<le> str_index s then Some (Inl PRELUDE_ERROR_INVAL_LENGTH, None, s)
      else if \<not> mem_ok (str_index s + 1) then Some (Inl PRELUDE_ERROR_ENOMEM, None, s)
      else Some (Inr (),
             Some (resize_block (case str_data s of None \<Rightarrow> [] | Some d \<Rightarrow> d) (str_index s + 1)),
             s\<lparr>str_size := 0, str_index := 0, str_data := None\<rparr>))"

text \<open>\<open>strcmp\<close> for equality: the bytes up to the first zero.\<close>

definition c_string :: "byte list \<Rightarrow> byte list" where
  "c_string buf = takeWhile (\<lambda>c. c \<noteq> 0) buf"

definition strcmp_eq :: "byte list \<Rightarrow> byte list \<Rightarrow> bool option" where
  "strcmp_eq a b = (if 0 \<in> set a \<and> 0 \<in> set b then Some (c_string a = c_string b) else None)"

definition prelude_string_compare :: "prelude_string option \<Rightarrow> prelude_string option \<Rightarrow> int option" where
  "prelude_string_compare str1 str2 =
     (case (str1, str2) of
        (None, None) \<Rightarrow> Some 0
      | (Some s1, Some s2) \<Rightarrow>
          if str_index s1 \<noteq> str_index s2 then Some (- 1)
          else if str_index s1 = 0 then Some 0
          else Option.bind (str_data s1) (\<lambda>d1. Option.bind (str_data s2) (\<lambda>d2.
            map_option (\<lambda>eq. if eq then 0 else - 1) (strcmp_eq d1 d2)))
      | _ \<Rightarrow> Some (- 1))"

section \<open>Appending and truncating\<close>

text \<open>
  \<open>vsnprintf\<close> on the rest of the buffer: \<open>out\<close> is the whole formatted text (\<open>None\<close> when the call
  fails); it writes what fits, with a terminating zero, and returns the whole length.
\<close>

definition vsnprintf_at :: "prelude_string \<Rightarrow> byte list \<Rightarrow> prelude_string option" where
  "vsnprintf_at s out =
     (let room = size_sub (str_size s) (str_index s) in
      if room = 0 then Some s
      else Option.bind (str_data s) (\<lambda>d.
        map_option (\<lambda>d'. s\<lparr>str_data := Some d'\<rparr>)
          (mem_write d (str_index s) (take (room - 1) out @ [0]))))"

partial_function (option) prelude_string_vprintf ::
  "(nat \<Rightarrow> bool) \<Rightarrow> prelude_string \<Rightarrow> byte list option \<Rightarrow> (nat result \<times> prelude_string) option"
where
  "prelude_string_vprintf mem_ok s out =
     Option.bind (if \<not> str_own_data s then allocate_more_chunk_if_needed mem_ok s 0 else Some (Inr (), s))
       (\<lambda>r1. case fst r1 of
          Inl e \<Rightarrow> Some (Inl e, snd r1)
        | Inr _ \<Rightarrow>
            Option.bind (case out of None \<Rightarrow> Some (snd r1) | Some text \<Rightarrow> vsnprintf_at (snd r1) text) (\<lambda>s2.
              if out \<noteq> None \<and> length (the out) < size_sub (str_size s2) (str_index s2)
              then Some (Inr (length (the out)), s2\<lparr>str_index := str_index s2 + length (the out)\<rparr>)
              else Option.bind
                (allocate_more_chunk_if_needed mem_ok s2 (case out of None \<Rightarrow> 0 | Some text \<Rightarrow> length text + 1))
                (\<lambda>r3. case fst r3 of
                   Inl e \<Rightarrow> Some (Inl e, snd r3)
                 | Inr _ \<Rightarrow> prelude_string_vprintf mem_ok (snd r3) out)))"

definition prelude_string_sprintf where
  "prelude_string_sprintf mem_ok s out = prelude_string_vprintf mem_ok s out"

text \<open>\<open>str\<close> holds the \<open>len\<close> bytes to append.\<close>

partial_function (option) prelude_string_ncat ::
  "(nat \<Rightarrow> bool) \<Rightarrow> prelude_string \<Rightarrow> byte list \<Rightarrow> nat \<Rightarrow> (nat result \<times> prelude_string) option"
where
  "prelude_string_ncat mem_ok dst str len =
     (if str_own_data dst \<and> len < size_sub (str_size dst) (str_index dst) then
        Option.bind (mem_read str 0 len) (\<lambda>src.
        Option.bind (str_data dst) (\<lambda>d.
        Option.bind (mem_write d (str_index dst) src) (\<lambda>d1.
          map_option (\<lambda>d2. (Inr len, dst\<lparr>str_data := Some d2, str_index := str_index dst + len\<rparr>))
            (mem_write d1 (str_index dst + len) [0]))))
      else if size_add len 1 < len then Some (Inl PRELUDE_ERROR_INVAL_LENGTH, dst)
      else Option.bind (allocate_more_chunk_if_needed mem_ok dst (len + 1)) (\<lambda>r.
        case fst r of
          Inl e \<Rightarrow> Some (Inl e, snd r)
        | Inr _ \<Rightarrow> prelude_string_ncat mem_ok (snd r) str len))"

definition prelude_string_cat where
  "prelude_string_cat mem_ok dst str = Option.bind (strlen str) (prelude_string_ncat mem_ok dst str)"

text \<open>With \<open>len \<noteq> 0\<close> a string that refers to memory of the caller is copied to a block of zero bytes.\<close>

definition prelude_string_truncate ::
  "(nat \<Rightarrow> bool) \<Rightarrow> prelude_string \<Rightarrow> nat \<Rightarrow> (unit result \<times> prelude_string) option" where
  "prelude_string_truncate mem_ok s len =
     (if str_index s < len then Some (Inl PRELUDE_ERROR_ASSERTION, s)
      else Option.bind
        (if len \<noteq> 0 \<and> \<not> str_own_data s then make_string_own mem_ok s 0 else Some (Inr (), s)) (\<lambda>(ret, s1).
          case ret of
            Inl e \<Rightarrow> Some (Inl e, s1)
          | Inr _ \<Rightarrow>
              (case str_data s1 of
                 None \<Rightarrow> Some (Inr (), s1\<lparr>str_index := len\<rparr>)
               | Some d \<Rightarrow> map_option (\<lambda>d'. (Inr (), s1\<lparr>str_data := Some d', str_index := len\<rparr>))
                             (mem_write d len [0]))))"

definition prelude_string_clear :: "(nat \<Rightarrow> bool) \<Rightarrow> prelude_string \<Rightarrow> prelude_string option" where
  "prelude_string_clear mem_ok s = map_option snd (prelude_string_truncate mem_ok s 0)"

section \<open>Invariant\<close>

definition str_val :: "prelude_string \<Rightarrow> byte list" where
  "str_val s = (case str_data s of None \<Rightarrow> [] | Some d \<Rightarrow> take (str_index s) d)"

text \<open>The bounds of the buffer; a string is \<open>str_ok\<close> when it is terminated as well.\<close>

definition str_shape :: "prelude_string \<Rightarrow> bool" where
  "str_shape s \<longleftrightarrow> str_size s < 2 ^ 48 \<and>
     (case str_data s of
        None \<Rightarrow> str_index s = 0 \<and> str_size s = 0
      | Some d \<Rightarrow> str_index s < str_size s \<and> str_size s \<le> length d)"

definition str_ok :: "prelude_string \<Rightarrow> bool" where
  "str_ok s \<longleftrightarrow> str_shape s \<and> (case str_data s of None \<Rightarrow> True | Some d \<Rightarrow> d ! str_index s = 0)"

text \<open>
  Appending \<open>n\<close> bytes to a string that refers to memory of the caller computes its growth from the
  space behind the end of that memory's string, which must not be larger than what is needed.
\<close>

definition appendable :: "prelude_string \<Rightarrow> nat \<Rightarrow> bool" where
  "appendable s n \<longleftrightarrow> str_ok s \<and> n < 2 ^ 48 \<and> (str_own_data s \<or> str_size s \<le> str_index s + 1 + n)"

lemma empty_string_ok [simp]: "str_ok empty_string" "str_val empty_string = []"
  by (simp_all add: str_ok_def str_shape_def str_val_def empty_string_def)

lemma str_ok_length: "str_ok s \<Longrightarrow> length (str_val s) = str_index s"
  by (auto simp: str_ok_def str_shape_def str_val_def split: option.splits)

lemma allocate_more:
  assumes "str_shape s" "str_size s \<le> str_index s + needed" "0 < needed" "needed < 2 ^ 50"
  shows "\<exists>s' d. allocate_more_chunk_if_needed (\<lambda>_. True) s needed = Some (Inr (), s') \<and>
    str_own_data s' \<and> str_index s' = str_index s \<and> str_data s' = Some d \<and>
    str_index s + needed \<le> str_size s' \<and> str_size s' \<le> length d \<and> str_size s' \<le> 3 * str_size s + needed \<and>
    take (str_index s) d = str_val s"
proof -
  let ?n = "size_sub needed (size_sub (str_size s) (str_index s))"
  have b: "str_size s < 2 ^ 48" "str_index s \<le> str_size s"
    using assms(1) by (auto simp: str_shape_def split: option.splits)
  then have n: "?n = needed - (str_size s - str_index s)"
    using assms by (subst (2) size_sub_small, simp, simp, subst size_sub_small) simp_all
  define len where "len = max ?n (str_size s * 3 div 2)"
  have len: "growth s needed = Some len" "str_size s + len < 2 ^ 51" "str_size s + len \<le> 3 * str_size s + needed"
    "str_index s + needed \<le> str_size s + len"
    using b assms(2-4) n by (auto simp: growth_def len_def Let_def)
  then have nowrap: "\<not> size_add (str_size s) len < str_size s" by simp
  show ?thesis
  proof (cases "str_own_data s")
    case True
    then show ?thesis
      using len nowrap assms(1) b
      by (auto simp: allocate_more_chunk_if_needed_def str_val_def str_shape_def resize_block_def
          split: option.splits)
  next
    case False
    have "str_index s + 1 \<le> str_size s + len" using assms(3) len(4) by simp
    then show ?thesis
      using False len nowrap assms(1) b
      by (auto simp: allocate_more_chunk_if_needed_def make_string_own_def str_val_def str_shape_def
          mem_read_def mem_write_def split: option.splits)
  qed
qed

lemma ncat_fits:
  assumes "str_own_data s" "str_data s = Some d" "str_index s + len < str_size s" "str_size s \<le> length d"
    and "str_size s < 2 ^ 51" "len \<le> length str"
  shows "prelude_string_ncat (\<lambda>_. True) s str len =
    Some (Inr len, s\<lparr>str_data := Some (take (str_index s) d @ take len str @ [0] @ drop (str_index s + len + 1) d),
                     str_index := str_index s + len\<rparr>)"
proof -
  have "len < size_sub (str_size s) (str_index s)" using assms by simp
  then show ?thesis
    using assms by (subst prelude_string_ncat.simps) (simp add: mem_read_def mem_write_def)
qed

text \<open>Appending to a string; the block stays within four times the length of the text.\<close>

lemma ncat_any:
  assumes "appendable s len" "len \<le> length str" "str_size s + len < 2 ^ 46"
  shows "\<exists>s'. prelude_string_ncat (\<lambda>_. True) s str len = Some (Inr len, s') \<and> str_ok s' \<and>
    str_own_data s' \<and> str_val s' = str_val s @ take len str \<and> str_size s' \<le> max (str_size s) (4 * (str_index s + len) + 4)"
proof -
  have b: "str_size s < 2 ^ 48" "str_index s \<le> str_size s" and ok: "str_ok s"
    using assms(1) by (auto simp: appendable_def str_ok_def str_shape_def split: option.splits)
  have fits: "\<exists>s'. prelude_string_ncat (\<lambda>_. True) t str len = Some (Inr len, s') \<and> str_ok s' \<and>
      str_own_data s' \<and> str_val s' = take (str_index t) d @ take len str \<and> str_size s' = str_size t"
    if "str_own_data t" "str_data t = Some d" "str_index t + len < str_size t" "str_size t \<le> length d"
      "str_size t < 2 ^ 48" for t d
    using ncat_fits [of t d len str] that assms(2) by (simp add: str_ok_def str_shape_def str_val_def nth_append)
  show ?thesis
  proof (cases "str_own_data s \<and> len < size_sub (str_size s) (str_index s)")
    case True
    then have lt: "str_index s + len < str_size s" using b by auto
    then obtain d where "str_data s = Some d" "str_size s \<le> length d"
      using ok by (auto simp: str_ok_def str_shape_def split: option.splits)
    then show ?thesis using fits [of s d] True lt b by (fastforce simp: str_val_def)
  next
    case False
    then have slack: "str_size s \<le> str_index s + (len + 1)"
      using assms(1) b by (auto simp: appendable_def)
    obtain s1 d where a: "allocate_more_chunk_if_needed (\<lambda>_. True) s (len + 1) = Some (Inr (), s1)"
      "str_own_data s1" "str_index s1 = str_index s" "str_data s1 = Some d"
      "str_index s + (len + 1) \<le> str_size s1" "str_size s1 \<le> length d"
      "str_size s1 \<le> 3 * str_size s + (len + 1)" "take (str_index s) d = str_val s"
      using allocate_more [of s "len + 1"] ok slack assms(3) by (auto simp: str_ok_def)
    have "prelude_string_ncat (\<lambda>_. True) s str len = prelude_string_ncat (\<lambda>_. True) s1 str len"
      using False a(1) assms(3) by (subst prelude_string_ncat.simps) auto
    moreover have "str_size s1 \<le> 4 * (str_index s + len) + 4" using a(7) slack by simp
    ultimately show ?thesis using fits [of s1 d] a assms(3) by auto
  qed
qed

text \<open>
  \<open>prelude_string_ncat\<close> appends: it stays inside of its buffer, returns the number of bytes, and
  the string is the old one followed by the bytes, terminated by a zero.
\<close>

theorem ncat_appends:
  assumes "appendable s len" "len \<le> length str" "str_size s + len < 2 ^ 46"
  shows "\<exists>s'. prelude_string_ncat (\<lambda>_. True) s str len = Some (Inr len, s') \<and> str_ok s' \<and>
    str_own_data s' \<and> str_val s' = str_val s @ take len str"
  using ncat_any [OF assms] by blast

theorem ncat_appends_witness:
  "\<exists>s'. prelude_string_ncat (\<lambda>_. True) empty_string [65, 66, 67] 2 = Some (Inr 2, s') \<and> str_ok s' \<and>
    str_own_data s' \<and> str_val s' = [65, 66]"
  using ncat_appends [of empty_string 2 "[65, 66, 67]"]
  by (simp add: appendable_def) (simp add: empty_string_def)

text \<open>The same through \<open>prelude_string_cat\<close>, for text up to its terminating zero.\<close>

lemma strlen_c_string: "0 \<notin> set cs \<Longrightarrow> strlen (cs @ 0 # rest) = Some (length cs)"
  by (auto simp: strlen_def takeWhile_append)

text \<open>
  The strings that \<open>prelude_string_set_dup_fast\<close>, \<open>..._set_nodup_fast\<close> and \<open>..._set_ref_fast\<close>
  make of a buffer have the bytes before the terminating zero as their value, whatever the string
  held before, and only the last one leaves the buffer with the caller. A buffer that is not
  terminated there is refused and the string keeps its value.
\<close>

theorem set_value:
  assumes "len < length buf" "len < 2 ^ 47"
  shows "if buf ! len = 0 then
      (\<exists>s1. prelude_string_set_dup_fast (\<lambda>_. True) s buf len = Some (Inr (), s1) \<and> str_ok s1 \<and>
         str_val s1 = take len buf \<and> str_own_data s1) \<and>
      (\<exists>s2. prelude_string_set_nodup_fast s buf len = Some (Inr (), s2) \<and> str_ok s2 \<and>
         str_val s2 = take len buf \<and> str_own_data s2) \<and>
      (\<exists>s3. prelude_string_set_ref_fast s buf len = Some (Inr (), s3) \<and> str_ok s3 \<and>
         str_val s3 = take len buf \<and> \<not> str_own_data s3)
    else prelude_string_set_dup_fast (\<lambda>_. True) s buf len =
           Some (Inl PRELUDE_ERROR_STRING_NOT_NULL_TERMINATED, s) \<and>
         prelude_string_set_nodup_fast s buf len = Some (Inl PRELUDE_ERROR_STRING_NOT_NULL_TERMINATED, s) \<and>
         prelude_string_set_ref_fast s buf len = Some (Inl PRELUDE_ERROR_STRING_NOT_NULL_TERMINATED, s)"
proof -
  have inv: "string_invalid buf len = Some (if buf ! len = 0 then None
      else Some PRELUDE_ERROR_STRING_NOT_NULL_TERMINATED)"
    using assms by (simp add: string_invalid_def)
  have "prelude_string_set_dup_fast (\<lambda>_. True) s buf len =
      Some (Inr (), s\<lparr>str_data := Some (take len buf @ [0]), str_index := len, str_size := len + 1,
                      str_own_data := True\<rparr>)" if "buf ! len = 0"
    using that inv assms
    by (simp add: prelude_string_set_dup_fast_def string_buf_alloc_def string_buf_copy_def
        prelude_string_destroy_internal_def mem_read_def mem_write_def)
  then show ?thesis
    using inv assms
    by (auto simp: prelude_string_set_nodup_fast_def prelude_string_set_ref_fast_def
        prelude_string_set_dup_fast_def prelude_string_destroy_internal_def
        str_ok_def str_shape_def str_val_def nth_append)
qed

theorem set_value_witness:
  "\<exists>s3. prelude_string_set_ref_fast empty_string [72, 105, 0] 2 = Some (Inr (), s3) \<and> str_ok s3 \<and>
     str_val s3 = [72, 105] \<and> \<not> str_own_data s3"
  using set_value [of 2 "[72, 105, 0]" empty_string] by simp

section \<open>Formatted output\<close>

lemma vprintf_fits:
  assumes "str_own_data s" "str_data s = Some d" "str_index s + length out < str_size s"
    and "str_size s \<le> length d" "str_size s < 2 ^ 51"
  shows "prelude_string_vprintf (\<lambda>_. True) s (Some out) =
    Some (Inr (length out), s\<lparr>str_data := Some (take (str_index s) d @ out @ [0] @
              drop (str_index s + length out + 1) d), str_index := str_index s + length out\<rparr>)"
  using assms
  by (subst prelude_string_vprintf.simps) (auto simp: vsnprintf_at_def mem_write_def Let_def)

text \<open>What \<open>vsnprintf\<close> leaves when the text does not fit: the string up to its index is untouched.\<close>

lemma vsnprintf_short:
  assumes "str_shape s" "str_size s \<le> str_index s + length out"
  shows "\<exists>s'. vsnprintf_at s out = Some s' \<and> str_shape s' \<and> str_index s' = str_index s \<and>
    str_size s' = str_size s \<and> str_own_data s' = str_own_data s \<and> str_val s' = str_val s"
proof (cases "str_data s")
  case None
  then show ?thesis using assms by (simp add: vsnprintf_at_def str_shape_def)
next
  case (Some d)
  then have b: "str_index s < str_size s" "str_size s \<le> length d" "str_size s < 2 ^ 48"
    using assms(1) by (auto simp: str_shape_def)
  then have "length (take (str_size s - str_index s - 1) out @ [0]) = str_size s - str_index s"
    using assms(2) by simp
  then obtain d' where d': "mem_write d (str_index s) (take (str_size s - str_index s - 1) out @ [0]) = Some d'"
    using b by (simp add: mem_write_def)
  have "length d' = length d" "take (str_index s) d' = take (str_index s) d"
    using mem_write_length [OF d'] mem_write_take [OF d'] by simp_all
  then show ?thesis
    using b d' Some by (simp add: vsnprintf_at_def str_shape_def str_val_def)
qed

lemma vprintf_own:
  assumes "str_shape s" "str_own_data s" "str_size s + length out < 2 ^ 46"
  shows "\<exists>s'. prelude_string_vprintf (\<lambda>_. True) s (Some out) = Some (Inr (length out), s') \<and> str_ok s' \<and>
    str_own_data s' \<and> str_val s' = str_val s @ out \<and> str_size s' \<le> max (str_size s) (4 * (str_index s + length out) + 4)"
proof -
  have fits: "\<exists>s'. prelude_string_vprintf (\<lambda>_. True) t (Some out) = Some (Inr (length out), s') \<and> str_ok s' \<and>
      str_own_data s' \<and> str_val s' = take (str_index t) d @ out \<and> str_size s' = str_size t"
    if "str_own_data t" "str_data t = Some d" "str_index t + length out < str_size t"
      "str_size t \<le> length d" "str_size t < 2 ^ 48" for t d
    using vprintf_fits [of t d out] that by (simp add: str_ok_def str_shape_def str_val_def nth_append)
  show ?thesis
  proof (cases "str_index s + length out < str_size s")
    case True
    then obtain d where "str_data s = Some d" "str_size s \<le> length d" "str_size s < 2 ^ 48"
      using assms(1) by (auto simp: str_shape_def split: option.splits)
    then show ?thesis using fits [of s d] True assms(2) by (fastforce simp: str_val_def)
  next
    case False
    then obtain s2 where s2: "vsnprintf_at s out = Some s2" "str_shape s2" "str_index s2 = str_index s"
      "str_size s2 = str_size s" "str_own_data s2" "str_val s2 = str_val s"
      using vsnprintf_short [of s out] assms by auto
    have b: "str_index s \<le> str_size s" using assms(1) by (auto simp: str_shape_def split: option.splits)
    obtain s3 d where a: "allocate_more_chunk_if_needed (\<lambda>_. True) s2 (length out + 1) = Some (Inr (), s3)"
      "str_own_data s3" "str_index s3 = str_index s" "str_data s3 = Some d"
      "str_index s + (length out + 1) \<le> str_size s3" "str_size s3 \<le> length d"
      "str_size s3 \<le> 3 * str_size s + (length out + 1)" "take (str_index s) d = str_val s"
      using allocate_more [OF s2(2), of "length out + 1"] s2 False assms(3) by auto
    have "\<not> length out < size_sub (str_size s2) (str_index s2)"
      using False s2 b assms(3) by simp
    then have "prelude_string_vprintf (\<lambda>_. True) s (Some out) = prelude_string_vprintf (\<lambda>_. True) s3 (Some out)"
      using assms(2) s2(1) a(1) by (subst prelude_string_vprintf.simps) simp
    moreover have "str_size s3 \<le> 4 * (str_index s + length out) + 4" using a(7) False by simp
    ultimately show ?thesis using fits [of s3 d] a assms(3) by auto
  qed
qed

lemma vprintf_any:
  assumes "str_ok s" "str_size s + length out < 2 ^ 45"
  shows "\<exists>s'. prelude_string_vprintf (\<lambda>_. True) s (Some out) = Some (Inr (length out), s') \<and> str_ok s' \<and>
    str_own_data s' \<and> str_val s' = str_val s @ out \<and> str_size s' \<le> max (str_size s + 16) (4 * (str_index s + length out) + 4)"
proof (cases "str_own_data s")
  case True
  then show ?thesis using vprintf_own [of s out] assms by (fastforce simp: str_ok_def)
next
  case False
  have b: "str_size s < 2 ^ 45" "str_index s \<le> str_size s"
    using assms by (auto simp: str_ok_def str_shape_def split: option.splits)
  obtain s1 where s1: "allocate_more_chunk_if_needed (\<lambda>_. True) s 0 = Some (Inr (), s1)" "str_own_data s1"
    "str_shape s1" "str_size s1 = str_size s + 16" "str_index s1 = str_index s" "str_val s1 = str_val s"
    using False assms(1) b
    by (auto simp: allocate_more_chunk_if_needed_def growth_def BUFFER_CHUNK_SIZE_def make_string_own_def
        str_ok_def str_shape_def str_val_def mem_read_def mem_write_def split: option.splits)
  have "prelude_string_vprintf (\<lambda>_. True) s (Some out) = prelude_string_vprintf (\<lambda>_. True) s1 (Some out)"
    using False s1(1,2) by (subst (1 2) prelude_string_vprintf.simps) simp
  then show ?thesis using vprintf_own [OF s1(3,2), of out] s1(4-6) assms(2) by simp
qed

text \<open>
  \<open>prelude_string_vprintf\<close> appends the whole formatted text, however often it has to enlarge the
  buffer and format again: it returns the length of the text, and the string is the old one
  followed by the text.
\<close>

theorem vprintf_appends:
  assumes "str_ok s" "str_size s + length out < 2 ^ 45"
  shows "\<exists>s'. prelude_string_vprintf (\<lambda>_. True) s (Some out) = Some (Inr (length out), s') \<and> str_ok s' \<and>
    str_own_data s' \<and> str_val s' = str_val s @ out"
  using vprintf_any [OF assms] by blast

theorem vprintf_appends_witness:
  "\<exists>s'. prelude_string_vprintf (\<lambda>_. True) empty_string (Some (replicate 40 65)) = Some (Inr 40, s') \<and>
     str_ok s' \<and> str_own_data s' \<and> str_val s' = replicate 40 65"
  using vprintf_appends [of empty_string "replicate 40 65"] by simp (simp add: empty_string_def)

section \<open>Copies, comparison, truncation\<close>

lemma str_okE:
  assumes "str_ok s"
  obtains "str_data s = None" "str_index s = 0" "str_size s = 0" "str_val s = []"
  | d where "str_data s = Some d" "str_index s < str_size s" "str_size s \<le> length d"
    "d ! str_index s = 0" "str_size s < 2 ^ 48" "str_val s = take (str_index s) d"
  using assms by (auto simp: str_ok_def str_shape_def str_val_def split: option.splits)

lemma fill_copy_value:
  assumes "str_ok src" "str_data dst = None"
  shows "\<exists>d. fill_copy (\<lambda>_. True) src dst = Some (Inr (), d) \<and> str_ok d \<and> str_own_data d \<and>
    str_val d = str_val src"
  using assms(1)
proof (cases src rule: str_okE)
  case 1
  then show ?thesis using assms(2) by (simp add: fill_copy_def str_ok_def str_shape_def str_val_def Let_def)
next
  case (2 sd)
  then show ?thesis
    by (simp add: fill_copy_def string_buf_copy_def mem_read_def mem_write_def str_ok_def str_shape_def
        str_val_def nth_append Let_def)
qed

text \<open>
  A copy has the value of its source and keeps it: \<open>prelude_string_copy_dup\<close> and
  \<open>prelude_string_clone\<close> give a string that owns its data, \<open>prelude_string_copy_ref\<close> one that does not.
\<close>

theorem copy_value:
  assumes "str_ok src"
  shows "(\<exists>d. prelude_string_copy_dup (\<lambda>_. True) src dst = Some (Inr (), d) \<and> str_ok d \<and>
      str_own_data d \<and> str_val d = str_val src) \<and>
    (\<exists>d. prelude_string_clone (\<lambda>_. True) src = Some (Inr (), Some d) \<and> str_ok d \<and>
      str_own_data d \<and> str_refcount d = 1 \<and> str_val d = str_val src) \<and>
    str_ok (prelude_string_copy_ref src dst) \<and> str_val (prelude_string_copy_ref src dst) = str_val src \<and>
    \<not> str_own_data (prelude_string_copy_ref src dst)"
proof -
  obtain d1 where "fill_copy (\<lambda>_. True) src (prelude_string_destroy_internal dst) = Some (Inr (), d1)"
    "str_ok d1" "str_own_data d1" "str_val d1 = str_val src"
    using fill_copy_value [OF assms, of "prelude_string_destroy_internal dst"]
    by (auto simp: prelude_string_destroy_internal_def)
  moreover obtain d2 where d2: "fill_copy (\<lambda>_. True) src empty_string = Some (Inr (), d2)"
    "str_ok d2" "str_own_data d2" "str_val d2 = str_val src"
    using fill_copy_value [OF assms, of empty_string] by (auto simp: empty_string_def)
  moreover have "str_refcount d2 = 1"
    using d2(1) by (auto simp: fill_copy_def string_buf_copy_def empty_string_def bind_eq_Some_conv
        Let_def split: if_splits)
  moreover have "str_ok (prelude_string_copy_ref src dst)" "str_val (prelude_string_copy_ref src dst) = str_val src"
    using assms
    by (cases "str_data src"; simp add: prelude_string_copy_ref_def str_ok_def str_shape_def str_val_def)+
  ultimately show ?thesis
    by (simp add: prelude_string_copy_dup_def prelude_string_clone_def prelude_string_new_def
        prelude_string_copy_ref_def)
qed

definition sample_string :: prelude_string where
  "sample_string = \<lparr>str_own_structure = True, str_own_data = False, str_refcount = 1,
     str_data = Some [72, 105, 0, 7, 7], str_size = 3, str_index = 2\<rparr>"

lemma sample_string_ok: "str_ok sample_string" "str_val sample_string = [72, 105]"
  by (simp_all add: sample_string_def str_ok_def str_shape_def str_val_def)

theorem copy_value_witness:
  "\<exists>d. prelude_string_clone (\<lambda>_. True) sample_string = Some (Inr (), Some d) \<and> str_ok d \<and>
      str_own_data d \<and> str_refcount d = 1 \<and> str_val d = [72, 105]"
  using copy_value [OF sample_string_ok(1), of empty_string] by (simp add: sample_string_ok)

lemma take_index_c_string:
  assumes "d ! i = 0" "i < length d" "0 \<notin> set (take i d)"
  shows "c_string d = take i d" "0 \<in> set d"
proof -
  have "d = take i d @ 0 # drop (Suc i) d" using assms by (metis id_take_nth_drop)
  moreover have "takeWhile (\<lambda>c. c \<noteq> 0) (take i d @ 0 # drop (Suc i) d) = take i d"
    using assms(3) by (subst takeWhile_append2) auto
  ultimately show "c_string d = take i d" by (simp add: c_string_def)
  show "0 \<in> set d" using assms by (metis nth_mem)
qed

text \<open>
  \<open>prelude_string_compare\<close> decides equality of the values of two strings without zero bytes
  in them: it returns 0 when they are equal and -1 when they are not.
\<close>

theorem compare_decides_equality:
  assumes "str_ok s1" "str_ok s2" "0 \<notin> set (str_val s1)" "0 \<notin> set (str_val s2)"
  shows "prelude_string_compare (Some s1) (Some s2) = Some (if str_val s1 = str_val s2 then 0 else - 1)"
proof (cases "str_index s1 = str_index s2 \<and> str_index s1 \<noteq> 0")
  case False
  then show ?thesis
    using str_ok_length [OF assms(1)] str_ok_length [OF assms(2)]
    by (auto simp: prelude_string_compare_def)
next
  case True
  have data: "\<exists>d. str_data s = Some d \<and> str_index s < length d \<and> d ! str_index s = 0 \<and>
      str_val s = take (str_index s) d" if "str_ok s" "str_index s \<noteq> 0" for s
    using that by (auto elim!: str_okE)
  obtain d1 d2 where d: "str_data s1 = Some d1" "str_index s1 < length d1" "d1 ! str_index s1 = 0"
    "str_val s1 = take (str_index s1) d1"
    "str_data s2 = Some d2" "str_index s2 < length d2" "d2 ! str_index s2 = 0"
    "str_val s2 = take (str_index s2) d2"
    using data [OF assms(1)] data [OF assms(2)] True by auto
  have "c_string d1 = str_val s1" "0 \<in> set d1" "c_string d2 = str_val s2" "0 \<in> set d2"
    using take_index_c_string [OF d(3,2)] take_index_c_string [OF d(7,6)] d assms(3,4) by auto
  then show ?thesis using True d by (simp add: prelude_string_compare_def strcmp_eq_def)
qed

theorem compare_decides_equality_witness:
  "prelude_string_compare (Some sample_string) (Some empty_string) = Some (- 1)"
  using compare_decides_equality [OF sample_string_ok(1) empty_string_ok(1)]
  by (simp add: sample_string_ok)

text \<open>
  \<open>prelude_string_truncate\<close> of a string that owns its data keeps the first \<open>len\<close> bytes. On a
  string that refers to memory of the caller it is broken: for \<open>len \<noteq> 0\<close> it copies the string to a
  block of zero bytes, outside of its bounds, and for \<open>len = 0\<close> it writes a zero to the caller's
  memory.
\<close>

theorem truncate_value:
  assumes "str_ok s" "str_data s = Some d" "len \<le> str_index s"
  shows "if str_own_data s then
      \<exists>s'. prelude_string_truncate (\<lambda>_. True) s len = Some (Inr (), s') \<and> str_ok s' \<and>
        str_val s' = take len (str_val s)
    else if len \<noteq> 0 then prelude_string_truncate (\<lambda>_. True) s len = None
    else \<exists>s'. prelude_string_truncate (\<lambda>_. True) s len = Some (Inr (), s') \<and>
        str_data s' = Some (0 # tl d) \<and> \<not> str_own_data s'"
  using assms
  by (cases d) (auto simp: prelude_string_truncate_def make_string_own_def mem_read_def mem_write_def
      str_ok_def str_shape_def str_val_def nth_append)

theorem truncate_value_witness:
  "prelude_string_truncate (\<lambda>_. True) sample_string 1 = None"
  using truncate_value [OF sample_string_ok(1), of "[72, 105, 0, 7, 7]" 1]
  by (simp add: sample_string_def)

text \<open>
  \<open>prelude_string_get_string_released\<close> of a string that owns its data hands over the value with
  its terminating zero and leaves the empty string.
\<close>

theorem released_value:
  assumes "str_ok s" "str_own_data s" "str_val s \<noteq> []"
  shows "\<exists>s'. prelude_string_get_string_released (\<lambda>_. True) s = Some (Inr (), Some (str_val s @ [0]), s') \<and>
    str_ok s' \<and> str_val s' = []"
  using assms(1)
proof (cases s rule: str_okE)
  case 1
  then show ?thesis using assms(3) by simp
next
  case (2 d)
  have "str_index s \<noteq> 0" using 2 assms(3) by auto
  moreover have "resize_block d (str_index s + 1) = take (str_index s) d @ [0]"
    using 2 by (simp add: resize_block_def take_Suc_conv_app_nth)
  ultimately show ?thesis
    using 2 assms(2)
    by (auto simp: prelude_string_get_string_released_def str_ok_def str_shape_def str_val_def)
qed

theorem released_value_witness:
  "\<exists>s'. prelude_string_get_string_released (\<lambda>_. True) (sample_string\<lparr>str_own_data := True\<rparr>) =
     Some (Inr (), Some [72, 105, 0], s') \<and> str_ok s' \<and> str_val s' = []"
proof -
  have "str_ok (sample_string\<lparr>str_own_data := True\<rparr>)" "str_val (sample_string\<lparr>str_own_data := True\<rparr>) = [72, 105]"
    by (simp_all add: sample_string_def str_ok_def str_shape_def str_val_def)
  then show ?thesis using released_value [of "sample_string\<lparr>str_own_data := True\<rparr>"] by simp
qed

end
