(* ===== verification/PList.thy ===== *)
theory PList
  imports Main
begin

text \<open>
  Doubly linked lists (\<open>src/include/prelude-list.h\<close>). The store maps the address of a node to its
  two pointers; every operation is the sequence of pointer assignments of the source, in its order.
  \<open>ring h head xs\<close> says that the nodes \<open>xs\<close> hang on \<open>head\<close> in this order, in both directions.
\<close>

section \<open>Operations\<close>

record 'p links =
  lnext :: "'p \<Rightarrow> 'p"
  lprev :: "'p \<Rightarrow> 'p"

definition set_next :: "'p \<Rightarrow> 'p \<Rightarrow> 'p links \<Rightarrow> 'p links" where
  "set_next p v h = h\<lparr>lnext := (lnext h)(p := v)\<rparr>"

definition set_prev :: "'p \<Rightarrow> 'p \<Rightarrow> 'p links \<Rightarrow> 'p links" where
  "set_prev p v h = h\<lparr>lprev := (lprev h)(p := v)\<rparr>"

definition list_splice_between :: "'p \<Rightarrow> 'p \<Rightarrow> 'p \<Rightarrow> 'p links \<Rightarrow> 'p links" where
  "list_splice_between lst prev nxt h =
     (let first = lnext h lst; last = lprev h lst in
      set_prev nxt last (set_next last nxt (set_next prev first (set_prev first prev h))))"

definition list_add_between :: "'p \<Rightarrow> 'p \<Rightarrow> 'p \<Rightarrow> 'p links \<Rightarrow> 'p links" where
  "list_add_between item prev nxt h =
     set_prev nxt item (set_next item nxt (set_prev item prev (set_next prev item h)))"

definition prelude_list_init :: "'p \<Rightarrow> 'p links \<Rightarrow> 'p links" where
  "prelude_list_init item h = set_next item item (set_prev item item h)"

definition prelude_list_is_empty :: "'p \<Rightarrow> 'p links \<Rightarrow> bool" where
  "prelude_list_is_empty item h \<longleftrightarrow> lnext h item = item"

definition prelude_list_splice :: "'p \<Rightarrow> 'p \<Rightarrow> 'p links \<Rightarrow> 'p links" where
  "prelude_list_splice head lst h =
     (if \<not> prelude_list_is_empty lst h then list_splice_between lst head (lnext h head) h else h)"

definition prelude_list_splice_tail :: "'p \<Rightarrow> 'p \<Rightarrow> 'p links \<Rightarrow> 'p links" where
  "prelude_list_splice_tail head lst h =
     (if \<not> prelude_list_is_empty lst h then list_splice_between lst (lprev h head) head h else h)"

definition prelude_list_add :: "'p \<Rightarrow> 'p \<Rightarrow> 'p links \<Rightarrow> 'p links" where
  "prelude_list_add head item h = list_add_between item head (lnext h head) h"

definition prelude_list_add_tail :: "'p \<Rightarrow> 'p \<Rightarrow> 'p links \<Rightarrow> 'p links" where
  "prelude_list_add_tail head item h = list_add_between item (lprev h head) head h"

definition prelude_list_del :: "'p \<Rightarrow> 'p links \<Rightarrow> 'p links" where
  "prelude_list_del item h =
     (let h1 = set_next (lprev h item) (lnext h item) h
      in set_prev (lnext h1 item) (lprev h1 item) h1)"

definition prelude_list_del_init :: "'p \<Rightarrow> 'p links \<Rightarrow> 'p links" where
  "prelude_list_del_init item h = prelude_list_init item (prelude_list_del item h)"

text \<open>The positions that the loops visit; a loop that never comes back to the head is \<open>None\<close>.\<close>

partial_function (option) for_each_from :: "'p \<Rightarrow> ('p \<Rightarrow> 'p) \<Rightarrow> 'p \<Rightarrow> 'p list option" where
  "for_each_from head step pos =
     (if pos = head then Some []
      else Option.bind (for_each_from head step (step pos)) (\<lambda>rest. Some (pos # rest)))"

definition prelude_list_for_each :: "'p \<Rightarrow> 'p links \<Rightarrow> 'p list option" where
  "prelude_list_for_each head h = for_each_from head (lnext h) (lnext h head)"

definition prelude_list_for_each_reversed :: "'p \<Rightarrow> 'p links \<Rightarrow> 'p list option" where
  "prelude_list_for_each_reversed head h = for_each_from head (lprev h) (lprev h head)"

section \<open>Chains and rings\<close>

fun chain :: "'p links \<Rightarrow> 'p \<Rightarrow> 'p list \<Rightarrow> 'p \<Rightarrow> bool" where
  "chain h p [] q \<longleftrightarrow> lnext h p = q \<and> lprev h q = p"
| "chain h p (x # xs) q \<longleftrightarrow> lnext h p = x \<and> lprev h x = p \<and> chain h x xs q"

definition ring :: "'p links \<Rightarrow> 'p \<Rightarrow> 'p list \<Rightarrow> bool" where
  "ring h head xs \<longleftrightarrow> distinct (head # xs) \<and> chain h head xs head"

lemma chain_append: "chain h p (xs @ y # ys) q \<longleftrightarrow> chain h p xs y \<and> chain h y ys q"
  by (induction xs arbitrary: p) auto

lemma chain_cong:
  assumes "\<And>x. x \<in> set (p # xs) \<Longrightarrow> lnext h' x = lnext h x"
    and "\<And>x. x \<in> set (xs @ [q]) \<Longrightarrow> lprev h' x = lprev h x"
  shows "chain h' p xs q = chain h p xs q"
  using assms by (induction xs arbitrary: p) auto

lemma set_next_simps [simp]:
  "lnext (set_next p v h) = (lnext h)(p := v)" "lprev (set_next p v h) = lprev h"
  by (simp_all add: set_next_def)

lemma set_prev_simps [simp]:
  "lprev (set_prev p v h) = (lprev h)(p := v)" "lnext (set_prev p v h) = lnext h"
  by (simp_all add: set_prev_def)

lemma chain_ends:
  assumes "chain h p xs q"
  shows "lnext h p = hd (xs @ [q])" "lprev h q = last (p # xs)"
  using assms by (induction xs arbitrary: p) auto

text \<open>Inserting a node between two neighbours.\<close>


lemma ring_init: "ring (prelude_list_init head h) head []"
  by (simp add: ring_def prelude_list_init_def)

lemma ring_is_empty: "ring h head xs \<Longrightarrow> prelude_list_is_empty head h \<longleftrightarrow> xs = []"
  by (cases xs) (auto simp: ring_def prelude_list_is_empty_def)

lemma for_each_from_chain:
  assumes "chain h p xs head" "head \<notin> set xs"
  shows "for_each_from head (lnext h) (lnext h p) = Some xs"
  using assms
proof (induction xs arbitrary: p)
  case Nil
  then show ?case by (subst for_each_from.simps) simp
next
  case (Cons x xs)
  then show ?case by (subst for_each_from.simps) auto
qed

lemma for_each_reversed_chain:
  assumes "chain h head xs q" "head \<notin> set xs"
  shows "for_each_from head (lprev h) (lprev h q) = Some (rev xs)"
  using assms
proof (induction xs arbitrary: q rule: rev_induct)
  case Nil
  then show ?case by (subst for_each_from.simps) simp
next
  case (snoc x xs)
  then show ?case by (subst for_each_from.simps) (auto simp: chain_append)
qed

lemma chain_set_next [simp]: "v \<notin> set (p # xs) \<Longrightarrow> chain (set_next v w h) p xs q = chain h p xs q"
  by (rule chain_cong) auto

lemma chain_set_prev [simp]: "v \<notin> set (xs @ [q]) \<Longrightarrow> chain (set_prev v w h) p xs q = chain h p xs q"
  by (rule chain_cong) auto

section \<open>The operations on rings\<close>

lemma ring_add:
  assumes "ring h head xs" "item \<notin> set (head # xs)"
  shows "ring (prelude_list_add head item h) head (item # xs)"
  using assms
  by (cases xs) (auto simp: ring_def prelude_list_add_def list_add_between_def)

lemma ring_add_tail:
  assumes "ring h head xs" "item \<notin> set (head # xs)"
  shows "ring (prelude_list_add_tail head item h) head (xs @ [item])"
  using assms
  by (cases xs rule: rev_cases)
    (auto simp: ring_def prelude_list_add_tail_def list_add_between_def chain_append)

lemma ring_del:
  assumes "ring h head (ys @ item # zs)"
  shows "ring (prelude_list_del item h) head (ys @ zs)"
  using assms
  by (cases ys rule: rev_cases; cases zs)
    (auto simp: ring_def prelude_list_del_def chain_append Let_def)

lemma ring_del_init:
  assumes "ring h head (ys @ item # zs)"
  shows "ring (prelude_list_del_init item h) head (ys @ zs)" "ring (prelude_list_del_init item h) item []"
proof -
  have "item \<notin> set (head # ys @ zs)" using assms by (auto simp: ring_def)
  then show "ring (prelude_list_del_init item h) head (ys @ zs)"
    using ring_del [OF assms]
    by (simp add: ring_def prelude_list_del_init_def prelude_list_init_def)
qed (simp add: prelude_list_del_init_def ring_init)

lemma ring_splice:
  assumes "ring h head xs" "ring h lst ys" "set (head # xs) \<inter> set (lst # ys) = {}"
  shows "ring (prelude_list_splice head lst h) head (ys @ xs)"
proof (cases ys rule: rev_cases)
  case Nil
  then show ?thesis using assms by (simp add: prelude_list_splice_def ring_is_empty)
next
  case (snoc fs l)
  then have ne: "\<not> prelude_list_is_empty lst h" using assms by (simp add: ring_is_empty)
  show ?thesis
    using assms snoc ne
    by (cases fs; cases xs)
      (auto simp: prelude_list_splice_def ring_def list_splice_between_def chain_append Let_def)
qed

lemma ring_splice_tail:
  assumes "ring h head xs" "ring h lst ys" "set (head # xs) \<inter> set (lst # ys) = {}"
  shows "ring (prelude_list_splice_tail head lst h) head (xs @ ys)"
proof (cases ys rule: rev_cases)
  case Nil
  then show ?thesis using assms by (simp add: prelude_list_splice_tail_def ring_is_empty)
next
  case (snoc fs l)
  then have ne: "\<not> prelude_list_is_empty lst h" using assms by (simp add: ring_is_empty)
  show ?thesis
    using assms snoc ne
    by (cases fs; cases xs rule: rev_cases)
      (auto simp: prelude_list_splice_tail_def ring_def list_splice_between_def chain_append Let_def)
qed

section \<open>The interface\<close>

text \<open>
  What the users of the lists rely on: a store in which sequences of nodes hang on head nodes.
  \<open>client\<close> lemmas are proved from the laws alone.
\<close>

locale list_store =
  fixes holds :: "'h \<Rightarrow> 'p \<Rightarrow> 'p list \<Rightarrow> bool"
    and init :: "'p \<Rightarrow> 'h \<Rightarrow> 'h"
    and add add_tail :: "'p \<Rightarrow> 'p \<Rightarrow> 'h \<Rightarrow> 'h"
    and del :: "'p \<Rightarrow> 'h \<Rightarrow> 'h"
    and visit :: "'p \<Rightarrow> 'h \<Rightarrow> 'p list option"
  assumes holds_init: "holds (init head h) head []"
    and holds_add: "holds h head xs \<Longrightarrow> item \<notin> set (head # xs) \<Longrightarrow> holds (add head item h) head (item # xs)"
    and holds_add_tail:
      "holds h head xs \<Longrightarrow> item \<notin> set (head # xs) \<Longrightarrow> holds (add_tail head item h) head (xs @ [item])"
    and holds_del: "holds h head (ys @ item # zs) \<Longrightarrow> holds (del item h) head (ys @ zs)"
    and holds_visit: "holds h head xs \<Longrightarrow> visit head h = Some xs"
    and holds_distinct: "holds h head xs \<Longrightarrow> distinct (head # xs)"
begin

text \<open>A queue: nodes that are added at the tail are visited in the order they came.\<close>

lemma enqueue_all:
  assumes "holds h head xs" "distinct (head # xs @ ys)"
  shows "holds (foldl (\<lambda>h y. add_tail head y h) h ys) head (xs @ ys)"
  using assms
proof (induction ys arbitrary: h xs)
  case (Cons y ys)
  then have "holds (add_tail head y h) head (xs @ [y])" by (intro holds_add_tail) auto
  with Cons show ?case by fastforce
qed simp

lemma dequeue_all:
  assumes "holds h head (xs @ ys)"
  shows "holds (foldl (\<lambda>h x. del x h) h xs) head ys"
  using assms
proof (induction xs arbitrary: h)
  case (Cons x xs)
  then show ?case using holds_del [of h head "[]" x "xs @ ys"] by simp
qed simp

lemma remove_any:
  assumes "holds h head xs" "x \<in> set xs"
  shows "holds (del x h) head (remove1 x xs)"
proof -
  obtain ys zs where "xs = ys @ x # zs" "x \<notin> set ys" using split_list_first [OF assms(2)] by blast
  then show ?thesis using holds_del assms(1) by (simp add: remove1_append)
qed

end

lemma ring_visit: "ring h head xs \<Longrightarrow> prelude_list_for_each head h = Some xs"
  by (simp add: ring_def prelude_list_for_each_def for_each_from_chain)

interpretation links: list_store ring prelude_list_init prelude_list_add prelude_list_add_tail
    prelude_list_del prelude_list_for_each
proof unfold_locales
  show "ring (prelude_list_init head h) head []" for head h by (rule ring_init)
  show "ring (prelude_list_add head item h) head (item # xs)"
    if "ring h head xs" "item \<notin> set (head # xs)" for h head xs item
    using that by (rule ring_add)
  show "ring (prelude_list_add_tail head item h) head (xs @ [item])"
    if "ring h head xs" "item \<notin> set (head # xs)" for h head xs item
    using that by (rule ring_add_tail)
  show "ring (prelude_list_del item h) head (ys @ zs)" if "ring h head (ys @ item # zs)"
    for h head ys item zs
    using that by (rule ring_del)
  show "distinct (head # xs)" if "ring h head xs" for h :: "'a links" and head xs
    using that by (simp add: ring_def)
qed (rule ring_visit)

text \<open>
  C23. The pointer operations implement sequences: inserting at the front or the end, deleting a
  node and splicing a list in have the effect of the list operation, and both directions of the loop
  visit the nodes in order.
\<close>

theorem list_operations:
  assumes "ring h head xs"
  shows "(prelude_list_is_empty head h \<longleftrightarrow> xs = []) \<and>
    prelude_list_for_each head h = Some xs \<and>
    prelude_list_for_each_reversed head h = Some (rev xs) \<and>
    (item \<notin> set (head # xs) \<longrightarrow> ring (prelude_list_add head item h) head (item # xs) \<and>
       ring (prelude_list_add_tail head item h) head (xs @ [item])) \<and>
    (x \<in> set xs \<longrightarrow> ring (prelude_list_del x h) head (remove1 x xs) \<and>
       ring (prelude_list_del_init x h) head (remove1 x xs) \<and> ring (prelude_list_del_init x h) x []) \<and>
    (ring h lst ys \<and> set (head # xs) \<inter> set (lst # ys) = {} \<longrightarrow>
       ring (prelude_list_splice head lst h) head (ys @ xs) \<and>
       ring (prelude_list_splice_tail head lst h) head (xs @ ys))"
proof -
  have "ring (prelude_list_del_init x h) head (remove1 x xs) \<and> ring (prelude_list_del_init x h) x []"
    if x: "x \<in> set xs"
  proof -
    obtain ys zs where "xs = ys @ x # zs" "x \<notin> set ys" using split_list_first [OF x] by blast
    then show ?thesis using ring_del_init [of h head ys x zs] assms by (simp add: remove1_append)
  qed
  moreover have "prelude_list_for_each_reversed head h = Some (rev xs)"
    using assms by (simp add: ring_def prelude_list_for_each_reversed_def for_each_reversed_chain)
  ultimately show ?thesis
    using ring_is_empty [OF assms] links.holds_visit [OF assms] links.holds_add [OF assms, of item]
      links.holds_add_tail [OF assms, of item] links.remove_any [OF assms, of x]
      ring_splice [OF assms, of lst ys] ring_splice_tail [OF assms, of lst ys] by blast
qed

text \<open>Witness: the ring of one node 1 on the head 0, to which 2 is added.\<close>

definition sample_links :: "nat links" where
  "sample_links = prelude_list_add_tail 0 1 (prelude_list_init 0 \<lparr>lnext = id, lprev = id\<rparr>)"

theorem list_operations_witness:
  "ring (prelude_list_add 0 2 sample_links) 0 [2, 1] \<and>
   prelude_list_for_each_reversed 0 sample_links = Some [1]"
proof -
  have r: "ring sample_links 0 [1]"
    unfolding sample_links_def
    using ring_add_tail [OF ring_init [of "0 :: nat" "\<lparr>lnext = id, lprev = id\<rparr>"], of 1] by simp
  show ?thesis using list_operations [OF r, of 2 1 0 "[]"] by simp
qed

end
