(* ===== verification/PHash.thy ===== *)
theory PHash
  imports PString
begin

text \<open>
  Hash tables (\<open>src/prelude-hash.c\<close>). A table is its array of buckets, each the list of its elements
  from the front. The hash and the comparison function are arguments. The operations that destroy
  elements also return what they handed to the destroy callbacks, in order.

  The locale \<open>hash_key\<close> states what a hash and a comparison function have to satisfy; inside of it
  the table is shown to be a map from keys to stacks of values.
\<close>

section \<open>Operations\<close>

type_synonym ('k, 'v) prelude_hash = "('k \<times> 'v) list list"

definition HASH_DEFAULT_SIZE :: nat where "HASH_DEFAULT_SIZE = 128"

text \<open>
  \<open>default_hash_func\<close> on a zero terminated key. \<open>widen\<close> converts a \<open>char\<close> to \<open>unsigned int\<close>, which
  extends the sign where \<open>char\<close> is signed.
\<close>

fun hash_chars :: "(byte \<Rightarrow> u32) \<Rightarrow> u32 \<Rightarrow> byte list \<Rightarrow> u32" where
  "hash_chars widen hv [] = hv"
| "hash_chars widen hv (c # cs) =
     (if c = 0 then hv else hash_chars widen (push_bit 5 hv - hv + widen c) cs)"

definition default_hash_func :: "(byte \<Rightarrow> u32) \<Rightarrow> byte list \<Rightarrow> u32" where
  "default_hash_func widen key =
     (case key of [] \<Rightarrow> 0 | c # cs \<Rightarrow> let hv = widen c in if hv \<noteq> 0 then hash_chars widen hv cs else hv)"

definition default_key_cmp_func :: "byte list \<Rightarrow> byte list \<Rightarrow> bool" where
  "default_key_cmp_func key1 key2 \<longleftrightarrow> c_string key1 = c_string key2"

definition prelude_hash_new2 :: "(nat \<Rightarrow> bool) \<Rightarrow> nat \<Rightarrow> ('k, 'v) prelude_hash result" where
  "prelude_hash_new2 mem_ok lists_size =
     (if \<not> mem_ok lists_size then Inl PRELUDE_ERROR_ENOMEM else Inr (replicate lists_size []))"

definition prelude_hash_new :: "(nat \<Rightarrow> bool) \<Rightarrow> ('k, 'v) prelude_hash result" where
  "prelude_hash_new mem_ok = prelude_hash_new2 mem_ok HASH_DEFAULT_SIZE"

definition hash_value_calc :: "('k \<Rightarrow> u32) \<Rightarrow> ('k, 'v) prelude_hash \<Rightarrow> 'k \<Rightarrow> nat" where
  "hash_value_calc hf h key = unat (hf key) mod length h"

definition hash_elem_get :: "('k \<Rightarrow> u32) \<Rightarrow> ('k \<Rightarrow> 'k \<Rightarrow> bool) \<Rightarrow> ('k, 'v) prelude_hash \<Rightarrow> 'k
    \<Rightarrow> ('k \<times> 'v) option" where
  "hash_elem_get hf same h key = find (\<lambda>e. same key (fst e)) (h ! hash_value_calc hf h key)"

definition prelude_hash_add ::
  "('k \<Rightarrow> u32) \<Rightarrow> (nat \<Rightarrow> bool) \<Rightarrow> ('k, 'v) prelude_hash \<Rightarrow> 'k \<Rightarrow> 'v \<Rightarrow> bool result \<times> ('k, 'v) prelude_hash" where
  "prelude_hash_add hf mem_ok h key value =
     (if \<not> mem_ok 0 then (Inl PRELUDE_ERROR_ENOMEM, h)
      else let i = hash_value_calc hf h key in (Inr True, h[i := (key, value) # h ! i]))"

text \<open>The first element of a bucket with the key gets its new key and value.\<close>

fun replace_first :: "('a \<Rightarrow> bool) \<Rightarrow> 'a \<Rightarrow> 'a list \<Rightarrow> 'a list" where
  "replace_first P y [] = []"
| "replace_first P y (x # xs) = (if P x then y # xs else x # replace_first P y xs)"

fun delete_first :: "('a \<Rightarrow> bool) \<Rightarrow> 'a list \<Rightarrow> 'a list" where
  "delete_first P [] = []"
| "delete_first P (x # xs) = (if P x then xs else x # delete_first P xs)"

definition prelude_hash_set ::
  "('k \<Rightarrow> u32) \<Rightarrow> ('k \<Rightarrow> 'k \<Rightarrow> bool) \<Rightarrow> (nat \<Rightarrow> bool) \<Rightarrow> ('k, 'v) prelude_hash \<Rightarrow> 'k \<Rightarrow> 'v
     \<Rightarrow> bool result \<times> ('k, 'v) prelude_hash \<times> ('k \<times> 'v) list" where
  "prelude_hash_set hf same mem_ok h key value =
     (case hash_elem_get hf same h key of
        Some e \<Rightarrow>
          let i = hash_value_calc hf h key
          in (Inr False, h[i := replace_first (\<lambda>e. same key (fst e)) (key, value) (h ! i)], [e])
      | None \<Rightarrow> (case prelude_hash_add hf mem_ok h key value of (r, h') \<Rightarrow> (r, h', [])))"

definition prelude_hash_get ::
  "('k \<Rightarrow> u32) \<Rightarrow> ('k \<Rightarrow> 'k \<Rightarrow> bool) \<Rightarrow> ('k, 'v) prelude_hash \<Rightarrow> 'k \<Rightarrow> 'v option" where
  "prelude_hash_get hf same h key = map_option snd (hash_elem_get hf same h key)"

definition prelude_hash_elem_destroy ::
  "('k \<Rightarrow> u32) \<Rightarrow> ('k \<Rightarrow> 'k \<Rightarrow> bool) \<Rightarrow> ('k, 'v) prelude_hash \<Rightarrow> 'k
     \<Rightarrow> int \<times> ('k, 'v) prelude_hash \<times> ('k \<times> 'v) list" where
  "prelude_hash_elem_destroy hf same h key =
     (case hash_elem_get hf same h key of
        None \<Rightarrow> (- 1, h, [])
      | Some e \<Rightarrow>
          let i = hash_value_calc hf h key
          in (0, h[i := delete_first (\<lambda>e. same key (fst e)) (h ! i)], [e]))"

definition prelude_hash_iterate :: "('k, 'v) prelude_hash \<Rightarrow> 'v list" where
  "prelude_hash_iterate h = concat (map (map snd) h)"

definition prelude_hash_destroy :: "('k, 'v) prelude_hash \<Rightarrow> ('k \<times> 'v) list" where
  "prelude_hash_destroy h = concat h"

section \<open>Tables as maps\<close>

lemma find_replace_first:
  assumes "find P xs = Some x" "P y"
  shows "find P (replace_first P y xs) = Some y"
  using assms by (induction xs) (auto split: if_splits)

lemma find_replace_other:
  assumes "\<And>z. P z \<Longrightarrow> \<not> Q z" "\<not> Q y"
  shows "find Q (replace_first P y xs) = find Q xs"
  using assms by (induction xs) auto

lemma find_delete_other:
  assumes "\<And>z. P z \<Longrightarrow> \<not> Q z"
  shows "find Q (delete_first P xs) = find Q xs"
  using assms by (induction xs) auto

text \<open>The values under a key, newest first.\<close>

definition hash_values :: "('k \<Rightarrow> 'k \<Rightarrow> bool) \<Rightarrow> ('k, 'v) prelude_hash \<Rightarrow> 'k \<Rightarrow> 'v list" where
  "hash_values same h key = map snd (filter (\<lambda>e. same key (fst e)) (concat h))"

text \<open>Every element is in the bucket of its key.\<close>

definition hash_ok :: "('k \<Rightarrow> u32) \<Rightarrow> ('k, 'v) prelude_hash \<Rightarrow> bool" where
  "hash_ok hf h \<longleftrightarrow> h \<noteq> [] \<and> (\<forall>i < length h. \<forall>e \<in> set (h ! i). hash_value_calc hf h (fst e) = i)"

locale hash_key =
  fixes hf :: "'k \<Rightarrow> u32" and same :: "'k \<Rightarrow> 'k \<Rightarrow> bool"
  assumes same_refl: "same k k"
    and same_sym: "same k l \<Longrightarrow> same l k"
    and same_trans: "same k l \<Longrightarrow> same l m \<Longrightarrow> same k m"
    and same_hash: "same k l \<Longrightarrow> hf k = hf l"
begin

lemma bucket_index: "hash_ok hf h \<Longrightarrow> hash_value_calc hf h k < length h"
  by (simp add: hash_ok_def hash_value_calc_def)

lemma hash_ok_update:
  assumes "hash_ok hf h" "\<And>e. e \<in> set b \<Longrightarrow> e \<in> set (h ! i) \<or> hash_value_calc hf h (fst e) = i"
  shows "hash_ok hf (h[i := b])"
proof (cases "i < length h")
  case True
  show ?thesis
    unfolding hash_ok_def
  proof (intro conjI allI impI ballI)
    show "h[i := b] \<noteq> []" using assms(1) by (auto simp: hash_ok_def)
    fix j e assume "j < length (h[i := b])" "e \<in> set (h[i := b] ! j)"
    then show "hash_value_calc hf (h[i := b]) (fst e) = j"
      using assms(1) assms(2) [of e] True by (cases "j = i") (auto simp: hash_ok_def hash_value_calc_def)
  qed
next
  case False
  then have "h[i := b] = h" by (simp add: list_update_beyond)
  then show ?thesis using assms(1) by simp
qed

lemma set_replace_first: "set (replace_first P y xs) \<subseteq> insert y (set xs)"
  by (induction xs) auto

lemma set_delete_first: "set (delete_first P xs) \<subseteq> set xs"
  by (induction xs) auto

lemma add_ok: "hash_ok hf h \<Longrightarrow> hash_ok hf (snd (prelude_hash_add hf mem_ok h k v))"
  by (auto simp: prelude_hash_add_def Let_def intro!: hash_ok_update)

lemma set_ok: "hash_ok hf h \<Longrightarrow> hash_ok hf (fst (snd (prelude_hash_set hf same mem_ok h k v)))"
  using add_ok [of h mem_ok k v] set_replace_first
  by (fastforce simp: prelude_hash_set_def Let_def split: option.split prod.split intro!: hash_ok_update)

lemma elem_destroy_ok: "hash_ok hf h \<Longrightarrow> hash_ok hf (fst (snd (prelude_hash_elem_destroy hf same h k)))"
  using set_delete_first
  by (fastforce simp: prelude_hash_elem_destroy_def Let_def split: option.split intro!: hash_ok_update)

lemma same_bucket: "same k l \<Longrightarrow> hash_value_calc hf h k = hash_value_calc hf h l"
  using same_hash [of k l] by (simp add: hash_value_calc_def)

lemma values_bucket:
  assumes "hash_ok hf h"
  shows "hash_values same h k = map snd (filter (\<lambda>e. same k (fst e)) (h ! hash_value_calc hf h k))"
proof -
  let ?i = "hash_value_calc hf h k" and ?P = "\<lambda>e. same k (fst e)"
  have i: "?i < length h" using bucket_index assms .
  have none: "filter ?P (concat hs) = []" if "\<And>b. b \<in> set hs \<Longrightarrow> \<exists>j < length h. j \<noteq> ?i \<and> b = h ! j" for hs
  proof -
    have "\<not> ?P e" if "b \<in> set hs" "e \<in> set b" for b e
      using \<open>\<And>b. b \<in> set hs \<Longrightarrow> _ b\<close> [OF that(1)] that(2) assms same_bucket [of k "fst e" h]
      by (auto simp: hash_ok_def)
    then show ?thesis by (auto simp: filter_empty_conv)
  qed
  have "h = take ?i h @ h ! ?i # drop (Suc ?i) h" using i by (rule id_take_nth_drop)
  then have "filter ?P (concat h) =
      filter ?P (concat (take ?i h)) @ filter ?P (h ! ?i) @ filter ?P (concat (drop (Suc ?i) h))"
    by (metis concat.simps(2) concat_append filter_append)
  moreover have "filter ?P (concat (take ?i h)) = []"
  proof (rule none)
    fix b assume "b \<in> set (take ?i h)"
    then obtain j where "j < ?i" "b = h ! j" by (auto simp: in_set_conv_nth)
    then show "\<exists>j < length h. j \<noteq> ?i \<and> b = h ! j" using i by (intro exI [of _ j]) simp
  qed
  moreover have "filter ?P (concat (drop (Suc ?i) h)) = []"
  proof (rule none)
    fix b assume "b \<in> set (drop (Suc ?i) h)"
    then obtain j where "j < length h - Suc ?i" "b = h ! (Suc ?i + j)" by (auto simp: in_set_conv_nth)
    then show "\<exists>j < length h. j \<noteq> ?i \<and> b = h ! j" using i by (intro exI [of _ "Suc ?i + j"]) simp
  qed
  ultimately show ?thesis by (simp add: hash_values_def)
qed

lemma get_values:
  assumes "hash_ok hf h"
  shows "prelude_hash_get hf same h k = (case hash_values same h k of [] \<Rightarrow> None | v # _ \<Rightarrow> Some v)"
proof -
  have "map_option snd (find P xs) = (case map snd (filter P xs) of [] \<Rightarrow> None | v # _ \<Rightarrow> Some v)"
    for P and xs :: "('k \<times> 'v) list"
    by (induction xs) auto
  then show ?thesis
    using assms by (simp add: prelude_hash_get_def hash_elem_get_def values_bucket)
qed

text \<open>Changing the bucket of a key changes the values of that key only.\<close>

lemma values_update:
  assumes "hash_ok hf h" "hash_ok hf (h[hash_value_calc hf h k := b])"
  shows "hash_values same (h[hash_value_calc hf h k := b]) l =
    (if hash_value_calc hf h l = hash_value_calc hf h k then map snd (filter (\<lambda>e. same l (fst e)) b)
     else hash_values same h l)"
proof -
  have idx: "hash_value_calc hf (h[i := c]) l = hash_value_calc hf h l" for i c
    by (simp add: hash_value_calc_def)
  show ?thesis
    using bucket_index [OF assms(1), of k] unfolding values_bucket [OF assms(2)] values_bucket [OF assms(1)] idx
    by simp
qed

lemma filter_replace_first:
  assumes "find P xs = Some x" "P y"
  shows "filter P (replace_first P y xs) = y # tl (filter P xs)"
  using assms by (induction xs) (auto split: if_splits)

lemma filter_replace_other:
  assumes "\<And>z. P z \<Longrightarrow> \<not> Q z" "\<not> Q y"
  shows "filter Q (replace_first P y xs) = filter Q xs"
  using assms by (induction xs) auto

lemma filter_delete_first: "filter P (delete_first P xs) = tl (filter P xs)"
  by (induction xs) auto

lemma filter_delete_other:
  assumes "\<And>z. P z \<Longrightarrow> \<not> Q z"
  shows "filter Q (delete_first P xs) = filter Q xs"
  using assms by (induction xs) auto

lemma same_cong: "same k l \<Longrightarrow> same k m \<longleftrightarrow> same l m"
  using same_trans same_sym by blast

lemma find_Some_values:
  assumes "hash_ok hf h"
  shows "hash_elem_get hf same h k = None \<longleftrightarrow> hash_values same h k = []"
  using assms by (auto simp: hash_elem_get_def values_bucket find_None_iff filter_empty_conv)

lemma values_cong:
  assumes "same k l"
  shows "hash_values same h l = hash_values same h k"
  using same_cong [OF assms] by (simp add: hash_values_def)

lemma add_values:
  assumes "hash_ok hf h"
  shows "hash_values same (snd (prelude_hash_add hf (\<lambda>_. True) h k v)) l =
    (if same k l then v # hash_values same h l else hash_values same h l)"
proof -
  let ?i = "hash_value_calc hf h k"
  have ok: "hash_ok hf (h[?i := (k, v) # h ! ?i])"
    using add_ok [OF assms, of "\<lambda>_. True" k v] by (simp add: prelude_hash_add_def Let_def)
  show ?thesis
    using values_update [OF assms ok, of l] values_bucket [OF assms, of l] same_bucket [of k l h] same_sym
    by (auto simp: prelude_hash_add_def Let_def)
qed

lemma set_values:
  assumes "hash_ok hf h"
  shows "hash_values same (fst (snd (prelude_hash_set hf same (\<lambda>_. True) h k v))) l =
    (if same k l then v # tl (hash_values same h l) else hash_values same h l)"
proof (cases "hash_elem_get hf same h k")
  case None
  then have "same k l \<Longrightarrow> hash_values same h l = []"
    using find_Some_values [OF assms, of k] values_cong [of k l h] by simp
  then show ?thesis
    using None add_values [OF assms, of k v l]
    by (auto simp: prelude_hash_set_def split: prod.splits)
next
  case (Some e)
  let ?i = "hash_value_calc hf h k"
  let ?b = "replace_first (\<lambda>e. same k (fst e)) (k, v) (h ! ?i)"
  have ok: "hash_ok hf (h[?i := ?b])"
    using set_ok [OF assms, of "\<lambda>_. True" k v] Some by (simp add: prelude_hash_set_def Let_def)
  have eq: "(\<lambda>e :: 'k \<times> 'v. same l (fst e)) = (\<lambda>e. same k (fst e))" if "same k l"
    using same_cong [OF that] by simp
  have f: "find (\<lambda>e. same k (fst e)) (h ! ?i) = Some e" using Some by (simp add: hash_elem_get_def)
  have new: "map snd (filter (\<lambda>e. same k (fst e)) ?b) = v # tl (hash_values same h k)"
    using filter_replace_first [OF f, of "(k, v)"] same_refl values_bucket [OF assms, of k]
    by (simp add: map_tl)
  have old: "filter (\<lambda>e. same l (fst e)) ?b = filter (\<lambda>e. same l (fst e)) (h ! ?i)" if "\<not> same k l"
  proof (rule filter_replace_other)
    show "\<not> same l (fst z)" if "same k (fst z)" for z
      using \<open>\<not> same k l\<close> same_trans [OF that] same_sym [of l "fst z"] by blast
    show "\<not> same l (fst (k, v))" using that same_sym [of l k] by auto
  qed
  have "hash_values same (h[?i := ?b]) l =
      (if same k l then v # tl (hash_values same h l) else hash_values same h l)"
  proof (cases "same k l")
    case True
    then show ?thesis
      unfolding values_update [OF assms ok] values_cong [OF True] eq [OF True] using same_bucket [OF True, of h] new by simp
  next
    case False
    then show ?thesis
      unfolding values_update [OF assms ok] using old [OF False] values_bucket [OF assms, of l] by simp
  qed
  then show ?thesis using Some by (simp add: prelude_hash_set_def Let_def)
qed

lemma destroy_values:
  assumes "hash_ok hf h"
  shows "hash_values same (fst (snd (prelude_hash_elem_destroy hf same h k))) l =
    (if same k l then tl (hash_values same h l) else hash_values same h l)"
proof (cases "hash_elem_get hf same h k")
  case None
  then have "same k l \<Longrightarrow> hash_values same h l = []"
    using find_Some_values [OF assms, of k] values_cong [of k l h] by simp
  then show ?thesis using None by (auto simp: prelude_hash_elem_destroy_def)
next
  case (Some e)
  let ?i = "hash_value_calc hf h k"
  let ?b = "delete_first (\<lambda>e. same k (fst e)) (h ! ?i)"
  have ok: "hash_ok hf (h[?i := ?b])"
    using elem_destroy_ok [OF assms, of k] Some by (simp add: prelude_hash_elem_destroy_def Let_def)
  have eq: "(\<lambda>e :: 'k \<times> 'v. same l (fst e)) = (\<lambda>e. same k (fst e))" if "same k l"
    using same_cong [OF that] by simp
  have new: "map snd (filter (\<lambda>e. same k (fst e)) ?b) = tl (hash_values same h k)"
    using values_bucket [OF assms, of k] by (simp add: filter_delete_first map_tl)
  have old: "\<not> same k l \<Longrightarrow> filter (\<lambda>e. same l (fst e)) ?b = filter (\<lambda>e. same l (fst e)) (h ! ?i)"
    by (rule filter_delete_other) (meson same_trans same_sym)
  have "hash_values same (h[?i := ?b]) l =
      (if same k l then tl (hash_values same h l) else hash_values same h l)"
  proof (cases "same k l")
    case True
    then show ?thesis
      unfolding values_update [OF assms ok] values_cong [OF True] eq [OF True] using same_bucket [OF True, of h] new by simp
  next
    case False
    then show ?thesis
      unfolding values_update [OF assms ok] using old [OF False] values_bucket [OF assms, of l] by simp
  qed
  then show ?thesis using Some by (simp add: prelude_hash_elem_destroy_def Let_def)
qed

lemma new_ok: "0 < n \<Longrightarrow> hash_ok hf (replicate n [])"
  by (simp add: hash_ok_def)

text \<open>The table as a map, on the operations themselves.\<close>

lemma get_after:
  assumes "hash_ok hf h"
  shows "prelude_hash_get hf same (fst (snd (prelude_hash_set hf same (\<lambda>_. True) h k v))) l =
      (if same k l then Some v else prelude_hash_get hf same h l)"
    and "prelude_hash_get hf same (snd (prelude_hash_add hf (\<lambda>_. True) h k v)) l =
      (if same k l then Some v else prelude_hash_get hf same h l)"
    and "prelude_hash_get hf same (fst (snd (prelude_hash_elem_destroy hf same h k))) l =
      (if same k l then (case tl (hash_values same h l) of [] \<Rightarrow> None | w # _ \<Rightarrow> Some w)
       else prelude_hash_get hf same h l)"
  using assms
  by (simp_all add: get_values set_values add_values destroy_values set_ok add_ok elem_destroy_ok
      split: list.split)

end

section \<open>The default functions\<close>

lemma hash_chars_c_string: "hash_chars widen hv key = hash_chars widen hv (c_string key)"
  by (induction key arbitrary: hv) (auto simp: c_string_def)

lemma default_hash_c_string:
  assumes "\<And>c. widen c = 0 \<longleftrightarrow> c = 0"
  shows "default_hash_func widen key = default_hash_func widen (c_string key)"
proof (cases key)
  case (Cons c cs)
  then show ?thesis
    using assms [of c] hash_chars_c_string [of widen "widen c" cs]
    by (auto simp: default_hash_func_def c_string_def Let_def)
qed (simp add: c_string_def)

lemma default_hash_key:
  assumes "\<And>c. widen c = 0 \<longleftrightarrow> c = 0"
  shows "hash_key (default_hash_func widen) default_key_cmp_func"
  using default_hash_c_string [OF assms]
  by unfold_locales (auto simp: default_key_cmp_func_def, metis)

lemma widen_signed: "(scast (c :: byte) :: u32) = 0 \<longleftrightarrow> c = 0"
proof
  assume z: "(scast c :: u32) = 0"
  show "c = 0"
  proof (rule bit_word_eqI)
    fix n assume "n < LENGTH(8)"
    then have "bit (scast c :: u32) n = bit c n" by (simp add: bit_simps)
    then show "bit c n = bit 0 n" using z by simp
  qed
qed simp

lemma widen_unsigned: "(ucast (c :: byte) :: u32) = 0 \<longleftrightarrow> c = 0"
proof -
  have "unat c < 2 ^ 32" using unsigned_less [where ?'a = nat, of c] by simp
  then show ?thesis
    by (simp add: word_unat_eq_iff [of "ucast c :: u32"] unsigned_ucast_eq word_unat_eq_iff [of c]
        take_bit_nat_eq_self)
qed

interpretation signed_keys: hash_key "default_hash_func scast" default_key_cmp_func
  by (rule default_hash_key) (rule widen_signed)

interpretation unsigned_keys: hash_key "default_hash_func ucast" default_key_cmp_func
  by (rule default_hash_key) (rule widen_unsigned)

text \<open>
  C8. With the default hash and comparison functions (on hosts where \<open>char\<close> is signed and where it is
  not) a table is a map from strings to values. \<open>prelude_hash_set\<close> and \<open>prelude_hash_add\<close> make the new
  value the value of the key and leave all other keys alone; \<open>prelude_hash_elem_destroy\<close> takes the
  newest value of the key away, so that a value which \<open>prelude_hash_add\<close> covered is seen again. All
  three keep every element in the bucket of its key.
\<close>

theorem hash_is_map:
  fixes h :: "(byte list, 'v) prelude_hash" and k l :: "byte list" and v :: 'v
  assumes "widen = scast \<or> widen = ucast" "hf = default_hash_func widen" "same = default_key_cmp_func"
    and "hash_ok hf h"
  defines "h_set \<equiv> fst (snd (prelude_hash_set hf same (\<lambda>_. True) h k v))"
    and "h_add \<equiv> snd (prelude_hash_add hf (\<lambda>_. True) h k v)"
    and "h_del \<equiv> fst (snd (prelude_hash_elem_destroy hf same h k))"
  shows "hash_ok hf h_set \<and> hash_ok hf h_add \<and> hash_ok hf h_del \<and>
    prelude_hash_get hf same h_set l =
      (if c_string k = c_string l then Some v else prelude_hash_get hf same h l) \<and>
    prelude_hash_get hf same h_add l =
      (if c_string k = c_string l then Some v else prelude_hash_get hf same h l) \<and>
    hash_values same h_add l = (if c_string k = c_string l then v # hash_values same h l else hash_values same h l) \<and>
    hash_values same h_del l = (if c_string k = c_string l then tl (hash_values same h l) else hash_values same h l)"
  using assms(1)
proof
  assume w: "widen = scast"
  note ok = assms(4) [unfolded assms(2) w]
  show ?thesis
    unfolding h_set_def h_add_def h_del_def assms(2,3) w
    by (simp add: signed_keys.get_after [OF ok] signed_keys.add_values [OF ok] signed_keys.destroy_values [OF ok]
        signed_keys.set_ok [OF ok] signed_keys.add_ok [OF ok] signed_keys.elem_destroy_ok [OF ok]
        default_key_cmp_func_def)
next
  assume w: "widen = ucast"
  note ok = assms(4) [unfolded assms(2) w]
  show ?thesis
    unfolding h_set_def h_add_def h_del_def assms(2,3) w
    by (simp add: unsigned_keys.get_after [OF ok] unsigned_keys.add_values [OF ok]
        unsigned_keys.destroy_values [OF ok] unsigned_keys.set_ok [OF ok] unsigned_keys.add_ok [OF ok]
        unsigned_keys.elem_destroy_ok [OF ok] default_key_cmp_func_def)
qed

theorem hash_is_map_witness:
  "prelude_hash_get (default_hash_func scast) default_key_cmp_func
     (fst (snd (prelude_hash_set (default_hash_func scast) default_key_cmp_func (\<lambda>_. True)
        (replicate 128 []) [97, 0] (5 :: nat)))) [97, 0, 3] = Some 5"
proof -
  have "hash_ok (default_hash_func scast) (replicate 128 [] :: (byte list, nat) prelude_hash)"
    by (rule signed_keys.new_ok) simp
  then show ?thesis
    using hash_is_map [of scast "default_hash_func scast" default_key_cmp_func "replicate 128 []"
        "[97, 0]" "5 :: nat" "[97, 0, 3]"]
    by (simp add: c_string_def)
qed

end
