(* ===== verification/Timer.thy ===== *)
theory Timer
  imports Main
begin

text \<open>
  Timers (\<open>src/prelude-timer.c\<close>): a list of timers sorted by expiry, searched from the nearer end on
  insertion. Times are unbounded integers, a timer is named by \<open>'t\<close>, and every operation runs under the
  lock of the source, so it is one step. \<open>now\<close> is what \<open>time\<close> returned; the callbacks of the timers
  are an argument \<open>cb\<close> that may change the state (destroy or reset timers). \<open>None\<close> is an \<open>abort\<close>, a
  failed \<open>assert\<close>, or a walk that does not end.
\<close>

declare Option.bind_cong [fundef_cong]

section \<open>State\<close>

record 't timers =
  tm_list :: "'t list"
  tm_expire :: "'t \<Rightarrow> int"
  tm_start_time :: "'t \<Rightarrow> int"
  tm_next_wakeup :: int
  tm_last_wakeup :: int

definition time_elapsed :: "'t timers \<Rightarrow> 't \<Rightarrow> int \<Rightarrow> int" where
  "time_elapsed s t now = now - tm_start_time s t"

definition time_remaining :: "'t timers \<Rightarrow> 't \<Rightarrow> int \<Rightarrow> int" where
  "time_remaining s t now = tm_expire s t - time_elapsed s t now"

abbreviation due :: "'t timers \<Rightarrow> 't \<Rightarrow> int" where
  "due s t \<equiv> tm_start_time s t + tm_expire s t"

section \<open>Insertion\<close>

fun search_previous_forward :: "'t timers \<Rightarrow> int \<Rightarrow> 't option \<Rightarrow> 't list \<Rightarrow> 't option" where
  "search_previous_forward s expire prev [] = None"
| "search_previous_forward s expire prev (cur # ts) =
     (if due s cur < expire then search_previous_forward s expire (Some cur) ts
      else if due s cur = expire then Some cur
      else prev)"

text \<open>The argument is the list from its end.\<close>

fun search_previous_backward :: "'t timers \<Rightarrow> int \<Rightarrow> 't list \<Rightarrow> 't option" where
  "search_previous_backward s expire [] = None"
| "search_previous_backward s expire (cur # ts) =
     (if due s cur \<le> expire then Some cur else search_previous_backward s expire ts)"

text \<open>Behind which timer to insert: \<open>Some None\<close> is the head of the list.\<close>

definition search_previous_timer :: "'t timers \<Rightarrow> 't \<Rightarrow> 't option option" where
  "search_previous_timer s t =
     (let lst = last (tm_list s); first = hd (tm_list s); start = tm_start_time s t in
      if time_remaining s lst start \<le> tm_expire s t then Some (Some lst)
      else if tm_expire s t \<le> time_remaining s first start then Some None
      else
        let last_remaining = time_remaining s lst start;
            first_remaining = time_remaining s first start
        in map_option Some
          (if tm_expire s t - first_remaining < last_remaining - tm_expire s t
           then search_previous_forward s (tm_expire s t + start) None (tm_list s)
           else search_previous_backward s (tm_expire s t + start) (rev (tm_list s))))"

fun insert_behind :: "'t option \<Rightarrow> 't \<Rightarrow> 't list \<Rightarrow> 't list" where
  "insert_behind None t ts = t # ts"
| "insert_behind (Some p) t [] = []"
| "insert_behind (Some p) t (x # ts) = (if x = p then x # t # ts else x # insert_behind (Some p) t ts)"

definition timer_destroy_unlocked :: "'t \<Rightarrow> 't timers \<Rightarrow> 't timers" where
  "timer_destroy_unlocked t s = s\<lparr>tm_list := remove1 t (tm_list s)\<rparr>"

definition timer_init_unlocked :: "int \<Rightarrow> 't \<Rightarrow> 't timers \<Rightarrow> 't timers option" where
  "timer_init_unlocked now t s =
     (let s1 = s\<lparr>tm_start_time := (tm_start_time s)(t := now)\<rparr> in
      map_option (\<lambda>prev. s1\<lparr>tm_list := insert_behind prev t (tm_list s1),
                           tm_next_wakeup := min (tm_next_wakeup s1) (tm_expire s1 t)\<rparr>)
        (if tm_list s1 \<noteq> [] then search_previous_timer s1 t else Some None))"

definition prelude_timer_init where "prelude_timer_init = timer_init_unlocked"

definition prelude_timer_destroy where "prelude_timer_destroy = timer_destroy_unlocked"

definition prelude_timer_reset :: "int \<Rightarrow> 't \<Rightarrow> 't timers \<Rightarrow> 't timers option" where
  "prelude_timer_reset now t s = timer_init_unlocked now t (timer_destroy_unlocked t s)"

section \<open>Waking up\<close>

text \<open>
  The result tells whether the timer has fired, or gives the time until it will. The callback gets the
  state in which \<open>start_time\<close> is -1.
\<close>

definition wake_up_if_needed ::
  "('t \<Rightarrow> 't timers \<Rightarrow> 't timers option) \<Rightarrow> 't \<Rightarrow> int \<Rightarrow> 't timers \<Rightarrow> (int \<times> 't timers) option" where
  "wake_up_if_needed cb t now s =
     (if tm_start_time s t = - 1 then None
      else if now = - 1 \<or> tm_expire s t \<le> time_elapsed s t now
      then map_option (\<lambda>s'. (0, s')) (cb t (s\<lparr>tm_start_time := (tm_start_time s)(t := - 1)\<rparr>))
      else Some (time_remaining s t now, s))"

definition get_next_timer :: "'t timers \<Rightarrow> 't option" where
  "get_next_timer s = (case tm_list s of [] \<Rightarrow> None | t # _ \<Rightarrow> Some t)"

text \<open>The walk also returns the timers that it woke up, in order.\<close>

partial_function (option) walk_and_wake_up_timer ::
  "('t \<Rightarrow> 't timers \<Rightarrow> 't timers option) \<Rightarrow> int \<Rightarrow> 't timers \<Rightarrow> ('t list \<times> 't timers) option"
where
  "walk_and_wake_up_timer cb now s =
     (case get_next_timer s of
        None \<Rightarrow> Some ([], s)
      | Some t \<Rightarrow>
          Option.bind (wake_up_if_needed cb t now s) (\<lambda>r.
            if fst r \<noteq> 0 then Some ([], (snd r)\<lparr>tm_next_wakeup := fst r\<rparr>)
            else Option.bind (walk_and_wake_up_timer cb now (snd r)) (\<lambda>w. Some (t # fst w, snd w))))"

definition prelude_timer_wake_up ::
  "('t \<Rightarrow> 't timers \<Rightarrow> 't timers option) \<Rightarrow> int \<Rightarrow> 't timers \<Rightarrow> (int \<times> 't list \<times> 't timers) option" where
  "prelude_timer_wake_up cb now s =
     (if tm_next_wakeup s \<le> now - tm_last_wakeup s
      then map_option (\<lambda>(woke, s'). (tm_next_wakeup s', woke, s'\<lparr>tm_last_wakeup := now\<rparr>))
             (walk_and_wake_up_timer cb now s)
      else Some (tm_next_wakeup s, [], s))"

definition prelude_timer_flush ::
  "('t \<Rightarrow> 't timers \<Rightarrow> 't timers option) \<Rightarrow> 't timers \<Rightarrow> ('t list \<times> 't timers) option" where
  "prelude_timer_flush cb s = walk_and_wake_up_timer cb (- 1) s"

text \<open>A forked child starts with an empty list.\<close>

definition prelude_timer_fork_child :: "'t timers \<Rightarrow> 't timers" where
  "prelude_timer_fork_child s = s\<lparr>tm_list := []\<rparr>"

section \<open>Insertion keeps the list sorted\<close>

definition timers_sorted :: "'t timers \<Rightarrow> bool" where
  "timers_sorted s \<longleftrightarrow> distinct (tm_list s) \<and> sorted (map (due s) (tm_list s))"

lemma time_remaining_due: "time_remaining s t now = due s t - now"
  by (simp add: time_remaining_def time_elapsed_def)

lemma insert_behind_split:
  assumes "p \<notin> set ys"
  shows "insert_behind (Some p) t (ys @ p # zs) = ys @ p # t # zs"
  using assms by (induction ys) auto

text \<open>The two searches find the same kind of gap: nothing later before it, nothing earlier behind it.\<close>

lemma search_forward_gap:
  assumes "sorted (map (due s) ts)" "\<forall>x \<in> set ps. due s x < e" "prev = (if ps = [] then None else Some (last ps))"
    and "\<exists>x \<in> set (ps @ ts). due s x \<le> e" "\<exists>x \<in> set ts. e \<le> due s x"
  shows "\<exists>p ys zs. search_previous_forward s e prev ts = Some p \<and> ps @ ts = ys @ p # zs \<and>
    (\<forall>x \<in> set (ys @ [p]). due s x \<le> e) \<and> (\<forall>x \<in> set zs. e \<le> due s x)"
  using assms
proof (induction ts arbitrary: ps prev)
  case (Cons c ts)
  show ?case
  proof (cases "due s c < e")
    case True
    have "\<exists>p ys zs. search_previous_forward s e (Some c) ts = Some p \<and> (ps @ [c]) @ ts = ys @ p # zs \<and>
      (\<forall>x \<in> set (ys @ [p]). due s x \<le> e) \<and> (\<forall>x \<in> set zs. e \<le> due s x)"
    proof (rule Cons.IH)
      show "sorted (map (due s) ts)" "\<forall>x \<in> set (ps @ [c]). due s x < e"
        "Some c = (if ps @ [c] = [] then None else Some (last (ps @ [c])))"
        "\<exists>x \<in> set ((ps @ [c]) @ ts). due s x \<le> e" "\<exists>x \<in> set ts. e \<le> due s x"
        using Cons.prems True by auto
    qed
    then show ?thesis using True by simp
  next
    case False
    show ?thesis
    proof (cases "due s c = e")
      case True
      then show ?thesis
        using Cons.prems by (intro exI [of _ c] exI [of _ ps] exI [of _ ts]) (auto simp: less_imp_le)
    next
      case later: False
      then have "ps \<noteq> []" using Cons.prems False by auto
      moreover have "\<forall>x \<in> set (c # ts). e \<le> due s x" using Cons.prems(1) False by auto
      ultimately show ?thesis
        using Cons.prems False later
        by (intro exI [of _ "last ps"] exI [of _ "butlast ps"] exI [of _ "c # ts"])
          (auto simp: less_imp_le in_set_butlastD)
    qed
  qed
qed auto

lemma search_backward_gap:
  assumes "sorted (map (due s) ts)" "\<exists>x \<in> set ts. due s x \<le> e"
  shows "\<exists>p ys zs. search_previous_backward s e (rev ts) = Some p \<and> ts = ys @ p # zs \<and>
    (\<forall>x \<in> set (ys @ [p]). due s x \<le> e) \<and> (\<forall>x \<in> set zs. e \<le> due s x)"
  using assms
proof (induction ts rule: rev_induct)
  case (snoc c ts)
  show ?case
  proof (cases "due s c \<le> e")
    case True
    then show ?thesis
      using snoc.prems by (intro exI [of _ c] exI [of _ ts] exI [of _ "[]"]) (auto simp: sorted_append)
  next
    case False
    then obtain p ys zs where "search_previous_backward s e (rev ts) = Some p" "ts = ys @ p # zs"
      "\<forall>x \<in> set (ys @ [p]). due s x \<le> e" "\<forall>x \<in> set zs. e \<le> due s x"
      using snoc by (auto simp: sorted_append)
    then show ?thesis
      using False by (intro exI [of _ p] exI [of _ ys] exI [of _ "zs @ [c]"]) auto
  qed
qed simp

lemma sorted_gap:
  assumes "sorted (map f (ys @ zs))" "\<forall>x \<in> set ys. f x \<le> f t" "\<forall>x \<in> set zs. f t \<le> f x"
  shows "sorted (map f (ys @ t # zs))"
  using assms by (auto simp: sorted_append)

text \<open>Neither \<open>abort\<close> nor the assertion of the searches is reached on a sorted list.\<close>

lemma search_previous_gap:
  assumes sorted: "timers_sorted s" and ne: "tm_list s \<noteq> []"
  shows "\<exists>prev ys zs. search_previous_timer s t = Some prev \<and> tm_list s = ys @ zs \<and>
    insert_behind prev t (tm_list s) = ys @ t # zs \<and>
    (\<forall>x \<in> set ys. due s x \<le> due s t) \<and> (\<forall>x \<in> set zs. due s t \<le> due s x)"
proof -
  let ?ts = "tm_list s"
  have le_last: "\<forall>x \<in> set ?ts. due s x \<le> due s (last ?ts)"
    using sorted ne unfolding timers_sorted_def
    by (cases ?ts rule: rev_cases) (auto simp: sorted_append)
  have first_le: "\<forall>x \<in> set ?ts. due s (hd ?ts) \<le> due s x"
    using sorted ne unfolding timers_sorted_def by (cases ?ts) auto
  have gap: ?thesis
    if "\<exists>p ys zs. search_previous_timer s t = Some (Some p) \<and> ?ts = ys @ p # zs \<and>
      (\<forall>x \<in> set (ys @ [p]). due s x \<le> due s t) \<and> (\<forall>x \<in> set zs. due s t \<le> due s x)"
  proof -
    from that obtain p ys zs where p: "search_previous_timer s t = Some (Some p)" "?ts = ys @ p # zs"
      "\<forall>x \<in> set (ys @ [p]). due s x \<le> due s t" "\<forall>x \<in> set zs. due s t \<le> due s x" by blast
    moreover have "p \<notin> set ys" using sorted p(2) by (simp add: timers_sorted_def)
    ultimately show ?thesis
      by (intro exI [of _ "Some p"] exI [of _ "ys @ [p]"] exI [of _ zs]) (simp add: insert_behind_split)
  qed
  consider (at_end) "due s (last ?ts) \<le> due s t"
    | (at_head) "due s t < due s (last ?ts)" "due s t \<le> due s (hd ?ts)"
    | (within) "due s t < due s (last ?ts)" "due s (hd ?ts) < due s t"
    by linarith
  then show ?thesis
  proof cases
    case at_end
    then have "search_previous_timer s t = Some (Some (last ?ts))"
      by (simp add: search_previous_timer_def time_remaining_due)
    moreover have "?ts = butlast ?ts @ last ?ts # []" using ne by simp
    moreover have "\<forall>x \<in> set (butlast ?ts @ [last ?ts]). due s x \<le> due s t"
      using at_end le_last ne by (metis append_butlast_last_id order_trans)
    ultimately show ?thesis
      by (intro gap exI [of _ "last ?ts"] exI [of _ "butlast ?ts"] exI [of _ "[]"]) simp
  next
    case at_head
    then have "search_previous_timer s t = Some None"
      by (simp add: search_previous_timer_def time_remaining_due Let_def)
    moreover have "\<forall>x \<in> set ?ts. due s t \<le> due s x" using at_head first_le by force
    ultimately show ?thesis by (intro exI [of _ None] exI [of _ "[]"] exI [of _ ?ts]) simp
  next
    case within
    have sorted': "sorted (map (due s) ?ts)" using sorted by (simp add: timers_sorted_def)
    have ex: "\<exists>x \<in> set ?ts. due s x \<le> due s t" "\<exists>x \<in> set ?ts. due s t \<le> due s x"
      using within ne by (meson hd_in_set last_in_set less_imp_le)+
    have fwd: "\<exists>p ys zs. search_previous_forward s (due s t) None ?ts = Some p \<and> ?ts = ys @ p # zs \<and>
      (\<forall>x \<in> set (ys @ [p]). due s x \<le> due s t) \<and> (\<forall>x \<in> set zs. due s t \<le> due s x)"
      using search_forward_gap [of s ?ts "[]" "due s t" None] sorted' ex by simp
    have bwd: "\<exists>p ys zs. search_previous_backward s (due s t) (rev ?ts) = Some p \<and> ?ts = ys @ p # zs \<and>
      (\<forall>x \<in> set (ys @ [p]). due s x \<le> due s t) \<and> (\<forall>x \<in> set zs. due s t \<le> due s x)"
      using search_backward_gap [of s ?ts "due s t"] sorted' ex by simp
    have "search_previous_timer s t = map_option Some
        (if due s t - due s (hd ?ts) < due s (last ?ts) - due s t
         then search_previous_forward s (due s t) None ?ts
         else search_previous_backward s (due s t) (rev ?ts))"
      using within by (simp add: search_previous_timer_def time_remaining_due Let_def algebra_simps)
    then have "search_previous_timer s t = map_option Some (search_previous_forward s (due s t) None ?ts) \<or>
      search_previous_timer s t = map_option Some (search_previous_backward s (due s t) (rev ?ts))" by simp
    then show ?thesis
    proof
      assume "search_previous_timer s t = map_option Some (search_previous_forward s (due s t) None ?ts)"
      then show ?thesis using fwd by (intro gap) (elim exE conjE, simp only: option.map, blast)
    next
      assume "search_previous_timer s t = map_option Some (search_previous_backward s (due s t) (rev ?ts))"
      then show ?thesis using bwd by (intro gap) (elim exE conjE, simp only: option.map, blast)
    qed
  qed
qed

lemma timers_sorted_cong:
  assumes "timers_sorted s" "tm_list s' = tm_list s" "\<And>x. x \<in> set (tm_list s) \<Longrightarrow> due s' x = due s x"
  shows "timers_sorted s'"
  using assms by (simp add: timers_sorted_def cong: map_cong)

definition started :: "int \<Rightarrow> 't \<Rightarrow> 't timers \<Rightarrow> 't timers" where
  "started now t s = s\<lparr>tm_start_time := (tm_start_time s)(t := now),
     tm_next_wakeup := min (tm_next_wakeup s) (tm_expire s t)\<rparr>"

lemma timer_init_gap:
  assumes sorted: "timers_sorted s" and new: "t \<notin> set (tm_list s)"
  obtains ys zs where "tm_list s = ys @ zs"
    "timer_init_unlocked now t s = Some ((started now t s)\<lparr>tm_list := ys @ t # zs\<rparr>)"
    "timers_sorted ((started now t s)\<lparr>tm_list := ys @ t # zs\<rparr>)"
proof -
  let ?s1 = "s\<lparr>tm_start_time := (tm_start_time s)(t := now)\<rparr>"
  have sorted1: "timers_sorted ?s1"
    using new by (intro timers_sorted_cong [OF sorted]) auto
  obtain prev ys zs where g: "(if tm_list ?s1 \<noteq> [] then search_previous_timer ?s1 t else Some None) = Some prev"
    "tm_list s = ys @ zs" "insert_behind prev t (tm_list s) = ys @ t # zs"
    "\<forall>x \<in> set ys. due ?s1 x \<le> due ?s1 t" "\<forall>x \<in> set zs. due ?s1 t \<le> due ?s1 x"
  proof (cases "tm_list s = []")
    case True
    then show ?thesis using that [of None "[]" "[]"] by simp
  next
    case False
    then obtain prev ys zs where "search_previous_timer ?s1 t = Some prev" "tm_list ?s1 = ys @ zs"
      "insert_behind prev t (tm_list ?s1) = ys @ t # zs"
      "\<forall>x \<in> set ys. due ?s1 x \<le> due ?s1 t" "\<forall>x \<in> set zs. due ?s1 t \<le> due ?s1 x"
      using search_previous_gap [OF sorted1, of t] by auto
    then show ?thesis using False by (intro that [of prev ys zs]) simp_all
  qed
  have "timer_init_unlocked now t s = Some ((started now t s)\<lparr>tm_list := ys @ t # zs\<rparr>)"
    using g(1,3) by (simp add: timer_init_unlocked_def Let_def started_def)
  moreover have "sorted (map (due ?s1) (ys @ t # zs))"
    using sorted_gap [of "due ?s1" ys zs t] sorted1 g(2,4,5) by (simp add: timers_sorted_def)
  then have "timers_sorted ((started now t s)\<lparr>tm_list := ys @ t # zs\<rparr>)"
    using sorted new g(2) by (auto simp: timers_sorted_def started_def)
  ultimately show thesis using that g(2) by blast
qed

section \<open>No timer is late\<close>

text \<open>
  \<open>next_wakeup\<close> counts from \<open>last_wakeup\<close>: the walk that it delays never misses a timer.
\<close>

definition never_late :: "'t timers \<Rightarrow> bool" where
  "never_late s \<longleftrightarrow> (\<forall>t \<in> set (tm_list s). tm_last_wakeup s + tm_next_wakeup s \<le> due s t)"

lemma timer_destroy_sorted [simp]:
  "timers_sorted s \<Longrightarrow> timers_sorted (timer_destroy_unlocked t s)"
  by (simp add: timers_sorted_def timer_destroy_unlocked_def sorted_map_remove1)

lemma timer_destroy_set:
  "timers_sorted s \<Longrightarrow> set (tm_list (timer_destroy_unlocked t s)) = set (tm_list s) - {t}"
  by (simp add: timers_sorted_def timer_destroy_unlocked_def)

lemma timer_destroy_never_late: "never_late s \<Longrightarrow> never_late (timer_destroy_unlocked t s)"
  using set_remove1_subset [of t "tm_list s"] by (auto simp: never_late_def timer_destroy_unlocked_def)

lemma timer_init_never_late:
  assumes "never_late s" "tm_last_wakeup s \<le> now" "tm_list s = ys @ zs" "t \<notin> set (tm_list s)"
  shows "never_late ((started now t s)\<lparr>tm_list := ys @ t # zs\<rparr>)"
  unfolding never_late_def
proof
  fix x assume "x \<in> set (tm_list ((started now t s)\<lparr>tm_list := ys @ t # zs\<rparr>))"
  then consider "x = t" | "x \<noteq> t" "x \<in> set (tm_list s)" using assms(3) by (auto simp: started_def)
  then show "tm_last_wakeup ((started now t s)\<lparr>tm_list := ys @ t # zs\<rparr>) +
      tm_next_wakeup ((started now t s)\<lparr>tm_list := ys @ t # zs\<rparr>) \<le>
    due ((started now t s)\<lparr>tm_list := ys @ t # zs\<rparr>) x"
  proof cases
    case 1
    then show ?thesis using assms(2) by (simp add: started_def)
  next
    case 2
    then have "tm_last_wakeup s + tm_next_wakeup s \<le> due s x" using assms(1) by (simp add: never_late_def)
    then show ?thesis using 2 by (simp add: started_def)
  qed
qed

text \<open>
  C22: (Re)starting a timer succeeds on a sorted list, leaves it sorted with exactly this timer added, due after its
  \<open>expire\<close> seconds, the others as they were; and if no timer could be late before, none can be afterwards.
\<close>

theorem timer_reset_inserts:
  assumes "timers_sorted s" "never_late s" "tm_last_wakeup s \<le> now"
  shows "\<exists>s'. prelude_timer_reset now t s = Some s' \<and>
    (t \<notin> set (tm_list s) \<longrightarrow> prelude_timer_init now t s = Some s') \<and>
    timers_sorted s' \<and> never_late s' \<and> set (tm_list s') = insert t (set (tm_list s)) \<and>
    due s' t = now + tm_expire s t \<and> (\<forall>x. x \<noteq> t \<longrightarrow> due s' x = due s x) \<and>
    prelude_timer_destroy t s' = timer_destroy_unlocked t (started now t s)"
proof -
  let ?d = "timer_destroy_unlocked t s"
  have d: "timers_sorted ?d" "t \<notin> set (tm_list ?d)" "never_late ?d" "tm_last_wakeup ?d \<le> now"
    using assms timer_destroy_set [of s t] timer_destroy_never_late [of s t] timer_destroy_sorted [of s t]
    by (auto simp: timer_destroy_unlocked_def)
  obtain ys zs where g: "tm_list ?d = ys @ zs"
    "timer_init_unlocked now t ?d = Some ((started now t ?d)\<lparr>tm_list := ys @ t # zs\<rparr>)"
    "timers_sorted ((started now t ?d)\<lparr>tm_list := ys @ t # zs\<rparr>)"
    by (rule timer_init_gap [OF d(1,2)])
  let ?s' = "(started now t ?d)\<lparr>tm_list := ys @ t # zs\<rparr>"
  have "set (ys @ t # zs) = insert t (set (tm_list s))"
    using g(1) timer_destroy_set [OF assms(1), of t] by auto
  moreover have "remove1 t (ys @ t # zs) = remove1 t (tm_list s)"
    using g(1) d(2) by (auto simp: timer_destroy_unlocked_def remove1_append)
  moreover have "?d = s" if "t \<notin> set (tm_list s)"
    using that by (simp add: timer_destroy_unlocked_def remove1_idem)
  moreover have "never_late ?s'" by (rule timer_init_never_late [OF d(3,4) g(1) d(2)])
  ultimately show ?thesis
    using g(2,3) by (intro exI [of _ ?s'])
      (auto simp: prelude_timer_reset_def prelude_timer_init_def prelude_timer_destroy_def
        timer_destroy_unlocked_def started_def)
qed

section \<open>Which timers a walk wakes up\<close>

text \<open>What callbacks do in practice: a periodic timer is reset, any other one is destroyed.\<close>

definition expire_cb :: "('t \<Rightarrow> int option) \<Rightarrow> 't \<Rightarrow> 't timers \<Rightarrow> 't timers option" where
  "expire_cb restart t s = (case restart t of
     None \<Rightarrow> Some (prelude_timer_destroy t s) | Some clock \<Rightarrow> prelude_timer_reset clock t s)"

definition awake :: "'t timers \<Rightarrow> bool" where
  "awake s \<longleftrightarrow> (\<forall>t \<in> set (tm_list s). tm_start_time s t \<noteq> - 1)"

lemma expire_cb_head:
  assumes s: "timers_sorted s" "awake s" "tm_list s = t # ts"
    and clk: "\<And>c. restart t = Some c \<Longrightarrow> 0 \<le> c"
  obtains s' where "expire_cb restart t (s\<lparr>tm_start_time := (tm_start_time s)(t := - 1)\<rparr>) = Some s'"
    "timers_sorted s'" "awake s'" "tm_expire s' = tm_expire s"
    "set (tm_list s') = set ts \<union> (if restart t = None then {} else {t})"
    "\<forall>x. x \<noteq> t \<longrightarrow> due s' x = due s x"
    "\<forall>c. restart t = Some c \<longrightarrow> due s' t = c + tm_expire s t"
    "\<forall>P. restart t = None \<or> \<not> P t \<longrightarrow> filter P (tm_list s') = filter P ts"
proof -
  let ?s1 = "s\<lparr>tm_start_time := (tm_start_time s)(t := - 1)\<rparr>"
  let ?d = "timer_destroy_unlocked t ?s1"
  have t: "t \<notin> set ts" "distinct ts" "sorted (map (due s) ts)" using s by (simp_all add: timers_sorted_def)
  have d: "tm_list ?d = ts" using s by (simp add: timer_destroy_unlocked_def)
  have "map (due ?d) ts = map (due s) ts"
    using t by (auto simp: timer_destroy_unlocked_def)
  then have sd: "timers_sorted ?d" using t(2,3) unfolding timers_sorted_def d by (simp only:)
  have ad: "awake ?d" using s d t by (auto simp: awake_def timer_destroy_unlocked_def)
  show thesis
  proof (cases "restart t")
    case None
    then show ?thesis
      using that [of ?d] sd ad d by (simp add: expire_cb_def prelude_timer_destroy_def timer_destroy_unlocked_def)
  next
    case (Some c)
    obtain ys zs where g: "ts = ys @ zs" "timer_init_unlocked c t ?d = Some ((started c t ?d)\<lparr>tm_list := ys @ t # zs\<rparr>)"
      "timers_sorted ((started c t ?d)\<lparr>tm_list := ys @ t # zs\<rparr>)"
      by (rule timer_init_gap [OF sd, of t c, unfolded d, OF t(1)])
    define s' where "s' = (started c t ?d)\<lparr>tm_list := ys @ t # zs\<rparr>"
    have s': "tm_list s' = ys @ t # zs" "tm_start_time s' = (tm_start_time s)(t := c)" "tm_expire s' = tm_expire s"
      by (simp_all add: s'_def started_def timer_destroy_unlocked_def)
    show ?thesis
    proof (rule that [of s'])
      show "expire_cb restart t ?s1 = Some s'"
        using g(2) Some by (simp add: expire_cb_def prelude_timer_reset_def s'_def)
      show "timers_sorted s'" using g(3) by (simp add: s'_def)
      show "awake s'" using s clk [OF Some] g(1) by (auto simp: awake_def s')
      show "\<forall>P. restart t = None \<or> \<not> P t \<longrightarrow> filter P (tm_list s') = filter P ts"
        using Some g(1) by (simp add: s')
    qed (use g(1) Some in \<open>auto simp: s'\<close>)
  qed
qed

lemma walk_wakes_due:
  assumes "timers_sorted s" "awake s" "0 \<le> now"
    and "\<And>t c. restart t = Some c \<Longrightarrow> now \<le> c \<and> 0 < tm_expire s t"
  shows "\<exists>s'. walk_and_wake_up_timer (expire_cb restart) now s =
      Some (filter (\<lambda>t. due s t \<le> now) (tm_list s), s') \<and>
    timers_sorted s' \<and> awake s' \<and>
    set (tm_list s') = {t \<in> set (tm_list s). now < due s t \<or> restart t \<noteq> None} \<and>
    (\<forall>t \<in> set (tm_list s'). now < due s' t) \<and>
    (tm_list s' \<noteq> [] \<longrightarrow> tm_next_wakeup s' = due s' (hd (tm_list s')) - now)"
  using assms
proof (induction "length (filter (\<lambda>t. due s t \<le> now) (tm_list s))" arbitrary: s rule: less_induct)
  case less
  show ?case
  proof (cases "tm_list s")
    case Nil
    then show ?thesis
      using less.prems by (subst walk_and_wake_up_timer.simps) (simp add: get_next_timer_def)
  next
    case (Cons t ts)
    have st: "tm_start_time s t \<noteq> - 1" using less.prems(2) Cons by (simp add: awake_def)
    have later: "\<forall>x \<in> set ts. due s t \<le> due s x" and new: "t \<notin> set ts"
      using less.prems(1) Cons by (simp_all add: timers_sorted_def)
    show ?thesis
    proof (cases "due s t \<le> now")
      case False
      then have "walk_and_wake_up_timer (expire_cb restart) now s = Some ([], s\<lparr>tm_next_wakeup := due s t - now\<rparr>)"
        using st less.prems(3) Cons
        by (subst walk_and_wake_up_timer.simps)
          (simp add: get_next_timer_def wake_up_if_needed_def time_elapsed_def time_remaining_def)
      moreover have "filter (\<lambda>t. due s t \<le> now) (tm_list s) = []"
        using False later Cons by (auto simp: filter_empty_conv)
      ultimately show ?thesis
        using less.prems(1,2) False later Cons by (auto simp: timers_sorted_def awake_def)
    next
      case True
      have clk: "0 \<le> c" if "restart t = Some c" for c using less.prems(3,4) that by fastforce
      obtain s1 where s1: "expire_cb restart t (s\<lparr>tm_start_time := (tm_start_time s)(t := - 1)\<rparr>) = Some s1"
        "timers_sorted s1" "awake s1" "tm_expire s1 = tm_expire s"
        "set (tm_list s1) = set ts \<union> (if restart t = None then {} else {t})"
        "\<forall>x. x \<noteq> t \<longrightarrow> due s1 x = due s x" "\<forall>c. restart t = Some c \<longrightarrow> due s1 t = c + tm_expire s t"
        "\<forall>P. restart t = None \<or> \<not> P t \<longrightarrow> filter P (tm_list s1) = filter P ts"
        by (rule expire_cb_head [OF less.prems(1,2) Cons, of restart, OF clk])
      have t1: "now < due s1 t" if "restart t \<noteq> None"
        using that s1(7) less.prems(4) [of t] by force
      have "filter (\<lambda>x. due s1 x \<le> now) (tm_list s1) = filter (\<lambda>x. due s1 x \<le> now) ts"
        using t1 by (intro s1(8) [rule_format]) fastforce
      then have f1: "filter (\<lambda>x. due s1 x \<le> now) (tm_list s1) = filter (\<lambda>x. due s x \<le> now) ts"
        using new s1(6) by (auto intro!: filter_cong)
      have "\<exists>s'. walk_and_wake_up_timer (expire_cb restart) now s1 =
          Some (filter (\<lambda>t. due s1 t \<le> now) (tm_list s1), s') \<and>
        timers_sorted s' \<and> awake s' \<and>
        set (tm_list s') = {t \<in> set (tm_list s1). now < due s1 t \<or> restart t \<noteq> None} \<and>
        (\<forall>t \<in> set (tm_list s'). now < due s' t) \<and>
        (tm_list s' \<noteq> [] \<longrightarrow> tm_next_wakeup s' = due s' (hd (tm_list s')) - now)"
        using f1 s1(2-4) less.prems(3,4) True Cons by (intro less.hyps) auto
      then obtain s' where s': "walk_and_wake_up_timer (expire_cb restart) now s1 =
          Some (filter (\<lambda>t. due s1 t \<le> now) (tm_list s1), s')"
        "timers_sorted s'" "awake s'" "set (tm_list s') = {t \<in> set (tm_list s1). now < due s1 t \<or> restart t \<noteq> None}"
        "\<forall>t \<in> set (tm_list s'). now < due s' t"
        "tm_list s' \<noteq> [] \<longrightarrow> tm_next_wakeup s' = due s' (hd (tm_list s')) - now" by blast
      have "walk_and_wake_up_timer (expire_cb restart) now s = Some (t # filter (\<lambda>x. due s x \<le> now) ts, s')"
        using st True Cons s1(1) s'(1) f1
        by (subst walk_and_wake_up_timer.simps)
          (simp add: get_next_timer_def wake_up_if_needed_def time_elapsed_def)
      moreover have "{x \<in> set (tm_list s1). now < due s1 x \<or> restart x \<noteq> None} =
          {x \<in> set (tm_list s). now < due s x \<or> restart x \<noteq> None}"
        using s1(5,6) True Cons new by (auto split: if_splits)
      ultimately show ?thesis using s'(2-6) True Cons by auto
    qed
  qed
qed

text \<open>
  C21: When the callback of every expired timer destroys or restarts its own timer, a wake-up calls exactly the
  callbacks of the timers that are due, in the order of their expiry, and ends; afterwards the list is sorted, no
  timer on it is due, a timer is gone exactly if it was due and not restarted, and the invariant holds again. If the
  recorded time to the next wake-up had passed, the time that is returned is the time from now to the first timer of
  the list. If it had not, nothing is changed and the time of the previous wake-up is returned again: no timer is due
  before that time has passed since that wake-up, so that counted from now it is too long by the time since then.
\<close>

theorem wake_up_calls_due_timers:
  assumes "timers_sorted s" "awake s" "never_late s" "0 \<le> now"
    and "\<forall>t c. restart t = Some c \<longrightarrow> now \<le> c \<and> 0 < tm_expire s t"
  shows "\<exists>s'. prelude_timer_wake_up (expire_cb restart) now s =
      Some (tm_next_wakeup s', filter (\<lambda>t. due s t \<le> now) (tm_list s), s') \<and>
    timers_sorted s' \<and> awake s' \<and> never_late s' \<and>
    set (tm_list s') = {t \<in> set (tm_list s). now < due s t \<or> restart t \<noteq> None} \<and>
    (\<forall>t \<in> set (tm_list s'). now < due s' t) \<and>
    (if tm_next_wakeup s \<le> now - tm_last_wakeup s
     then tm_last_wakeup s' = now \<and> (tm_list s' \<noteq> [] \<longrightarrow> tm_next_wakeup s' = due s' (hd (tm_list s')) - now)
     else s' = s \<and> (\<forall>t \<in> set (tm_list s). tm_next_wakeup s - (now - tm_last_wakeup s) \<le> due s t - now))"
proof (cases "tm_next_wakeup s \<le> now - tm_last_wakeup s")
  case False
  have later: "\<forall>t \<in> set (tm_list s). now < due s t"
    using False assms(3) by (fastforce simp: never_late_def)
  then have "filter (\<lambda>t. due s t \<le> now) (tm_list s) = []" by (auto simp: filter_empty_conv)
  then show ?thesis
    using False later assms(1-3) by (intro exI [of _ s]) (auto simp: prelude_timer_wake_up_def never_late_def)
next
  case True
  obtain s' where s': "walk_and_wake_up_timer (expire_cb restart) now s =
      Some (filter (\<lambda>t. due s t \<le> now) (tm_list s), s')" "timers_sorted s'" "awake s'"
    "set (tm_list s') = {t \<in> set (tm_list s). now < due s t \<or> restart t \<noteq> None}"
    "\<forall>t \<in> set (tm_list s'). now < due s' t"
    "tm_list s' \<noteq> [] \<longrightarrow> tm_next_wakeup s' = due s' (hd (tm_list s')) - now"
    using walk_wakes_due [OF assms(1,2,4), of restart] assms(5) by blast
  have "\<forall>t \<in> set (tm_list s'). due s' (hd (tm_list s')) \<le> due s' t"
    using s'(2) by (cases "tm_list s'") (auto simp: timers_sorted_def)
  then have "never_late (s'\<lparr>tm_last_wakeup := now\<rparr>)"
    using s'(6) by (auto simp: never_late_def)
  then show ?thesis
    using True s' by (intro exI [of _ "s'\<lparr>tm_last_wakeup := now\<rparr>"])
      (auto simp: prelude_timer_wake_up_def timers_sorted_def awake_def)
qed

text \<open>Two timers: the first is periodic and due, the second is due in five seconds.\<close>

definition two_timers :: "nat timers" where
  "two_timers = \<lparr>tm_list = [0, 1], tm_expire = (\<lambda>t. if t = 0 then 10 else 20),
     tm_start_time = (\<lambda>t. if t = 0 then 100 else 95), tm_next_wakeup = 10, tm_last_wakeup = 100\<rparr>"

lemma two_timers_ok: "timers_sorted two_timers" "awake two_timers" "never_late two_timers"
  by (simp_all add: two_timers_def timers_sorted_def awake_def never_late_def)

theorem timer_reset_inserts_witness:
  "timers_sorted two_timers \<and> never_late two_timers \<and>
   (\<exists>s'. prelude_timer_reset 110 0 two_timers = Some s' \<and> timers_sorted s' \<and> due s' 0 = 120)"
  using timer_reset_inserts [of two_timers 110 0] two_timers_ok by (auto simp: two_timers_def)

theorem wake_up_calls_due_timers_witness:
  "timers_sorted two_timers \<and>
   (\<exists>s'. prelude_timer_wake_up (expire_cb (\<lambda>t. if t = 0 then Some (110 :: int) else None)) 110 two_timers =
     Some (tm_next_wakeup s', [0], s') \<and> never_late s' \<and> set (tm_list s') = {0, 1})"
proof -
  have due_list: "filter (\<lambda>t. due two_timers t \<le> 110) (tm_list two_timers) = [0]"
    "{t \<in> set (tm_list two_timers). 110 < due two_timers t \<or> (if t = 0 then Some 110 else None) \<noteq> (None :: int option)} =
      {0, 1}" by (auto simp: two_timers_def)
  have "\<forall>t c. (if t = 0 then Some 110 else None) = Some (c :: int) \<longrightarrow> 110 \<le> c \<and> 0 < tm_expire two_timers t"
    by (simp add: two_timers_def)
  from wake_up_calls_due_timers [OF two_timers_ok, of 110 "\<lambda>t. if t = 0 then Some 110 else None", OF _ this, unfolded due_list]
  show ?thesis using two_timers_ok(1) by auto
qed

section \<open>Flushing\<close>

lemma flush_destroys:
  assumes "awake s" "distinct (tm_list s)"
  shows "\<exists>s'. walk_and_wake_up_timer (expire_cb (\<lambda>_. None)) (- 1) s = Some (tm_list s, s') \<and> tm_list s' = []"
  using assms
proof (induction "tm_list s" arbitrary: s)
  case Nil
  then show ?case by (subst walk_and_wake_up_timer.simps) (simp add: get_next_timer_def)
next
  case (Cons t ts)
  let ?s1 = "timer_destroy_unlocked t (s\<lparr>tm_start_time := (tm_start_time s)(t := - 1)\<rparr>)"
  have l: "tm_list ?s1 = ts" using Cons.hyps(2) by (simp add: timer_destroy_unlocked_def flip: Cons.hyps(2))
  have "awake ?s1" "distinct (tm_list ?s1)"
    using Cons.prems unfolding Cons.hyps(2) [symmetric] awake_def l by (auto simp: timer_destroy_unlocked_def)
  from Cons.hyps(1) [OF l [symmetric] this] obtain s' where
    "walk_and_wake_up_timer (expire_cb (\<lambda>_. None)) (- 1) ?s1 = Some (ts, s')" "tm_list s' = []" unfolding l by blast
  moreover have "tm_start_time s t \<noteq> - 1" using Cons.prems(1) by (simp add: awake_def flip: Cons.hyps(2))
  ultimately show ?case
    by (subst walk_and_wake_up_timer.simps)
      (simp add: get_next_timer_def wake_up_if_needed_def expire_cb_def prelude_timer_destroy_def flip: Cons.hyps(2))
qed

lemma flush_restarting_diverges:
  assumes "walk_and_wake_up_timer cb now s = Some w" and clk: "\<forall>t. 0 \<le> clock t"
  shows "cb = expire_cb (\<lambda>t. Some (clock t)) \<longrightarrow> now = - 1 \<longrightarrow> timers_sorted s \<longrightarrow> awake s \<longrightarrow> tm_list s = []"
proof (rule walk_and_wake_up_timer.raw_induct [OF _ assms(1)], intro impI)
  fix walk cb now s w
  assume IH: "\<And>cb now s w. walk cb now s = Some w \<Longrightarrow>
      cb = expire_cb (\<lambda>t. Some (clock t)) \<longrightarrow> now = - 1 \<longrightarrow> timers_sorted s \<longrightarrow> awake s \<longrightarrow> tm_list s = []"
    and body: "(case get_next_timer s of
        None \<Rightarrow> Some ([], s)
      | Some t \<Rightarrow>
          Option.bind (wake_up_if_needed cb t now s) (\<lambda>r.
            if fst r \<noteq> 0 then Some ([], (snd r)\<lparr>tm_next_wakeup := fst r\<rparr>)
            else Option.bind (walk cb now (snd r)) (\<lambda>w. Some (t # fst w, snd w)))) = Some w"
    and cb: "cb = expire_cb (\<lambda>t. Some (clock t))" "now = - 1" and s: "timers_sorted s" "awake s"
  show "tm_list s = []"
  proof (cases "tm_list s")
    case (Cons t ts)
    obtain s1 where s1: "expire_cb (\<lambda>t. Some (clock t)) t (s\<lparr>tm_start_time := (tm_start_time s)(t := - 1)\<rparr>) = Some s1"
      "timers_sorted s1" "awake s1" "set (tm_list s1) = set ts \<union> {t}"
    proof (rule expire_cb_head [OF s Cons, of "\<lambda>t. Some (clock t)"])
      show "0 \<le> c" if "Some (clock t) = Some c" for c using that clk by auto
    qed simp
    have "walk cb now s1 \<noteq> None"
      using body cb s(2) s1(1) Cons
      by (auto simp: get_next_timer_def wake_up_if_needed_def awake_def split: if_splits Option.bind_splits)
    then have "tm_list s1 = []" using IH [of cb now s1] cb s1(2,3) by fastforce
    then show ?thesis using s1(4) by simp
  qed
qed

text \<open>
  C36: Flushing calls every timer once, in order, and empties the list when the callbacks destroy their timer; when they restart it, a
  flush of a non-empty list never returns; and a callback that leaves its timer on the list makes the next
  round fail the assertion.
\<close>

theorem flush_behaviour:
  assumes "timers_sorted s" "awake s" "tm_list s \<noteq> []" "\<forall>t. 0 \<le> clock t"
  shows "(\<exists>s'. prelude_timer_flush (expire_cb (\<lambda>_. None)) s = Some (tm_list s, s') \<and> tm_list s' = []) \<and>
    prelude_timer_flush (expire_cb (\<lambda>t. Some (clock t))) s = None \<and>
    prelude_timer_flush (\<lambda>t s. Some s) s = None"
proof (intro conjI)
  show "\<exists>s'. prelude_timer_flush (expire_cb (\<lambda>_. None)) s = Some (tm_list s, s') \<and> tm_list s' = []"
    using flush_destroys [of s] assms by (simp add: prelude_timer_flush_def timers_sorted_def)
  show "prelude_timer_flush (expire_cb (\<lambda>t. Some (clock t))) s = None"
    using flush_restarting_diverges [of _ "- 1" s _ clock] assms
    by (cases "prelude_timer_flush (expire_cb (\<lambda>t. Some (clock t))) s") (auto simp: prelude_timer_flush_def)
  obtain t ts where l: "tm_list s = t # ts" using assms(3) by (cases "tm_list s") auto
  show "prelude_timer_flush (\<lambda>t s. Some s) s = None"
    unfolding prelude_timer_flush_def
    by (subst walk_and_wake_up_timer.simps, subst walk_and_wake_up_timer.simps)
      (simp add: get_next_timer_def wake_up_if_needed_def l)
qed

theorem flush_behaviour_witness:
  "timers_sorted two_timers \<and>
   prelude_timer_flush (expire_cb (\<lambda>t. Some 0)) two_timers = None \<and>
   (\<exists>s'. prelude_timer_flush (expire_cb (\<lambda>_. None)) two_timers = Some ([0, 1], s') \<and> tm_list s' = [])"
  using flush_behaviour [of two_timers "\<lambda>_. 0"] two_timers_ok by (simp add: two_timers_def)

end
