(* ===== verification/Async.thy ===== *)
theory Async
  imports Base
begin

text \<open>
  Asynchronous jobs (\<open>src/prelude-async.c\<close>): a list of jobs and a thread that runs them. Each section of the code
  that holds the lock is one step, and the steps of the thread and of its clients interleave in any order.
  A thread that waits on the condition variable is asleep until a client signals it, the time is over, or it
  wakes up for no reason. \<open>as_run\<close> lists the jobs whose function was called.
\<close>

section \<open>State\<close>

text \<open>
  Where the thread is: at its start, at the top of the loop, in one of the two wait functions (\<open>True\<close> for the one with
  timers) at the test of the condition and after it, asleep, taking a job, running one, or at its end. The further
  arguments are the local variables: whether the wait timed out, and \<open>no_job_available\<close>.
\<close>

datatype 'j thread_pc =
    No_Thread | Start | Top | Check bool bool | Asleep bool | After_Wait bool bool | Drain | Running 'j | Done

type_synonym timespec = "int \<times> int"

record 'j async =
  as_joblist :: "'j list"
  as_flags :: u32
  as_stop_processing :: bool
  as_is_initialized :: bool
  as_pc :: "'j thread_pc"
  as_nflags :: u32
  as_run :: "'j list"
  as_last_wakeup :: timespec
  as_timer_wakeups :: nat

definition PRELUDE_ASYNC_FLAGS_TIMER :: u32 where "PRELUDE_ASYNC_FLAGS_TIMER = 1"

section \<open>The thread\<close>

definition timespec_elapsed :: "timespec \<Rightarrow> timespec \<Rightarrow> int" where
  "timespec_elapsed e start = (let diff = fst e - fst start in if snd e < snd start then diff - 1 else diff)"

definition timespec_expired :: "timespec \<Rightarrow> timespec \<Rightarrow> bool" where
  "timespec_expired e start = (timespec_elapsed e start \<noteq> 0)"

definition wait_data :: "'j async \<Rightarrow> 'j async" where
  "wait_data s =
     (if as_joblist s = [] \<and> \<not> as_stop_processing s \<and> as_flags s = as_nflags s then s\<lparr>as_pc := Asleep False\<rparr>
      else if as_joblist s = [] \<and> as_stop_processing s then s\<lparr>as_pc := Done\<rparr>
      else s\<lparr>as_nflags := as_flags s, as_pc := Drain\<rparr>)"

definition wait_timer_and_data :: "bool \<Rightarrow> 'j async \<Rightarrow> 'j async" where
  "wait_timer_and_data timed_out s =
     (if as_joblist s = [] \<and> \<not> as_stop_processing s \<and> as_flags s = as_nflags s \<and> \<not> timed_out then s\<lparr>as_pc := Asleep True\<rparr>
      else if as_joblist s = [] \<and> as_stop_processing s then s\<lparr>as_pc := Done\<rparr>
      else s\<lparr>as_nflags := as_flags s, as_pc := After_Wait timed_out (as_joblist s = [])\<rparr>)"

text \<open>
  The rest of the loop, outside of the lock, at the time \<open>now\<close>. After a timeout the clock is not read again, and \<open>ts\<close> is
  still the time until which the thread slept.
\<close>

definition timer_wake_up :: "bool \<Rightarrow> bool \<Rightarrow> timespec \<Rightarrow> 'j async \<Rightarrow> 'j async" where
  "timer_wake_up timed_out no_job_available now s =
     (let last_wakeup = as_last_wakeup s;
          ts = (if timed_out then (fst last_wakeup + 1, snd last_wakeup) else now);
          s' = (if timed_out \<or> timespec_expired ts last_wakeup
                then s\<lparr>as_timer_wakeups := as_timer_wakeups s + 1, as_last_wakeup := ts\<rparr> else s)
      in s'\<lparr>as_pc := (if no_job_available then Check True False else Drain)\<rparr>)"

definition get_next_job :: "'j async \<Rightarrow> 'j option \<times> 'j async" where
  "get_next_job s = (case as_joblist s of [] \<Rightarrow> (None, s) | j # js \<Rightarrow> (Some j, s\<lparr>as_joblist := js\<rparr>))"

text \<open>
  One step of the thread, at the time \<open>now\<close>; a thread that sleeps, or is not there, does not move. Blocking the signals does
  not fail, as its arguments are valid.
\<close>

definition async_thread :: "timespec \<Rightarrow> 'j async \<Rightarrow> 'j async" where
  "async_thread now s =
     (case as_pc s of
        Start \<Rightarrow> s\<lparr>as_nflags := as_flags s, as_pc := Top\<rparr>
      | Top \<Rightarrow> if as_nflags s AND PRELUDE_ASYNC_FLAGS_TIMER \<noteq> 0
               then s\<lparr>as_last_wakeup := (fst now - 1, snd now), as_pc := Check True False\<rparr>
               else s\<lparr>as_pc := Check False False\<rparr>
      | Check timed out \<Rightarrow> if timed then wait_timer_and_data out s else wait_data s
      | After_Wait out no_job \<Rightarrow> timer_wake_up out no_job now s
      | Drain \<Rightarrow> (case get_next_job s of (None, s') \<Rightarrow> s'\<lparr>as_pc := Top\<rparr> | (Some j, s') \<Rightarrow> s'\<lparr>as_pc := Running j\<rparr>)
      | Running j \<Rightarrow> s\<lparr>as_run := as_run s @ [j], as_pc := Drain\<rparr>
      | _ \<Rightarrow> s)"

section \<open>The clients\<close>

definition cond_signal :: "'j async \<Rightarrow> 'j async" where
  "cond_signal s = (case as_pc s of Asleep timed \<Rightarrow> s\<lparr>as_pc := Check timed False\<rparr> | _ \<Rightarrow> s)"

definition prelude_async_get_flags :: "'j async \<Rightarrow> u32" where
  "prelude_async_get_flags s = as_flags s"

definition prelude_async_set_flags :: "u32 \<Rightarrow> 'j async \<Rightarrow> 'j async" where
  "prelude_async_set_flags flags s = cond_signal (s\<lparr>as_flags := flags\<rparr>)"

text \<open>\<open>created\<close> and \<open>registered\<close> are what creating the thread and \<open>atexit\<close> return, \<open>0\<close> on success.\<close>

definition do_init_async :: "int \<Rightarrow> int \<Rightarrow> 'j async \<Rightarrow> int \<times> 'j async" where
  "do_init_async created registered s =
     (if created \<noteq> 0 then (created, s) else (registered, s\<lparr>as_pc := Start\<rparr>))"

definition prelude_async_init :: "int \<Rightarrow> int \<Rightarrow> 'j async \<Rightarrow> int \<times> 'j async" where
  "prelude_async_init created registered s =
     (if \<not> as_is_initialized s
      then do_init_async created registered (s\<lparr>as_is_initialized := True, as_stop_processing := False\<rparr>)
      else (0, s))"

definition prelude_async_add :: "'j \<Rightarrow> 'j async \<Rightarrow> 'j async" where
  "prelude_async_add j s = cond_signal (s\<lparr>as_joblist := as_joblist s @ [j]\<rparr>)"

definition prelude_async_del :: "'j \<Rightarrow> 'j async \<Rightarrow> 'j async" where
  "prelude_async_del j s = s\<lparr>as_joblist := remove1 j (as_joblist s)\<rparr>"

text \<open>\<open>prelude_async_exit\<close> asks the thread to stop, and then waits for its end.\<close>

definition prelude_async_exit :: "'j async \<Rightarrow> 'j async" where
  "prelude_async_exit s = (if \<not> as_is_initialized s then s else cond_signal (s\<lparr>as_stop_processing := True\<rparr>))"

definition prelude_async_joined :: "'j async \<Rightarrow> 'j async" where
  "prelude_async_joined s = s\<lparr>as_is_initialized := False\<rparr>"

definition prelude_async_fork_child :: "'j async \<Rightarrow> 'j async" where
  "prelude_async_fork_child s = s\<lparr>as_is_initialized := False, as_joblist := [], as_pc := No_Thread\<rparr>"

definition initial_async :: "'j async" where
  "initial_async = \<lparr>as_joblist = [], as_flags = 0, as_stop_processing = False, as_is_initialized = False, as_pc = No_Thread,
     as_nflags = 0, as_run = [], as_last_wakeup = (0, 0), as_timer_wakeups = 0\<rparr>"

section \<open>Interleaving\<close>

text \<open>The second component lists the jobs that were added and not taken back, in the order of their addition; the
  child of a fork has no thread and drops the jobs that were not run.\<close>

inductive async_step :: "'j async \<times> 'j list \<Rightarrow> 'j async \<times> 'j list \<Rightarrow> bool" where
  thread: "async_step (s, A) (async_thread now s, A)"
| timeout: "as_pc s = Asleep True \<Longrightarrow> async_step (s, A) (s\<lparr>as_pc := Check True True\<rparr>, A)"
| spurious: "as_pc s = Asleep timed \<Longrightarrow> async_step (s, A) (s\<lparr>as_pc := Check timed False\<rparr>, A)"
| init: "async_step (s, A) (snd (prelude_async_init created registered s), A)"
| add: "j \<notin> set A \<Longrightarrow> async_step (s, A) (prelude_async_add j s, A @ [j])"
| del: "j \<in> set (as_joblist s) \<Longrightarrow> async_step (s, A) (prelude_async_del j s, remove1 j A)"
| set_flags: "async_step (s, A) (prelude_async_set_flags flags s, A)"
| exit: "async_step (s, A) (prelude_async_exit s, A)"
| join: "as_pc s = Done \<Longrightarrow> async_step (s, A) (prelude_async_joined s, A)"
| fork: "async_step (s, A) (prelude_async_fork_child s, as_run s)"

definition reachable_async :: "'j async \<Rightarrow> 'j list \<Rightarrow> bool" where
  "reachable_async s A \<longleftrightarrow> async_step\<^sup>*\<^sup>* (initial_async, []) (s, A)"

definition in_hand :: "'j async \<Rightarrow> 'j list" where
  "in_hand s = (case as_pc s of Running j \<Rightarrow> [j] | _ \<Rightarrow> [])"

definition async_inv :: "'j async \<Rightarrow> 'j list \<Rightarrow> bool" where
  "async_inv s A \<longleftrightarrow> distinct A \<and> as_run s @ in_hand s @ as_joblist s = A \<and>
     (\<forall>timed. as_pc s = Asleep timed \<longrightarrow> as_joblist s = [] \<and> \<not> as_stop_processing s \<and> as_flags s = as_nflags s) \<and>
     (\<not> as_is_initialized s \<longrightarrow> as_pc s = No_Thread \<or> as_pc s = Done)"

lemma wait_keeps_inv:
  assumes "async_inv s A" "as_pc s = Check timed out"
  shows "async_inv (wait_data s) A" "async_inv (wait_timer_and_data out s) A"
  using assms by (auto simp: async_inv_def in_hand_def wait_data_def wait_timer_and_data_def)

lemma wake_up_keeps_inv: "async_inv s A \<Longrightarrow> as_pc s = After_Wait out no_job \<Longrightarrow> async_inv (timer_wake_up out no_job now s) A"
  by (auto simp: async_inv_def in_hand_def timer_wake_up_def Let_def)

lemma thread_keeps_inv:
  assumes "async_inv s A"
  shows "async_inv (async_thread now s) A"
proof (cases "as_pc s")
  case Drain
  then show ?thesis
    using assms by (cases "as_joblist s") (auto simp: async_inv_def in_hand_def async_thread_def get_next_job_def)
qed (use assms in \<open>simp_all add: async_thread_def wait_keeps_inv wake_up_keeps_inv\<close>,
    auto simp: async_inv_def in_hand_def)

lemma wake_keeps_inv: "async_inv s A \<Longrightarrow> as_pc s = Asleep timed \<Longrightarrow> async_inv (s\<lparr>as_pc := Check timed out\<rparr>) A"
  by (auto simp: async_inv_def in_hand_def)

lemma init_keeps_inv: "async_inv s A \<Longrightarrow> async_inv (snd (prelude_async_init created registered s)) A"
  by (cases "as_pc s") (auto simp: async_inv_def in_hand_def prelude_async_init_def do_init_async_def)

lemma add_keeps_inv: "async_inv s A \<Longrightarrow> j \<notin> set A \<Longrightarrow> async_inv (prelude_async_add j s) (A @ [j])"
  by (cases "as_pc s") (auto simp: async_inv_def in_hand_def prelude_async_add_def cond_signal_def)

lemma set_flags_keeps_inv: "async_inv s A \<Longrightarrow> async_inv (prelude_async_set_flags flags s) A"
  by (cases "as_pc s") (auto simp: async_inv_def in_hand_def prelude_async_set_flags_def cond_signal_def)

lemma exit_keeps_inv: "async_inv s A \<Longrightarrow> async_inv (prelude_async_exit s) A"
  by (cases "as_pc s") (auto simp: async_inv_def in_hand_def prelude_async_exit_def cond_signal_def)

lemma joined_keeps_inv: "async_inv s A \<Longrightarrow> as_pc s = Done \<Longrightarrow> async_inv (prelude_async_joined s) A"
  by (simp add: async_inv_def in_hand_def prelude_async_joined_def)

lemma fork_keeps_inv: "async_inv s A \<Longrightarrow> async_inv (prelude_async_fork_child s) (as_run s)"
  by (auto simp: async_inv_def in_hand_def prelude_async_fork_child_def)

lemma del_keeps_inv:
  assumes inv: "async_inv s A" and j: "j \<in> set (as_joblist s)"
  shows "async_inv (prelude_async_del j s) (remove1 j A)"
proof -
  have A: "A = (as_run s @ in_hand s) @ as_joblist s" "distinct A" using inv by (simp_all add: async_inv_def)
  then have "j \<notin> set (as_run s @ in_hand s)" using j by auto
  then have "remove1 j A = (as_run s @ in_hand s) @ remove1 j (as_joblist s)" using A(1) by (simp add: remove1_append)
  moreover have "distinct (remove1 j A)" using A(2) by (rule distinct_remove1)
  moreover have "in_hand (prelude_async_del j s) = in_hand s" by (simp add: in_hand_def prelude_async_del_def)
  ultimately show ?thesis using inv j by (auto simp: async_inv_def prelude_async_del_def)
qed

lemmas operations_keep_inv = thread_keeps_inv wake_keeps_inv init_keeps_inv add_keeps_inv del_keeps_inv set_flags_keeps_inv
  exit_keeps_inv joined_keeps_inv fork_keeps_inv

lemma step_keeps_inv: "async_step sa sa' \<Longrightarrow> async_inv (fst sa) (snd sa) \<Longrightarrow> async_inv (fst sa') (snd sa')"
  by (induction rule: async_step.induct) (simp_all add: operations_keep_inv)

lemma initial_inv: "async_inv initial_async []"
  by (simp add: async_inv_def initial_async_def in_hand_def)

lemma steps_keep_inv: "async_step\<^sup>*\<^sup>* sa sa' \<Longrightarrow> async_inv (fst sa) (snd sa) \<Longrightarrow> async_inv (fst sa') (snd sa')"
  by (induction rule: rtranclp_induct) (use step_keeps_inv in blast)+

lemma reachable_inv: "reachable_async s A \<Longrightarrow> async_inv s A"
  using steps_keep_inv [of "(initial_async, [])" "(s, A)"] initial_inv by (simp add: reachable_async_def)

section \<open>The end of the thread\<close>

text \<open>How many steps the thread needs at most to reach its end once it was asked to stop.\<close>

definition steps_to_end :: "'j async \<Rightarrow> nat" where
  "steps_to_end s =
     (let n = length (as_joblist s); check = (if n = 0 then 1 else 2 * n + 5) in
      case as_pc s of
        Start \<Rightarrow> check + 2 | Top \<Rightarrow> check + 1 | Check _ _ \<Rightarrow> check
      | After_Wait _ no_job \<Rightarrow> if no_job then check + 1 else 2 * n + 4
      | Drain \<Rightarrow> 2 * n + 3 | Running _ \<Rightarrow> 2 * n + 4 | _ \<Rightarrow> 0)"

text \<open>A thread on its way to the end: it is there, awake, and ends only with an empty list.\<close>

definition ending :: "'j async \<Rightarrow> bool" where
  "ending s \<longleftrightarrow> as_stop_processing s \<and> as_pc s \<noteq> No_Thread \<and> (\<forall>timed. as_pc s \<noteq> Asleep timed) \<and> (as_pc s = Done \<longrightarrow> as_joblist s = [])"

lemma thread_ends:
  assumes "ending s" "as_pc s \<noteq> Done"
  shows "ending (async_thread now s) \<and> steps_to_end (async_thread now s) < steps_to_end s"
proof (cases "as_pc s")
  case Drain
  then show ?thesis
    using assms by (cases "as_joblist s") (auto simp: ending_def steps_to_end_def async_thread_def get_next_job_def)
next
  case (Check timed out)
  then show ?thesis
    using assms by (auto simp: ending_def steps_to_end_def async_thread_def wait_data_def wait_timer_and_data_def)
qed (use assms in \<open>auto simp: ending_def steps_to_end_def async_thread_def timer_wake_up_def Let_def\<close>)

lemma done_stays: "as_pc s = Done \<Longrightarrow> fold async_thread es s = s"
  by (induction es) (simp_all add: async_thread_def)

lemma thread_reaches_end: "ending s \<Longrightarrow> steps_to_end s \<le> length es \<Longrightarrow>
   as_pc (fold async_thread es s) = Done \<and> as_joblist (fold async_thread es s) = []"
proof (induction es arbitrary: s)
  case Nil
  then show ?case by (auto simp: ending_def steps_to_end_def Let_def split: thread_pc.splits if_splits)
next
  case (Cons e es)
  show ?case
  proof (cases "as_pc s = Done")
    case True
    then show ?thesis using Cons.prems(1) done_stays [OF True, of "e # es"] by (simp add: ending_def)
  next
    case False
    then show ?thesis using Cons.IH [of "async_thread e s"] Cons.prems thread_ends [OF Cons.prems(1) False, of e] by simp
  qed
qed

lemma thread_steps_keep_inv: "async_inv s A \<Longrightarrow> async_inv (fold async_thread es s) A"
  by (induction es arbitrary: s) (simp_all add: thread_keeps_inv)

lemma exit_ending: "as_is_initialized s \<Longrightarrow> as_pc s \<notin> {No_Thread, Done} \<Longrightarrow> ending (prelude_async_exit s)"
  by (cases "as_pc s") (simp_all add: ending_def prelude_async_exit_def cond_signal_def)

lemma exit_steps_to_end: "steps_to_end (prelude_async_exit s) \<le> 2 * length (as_joblist s) + 7"
  by (cases "as_pc s") (simp_all add: steps_to_end_def prelude_async_exit_def cond_signal_def Let_def)

section \<open>Properties\<close>

text \<open>
  C24. In every interleaving of the thread and of its clients, the jobs that were run, the one in hand and the ones that wait
  are, in this order, the jobs that were added and not taken back: none is lost, run twice, or overtaken. The thread never
  sleeps while a job waits, while it is asked to stop, or while the flags have changed.
\<close>

theorem async_runs_in_order:
  assumes "reachable_async s A"
  shows "as_run s @ in_hand s @ as_joblist s = A \<and> distinct A \<and>
    (as_pc s = Asleep timed \<longrightarrow> as_joblist s = [] \<and> \<not> as_stop_processing s \<and> as_flags s = as_nflags s)"
  using reachable_inv [OF assms] by (auto simp: async_inv_def)

text \<open>
  C25. After \<open>prelude_async_exit\<close> a thread that is not at its end and is left to run ends, within a number of steps that is
  bounded by twice the number of waiting jobs and a constant, and every job was run by then, in the order of addition.
  The call that waits for the end of the thread therefore returns.
\<close>

theorem async_exit_runs_all:
  assumes "reachable_async s A" "as_is_initialized s" "as_pc s \<notin> {No_Thread, Done}"
    and "2 * length (as_joblist s) + 7 \<le> length es"
  shows "as_pc (fold async_thread es (prelude_async_exit s)) = Done \<and> as_run (fold async_thread es (prelude_async_exit s)) = A"
proof -
  let ?e = "prelude_async_exit s"
  have inv: "async_inv s A" using assms(1) by (rule reachable_inv)
  have "ending ?e" "steps_to_end ?e \<le> length es"
    using exit_ending [OF assms(2,3)] exit_steps_to_end [of s] assms(4) by simp_all
  then have "as_pc (fold async_thread es ?e) = Done \<and> as_joblist (fold async_thread es ?e) = []" by (rule thread_reaches_end)
  moreover have "async_inv (fold async_thread es ?e) A" using inv by (intro thread_steps_keep_inv exit_keeps_inv)
  ultimately show ?thesis by (auto simp: async_inv_def in_hand_def)
qed

section \<open>Witnesses\<close>

text \<open>Two jobs are added to a thread that has just started.\<close>

definition two_jobs :: "nat async" where
  "two_jobs = prelude_async_add 8 (prelude_async_add 7 (async_thread (0, 0) (snd (prelude_async_init 0 0 initial_async))))"

lemma two_jobs_reachable: "reachable_async two_jobs [7, 8]"
proof -
  let ?s1 = "snd (prelude_async_init 0 0 (initial_async :: nat async))"
  let ?s2 = "async_thread (0, 0) ?s1"
  have 1: "async_step (initial_async, []) (?s1, [])" by (rule async_step.init)
  have 2: "async_step (?s1, []) (?s2, [])" by (rule async_step.thread)
  have 3: "async_step (?s2, []) (prelude_async_add 7 ?s2, [] @ [7])" by (rule async_step.add) simp
  have 4: "async_step (prelude_async_add 7 ?s2, [] @ [7]) (two_jobs, ([] @ [7]) @ [8])"
    unfolding two_jobs_def by (rule async_step.add) simp
  have "async_step\<^sup>*\<^sup>* (initial_async, []) (two_jobs, ([] @ [7]) @ [8])"
    by (rule rtranclp.rtrancl_into_rtrancl, rule rtranclp.rtrancl_into_rtrancl, rule rtranclp.rtrancl_into_rtrancl,
        rule rtranclp.rtrancl_into_rtrancl, rule rtranclp.rtrancl_refl, rule 1, rule 2, rule 3, rule 4)
  then show ?thesis by (simp add: reachable_async_def)
qed

lemma async_runs_in_order_witness: "as_run two_jobs @ in_hand two_jobs @ as_joblist two_jobs = [7, 8]"
  using async_runs_in_order [OF two_jobs_reachable, of True] by simp

lemma async_exit_runs_all_witness: "as_run (fold async_thread (replicate 11 (0, 0)) (prelude_async_exit two_jobs)) = [7, 8]"
proof -
  have "as_is_initialized two_jobs" "as_pc two_jobs \<notin> {No_Thread, Done}" "2 * length (as_joblist two_jobs) + 7 \<le> length (replicate 11 (0, 0))"
    by (simp_all add: two_jobs_def prelude_async_add_def cond_signal_def async_thread_def prelude_async_init_def do_init_async_def initial_async_def)
  then show ?thesis using async_exit_runs_all [OF two_jobs_reachable] by blast
qed

end
