(* ===== verification/Variable.thy ===== *)
theory Variable
  imports PError
begin

text \<open>
  Configuration variables (\<open>src/variable.c\<close>): a global list of names and values, searched without regard to
  case. A list in HOL stands for the linked list; a null value is \<open>None\<close>. \<open>mem_ok n\<close> tells whether
  the \<open>n\<close>-th allocation of the call succeeds.
\<close>

section \<open>Operations\<close>

type_synonym variable = "byte list \<times> byte list option"

definition tolower :: "byte \<Rightarrow> byte" where
  "tolower c = (if 65 \<le> c \<and> c \<le> 90 then c + 32 else c)"

abbreviation lower :: "byte list \<Rightarrow> byte list" where
  "lower \<equiv> map tolower"

text \<open>The returned item together with the lists before and behind it.\<close>

fun search_entry :: "variable list \<Rightarrow> byte list \<Rightarrow> (variable list \<times> variable \<times> variable list) option" where
  "search_entry [] variable = None"
| "search_entry (item # vs) variable =
     (if lower (fst item) = lower variable then Some ([], item, vs)
      else map_option (\<lambda>(before, it, behind). (item # before, it, behind)) (search_entry vs variable))"

definition create_entry ::
  "(nat \<Rightarrow> bool) \<Rightarrow> variable list \<Rightarrow> byte list \<Rightarrow> byte list option \<Rightarrow> unit result \<times> variable list" where
  "create_entry mem_ok vs variable value =
     (if \<not> mem_ok 0 \<or> \<not> mem_ok 1 then (Inl PRELUDE_ERROR_ENOMEM, vs)
      else if value \<noteq> None \<and> \<not> mem_ok 2 then (Inl PRELUDE_ERROR_ENOMEM, vs)
      else (Inr (), vs @ [(variable, value)]))"

definition destroy_variable :: "variable list \<times> variable \<times> variable list \<Rightarrow> variable list" where
  "destroy_variable found = (case found of (before, _, behind) \<Rightarrow> before @ behind)"

definition variable_get :: "variable list \<Rightarrow> byte list \<Rightarrow> byte list option" where
  "variable_get vs variable =
     (case search_entry vs variable of Some (_, item, _) \<Rightarrow> snd item | None \<Rightarrow> None)"

definition variable_set ::
  "(nat \<Rightarrow> bool) \<Rightarrow> variable list \<Rightarrow> byte list \<Rightarrow> byte list option \<Rightarrow> int \<times> variable list" where
  "variable_set mem_ok vs variable value =
     (case search_entry vs variable of
        None \<Rightarrow> (case create_entry mem_ok vs variable value of
          (ret, vs') \<Rightarrow> (if ret = Inr () then 0 else - 1, vs'))
      | Some (before, item, behind) \<Rightarrow>
          (0, before @ (fst item, if mem_ok 0 then value else None) # behind))"

definition variable_unset :: "variable list \<Rightarrow> byte list \<Rightarrow> int \<times> variable list" where
  "variable_unset vs variable =
     (case search_entry vs variable of
        None \<Rightarrow> (- 1, vs)
      | Some found \<Rightarrow> (0, destroy_variable found))"

definition variable_unset_all :: "variable list \<Rightarrow> variable list" where
  "variable_unset_all vs = fold (\<lambda>item vs. destroy_variable ([], item, tl vs)) vs vs"

section \<open>A dictionary with an equivalence on its keys\<close>

text \<open>A history of assignments and removals (the flag), and the value that the last of them leaves.\<close>

fun run_history :: "('s \<Rightarrow> 'k \<Rightarrow> 'v option \<Rightarrow> 's) \<Rightarrow> ('s \<Rightarrow> 'k \<Rightarrow> 's) \<Rightarrow> 's \<Rightarrow> ('k \<times> 'v option \<times> bool) list \<Rightarrow> 's" where
  "run_history put delete s [] = s"
| "run_history put delete s ((k, v, del) # h) = run_history put delete (if del then delete s k else put s k v) h"

fun last_value :: "('k \<Rightarrow> 'n) \<Rightarrow> 'v option \<Rightarrow> 'n \<Rightarrow> ('k \<times> 'v option \<times> bool) list \<Rightarrow> 'v option" where
  "last_value norm v0 n [] = v0"
| "last_value norm v0 n ((k, v, del) # h) =
     last_value norm (if norm k = n then if del then None else v else v0) n h"

text \<open>What a client expects of \<open>get\<close>, \<open>set\<close> and \<open>unset\<close>; \<open>norm\<close> identifies keys.\<close>

locale dictionary =
  fixes norm :: "'k \<Rightarrow> 'n"
    and get :: "'s \<Rightarrow> 'k \<Rightarrow> 'v option"
    and put :: "'s \<Rightarrow> 'k \<Rightarrow> 'v option \<Rightarrow> 's"
    and delete :: "'s \<Rightarrow> 'k \<Rightarrow> 's"
    and ok :: "'s \<Rightarrow> bool"
  assumes get_put: "ok s \<Longrightarrow> get (put s k v) k' = (if norm k' = norm k then v else get s k')"
    and get_delete: "ok s \<Longrightarrow> get (delete s k) k' = (if norm k' = norm k then None else get s k')"
    and ok_put: "ok s \<Longrightarrow> ok (put s k v)"
    and ok_delete: "ok s \<Longrightarrow> ok (delete s k)"
begin

lemma run_get:
  "ok s \<Longrightarrow> ok (run_history put delete s h) \<and>
     get (run_history put delete s h) k = last_value norm (get s k) (norm k) h"
proof (induction h arbitrary: s)
  case (Cons op h)
  then show ?case by (cases op) (simp add: get_put get_delete ok_put ok_delete)
qed simp

end

section \<open>The variables are such a dictionary\<close>

definition variables_ok :: "variable list \<Rightarrow> bool" where
  "variables_ok vs \<longleftrightarrow> distinct (map (lower \<circ> fst) vs)"

text \<open>The list as a map on lower case names, to values that may be null.\<close>

definition vmap :: "variable list \<Rightarrow> byte list \<Rightarrow> byte list option option" where
  "vmap vs = map_of (map (\<lambda>(k, v). (lower k, v)) vs)"

lemma vmap_simps [simp]:
  "vmap [] n = None" "vmap (item # vs) n = (if n = lower (fst item) then Some (snd item) else vmap vs n)"
  "vmap (xs @ ys) n = (case vmap xs n of None \<Rightarrow> vmap ys n | Some v \<Rightarrow> Some v)"
  by (auto simp: vmap_def map_add_def case_prod_beta split: option.splits)

lemma vmap_None: "vmap vs n = None \<longleftrightarrow> n \<notin> lower ` fst ` set vs"
  by (induction vs) auto

lemma variable_get_vmap: "variable_get vs k = Option.bind (vmap vs (lower k)) id"
proof (induction vs)
  case (Cons item vs)
  then show ?case by (cases "search_entry vs k") (auto simp: variable_get_def)
qed (simp add: variable_get_def)

lemma search_entry_None: "search_entry vs k = None \<longleftrightarrow> vmap vs (lower k) = None"
  by (induction vs) auto

lemma search_entry_Some:
  "search_entry vs k = Some (before, item, behind) \<Longrightarrow>
     vs = before @ item # behind \<and> lower (fst item) = lower k \<and> vmap before (lower k) = None"
  by (induction vs arbitrary: before) (auto split: if_splits)

lemma variable_set_map:
  assumes "\<And>n. mem_ok n"
  shows "fst (variable_set mem_ok vs k v) = 0"
    "vmap (snd (variable_set mem_ok vs k v)) = (vmap vs)(lower k \<mapsto> v)"
    "variables_ok vs \<Longrightarrow> variables_ok (snd (variable_set mem_ok vs k v))"
proof -
  show "fst (variable_set mem_ok vs k v) = 0"
    using assms by (auto simp: variable_set_def create_entry_def split: option.splits)
  show "vmap (snd (variable_set mem_ok vs k v)) = (vmap vs)(lower k \<mapsto> v)"
    using assms
    by (auto simp: fun_eq_iff variable_set_def create_entry_def search_entry_None
        dest!: search_entry_Some split: option.splits)
  show "variables_ok (snd (variable_set mem_ok vs k v))" if "variables_ok vs"
  proof (cases "search_entry vs k")
    case None
    then have "lower k \<notin> lower ` fst ` set vs" by (simp add: search_entry_None vmap_None)
    then show ?thesis
      using that None assms by (auto simp: variable_set_def create_entry_def variables_ok_def image_iff)
  next
    case (Some found)
    then obtain before item behind where f: "found = (before, item, behind)" "vs = before @ item # behind"
      using search_entry_Some by (cases found) blast
    then have "map (lower \<circ> fst) (snd (variable_set mem_ok vs k v)) = map (lower \<circ> fst) vs"
      using Some by (simp add: variable_set_def)
    then show ?thesis using that by (simp only: variables_ok_def)
  qed
qed

lemma variable_unset_map:
  assumes "variables_ok vs"
  shows "fst (variable_unset vs k) = (if vmap vs (lower k) = None then - 1 else 0)"
    "vmap (snd (variable_unset vs k)) = (vmap vs)(lower k := None)"
    "variables_ok (snd (variable_unset vs k))"
proof -
  show "fst (variable_unset vs k) = (if vmap vs (lower k) = None then - 1 else 0)"
    by (auto simp: variable_unset_def search_entry_None [symmetric] split: option.splits)
  show "vmap (snd (variable_unset vs k)) = (vmap vs)(lower k := None)"
  proof (cases "search_entry vs k")
    case None
    then have "vmap vs (lower k) = None" by (simp only: search_entry_None)
    then show ?thesis using None by (simp add: variable_unset_def fun_upd_idem)
  next
    case (Some found)
    then obtain before item behind where f: "found = (before, item, behind)" "vs = before @ item # behind"
      "lower (fst item) = lower k" "vmap before (lower k) = None"
      using search_entry_Some by (metis prod_cases3)
    have "lower (fst item) \<notin> lower ` fst ` set behind"
      using assms unfolding variables_ok_def f(2) by (simp add: image_image)
    then have "vmap behind (lower k) = None" by (simp only: vmap_None f(3) simp_thms)
    with f have "vmap (before @ behind) n = ((vmap vs)(lower k := None)) n" for n by (simp split: option.split)
    then show ?thesis using Some f(1) by (simp add: variable_unset_def destroy_variable_def fun_eq_iff)
  qed
  show "variables_ok (snd (variable_unset vs k))"
  proof (cases "search_entry vs k")
    case (Some found)
    then obtain before item behind where f: "found = (before, item, behind)" "vs = before @ item # behind"
      using search_entry_Some by (metis prod_cases3)
    then show ?thesis
      using assms Some by (simp add: variable_unset_def destroy_variable_def variables_ok_def)
  qed (use assms in \<open>simp add: variable_unset_def\<close>)
qed

interpretation vars: dictionary lower variable_get "\<lambda>vs k v. snd (variable_set (\<lambda>_. True) vs k v)"
    "\<lambda>vs k. snd (variable_unset vs k)" variables_ok
  by unfold_locales (simp_all add: variable_set_map variable_unset_map variable_get_vmap)

lemma variable_unset_all_Nil: "variable_unset_all vs = []"
proof -
  have "fold (\<lambda>item vs. destroy_variable ([], item, tl vs)) xs ys = drop (length xs) ys" for xs ys :: "variable list"
    by (induction xs arbitrary: ys) (simp_all add: destroy_variable_def drop_Suc)
  then show ?thesis by (simp add: variable_unset_all_def)
qed

definition run_variables :: "variable list \<Rightarrow> (byte list \<times> byte list option \<times> bool) list \<Rightarrow> variable list" where
  "run_variables = run_history (\<lambda>vs k v. snd (variable_set (\<lambda>_. True) vs k v)) (\<lambda>vs k. snd (variable_unset vs k))"

text \<open>
  C34: Whatever sequence of assignments and removals was made, a variable has the value of the last of them that
  named it, in whatever case, and names stay unique up to case; removing a variable reports whether it was there, and removing
  all leaves none.
\<close>

theorem variables_keep_last_value:
  assumes "variables_ok vs"
  shows "variable_get (run_variables vs h) k = last_value lower (variable_get vs k) (lower k) h \<and>
    variables_ok (run_variables vs h) \<and>
    fst (variable_set (\<lambda>_. True) vs k v) = 0 \<and>
    (fst (variable_unset vs k) = 0 \<longleftrightarrow> lower k \<in> lower ` fst ` set vs) \<and>
    variable_get (variable_unset_all vs) k = None"
  using vars.run_get [OF assms, of h k] variable_unset_map(1) [OF assms, of k]
  by (simp add: run_variables_def variable_set_map variable_unset_all_Nil variable_get_vmap vmap_None)

theorem variables_keep_last_value_witness:
  "variables_ok [([65], Some [1])] \<and>
   variable_get (run_variables [([65], Some [1])] [([97], Some [2], False), ([98], Some [3], False), ([66], None, True)]) [65] = Some [2]"
  using variables_keep_last_value [of "[([65], Some [1])]" "[([97], Some [2], False), ([98], Some [3], False), ([66], None, True)]" "[65]"]
  by (simp add: variables_ok_def tolower_def)

end
