(* ===== verification/Config.thy ===== *)
theory Config
  imports Variable
begin

text \<open>
  Configuration files (\<open>src/config-engine.c\<close>): the file as an array of lines, with operations that look up, set and
  remove entries and sections. A C string is the list of its bytes before the terminating zero, and a null pointer is
  \<open>None\<close>. A line that assigns to a name that begins with \<open>$\<close> sets a variable (\<open>src/variable.c\<close>) whenever it is parsed, so
  every function that parses lines takes and returns the variables. The result \<open>None\<close> stands for undefined behaviour: an
  access outside of the array or through a null pointer, or a recursion that does not end. Memory suffices.
\<close>

section \<open>Lines\<close>

abbreviation str :: "string \<Rightarrow> byte list" where
  "str \<equiv> map of_char"

abbreviation (input) TAB :: byte where "TAB \<equiv> 9"
abbreviation (input) LF :: byte where "LF \<equiv> 10"
abbreviation (input) CR :: byte where "CR \<equiv> 13"
abbreviation (input) SPACE :: byte where "SPACE \<equiv> 32"
abbreviation (input) QUOTE :: byte where "QUOTE \<equiv> 34"
abbreviation (input) HASH :: byte where "HASH \<equiv> 35"
abbreviation (input) DOLLAR :: byte where "DOLLAR \<equiv> 36"
abbreviation (input) EQUALS :: byte where "EQUALS \<equiv> 61"
abbreviation (input) OPEN_BRACKET :: byte where "OPEN_BRACKET \<equiv> 91"
abbreviation (input) CLOSE_BRACKET :: byte where "CLOSE_BRACKET \<equiv> 93"

type_synonym line = "byte list"

record config =
  cf_content :: "line list option"
  cf_need_sync :: bool

text \<open>The lines of the array, none for a null pointer; their number is \<open>elements\<close>.\<close>

definition cf_lines :: "config \<Rightarrow> line list" where
  "cf_lines cfg = (case cf_content cfg of None \<Rightarrow> [] | Some ls \<Rightarrow> ls)"

abbreviation elements :: "config \<Rightarrow> nat" where
  "elements cfg \<equiv> length (cf_lines cfg)"

definition is_line_commented :: "line \<Rightarrow> bool" where
  "is_line_commented l = (case dropWhile (\<lambda>c. c \<in> {SPACE, TAB, CR}) l of [] \<Rightarrow> False | c # _ \<Rightarrow> c = HASH)"

definition is_section :: "line \<Rightarrow> bool" where
  "is_section l = (case dropWhile (\<lambda>c. c \<in> {SPACE, TAB, CR, LF}) l of
     [] \<Rightarrow> False | c # cs \<Rightarrow> c = OPEN_BRACKET \<and> CLOSE_BRACKET \<in> set cs)"

section \<open>The array of lines\<close>

text \<open>
  The return value is \<open>0\<close>, \<open>-1\<close>, or that of another error. \<open>realloc0\<close> tells what \<open>realloc\<close> does when all lines are gone: it
  returns a block (\<open>None\<close>), or a null pointer, which is reported as the given error.
\<close>

definition op_delete_line :: "int option \<Rightarrow> config \<Rightarrow> nat \<Rightarrow> nat \<Rightarrow> int \<times> config" where
  "op_delete_line realloc0 cfg start ending =
     (if elements cfg = 0 then (0, cfg)
      else if ending \<le> start \<or> elements cfg < ending then (- 1, cfg)
      else let ls = take start (cf_lines cfg) @ drop ending (cf_lines cfg) in
           if ls = [] \<and> realloc0 \<noteq> None then (the realloc0, cfg\<lparr>cf_content := None\<rparr>)
           else (0, cfg\<lparr>cf_content := Some ls\<rparr>))"

text \<open>The number of lines is an \<open>unsigned int\<close>; no line can be added to \<open>max_elements\<close> of them.\<close>

definition max_elements :: nat where "max_elements = 2 ^ 32 - 1"

definition op_append_line :: "config \<Rightarrow> line option \<Rightarrow> int \<times> config" where
  "op_append_line cfg l =
     (case l of None \<Rightarrow> (0, cfg)
      | Some s \<Rightarrow> if elements cfg = max_elements then (- 1, cfg)
                 else (0, cfg\<lparr>cf_content := Some (cf_lines cfg @ [s])\<rparr>))"

fun next_section :: "line list \<Rightarrow> nat" where
  "next_section [] = 0"
| "next_section (l # ls) = (if is_section l then 0 else Suc (next_section ls))"

definition adjust_insertion_point :: "config \<Rightarrow> nat \<Rightarrow> nat" where
  "adjust_insertion_point cfg l =
     (if l < elements cfg then Suc l + next_section (drop (Suc l) (cf_lines cfg)) else l)"

text \<open>
  The loop that moves the lines up counts down from \<open>elements - 2\<close>, for the new number of elements: when there was none, it
  starts at the largest unsigned number and reads far behind the array.
\<close>

definition op_insert_line :: "config \<Rightarrow> line option \<Rightarrow> nat \<Rightarrow> (int \<times> config) option" where
  "op_insert_line cfg l lins =
     (if elements cfg < lins \<or> l = None then Some (- 1, cfg)
      else if elements cfg = max_elements then Some (- 1, cfg)
      else if elements cfg = 0 then None
      else Some (0, cfg\<lparr>cf_content := Some (take lins (cf_lines cfg) @ the l # drop lins (cf_lines cfg))\<rparr>))"

section \<open>Parsing a line\<close>

definition is_blank :: "byte \<Rightarrow> bool" where
  "is_blank c \<longleftrightarrow> c \<in> {SPACE, TAB, CR}"

text \<open>
  Blanks around the text and a pair of quotes are removed. An opening quote without a closing one stays; it also stops
  the removal of blanks from the end.
\<close>

definition strip_value :: "byte list \<Rightarrow> byte list option" where
  "strip_value s =
     (let t = dropWhile is_blank s;
          quoted = (t \<noteq> [] \<and> hd t = QUOTE);
          u = rev (dropWhile is_blank (rev (if quoted then tl t else t)));
          out = (if quoted \<and> u \<noteq> [] then if last u = QUOTE then butlast u else QUOTE # u else u)
      in if out = [] then None else Some out)"

text \<open>A reference is a \<open>$\<close> and the text up to the next space or \<open>$\<close>; an unknown one is kept as it is.\<close>

definition reference_name :: "byte list \<Rightarrow> byte list" where
  "reference_name s = take 510 (takeWhile (\<lambda>c. c \<noteq> SPACE \<and> c \<noteq> DOLLAR) s)"

function value_resolve_variable :: "variable list \<Rightarrow> byte list \<Rightarrow> byte list" where
  "value_resolve_variable vs [] = []"
| "value_resolve_variable vs (c # cs) =
     (if c = DOLLAR
      then (case variable_get vs (reference_name cs) of
              Some v \<Rightarrow> v @ value_resolve_variable vs (drop (length (reference_name cs)) cs)
            | None \<Rightarrow> c # value_resolve_variable vs cs)
      else c # value_resolve_variable vs cs)"
  by pat_completeness auto
termination by (relation "measure (length \<circ> snd)") auto

text \<open>The empty string is returned as a null pointer.\<close>

definition released :: "byte list \<Rightarrow> byte list option" where
  "released s = (if s = [] then None else Some s)"

text \<open>Return value, entry, value, and the variables.\<close>

type_synonym parsed = "(int \<times> line option \<times> line option) \<times> variable list"

definition parse_buffer :: "variable list \<Rightarrow> line \<Rightarrow> parsed option" where
  "parse_buffer vs s =
     (if s = [] then Some ((- 1, None, None), vs)
      else let name = takeWhile (\<lambda>c. c \<noteq> EQUALS) s; entry = strip_value name in
        if name = s then Some ((0, entry, None), vs)
        else
          let value = Option.bind (strip_value (drop (Suc (length name)) s)) (released \<circ> value_resolve_variable vs) in
          case entry of
            None \<Rightarrow> None
          | Some e \<Rightarrow> if hd e = DOLLAR
                     then (case variable_set (\<lambda>_. True) vs (tl e) value of (ret, vs') \<Rightarrow> Some ((ret, entry, value), vs'))
                     else Some ((0, entry, value), vs))"

definition parse_section_buffer :: "variable list \<Rightarrow> line \<Rightarrow> bool \<Rightarrow> parsed option" where
  "parse_section_buffer vs buf default_value =
     (case parse_buffer vs (takeWhile (\<lambda>c. c \<noteq> CLOSE_BRACKET) (dropWhile (\<lambda>c. c \<in> {LF, SPACE, OPEN_BRACKET}) buf)) of
        None \<Rightarrow> None
      | Some ((ret, entry, value), vs') \<Rightarrow>
          Some ((ret, entry, if value = None \<and> default_value then Some (str ''default'') else value), vs'))"

section \<open>Searching\<close>

text \<open>\<open>strcasecmp\<close>; a null pointer as argument is undefined.\<close>

definition strcasecmp_eq :: "line option \<Rightarrow> line option \<Rightarrow> bool option" where
  "strcasecmp_eq a b = (case (a, b) of (Some x, Some y) \<Rightarrow> Some (lower x = lower y) | _ \<Rightarrow> None)"

text \<open>The loop of \<open>search_section\<close>, on the lines from number \<open>i\<close> on.\<close>

fun search_section_from ::
  "variable list \<Rightarrow> line option \<Rightarrow> line option \<Rightarrow> nat \<Rightarrow> line list \<Rightarrow> (int \<times> variable list) option" where
  "search_section_from vs wentry wvalue i [] = Some (- 1, vs)"
| "search_section_from vs wentry wvalue i (l # ls) =
     (if is_line_commented l \<or> \<not> is_section l then search_section_from vs wentry wvalue (Suc i) ls
      else case parse_section_buffer vs l True of
        None \<Rightarrow> None
      | Some ((ret, entry, value), vs') \<Rightarrow>
          if ret < 0 then search_section_from vs' wentry wvalue (Suc i) ls
          else case strcasecmp_eq entry wentry of
            None \<Rightarrow> None
          | Some False \<Rightarrow> search_section_from vs' wentry wvalue (Suc i) ls
          | Some True \<Rightarrow> (case strcasecmp_eq value wvalue of
              None \<Rightarrow> None
            | Some False \<Rightarrow> search_section_from vs' wentry wvalue (Suc i) ls
            | Some True \<Rightarrow> Some (int i, vs')))"

definition search_section :: "variable list \<Rightarrow> config \<Rightarrow> line \<Rightarrow> nat \<Rightarrow> (int \<times> variable list) option" where
  "search_section vs cfg sec i =
     (if cf_content cfg = None then Some (- 1, vs)
      else case parse_section_buffer vs sec True of
        None \<Rightarrow> None
      | Some ((ret, wentry, wvalue), vs') \<Rightarrow>
          if ret < 0 then Some (ret, vs') else search_section_from vs' wentry wvalue i (drop i (cf_lines cfg)))"

text \<open>
  The loop of \<open>search_entry\<close>; \<open>sectioned\<close> tells whether a section was given, which is all that the code uses of it: its test
  \<open>! index\<close>, in front of the search for the section, is never true, as the pointer was read before.
\<close>

datatype found = Not_Found | Found nat line "line option"

fun search_entry_from :: "variable list \<Rightarrow> bool \<Rightarrow> line \<Rightarrow> nat \<Rightarrow> line list \<Rightarrow> (found \<times> variable list) option" where
  "search_entry_from vs sectioned entry i [] = Some (Not_Found, vs)"
| "search_entry_from vs sectioned entry i (l # ls) =
     (if sectioned \<and> is_section l then Some (Not_Found, vs)
      else case parse_buffer vs l of
        None \<Rightarrow> None
      | Some ((ret, eout, vout), vs') \<Rightarrow>
          (case eout of
             None \<Rightarrow> search_entry_from vs' sectioned entry (Suc i) ls
           | Some e \<Rightarrow> if ret < 0 then search_entry_from vs' sectioned entry (Suc i) ls
                      else if entry = e then Some (Found i e vout, vs')
                      else search_entry_from vs' sectioned entry (Suc i) ls))"

definition search_entry_line :: "variable list \<Rightarrow> config \<Rightarrow> bool \<Rightarrow> line \<Rightarrow> nat \<Rightarrow> (found \<times> variable list) option" where
  "search_entry_line vs cfg sectioned entry index =
     (if cf_content cfg = None \<or> elements cfg \<le> index then Some (Not_Found, vs)
      else search_entry_from vs sectioned entry index (drop index (cf_lines cfg)))"

section \<open>Changing entries\<close>

definition create_new_line :: "line option \<Rightarrow> line option \<Rightarrow> line option" where
  "create_new_line entry val =
     (case entry of None \<Rightarrow> None
      | Some e \<Rightarrow> Some (case val of Some v \<Rightarrow> e @ EQUALS # v | None \<Rightarrow> e))"

definition op_modify_line :: "config \<Rightarrow> nat \<Rightarrow> line option \<Rightarrow> config" where
  "op_modify_line cfg i nline =
     (case nline of None \<Rightarrow> cfg | Some l \<Rightarrow> cfg\<lparr>cf_content := Some ((cf_lines cfg)[i := l])\<rparr>)"

text \<open>The results are the return value, the index, the configuration and the variables.\<close>

type_synonym edited = "int \<times> nat \<times> config \<times> variable list"

definition new_entry_line :: "variable list \<Rightarrow> config \<Rightarrow> line \<Rightarrow> line option \<Rightarrow> nat \<Rightarrow> edited option" where
  "new_entry_line vs cfg entry val index =
     (case search_entry_line vs cfg False entry index of
        None \<Rightarrow> None
      | Some (Not_Found, vs') \<Rightarrow>
          map_option (\<lambda>(ret, cfg'). (ret, index, cfg', vs')) (op_insert_line cfg (create_new_line (Some entry) val) index)
      | Some (Found i _ _, vs') \<Rightarrow> Some (0, i, op_modify_line cfg i (create_new_line (Some entry) val), vs'))"

text \<open>The new section is printed into a buffer of 1024 bytes.\<close>

definition section_line :: "line \<Rightarrow> line" where
  "section_line sec = take 1023 (OPEN_BRACKET # sec @ [CLOSE_BRACKET])"

definition new_section_line ::
  "variable list \<Rightarrow> config \<Rightarrow> line \<Rightarrow> line option \<Rightarrow> line option \<Rightarrow> nat \<Rightarrow> edited option" where
  "new_section_line vs cfg sec entry val index =
     (case search_section vs cfg sec index of
        None \<Rightarrow> None
      | Some (ret, vs') \<Rightarrow>
          if ret < 0
          then let index' = (if index \<noteq> 0 then adjust_insertion_point cfg index else elements cfg) in
            (case op_insert_line cfg (Some (section_line sec)) index' of
               None \<Rightarrow> None
             | Some (ret, cfg') \<Rightarrow>
                 if ret < 0 \<or> entry = None then Some (ret, index', cfg', vs')
                 else map_option (\<lambda>(ret, cfg''). (ret, index', cfg'', vs'))
                        (op_insert_line cfg' (create_new_line entry val) (Suc index')))
          else let index' = nat ret in
            (case entry of
               None \<Rightarrow> Some (0, index', cfg, vs')
             | Some e \<Rightarrow>
                 (case search_entry_line vs' cfg True e (Suc index') of
                    None \<Rightarrow> None
                  | Some (Not_Found, vs'') \<Rightarrow>
                      map_option (\<lambda>(ret, cfg'). (ret, index', cfg', vs'')) (op_insert_line cfg (create_new_line entry val) (Suc index'))
                  | Some (Found i _ _, vs'') \<Rightarrow> Some (0, index', op_modify_line cfg i (create_new_line entry val), vs''))))"

text \<open>An entry is required when no section is given; a null pointer is undefined there.\<close>

definition config_set ::
  "variable list \<Rightarrow> config \<Rightarrow> line option \<Rightarrow> line option \<Rightarrow> line option \<Rightarrow> nat \<Rightarrow> edited option" where
  "config_set vs cfg sec entry val index =
     map_option (\<lambda>(ret, index', cfg', vs'). (ret, index', if ret = 0 then cfg'\<lparr>cf_need_sync := True\<rparr> else cfg', vs'))
       (case sec of
          Some s \<Rightarrow> new_section_line vs cfg s entry val index
        | None \<Rightarrow> (case entry of None \<Rightarrow> None | Some e \<Rightarrow> new_entry_line vs cfg e val index))"

text \<open>
  Removing an entry takes the return value of \<open>search_entry\<close>, which is \<open>0\<close> when the entry was found, for the number of its line.
\<close>

fun section_start :: "line list \<Rightarrow> nat \<Rightarrow> nat" where
  "section_start ls (Suc (Suc n)) =
     (if ls ! Suc n = [] \<and> ls ! n = [] then section_start ls (Suc n) else Suc (Suc n))"
| "section_start ls n = n"

definition config_del ::
  "int option \<Rightarrow> variable list \<Rightarrow> config \<Rightarrow> line option \<Rightarrow> line option \<Rightarrow> (int \<times> config \<times> variable list) option" where
  "config_del realloc0 vs cfg sec entry =
     (case entry of
        None \<Rightarrow> (case sec of None \<Rightarrow> None | Some s \<Rightarrow>
          (case search_section vs cfg s 0 of
             None \<Rightarrow> None
           | Some (start, vs') \<Rightarrow>
               if start < 0 then Some (start, cfg, vs')
               else let ending = Suc (nat start) + next_section (drop (Suc (nat start)) (cf_lines cfg));
                        (ret, cfg') = op_delete_line realloc0 (cfg\<lparr>cf_need_sync := True\<rparr>)
                                        (section_start (cf_lines cfg) (nat start)) ending
                    in Some (ret, cfg', vs')))
      | Some e \<Rightarrow>
          (case search_entry_line vs cfg (sec \<noteq> None) e 0 of
             None \<Rightarrow> None
           | Some (Not_Found, vs') \<Rightarrow> Some (- 1, cfg, vs')
           | Some (Found _ _ _, vs') \<Rightarrow>
               let start = 0; (ret, cfg') = op_delete_line realloc0 (cfg\<lparr>cf_need_sync := True\<rparr>) start (Suc start)
               in Some (ret, cfg', vs')))"

section \<open>Reading entries\<close>

text \<open>The loop of \<open>_config_get_next\<close>: return value, section, entry, value, the number of the next line, the variables.\<close>

type_synonym next_item = "(int \<times> line option \<times> line option \<times> line option \<times> nat) \<times> variable list"

fun get_next_from :: "variable list \<Rightarrow> nat \<Rightarrow> line list \<Rightarrow> next_item option" where
  "get_next_from vs i [] = Some ((- 1, None, None, None, i - 1), vs)"
| "get_next_from vs i (l # ls) =
     (let p = dropWhile is_blank l in
      if p = [] \<or> is_line_commented p then get_next_from vs (Suc i) ls
      else if is_section p
      then map_option (\<lambda>((ret, sec, value), vs'). ((ret, sec, None, value, Suc i), vs')) (parse_section_buffer vs p False)
      else case parse_buffer vs p of
        None \<Rightarrow> None
      | Some ((ret, entry, value), vs') \<Rightarrow>
          if 0 \<le> ret
          then (case entry of
                  None \<Rightarrow> None
                | Some e \<Rightarrow> if hd e = DOLLAR then get_next_from vs' (Suc i) ls
                           else Some ((ret, None, entry, value, Suc i), vs'))
          else Some ((ret, None, entry, value, Suc i), vs'))"

definition config_get_next :: "variable list \<Rightarrow> config \<Rightarrow> nat \<Rightarrow> next_item option" where
  "config_get_next vs cfg l =
     (if cf_content cfg = None \<or> elements cfg \<le> l then Some ((- 1, None, None, None, l), vs)
      else get_next_from vs l (drop l (cf_lines cfg)))"

definition config_get_section :: "variable list \<Rightarrow> config \<Rightarrow> line \<Rightarrow> nat \<Rightarrow> ((int \<times> nat) \<times> variable list) option" where
  "config_get_section vs cfg sec l =
     (if cf_content cfg = None then Some ((- 1, l), vs)
      else map_option (\<lambda>(ret, vs'). (if ret < 0 then (- 1, l) else (0, nat ret), vs')) (search_section vs cfg sec l))"

text \<open>
  The value of an entry, or \<open>None\<close> inside, with the new line number. An entry without a value is undefined: the value, a null pointer, is
  read. A value that refers to a variable is looked up among the variables, then in the file (\<open>get_variable_content\<close>), which calls
  this function again.
\<close>

partial_function (option) config_get ::
  "variable list \<Rightarrow> config \<Rightarrow> bool \<Rightarrow> line \<Rightarrow> nat \<Rightarrow> ((line option \<times> nat) \<times> variable list) option" where
  "config_get vs cfg sectioned entry l =
     (if cf_content cfg = None then Some ((None, l), vs)
      else case search_entry_line vs cfg sectioned entry (l - 1) of
        None \<Rightarrow> None
      | Some (Not_Found, vs') \<Rightarrow> Some ((None, l), vs')
      | Some (Found i _ None, vs') \<Rightarrow> None
      | Some (Found i _ (Some value), vs') \<Rightarrow>
          if value \<noteq> [] \<and> hd value = DOLLAR
          then (case variable_get vs' (tl value) of
                  Some var \<Rightarrow> Some ((Some var, Suc i), vs')
                | None \<Rightarrow>
                    Option.bind (config_get vs' cfg False (tl value) 0)
                      (\<lambda>((content, _), vs''). Some ((Some (case content of Some var \<Rightarrow> var | None \<Rightarrow> value), Suc i), vs'')))
          else Some ((Some value, Suc i), vs'))"

section \<open>Loading and writing the file\<close>

text \<open>\<open>fgets\<close> reads up to 1023 bytes, and not behind the end of a line.\<close>

definition fgets :: "byte list \<Rightarrow> byte list" where
  "fgets bytes = (let l = takeWhile (\<lambda>c. c \<noteq> LF) bytes in take 1023 (if l = bytes then l else l @ [LF]))"

lemma fgets_Nil [simp]: "fgets bytes = [] \<longleftrightarrow> bytes = []"
  by (cases bytes) (auto simp: fgets_def Let_def)

text \<open>
  The bytes of a chunk up to a zero are appended to the text of the line; a chunk that begins with a zero makes the code look at
  the byte in front of its buffer. The end of the file ends the last line, which may be empty.
\<close>

function load_lines :: "byte list \<Rightarrow> byte list \<Rightarrow> line list option" where
  "load_lines out bytes =
     (if bytes = [] then Some [out]
      else let chunk = takeWhile (\<lambda>c. c \<noteq> 0) (fgets bytes); rest = drop (length (fgets bytes)) bytes in
        if chunk = [] then None
        else if last chunk = LF then map_option ((#) (out @ butlast chunk)) (load_lines [] rest)
        else load_lines (out @ chunk) rest)"
  by pat_completeness auto
termination by (relation "measure (length \<circ> snd)") (auto intro!: diff_less)

declare load_lines.simps [simp del]

text \<open>The file, or the error of opening it. Every other error is lost: the function returns \<open>0\<close>.\<close>

definition load_file_in_memory :: "int + byte list \<Rightarrow> config \<Rightarrow> (int \<times> config) option" where
  "load_file_in_memory src cfg =
     (case src of
        Inl err \<Rightarrow> Some (err, cfg)
      | Inr bytes \<Rightarrow> map_option (\<lambda>ls. (0, fold (\<lambda>l cfg. snd (op_append_line cfg (Some l))) ls cfg)) (load_lines [] bytes))"

definition config_open :: "int + byte list \<Rightarrow> (int + config) option" where
  "config_open src =
     map_option (\<lambda>(ret, cfg). if ret < 0 then Inl ret else Inr cfg)
       (load_file_in_memory src \<lparr>cf_content = None, cf_need_sync = False\<rparr>)"

fun join_lines :: "line list \<Rightarrow> byte list" where
  "join_lines [] = []"
| "join_lines [l] = l"
| "join_lines (l # ls) = l @ LF # join_lines ls"

text \<open>\<open>cannot_write\<close> is the error of opening the file for writing, if any; otherwise the file is replaced.\<close>

definition sync_and_free_file_content :: "int option \<Rightarrow> config \<Rightarrow> byte list \<Rightarrow> int \<times> byte list" where
  "sync_and_free_file_content cannot_write cfg bytes =
     (case cannot_write of Some err \<Rightarrow> (err, bytes) | None \<Rightarrow> (0, join_lines (cf_lines cfg)))"

definition config_close :: "int option \<Rightarrow> config \<Rightarrow> byte list \<Rightarrow> int \<times> byte list" where
  "config_close cannot_write cfg bytes =
     (if cf_content cfg \<noteq> None \<and> cf_need_sync cfg then sync_and_free_file_content cannot_write cfg bytes else (0, bytes))"

end
