(* ===== verification/ConfigProps.thy ===== *)
theory ConfigProps
  imports Config
begin

text \<open>
  What configuration files are for: what is written is read back, an entry that was set is found, with and without a section.
  The last part shows where \<open>src/config-engine.c\<close> does not do what its callers expect.
\<close>

section \<open>The file\<close>

text \<open>The lines that a file can hold.\<close>

definition file_lines :: "line list \<Rightarrow> bool" where
  "file_lines ls \<longleftrightarrow> ls \<noteq> [] \<and> length ls \<le> max_elements \<and> (\<forall>l \<in> set ls. LF \<notin> set l \<and> 0 \<notin> set l)"

lemma join_lines_Cons: "ls \<noteq> [] \<Longrightarrow> join_lines (l # ls) = l @ LF # join_lines ls"
  by (cases ls) auto

lemma join_lines_zero: "0 \<in> set (join_lines ls) \<longleftrightarrow> (\<exists>l \<in> set ls. 0 \<in> set l)"
  by (induction ls rule: join_lines.induct) auto

lemma fgets_splits:
  obtains rest where "bytes = fgets bytes @ rest" "LF \<notin> set (butlast (fgets bytes))"
proof (cases "LF \<in> set bytes")
  case True
  then obtain l r where b: "bytes = l @ LF # r" "LF \<notin> set l" by (meson split_list_first)
  then have tw: "takeWhile (\<lambda>c. c \<noteq> LF) bytes = l" by (auto simp: takeWhile_append)
  then have fg: "fgets bytes = take 1023 (l @ [LF])" using b(1) by (simp add: fgets_def Let_def del: take_append)
  have "bytes = (l @ [LF]) @ r" using b(1) by simp
  also have "\<dots> = fgets bytes @ (drop 1023 (l @ [LF]) @ r)" unfolding fg by (metis append.assoc append_take_drop_id)
  finally have "bytes = fgets bytes @ (drop 1023 (l @ [LF]) @ r)" .
  moreover have "LF \<notin> set (butlast (fgets bytes))"
    using b(2) unfolding fg by (cases "1023 \<le> length l") (auto dest: in_set_butlastD in_set_takeD)
  ultimately show ?thesis by (rule that)
next
  case False
  then have "takeWhile (\<lambda>c. c \<noteq> LF) bytes = bytes" by (auto simp: takeWhile_eq_all_conv)
  then have fg: "fgets bytes = take 1023 bytes" by (simp only: fgets_def Let_def if_True simp_thms)
  have "bytes = fgets bytes @ drop 1023 bytes" unfolding fg by simp
  moreover have "LF \<notin> set (butlast (fgets bytes))" using False unfolding fg by (auto dest: in_set_butlastD in_set_takeD)
  ultimately show ?thesis by (rule that)
qed

lemma load_lines_join:
  "0 \<notin> set bytes \<Longrightarrow> \<exists>ls. load_lines out bytes = Some ls \<and> ls \<noteq> [] \<and> join_lines ls = out @ bytes \<and>
     (LF \<notin> set out \<longrightarrow> (\<forall>l \<in> set ls. LF \<notin> set l))"
proof (induction out bytes rule: load_lines.induct)
  case (1 out bytes)
  show ?case
  proof (cases "bytes = []")
    case False
    define chunk where "chunk = fgets bytes"
    obtain rest where split: "bytes = chunk @ rest" and noLF: "LF \<notin> set (butlast chunk)"
      unfolding chunk_def by (rule fgets_splits)
    have "chunk \<noteq> []" using False by (simp add: chunk_def)
    moreover have "\<forall>c \<in> set chunk. c \<noteq> 0" using 1(3) unfolding split by auto
    then have "takeWhile (\<lambda>c. c \<noteq> 0) chunk = chunk" by (simp only: takeWhile_eq_all_conv)
    ultimately have chunk: "chunk \<noteq> []" "takeWhile (\<lambda>c. c \<noteq> 0) chunk = chunk" by blast+
    have zero: "0 \<notin> set rest" using 1(3) unfolding split by simp
    have rest: "drop (length chunk) bytes = rest" unfolding split by simp
    have load: "load_lines out bytes = (if last chunk = LF then map_option ((#) (out @ butlast chunk)) (load_lines [] rest)
        else load_lines (out @ chunk) rest)"
      using False chunk rest by (subst load_lines.simps) (simp only: Let_def flip: chunk_def, simp)
    show ?thesis
    proof (cases "last chunk = LF")
      case True
      then obtain ls where "load_lines [] rest = Some ls" "ls \<noteq> []"
        "join_lines ls = rest" "\<forall>l \<in> set ls. LF \<notin> set l"
        using 1(1) [OF False refl refl] True chunk zero rest unfolding chunk_def [symmetric] by auto
      moreover have "out @ bytes = (out @ butlast chunk) @ LF # rest"
        using split chunk(1) True by (metis append.assoc append_Cons append_Nil append_butlast_last_id)
      ultimately show ?thesis
        using True noLF
        by (intro exI [of _ "(out @ butlast chunk) # ls"] conjI) (simp_all only: load join_lines_Cons if_True option.map set_append set_simps, auto simp: join_lines_Cons)
    next
      case False': False
      then have "LF \<notin> set chunk" using chunk noLF by (metis append_butlast_last_id Un_iff set_append set_ConsD empty_iff empty_set)
      moreover obtain ls where "load_lines (out @ chunk) rest = Some ls" "ls \<noteq> []"
        "join_lines ls = (out @ chunk) @ rest" "LF \<notin> set (out @ chunk) \<longrightarrow> (\<forall>l \<in> set ls. LF \<notin> set l)"
        using 1(2) [OF False refl refl] chunk zero False' rest unfolding chunk_def [symmetric] by auto
      moreover have "load_lines out bytes = load_lines (out @ chunk) rest" by (simp only: load False' if_False)
      moreover have "out @ bytes = (out @ chunk) @ rest" unfolding split by (rule append.assoc [symmetric])
      ultimately show ?thesis by (metis set_append Un_iff)
    qed
  qed (auto simp: load_lines.simps)
qed

lemma LF_split: "LF \<notin> set a \<Longrightarrow> LF \<notin> set b \<Longrightarrow> a @ LF # x = b @ LF # y \<Longrightarrow> a = b \<and> x = y"
  by (induction a arbitrary: b) (auto simp: Cons_eq_append_conv)

lemma join_lines_inj:
  "ls \<noteq> [] \<Longrightarrow> ls' \<noteq> [] \<Longrightarrow> \<forall>l \<in> set ls. LF \<notin> set l \<Longrightarrow> \<forall>l \<in> set ls'. LF \<notin> set l \<Longrightarrow> join_lines ls = join_lines ls' \<Longrightarrow> ls = ls'"
proof (induction ls arbitrary: ls' rule: join_lines.induct)
  case (2 l)
  then show ?case by (cases ls' rule: join_lines.cases) auto
next
  case (3 l k ls)
  then have eq: "l @ LF # join_lines (k # ls) = join_lines ls'" by simp
  show ?case
  proof (cases ls' rule: join_lines.cases)
    case (2 l')
    then have "LF \<in> set l'" using eq by (metis join_lines.simps(2) in_set_conv_decomp)
    then show ?thesis using 3(5) 2 by simp
  next
    case ls': (3 l' k' ls'')
    then have "l = l' \<and> join_lines (k # ls) = join_lines (k' # ls'')"
      using eq 3(4,5) by (intro LF_split) simp_all
    then show ?thesis using 3(1) [of "k' # ls''"] 3(4,5) ls' by simp
  qed (use 3(3) in simp)
qed simp

lemma load_written_lines:
  assumes "file_lines ls"
  shows "load_lines [] (join_lines ls) = Some ls"
proof -
  have "0 \<notin> set (join_lines ls)" using assms by (auto simp: join_lines_zero file_lines_def)
  then obtain ls' where "load_lines [] (join_lines ls) = Some ls'" "ls' \<noteq> []" "join_lines ls' = join_lines ls" "\<forall>l \<in> set ls'. LF \<notin> set l"
    using load_lines_join [of "join_lines ls" "[]"] by auto
  then show ?thesis using join_lines_inj [of ls' ls] assms by (auto simp: file_lines_def)
qed

lemma append_lines:
  "length old + length ls \<le> max_elements \<Longrightarrow>
     fold (\<lambda>l cfg. snd (op_append_line cfg (Some l))) ls \<lparr>cf_content = c, cf_need_sync = b\<rparr> =
     \<lparr>cf_content = (if ls = [] then c else Some (old @ ls)), cf_need_sync = b\<rparr>" if "old = (case c of None \<Rightarrow> [] | Some ls \<Rightarrow> ls)"
  using that
proof (induction ls arbitrary: old c)
  case (Cons l ls)
  then show ?case using Cons.IH [of "old @ [l]" "Some (old @ [l])"] by (simp add: op_append_line_def cf_lines_def)
qed simp

lemma open_file:
  assumes "load_lines [] bytes = Some ls" "ls \<noteq> []" "length ls \<le> max_elements"
  shows "config_open (Inr bytes) = Some (Inr \<lparr>cf_content = Some ls, cf_need_sync = False\<rparr>)"
  using assms append_lines [of "[]" None ls False] by (simp add: config_open_def load_file_in_memory_def)

text \<open>
  C33. A file without zero bytes is read into lines that, written back, give the same bytes, also when lines are longer than the buffer
  of \<open>fgets\<close> or the last line has no end; and lines written to a file are read back as they were.
\<close>

theorem config_file_roundtrip:
  assumes "0 \<notin> set bytes" "count_list bytes LF < max_elements" and "file_lines ls"
  shows "(\<exists>cfg. config_open (Inr bytes) = Some (Inr cfg) \<and> file_lines (cf_lines cfg) \<and> \<not> cf_need_sync cfg \<and>
            config_close None (cfg\<lparr>cf_need_sync := True\<rparr>) old = (0, bytes)) \<and>
         config_open (Inr (snd (config_close None \<lparr>cf_content = Some ls, cf_need_sync = True\<rparr> old))) =
           Some (Inr \<lparr>cf_content = Some ls, cf_need_sync = False\<rparr>)"
proof
  obtain l where l: "load_lines [] bytes = Some l" "l \<noteq> []" "join_lines l = bytes" "\<forall>k \<in> set l. LF \<notin> set k"
    using load_lines_join [OF assms(1), of "[]"] by auto
  have "length l \<le> Suc (count_list (join_lines l) LF)" by (induction l rule: join_lines.induct) auto
  then have ok: "file_lines l" using l assms(1,2) join_lines_zero [of l] by (auto simp: file_lines_def)
  then show "\<exists>cfg. config_open (Inr bytes) = Some (Inr cfg) \<and> file_lines (cf_lines cfg) \<and> \<not> cf_need_sync cfg \<and>
      config_close None (cfg\<lparr>cf_need_sync := True\<rparr>) old = (0, bytes)"
    using open_file [OF l(1,2)] l(3)
    by (auto simp: file_lines_def cf_lines_def config_close_def sync_and_free_file_content_def)
next
  show "config_open (Inr (snd (config_close None \<lparr>cf_content = Some ls, cf_need_sync = True\<rparr> old))) =
      Some (Inr \<lparr>cf_content = Some ls, cf_need_sync = False\<rparr>)"
    using open_file [OF load_written_lines [OF assms(3)]] assms(3)
    by (simp add: file_lines_def cf_lines_def config_close_def sync_and_free_file_content_def)
qed

section \<open>Entries of lines\<close>

text \<open>The entry of a line, and the lines that can be parsed: those without an assignment to nothing.\<close>

definition line_entry :: "line \<Rightarrow> line option" where
  "line_entry l = (if l = [] then None else strip_value (takeWhile (\<lambda>c. c \<noteq> EQUALS) l))"

definition parses :: "line \<Rightarrow> bool" where
  "parses l \<longleftrightarrow> (EQUALS \<in> set l \<longrightarrow> line_entry l \<noteq> None)"

definition entry_name :: "line \<Rightarrow> bool" where
  "entry_name e \<longleftrightarrow> e \<noteq> [] \<and> EQUALS \<notin> set e \<and> \<not> is_blank (hd e) \<and> hd e \<notin> {QUOTE, DOLLAR, OPEN_BRACKET, LF} \<and> \<not> is_blank (last e)"

definition plain_value :: "line \<Rightarrow> bool" where
  "plain_value v \<longleftrightarrow> v \<noteq> [] \<and> DOLLAR \<notin> set v \<and> \<not> is_blank (hd v) \<and> hd v \<noteq> QUOTE \<and> \<not> is_blank (last v)"

lemma plain_value_hd: "plain_value v \<Longrightarrow> v \<noteq> [] \<and> hd v \<noteq> DOLLAR"
  by (cases v) (auto simp: plain_value_def)

lemma strip_plain: "t \<noteq> [] \<Longrightarrow> \<not> is_blank (hd t) \<Longrightarrow> hd t \<noteq> QUOTE \<Longrightarrow> \<not> is_blank (last t) \<Longrightarrow> strip_value t = Some t"
proof -
  assume t: "t \<noteq> []" "\<not> is_blank (hd t)" "hd t \<noteq> QUOTE" "\<not> is_blank (last t)"
  then have "dropWhile is_blank t = t" by (cases t) auto
  moreover have "dropWhile is_blank (rev t) = rev t" using t(1,4) by (cases t rule: rev_cases) auto
  ultimately show ?thesis using t(1-3) by (auto simp: strip_value_def intro: bexI [of _ "hd t"])
qed

lemma resolve_plain: "DOLLAR \<notin> set v \<Longrightarrow> value_resolve_variable vs v = v"
  by (induction v) auto

lemma takeWhile_entry: "EQUALS \<notin> set e \<Longrightarrow> takeWhile (\<lambda>c. c \<noteq> EQUALS) (e @ EQUALS # v) = e"
  by (subst takeWhile_append2) auto

lemma line_entry_new [simp]: "entry_name e \<Longrightarrow> line_entry (e @ EQUALS # v) = Some e"
  by (simp add: line_entry_def takeWhile_entry entry_name_def strip_plain)

lemma parse_new_line:
  assumes "entry_name e" "plain_value v"
  shows "parse_buffer vs (e @ EQUALS # v) = Some ((0, Some e, Some v), vs)"
  using assms line_entry_new [OF assms(1), of v]
  by (simp add: parse_buffer_def takeWhile_entry entry_name_def plain_value_def line_entry_def strip_plain resolve_plain released_def)

lemma parse_line:
  assumes "parses l"
  obtains ret v vs' where "parse_buffer vs l = Some ((ret, line_entry l, v), vs')" "l \<noteq> [] \<Longrightarrow> 0 \<le> ret"
proof (cases "EQUALS \<in> set l")
  case False
  then have "takeWhile (\<lambda>c. c \<noteq> EQUALS) l = l" by (auto simp: takeWhile_eq_all_conv)
  then show ?thesis using that by (cases "l = []") (simp_all add: parse_buffer_def line_entry_def)
next
  case True
  then obtain e where e: "line_entry l = Some e" "l \<noteq> []" using assms by (auto simp: parses_def line_entry_def split: if_splits)
  define name where "name = takeWhile (\<lambda>c. c \<noteq> EQUALS) l"
  define val where "val = Option.bind (strip_value (drop (Suc (length name)) l)) (released \<circ> value_resolve_variable vs)"
  have "name \<noteq> l" using True unfolding name_def by (auto simp: takeWhile_eq_all_conv)
  moreover have "strip_value name = Some e" using e by (simp add: line_entry_def name_def)
  ultimately have parse: "parse_buffer vs l =
      (if hd e = DOLLAR then (case variable_set (\<lambda>_. True) vs (tl e) val of (ret, vs') \<Rightarrow> Some ((ret, Some e, val), vs'))
       else Some ((0, Some e, val), vs))"
    using e(2) unfolding parse_buffer_def Let_def name_def [symmetric] val_def by simp
  obtain ret vs' where set: "variable_set (\<lambda>_. True) vs (tl e) val = (ret, vs')" by (meson surj_pair)
  then have "ret = 0" using variable_set_map(1) [of "\<lambda>_. True" vs "tl e" val] by simp
  then show ?thesis
    using that [of "0" val vs'] that [of 0 val vs] parse set e(1) by (cases "hd e = DOLLAR") simp_all
qed

lemma line_entry_nonempty: "line_entry l = Some e \<Longrightarrow> l \<noteq> []"
  by (auto simp: line_entry_def)

text \<open>The search returns the first line with the entry, or there is none.\<close>

lemma search_entry_first:
  "\<forall>l \<in> set ls. parses l \<Longrightarrow> \<exists>r vs'. search_entry_from vs False e i ls = Some (r, vs') \<and>
     (case r of Not_Found \<Rightarrow> \<forall>l \<in> set ls. line_entry l \<noteq> Some e
      | Found k e' _ \<Rightarrow> e' = e \<and> i \<le> k \<and> k < i + length ls \<and> line_entry (ls ! (k - i)) = Some e \<and>
          (\<forall>l \<in> set (take (k - i) ls). line_entry l \<noteq> Some e))"
proof (induction ls arbitrary: vs i)
  case (Cons l ls)
  obtain ret v vs' where parse: "parse_buffer vs l = Some ((ret, line_entry l, v), vs')" "l \<noteq> [] \<Longrightarrow> 0 \<le> ret"
    using parse_line [of l vs] Cons.prems by auto
  show ?case
  proof (cases "line_entry l = Some e")
    case True
    then show ?thesis using parse line_entry_nonempty [OF True] by auto
  next
    case False
    obtain r vs'' where r: "search_entry_from vs' False e (Suc i) ls = Some (r, vs'')"
      "case r of Not_Found \<Rightarrow> \<forall>l \<in> set ls. line_entry l \<noteq> Some e
        | Found k e' _ \<Rightarrow> e' = e \<and> Suc i \<le> k \<and> k < Suc i + length ls \<and> line_entry (ls ! (k - Suc i)) = Some e \<and>
          (\<forall>l \<in> set (take (k - Suc i) ls). line_entry l \<noteq> Some e)"
      using Cons.IH [of vs' "Suc i"] Cons.prems by auto
    have "search_entry_from vs False e i (l # ls) = Some (r, vs'')"
      using parse False r(1) line_entry_nonempty [of l] by (auto split: option.splits)
    moreover have "k - i = Suc (k - Suc i)" if "Suc i \<le> k" for k using that by simp
    ultimately show ?thesis using r(2) False by (auto split: found.splits)
  qed
qed simp

lemma search_entry_hit:
  assumes "\<forall>l \<in> set pre. parses l \<and> line_entry l \<noteq> Some e" "entry_name e" "plain_value v"
  shows "\<exists>vs'. search_entry_from vs False e i (pre @ (e @ EQUALS # v) # post) = Some (Found (i + length pre) e (Some v), vs')"
  using assms(1)
proof (induction pre arbitrary: vs i)
  case Nil
  then show ?case using parse_new_line [OF assms(2,3), of vs] by simp
next
  case (Cons l pre)
  obtain ret w vs' where parse: "parse_buffer vs l = Some ((ret, line_entry l, w), vs')" "l \<noteq> [] \<Longrightarrow> 0 \<le> ret"
    using parse_line [of l vs] Cons.prems by auto
  have "line_entry l \<noteq> Some e" using Cons.prems by simp
  then have "search_entry_from vs False e i ((l # pre) @ (e @ EQUALS # v) # post) =
      search_entry_from vs' False e (Suc i) (pre @ (e @ EQUALS # v) # post)"
    using parse line_entry_nonempty [of l] by (auto split: option.splits)
  then show ?case using Cons.IH [of vs' "Suc i"] Cons.prems by simp
qed

text \<open>With a section the search ends at the next one.\<close>

lemma search_entry_sectioned:
  "search_entry_from vs True e i ls = search_entry_from vs False e i (takeWhile (\<lambda>l. \<not> is_section l) ls)"
  by (induction ls arbitrary: vs i) (auto split: option.splits)

section \<open>Setting an entry\<close>

lemma search_entry_split:
  assumes "\<forall>l \<in> set ls. parses l" "search_entry_from vs False e i ls = Some (Found k e' w, vs')"
  obtains pre old post where "ls = pre @ old # post" "k = i + length pre" "line_entry old = Some e" "\<forall>l \<in> set pre. line_entry l \<noteq> Some e"
proof -
  have k: "i \<le> k" "k < i + length ls" "line_entry (ls ! (k - i)) = Some e" "\<forall>l \<in> set (take (k - i) ls). line_entry l \<noteq> Some e"
    using search_entry_first [OF assms(1), of vs e i] assms(2) by auto
  show ?thesis
    by (rule that [of "take (k - i) ls" "ls ! (k - i)" "drop (Suc (k - i)) ls"]) (use k in \<open>simp_all add: id_take_nth_drop\<close>)
qed

lemma config_get_hit:
  assumes "cf_content cfg = Some (pre @ (e @ EQUALS # v) # post)" "\<forall>l \<in> set pre. parses l \<and> line_entry l \<noteq> Some e"
    "entry_name e" "plain_value v"
  shows "\<exists>vs'. config_get vs cfg False e 0 = Some ((Some v, Suc (length pre)), vs')"
  using search_entry_hit [OF assms(2-4), of vs 0 post] assms(1) plain_value_hd [OF assms(4)]
  by (subst config_get.simps) (auto simp: search_entry_line_def cf_lines_def)

text \<open>
  Setting an entry without a section replaces the first line that has it, or puts a new line in front of all others; every other
  line stays, the file is marked as changed, and the entry is then found with its new value.
\<close>

theorem config_set_entry:
  assumes "cf_content cfg = Some ls" "ls \<noteq> []" "length ls < max_elements" "\<forall>l \<in> set ls. parses l" "entry_name e" "plain_value v"
  shows "\<exists>pre post vs'. config_set vs cfg None (Some e) (Some v) 0 =
        Some (0, length pre, cfg\<lparr>cf_content := Some (pre @ (e @ EQUALS # v) # post), cf_need_sync := True\<rparr>, vs') \<and>
      (pre = [] \<and> ls = post \<and> (\<forall>l \<in> set ls. line_entry l \<noteq> Some e) \<or> (\<exists>old. ls = pre @ old # post \<and> line_entry old = Some e)) \<and>
      (\<exists>vs2. config_get vs1 (cfg\<lparr>cf_content := Some (pre @ (e @ EQUALS # v) # post), cf_need_sync := True\<rparr>) False e 0 =
        Some ((Some v, Suc (length pre)), vs2))"
proof -
  obtain r vs' where r: "search_entry_from vs False e 0 ls = Some (r, vs')"
    using search_entry_first [OF assms(4)] by blast
  have lines [simp]: "cf_lines cfg = ls" using assms(1) by (simp add: cf_lines_def)
  have search: "search_entry_line vs cfg False e 0 = Some (r, vs')" using r assms(1,2) by (simp add: search_entry_line_def)
  show ?thesis
  proof (cases r)
    case Not_Found
    then have none: "\<forall>l \<in> set ls. line_entry l \<noteq> Some e" using search_entry_first [OF assms(4), of vs e 0] r by auto
    have "config_set vs cfg None (Some e) (Some v) 0 =
        Some (0, 0, cfg\<lparr>cf_content := Some ((e @ EQUALS # v) # ls), cf_need_sync := True\<rparr>, vs')"
      using search Not_Found assms(2,3) by (simp add: config_set_def new_entry_line_def op_insert_line_def create_new_line_def)
    then show ?thesis
      using none config_get_hit [of "cfg\<lparr>cf_content := Some ([] @ (e @ EQUALS # v) # ls), cf_need_sync := True\<rparr>" "[]" e v ls vs1] assms(5,6)
      by (intro exI [of _ "[]"] exI [of _ ls] exI [of _ vs']) simp
  next
    case (Found k e' w)
    obtain pre old post where split: "ls = pre @ old # post" "k = 0 + length pre" "line_entry old = Some e" "\<forall>l \<in> set pre. line_entry l \<noteq> Some e"
      using search_entry_split [OF assms(4) r [unfolded Found]] by blast
    have "config_set vs cfg None (Some e) (Some v) 0 =
        Some (0, length pre, cfg\<lparr>cf_content := Some (pre @ (e @ EQUALS # v) # post), cf_need_sync := True\<rparr>, vs')"
      using search Found split(1,2) by (simp add: config_set_def new_entry_line_def op_modify_line_def create_new_line_def)
    then show ?thesis
      using split assms(4-6) config_get_hit [of "cfg\<lparr>cf_content := Some (pre @ (e @ EQUALS # v) # post), cf_need_sync := True\<rparr>" pre e v post vs1]
      by (intro exI [of _ pre] exI [of _ post] exI [of _ vs']) simp
  qed
qed

section \<open>Sections\<close>

definition section_text :: "line \<Rightarrow> line" where
  "section_text l = takeWhile (\<lambda>c. c \<noteq> CLOSE_BRACKET) (dropWhile (\<lambda>c. c \<in> {LF, SPACE, OPEN_BRACKET}) l)"

text \<open>What a section header or the name of a section stands for: its name and value in lower case, for texts without references.\<close>

definition section_key :: "line \<Rightarrow> (line \<times> line) option" where
  "section_key l =
     map_option (\<lambda>n. (lower n, lower (case strip_value (drop (Suc (length (takeWhile (\<lambda>c. c \<noteq> EQUALS) (section_text l)))) (section_text l)) of
         None \<Rightarrow> str ''default'' | Some v \<Rightarrow> v)))
       (line_entry (section_text l))"

definition section_parses :: "line \<Rightarrow> bool" where
  "section_parses l \<longleftrightarrow> DOLLAR \<notin> set l \<and> (section_text l = [] \<or> section_key l \<noteq> None)"

definition is_header :: "line \<times> line \<Rightarrow> line \<Rightarrow> bool" where
  "is_header key l \<longleftrightarrow> \<not> is_line_commented l \<and> is_section l \<and> section_key l = Some key"

definition section_name :: "line \<Rightarrow> bool" where
  "section_name sec \<longleftrightarrow> hd sec \<notin> {LF, SPACE, OPEN_BRACKET} \<and> CLOSE_BRACKET \<notin> set sec \<and> length sec \<le> 1021 \<and> section_key sec \<noteq> None \<and> DOLLAR \<notin> set sec"

lemma strip_value_subset:
  assumes "strip_value s = Some t"
  shows "t \<noteq> [] \<and> set t \<subseteq> set s"
proof -
  define w where "w = dropWhile is_blank s"
  define u where "u = rev (dropWhile is_blank (rev (if w \<noteq> [] \<and> hd w = QUOTE then tl w else w)))"
  have w: "set w \<subseteq> set s" unfolding w_def by (meson set_dropWhileD subsetI)
  have "set u \<subseteq> set (if w \<noteq> [] \<and> hd w = QUOTE then tl w else w)" unfolding u_def by (auto dest: set_dropWhileD)
  also have "\<dots> \<subseteq> set w" by (cases w) auto
  finally have u: "set u \<subseteq> set w" .
  have "t = (if w \<noteq> [] \<and> hd w = QUOTE \<and> u \<noteq> [] then if last u = QUOTE then butlast u else QUOTE # u else u)" "t \<noteq> []"
    using assms unfolding strip_value_def Let_def w_def [symmetric] u_def [symmetric] by (auto split: if_splits)
  moreover have "QUOTE \<in> set w" if "w \<noteq> []" "hd w = QUOTE" using that by (cases w) auto
  ultimately show ?thesis using w u by (auto split: if_splits dest: in_set_butlastD)
qed

lemma parse_section_line:
  assumes "section_parses l"
  shows "parse_section_buffer vs l True =
    (case section_key l of None \<Rightarrow> Some ((- 1, None, Some (str ''default'')), vs)
     | Some key \<Rightarrow> Some ((0, line_entry (section_text l), Some (case strip_value (drop (Suc (length (takeWhile (\<lambda>c. c \<noteq> EQUALS) (section_text l)))) (section_text l)) of
         None \<Rightarrow> str ''default'' | Some v \<Rightarrow> v)), vs))"
proof -
  define t where "t = section_text l"
  define name where "name = takeWhile (\<lambda>c. c \<noteq> EQUALS) t"
  define val where "val = strip_value (drop (Suc (length name)) t)"
  have dollar: "DOLLAR \<notin> set t"
    using assms unfolding t_def section_text_def section_parses_def by (auto dest: set_takeWhileD set_dropWhileD)
  have resolved: "Option.bind val (released \<circ> value_resolve_variable vs) = val"
  proof (cases val)
    case (Some v)
    then have "v \<noteq> []" "DOLLAR \<notin> set v"
      using strip_value_subset [of "drop (Suc (length name)) t" v] dollar by (auto simp: val_def dest: in_set_dropD)
    then show ?thesis using Some by (simp add: resolve_plain released_def)
  qed simp
  have parse: "parse_buffer vs t = (case line_entry t of None \<Rightarrow> Some ((- 1, None, None), vs) | Some e \<Rightarrow> Some ((0, Some e, val), vs))"
  proof (cases "t = []")
    case False
    then obtain e where e: "line_entry t = Some e" "strip_value name = Some e"
      using assms unfolding section_parses_def section_key_def t_def [symmetric] by (auto simp: line_entry_def name_def)
    then have "set e \<subseteq> set t" "e \<noteq> []" using strip_value_subset [OF e(2)] by (auto simp: name_def dest: set_takeWhileD)
    then have "hd e \<noteq> DOLLAR" using dollar by (cases e) auto
    moreover have "val = None" if "name = t" using that by (simp add: val_def strip_value_def)
    ultimately show ?thesis
      using False e resolved unfolding parse_buffer_def Let_def name_def [symmetric] val_def [symmetric] by auto
  qed (simp add: parse_buffer_def line_entry_def)
  show ?thesis
    using parse unfolding parse_section_buffer_def section_key_def section_text_def [symmetric] t_def [symmetric]
      name_def [symmetric] val_def [symmetric]
    by (auto split: option.splits)
qed

lemma search_section_step:
  assumes "is_section l \<longrightarrow> section_parses l"
  shows "search_section_from vs (Some n) (Some w) i (l # ls) =
    (if is_header (lower n, lower w) l then Some (int i, vs) else search_section_from vs (Some n) (Some w) (Suc i) ls)"
proof (cases "is_line_commented l \<or> \<not> is_section l")
  case False
  then have "section_parses l" using assms by simp
  then show ?thesis
    using False by (cases "line_entry (section_text l)")
      (auto simp: parse_section_line is_header_def section_key_def strcasecmp_eq_def split: bool.split)
qed (auto simp: is_header_def)

lemma search_section_hit:
  "\<forall>l \<in> set pre. (is_section l \<longrightarrow> section_parses l) \<and> \<not> is_header (lower n, lower w) l \<Longrightarrow>
   section_parses h \<Longrightarrow> is_header (lower n, lower w) h \<Longrightarrow>
   search_section_from vs (Some n) (Some w) i (pre @ h # post) = Some (int (i + length pre), vs)"
  by (induction pre arbitrary: i) (simp_all add: search_section_step del: search_section_from.simps(2))

lemma search_section_miss:
  "\<forall>l \<in> set ls. (is_section l \<longrightarrow> section_parses l) \<and> \<not> is_header (lower n, lower w) l \<Longrightarrow>
   search_section_from vs (Some n) (Some w) i ls = Some (- 1, vs)"
  by (induction ls arbitrary: i) (simp_all add: search_section_step del: search_section_from.simps(2))

text \<open>The same for a whole configuration and the name of a section.\<close>

lemma search_section_name:
  assumes "section_name sec" "section_key sec = Some key" "cf_content cfg = Some ls" "i \<le> length ls"
  obtains n w where "key = (lower n, lower w)"
    "search_section vs cfg sec i = search_section_from vs (Some n) (Some w) i (drop i ls)"
proof -
  have "section_parses sec" using assms(1) by (simp add: section_name_def section_parses_def)
  then show ?thesis
    using assms that by (auto simp: search_section_def parse_section_line section_key_def cf_lines_def)
qed

lemma section_line_header:
  assumes "section_name sec" "section_key sec = Some key"
  shows "section_parses (section_line sec) \<and> is_header key (section_line sec)"
proof -
  have sec: "section_text sec = sec"
  proof -
    have "dropWhile (\<lambda>c. c \<in> {LF, SPACE, OPEN_BRACKET}) sec = sec" using assms(1) by (cases sec) (auto simp: section_name_def)
    moreover have "takeWhile (\<lambda>c. c \<noteq> CLOSE_BRACKET) sec = sec" using assms(1) by (auto simp: section_name_def takeWhile_eq_all_conv)
    ultimately show ?thesis by (simp only: section_text_def)
  qed
  have line: "section_line sec = OPEN_BRACKET # sec @ [CLOSE_BRACKET]"
    using assms(1) unfolding section_line_def by (intro take_all) (simp add: section_name_def)
  have "section_text (section_line sec) = sec"
  proof -
    have "sec \<noteq> []" using sec assms by (auto simp: section_key_def section_name_def line_entry_def)
    then have "dropWhile (\<lambda>c. c \<in> {LF, SPACE, OPEN_BRACKET}) (sec @ [CLOSE_BRACKET]) = sec @ [CLOSE_BRACKET]"
      using assms(1) by (cases sec) (auto simp: section_name_def)
    moreover have "takeWhile (\<lambda>c. c \<noteq> CLOSE_BRACKET) (sec @ [CLOSE_BRACKET]) = sec"
      using assms(1) by (subst takeWhile_append2) (auto simp: section_name_def)
    ultimately show ?thesis by (simp add: section_text_def line)
  qed
  then have "section_key (section_line sec) = Some key" using assms(2) sec by (simp add: section_key_def)
  moreover have "DOLLAR \<notin> set (section_line sec)" using assms(1) by (simp add: line section_name_def)
  ultimately show ?thesis by (simp add: section_parses_def is_header_def is_line_commented_def is_section_def line)
qed

lemma entry_not_section: "entry_name e \<Longrightarrow> \<not> is_section (e @ EQUALS # v)"
  by (cases e) (auto simp: entry_name_def is_section_def is_blank_def)

text \<open>A file in which the first section of the given name has the entry.\<close>

lemma section_lookup:
  assumes "section_name sec" "section_key sec = Some key" "entry_name e" "plain_value v"
    and "cf_content cfg = Some (pre @ h # body @ (e @ EQUALS # v) # post)"
    and "\<forall>l \<in> set pre. (is_section l \<longrightarrow> section_parses l) \<and> \<not> is_header key l"
    and "section_parses h" "is_header key h" "\<forall>l \<in> set body. \<not> is_section l \<and> parses l \<and> line_entry l \<noteq> Some e"
  shows "config_get_section vs cfg sec 0 = Some ((0, length pre), vs) \<and>
    (\<exists>vs'. config_get vs cfg True e (length pre + 2) = Some ((Some v, length pre + length body + 2), vs'))"
proof
  obtain n w where n: "key = (lower n, lower w)"
    "search_section vs cfg sec 0 = search_section_from vs (Some n) (Some w) 0 (drop 0 (pre @ h # body @ (e @ EQUALS # v) # post))"
    using search_section_name [OF assms(1,2,5), of 0 vs] by blast
  then have "search_section vs cfg sec 0 = Some (int (length pre), vs)"
    using search_section_hit [of pre n w h vs 0] assms(6-8) by simp
  then show "config_get_section vs cfg sec 0 = Some ((0, length pre), vs)" using assms(5) by (simp add: config_get_section_def)
next
  have "takeWhile (\<lambda>l. \<not> is_section l) (body @ (e @ EQUALS # v) # post) =
      body @ (e @ EQUALS # v) # takeWhile (\<lambda>l. \<not> is_section l) post"
    using assms(9) entry_not_section [OF assms(3)] by (subst takeWhile_append2) auto
  then obtain vs' where "search_entry_from vs True e (Suc (length pre)) (body @ (e @ EQUALS # v) # post) =
      Some (Found (Suc (length pre) + length body) e (Some v), vs')"
    using search_entry_hit [OF _ assms(3,4), of body vs "Suc (length pre)"] assms(9) by (auto simp: search_entry_sectioned)
  then show "\<exists>vs'. config_get vs cfg True e (length pre + 2) = Some ((Some v, length pre + length body + 2), vs')"
    using assms(5) plain_value_hd [OF assms(4)]
    by (subst config_get.simps) (auto simp: search_entry_line_def cf_lines_def)
qed

text \<open>What setting an entry of a section does to the array of lines, in three cases.\<close>

lemma section_split:
  assumes "\<exists>l \<in> set ls. is_header key l"
  obtains pre h post where "ls = pre @ h # post" "is_header key h" "\<forall>l \<in> set pre. \<not> is_header key l"
  using split_list_first_prop [OF assms] that by blast

lemma set_new_section:
  assumes "section_name sec" "section_key sec = Some key" "cf_content cfg = Some ls" "ls \<noteq> []" "length ls + 2 \<le> max_elements"
    and "\<forall>l \<in> set ls. (is_section l \<longrightarrow> section_parses l) \<and> \<not> is_header key l"
  shows "config_set vs cfg (Some sec) (Some e) (Some v) 0 =
    Some (0, length ls, cfg\<lparr>cf_content := Some (ls @ section_line sec # [] @ (e @ EQUALS # v) # []), cf_need_sync := True\<rparr>, vs)"
proof -
  obtain n w where "key = (lower n, lower w)" "search_section vs cfg sec 0 = search_section_from vs (Some n) (Some w) 0 (drop 0 ls)"
    using search_section_name [OF assms(1,2,3), of 0 vs] by blast
  then have "search_section vs cfg sec 0 = Some (- 1, vs)" using search_section_miss [of ls n w vs 0] assms(6) by simp
  then show ?thesis
    using assms(3-5) by (simp add: config_set_def new_section_line_def op_insert_line_def create_new_line_def cf_lines_def)
qed

lemma set_in_section:
  assumes "section_name sec" "section_key sec = Some key" "cf_content cfg = Some (pre @ h # post)" "length (pre @ h # post) < max_elements"
    and "\<forall>l \<in> set pre. (is_section l \<longrightarrow> section_parses l) \<and> \<not> is_header key l" "section_parses h" "is_header key h"
    and "\<forall>l \<in> set post. parses l"
  obtains vs' where "\<forall>l \<in> set (takeWhile (\<lambda>l. \<not> is_section l) post). line_entry l \<noteq> Some e"
      "config_set vs cfg (Some sec) (Some e) (Some v) 0 =
        Some (0, length pre, cfg\<lparr>cf_content := Some (pre @ h # [] @ (e @ EQUALS # v) # post), cf_need_sync := True\<rparr>, vs')"
  | vs' body old rest where "post = body @ old # rest" "line_entry old = Some e" "\<forall>l \<in> set body. \<not> is_section l \<and> line_entry l \<noteq> Some e"
      "config_set vs cfg (Some sec) (Some e) (Some v) 0 =
        Some (0, length pre, cfg\<lparr>cf_content := Some (pre @ h # body @ (e @ EQUALS # v) # rest), cf_need_sync := True\<rparr>, vs')"
proof -
  obtain n w where "key = (lower n, lower w)"
    "search_section vs cfg sec 0 = search_section_from vs (Some n) (Some w) 0 (drop 0 (pre @ h # post))"
    using search_section_name [OF assms(1,2,3), of 0 vs] by blast
  then have search: "search_section vs cfg sec 0 = Some (int (length pre), vs)"
    using search_section_hit [of pre n w h vs 0] assms(5-7) by simp
  let ?body = "takeWhile (\<lambda>l. \<not> is_section l) post"
  have parses: "\<forall>l \<in> set ?body. parses l" using assms(8) by (auto dest: set_takeWhileD)
  obtain r vs' where r: "search_entry_from vs False e (Suc (length pre)) ?body = Some (r, vs')"
    using search_entry_first [OF parses] by blast
  have entry: "search_entry_line vs cfg True e (Suc (length pre)) = Some (r, vs') \<or> post = [] \<and> search_entry_line vs cfg True e (Suc (length pre)) = Some (Not_Found, vs)"
    using r assms(3) by (cases post) (simp_all add: search_entry_line_def cf_lines_def search_entry_sectioned del: search_entry_from.simps takeWhile.simps)
  note set_defs = config_set_def new_section_line_def op_insert_line_def op_modify_line_def create_new_line_def cf_lines_def
  show ?thesis
  proof (cases r)
    case Not_Found
    then have "\<forall>l \<in> set ?body. line_entry l \<noteq> Some e" using search_entry_first [OF parses, of vs e "Suc (length pre)"] r by auto
    then show ?thesis
      using that(1) search entry Not_Found assms(3,4) by (auto simp: set_defs)
  next
    case (Found k e' u)
    obtain body old rest where split: "?body = body @ old # rest" "k = Suc (length pre) + length body" "line_entry old = Some e"
        "\<forall>l \<in> set body. line_entry l \<noteq> Some e"
      using search_entry_split [OF parses r [unfolded Found]] by blast
    define rest' where "rest' = rest @ dropWhile (\<lambda>l. \<not> is_section l) post"
    have post: "post = body @ old # rest'" using split(1) by (metis append.assoc append_Cons rest'_def takeWhile_dropWhile_id)
    have "\<forall>l \<in> set body. \<not> is_section l" using split(1) set_takeWhileD [of _ "\<lambda>l. \<not> is_section l" post] by auto
    moreover have "config_set vs cfg (Some sec) (Some e) (Some v) 0 =
        Some (0, length pre, cfg\<lparr>cf_content := Some (pre @ h # body @ (e @ EQUALS # v) # rest'), cf_need_sync := True\<rparr>, vs')"
      using search entry Found split(2) assms(3) post by (simp add: set_defs list_update_append)
    ultimately show ?thesis using that(2) [OF post] split(3,4) by blast
  qed
qed

text \<open>
  C32. Setting an entry of a section replaces the first line that has it in the first section of that name, or puts a new line
  behind the header of that section, or appends the section and the entry to the file; every other line stays. The section and the
  entry in it are then found, with the new value.
\<close>

theorem config_set_section:
  assumes "section_name sec" "section_key sec = Some key" "entry_name e" "plain_value v"
    and "cf_content cfg = Some ls" "ls \<noteq> []" "length ls + 2 \<le> max_elements"
    and "\<forall>l \<in> set ls. parses l \<and> (is_section l \<longrightarrow> section_parses l)"
  shows "\<exists>pre h body post cfg' vs'. config_set vs cfg (Some sec) (Some e) (Some v) 0 = Some (0, length pre, cfg', vs') \<and>
      cfg' = \<lparr>cf_content = Some (pre @ h # body @ (e @ EQUALS # v) # post), cf_need_sync = True\<rparr> \<and>
      is_header key h \<and> (\<forall>l \<in> set pre. \<not> is_header key l) \<and> (\<forall>l \<in> set body. \<not> is_section l \<and> line_entry l \<noteq> Some e) \<and>
      (ls = pre \<and> h = section_line sec \<and> body = [] \<and> post = [] \<or> ls = pre @ h # body @ post \<and> body = [] \<or>
        (\<exists>old. line_entry old = Some e \<and> ls = pre @ h # body @ old # post)) \<and>
      config_get_section vs1 cfg' sec 0 = Some ((0, length pre), vs1) \<and>
      (\<exists>vs2. config_get vs1 cfg' True e (length pre + 2) = Some ((Some v, length pre + length body + 2), vs2))"
proof (cases "\<exists>l \<in> set ls. is_header key l")
  case False
  then have pre: "\<forall>l \<in> set ls. (is_section l \<longrightarrow> section_parses l) \<and> \<not> is_header key l" using assms(8) by blast
  let ?cfg = "\<lparr>cf_content = Some (ls @ section_line sec # [] @ (e @ EQUALS # v) # []), cf_need_sync = True\<rparr>"
  have set: "config_set vs cfg (Some sec) (Some e) (Some v) 0 = Some (0, length ls, ?cfg, vs)"
    using set_new_section [OF assms(1,2,5,6,7) pre] by simp
  have lookup: "config_get_section vs1 ?cfg sec 0 = Some ((0, length ls), vs1) \<and>
      (\<exists>vs2. config_get vs1 ?cfg True e (length ls + 2) = Some ((Some v, length ls + length ([] :: line list) + 2), vs2))"
    by (rule section_lookup [OF assms(1-4) _ pre]) (use section_line_header [OF assms(1,2)] in auto)
  show ?thesis
    by (rule exI [of _ ls], rule exI [of _ "section_line sec"], rule exI [of _ "[]"], rule exI [of _ "[]"], rule exI [of _ ?cfg],
        rule exI [of _ vs]) (use set lookup pre section_line_header [OF assms(1,2)] in simp)
next
  case True
  then obtain pre h post where ls: "ls = pre @ h # post" "is_header key h" "\<forall>l \<in> set pre. \<not> is_header key l"
    by (rule section_split)
  then have pre: "\<forall>l \<in> set pre. (is_section l \<longrightarrow> section_parses l) \<and> \<not> is_header key l" and h: "section_parses h"
      and post: "\<forall>l \<in> set post. parses l" using assms(8) by (auto simp: is_header_def)
  have len: "length (pre @ h # post) < max_elements" using assms(7) ls(1) by simp
  show ?thesis
  proof (rule set_in_section [OF assms(1,2) assms(5) [unfolded ls(1)] len pre h ls(2) post, of e vs v])
    fix vs' assume *: "config_set vs cfg (Some sec) (Some e) (Some v) 0 =
        Some (0, length pre, cfg\<lparr>cf_content := Some (pre @ h # [] @ (e @ EQUALS # v) # post), cf_need_sync := True\<rparr>, vs')"
    let ?cfg = "\<lparr>cf_content = Some (pre @ h # [] @ (e @ EQUALS # v) # post), cf_need_sync = True\<rparr>"
    have lookup: "config_get_section vs1 ?cfg sec 0 = Some ((0, length pre), vs1) \<and>
        (\<exists>vs2. config_get vs1 ?cfg True e (length pre + 2) = Some ((Some v, length pre + length ([] :: line list) + 2), vs2))"
      by (rule section_lookup [OF assms(1-4) _ pre h ls(2)]) auto
    show ?thesis
      by (rule exI [of _ pre], rule exI [of _ h], rule exI [of _ "[]"], rule exI [of _ post], rule exI [of _ ?cfg],
          rule exI [of _ vs']) (use * ls lookup in simp)
  next
    fix vs' body old rest
    assume *: "post = body @ old # rest" "line_entry old = Some e" "\<forall>l \<in> set body. \<not> is_section l \<and> line_entry l \<noteq> Some e"
      "config_set vs cfg (Some sec) (Some e) (Some v) 0 =
        Some (0, length pre, cfg\<lparr>cf_content := Some (pre @ h # body @ (e @ EQUALS # v) # rest), cf_need_sync := True\<rparr>, vs')"
    have body: "\<forall>l \<in> set body. \<not> is_section l \<and> parses l \<and> line_entry l \<noteq> Some e" using *(1,3) post by auto
    let ?cfg = "\<lparr>cf_content = Some (pre @ h # body @ (e @ EQUALS # v) # rest), cf_need_sync = True\<rparr>"
    have lookup: "config_get_section vs1 ?cfg sec 0 = Some ((0, length pre), vs1) \<and>
        (\<exists>vs2. config_get vs1 ?cfg True e (length pre + 2) = Some ((Some v, length pre + length body + 2), vs2))"
      by (rule section_lookup [OF assms(1-4) _ pre h ls(2) body]) simp
    show ?thesis
      by (rule exI [of _ pre], rule exI [of _ h], rule exI [of _ body], rule exI [of _ rest], rule exI [of _ ?cfg],
          rule exI [of _ vs']) (use * ls lookup in auto)
  qed
qed

section \<open>What the callers do not expect\<close>

text \<open>
  Removing an entry without a section removes the first line of the file, wherever the entry is, and reports success; an entry
  of a section is not found when the file begins with a section header.
\<close>

theorem config_del_removes_first_line:
  assumes "cf_content cfg = Some ls" "2 \<le> length ls" "\<forall>l \<in> set ls. parses l" "\<exists>l \<in> set ls. line_entry l = Some e"
  shows "(\<exists>vs'. config_del realloc0 vs cfg None (Some e) =
      Some (0, cfg\<lparr>cf_content := Some (tl ls), cf_need_sync := True\<rparr>, vs')) \<and>
    (is_section (hd ls) \<longrightarrow> config_del realloc0 vs cfg (Some sec) (Some e) = Some (- 1, cfg, vs))"
proof
  obtain r vs' where r: "search_entry_from vs False e 0 ls = Some (r, vs')"
    using search_entry_first [OF assms(3)] by blast
  then have "r \<noteq> Not_Found" using search_entry_first [OF assms(3), of vs e 0] assms(4) by auto
  then obtain k e' w where "r = Found k e' w" by (cases r) auto
  moreover have "search_entry_line vs cfg False e 0 = Some (r, vs')"
    using r assms(1,2) by (auto simp: search_entry_line_def cf_lines_def)
  moreover have "drop (Suc 0) ls \<noteq> []" using assms(2) by simp
  ultimately have "config_del realloc0 vs cfg None (Some e) =
      Some (0, cfg\<lparr>cf_content := Some (drop (Suc 0) ls), cf_need_sync := True\<rparr>, vs')"
    using assms(1,2) by (simp add: config_del_def op_delete_line_def cf_lines_def)
  then show "\<exists>vs'. config_del realloc0 vs cfg None (Some e) = Some (0, cfg\<lparr>cf_content := Some (tl ls), cf_need_sync := True\<rparr>, vs')"
    by (simp add: drop_Suc)
next
  obtain l rest where "ls = l # rest" using assms(2) by (cases ls) auto
  then show "is_section (hd ls) \<longrightarrow> config_del realloc0 vs cfg (Some sec) (Some e) = Some (- 1, cfg, vs)"
    using assms(1) by (auto simp: config_del_def search_entry_line_def cf_lines_def)
qed

text \<open>An entry that refers to itself.\<close>

lemma search_self_reference:
  assumes "entry_name e" "DOLLAR \<notin> set e" "SPACE \<notin> set e" "length e \<le> 510" "variable_get vs e = None"
  shows "search_entry_line vs \<lparr>cf_content = Some [e @ EQUALS # DOLLAR # e], cf_need_sync = b\<rparr> False e 0 =
    Some (Found 0 e (Some (DOLLAR # e)), vs)"
proof -
  have "takeWhile (\<lambda>c. c \<noteq> SPACE \<and> c \<noteq> DOLLAR) e = e" using assms(2,3) by (auto simp: takeWhile_eq_all_conv)
  then have "reference_name e = take 510 e" by (simp only: reference_name_def)
  then have "reference_name e = e" using assms(4) by simp
  then have resolve: "value_resolve_variable vs (DOLLAR # e) = DOLLAR # e" using assms(2,5) by (simp add: resolve_plain)
  have strip: "strip_value (DOLLAR # e) = Some (DOLLAR # e)"
    using assms(1) by (intro strip_plain) (auto simp: entry_name_def is_blank_def)
  have "parse_buffer vs (e @ EQUALS # DOLLAR # e) = Some ((0, Some e, Some (DOLLAR # e)), vs)"
    using assms(1) line_entry_new [OF assms(1), of "DOLLAR # e"]
    by (simp add: parse_buffer_def takeWhile_entry entry_name_def line_entry_def strip resolve released_def
        del: value_resolve_variable.simps)
  then show ?thesis by (simp add: search_entry_line_def cf_lines_def)
qed

lemma get_self_reference:
  assumes search: "search_entry_line vs cfg False e 0 = Some (Found 0 e (Some (DOLLAR # e)), vs)"
    and "cf_content cfg \<noteq> None" "variable_get vs e = None"
  shows "config_get vs cfg False e 0 = None"
proof (rule ccontr)
  assume "config_get vs cfg False e 0 \<noteq> None"
  then obtain y where "config_get vs cfg False e 0 = Some y" by auto
  then have "\<not> (vs = vs \<and> cfg = cfg \<and> \<not> False \<and> e = e \<and> (0 :: nat) = 0)"
  proof (rule config_get.raw_induct [of "\<lambda>vs' cfg' sectioned e' l y. \<not> (vs' = vs \<and> cfg' = cfg \<and> \<not> sectioned \<and> e' = e \<and> l = 0)", rotated])
    fix f :: "variable list \<Rightarrow> config \<Rightarrow> bool \<Rightarrow> line \<Rightarrow> nat \<Rightarrow> ((line option \<times> nat) \<times> variable list) option"
      and vs' cfg' sectioned e' l y
    assume IH: "\<And>vs' cfg' sectioned e' l y. f vs' cfg' sectioned e' l = Some y \<Longrightarrow> \<not> (vs' = vs \<and> cfg' = cfg \<and> \<not> sectioned \<and> e' = e \<and> l = 0)"
    have "f vs cfg False e 0 = None" using IH [of vs cfg False e 0] by (cases "f vs cfg False e 0") auto
    moreover assume "(if cf_content cfg' = None then Some ((None, l), vs')
      else case search_entry_line vs' cfg' sectioned e' (l - 1) of
        None \<Rightarrow> None
      | Some (Not_Found, vs') \<Rightarrow> Some ((None, l), vs')
      | Some (Found i _ None, vs') \<Rightarrow> None
      | Some (Found i _ (Some value), vs') \<Rightarrow>
          if value \<noteq> [] \<and> hd value = DOLLAR
          then (case variable_get vs' (tl value) of
                  Some var \<Rightarrow> Some ((Some var, Suc i), vs')
                | None \<Rightarrow>
                    Option.bind (f vs' cfg' False (tl value) 0)
                      (\<lambda>((content, _), vs''). Some ((Some (case content of Some var \<Rightarrow> var | None \<Rightarrow> value), Suc i), vs'')))
          else Some ((Some value, Suc i), vs')) = Some y"
    ultimately show "\<not> (vs' = vs \<and> cfg' = cfg \<and> \<not> sectioned \<and> e' = e \<and> l = 0)"
      by (intro notI, elim conjE, hypsubst) (use assms in simp)
  qed
  then show False by simp
qed

text \<open>
  Looking up an entry that has no value reads through a null pointer; one whose value refers to itself recurs without end; a line that
  assigns to nothing cannot be parsed; and when all lines were removed, setting an entry reads behind the array.
\<close>

theorem config_undefined:
  assumes "entry_name e" "DOLLAR \<notin> set e" "SPACE \<notin> set e" "length e \<le> 510" "variable_get vs e = None"
  shows "config_get vs \<lparr>cf_content = Some [e], cf_need_sync = b\<rparr> False e 0 = None \<and>
    config_get vs \<lparr>cf_content = Some [e @ EQUALS # DOLLAR # e], cf_need_sync = b\<rparr> False e 0 = None \<and>
    parse_buffer vs (EQUALS # v) = None \<and>
    config_set vs (snd (op_delete_line realloc0 \<lparr>cf_content = Some [l], cf_need_sync = b\<rparr> 0 1)) None (Some e) (Some v) 0 = None"
proof (intro conjI)
  have "takeWhile (\<lambda>c. c \<noteq> EQUALS) e = e" "strip_value e = Some e" "e \<noteq> []"
    using assms(1) by (auto simp: entry_name_def takeWhile_eq_all_conv intro: strip_plain)
  then have "parse_buffer vs e = Some ((0, Some e, None), vs)" by (simp only: parse_buffer_def Let_def if_True if_False simp_thms)
  then show "config_get vs \<lparr>cf_content = Some [e], cf_need_sync = b\<rparr> False e 0 = None"
    by (subst config_get.simps) (simp add: search_entry_line_def cf_lines_def)
  show "config_get vs \<lparr>cf_content = Some [e @ EQUALS # DOLLAR # e], cf_need_sync = b\<rparr> False e 0 = None"
    using get_self_reference [OF search_self_reference [OF assms]] assms(5) by simp
  show "parse_buffer vs (EQUALS # v) = None" by (simp add: parse_buffer_def strip_value_def)
  show "config_set vs (snd (op_delete_line realloc0 \<lparr>cf_content = Some [l], cf_need_sync = b\<rparr> 0 1)) None (Some e) (Some v) 0 = None"
    by (cases realloc0) (simp_all add: config_set_def op_delete_line_def cf_lines_def new_entry_line_def search_entry_line_def
        op_insert_line_def create_new_line_def max_elements_def)
qed

section \<open>Witnesses\<close>

abbreviation sample_lines :: "line list" where
  "sample_lines \<equiv> [str ''server=a'', str ''[prelude]'', str ''name=x'']"

abbreviation sample_config :: config where
  "sample_config \<equiv> \<lparr>cf_content = Some sample_lines, cf_need_sync = False\<rparr>"

lemmas sample_defs = parses_def line_entry_def strip_value_def is_blank_def is_section_def section_parses_def section_key_def
  section_text_def is_line_commented_def max_elements_def file_lines_def entry_name_def plain_value_def section_name_def tolower_def

lemma config_file_roundtrip_witness:
  "\<exists>cfg. config_open (Inr (str ''a'' @ [10, 10] @ str ''b'')) = Some (Inr cfg) \<and>
     snd (config_close None (cfg\<lparr>cf_need_sync := True\<rparr>) []) = str ''a'' @ [10, 10] @ str ''b''"
  using config_file_roundtrip [of "str ''a'' @ [10, 10] @ str ''b''" "[[]]" "[]"] by (auto simp: sample_defs)

lemma config_set_entry_witness:
  "\<exists>cfg' vs' i. config_set [] sample_config None (Some (str ''name'')) (Some (str ''y'')) 0 = Some (0, i, cfg', vs') \<and>
     (\<exists>vs2. config_get [] cfg' False (str ''name'') 0 = Some ((Some (str ''y''), Suc i), vs2))"
  using config_set_entry [of sample_config sample_lines "str ''name''" "str ''y''" "[]" "[]"] by (fastforce simp: sample_defs)

lemma config_set_section_witness:
  "\<exists>n i cfg' vs'. config_set [] sample_config (Some (str ''prelude'')) (Some (str ''name'')) (Some (str ''y'')) 0 = Some (0, n, cfg', vs') \<and>
     (\<exists>vs2. config_get [] cfg' True (str ''name'') (n + 2) = Some ((Some (str ''y''), i), vs2))"
  using config_set_section [of "str ''prelude''" "(str ''prelude'', str ''default'')" "str ''name''" "str ''y''" sample_config sample_lines "[]" "[]"]
  by (fastforce simp: sample_defs)

lemma config_del_removes_first_line_witness:
  "\<exists>vs'. config_del None [] sample_config None (Some (str ''name'')) =
     Some (0, \<lparr>cf_content = Some [str ''[prelude]'', str ''name=x''], cf_need_sync = True\<rparr>, vs')"
  using config_del_removes_first_line [of sample_config sample_lines "str ''name''" None "[]" "[]"] by (auto simp: sample_defs)

lemma config_undefined_witness:
  "config_get [] \<lparr>cf_content = Some [str ''a''], cf_need_sync = False\<rparr> False (str ''a'') 0 = None"
  using config_undefined [of "str ''a''" "[]" False "[]" None "[]"] by (simp add: sample_defs variable_get_def)

end
