(* ===== verification/Crc32.thy ===== *)
theory Crc32
  imports Base
begin

text \<open>
  The checksum of the failover journal: \<open>prelude_crc32\<close> of \<open>src/common.c\<close>, with its table. The
  reference is the bitwise division by the reflected CRC-32 polynomial.
\<close>

section \<open>The routine\<close>

definition crc32_tab :: "u32 list" where
  "crc32_tab = [
    0x00000000, 0x77073096, 0xee0e612c, 0x990951ba, 0x076dc419, 0x706af48f, 0xe963a535, 0x9e6495a3,
    0x0edb8832, 0x79dcb8a4, 0xe0d5e91e, 0x97d2d988, 0x09b64c2b, 0x7eb17cbd, 0xe7b82d07, 0x90bf1d91,
    0x1db71064, 0x6ab020f2, 0xf3b97148, 0x84be41de, 0x1adad47d, 0x6ddde4eb, 0xf4d4b551, 0x83d385c7,
    0x136c9856, 0x646ba8c0, 0xfd62f97a, 0x8a65c9ec, 0x14015c4f, 0x63066cd9, 0xfa0f3d63, 0x8d080df5,
    0x3b6e20c8, 0x4c69105e, 0xd56041e4, 0xa2677172, 0x3c03e4d1, 0x4b04d447, 0xd20d85fd, 0xa50ab56b,
    0x35b5a8fa, 0x42b2986c, 0xdbbbc9d6, 0xacbcf940, 0x32d86ce3, 0x45df5c75, 0xdcd60dcf, 0xabd13d59,
    0x26d930ac, 0x51de003a, 0xc8d75180, 0xbfd06116, 0x21b4f4b5, 0x56b3c423, 0xcfba9599, 0xb8bda50f,
    0x2802b89e, 0x5f058808, 0xc60cd9b2, 0xb10be924, 0x2f6f7c87, 0x58684c11, 0xc1611dab, 0xb6662d3d,
    0x76dc4190, 0x01db7106, 0x98d220bc, 0xefd5102a, 0x71b18589, 0x06b6b51f, 0x9fbfe4a5, 0xe8b8d433,
    0x7807c9a2, 0x0f00f934, 0x9609a88e, 0xe10e9818, 0x7f6a0dbb, 0x086d3d2d, 0x91646c97, 0xe6635c01,
    0x6b6b51f4, 0x1c6c6162, 0x856530d8, 0xf262004e, 0x6c0695ed, 0x1b01a57b, 0x8208f4c1, 0xf50fc457,
    0x65b0d9c6, 0x12b7e950, 0x8bbeb8ea, 0xfcb9887c, 0x62dd1ddf, 0x15da2d49, 0x8cd37cf3, 0xfbd44c65,
    0x4db26158, 0x3ab551ce, 0xa3bc0074, 0xd4bb30e2, 0x4adfa541, 0x3dd895d7, 0xa4d1c46d, 0xd3d6f4fb,
    0x4369e96a, 0x346ed9fc, 0xad678846, 0xda60b8d0, 0x44042d73, 0x33031de5, 0xaa0a4c5f, 0xdd0d7cc9,
    0x5005713c, 0x270241aa, 0xbe0b1010, 0xc90c2086, 0x5768b525, 0x206f85b3, 0xb966d409, 0xce61e49f,
    0x5edef90e, 0x29d9c998, 0xb0d09822, 0xc7d7a8b4, 0x59b33d17, 0x2eb40d81, 0xb7bd5c3b, 0xc0ba6cad,
    0xedb88320, 0x9abfb3b6, 0x03b6e20c, 0x74b1d29a, 0xead54739, 0x9dd277af, 0x04db2615, 0x73dc1683,
    0xe3630b12, 0x94643b84, 0x0d6d6a3e, 0x7a6a5aa8, 0xe40ecf0b, 0x9309ff9d, 0x0a00ae27, 0x7d079eb1,
    0xf00f9344, 0x8708a3d2, 0x1e01f268, 0x6906c2fe, 0xf762575d, 0x806567cb, 0x196c3671, 0x6e6b06e7,
    0xfed41b76, 0x89d32be0, 0x10da7a5a, 0x67dd4acc, 0xf9b9df6f, 0x8ebeeff9, 0x17b7be43, 0x60b08ed5,
    0xd6d6a3e8, 0xa1d1937e, 0x38d8c2c4, 0x4fdff252, 0xd1bb67f1, 0xa6bc5767, 0x3fb506dd, 0x48b2364b,
    0xd80d2bda, 0xaf0a1b4c, 0x36034af6, 0x41047a60, 0xdf60efc3, 0xa867df55, 0x316e8eef, 0x4669be79,
    0xcb61b38c, 0xbc66831a, 0x256fd2a0, 0x5268e236, 0xcc0c7795, 0xbb0b4703, 0x220216b9, 0x5505262f,
    0xc5ba3bbe, 0xb2bd0b28, 0x2bb45a92, 0x5cb36a04, 0xc2d7ffa7, 0xb5d0cf31, 0x2cd99e8b, 0x5bdeae1d,
    0x9b64c2b0, 0xec63f226, 0x756aa39c, 0x026d930a, 0x9c0906a9, 0xeb0e363f, 0x72076785, 0x05005713,
    0x95bf4a82, 0xe2b87a14, 0x7bb12bae, 0x0cb61b38, 0x92d28e9b, 0xe5d5be0d, 0x7cdcefb7, 0x0bdbdf21,
    0x86d3d2d4, 0xf1d4e242, 0x68ddb3f8, 0x1fda836e, 0x81be16cd, 0xf6b9265b, 0x6fb077e1, 0x18b74777,
    0x88085ae6, 0xff0f6a70, 0x66063bca, 0x11010b5c, 0x8f659eff, 0xf862ae69, 0x616bffd3, 0x166ccf45,
    0xa00ae278, 0xd70dd2ee, 0x4e048354, 0x3903b3c2, 0xa7672661, 0xd06016f7, 0x4969474d, 0x3e6e77db,
    0xaed16a4a, 0xd9d65adc, 0x40df0b66, 0x37d83bf0, 0xa9bcae53, 0xdebb9ec5, 0x47b2cf7f, 0x30b5ffe9,
    0xbdbdf21c, 0xcabac28a, 0x53b39330, 0x24b4a3a6, 0xbad03605, 0xcdd70693, 0x54de5729, 0x23d967bf,
    0xb3667a2e, 0xc4614ab8, 0x5d681b02, 0x2a6f2b94, 0xb40bbe37, 0xc30c8ea1, 0x5a05df1b, 0x2d02ef8d]"

definition crc32_step :: "u32 \<Rightarrow> byte \<Rightarrow> u32" where
  "crc32_step crc b = crc32_tab ! unat ((crc XOR ucast b) AND 0xff) XOR drop_bit 8 crc"

definition prelude_crc32 :: "byte list \<Rightarrow> u32" where
  "prelude_crc32 data = foldl crc32_step 0xffffffff data XOR 0xffffffff"

section \<open>The reference: one bit at a time\<close>

definition crc_bit :: "u32 \<Rightarrow> u32" where
  "crc_bit c = (if bit c 0 then drop_bit 1 c XOR 0xedb88320 else drop_bit 1 c)"

abbreviation crc_byte :: "u32 \<Rightarrow> u32" where
  "crc_byte \<equiv> crc_bit ^^ 8"

definition crc32_bitwise :: "byte list \<Rightarrow> u32" where
  "crc32_bitwise data = foldl (\<lambda>c b. crc_byte (c XOR ucast b)) 0xffffffff data XOR 0xffffffff"

text \<open>Kernel evaluation of the reference on numerals, to check the table entry by entry.\<close>

lemma drop_bit_double:
  assumes "k < (2147483648 :: nat)" "b \<le> 1"
  shows "drop_bit 1 (word_of_nat (2 * k + b) :: u32) = word_of_nat k" "bit (word_of_nat (2 * k + b) :: u32) 0 \<longleftrightarrow> b = 1"
proof -
  have u: "unat (word_of_nat (2 * k + b) :: u32) = 2 * k + b" "unat (word_of_nat k :: u32) = k"
    using assms unat_of_nat_small [of "2 * k + b", where 'a=32] unat_of_nat_small [of k, where 'a=32] by auto
  then show "drop_bit 1 (word_of_nat (2 * k + b) :: u32) = word_of_nat k"
    using assms(2) by (simp only: word_unat_eq_iff unat_drop_bit_eq u) (auto simp: drop_bit_eq_div)
  show "bit (word_of_nat (2 * k + b) :: u32) 0 \<longleftrightarrow> b = 1"
    using assms(2) by (auto simp: bit_0 even_word_iff u le_Suc_eq)
qed

lemma crc_bit_numeral:
  assumes "numeral n < (2147483648 :: nat)"
  shows "crc_bit (numeral (Num.Bit0 n)) = numeral n" "crc_bit (numeral (Num.Bit1 n)) = numeral n XOR 0xedb88320"
proof -
  have "(numeral (Num.Bit0 n) :: u32) = word_of_nat (2 * numeral n + 0)" "(numeral (Num.Bit1 n) :: u32) = word_of_nat (2 * numeral n + 1)"
    by simp_all
  then show "crc_bit (numeral (Num.Bit0 n)) = numeral n" "crc_bit (numeral (Num.Bit1 n)) = numeral n XOR 0xedb88320"
    using drop_bit_double [OF assms, of 0] drop_bit_double [OF assms, of 1] by (simp_all only: crc_bit_def) simp_all
qed

lemma crc_bit_small: "crc_bit 0 = 0" "crc_bit 1 = 0xedb88320"
  by (simp_all add: crc_bit_def)

lemma crc_byte_unfold: "crc_byte c = crc_bit (crc_bit (crc_bit (crc_bit (crc_bit (crc_bit (crc_bit (crc_bit c)))))))"
  by (simp add: eval_nat_numeral)

lemma upt_256: "[0..<256] = 0 # 1 # [2..<256]"
proof -
  have "[0..<256] = 0 # [Suc 0..<256]" "[Suc 0..<256] = Suc 0 # [Suc (Suc 0)..<256]"
    by (rule upt_conv_Cons, simp)+
  then show ?thesis by (simp only: One_nat_def numeral_2_eq_2)
qed

lemma crc32_tab_bitwise: "crc32_tab = map (\<lambda>i. crc_byte (word_of_nat i)) [0..<256]"
  unfolding crc_byte_unfold by (simp add: crc32_tab_def upt_256 crc_bit_numeral crc_bit_small)

section \<open>The table routine is the bitwise division\<close>

lemma crc_bit_xor: "crc_bit (a XOR b) = crc_bit a XOR crc_bit b"
  by (auto simp: crc_bit_def bit_xor_iff drop_bit_xor ac_simps xor.left_commute)

lemma crc_bits_xor: "(crc_bit ^^ n) (a XOR b) = (crc_bit ^^ n) a XOR (crc_bit ^^ n) b"
  by (induction n) (simp_all add: crc_bit_xor)

lemma crc_bits_low_zero:
  assumes "\<And>i. i < n \<Longrightarrow> \<not> bit y i"
  shows "(crc_bit ^^ n) y = drop_bit n y"
  using assms
proof (induction n)
  case (Suc n)
  then have "(crc_bit ^^ n) y = drop_bit n y" "\<not> bit (drop_bit n y) 0" by (simp_all add: bit_drop_bit_eq)
  then show ?case by (simp add: crc_bit_def [of "drop_bit n y"] drop_bit_drop_bit)
qed simp

lemma crc32_step_bitwise: "crc32_step c b = crc_byte (c XOR ucast b)"
proof -
  let ?x = "c XOR ucast b" and ?lo = "take_bit 8 (c XOR ucast b :: u32)"
  let ?hi = "push_bit 8 (drop_bit 8 ?x)"
  have "?x = ?lo XOR ?hi"
  proof (rule bit_word_eqI)
    fix n assume "n < LENGTH(32)"
    then show "bit ?x n \<longleftrightarrow> bit (?lo XOR ?hi) n"
      by (cases "n < 8") (simp_all add: bit_xor_iff bit_take_bit_iff bit_push_bit_iff bit_drop_bit_eq)
  qed
  then have "crc_byte ?x = crc_byte ?lo XOR crc_byte ?hi" by (metis crc_bits_xor)
  also have "crc_byte ?hi = drop_bit 8 ?hi" by (rule crc_bits_low_zero) (simp only: bit_push_bit_iff, simp)
  also have "\<dots> = drop_bit 8 c"
    by (rule bit_word_eqI) (auto simp: bit_xor_iff bit_push_bit_iff bit_drop_bit_eq bit_ucast_iff dest: bit_imp_le_length)
  also have "crc_byte ?lo = crc32_tab ! unat ?lo"
  proof -
    have "unat ?lo = take_bit 8 (unat ?x)" by (rule unsigned_take_bit_eq)
    then have "unat ?lo < 256" by (simp add: take_bit_eq_mod)
    then show ?thesis by (simp add: crc32_tab_bitwise)
  qed
  finally show ?thesis
    by (simp add: crc32_step_def take_bit_eq_mask mask_eq_exp_minus_1)
qed

text \<open>
  C30: The table-driven checksum equals the bit by bit division by the CRC-32 polynomial, for data of any length.
\<close>

theorem crc32_equals_bitwise: "prelude_crc32 data = crc32_bitwise data"
  by (simp add: prelude_crc32_def crc32_bitwise_def crc32_step_bitwise [abs_def] ext cong: foldl_cong)

section \<open>What the checksum detects\<close>

lemma crc_bit_zero: "crc_bit a = 0 \<longleftrightarrow> a = 0"
proof
  assume z: "crc_bit a = 0"
  have "\<not> bit a 0"
  proof
    assume "bit a 0"
    then have "bit (crc_bit a) 31"
      by (simp add: crc_bit_def bit_xor_iff bit_drop_bit_eq) (auto dest: bit_imp_le_length)
    then show False using z by simp
  qed
  then have d: "drop_bit 1 a = 0" using z by (simp add: crc_bit_def)
  show "a = 0"
  proof (rule bit_word_eqI)
    fix n show "bit a n \<longleftrightarrow> bit 0 n"
    proof (cases n)
      case (Suc m)
      moreover have "bit (drop_bit 1 a) m \<longleftrightarrow> bit a (Suc m)" by (simp add: bit_drop_bit_eq)
      ultimately show ?thesis using d by simp
    qed (use \<open>\<not> bit a 0\<close> in simp)
  qed
qed (simp add: crc_bit_def)

lemma xor_undo: "(a XOR c) XOR c = a" for a c :: u32
  by (simp add: xor.assoc)

lemma xor_cancel: "a XOR c = b XOR c \<longleftrightarrow> a = b" "c XOR a = c XOR b \<longleftrightarrow> a = b" "a XOR b = 0 \<longleftrightarrow> a = b"
  for a b c :: u32
proof -
  show r: "a XOR c = b XOR c \<longleftrightarrow> a = b" for a b c :: u32
  proof
    assume "a XOR c = b XOR c"
    then have "(a XOR c) XOR c = (b XOR c) XOR c" by (simp only:)
    then show "a = b" by (simp only: xor_undo)
  qed simp
  show "c XOR a = c XOR b \<longleftrightarrow> a = b" by (simp only: xor.commute [of c] r)
  show "a XOR b = 0 \<longleftrightarrow> a = b" using r [of a b b] by simp
qed

lemma crc_bits_inj: "(crc_bit ^^ n) a = (crc_bit ^^ n) b \<longleftrightarrow> a = b"
proof -
  have "(crc_bit ^^ n) c = 0 \<longleftrightarrow> c = 0" for c by (induction n) (simp_all add: crc_bit_zero)
  from this [of "a XOR b"] show ?thesis by (simp add: crc_bits_xor xor_cancel(3))
qed

fun le_word :: "byte list \<Rightarrow> u32" where
  "le_word [] = 0"
| "le_word (b # bs) = ucast b XOR push_bit 8 (le_word bs)"

lemma le_word_high: "8 * length bs \<le> i \<Longrightarrow> \<not> bit (le_word bs) i"
  by (induction bs arbitrary: i)
    (auto simp: bit_xor_iff bit_push_bit_iff bit_ucast_iff dest: bit_imp_le_length)

lemma le_word_tail:
  assumes "length bs \<le> 3"
  shows "drop_bit 8 (push_bit 8 (le_word bs)) = le_word bs" "drop_bit 8 (le_word (b # bs)) = le_word bs"
    "ucast (le_word (b # bs)) = b"
proof -
  have "\<not> bit (le_word bs) i" if "24 \<le> i" for i using le_word_high [of bs i] assms that by simp
  then have hi: "bit (le_word bs) i \<Longrightarrow> i < 24" for i by (meson not_le)
  show "drop_bit 8 (push_bit 8 (le_word bs)) = le_word bs"
    by (rule bit_word_eqI) (auto simp: bit_push_bit_iff bit_drop_bit_eq dest: hi)
  show "drop_bit 8 (le_word (b # bs)) = le_word bs"
    by (rule bit_word_eqI)
      (auto simp: bit_push_bit_iff bit_drop_bit_eq bit_xor_iff bit_ucast_iff dest: hi bit_imp_le_length)
  show "ucast (le_word (b # bs)) = b"
    by (rule bit_word_eqI) (auto simp: bit_push_bit_iff bit_xor_iff bit_ucast_iff)
qed

lemma le_word_inj:
  assumes "length u = length v" "length u \<le> 4" "le_word u = le_word v"
  shows "u = v"
  using assms
proof (induction u v rule: list_induct2)
  case (Cons a u b v)
  have "a = b" "le_word u = le_word v"
    using Cons.prems Cons.hyps le_word_tail(2,3) [of u a] le_word_tail(2,3) [of v b] by (simp_all del: le_word.simps)
  then show ?case using Cons by simp
qed simp

text \<open>Up to four bytes are one division of 32 bits.\<close>

lemma crc_steps_le_word:
  assumes "length u \<le> 4"
  shows "foldl crc32_step c u = (crc_bit ^^ (8 * length u)) (c XOR le_word u)"
  using assms
proof (induction u arbitrary: c)
  case (Cons b u)
  have "crc_byte (push_bit 8 (le_word u)) = drop_bit 8 (push_bit 8 (le_word u))"
    by (rule crc_bits_low_zero) (simp add: bit_push_bit_iff)
  then have "le_word u = crc_byte (push_bit 8 (le_word u))"
    using Cons.prems le_word_tail(1) [of u] by simp
  then have "crc32_step c b XOR le_word u = crc_byte (c XOR le_word (b # u))"
    by (simp only: crc32_step_bitwise le_word.simps xor.assoc [symmetric] crc_bits_xor [of 8 "c XOR ucast b"])
  moreover have "8 * length (b # u) = 8 * length u + 8" by simp
  ultimately show ?case using Cons by (simp only: foldl.simps funpow_add comp_apply)
qed simp

lemma crc_state_inj: "foldl crc32_step c ys = foldl crc32_step d ys \<longleftrightarrow> c = d"
proof (induction ys arbitrary: c d)
  case (Cons b ys)
  then show ?case by (simp add: crc32_step_bitwise crc_bits_inj xor_cancel)
qed simp

text \<open>
  A corruption that is confined to four consecutive bytes, wherever they are, always changes the checksum.
\<close>

theorem crc32_detects_bursts:
  assumes "length u = length v" "length u \<le> 4" "u \<noteq> v"
  shows "prelude_crc32 (xs @ u @ ys) \<noteq> prelude_crc32 (xs @ v @ ys)"
proof
  assume "prelude_crc32 (xs @ u @ ys) = prelude_crc32 (xs @ v @ ys)"
  then have "foldl crc32_step (foldl crc32_step 0xffffffff xs) u = foldl crc32_step (foldl crc32_step 0xffffffff xs) v"
    by (simp add: prelude_crc32_def crc_state_inj xor_cancel)
  then have "le_word u = le_word v"
    using assms by (simp add: crc_steps_le_word crc_bits_inj xor_cancel)
  then show False using le_word_inj assms by blast
qed

theorem crc32_detects_bursts_witness:
  "prelude_crc32 ([1, 2] @ [3, 4] @ [5]) \<noteq> prelude_crc32 ([1, 2] @ [4, 3] @ [5])"
  by (rule crc32_detects_bursts) simp_all

end
