(* ===== verification/Failover.thy ===== *)
theory Failover
  imports Msgbuf Crc32
begin

text \<open>
  The failover (\<open>src/prelude-failover.c\<close>): messages that cannot be sent are appended to a data file, and
  a journal of checksummed entries records how many messages wait and how far the file was read.

  The record holds the structure of the source together with the files behind its descriptors: the
  data file (append-only through \<open>wfd\<close>, read at \<open>fo_rpos\<close> through \<open>rfd\<close>) and the journal with its
  position. \<open>fo_faults\<close> says how the coming system calls on these descriptors end, in order; when it is
  used up, every call does what it was asked for. \<open>off_t\<close> has 64 bits. Directory scanning, file locks and
  signal masks are not modelled.

  Messages of several frames are saved one frame at a time, as \<open>prelude_msg_write\<close> sends them. The theorems cover them, short reads, and calls that fail.
\<close>

section \<open>State and files\<close>

text \<open>A system call does all it was asked for, transfers at most \<open>Suc n\<close> bytes, or fails.\<close>

datatype outcome = Works | Short nat | Fails errno

record prelude_failover =
  fo_data :: "byte list"
  fo_rpos :: nat
  fo_journal :: "byte list"
  fo_jpos :: nat
  fo_count :: u64
  fo_rindex :: u64
  fo_transaction_enabled :: bool
  fo_faults :: "outcome list"

definition next_call :: "prelude_failover \<Rightarrow> outcome \<times> prelude_failover" where
  "next_call s = (case fo_faults s of [] \<Rightarrow> (Works, s) | x # xs \<Rightarrow> (x, s\<lparr>fo_faults := xs\<rparr>))"

definition granted :: "outcome \<Rightarrow> nat \<Rightarrow> nat" where
  "granted x n = (case x of Short k \<Rightarrow> min n (Suc k) | _ \<Rightarrow> n)"

definition kread_data :: "prelude_failover \<Rightarrow> nat \<Rightarrow> byte list sysret \<times> prelude_failover" where
  "kread_data s n = (case next_call s of (x, s') \<Rightarrow> case x of
       Fails e \<Rightarrow> (Sys_Err e, s')
     | _ \<Rightarrow> let bs = take (granted x n) (drop (fo_rpos s') (fo_data s')) in
         (Sys_Ok bs, s'\<lparr>fo_rpos := fo_rpos s' + length bs\<rparr>))"

definition kwrite_data :: "prelude_failover \<Rightarrow> byte list \<Rightarrow> nat sysret \<times> prelude_failover" where
  "kwrite_data s bs = (case next_call s of (x, s') \<Rightarrow> case x of
       Fails e \<Rightarrow> (Sys_Err e, s')
     | _ \<Rightarrow> let n = granted x (length bs) in (Sys_Ok n, s'\<lparr>fo_data := fo_data s' @ take n bs\<rparr>))"

definition fo_read :: "prelude_failover reader" where
  "fo_read s n = map_option (\<lambda>(r, io). (r, io_fd io)) (sys_read kread_data (prelude_io_set_sys_io (prelude_io_new s) s) n)"

definition fo_write :: "prelude_failover writer" where
  "fo_write s bs = map_option (\<lambda>(r, io). (r, io_fd io)) (sys_write kwrite_data (prelude_io_set_sys_io (prelude_io_new s) s) bs)"

text \<open>A call that moves no data: it works or fails.\<close>

definition checked_call :: "prelude_failover \<Rightarrow> bool \<times> prelude_failover" where
  "checked_call s = (case next_call s of (x, s') \<Rightarrow> (case x of Fails _ \<Rightarrow> False | _ \<Rightarrow> True, s'))"

text \<open>\<open>lseek\<close> to an absolute offset; a negative one is refused.\<close>

definition lseek_set :: "int \<Rightarrow> prelude_failover \<Rightarrow> nat option \<times> prelude_failover" where
  "lseek_set off s = (case checked_call s of (ok, s') \<Rightarrow> (if \<not> ok \<or> off < 0 then None else Some (nat off), s'))"

section \<open>The journal\<close>

record failover_journal_entry =
  je_count :: u64
  je_rindex :: u64
  je_checksum :: "byte list"

definition je_data :: "byte_order \<Rightarrow> failover_journal_entry \<Rightarrow> byte list" where
  "je_data bo j = mem64 bo (je_count j) @ mem64 bo (je_rindex j) @ je_checksum j"

definition journal_checksum :: "byte_order \<Rightarrow> failover_journal_entry \<Rightarrow> byte list" where
  "journal_checksum bo j =
     (let crc = prelude_crc32 (take (20 - 4) (je_data bo j)) in
      [ucast (drop_bit 24 crc AND 0xff), ucast (drop_bit 16 crc AND 0xff),
       ucast (drop_bit 8 crc AND 0xff), ucast (crc AND 0xff)])"

text \<open>Writing at a file position, and the journal entry of the current state.\<close>

definition file_overwrite :: "byte list \<Rightarrow> nat \<Rightarrow> byte list \<Rightarrow> byte list" where
  "file_overwrite f pos bs = take pos f @ replicate (pos - length f) 0 @ bs @ drop (pos + length bs) f"

function journal_write_loop :: "byte list \<Rightarrow> prelude_failover \<Rightarrow> unit result \<times> prelude_failover" where
  "journal_write_loop bs s =
     (if bs = [] then (Inr (), s)
      else case next_call s of (x, s') \<Rightarrow> case x of
          Fails _ \<Rightarrow> (Inl PRELUDE_ERROR_GENERIC, s')
        | _ \<Rightarrow> let n = granted x (length bs) in
            journal_write_loop (drop n bs)
              (s'\<lparr>fo_journal := file_overwrite (fo_journal s') (fo_jpos s') (take n bs), fo_jpos := fo_jpos s' + n\<rparr>))"
  by pat_completeness auto
termination
  by (relation "measure (\<lambda>(bs, s). length bs)") (auto simp: granted_def split: outcome.splits)

declare journal_write_loop.simps [simp del]

definition journal_write :: "byte_order \<Rightarrow> prelude_failover \<Rightarrow> unit result \<times> prelude_failover" where
  "journal_write bo s =
     (let fj = \<lparr>je_count = fo_count s, je_rindex = fo_rindex s, je_checksum = replicate 4 0\<rparr>
      in journal_write_loop (je_data bo (fj\<lparr>je_checksum := journal_checksum bo fj\<rparr>)) s)"

text \<open>An error ends the function where it happens. None of the callers looks at the result.\<close>

definition truncate_failover :: "byte_order \<Rightarrow> prelude_failover \<Rightarrow> unit result \<times> prelude_failover" where
  "truncate_failover bo s =
     (case checked_call s of (ok, s1) \<Rightarrow>
      if \<not> ok then (Inl PRELUDE_ERROR_GENERIC, s1)
      else case checked_call (s1\<lparr>fo_data := []\<rparr>) of (ok, s2) \<Rightarrow>
      if \<not> ok then (Inl PRELUDE_ERROR_GENERIC, s2)
      else case lseek_set 0 (s2\<lparr>fo_journal := []\<rparr>) of
          (None, s3) \<Rightarrow> (Inl PRELUDE_ERROR_GENERIC, s3)
        | (Some pos, s3) \<Rightarrow>
      case lseek_set 0 (s3\<lparr>fo_rpos := pos\<rparr>) of
          (None, s4) \<Rightarrow> (Inl PRELUDE_ERROR_GENERIC, s4)
        | (Some pos, s4) \<Rightarrow>
      (Inr (), snd (journal_write bo (s4\<lparr>fo_jpos := pos, fo_count := 0, fo_rindex := 0\<rparr>))))"

text \<open>The read loop ends with an entry or an error, but not when the file does.\<close>

partial_function (option) journal_read_loop ::
  "byte list \<Rightarrow> prelude_failover \<Rightarrow> (byte list result \<times> prelude_failover) option" where
  "journal_read_loop got s =
     (case next_call s of (x, s1) \<Rightarrow> case x of
        Fails _ \<Rightarrow> Some (Inl PRELUDE_ERROR_GENERIC, s1)
      | _ \<Rightarrow>
        let bs = take (granted x (20 - length got)) (drop (fo_jpos s1) (fo_journal s1));
            s' = s1\<lparr>fo_jpos := fo_jpos s1 + length bs\<rparr>
        in if length (got @ bs) = 20 then Some (Inr (got @ bs), s') else journal_read_loop (got @ bs) s')"

definition journal_read ::
  "byte_order \<Rightarrow> prelude_failover \<Rightarrow> (failover_journal_entry result \<times> prelude_failover) option" where
  "journal_read bo s = map_option (\<lambda>(r, s'). (map_sum id (\<lambda>bs.
     \<lparr>je_count = load64 bo (take 8 bs), je_rindex = load64 bo (take 8 (drop 8 bs)), je_checksum = drop 16 bs\<rparr>) r, s'))
     (journal_read_loop [] s)"

definition journal_check ::
  "byte_order \<Rightarrow> nat \<Rightarrow> failover_journal_entry \<Rightarrow> prelude_failover \<Rightarrow> bool \<times> failover_journal_entry \<times> prelude_failover" where
  "journal_check bo wsize j s =
     (if journal_checksum bo j \<noteq> je_checksum j then (False, j, s)
      else if wsize < unat (je_rindex j)
      then (True, j\<lparr>je_rindex := 0, je_count := 0\<rparr>, snd (truncate_failover bo s))
      else if unat (je_rindex j) = wsize
      then (True, j\<lparr>je_rindex := 0, je_count := 0\<rparr>, snd (truncate_failover bo s))
      else (True, j, s))"

text \<open>The loop goes back one entry at a time until one is valid or the file begins.\<close>

function journal_search ::
  "byte_order \<Rightarrow> nat \<Rightarrow> int \<Rightarrow> prelude_failover \<Rightarrow>
     ((bool \<times> failover_journal_entry) result \<times> prelude_failover) option" where
  "journal_search bo wsize off s =
     (let offset = off - 20 in
      case lseek_set offset s of
        (None, s0) \<Rightarrow> Some (Inl PRELUDE_ERROR_GENERIC, s0)
      | (Some pos, s0) \<Rightarrow>
          Option.bind (journal_read bo (s0\<lparr>fo_jpos := pos\<rparr>)) (\<lambda>(r, s1). case r of
            Inl e \<Rightarrow> Some (Inl e, s1)
          | Inr j \<Rightarrow>
            (case journal_check bo wsize j s1 of (ok, j1, s2) \<Rightarrow>
              if 0 < offset \<and> \<not> ok then journal_search bo wsize offset s2
              else Some (Inr (ok, j1), s2))))"
  by pat_completeness auto
termination
  by (relation "measure (\<lambda>(bo, wsize, off, s). nat off)") auto

definition journal_read_last_entry ::
  "byte_order \<Rightarrow> nat \<Rightarrow> nat \<Rightarrow> prelude_failover \<Rightarrow> (failover_journal_entry result \<times> prelude_failover) option" where
  "journal_read_last_entry bo jsize wsize s =
     map_option (\<lambda>(r, s'). case r of
         Inl e \<Rightarrow> (Inl e, s')
       | Inr (ok, j) \<Rightarrow> (Inr j, if ok then s' else snd (truncate_failover bo s')))
       (journal_search bo wsize (int jsize - int (jsize mod 20)) s)"

text \<open>The two calls of \<open>fstat\<close>, then the journal.\<close>

definition journal_initialize :: "byte_order \<Rightarrow> prelude_failover \<Rightarrow> (unit result \<times> prelude_failover) option" where
  "journal_initialize bo s =
     (case checked_call s of (ok, sj) \<Rightarrow>
      if \<not> ok then Some (Inl PRELUDE_ERROR_GENERIC, sj)
      else case checked_call sj of (ok, sw) \<Rightarrow>
      if \<not> ok then Some (Inl PRELUDE_ERROR_GENERIC, sw)
      else
      let jsize = length (fo_journal s); wsize = length (fo_data s) in
      if jsize = 0 \<and> 0 < wsize then Some (Inr (), snd (truncate_failover bo sw))
      else if jsize = 0 \<and> wsize = 0 then Some (Inr (), sw)
      else map_option (\<lambda>(r, s1). case r of
          Inl e \<Rightarrow> (Inl e, s1)
        | Inr j \<Rightarrow>
            let s2 = s1\<lparr>fo_count := je_count j, fo_rindex := je_rindex j\<rparr> in
            (case lseek_set (sint (fo_rindex s2)) s2 of
               (None, s3) \<Rightarrow> (Inl PRELUDE_ERROR_GENERIC, s3)
             | (Some pos, s3) \<Rightarrow> (Inr (), s3\<lparr>fo_rpos := pos\<rparr>)))
          (journal_read_last_entry bo jsize wsize sw))"

text \<open>Opening a failover over the files that an earlier run has left.\<close>

definition prelude_failover_new ::
  "byte_order \<Rightarrow> outcome list \<Rightarrow> byte list \<Rightarrow> byte list \<Rightarrow> (unit result \<times> prelude_failover) option" where
  "prelude_failover_new bo faults data journal =
     journal_initialize bo \<lparr>fo_data = data, fo_rpos = 0, fo_journal = journal, fo_jpos = 0,
       fo_count = 0, fo_rindex = 0, fo_transaction_enabled = False, fo_faults = faults\<rparr>"

section \<open>Saving and recovering messages\<close>

definition prelude_failover_commit :: "byte_order \<Rightarrow> prelude_failover \<Rightarrow> prelude_msg \<Rightarrow> prelude_failover" where
  "prelude_failover_commit bo s msg =
     snd (journal_write bo (s\<lparr>fo_count := (if 0 < fo_count s then fo_count s - 1 else fo_count s),
                         fo_rindex := fo_rindex s + ucast (prelude_msg_get_len msg)\<rparr>))"

text \<open>The length is negated as a 32 bit unsigned integer before it becomes an \<open>off_t\<close>.\<close>

definition prelude_failover_rollback :: "prelude_failover \<Rightarrow> prelude_msg \<Rightarrow> unit result \<times> prelude_failover" where
  "prelude_failover_rollback s msg =
     (case lseek_set (int (fo_rpos s) + uint (- prelude_msg_get_len msg)) s of
        (None, s') \<Rightarrow> (Inl PRELUDE_ERROR_GENERIC, s')
      | (Some pos, s') \<Rightarrow> (Inr (), s'\<lparr>fo_rpos := pos\<rparr>))"

text \<open>Success returns the length of the message, and zero at the end of the saved messages.\<close>

definition prelude_failover_get_saved_msg ::
  "byte_order \<Rightarrow> (nat \<Rightarrow> bool) \<Rightarrow> prelude_failover \<Rightarrow> (u32 result \<times> prelude_msg option \<times> prelude_failover) option" where
  "prelude_failover_get_saved_msg bo mem_ok s =
     Option.bind (prelude_msg_read bo mem_ok fo_read None s) (\<lambda>(ret, mo, s1).
       case ret of
         Inl e \<Rightarrow>
           Some (if e = PRELUDE_ERROR_EOF then Inr 0 else Inl PRELUDE_ERROR_GENERIC, mo, snd (truncate_failover bo s1))
       | Inr _ \<Rightarrow>
           map_option (\<lambda>m. (Inr (prelude_msg_get_len m), Some m,
             if fo_transaction_enabled s1 then s1 else prelude_failover_commit bo s1 m)) mo)"

partial_function (option) save_loop ::
  "byte_order \<Rightarrow> u32 \<times> u32 \<Rightarrow> prelude_msg \<Rightarrow> prelude_failover \<Rightarrow> (unit result \<times> prelude_msg \<times> prelude_failover) option" where
  "save_loop bo now msg s =
     Option.bind (prelude_msg_write bo now fo_write msg s) (\<lambda>r.
       if fst r = Inl PRELUDE_ERROR_EINTR then save_loop bo now (fst (snd r)) (snd (snd r)) else Some r)"

definition prelude_failover_save_msg ::
  "byte_order \<Rightarrow> u32 \<times> u32 \<Rightarrow> prelude_msg \<Rightarrow> prelude_failover \<Rightarrow> (unit result \<times> prelude_msg \<times> prelude_failover) option" where
  "prelude_failover_save_msg bo now msg s =
     map_option (\<lambda>(ret, m, s1). case ret of
         Inl e \<Rightarrow> (Inl e, m, s1)
       | Inr _ \<Rightarrow> (ret, m,
           if \<not> prelude_msg_is_fragment m then snd (journal_write bo (s1\<lparr>fo_count := fo_count s1 + 1\<rparr>)) else s1))
       (save_loop bo now msg s)"

definition prelude_failover_get_available_msg_count :: "prelude_failover \<Rightarrow> u64" where
  "prelude_failover_get_available_msg_count s = fo_count s"

definition prelude_failover_enable_transaction :: "prelude_failover \<Rightarrow> prelude_failover" where
  "prelude_failover_enable_transaction s = s\<lparr>fo_transaction_enabled := True\<rparr>"

definition prelude_failover_disable_transaction :: "prelude_failover \<Rightarrow> prelude_failover" where
  "prelude_failover_disable_transaction s = s\<lparr>fo_transaction_enabled := False\<rparr>"

section \<open>The files as byte sources\<close>

abbreviation fo_unread :: "prelude_failover \<Rightarrow> byte list" where
  "fo_unread s \<equiv> drop (fo_rpos s) (fo_data s)"

lemma granted_simps [simp]: "granted Works n = n" "granted (Short k) n = min n (Suc k)"
  by (simp_all add: granted_def)

lemma calls_work [simp]:
  assumes "fo_faults s = []"
  shows "next_call s = (Works, s)" "checked_call s = (True, s)" "lseek_set off s = (if off < 0 then None else Some (nat off), s)"
  using assms by (simp_all add: next_call_def checked_call_def lseek_set_def)

text \<open>The state at the call that is not interrupted any more.\<close>

definition settled :: "prelude_failover \<Rightarrow> prelude_failover" where
  "settled s = s\<lparr>fo_faults := dropWhile (\<lambda>x. x = Fails EINTR) (fo_faults s)\<rparr>"

lemma settled_works [simp]: "fo_faults s = [] \<Longrightarrow> settled s = s"
  by (simp add: settled_def)

lemma retry_settles:
  assumes "\<And>k xs. fo_faults k = Fails EINTR # xs \<Longrightarrow> call k = (Sys_Err EINTR, k\<lparr>fo_faults := xs\<rparr>)"
    and "\<And>k. (\<forall>xs. fo_faults k \<noteq> Fails EINTR # xs) \<Longrightarrow> fst (call k) \<noteq> Sys_Err EINTR"
  shows "retry_eintr call s = Some (call (settled s))"
proof (induction "fo_faults s" arbitrary: s)
  case Nil
  then show ?case using assms(2) [of s] by (subst retry_eintr.simps) simp
next
  case (Cons x xs)
  show ?case
  proof (cases "x = Fails EINTR")
    case True
    then have "fo_faults s = Fails EINTR # xs" using Cons.hyps(2) by simp
    moreover have "settled (s\<lparr>fo_faults := xs\<rparr>) = settled s" using calculation by (simp add: settled_def)
    ultimately show ?thesis
      using assms(1) [of s xs] Cons.hyps(1) [of "s\<lparr>fo_faults := xs\<rparr>"] by (subst retry_eintr.simps) simp
  next
    case False
    note fs = Cons.hyps(2) [symmetric]
    have "dropWhile (\<lambda>x. x = Fails EINTR) (fo_faults s) = fo_faults s" using False fs by simp
    then have "settled s = s" by (simp add: settled_def)
    moreover have "fst (call s) \<noteq> Sys_Err EINTR" using assms(2) [of s] False fs by simp
    ultimately show ?thesis by (subst retry_eintr.simps) simp
  qed
qed

definition read_errno :: "errno \<Rightarrow> prelude_error_code" where
  "read_errno e = (if e = ECONNRESET then PRELUDE_ERROR_EOF else prelude_error_from_errno e)"

lemma kread_result:
  "kread_data s n = (case next_call s of (x, s') \<Rightarrow> (case x of Fails e \<Rightarrow> Sys_Err e | _ \<Rightarrow> Sys_Ok (take (granted x n) (fo_unread s')),
     case x of Fails e \<Rightarrow> s' | _ \<Rightarrow> s'\<lparr>fo_rpos := fo_rpos s' + length (take (granted x n) (fo_unread s'))\<rparr>))"
  by (simp add: kread_data_def Let_def split: prod.split outcome.split)

lemma fo_read_eq:
  "fo_read s n = (case next_call (settled s) of (x, s') \<Rightarrow> Some (case x of
       Fails e \<Rightarrow> (Inl (read_errno e), s')
     | _ \<Rightarrow> let bs = take (granted x n) (fo_unread s') in
         (if bs = [] then Inl PRELUDE_ERROR_EOF else Inr bs, s'\<lparr>fo_rpos := fo_rpos s' + length bs\<rparr>)))"
proof -
  have "retry_eintr (\<lambda>k. kread_data k n) s = Some (kread_data (settled s) n)"
    by (rule retry_settles) (auto simp: kread_result next_call_def split: list.splits outcome.splits)
  then show ?thesis
    by (simp add: fo_read_def sys_read_def prelude_io_set_sys_io_def prelude_io_new_def kread_result read_errno_def Let_def
        split: prod.split outcome.split)
qed

lemma fo_write_eq:
  "fo_write s bs = (case next_call (settled s) of (x, s') \<Rightarrow> Some (case x of
       Fails e \<Rightarrow> (Inl (prelude_error_from_errno e), s')
     | _ \<Rightarrow> (Inr (granted x (length bs)), s'\<lparr>fo_data := fo_data s' @ take (granted x (length bs)) bs\<rparr>)))"
proof -
  have "retry_eintr (\<lambda>k. kwrite_data k bs) s = Some (kwrite_data (settled s) bs)"
    by (rule retry_settles) (auto simp: kwrite_data_def next_call_def Let_def split: list.splits outcome.splits)
  then show ?thesis
    by (simp add: fo_write_def sys_write_def prelude_io_set_sys_io_def prelude_io_new_def kwrite_data_def Let_def
        split: prod.split outcome.split)
qed

text \<open>
  Reading moves the read position inside of the data file and uses up outcomes, and changes nothing else. A failure with
  \<open>ECONNRESET\<close>, which the descriptor layer takes for the end of the file, is excluded.
\<close>

definition reading_from :: "prelude_failover \<Rightarrow> prelude_failover \<Rightarrow> bool" where
  "reading_from s0 s \<longleftrightarrow> Fails ECONNRESET \<notin> set (fo_faults s0) \<and>
     (\<exists>p fl. p \<le> length (fo_data s0) \<and> set fl \<subseteq> set (fo_faults s0) \<and> s = s0\<lparr>fo_rpos := p, fo_faults := fl\<rparr>)"

lemma reading_from_same [simp]:
  "reading_from s s \<longleftrightarrow> Fails ECONNRESET \<notin> set (fo_faults s) \<and> fo_rpos s \<le> length (fo_data s)"
proof
  assume "reading_from s s"
  then obtain p fl where p: "Fails ECONNRESET \<notin> set (fo_faults s)" "p \<le> length (fo_data s)" "s = s\<lparr>fo_rpos := p, fo_faults := fl\<rparr>"
    unfolding reading_from_def by blast
  have "fo_rpos s = p" by (subst p(3)) simp
  then show "Fails ECONNRESET \<notin> set (fo_faults s) \<and> fo_rpos s \<le> length (fo_data s)" using p(1,2) by blast
next
  have "s = s\<lparr>fo_rpos := fo_rpos s, fo_faults := fo_faults s\<rparr>" by simp
  then show "Fails ECONNRESET \<notin> set (fo_faults s) \<and> fo_rpos s \<le> length (fo_data s) \<Longrightarrow> reading_from s s"
    unfolding reading_from_def by blast
qed

lemma reading_from_call:
  assumes "reading_from s0 s" "next_call (settled s) = (x, s')"
  shows "reading_from s0 s'" "x \<noteq> Fails ECONNRESET" "fo_rpos s' = fo_rpos s" "fo_data s' = fo_data s"
    "length (fo_faults s') \<le> length (fo_faults s)" "x \<noteq> Works \<Longrightarrow> length (fo_faults s') < length (fo_faults s)"
proof -
  obtain p fl where s: "p \<le> length (fo_data s0)" "set fl \<subseteq> set (fo_faults s0)" "s = s0\<lparr>fo_rpos := p, fo_faults := fl\<rparr>"
    "Fails ECONNRESET \<notin> set (fo_faults s0)" using assms(1) by (auto simp: reading_from_def)
  define gl where "gl = dropWhile (\<lambda>x. x = Fails EINTR) fl"
  have sub: "set gl \<subseteq> set (fo_faults s0)" using s(2) set_dropWhileD unfolding gl_def by fastforce
  have len: "length gl \<le> length fl" unfolding gl_def by (rule length_dropWhile_le)
  have x: "x = (case gl of [] \<Rightarrow> Works | y # ys \<Rightarrow> y)" "s' = s0\<lparr>fo_rpos := p, fo_faults := tl gl\<rparr>"
    using assms(2) s(3) by (auto simp: next_call_def settled_def gl_def [symmetric] split: list.splits)
  have "set (tl gl) \<subseteq> set (fo_faults s0)" using sub list.set_sel(2) [of gl] by (cases gl) auto
  then show "reading_from s0 s'" using s(1,4) x(2) unfolding reading_from_def by blast
  show "x \<noteq> Fails ECONNRESET" using x(1) sub s(4) by (cases gl) auto
  show "fo_rpos s' = fo_rpos s" "fo_data s' = fo_data s" "length (fo_faults s') \<le> length (fo_faults s)" using x(2) s(3) len by simp_all
  show "length (fo_faults s') < length (fo_faults s)" if "x \<noteq> Works" using that x s(3) len by (cases gl) simp_all
qed

lemma reading_from_rpos:
  assumes "reading_from s0 s" "p \<le> length (fo_data s)"
  shows "reading_from s0 (s\<lparr>fo_rpos := p\<rparr>)"
proof -
  obtain q fl where "set fl \<subseteq> set (fo_faults s0)" "s = s0\<lparr>fo_rpos := q, fo_faults := fl\<rparr>" "Fails ECONNRESET \<notin> set (fo_faults s0)"
    using assms(1) unfolding reading_from_def by blast
  moreover from this have "s\<lparr>fo_rpos := p\<rparr> = s0\<lparr>fo_rpos := p, fo_faults := fl\<rparr>" "p \<le> length (fo_data s0)" using assms(2) by simp_all
  ultimately show ?thesis unfolding reading_from_def by blast
qed

lemma reading_from_bounds: "reading_from s0 s \<Longrightarrow> fo_rpos s \<le> length (fo_data s) \<and> fo_data s = fo_data s0"
  by (auto simp: reading_from_def)

lemma unread_advance:
  "bs = take n (fo_unread s) \<Longrightarrow> fo_unread s = bs @ fo_unread (s\<lparr>fo_rpos := fo_rpos s + length bs\<rparr>)"
  by (cases "n \<le> length (fo_unread s)")
    (auto simp: min_def drop_drop [symmetric] add.commute [of "fo_rpos s"] simp del: drop_drop)

text \<open>One read: an outcome is used, data is delivered or there is an error.\<close>

lemma fo_read_cases:
  assumes "reading_from s0 io" "fo_read io n = Some (r, io')"
  shows "reading_from s0 io'" "length (fo_faults io') \<le> length (fo_faults io)"
    "case r of
      Inl e \<Rightarrow> fo_rpos io' = fo_rpos io \<and> (e = PRELUDE_ERROR_EOF \<longrightarrow> 0 < n \<longrightarrow> fo_unread io = []) \<and>
        (e \<noteq> PRELUDE_ERROR_EOF \<longrightarrow> length (fo_faults io') < length (fo_faults io))
    | Inr bs \<Rightarrow> bs \<noteq> [] \<and> length bs \<le> n \<and> fo_unread io = bs @ fo_unread io'"
proof -
  obtain x s' where x: "next_call (settled io) = (x, s')" by fastforce
  note c = reading_from_call [OF assms(1) x]
  have errno: "read_errno e \<noteq> PRELUDE_ERROR_EOF" if "e \<noteq> ECONNRESET" for e using that by (cases e) (simp_all add: read_errno_def)
  show "reading_from s0 io'" "length (fo_faults io') \<le> length (fo_faults io)" "case r of
      Inl e \<Rightarrow> fo_rpos io' = fo_rpos io \<and> (e = PRELUDE_ERROR_EOF \<longrightarrow> 0 < n \<longrightarrow> fo_unread io = []) \<and>
        (e \<noteq> PRELUDE_ERROR_EOF \<longrightarrow> length (fo_faults io') < length (fo_faults io))
    | Inr bs \<Rightarrow> bs \<noteq> [] \<and> length bs \<le> n \<and> fo_unread io = bs @ fo_unread io'"
  proof (atomize (full), cases "\<exists>e. x = Fails e")
    case True
    then show "reading_from s0 io' \<and> length (fo_faults io') \<le> length (fo_faults io) \<and> (case r of
      Inl e \<Rightarrow> fo_rpos io' = fo_rpos io \<and> (e = PRELUDE_ERROR_EOF \<longrightarrow> 0 < n \<longrightarrow> fo_unread io = []) \<and>
        (e \<noteq> PRELUDE_ERROR_EOF \<longrightarrow> length (fo_faults io') < length (fo_faults io))
    | Inr bs \<Rightarrow> bs \<noteq> [] \<and> length bs \<le> n \<and> fo_unread io = bs @ fo_unread io')"
      using assms(2) c errno by (auto simp: fo_read_eq x)
  next
    case False
    define bs where "bs = take (granted x n) (fo_unread s')"
    have r: "r = (if bs = [] then Inl PRELUDE_ERROR_EOF else Inr bs)" "io' = s'\<lparr>fo_rpos := fo_rpos s' + length bs\<rparr>"
      using assms(2) False by (auto simp: fo_read_eq x bs_def Let_def split: outcome.splits)
    have g: "granted x n \<le> n" "0 < n \<Longrightarrow> 0 < granted x n" using False by (cases x; simp)+
    have b: "fo_rpos s' \<le> length (fo_data s')" using reading_from_bounds [OF c(1)] by blast
    then have "reading_from s0 io'" unfolding r(2) by (intro reading_from_rpos [OF c(1)]) (auto simp: bs_def)
    moreover have u: "fo_unread io = bs @ fo_unread io'"
      using unread_advance [OF bs_def] c(3,4) unfolding r(2) by simp
    moreover have "length bs \<le> n" using g(1) by (simp add: bs_def)
    moreover have "fo_unread io = []" if "bs = []" "0 < n" using that g(2) c(3,4) by (auto simp: bs_def)
    moreover have "length (fo_faults io') \<le> length (fo_faults io)" "bs = [] \<longrightarrow> fo_rpos io' = fo_rpos io"
      using c(3,5) unfolding r(2) by simp_all
    ultimately show "reading_from s0 io' \<and> length (fo_faults io') \<le> length (fo_faults io) \<and> (case r of
      Inl e \<Rightarrow> fo_rpos io' = fo_rpos io \<and> (e = PRELUDE_ERROR_EOF \<longrightarrow> 0 < n \<longrightarrow> fo_unread io = []) \<and>
        (e \<noteq> PRELUDE_ERROR_EOF \<longrightarrow> length (fo_faults io') < length (fo_faults io))
    | Inr bs \<Rightarrow> bs \<noteq> [] \<and> length bs \<le> n \<and> fo_unread io = bs @ fo_unread io')"
      unfolding r(1) by (cases "bs = []") simp_all
  qed
qed

lemma fo_read_returns: "\<exists>r io'. fo_read io n = Some (r, io') \<and> r \<noteq> Inr []"
  by (cases "next_call (settled io)", cases "fst (next_call (settled io))") (auto simp: fo_read_eq Let_def)

lemma fo_read_patience:
  assumes "fo_read io n = Some (r, io')"
  shows "length (fo_faults io') \<le> length (fo_faults io) \<and> (r = Inl PRELUDE_ERROR_EAGAIN \<longrightarrow> length (fo_faults io') < length (fo_faults io))"
proof -
  obtain x s' where x: "next_call (settled io) = (x, s')" by fastforce
  define gl where "gl = dropWhile (\<lambda>x. x = Fails EINTR) (fo_faults io)"
  have "length gl \<le> length (fo_faults io)" unfolding gl_def by (rule length_dropWhile_le)
  then have "length (fo_faults s') \<le> length (fo_faults io)" "x \<noteq> Works \<Longrightarrow> length (fo_faults s') < length (fo_faults io)"
    using x by (cases gl; auto simp: next_call_def settled_def gl_def [symmetric])+
  then show ?thesis using assms by (cases x) (auto simp: fo_read_eq x Let_def split: if_splits)
qed

interpretation fo_src: patient_source fo_read fo_unread "reading_from s0" "\<lambda>io. length (fo_faults io)" for s0
proof unfold_locales
  fix io n bs io'
  assume "reading_from s0 io" "fo_read io n = Some (Inr bs, io')"
  from fo_read_cases [OF this] show "reading_from s0 io' \<and> length bs \<le> n \<and> fo_unread io = bs @ fo_unread io'" by simp
next
  fix io n io'
  assume "reading_from s0 io" "fo_read io n = Some (Inr [], io')"
  from fo_read_cases(3) [OF this] show "fo_unread io = []" by simp
next
  fix io n e io'
  assume a: "reading_from s0 io" "fo_read io n = Some (Inl e, io')"
  note c = fo_read_cases [OF a]
  show "reading_from s0 io' \<and> fo_unread io' = fo_unread io"
    using c(1,3) reading_from_bounds [OF a(1)] reading_from_bounds [OF c(1)] by simp
next
  fix io n io'
  assume "reading_from s0 io" "fo_read io n = Some (Inl PRELUDE_ERROR_EOF, io')" "0 < n"
  then show "fo_unread io = []" using fo_read_cases(3) [of s0 io n "Inl PRELUDE_ERROR_EOF" io'] by simp
next
  fix io n
  show "\<exists>r io'. fo_read io n = Some (r, io')" using fo_read_returns by blast
next
  fix io n r io'
  assume "fo_read io n = Some (r, io')"
  then show "length (fo_faults io') \<le> length (fo_faults io) \<and> (r = Inl PRELUDE_ERROR_EAGAIN \<longrightarrow> length (fo_faults io') < length (fo_faults io))"
    by (rule fo_read_patience)
qed

lemma fo_delivers: "fo_src.delivers s0"
  unfolding fo_src.delivers_def using fo_read_returns by blast

text \<open>What \<open>prelude_msg_read\<close> makes of the unread part of the data file.\<close>

lemma fo_msg_read:
  assumes "fo_rpos s \<le> length (fo_data s)" "Fails ECONNRESET \<notin> set (fo_faults s)"
  obtains ret mo s1 where "prelude_msg_read bo (\<lambda>_. True) fo_read None s = Some (ret, mo, s1)" "reading_from s s1"
    "ret = Inr () \<longrightarrow> (\<exists>m. mo = Some m \<and> received_ok m \<and> parse_msg bo (fo_unread s) = Parsed (msg_hdr m) (received_data m) (fo_unread s1))"
    "ret = Inl PRELUDE_ERROR_EOF \<longrightarrow> (\<forall>h d r. parse_msg bo (fo_unread s) \<noteq> Parsed h d r)"
    "\<forall>e. ret = Inl e \<and> fo_faults s = [] \<longrightarrow> mo = None \<and> (parse_msg bo (fo_unread s) = Malformed e \<or> parse_msg bo (fo_unread s) = Incomplete \<and> e = PRELUDE_ERROR_EOF)"
proof -
  have r: "reading_from s s" using assms by simp
  obtain ret mo s1 where c: "prelude_msg_read bo (\<lambda>_. True) fo_read None s = Some (ret, mo, s1)"
    using fo_src.read_live [OF r, of None bo] fo_delivers by (auto simp: start_msg_def)
  have "fo_src.read_outcome s bo None s (ret, mo, s1)"
    using fo_src.read_refines_parse [OF c r] by (simp add: start_msg_def)
  note o = this [unfolded fo_src.read_outcome_def start_msg_def Let_def, simplified]
  have err: "e = PRELUDE_ERROR_EOF" if io: "fo_src.io_error s e" and f: "fo_faults s = []" for e
  proof -
    obtain io n io' where io: "reading_from s io" "fo_read io n = Some (Inl e, io')" using io unfolding fo_src.io_error_def by blast
    then have "fo_faults io = []" using f by (auto simp: reading_from_def)
    then show ?thesis using fo_read_cases(3) [OF io] by auto
  qed
  show thesis
  proof (rule that [OF c])
    show "reading_from s s1" using o by simp
    show "ret = Inr () \<longrightarrow> (\<exists>m. mo = Some m \<and> received_ok m \<and> parse_msg bo (fo_unread s) = Parsed (msg_hdr m) (received_data m) (fo_unread s1))"
      using o by auto
    show "ret = Inl PRELUDE_ERROR_EOF \<longrightarrow> (\<forall>h d r. parse_msg bo (fo_unread s) \<noteq> Parsed h d r)"
      using o by auto
    show "\<forall>e. ret = Inl e \<and> fo_faults s = [] \<longrightarrow> mo = None \<and> (parse_msg bo (fo_unread s) = Malformed e \<or> parse_msg bo (fo_unread s) = Incomplete \<and> e = PRELUDE_ERROR_EOF)"
      using o by (auto split: if_splits dest: err)
  qed
qed

section \<open>Journal entries\<close>

definition good_entry :: "byte_order \<Rightarrow> u64 \<Rightarrow> u64 \<Rightarrow> byte list" where
  "good_entry bo c r = mem64 bo c @ mem64 bo r @ be32 (prelude_crc32 (mem64 bo c @ mem64 bo r))"

lemma ucast_and_mask: "ucast (w AND 0xff :: u32) = (ucast w :: byte)"
proof -
  have m: "(0xff :: u32) = mask 8" by (simp add: mask_eq_exp_minus_1)
  show ?thesis unfolding m by (rule bit_word_eqI) (auto simp: bit_simps)
qed

lemma journal_checksum_eq:
  "journal_checksum bo j = be32 (prelude_crc32 (mem64 bo (je_count j) @ mem64 bo (je_rindex j)))"
  by (simp add: journal_checksum_def je_data_def be32_def ucast_and_mask Let_def)

lemma length_good_entry [simp]: "length (good_entry bo c r) = 20"
  by (simp add: good_entry_def)

lemma journal_write_entry: "journal_write bo s = journal_write_loop (good_entry bo (fo_count s) (fo_rindex s)) s"
  by (simp add: journal_write_def journal_checksum_eq je_data_def good_entry_def Let_def)

lemma journal_write_eq:
  assumes "fo_faults s = []"
  shows "journal_write bo s = (Inr (), s\<lparr>fo_journal := file_overwrite (fo_journal s) (fo_jpos s) (good_entry bo (fo_count s) (fo_rindex s)),
     fo_jpos := fo_jpos s + 20\<rparr>)"
proof -
  have ne: "good_entry bo (fo_count s) (fo_rindex s) \<noteq> []" using length_good_entry [of bo "fo_count s" "fo_rindex s"] by (metis length_0_conv zero_neq_numeral)
  show ?thesis
    using assms ne by (simp add: journal_write_entry journal_write_loop.simps [of "good_entry bo (fo_count s) (fo_rindex s)"] journal_write_loop.simps [of "[]"])
qed

text \<open>Whatever happens, only the journal changes.\<close>

lemma journal_loop_frame:
  "\<exists>j p fl. snd (journal_write_loop bs s) = s\<lparr>fo_journal := j, fo_jpos := p, fo_faults := fl\<rparr> \<and> set fl \<subseteq> set (fo_faults s)"
proof (induction bs s rule: journal_write_loop.induct)
  case (1 bs s)
  obtain x s' where x: "next_call s = (x, s')" by fastforce
  obtain gl where s': "s' = s\<lparr>fo_faults := gl\<rparr>" "set gl \<subseteq> set (fo_faults s)"
  proof (cases "fo_faults s")
    case Nil
    then have "s' = s\<lparr>fo_faults := []\<rparr>" using x by (simp add: next_call_def)
    then show thesis using that by simp
  next
    case (Cons y ys)
    then have "s' = s\<lparr>fo_faults := ys\<rparr>" using x by (simp add: next_call_def)
    then show thesis using that Cons by auto
  qed
  show ?case
  proof (cases "bs = []")
    case True
    then show ?thesis by (intro exI [of _ "fo_journal s"] exI [of _ "fo_jpos s"] exI [of _ "fo_faults s"]) (simp add: journal_write_loop.simps)
  next
    case False
    show ?thesis
    proof (cases "\<exists>e. x = Fails e")
      case True
      then have "snd (journal_write_loop bs s) = s'" using False x by (auto simp: journal_write_loop.simps)
      also have "\<dots> = s\<lparr>fo_journal := fo_journal s, fo_jpos := fo_jpos s, fo_faults := gl\<rparr>" using s' by simp
      finally show ?thesis using s'(2) by blast
    next
      case notfail: False
      let ?n = "granted x (length bs)"
      let ?s = "s'\<lparr>fo_journal := file_overwrite (fo_journal s') (fo_jpos s') (take ?n bs), fo_jpos := fo_jpos s' + ?n\<rparr>"
      have step: "journal_write_loop bs s = journal_write_loop (drop ?n bs) ?s"
        using False x notfail by (subst journal_write_loop.simps) (cases x; simp add: Let_def)
      have "\<exists>j p fl. snd (journal_write_loop (drop ?n bs) ?s) = ?s\<lparr>fo_journal := j, fo_jpos := p, fo_faults := fl\<rparr> \<and> set fl \<subseteq> set (fo_faults ?s)"
        using 1 False x notfail by (cases x) (simp_all del: granted_simps)
      then show ?thesis unfolding step using s' by fastforce
    qed
  qed
qed

lemma journal_write_frame:
  obtains j p fl where "snd (journal_write bo s) = s\<lparr>fo_journal := j, fo_jpos := p, fo_faults := fl\<rparr>" "set fl \<subseteq> set (fo_faults s)"
  using journal_loop_frame unfolding journal_write_entry by blast

lemma truncate_eq:
  assumes "fo_faults s = []"
  shows "truncate_failover bo s = (Inr (), s\<lparr>fo_data := [], fo_journal := good_entry bo 0 0, fo_rpos := 0, fo_jpos := 20, fo_count := 0, fo_rindex := 0\<rparr>)"
  using assms by (simp add: truncate_failover_def journal_write_eq file_overwrite_def)

lemma journal_read_eq:
  assumes "fo_jpos s + 20 \<le> length (fo_journal s)" "fo_faults s = []"
  defines "bs \<equiv> take 20 (drop (fo_jpos s) (fo_journal s))"
  shows "journal_read bo s = Some (Inr \<lparr>je_count = load64 bo (take 8 bs), je_rindex = load64 bo (take 8 (drop 8 bs)),
    je_checksum = drop 16 bs\<rparr>, s\<lparr>fo_jpos := fo_jpos s + 20\<rparr>)"
proof -
  have "length bs = 20" using assms by simp
  then have "journal_read_loop [] s = Some (Inr bs, s\<lparr>fo_jpos := fo_jpos s + 20\<rparr>)"
    using assms(2) by (subst journal_read_loop.simps) (simp add: bs_def Let_def)
  then show ?thesis by (simp add: journal_read_def)
qed


section \<open>The queue of saved messages\<close>

text \<open>A message is saved as its fragments and a last frame that is none.\<close>

definition message_ok :: "frame list \<Rightarrow> bool" where
  "message_ok g \<longleftrightarrow> g \<noteq> [] \<and> fragments_ok (butlast g) \<and> f_fragment (last g) = 0 \<and> f_data (last g) \<noteq> [] \<and>
     length (frames_data g) < max_message_size"

text \<open>
  \<open>failover_inv s lag q pend\<close>: the unread part of the data file is the messages \<open>q\<close> and behind them the first fragments
  \<open>pend\<close> of a message that is not complete yet. The read position is the read index and \<open>lag\<close> bytes more: taking a message adds
  the length of one header and the data to the read index, also when it was saved with more headers.
\<close>

definition failover_inv :: "prelude_failover \<Rightarrow> nat \<Rightarrow> frame list list \<Rightarrow> frame list \<Rightarrow> bool" where
  "failover_inv s lag q pend \<longleftrightarrow>
     fo_unread s = frames_bytes (concat q @ pend) \<and> (\<forall>g \<in> set q. message_ok g) \<and> fragments_ok pend \<and>
     length (frames_data pend) < max_message_size \<and>
     fo_rpos s = unat (fo_rindex s) + lag \<and> fo_rpos s \<le> length (fo_data s) \<and> length (fo_data s) < 2 ^ 63"

text \<open>
  The journal is a row of entries, the last of which records the count and the read index, perhaps with the torn
  rest of an interrupted entry behind it; it is empty as long as nothing was recorded.
\<close>

definition journal_ends :: "byte_order \<Rightarrow> u64 \<Rightarrow> u64 \<Rightarrow> byte list \<Rightarrow> nat \<Rightarrow> bool" where
  "journal_ends bo c r j pos \<longleftrightarrow> (\<exists>es torn. j = es @ good_entry bo c r @ torn \<and> 20 dvd length es \<and>
     length torn < 20 \<and> pos = length es + 20)"

definition recorded :: "byte_order \<Rightarrow> prelude_failover \<Rightarrow> bool" where
  "recorded bo s \<longleftrightarrow> fo_faults s = [] \<and>
     (journal_ends bo (fo_count s) (fo_rindex s) (fo_journal s) (fo_jpos s) \<or>
      fo_journal s = [] \<and> fo_jpos s = 0 \<and> fo_count s = 0 \<and> fo_rindex s = 0)"

lemma journal_ends_overwrite:
  assumes "journal_ends bo c r j pos \<or> j = [] \<and> pos = 0"
  shows "journal_ends bo c' r' (file_overwrite j pos (good_entry bo c' r')) (pos + 20)"
  using assms
proof
  assume "journal_ends bo c r j pos"
  then obtain es torn where j: "j = es @ good_entry bo c r @ torn" "20 dvd length es" "length torn < 20"
    "pos = length es + 20" by (auto simp: journal_ends_def)
  then have "file_overwrite j pos (good_entry bo c' r') = (es @ good_entry bo c r) @ good_entry bo c' r' @ []"
    by (simp add: file_overwrite_def)
  then show ?thesis
    unfolding journal_ends_def using j
    by (intro exI [of _ "es @ good_entry bo c r"] exI [of _ "[]"]) simp
next
  assume "j = [] \<and> pos = 0"
  then show ?thesis
    by (auto simp: journal_ends_def file_overwrite_def intro!: exI [of _ "[]"])
qed

lemma recorded_write:
  assumes "recorded bo s"
  shows "recorded bo (snd (journal_write bo (s\<lparr>fo_count := c, fo_rindex := r\<rparr>)))"
  using assms journal_ends_overwrite [of bo "fo_count s" "fo_rindex s" "fo_journal s" "fo_jpos s" c r]
  by (auto simp: recorded_def journal_write_eq)

abbreviation truncated :: "byte_order \<Rightarrow> prelude_failover \<Rightarrow> prelude_failover" where
  "truncated bo s \<equiv> snd (truncate_failover bo s)"

lemma truncate_inv:
  assumes "fo_faults s = []"
  shows "failover_inv (truncated bo s) 0 [] []" "recorded bo (truncated bo s)" "fo_count (truncated bo s) = 0" "fo_data (truncated bo s) = []"
    "fo_rindex (truncated bo s) = 0" "fo_faults (truncated bo s) = []"
  using assms journal_ends_overwrite [of bo 0 0 "[]" 0 0 0]
  by (simp_all add: failover_inv_def recorded_def truncate_eq frames_bytes_def fragments_ok_def frames_data_def max_message_size_def file_overwrite_def)

text \<open>Commit changes the count and the read index, whatever happens to the journal.\<close>

lemma commit_frame:
  obtains j p fl where "prelude_failover_commit bo s m = s\<lparr>fo_count := (if 0 < fo_count s then fo_count s - 1 else fo_count s),
      fo_rindex := fo_rindex s + ucast (prelude_msg_get_len m), fo_journal := j, fo_jpos := p, fo_faults := fl\<rparr>" "set fl \<subseteq> set (fo_faults s)"
proof -
  let ?s = "s\<lparr>fo_count := (if 0 < fo_count s then fo_count s - 1 else fo_count s), fo_rindex := fo_rindex s + ucast (prelude_msg_get_len m)\<rparr>"
  obtain j p fl where "snd (journal_write bo ?s) = ?s\<lparr>fo_journal := j, fo_jpos := p, fo_faults := fl\<rparr>" "set fl \<subseteq> set (fo_faults ?s)"
    by (rule journal_write_frame)
  then have "prelude_failover_commit bo s m = ?s\<lparr>fo_journal := j, fo_jpos := p, fo_faults := fl\<rparr>" "set fl \<subseteq> set (fo_faults s)"
    by (simp_all add: prelude_failover_commit_def)
  then show thesis by (intro that) simp_all
qed

subsection \<open>Saving\<close>

text \<open>
  The frame that \<open>prelude_msg_write\<close> sends: a message that was read or is being built gets its header now, a fragment or not; one that
  \<open>prelude_msg_mark_end\<close> has ended has it already, and room for the next one.
\<close>

definition emits :: "u32 \<times> u32 \<Rightarrow> prelude_msg \<Rightarrow> frame \<Rightarrow> bool" where
  "emits now m f \<longleftrightarrow> msg_fd_write_index m = 0 \<and> f_data f \<noteq> [] \<and> length (f_data f) < max_message_size \<and> 16 < unat (msg_write_index m) \<and>
     (case msg_payload m of None \<Rightarrow> False | Some pl \<Rightarrow> unat (msg_write_index m) \<le> length pl \<and>
       (if msg_header_index m = 0
        then f = \<lparr>f_tag = hdr_tag (msg_hdr m), f_priority = hdr_priority (msg_hdr m), f_fragment = hdr_is_fragment (msg_hdr m),
               f_sec = fst now, f_usec = snd now, f_data = take (unat (msg_write_index m) - 16) (drop 16 pl)\<rparr>
        else hdr_is_fragment (msg_hdr m) = 0 \<and> f_fragment f = 0 \<and> take (unat (msg_write_index m) - 16) pl = encode_frame f))"

text \<open>What message buffers hand over.\<close>

lemma emits_building:
  assumes "building m" "pending m \<noteq> []"
  shows "emits now (set_is_fragment frag m) (frame_of now frag m)"
  using assms length_pending [OF assms(1)]
  by (auto simp: emits_def building_def set_is_fragment_def frame_of_def pending_def max_message_size_def)

lemma emits_marked:
  assumes "building m" "pending m \<noteq> []" "unat (msg_write_index m) + 16 \<le> 8192"
  shows "emits now ((with_header now0 bo m)\<lparr>msg_header_index := msg_write_index m, msg_write_index := msg_write_index m + 16\<rparr>) (frame_of now0 0 m)"
proof -
  note h = with_header_building [OF assms(1), where bo = bo and now = now0]
  obtain pl where pl: "msg_payload (with_header now0 bo m) = Some pl" "length pl = 8192" "hdr_is_fragment (msg_hdr (with_header now0 bo m)) = 0"
    "msg_fd_write_index (with_header now0 bo m) = 0" using h(2) by (auto simp: building_def)
  have wi: "16 \<le> unat (msg_write_index m)" "unat (msg_write_index m + 16) = unat (msg_write_index m) + 16"
    using assms(1,3) by (auto simp: building_def unat_plus_small)
  moreover have "msg_write_index m \<noteq> 0" using wi(1) by auto
  ultimately show ?thesis
    using pl h(7) assms(2,3) length_pending [OF assms(1)] by (simp add: emits_def frame_of_def max_message_size_def)
qed

lemma emits_length:
  assumes "emits now m f"
  shows "length (encode_frame f) \<le> unat (msg_write_index m)" "0 < length (encode_frame f)"
proof -
  obtain pl where pl: "msg_payload m = Some pl" "unat (msg_write_index m) \<le> length pl" "16 < unat (msg_write_index m)"
    "if msg_header_index m = 0 then f_data f = take (unat (msg_write_index m) - 16) (drop 16 pl) else take (unat (msg_write_index m) - 16) pl = encode_frame f"
    using assms by (auto simp: emits_def split: option.splits if_splits)
  show "length (encode_frame f) \<le> unat (msg_write_index m)"
  proof (cases "msg_header_index m = 0")
    case False
    then have "length (take (unat (msg_write_index m) - 16) pl) = length (encode_frame f)" using pl(4) by simp
    then show ?thesis by simp
  qed (use pl in \<open>simp add: encode_frame_head\<close>)
qed (simp add: encode_frame_head)

text \<open>The write that \<open>prelude_msg_write\<close> makes.\<close>

lemma write_emits:
  assumes "emits now m f"
  obtains m1 where "prelude_msg_is_fragment m1 \<longleftrightarrow> f_fragment f \<noteq> 0"
    "\<And>wr s. prelude_msg_write bo now wr m s = map_option (\<lambda>(r, s').
       (case r of Inl e \<Rightarrow> Inl e | Inr n \<Rightarrow> if of_nat n = (of_nat (length (encode_frame f)) :: u32) then Inr () else Inl PRELUDE_ERROR_EAGAIN,
        m1\<lparr>msg_fd_write_index := (case r of Inl e \<Rightarrow> 0 | Inr n \<Rightarrow> if of_nat n = (of_nat (length (encode_frame f)) :: u32) then 0 else of_nat n)\<rparr>, s'))
       (wr s (encode_frame f :: byte list) :: (nat result \<times> 'io) option)"
proof -
  let ?wi = "unat (msg_write_index m)"
  obtain pl where pl: "msg_payload m = Some pl" "?wi \<le> length pl" "16 < ?wi" "msg_fd_write_index m = 0" "length (f_data f) < max_message_size"
    using assms by (auto simp: emits_def split: option.splits)
  have ne: "\<not> msg_write_index m - 16 \<le> 0" using pl(3) by (simp add: word_le_nat_alt unat_minus_small)
  have dlen: "msg_write_index m - 16 = of_nat (?wi - 16)" using pl(3) by (simp add: word_unat_eq_iff unat_minus_small unat_of_nat)
  have small: "?wi < 2 ^ 32" using unsigned_less [of "msg_write_index m", where 'a=nat] by simp
  show thesis
  proof (cases "msg_header_index m = 0")
    case True
    then have f: "f = \<lparr>f_tag = hdr_tag (msg_hdr m), f_priority = hdr_priority (msg_hdr m), f_fragment = hdr_is_fragment (msg_hdr m),
               f_sec = fst now, f_usec = snd now, f_data = take (?wi - 16) (drop 16 pl)\<rparr>"
      using assms pl(1) by (simp add: emits_def)
    have fields: "f_tag f = hdr_tag (msg_hdr m)" "f_priority f = hdr_priority (msg_hdr m)" "f_fragment f = hdr_is_fragment (msg_hdr m)"
      "f_sec f = fst now" "f_usec f = snd now" and data: "f_data f = take (?wi - 16) (drop 16 pl)" using f by simp_all
    have len: "length (f_data f) = ?wi - 16" using pl data by simp
    then have flen: "of_nat (length (f_data f)) = msg_write_index m - 16" unfolding dlen by simp
    have "length (encode_frame f) = ?wi" using pl(3) len by (simp add: encode_frame_head)
    then have elen: "of_nat (length (encode_frame f)) = msg_write_index m" by simp
    obtain m1 where m1: "write_message_header bo now m = Some m1" "msg_write_index m1 = msg_write_index m"
      "msg_payload m1 = Some (frame_head f @ drop 16 pl)" "hdr_is_fragment (msg_hdr m1) = f_fragment f"
      using pl(1-3) flen True fields
      by (simp add: write_message_header_def mem_write_def Let_def frame_head_def)
    have bytes: "mem_read (frame_head f @ drop 16 pl) 0 ?wi = Some (encode_frame f)"
      using pl data by (simp add: mem_read_def encode_frame_head)
    show thesis
    proof (rule that [of m1])
      fix wr :: "'io writer" and s
      show "prelude_msg_write bo now wr m s = map_option (\<lambda>(r, s').
       (case r of Inl e \<Rightarrow> Inl e | Inr n \<Rightarrow> if of_nat n = (of_nat (length (encode_frame f)) :: u32) then Inr () else Inl PRELUDE_ERROR_EAGAIN,
        m1\<lparr>msg_fd_write_index := (case r of Inl e \<Rightarrow> 0 | Inr n \<Rightarrow> if of_nat n = (of_nat (length (encode_frame f)) :: u32) then 0 else of_nat n)\<rparr>, s'))
       (wr s (encode_frame f))"
        using ne True m1 bytes elen pl(4)
        by (cases "wr s (encode_frame f)") (auto simp: prelude_msg_write_def prelude_msg_write_r_def split: sum.split prod.split)
    qed (simp add: prelude_msg_is_fragment_def m1(4))
  next
    case False
    then have f: "hdr_is_fragment (msg_hdr m) = 0" "f_fragment f = 0" "take (?wi - 16) pl = encode_frame f"
      using assms pl(1) by (simp_all add: emits_def)
    have "length (take (?wi - 16) pl) = ?wi - 16" using pl by simp
    then have elen: "of_nat (length (encode_frame f)) = msg_write_index m - 16" unfolding f(3) dlen by simp
    have bytes: "mem_read pl 0 (unat (msg_write_index m - 16)) = Some (encode_frame f)"
      using pl f(3) by (simp add: mem_read_def unat_minus_small)
    show thesis
    proof (rule that [of m])
      fix wr :: "'io writer" and s
      show "prelude_msg_write bo now wr m s = map_option (\<lambda>(r, s').
       (case r of Inl e \<Rightarrow> Inl e | Inr n \<Rightarrow> if of_nat n = (of_nat (length (encode_frame f)) :: u32) then Inr () else Inl PRELUDE_ERROR_EAGAIN,
        m\<lparr>msg_fd_write_index := (case r of Inl e \<Rightarrow> 0 | Inr n \<Rightarrow> if of_nat n = (of_nat (length (encode_frame f)) :: u32) then 0 else of_nat n)\<rparr>, s'))
       (wr s (encode_frame f))"
        using ne False f(1) bytes elen pl(1,4)
        by (cases "wr s (encode_frame f)") (auto simp: prelude_msg_write_def prelude_msg_write_r_def split: sum.split prod.split)
    qed (simp add: prelude_msg_is_fragment_def f)
  qed
qed

text \<open>The queue after a frame was saved completely.\<close>

definition add_frame :: "frame \<Rightarrow> frame list list \<times> frame list \<Rightarrow> frame list list \<times> frame list" where
  "add_frame f qp = (if f_fragment f \<noteq> 0 then (fst qp, snd qp @ [f]) else (fst qp @ [snd qp @ [f]], []))"

lemma frames_bytes_simps [simp]: "frames_bytes [] = []" "frames_bytes (f # fs) = encode_frame f @ frames_bytes fs"
  "frames_bytes (fs @ gs) = frames_bytes fs @ frames_bytes gs"
  by (simp_all add: frames_bytes_def)

lemma frames_data_simps [simp]: "frames_data [] = []" "frames_data (f # fs) = f_data f @ frames_data fs"
  "frames_data (fs @ gs) = frames_data fs @ frames_data gs"
  by (simp_all add: frames_data_def)

lemma add_frame_inv:
  assumes inv: "failover_inv s lag q pend" and d: "fo_data s' = fo_data s @ encode_frame f" "fo_rpos s' = fo_rpos s" "fo_rindex s' = fo_rindex s"
    and small: "f_data f \<noteq> []" "length (frames_data pend) + length (f_data f) < max_message_size" "length (fo_data s') < 2 ^ 63"
    and qp: "(q', pend') = add_frame f (q, pend)"
  shows "failover_inv s' lag q' pend'"
proof -
  have "fo_unread s' = fo_unread s @ encode_frame f" using inv d by (simp add: failover_inv_def)
  moreover have "fo_unread s = frames_bytes (concat q @ pend)" using inv unfolding failover_inv_def by blast
  ultimately have "fo_unread s' = frames_bytes (concat q @ pend @ [f])" by simp
  moreover have "concat q' @ pend' = concat q @ pend @ [f]" using qp by (simp add: add_frame_def split: if_splits)
  moreover have "(\<forall>g \<in> set q'. message_ok g) \<and> fragments_ok pend' \<and> length (frames_data pend') < max_message_size"
    using inv small(1,2) qp
    by (auto simp: failover_inv_def add_frame_def message_ok_def fragments_ok_def max_message_size_def split: if_splits)
  ultimately show ?thesis using inv d small(3) by (simp add: failover_inv_def)
qed

lemma kernel_write:
  obtains (fails) e fl where "fo_write s bs = Some (Inl (prelude_error_from_errno e), s\<lparr>fo_faults := fl\<rparr>)" "e \<noteq> EINTR" "fo_faults s \<noteq> []" "set fl \<subseteq> set (fo_faults s)"
  | (writes) n fl where "fo_write s bs = Some (Inr n, s\<lparr>fo_faults := fl, fo_data := fo_data s @ take n bs\<rparr>)" "n \<le> length bs"
      "fo_faults s = [] \<longrightarrow> n = length bs \<and> fl = []" "set fl \<subseteq> set (fo_faults s)"
proof -
  define gl where "gl = dropWhile (\<lambda>x. x = Fails EINTR) (fo_faults s)"
  have sub: "set gl \<subseteq> set (fo_faults s)" unfolding gl_def using set_dropWhileD by fastforce
  show thesis
  proof (cases gl)
    case Nil
    then have "fo_write s bs = Some (Inr (length bs), s\<lparr>fo_faults := [], fo_data := fo_data s @ take (length bs) bs\<rparr>)"
      by (simp add: fo_write_eq next_call_def settled_def gl_def [symmetric])
    then show thesis using writes [of "length bs" "[]"] by simp
  next
    case (Cons x xs)
    have ne: "fo_faults s \<noteq> []" using Cons unfolding gl_def by auto
    have x: "next_call (settled s) = (x, s\<lparr>fo_faults := xs\<rparr>)" using Cons by (simp add: next_call_def settled_def gl_def [symmetric])
    have xs: "set xs \<subseteq> set (fo_faults s)" using sub Cons by auto
    have "x \<noteq> Fails EINTR" using Cons unfolding gl_def by (auto simp: dropWhile_eq_Cons_conv)
    then show thesis using fails [of _ xs] writes [of "granted x (length bs)" xs] x xs ne
      by (cases x) (auto simp: fo_write_eq)
  qed
qed

lemma failover_save:
  assumes inv: "failover_inv s lag q pend" and m: "emits now m f"
    and small: "length (frames_data pend) + length (f_data f) < max_message_size" "length (fo_data s) + unat (msg_write_index m) < 2 ^ 63"
  obtains (saved) m' s' where "prelude_failover_save_msg bo now m s = Some (Inr (), m', s')"
      "failover_inv s' lag (fst (add_frame f (q, pend))) (snd (add_frame f (q, pend)))"
      "fo_count s' = fo_count s + (if f_fragment f \<noteq> 0 then 0 else 1)"
      "fo_transaction_enabled s' = fo_transaction_enabled s" "set (fo_faults s') \<subseteq> set (fo_faults s)" "recorded bo s \<longrightarrow> recorded bo s'"
  | (failed) e m' s' n fl where "prelude_failover_save_msg bo now m s = Some (Inl e, m', s')" "n < length (encode_frame f)"
      "s' = s\<lparr>fo_data := fo_data s @ take n (encode_frame f), fo_faults := fl\<rparr>" "set fl \<subseteq> set (fo_faults s)" "fo_faults s \<noteq> []"
proof -
  let ?b = "encode_frame f"
  note len = emits_length [OF m]
  have wi: "unat (msg_write_index m) < 2 ^ 32" using unsigned_less [of "msg_write_index m", where 'a=nat] by simp
  have same: "of_nat n = (of_nat (length ?b) :: u32) \<longleftrightarrow> n = length ?b" if "n \<le> length ?b" for n
  proof -
    have "n < 2 ^ 32" "length ?b < 2 ^ 32" using that len wi by linarith+
    then have "unat (of_nat n :: u32) = n" "unat (of_nat (length ?b) :: u32) = length ?b" by (simp_all add: unat_of_nat_small)
    then show ?thesis by metis
  qed
  obtain m1 where m1: "prelude_msg_is_fragment m1 \<longleftrightarrow> f_fragment f \<noteq> 0" "\<And>wr s. prelude_msg_write bo now wr m s = map_option (\<lambda>(r, s').
       (case r of Inl e \<Rightarrow> Inl e | Inr n \<Rightarrow> if of_nat n = (of_nat (length ?b) :: u32) then Inr () else Inl PRELUDE_ERROR_EAGAIN,
        m1\<lparr>msg_fd_write_index := (case r of Inl e \<Rightarrow> 0 | Inr n \<Rightarrow> if of_nat n = (of_nat (length ?b) :: u32) then 0 else of_nat n)\<rparr>, s'))
       (wr s ?b :: (nat result \<times> prelude_failover) option)"
    using write_emits [OF m] by blast
  have frag: "prelude_msg_is_fragment (m1\<lparr>msg_fd_write_index := k\<rparr>) \<longleftrightarrow> f_fragment f \<noteq> 0" for k
    using m1(1) by (simp add: prelude_msg_is_fragment_def)
  show thesis
  proof (cases rule: kernel_write [of s ?b])
    case (fails e fl)
    have "prelude_error_from_errno e \<noteq> PRELUDE_ERROR_EINTR" using fails(2) by (cases e) simp_all
    then have "prelude_failover_save_msg bo now m s = Some (Inl (prelude_error_from_errno e), m1\<lparr>msg_fd_write_index := 0\<rparr>, s\<lparr>fo_faults := fl\<rparr>)"
      using fails(1) m1(2) by (simp add: prelude_failover_save_msg_def save_loop.simps [of bo now m])
    moreover have "s\<lparr>fo_faults := fl\<rparr> = s\<lparr>fo_data := fo_data s @ take 0 ?b, fo_faults := fl\<rparr>" by simp
    ultimately show thesis using failed fails(3,4) len(2) by blast
  next
    case (writes n fl)
    show thesis
    proof (cases "n = length ?b")
      case False
      then have "prelude_failover_save_msg bo now m s =
          Some (Inl PRELUDE_ERROR_EAGAIN, m1\<lparr>msg_fd_write_index := of_nat n\<rparr>, s\<lparr>fo_data := fo_data s @ take n ?b, fo_faults := fl\<rparr>)"
        using writes(1) m1(2) same [OF writes(2)] by (simp add: prelude_failover_save_msg_def save_loop.simps [of bo now m])
      then show thesis using failed False writes(2-4) by force
    next
      case True
      let ?s = "s\<lparr>fo_faults := fl, fo_data := fo_data s @ ?b\<rparr>"
      let ?t = "if f_fragment f \<noteq> 0 then ?s else snd (journal_write bo (?s\<lparr>fo_count := fo_count ?s + 1\<rparr>))"
      have save: "prelude_failover_save_msg bo now m s = Some (Inr (), m1\<lparr>msg_fd_write_index := 0\<rparr>, ?t)"
        using writes(1) m1(2) True frag by (simp add: prelude_failover_save_msg_def save_loop.simps [of bo now m])
      let ?c = "?s\<lparr>fo_count := fo_count ?s + 1\<rparr>"
      obtain j p gl where w: "snd (journal_write bo ?c) = ?c\<lparr>fo_journal := j, fo_jpos := p, fo_faults := gl\<rparr>" "set gl \<subseteq> set (fo_faults ?c)"
        by (rule journal_write_frame)
      have t: "fo_data ?t = fo_data s @ ?b" "fo_rpos ?t = fo_rpos s" "fo_rindex ?t = fo_rindex s"
        "fo_count ?t = fo_count s + (if f_fragment f \<noteq> 0 then 0 else 1)" "fo_transaction_enabled ?t = fo_transaction_enabled s"
        "set (fo_faults ?t) \<subseteq> set (fo_faults s)"
        using w writes(4) by auto
      have "length (fo_data ?t) < 2 ^ 63" using t(1) small(2) len(1) by simp
      moreover have "f_data f \<noteq> []" using m by (simp add: emits_def)
      ultimately have "failover_inv ?t lag (fst (add_frame f (q, pend))) (snd (add_frame f (q, pend)))"
        by (intro add_frame_inv [OF inv t(1-3) _ small(1)]) simp_all
      moreover have "recorded bo s \<longrightarrow> recorded bo ?t"
      proof
        assume r: "recorded bo s"
        then have "fl = []" using writes(3) by (simp add: recorded_def)
        then have rs: "recorded bo ?s" using r by (simp add: recorded_def)
        have eq: "?c = ?s\<lparr>fo_count := fo_count ?s + 1, fo_rindex := fo_rindex ?s\<rparr>" by simp
        have "recorded bo (snd (journal_write bo ?c))" by (subst eq) (rule recorded_write [OF rs])
        then show "recorded bo ?t" using rs by simp
      qed
      ultimately show thesis using saved save t(4-6) by blast
    qed
  qed
qed

subsection \<open>Getting back\<close>

lemma parse_message:
  assumes "message_ok g"
  obtains h where "parse_msg bo (frames_bytes g @ rest) = Parsed h (frames_data g) rest"
    "hdr_tag h = f_tag (hd g)" "hdr_priority h = first_priority (map f_priority g)"
    "hdr_tv_sec h = f_sec (hd g)" "hdr_tv_usec h = f_usec (hd g)" "unat (hdr_datalen h) = length (frames_data g)"
proof -
  have g: "g = butlast g @ [last g]" using assms by (simp add: message_ok_def)
  have "fragments_ok (butlast g)" "f_fragment (last g) = 0" "f_data (last g) \<noteq> []" "length (frames_data (butlast g @ [last g])) < max_message_size"
    using assms g by (simp_all add: message_ok_def)
  from parse_sent_frames [OF this, of bo rest] show thesis using that unfolding g [symmetric] by blast
qed

lemma parse_fragments:
  assumes "fragments_ok fs" "length d + length (frames_data fs) < max_message_size" "unat (hdr_datalen h) = length d" "hdr_datalen h = 0 \<or> hdr_version h = 1"
  shows "parse_header bo h d (frames_bytes fs) = Incomplete"
  using assms
proof (induction fs arbitrary: h d)
  case Nil
  then show ?case by (simp add: parse_header.simps)
next
  case (Cons f fs)
  then have f: "0 < length (f_data f)" "f_fragment f \<noteq> 0" "length d + length (f_data f) < max_message_size" by (auto simp: fragments_ok_def)
  have "unat (hdr_datalen (frame_hdr h f)) = length (d @ f_data f)"
    using Cons.prems f by (simp, subst unat_add_of_nat) (auto simp: max_message_size_def)
  then have "parse_header bo (frame_hdr h f) (d @ f_data f) (frames_bytes fs) = Incomplete"
    using Cons.prems frame_hdr_version by (intro Cons.IH) (auto simp: fragments_ok_def)
  then show ?case using parse_frame [OF f(1,3) Cons.prems(3,4), of bo "frames_bytes fs"] f(2) by simp
qed

lemma unat_widen: "unat (ucast (w :: u32) :: u64) = unat w"
  using unsigned_less [of w, where 'a=nat] by (simp add: unsigned_ucast_eq take_bit_nat_eq_self)

text \<open>The message that was made of the frames \<open>g\<close>.\<close>

definition delivered :: "prelude_msg \<Rightarrow> frame list \<Rightarrow> bool" where
  "delivered m g \<longleftrightarrow> received_ok m \<and> received_data m = frames_data g \<and> prelude_msg_get_tag m = f_tag (hd g) \<and>
     prelude_msg_get_priority m = first_priority (map f_priority g) \<and> prelude_msg_get_time m = (f_sec (hd g), f_usec (hd g))"

lemma delivered_len:
  assumes "delivered m g" "message_ok g"
  shows "unat (prelude_msg_get_len m) = 16 + length (frames_data g)"
proof -
  obtain pl where pl: "msg_payload m = Some pl" "length pl = 16 + unat (msg_datalen m)" "msg_write_index m = msg_datalen m + 16"
    using assms(1) by (auto simp: delivered_def received_ok_def payload_fits_def)
  have "frames_data g = drop 16 pl" using assms(1) pl(1) by (simp add: delivered_def received_data_def)
  then have "unat (msg_datalen m) = length (frames_data g)" using pl(2) by simp
  then show ?thesis using assms(2) pl(3) by (simp add: prelude_msg_get_len_def unat_plus_small message_ok_def max_message_size_def)
qed

lemma length_frames_bytes: "length (frames_bytes g) = 16 * length g + length (frames_data g)"
  by (induction g) (simp_all add: encode_frame_head)

lemma failover_invD:
  assumes "failover_inv s lag q pend"
  shows "fo_unread s = frames_bytes (concat q @ pend)" "\<forall>g \<in> set q. message_ok g" "fragments_ok pend" "length (frames_data pend) < max_message_size"
    "fo_rpos s = unat (fo_rindex s) + lag" "fo_rpos s \<le> length (fo_data s)" "length (fo_data s) < 2 ^ 63"
  using assms unfolding failover_inv_def by blast+

definition more_lag :: "frame list \<Rightarrow> nat" where
  "more_lag g = 16 * (length g - 1)"

lemma advance_inv:
  assumes inv: "failover_inv s lag (g # q) pend" and m: "delivered m g"
    and s': "fo_data s' = fo_data s" "fo_rpos s' = fo_rpos s + length (frames_bytes g)" "fo_rindex s' = fo_rindex s + ucast (prelude_msg_get_len m)"
  shows "failover_inv s' (lag + more_lag g) q pend"
proof -
  have g: "message_ok g" using failover_invD(2) [OF inv] by simp
  have u: "fo_unread s = frames_bytes g @ frames_bytes (concat q @ pend)" using failover_invD(1) [OF inv] by simp
  note b = failover_invD(6,7,5) [OF inv]
  have "length (fo_unread s) = length (frames_bytes g) + length (frames_bytes (concat q @ pend))" unfolding u by simp
  then have p: "fo_rpos s + length (frames_bytes g) \<le> length (fo_data s)" using b(1) by simp
  have "length g \<noteq> 0" using g by (simp add: message_ok_def)
  then have len: "16 + length (frames_data g) + more_lag g = length (frames_bytes g)" by (cases g) (simp_all add: length_frames_bytes more_lag_def encode_frame_head)
  have "unat (fo_rindex s) + (16 + length (frames_data g)) \<le> length (fo_data s)" using p b len by linarith
  then have "unat (fo_rindex s) + (16 + length (frames_data g)) < 2 ^ 64" using b(2) by simp
  then have "unat (fo_rindex s') = unat (fo_rindex s) + (16 + length (frames_data g))"
    unfolding s'(3) using delivered_len [OF m g] by (subst unat_plus_small) (simp_all add: unat_widen)
  moreover have "fo_unread s' = drop (length (frames_bytes g)) (fo_unread s)" unfolding s'(1,2) by (simp add: add.commute)
  then have "fo_unread s' = frames_bytes (concat q @ pend)" unfolding u by simp
  ultimately show ?thesis using inv p len s'(1,2) by (simp add: failover_inv_def)
qed

lemma failover_get:
  assumes inv: "failover_inv s lag (g # q) pend" and faults: "Fails ECONNRESET \<notin> set (fo_faults s)"
  obtains (got) m s1 fl where "prelude_failover_get_saved_msg bo (\<lambda>_. True) s = Some (Inr (prelude_msg_get_len m), Some m,
        if fo_transaction_enabled s then s1 else prelude_failover_commit bo s1 m)"
      "delivered m g" "s1 = s\<lparr>fo_rpos := fo_rpos s + length (frames_bytes g), fo_faults := fl\<rparr>" "set fl \<subseteq> set (fo_faults s)"
      "failover_inv (prelude_failover_commit bo s1 m) (lag + more_lag g) q pend"
      "fo_count (prelude_failover_commit bo s1 m) = (if fo_count s = 0 then 0 else fo_count s - 1)"
      "recorded bo s \<longrightarrow> recorded bo (prelude_failover_commit bo s1 m)"
  | (lost) mo s' where "prelude_failover_get_saved_msg bo (\<lambda>_. True) s = Some (Inl PRELUDE_ERROR_GENERIC, mo, s')" "fo_faults s \<noteq> []"
proof -
  have g: "message_ok g" using failover_invD(2) [OF inv] by simp
  have u: "fo_unread s = frames_bytes g @ frames_bytes (concat q @ pend)" using failover_invD(1) [OF inv] by simp
  note b = failover_invD(6) [OF inv]
  obtain h where h: "parse_msg bo (fo_unread s) = Parsed h (frames_data g) (frames_bytes (concat q @ pend))"
    "hdr_tag h = f_tag (hd g)" "hdr_priority h = first_priority (map f_priority g)"
    "hdr_tv_sec h = f_sec (hd g)" "hdr_tv_usec h = f_usec (hd g)" "unat (hdr_datalen h) = length (frames_data g)"
    using parse_message [OF g, of bo "frames_bytes (concat q @ pend)"] unfolding u by metis
  obtain ret mo s1 where c: "prelude_msg_read bo (\<lambda>_. True) fo_read None s = Some (ret, mo, s1)" "reading_from s s1"
    "ret = Inr () \<longrightarrow> (\<exists>m. mo = Some m \<and> received_ok m \<and> parse_msg bo (fo_unread s) = Parsed (msg_hdr m) (received_data m) (fo_unread s1))"
    "ret = Inl PRELUDE_ERROR_EOF \<longrightarrow> (\<forall>h d r. parse_msg bo (fo_unread s) \<noteq> Parsed h d r)"
    "\<forall>e. ret = Inl e \<and> fo_faults s = [] \<longrightarrow> mo = None \<and> (parse_msg bo (fo_unread s) = Malformed e \<or> parse_msg bo (fo_unread s) = Incomplete \<and> e = PRELUDE_ERROR_EOF)"
    by (rule fo_msg_read [OF b faults, of bo])
  show thesis
  proof (cases ret)
    case (Inl e)
    have "e \<noteq> PRELUDE_ERROR_EOF" using c(4) Inl h(1) by auto
    then have "prelude_failover_get_saved_msg bo (\<lambda>_. True) s = Some (Inl PRELUDE_ERROR_GENERIC, mo, truncated bo s1)"
      using c(1) Inl by (simp add: prelude_failover_get_saved_msg_def)
    moreover have "fo_faults s \<noteq> []" using c(5) Inl h(1) by auto
    ultimately show thesis by (rule lost)
  next
    case (Inr r)
    then obtain m where m: "mo = Some m" "received_ok m" "h = msg_hdr m" "frames_data g = received_data m" "frames_bytes (concat q @ pend) = fo_unread s1"
      using c(3) h(1) by auto
    then have d: "delivered m g" using h(2-5) by (simp add: delivered_def prelude_msg_get_tag_def prelude_msg_get_priority_def prelude_msg_get_time_def)
    obtain p fl where s1: "p \<le> length (fo_data s)" "set fl \<subseteq> set (fo_faults s)" "s1 = s\<lparr>fo_rpos := p, fo_faults := fl\<rparr>"
      using c(2) by (auto simp: reading_from_def)
    have "length (fo_unread s) = length (frames_bytes g) + length (fo_unread s1)" unfolding u m(5) by simp
    then have p: "p = fo_rpos s + length (frames_bytes g)" using s1(1,3) b by simp
    obtain j jp gl where w: "prelude_failover_commit bo s1 m = s1\<lparr>fo_count := (if 0 < fo_count s1 then fo_count s1 - 1 else fo_count s1),
      fo_rindex := fo_rindex s1 + ucast (prelude_msg_get_len m), fo_journal := j, fo_jpos := jp, fo_faults := gl\<rparr>"
      by (rule commit_frame)
    show thesis
    proof (rule got [OF _ d _ s1(2)])
      show "prelude_failover_get_saved_msg bo (\<lambda>_. True) s = Some (Inr (prelude_msg_get_len m), Some m,
        if fo_transaction_enabled s then s1 else prelude_failover_commit bo s1 m)"
        using c(1) Inr m(1) s1(3) by (simp add: prelude_failover_get_saved_msg_def)
      show "s1 = s\<lparr>fo_rpos := fo_rpos s + length (frames_bytes g), fo_faults := fl\<rparr>" using s1(3) p by simp
      show "failover_inv (prelude_failover_commit bo s1 m) (lag + more_lag g) q pend"
        using s1(3) p unfolding w by (intro advance_inv [OF inv d]) simp_all
      show "fo_count (prelude_failover_commit bo s1 m) = (if fo_count s = 0 then 0 else fo_count s - 1)"
        unfolding w using s1(3) by (simp add: word_gt_0)
      show "recorded bo s \<longrightarrow> recorded bo (prelude_failover_commit bo s1 m)"
      proof
        assume r: "recorded bo s"
        then have "fl = []" using s1(2) by (simp add: recorded_def)
        then have "recorded bo s1" using r s1(3) by (simp add: recorded_def)
        then show "recorded bo (prelude_failover_commit bo s1 m)" unfolding prelude_failover_commit_def by (rule recorded_write)
      qed
    qed
  qed
qed

lemma failover_get_empty:
  assumes "failover_inv s lag [] pend" "fo_faults s = []"
  shows "prelude_failover_get_saved_msg bo (\<lambda>_. True) s = Some (Inr 0, None, truncated bo s)"
proof -
  have u: "fo_unread s = frames_bytes pend" using failover_invD(1) [OF assms(1)] by simp
  note p = failover_invD(3,4) [OF assms(1)] and b = failover_invD(6) [OF assms(1)]
  have faults: "Fails ECONNRESET \<notin> set (fo_faults s)" using assms(2) by simp
  have parse: "parse_msg bo (fo_unread s) = Incomplete"
    unfolding u using p by (intro parse_fragments) (simp_all add: fresh_read_msg_def)
  obtain ret mo s1 where c: "prelude_msg_read bo (\<lambda>_. True) fo_read None s = Some (ret, mo, s1)" "reading_from s s1"
    "ret = Inr () \<longrightarrow> (\<exists>m. mo = Some m \<and> received_ok m \<and> parse_msg bo (fo_unread s) = Parsed (msg_hdr m) (received_data m) (fo_unread s1))"
    "ret = Inl PRELUDE_ERROR_EOF \<longrightarrow> (\<forall>h d r. parse_msg bo (fo_unread s) \<noteq> Parsed h d r)"
    "\<forall>e. ret = Inl e \<and> fo_faults s = [] \<longrightarrow> mo = None \<and> (parse_msg bo (fo_unread s) = Malformed e \<or> parse_msg bo (fo_unread s) = Incomplete \<and> e = PRELUDE_ERROR_EOF)"
    by (rule fo_msg_read [OF b faults, of bo])
  have "ret = Inl PRELUDE_ERROR_EOF" "mo = None" using c(3) c(5) assms(2) parse by (cases ret; auto)+
  moreover obtain p where "s1 = s\<lparr>fo_rpos := p, fo_faults := fo_faults s\<rparr>" using c(2) assms(2) by (auto simp: reading_from_def)
  then have "s1 = s\<lparr>fo_rpos := p\<rparr>" by simp
  ultimately show ?thesis using c(1) assms(2) by (simp add: prelude_failover_get_saved_msg_def truncate_eq)
qed

text \<open>A read of the data file that fails.\<close>

lemma failed_read:
  assumes "fo_faults s = [Fails e]" "e \<noteq> EINTR" "e \<noteq> ECONNRESET"
  shows "\<exists>mo. prelude_failover_get_saved_msg bo (\<lambda>_. True) s = Some (Inl PRELUDE_ERROR_GENERIC, mo, truncated bo (s\<lparr>fo_faults := []\<rparr>))"
proof -
  have "fo_read s n = Some (Inl (prelude_error_from_errno e), s\<lparr>fo_faults := []\<rparr>)" for n
    using assms by (simp add: fo_read_eq settled_def next_call_def read_errno_def)
  then have "read_message_data fo_read [] 16 s = Some (Inl (prelude_error_from_errno e), [], s\<lparr>fo_faults := []\<rparr>)"
    by (subst read_message_data.simps) simp
  then have "\<exists>mo. prelude_msg_read bo (\<lambda>_. True) fo_read None s = Some (Inl (prelude_error_from_errno e), mo, s\<lparr>fo_faults := []\<rparr>)"
    by (simp add: prelude_msg_read.simps [of bo _ fo_read None] read_message_header_def fresh_read_msg_def
        mem_write_def finish_read_def Let_def)
  moreover have "prelude_error_from_errno e \<noteq> PRELUDE_ERROR_EOF" by (cases e) simp_all
  ultimately show ?thesis by (auto simp: prelude_failover_get_saved_msg_def)
qed

text \<open>
  C4: Outside of transactions the failover is a first in, first out queue of messages of one or several frames. Saving a frame that was written
  completely appends it: a fragment to the message that is not complete yet, the last frame as the end of it. Taking a message returns the oldest, with
  the tag, priority and time of its first frames and the data of all, and removes it; taking one when none is complete returns zero and truncates both files. The
  available count follows. System calls may transfer less than they were asked for or fail (but not with \<open>ECONNRESET\<close>): a save that fails leaves a part of its
  frame in the file, perhaps nothing, and the queue is intact if nothing; a read that fails is reported, never taken for the end, and loses all messages.
\<close>

theorem failover_is_queue:
  assumes "failover_inv s lag q pend" "\<not> fo_transaction_enabled s" "emits now m f" "Fails ECONNRESET \<notin> set (fo_faults s)"
    and "length (frames_data pend) + length (f_data f) < max_message_size" "length (fo_data s) + unat (msg_write_index m) < 2 ^ 63"
  shows "(\<exists>ret m' s'. prelude_failover_save_msg bo now m s = Some (ret, m', s') \<and> (case ret of
       Inr _ \<Rightarrow> failover_inv s' lag (fst (add_frame f (q, pend))) (snd (add_frame f (q, pend))) \<and>
         prelude_failover_get_available_msg_count s' = prelude_failover_get_available_msg_count s + (if f_fragment f \<noteq> 0 then 0 else 1)
     | Inl e \<Rightarrow> fo_faults s \<noteq> [] \<and> prelude_failover_get_available_msg_count s' = prelude_failover_get_available_msg_count s \<and>
         (\<exists>n < length (encode_frame f). fo_data s' = fo_data s @ take n (encode_frame f) \<and> (n = 0 \<longrightarrow> failover_inv s' lag q pend)))) \<and>
    (case q of
       [] \<Rightarrow> fo_faults s = [] \<longrightarrow> (\<exists>s'. prelude_failover_get_saved_msg bo (\<lambda>_. True) s = Some (Inr 0, None, s') \<and>
         failover_inv s' 0 [] [] \<and> fo_data s' = [] \<and> prelude_failover_get_available_msg_count s' = 0)
     | g # q' \<Rightarrow> \<exists>ret mo s'. prelude_failover_get_saved_msg bo (\<lambda>_. True) s = Some (ret, mo, s') \<and> (case ret of
           Inr n \<Rightarrow> (\<exists>m. mo = Some m \<and> n = prelude_msg_get_len m \<and> delivered m g) \<and> failover_inv s' (lag + more_lag g) q' pend \<and>
             prelude_failover_get_available_msg_count s' = (if fo_count s = 0 then 0 else fo_count s - 1)
         | Inl e \<Rightarrow> e = PRELUDE_ERROR_GENERIC \<and> fo_faults s \<noteq> [])) \<and>
    (\<forall>e. fo_faults s = [Fails e] \<and> e \<noteq> EINTR \<longrightarrow> (\<exists>mo s'. prelude_failover_get_saved_msg bo (\<lambda>_. True) s = Some (Inl PRELUDE_ERROR_GENERIC, mo, s') \<and>
       failover_inv s' 0 [] [] \<and> fo_data s' = [] \<and> prelude_failover_get_available_msg_count s' = 0))"
  (is "?save \<and> ?get \<and> ?fail")
proof (intro conjI)
  from assms(1,3,5,6) show ?save
  proof (cases rule: failover_save [where bo = bo])
    case (saved m' s')
    then show ?thesis by (simp add: prelude_failover_get_available_msg_count_def)
  next
    case (failed e m' s' n fl)
    have "n = 0 \<longrightarrow> failover_inv s' lag q pend" using assms(1) failed(3) by (auto simp: failover_inv_def)
    then show ?thesis using failed by (auto simp: prelude_failover_get_available_msg_count_def)
  qed
  show ?get
  proof (cases q)
    case Nil
    then show ?thesis
      using failover_get_empty [of s lag pend bo] truncate_inv [of s bo] assms(1)
      by (simp add: prelude_failover_get_available_msg_count_def)
  next
    case (Cons g q')
    from assms(1) [unfolded Cons] assms(4) show ?thesis
    proof (cases rule: failover_get [where bo = bo])
      case (got m s1 fl)
      then show ?thesis
        using assms(2) unfolding Cons list.case prelude_failover_get_available_msg_count_def
        by (intro exI [of _ "Inr (prelude_msg_get_len m)"] exI [of _ "Some m"] exI [of _ "prelude_failover_commit bo s1 m"]) simp
    next
      case (lost mo s')
      then show ?thesis unfolding Cons by simp
    qed
  qed
  show ?fail
  proof (intro allI impI, elim conjE)
    fix e assume e: "fo_faults s = [Fails e]" "e \<noteq> EINTR"
    then obtain mo where "prelude_failover_get_saved_msg bo (\<lambda>_. True) s = Some (Inl PRELUDE_ERROR_GENERIC, mo, truncated bo (s\<lparr>fo_faults := []\<rparr>))"
      using failed_read [OF e, of bo] assms(4) by auto
    then show "\<exists>mo s'. prelude_failover_get_saved_msg bo (\<lambda>_. True) s = Some (Inl PRELUDE_ERROR_GENERIC, mo, s') \<and>
       failover_inv s' 0 [] [] \<and> fo_data s' = [] \<and> prelude_failover_get_available_msg_count s' = 0"
      using truncate_inv [of "s\<lparr>fo_faults := []\<rparr>" bo] by (auto simp: prelude_failover_get_available_msg_count_def)
  qed
qed

section \<open>Recovery\<close>




lemma sint_small:
  assumes "unat (r :: u64) < 2 ^ 63"
  shows "sint r = int (unat r)"
proof -
  have "int (unat r) < int (2 ^ 63)" using assms by (simp only: of_nat_less_iff)
  then have "uint r < 2 ^ 63" by simp
  moreover from unsigned_greater_eq [of r, where 'a=int] have "- (2 ^ 63) \<le> uint r"
    by (rule order_trans [rotated]) simp
  ultimately show ?thesis by (simp add: sint_uint signed_take_bit_int_eq_self_iff)
qed




section \<open>Damage that is not repaired\<close>

text \<open>
  Rolling back, which should make the last message available again, moves the read position forward by
  almost 4 GB, since the length is negated as an unsigned 32 bit integer: the next read finds the end of
  the file, reports that no message is left and truncates the files, with all saved messages.
\<close>

theorem rollback_loses_messages:
  assumes "failover_inv s lag ([f] # q) pend" "fo_transaction_enabled s" "length (fo_data s) < 2 ^ 31" "fo_faults s = []"
  shows "\<exists>m s1 s2. prelude_failover_get_saved_msg bo (\<lambda>_. True) s = Some (Inr (prelude_msg_get_len m), Some m, s1) \<and>
    prelude_failover_rollback s1 m = (Inr (), s2) \<and>
    fo_rpos s2 = fo_rpos s + 2 ^ 32 \<and>
    prelude_failover_get_saved_msg bo (\<lambda>_. True) s2 = Some (Inr 0, None, truncated bo s2) \<and>
    failover_inv (truncated bo s2) 0 [] []"
proof -
  obtain m where m: "prelude_failover_get_saved_msg bo (\<lambda>_. True) s =
      Some (Inr (prelude_msg_get_len m), Some m, s\<lparr>fo_rpos := fo_rpos s + length (encode_frame f), fo_faults := []\<rparr>)" "delivered m [f]"
    using failover_get [OF assms(1), of bo] assms(2,4) by auto
  have f: "message_ok [f]" using failover_invD(2) [OF assms(1)] by simp
  have len: "unat (prelude_msg_get_len m) = length (encode_frame f)"
    using delivered_len [OF m(2) f] by (simp add: encode_frame_head)
  then have ne: "prelude_msg_get_len m \<noteq> 0" by (auto simp: encode_frame_def)
  have "uint (- prelude_msg_get_len m) = 2 ^ 32 - uint (prelude_msg_get_len m)"
    using ne unsigned_less [of "prelude_msg_get_len m", where 'a=int]
    by (simp add: uint_word_ariths zmod_zminus1_eq_if mod_pos_pos_trivial unsigned_eq_0_iff)
  then have neg: "uint (- prelude_msg_get_len m) = 2 ^ 32 - int (length (encode_frame f))"
    using len by (simp flip: len)
  define s2 where "s2 = s\<lparr>fo_rpos := fo_rpos s + 2 ^ 32, fo_faults := []\<rparr>"
  have rb: "prelude_failover_rollback (s\<lparr>fo_rpos := fo_rpos s + length (encode_frame f), fo_faults := []\<rparr>) m = (Inr (), s2)"
    using neg by (simp add: prelude_failover_rollback_def s2_def nat_add_distrib)
  have "fo_unread s2 = []" "fo_faults s2 = []" using assms(3) by (simp_all add: s2_def)
  then have "read_message_data fo_read [] 16 s2 = Some (Inl PRELUDE_ERROR_EOF, [], s2)"
    by (subst read_message_data.simps) (simp add: fo_read_eq)
  then have "prelude_failover_get_saved_msg bo (\<lambda>_. True) s2 = Some (Inr 0, None, truncated bo s2)"
    by (simp add: prelude_failover_get_saved_msg_def prelude_msg_read.simps [of bo _ fo_read None]
        read_message_header_def fresh_read_msg_def mem_write_def finish_read_def Let_def)
  then show ?thesis using m(1) rb truncate_inv(1) [OF \<open>fo_faults s2 = []\<close>, of bo] by (auto simp: s2_def)
qed

text \<open>
  When the only entry of the journal has a wrong checksum, the files are truncated, but count and read index are taken from the damaged entry.
\<close>

theorem damaged_journal:
  assumes "length cs = 4" "cs \<noteq> be32 (prelude_crc32 (mem64 bo c @ mem64 bo r))" "unat r < 2 ^ 63"
  shows "\<exists>s. prelude_failover_new bo [] data (mem64 bo c @ mem64 bo r @ cs) = Some (Inr (), s) \<and>
      fo_data s = [] \<and> prelude_failover_get_available_msg_count s = c \<and> fo_rpos s = unat r"
proof -
  let ?j = "mem64 bo c @ mem64 bo r @ cs"
  define s0 where "s0 = \<lparr>fo_data = data, fo_rpos = 0, fo_journal = ?j, fo_jpos = 0,
       fo_count = 0, fo_rindex = 0, fo_transaction_enabled = False, fo_faults = []\<rparr>"
  have len: "length ?j = 20" using assms(1) by simp
  have "journal_read bo s0 = Some (Inr \<lparr>je_count = c, je_rindex = r, je_checksum = cs\<rparr>, s0\<lparr>fo_jpos := 20\<rparr>)"
    using journal_read_eq [of s0 bo] len by (simp add: s0_def)
  moreover have "s0\<lparr>fo_jpos := 0\<rparr> = s0" "fo_faults s0 = []" by (simp_all add: s0_def)
  ultimately have "journal_search bo (length data) 20 s0 =
      Some (Inr (False, \<lparr>je_count = c, je_rindex = r, je_checksum = cs\<rparr>), s0\<lparr>fo_jpos := 20\<rparr>)"
    using assms(2) by (subst journal_search.simps) (simp add: journal_check_def journal_checksum_eq)
  then have "journal_read_last_entry bo 20 (length data) s0 =
      Some (Inr \<lparr>je_count = c, je_rindex = r, je_checksum = cs\<rparr>, truncated bo (s0\<lparr>fo_jpos := 20\<rparr>))"
    by (simp add: journal_read_last_entry_def)
  moreover have "fo_faults (truncated bo (s0\<lparr>fo_jpos := 20\<rparr>)) = []" "fo_data (truncated bo (s0\<lparr>fo_jpos := 20\<rparr>)) = []"
    by (rule truncate_inv, simp add: s0_def)+
  ultimately show ?thesis
    using len sint_small [OF assms(3)]
    by (simp add: prelude_failover_new_def journal_initialize_def prelude_failover_get_available_msg_count_def s0_def Let_def)
qed

section \<open>Witnesses\<close>

definition sample_msg :: prelude_msg where
  "sample_msg = fresh_read_msg\<lparr>msg_write_index := 18, msg_payload := Some (replicate 16 0 @ [65, 66])\<rparr>"

definition sample_frame :: "byte \<Rightarrow> frame" where
  "sample_frame frag = \<lparr>f_tag = 3, f_priority = 1, f_fragment = frag, f_sec = 5, f_usec = 6, f_data = [65]\<rparr>"

text \<open>A failover with one saved message of two frames, the system calls of which end as \<open>faults\<close>.\<close>

definition sample_failover :: "bool \<Rightarrow> outcome list \<Rightarrow> prelude_failover" where
  "sample_failover tr faults = \<lparr>fo_data = encode_frame (sample_frame 1) @ encode_frame (sample_frame 0), fo_rpos = 0,
     fo_journal = good_entry Little_Endian 1 0, fo_jpos = 20, fo_count = 1, fo_rindex = 0, fo_transaction_enabled = tr, fo_faults = faults\<rparr>"

lemma sample_inv:
  "failover_inv (sample_failover tr faults) 0 [[sample_frame 1, sample_frame 0]] []" "recorded Little_Endian (sample_failover tr [])"
  by (auto simp: failover_inv_def recorded_def sample_failover_def sample_frame_def message_ok_def fragments_ok_def
      max_message_size_def journal_ends_def encode_frame_def intro!: exI [of _ "[]"])

definition sample_sent :: "u32 \<times> u32 \<Rightarrow> frame" where
  "sample_sent now = \<lparr>f_tag = 0, f_priority = 0, f_fragment = 0, f_sec = fst now, f_usec = snd now, f_data = [65, 66]\<rparr>"

lemma sample_emits: "emits now sample_msg (sample_sent now)"
  by (simp add: emits_def sample_msg_def sample_sent_def fresh_read_msg_def max_message_size_def)

text \<open>Two short reads and an interrupted one do no harm, one that fails loses the message.\<close>

theorem failover_is_queue_witness:
  "(\<exists>ret mo s'. prelude_failover_get_saved_msg Little_Endian (\<lambda>_. True) (sample_failover False [Short 2, Fails EINTR, Short 0]) = Some (ret, mo, s') \<and>
     (\<forall>n. ret = Inr n \<longrightarrow> failover_inv s' 16 [] [])) \<and>
   (\<exists>mo s'. prelude_failover_get_saved_msg Little_Endian (\<lambda>_. True) (sample_failover False [Fails EIO]) = Some (Inl PRELUDE_ERROR_GENERIC, mo, s') \<and>
     failover_inv s' 0 [] [])"
proof -
  have size: "length (fo_data (sample_failover False faults)) + unat (msg_write_index sample_msg) < 2 ^ 63" for faults
    by (simp add: sample_failover_def sample_frame_def sample_msg_def encode_frame_def)
  have lag: "more_lag [sample_frame 1, sample_frame 0] = 16" by (simp add: more_lag_def)
  have small: "length (frames_data []) + length (f_data (sample_sent (7, 8))) < max_message_size" by (simp add: sample_sent_def max_message_size_def)
  show ?thesis
  proof
    have "\<not> fo_transaction_enabled (sample_failover False [Short 2, Fails EINTR, Short 0])"
      "Fails ECONNRESET \<notin> set (fo_faults (sample_failover False [Short 2, Fails EINTR, Short 0]))" by (simp_all add: sample_failover_def)
    from failover_is_queue [OF sample_inv(1) this(1) sample_emits this(2) small size, of Little_Endian]
    show "\<exists>ret mo s'. prelude_failover_get_saved_msg Little_Endian (\<lambda>_. True) (sample_failover False [Short 2, Fails EINTR, Short 0]) = Some (ret, mo, s') \<and>
     (\<forall>n. ret = Inr n \<longrightarrow> failover_inv s' 16 [] [])" using lag by fastforce
  next
    have "\<not> fo_transaction_enabled (sample_failover False [Fails EIO])"
      "Fails ECONNRESET \<notin> set (fo_faults (sample_failover False [Fails EIO]))" "fo_faults (sample_failover False [Fails EIO]) = [Fails EIO]"
      by (simp_all add: sample_failover_def)
    from failover_is_queue [OF sample_inv(1) this(1) sample_emits this(2) small size, of Little_Endian] this(3)
    show "\<exists>mo s'. prelude_failover_get_saved_msg Little_Endian (\<lambda>_. True) (sample_failover False [Fails EIO]) = Some (Inl PRELUDE_ERROR_GENERIC, mo, s') \<and>
     failover_inv s' 0 [] []" by blast
  qed
qed


theorem rollback_loses_messages_witness:
  "\<exists>m s1 s2. prelude_failover_get_saved_msg Little_Endian (\<lambda>_. True) ((sample_failover True [])\<lparr>fo_data := encode_frame (sample_frame 0)\<rparr>) =
        Some (Inr (prelude_msg_get_len m), Some m, s1) \<and>
      prelude_failover_rollback s1 m = (Inr (), s2) \<and>
      prelude_failover_get_saved_msg Little_Endian (\<lambda>_. True) s2 = Some (Inr 0, None, truncated Little_Endian s2)"
proof -
  let ?s = "(sample_failover True [])\<lparr>fo_data := encode_frame (sample_frame 0)\<rparr>"
  have "fo_transaction_enabled ?s" "length (fo_data ?s) < 2 ^ 31" "fo_faults ?s = []"
    by (simp_all add: sample_failover_def sample_frame_def encode_frame_def)
  moreover have "failover_inv ?s 0 [[sample_frame 0]] []"
    by (simp add: failover_inv_def sample_failover_def sample_frame_def message_ok_def fragments_ok_def max_message_size_def encode_frame_def)
  ultimately show ?thesis using rollback_loses_messages [of ?s 0 "sample_frame 0" "[]" "[]" Little_Endian] by blast
qed

theorem damaged_journal_witness:
  "\<exists>cs s. prelude_failover_new Little_Endian [] [1] (mem64 Little_Endian 9 @ mem64 Little_Endian 4 @ cs) = Some (Inr (), s) \<and>
     fo_data s = [] \<and> prelude_failover_get_available_msg_count s = 9 \<and> fo_rpos s = 4"
proof -
  let ?crc = "prelude_crc32 (mem64 Little_Endian 9 @ mem64 Little_Endian 4)"
  have "be32 (?crc + 1) \<noteq> be32 ?crc" by (metis of_be32_be32 add_cancel_left_right one_neq_zero)
  then show ?thesis
    using damaged_journal [of "be32 (?crc + 1)" Little_Endian 9 4 "[1]"] by auto
qed

end
