(* ===== verification/CText.thy ===== *)
theory CText
  imports Base
begin

text \<open>
  Text as the C library prints and scans it: digits in a given base with a minimal width, as the conversions of
  \<open>sprintf\<close> produce them, and the scanning of numbers that \<open>strtoul\<close>, \<open>sscanf\<close> and \<open>strptime\<close> share.
\<close>

section \<open>Printing\<close>

definition digit_char :: "nat \<Rightarrow> char" where
  "digit_char d = ''0123456789abcdef'' ! d"

text \<open>The last \<open>n\<close> digits of a number in base \<open>b\<close>.\<close>

fun radix :: "nat \<Rightarrow> nat \<Rightarrow> nat \<Rightarrow> string" where
  "radix b 0 x = []"
| "radix b (Suc n) x = radix b n (x div b) @ [digit_char (x mod b)]"

fun dec :: "nat \<Rightarrow> string" where
  "dec x = (if x < 10 then [digit_char x] else dec (x div 10) @ [digit_char (x mod 10)])"

declare dec.simps [simp del]

text \<open>\<open>%.wd\<close>, \<open>%+.wd\<close> and \<open>%.wu\<close>.\<close>

definition dec_min :: "nat \<Rightarrow> nat \<Rightarrow> string" where
  "dec_min w x = replicate (w - length (dec x)) (CHR ''0'') @ dec x"

definition dec_int :: "nat \<Rightarrow> int \<Rightarrow> string" where
  "dec_int w z = (if z < 0 then ''-'' else []) @ dec_min w (nat \<bar>z\<bar>)"

definition dec_sign :: "nat \<Rightarrow> int \<Rightarrow> string" where
  "dec_sign w z = (if z < 0 then ''-'' else ''+'') @ dec_min w (nat \<bar>z\<bar>)"

section \<open>Scanning\<close>

definition char_digit :: "nat \<Rightarrow> char \<Rightarrow> nat option" where
  "char_digit b c =
     (let n = of_char c :: nat;
          d = (if 48 \<le> n \<and> n \<le> 57 then n - 48 else if 97 \<le> n \<and> n \<le> 122 then n - 87
               else if 65 \<le> n \<and> n \<le> 90 then n - 55 else b)
      in if d < b then Some d else None)"

definition isspace :: "char \<Rightarrow> bool" where
  "isspace c \<longleftrightarrow> (let n = of_char c :: nat in n = 32 \<or> 9 \<le> n \<and> n \<le> 13)"

text \<open>At most \<open>k\<close> digits: their value after \<open>acc\<close>, and the rest of the text.\<close>

fun scan :: "nat \<Rightarrow> nat \<Rightarrow> nat \<Rightarrow> string \<Rightarrow> nat \<times> string" where
  "scan b k acc [] = (acc, [])"
| "scan b k acc (c # s) =
     (if k = 0 then (acc, c # s)
      else case char_digit b c of None \<Rightarrow> (acc, c # s) | Some d \<Rightarrow> scan b (k - 1) (acc * b + d) s)"

text \<open>Whether a number can be scanned here.\<close>

definition starts_digit :: "nat \<Rightarrow> string \<Rightarrow> bool" where
  "starts_digit b s \<longleftrightarrow> (case s of [] \<Rightarrow> False | c # _ \<Rightarrow> char_digit b c \<noteq> None)"

text \<open>
  A number with base \<open>0\<close>, behind white space: whether there is a minus sign, the number behind it, and the rest of the text.
\<close>

definition strto_digits :: "string \<Rightarrow> (bool \<times> nat \<times> string) option" where
  "strto_digits s =
     (let t = dropWhile isspace s;
          neg = (t \<noteq> [] \<and> hd t = CHR ''-'');
          u = (if t \<noteq> [] \<and> hd t \<in> set ''+-'' then tl t else t);
          hex = (2 < length u \<and> hd u = CHR ''0'' \<and> u ! 1 \<in> set ''xX'' \<and> starts_digit 16 (drop 2 u));
          b = (if hex then 16 else if u \<noteq> [] \<and> hd u = CHR ''0'' then 8 else 10);
          v = (if hex then drop 2 u else u)
      in if \<not> starts_digit b v then None
         else case scan b (length v) 0 v of (n, rest) \<Rightarrow> Some (neg, n, rest))"

text \<open>
  \<open>strtol\<close> and \<open>strtoul\<close> for a 64 bit \<open>long\<close>: the number, the rest of the text, which is the whole text when there is no number, and whether
  \<open>ERANGE\<close> is set. The unsigned one negates modulo \<open>2 ^ 64\<close>.
\<close>

definition strtol_range :: "string \<Rightarrow> int \<times> string \<times> bool" where
  "strtol_range s = (case strto_digits s of
       None \<Rightarrow> (0, s, False)
     | Some (neg, n, rest) \<Rightarrow>
         let z = (if neg then - int n else int n) in
         (max (- (2 ^ 63)) (min (2 ^ 63 - 1) z), rest, z < - (2 ^ 63) \<or> 2 ^ 63 \<le> z))"

definition strtoul_range :: "string \<Rightarrow> int \<times> string \<times> bool" where
  "strtoul_range s = (case strto_digits s of
       None \<Rightarrow> (0, s, False)
     | Some (neg, n, rest) \<Rightarrow>
         if 2 ^ 64 \<le> n then (2 ^ 64 - 1, rest, True) else ((if neg then - int n else int n) mod 2 ^ 64, rest, False))"

definition strtol :: "string \<Rightarrow> int \<times> string" where
  "strtol s = (case strtol_range s of (n, rest, _) \<Rightarrow> (n, rest))"

section \<open>Scanning what was printed\<close>

lemma length_radix [simp]: "length (radix b n x) = n"
  by (induction n arbitrary: x) simp_all

lemma digit_char_inj:
  assumes "d < 16" "e < 16"
  shows "digit_char d = digit_char e \<longleftrightarrow> d = e"
proof -
  let ?ds = "''0123456789abcdef''"
  have "distinct ?ds" "d < length ?ds" "e < length ?ds" using assms by simp_all
  then show ?thesis unfolding digit_char_def by (rule nth_eq_iff_index_eq)
qed

lemma radix_inj:
  assumes "b \<le> 16" "0 < b"
  shows "x < b ^ n \<Longrightarrow> y < b ^ n \<Longrightarrow> radix b n x = radix b n y \<longleftrightarrow> x = y"
proof (induction n arbitrary: x y)
  case (Suc n)
  have "x div b < b ^ n" "y div b < b ^ n" using Suc.prems by (simp_all add: less_mult_imp_div_less mult.commute)
  moreover have "x mod b < b" "y mod b < b" using assms(2) by simp_all
  then have "x mod b < 16" "y mod b < 16" using assms(1) by linarith+
  ultimately have "radix b (Suc n) x = radix b (Suc n) y \<longleftrightarrow> x div b = y div b \<and> x mod b = y mod b"
    using Suc.IH [of "x div b" "y div b"] digit_char_inj by simp
  also have "\<dots> \<longleftrightarrow> x = y" by (metis div_mult_mod_eq)
  finally show ?case .
qed simp

lemma char_digit_digit_char:
  assumes "d < b" "b \<le> 16"
  shows "char_digit b (digit_char d) = Some d"
proof -
  have "d = 0 \<or> d = 1 \<or> d = 2 \<or> d = 3 \<or> d = 4 \<or> d = 5 \<or> d = 6 \<or> d = 7 \<or> d = 8 \<or> d = 9 \<or> d = 10 \<or>
    d = 11 \<or> d = 12 \<or> d = 13 \<or> d = 14 \<or> d = 15" using assms by arith
  then show ?thesis using assms(1) by (elim disjE) (simp_all add: digit_char_def char_digit_def)
qed

lemma scan_append:
  assumes "scan b k acc s = (v, [])" "length s = k"
  shows "scan b (k + m) acc (s @ r) = scan b m v r"
  using assms by (induction b k acc s rule: scan.induct) (auto split: option.splits)

lemma scan_radix:
  assumes "b \<le> 16" "0 < b"
  shows "x < b ^ n \<Longrightarrow> scan b n acc (radix b n x) = (acc * b ^ n + x, [])"
proof (induction n arbitrary: x)
  case (Suc n)
  have "x div b < b ^ n" using Suc.prems by (simp add: less_mult_imp_div_less mult.commute)
  then have "scan b n acc (radix b n (x div b)) = (acc * b ^ n + x div b, [])" by (rule Suc.IH)
  then have "scan b (n + 1) acc (radix b n (x div b) @ [digit_char (x mod b)]) =
      scan b 1 (acc * b ^ n + x div b) [digit_char (x mod b)]" by (rule scan_append) simp
  also have "\<dots> = ((acc * b ^ n + x div b) * b + x mod b, [])"
    using assms by (simp add: char_digit_digit_char)
  also have "(acc * b ^ n + x div b) * b + x mod b = acc * b ^ Suc n + (x div b * b + x mod b)" by (simp add: algebra_simps)
  also have "x div b * b + x mod b = x" by (rule div_mult_mod_eq)
  finally show ?case by simp
qed simp

lemma scan_printed:
  assumes "b \<le> 16" "0 < b" "x < b ^ n" "\<not> starts_digit b r \<or> m = 0"
  shows "scan b (n + m) 0 (radix b n x @ r) = (x, r)"
proof -
  have "scan b (n + m) 0 (radix b n x @ r) = scan b m x r"
    using scan_append [of b n 0 "radix b n x" x m r] scan_radix [of b x n 0] assms(1-3) by simp
  also have "\<dots> = (x, r)" using assms(4) by (cases m; cases r) (auto simp: starts_digit_def)
  finally show ?thesis .
qed

lemma starts_digit_radix: "b \<le> 16 \<Longrightarrow> 0 < b \<Longrightarrow> 0 < n \<Longrightarrow> starts_digit b (radix b n x @ r)"
proof (induction n arbitrary: x r)
  case (Suc n)
  then show ?case
    using char_digit_digit_char [of "x mod b" b] by (cases n) (auto simp: starts_digit_def)
qed simp

lemma radix_zero: "radix b n 0 = replicate n (CHR ''0'')"
  by (induction n) (simp_all add: digit_char_def replicate_append_same [symmetric])

lemma dec_min_eq:
  assumes "0 < n" "x < 10 ^ n"
  shows "dec_min n x = radix 10 n x"
  using assms
proof (induction n arbitrary: x)
  case (Suc n)
  show ?case
  proof (cases "x < 10")
    case True
    then show ?thesis by (simp add: dec_min_def dec.simps radix_zero)
  next
    case False
    have x: "x div 10 < 10 ^ n" using Suc.prems by (simp add: less_mult_imp_div_less mult.commute)
    moreover have "n \<noteq> 0" using False Suc.prems by (cases n) auto
    ultimately have "dec_min n (x div 10) = radix 10 n (x div 10)" using Suc.IH by simp
    then show ?thesis using False by (simp add: dec_min_def dec.simps [of x])
  qed
qed simp

text \<open>Numbers without a minimal width.\<close>

lemma dec_radix: "\<exists>n. 0 < n \<and> x < 10 ^ n \<and> dec x = radix 10 n x"
proof (induction x rule: dec.induct)
  case (1 x)
  show ?case
  proof (cases "x < 10")
    case True
    then show ?thesis by (intro exI [of _ 1]) (simp add: dec.simps)
  next
    case False
    then obtain n where "0 < n" "x div 10 < 10 ^ n" "dec (x div 10) = radix 10 n (x div 10)" using 1 by auto
    then show ?thesis using False by (intro exI [of _ "Suc n"]) (simp add: dec.simps [of x] div_less_iff_less_mult mult.commute)
  qed
qed

lemma scan_dec:
  assumes "\<not> starts_digit 10 r"
  shows "scan 10 (length (dec x @ r)) 0 (dec x @ r) = (x, r)"
proof -
  obtain n where "x < 10 ^ n" "dec x = radix 10 n x" using dec_radix by blast
  then show ?thesis using scan_printed [of 10 x n r "length r"] assms by simp
qed

lemma digit_char_cases: "d < 10 \<Longrightarrow> digit_char d \<in> set ''0123456789''"
proof -
  assume "d < 10"
  then have "d = 0 \<or> d = 1 \<or> d = 2 \<or> d = 3 \<or> d = 4 \<or> d = 5 \<or> d = 6 \<or> d = 7 \<or> d = 8 \<or> d = 9" by arith
  then show ?thesis by (elim disjE) (simp_all add: digit_char_def)
qed

lemma set_dec: "set (dec x) \<subseteq> set ''0123456789''"
  by (induction x rule: dec.induct) (use digit_char_cases in \<open>auto simp: dec.simps\<close>)

lemma hd_dec: "dec x \<noteq> [] \<and> (0 < x \<longrightarrow> hd (dec x) \<noteq> CHR ''0'')"
proof (induction x rule: dec.induct)
  case (1 x)
  show ?case
  proof (cases "x < 10")
    case True
    have "x = 1 \<or> x = 2 \<or> x = 3 \<or> x = 4 \<or> x = 5 \<or> x = 6 \<or> x = 7 \<or> x = 8 \<or> x = 9" if "0 < x" using that True by arith
    then have "0 < x \<longrightarrow> digit_char x \<noteq> CHR ''0''" by (auto simp: digit_char_def)
    then show ?thesis using True by (simp add: dec.simps)
  next
    case False
    then show ?thesis using 1 by (simp add: dec.simps [of x])
  qed
qed

lemma dec_int_0: "dec_int 0 z = (if z < 0 then ''-'' else []) @ dec (nat \<bar>z\<bar>)"
  by (simp add: dec_int_def dec_min_def)

lemma strto_digits_dec_int: "strto_digits (dec_int 0 z) = Some (z < 0, nat \<bar>z\<bar>, [])"
proof -
  define u where "u = dec (nat \<bar>z\<bar>)"
  have u: "u \<noteq> []" "hd u \<in> set ''0123456789''" "nat \<bar>z\<bar> > 0 \<longrightarrow> hd u \<noteq> CHR ''0''"
    using hd_dec [of "nat \<bar>z\<bar>"] set_dec [of "nat \<bar>z\<bar>"] by (auto simp: u_def dest!: subsetD [OF _ hd_in_set])
  have "\<not> isspace c" if "c \<in> set ''-0123456789''" for c using that by (auto simp: isspace_def)
  then have space: "dropWhile isspace (dec_int 0 z) = dec_int 0 z"
    using u by (cases u) (auto simp: dec_int_0 simp flip: u_def)
  have signs: "hd u \<notin> set ''+-''" using u(2) by auto
  have z: "scan 10 (length u) 0 u = (nat \<bar>z\<bar>, [])" using scan_dec [of "[]" "nat \<bar>z\<bar>"] by (simp add: u_def starts_digit_def)
  have ten: "starts_digit 10 u" using u by (cases u) (auto simp: starts_digit_def char_digit_def)
  have tail: "(if dec_int 0 z \<noteq> [] \<and> hd (dec_int 0 z) \<in> set ''+-'' then tl (dec_int 0 z) else dec_int 0 z) = u"
    "(dec_int 0 z \<noteq> [] \<and> hd (dec_int 0 z) = CHR ''-'') = (z < 0)"
    using u(1) signs by (auto simp: dec_int_0 simp flip: u_def)
  show ?thesis
  proof (cases "z = 0")
    case True
    then have "u = ''0''" by (simp add: u_def dec.simps digit_char_def)
    then show ?thesis using True unfolding strto_digits_def space tail Let_def by (simp add: starts_digit_def char_digit_def)
  next
    case False
    then have "hd u \<noteq> CHR ''0''" using u(3) by auto
    then show ?thesis using False u(1) z ten unfolding strto_digits_def space tail Let_def by auto
  qed
qed

lemma strtol_range_dec_int: "- (2 ^ 63) \<le> z \<Longrightarrow> z < 2 ^ 63 \<Longrightarrow> strtol_range (dec_int 0 z) = (z, [], False)"
  by (auto simp: strtol_range_def strto_digits_dec_int Let_def)

lemma strtoul_range_dec_int: "- (2 ^ 64) < z \<Longrightarrow> z < 2 ^ 64 \<Longrightarrow> strtoul_range (dec_int 0 z) = (z mod 2 ^ 64, [], False)"
  by (auto simp: strtoul_range_def strto_digits_dec_int Let_def nat_less_iff not_le)

lemma strtol_dec_int: "- (2 ^ 63) \<le> z \<Longrightarrow> z < 2 ^ 63 \<Longrightarrow> strtol (dec_int 0 z) = (z, [])"
  by (simp add: strtol_def strtol_range_dec_int)

end
