(* ===== verification/Ident.thy ===== *)
theory Ident
  imports CText
begin

text \<open>
  Message identifiers (\<open>src/prelude-ident.c\<close>): UUIDs built from the system clock, a counter for identifiers
  within one clock reading, and a clock sequence chosen at random by \<open>prelude_ident_new\<close>.

  The clock is the list of the readings that \<open>gettimeofday\<close> will return; \<open>None\<close> means that the generator still
  spins when the readings end.
\<close>

section \<open>State\<close>

record prelude_ident =
  id_tick :: u16
  id_last :: u64
  id_clockseq :: u16

record uuid =
  time_low :: u32
  time_mid :: u16
  time_hi_and_version :: u16
  clock_seq_hi_and_reserved :: byte
  clock_seq_low :: byte

definition UUIDS_PER_TICK :: u16 where "UUIDS_PER_TICK = 10"
definition UUID_TIMEOFFSET :: u64 where "UUID_TIMEOFFSET = 0x01b21dd213814000"

type_synonym timeval = "u64 \<times> u64"

section \<open>Generation\<close>

definition get_system_time :: "timeval \<Rightarrow> u64" where
  "get_system_time tv = fst tv * 10000000 + snd tv * 10 + UUID_TIMEOFFSET"

fun get_current_time :: "prelude_ident \<Rightarrow> timeval list \<Rightarrow> (u64 \<times> prelude_ident \<times> timeval list) option" where
  "get_current_time ident [] = None"
| "get_current_time ident (tv # clock) =
     (let now = get_system_time tv in
      if id_last ident \<noteq> now
      then Some (now + 0, ident\<lparr>id_last := now, id_tick := 0\<rparr>, clock)
      else if id_tick ident < UUIDS_PER_TICK
      then Some (now + ucast (id_tick ident + 1), ident\<lparr>id_tick := id_tick ident + 1\<rparr>, clock)
      else get_current_time ident clock)"

definition uuid_fields :: "u64 \<Rightarrow> u16 \<Rightarrow> uuid" where
  "uuid_fields timestamp clockseq =
     \<lparr>time_low = ucast (timestamp AND 0xffffffff),
      time_mid = ucast (drop_bit 32 timestamp AND 0xffff),
      time_hi_and_version = ucast (drop_bit 48 timestamp AND 0x0fff) OR push_bit 12 1,
      clock_seq_hi_and_reserved = ucast (drop_bit 8 (clockseq AND 0x3f00)) OR 0x80,
      clock_seq_low = ucast (clockseq AND 0xff)\<rparr>"

definition uuidgen :: "prelude_ident \<Rightarrow> timeval list \<Rightarrow> (uuid \<times> prelude_ident \<times> timeval list) option" where
  "uuidgen ident clock =
     map_option (\<lambda>(timestamp, i, rest).
       let i' = (if timestamp < id_last i then i\<lparr>id_clockseq := id_clockseq i + 1\<rparr> else i)
       in (uuid_fields timestamp (id_clockseq i'), i', rest))
       (get_current_time ident clock)"

text \<open>\<open>rand\<close> is what the random generator returns.\<close>

definition prelude_ident_new :: "(nat \<Rightarrow> bool) \<Rightarrow> nat \<Rightarrow> prelude_ident option" where
  "prelude_ident_new mem_ok rand =
     (if \<not> mem_ok 0 then None else Some \<lparr>id_tick = 0, id_last = 0, id_clockseq = of_nat (rand mod 65536)\<rparr>)"

text \<open>The conversions \<open>%n.nx\<close> of a value that has at most \<open>n\<close> hexadecimal digits.\<close>

abbreviation hex :: "nat \<Rightarrow> nat \<Rightarrow> string" where
  "hex \<equiv> radix 16"

definition uuid_text :: "uuid \<Rightarrow> string" where
  "uuid_text u = hex 8 (unat (time_low u)) @ ''-'' @ hex 4 (unat (time_mid u)) @ ''-'' @
     hex 4 (unat (time_hi_and_version u)) @ ''-'' @
     hex 2 (unat (clock_seq_hi_and_reserved u)) @ hex 2 (unat (clock_seq_low u))"

text \<open>The text that \<open>prelude_string_sprintf\<close> appends to the output.\<close>

definition prelude_ident_generate :: "prelude_ident \<Rightarrow> timeval list \<Rightarrow> (string \<times> prelude_ident \<times> timeval list) option" where
  "prelude_ident_generate ident clock =
     map_option (\<lambda>(u, i, rest). (uuid_text u, i, rest)) (uuidgen ident clock)"

definition prelude_ident_inc :: "prelude_ident \<Rightarrow> timeval list \<Rightarrow> u64 \<times> timeval list" where
  "prelude_ident_inc ident clock = (get_system_time (hd clock), tl clock)"

section \<open>The text determines the time stamp\<close>

lemmas hex_inj = radix_inj [of 16, simplified]

lemma uuid_text_inj: "uuid_text u = uuid_text v \<longleftrightarrow> u = v"
proof
  assume "uuid_text u = uuid_text v"
  then have "hex 8 (unat (time_low u)) = hex 8 (unat (time_low v))" "hex 4 (unat (time_mid u)) = hex 4 (unat (time_mid v))"
    "hex 4 (unat (time_hi_and_version u)) = hex 4 (unat (time_hi_and_version v))"
    "hex 2 (unat (clock_seq_hi_and_reserved u)) = hex 2 (unat (clock_seq_hi_and_reserved v))"
    "hex 2 (unat (clock_seq_low u)) = hex 2 (unat (clock_seq_low v))"
    by (simp_all add: uuid_text_def)
  moreover have "unat (time_low w) < 16 ^ 8" "unat (time_mid w) < 16 ^ 4" "unat (time_hi_and_version w) < 16 ^ 4"
    "unat (clock_seq_hi_and_reserved w) < 16 ^ 2" "unat (clock_seq_low w) < 16 ^ 2" for w :: uuid
    using unsigned_less [of "time_low w", where 'a=nat] unsigned_less [of "time_mid w", where 'a=nat]
      unsigned_less [of "time_hi_and_version w", where 'a=nat] unsigned_less [of "clock_seq_hi_and_reserved w", where 'a=nat]
      unsigned_less [of "clock_seq_low w", where 'a=nat] by simp_all
  ultimately show "u = v"
    by (simp only: hex_inj word_unat_eq_iff [symmetric]) (cases u; cases v; simp)
qed simp

lemma masks:
  "(0xffffffff :: u64) = mask 32" "(0xffff :: u64) = mask 16" "(0x0fff :: u64) = mask 12"
  "(0xff :: u16) = mask 8" "(0x3f00 :: u16) = push_bit 8 (mask 6)" "(0x80 :: byte) = push_bit 7 1"
  by (simp_all add: mask_eq_exp_minus_1 push_bit_eq_mult)

lemma single_bits: "bit (0x1000 :: int) n \<longleftrightarrow> n = 12" "bit (0x80 :: int) n \<longleftrightarrow> n = 7"
  using bit_exp_iff [of 12 n, where 'a=int] bit_exp_iff [of 7 n, where 'a=int] by auto

lemma uuid_fields_bits:
  "bit (time_low (uuid_fields t c)) n \<longleftrightarrow> n < 32 \<and> bit t n"
  "bit (time_mid (uuid_fields t c)) n \<longleftrightarrow> n < 16 \<and> bit t (32 + n)"
  "bit (time_hi_and_version (uuid_fields t c)) n \<longleftrightarrow> n < 12 \<and> bit t (48 + n) \<or> n = 12"
  "bit (clock_seq_hi_and_reserved (uuid_fields t c)) n \<longleftrightarrow> n < 6 \<and> bit c (8 + n) \<or> n = 7"
  "bit (clock_seq_low (uuid_fields t c)) n \<longleftrightarrow> n < 8 \<and> bit c n"
  unfolding uuid_fields_def masks
  by (auto simp: bit_simps single_bits)

lemma uuid_fields_inj:
  "uuid_fields t c = uuid_fields t' c' \<longleftrightarrow> take_bit 60 t = take_bit 60 t' \<and> take_bit 14 c = take_bit 14 c'"
proof
  assume eq: "uuid_fields t c = uuid_fields t' c'"
  have "bit t n = bit t' n" if "n < 60" for n
  proof -
    consider "n < 32" | "32 \<le> n" "n < 48" | "48 \<le> n" by linarith
    then show ?thesis
    proof cases
      case 1
      then show ?thesis using uuid_fields_bits(1) [of t c n] uuid_fields_bits(1) [of t' c' n] eq by simp
    next
      case 2
      moreover from this have "n - 32 < 16" by simp
      ultimately show ?thesis
        using uuid_fields_bits(2) [of t c "n - 32"] uuid_fields_bits(2) [of t' c' "n - 32"] eq by simp
    next
      case 3
      then show ?thesis
        using uuid_fields_bits(3) [of t c "n - 48"] uuid_fields_bits(3) [of t' c' "n - 48"] eq that by auto
    qed
  qed
  moreover have "bit c n = bit c' n" if "n < 14" for n
  proof (cases "n < 8")
    case True
    then show ?thesis using uuid_fields_bits(5) [of t c n] uuid_fields_bits(5) [of t' c' n] eq by simp
  next
    case False
    then show ?thesis
      using uuid_fields_bits(4) [of t c "n - 8"] uuid_fields_bits(4) [of t' c' "n - 8"] eq that by auto
  qed
  ultimately show "take_bit 60 t = take_bit 60 t' \<and> take_bit 14 c = take_bit 14 c'"
    by (auto intro!: bit_word_eqI simp: bit_take_bit_iff)
next
  assume "take_bit 60 t = take_bit 60 t' \<and> take_bit 14 c = take_bit 14 c'"
  then have "bit t n = bit t' n" if "n < 60" for n
    using that by (metis bit_take_bit_iff)
  moreover have "bit c n = bit c' n" if "n < 14" for n
    using that \<open>take_bit 60 t = take_bit 60 t' \<and> take_bit 14 c = take_bit 14 c'\<close> by (metis bit_take_bit_iff)
  ultimately show "uuid_fields t c = uuid_fields t' c'"
    by (auto intro!: uuid.equality bit_word_eqI simp: uuid_fields_bits)
qed

section \<open>Unique and repeated identifiers\<close>

definition stamp :: "prelude_ident \<Rightarrow> u64" where
  "stamp i = id_last i + ucast (id_tick i)"

lemma unat_widen16: "unat (ucast (w :: u16) :: u64) = unat w"
  using unsigned_less [of w, where 'a=nat] by (simp add: unsigned_ucast_eq take_bit_nat_eq_self)

lemma get_current_time_stamp:
  assumes "get_current_time i clock = Some (t, i', rest)" "id_tick i \<le> UUIDS_PER_TICK"
  shows "t = stamp i' \<and> id_clockseq i' = id_clockseq i \<and> id_tick i' \<le> UUIDS_PER_TICK \<and>
    (id_last i' = id_last i \<and> id_tick i' = id_tick i + 1 \<and> id_tick i < UUIDS_PER_TICK \<or>
     id_last i' \<noteq> id_last i \<and> id_tick i' = 0 \<and> id_last i' \<in> get_system_time ` set clock)"
  using assms
proof (induction i clock rule: get_current_time.induct)
  case (2 i tv clock)
  show ?case
  proof (cases "id_last i = get_system_time tv \<and> \<not> id_tick i < UUIDS_PER_TICK")
    case True
    then show ?thesis using 2 by (auto simp: Let_def)
  next
    case False
    have "id_tick i < UUIDS_PER_TICK \<Longrightarrow> id_tick i + 1 \<le> UUIDS_PER_TICK"
      by (simp add: inc_le UUIDS_PER_TICK_def)
    then show ?thesis using 2(2) False by (auto simp: Let_def stamp_def split: if_splits)
  qed
qed simp

lemma stamp_small:
  assumes "id_tick i \<le> UUIDS_PER_TICK" "unat (id_last i) + 10 < 2 ^ 60"
  shows "unat (stamp i) = unat (id_last i) + unat (id_tick i)" "unat (stamp i) < 2 ^ 60" "\<not> stamp i < id_last i"
proof -
  have t: "unat (id_tick i) \<le> 10" using assms(1) by (simp add: UUIDS_PER_TICK_def word_le_nat_alt)
  then show u: "unat (stamp i) = unat (id_last i) + unat (id_tick i)"
    using assms(2) by (simp add: stamp_def unat_widen16 unat_plus_small)
  then show "unat (stamp i) < 2 ^ 60" "\<not> stamp i < id_last i"
    using t assms(2) by (auto simp: word_less_nat_alt)
qed

lemma generate_text:
  assumes "prelude_ident_generate i clock = Some (txt, i', rest)" "id_tick i \<le> UUIDS_PER_TICK"
    and "unat (id_last i') + 10 < 2 ^ 60"
  shows "get_current_time i clock = Some (stamp i', i', rest) \<and> txt = uuid_text (uuid_fields (stamp i') (id_clockseq i'))"
proof -
  obtain t j where t: "get_current_time i clock = Some (t, j, rest)"
    and i': "i' = (if t < id_last j then j\<lparr>id_clockseq := id_clockseq j + 1\<rparr> else j)"
    "txt = uuid_text (uuid_fields t (id_clockseq i'))"
    using assms(1) by (auto simp: prelude_ident_generate_def uuidgen_def Let_def)
  have "t = stamp j" "id_tick j \<le> UUIDS_PER_TICK" using get_current_time_stamp [OF t assms(2)] by auto
  moreover have "id_last j = id_last i'" using i'(1) by simp
  ultimately have "\<not> t < id_last j" using assms(3) stamp_small(3) [of j] by simp
  then show ?thesis using t i' \<open>t = stamp j\<close> by simp
qed

text \<open>
  When the clock does not go back, two identifiers generated one after the other are different, except in
  one case: the eleventh identifier of a clock reading (the counter has reached ten) equals the
  first of the next reading, if that comes one microsecond later.
\<close>

theorem consecutive_identifiers:
  assumes "prelude_ident_generate i clock = Some (t1, i1, clock1)" "prelude_ident_generate i1 clock1 = Some (t2, i2, clock2)"
    and "id_tick i \<le> UUIDS_PER_TICK" "unat (id_last i1) + 10 < 2 ^ 60"
    and "\<forall>tv \<in> set clock1. (\<exists>k. unat (get_system_time tv) = unat (id_last i1) + 10 * k) \<and> unat (get_system_time tv) + 10 < 2 ^ 60"
  shows "t1 = t2 \<longleftrightarrow> id_tick i1 = UUIDS_PER_TICK \<and> unat (id_last i2) = unat (id_last i1) + 10"
proof -
  have g1: "get_current_time i clock = Some (stamp i1, i1, clock1)" "t1 = uuid_text (uuid_fields (stamp i1) (id_clockseq i1))"
    using generate_text [OF assms(1,3,4)] by simp_all
  have tick1: "id_tick i1 \<le> UUIDS_PER_TICK" using get_current_time_stamp [OF g1(1) assms(3)] by simp
  obtain t j where t: "get_current_time i1 clock1 = Some (t, j, clock2)" "id_last i2 = id_last j"
    using assms(2) by (auto simp: prelude_ident_generate_def uuidgen_def Let_def)
  note st = get_current_time_stamp [OF t(1) tick1]
  have small2: "unat (id_last j) + 10 < 2 ^ 60" using st assms(4,5) by auto
  have g2: "get_current_time i1 clock1 = Some (stamp i2, i2, clock2)" "t2 = uuid_text (uuid_fields (stamp i2) (id_clockseq i2))"
    using generate_text [OF assms(2) tick1] small2 t(2) by simp_all
  then have "j = i2" using t(1) by simp
  note st = st [unfolded this] and small2 = small2 [unfolded this]
  have eq: "t1 = t2 \<longleftrightarrow> unat (stamp i1) = unat (stamp i2)"
    using st stamp_small(2) [OF tick1 assms(4)] stamp_small(2) [of i2] small2
    by (simp add: g1(2) g2(2) uuid_text_inj uuid_fields_inj word_unat_eq_iff unsigned_take_bit_eq take_bit_nat_eq_self)
  have u1: "unat (id_tick i1) \<le> 10" using tick1 by (simp add: UUIDS_PER_TICK_def word_le_nat_alt)
  have full: "id_tick i1 = UUIDS_PER_TICK \<longleftrightarrow> unat (id_tick i1) = 10" by (simp add: UUIDS_PER_TICK_def word_unat_eq_iff)
  have s2: "unat (stamp i2) = unat (id_last i2) + unat (id_tick i2)" using st small2 by (intro stamp_small) auto
  from st have "id_last i2 = id_last i1 \<and> id_tick i2 = id_tick i1 + 1 \<and> id_tick i1 < UUIDS_PER_TICK \<or>
     id_last i2 \<noteq> id_last i1 \<and> id_tick i2 = 0 \<and> id_last i2 \<in> get_system_time ` set clock1" by blast
  then show ?thesis
  proof
    assume same: "id_last i2 = id_last i1 \<and> id_tick i2 = id_tick i1 + 1 \<and> id_tick i1 < UUIDS_PER_TICK"
    then have "unat (id_tick i2) = unat (id_tick i1) + 1" using u1 by (simp add: unat_plus_small)
    then show ?thesis using same eq s2 stamp_small(1) [OF tick1 assms(4)] by auto
  next
    assume later: "id_last i2 \<noteq> id_last i1 \<and> id_tick i2 = 0 \<and> id_last i2 \<in> get_system_time ` set clock1"
    then obtain k where k: "unat (id_last i2) = unat (id_last i1) + 10 * k" using assms(5) by auto
    have "k \<noteq> 0" using k later by (auto simp: word_unat_eq_iff)
    then show ?thesis using later eq s2 stamp_small(1) [OF tick1 assms(4)] k u1 full by auto
  qed
qed

theorem consecutive_identifiers_witness:
  "\<exists>txt i1 i2. prelude_ident_generate \<lparr>id_tick = 9, id_last = get_system_time (5, 1), id_clockseq = 7\<rparr> [(5, 1), (5, 2)] =
      Some (txt, i1, [(5, 2)]) \<and>
    prelude_ident_generate i1 [(5, 2)] = Some (txt, i2, [])"
proof -
  let ?i = "\<lparr>id_tick = 9, id_last = get_system_time (5, 1), id_clockseq = 7\<rparr>"
  obtain t1 i1 where g1: "prelude_ident_generate ?i [(5, 1), (5, 2)] = Some (t1, i1, [(5, 2)])"
    "i1 = ?i\<lparr>id_tick := 10\<rparr>"
    by (simp add: prelude_ident_generate_def uuidgen_def get_system_time_def UUID_TIMEOFFSET_def UUIDS_PER_TICK_def Let_def)
  obtain t2 i2 where g2: "prelude_ident_generate i1 [(5, 2)] = Some (t2, i2, [])" "id_last i2 = get_system_time (5, 2)"
    by (simp add: prelude_ident_generate_def uuidgen_def get_system_time_def UUID_TIMEOFFSET_def UUIDS_PER_TICK_def Let_def g1(2))
  have "t1 = t2"
    using consecutive_identifiers [OF g1(1) g2(1)] g2(2)
    by (simp add: g1(2) get_system_time_def UUID_TIMEOFFSET_def UUIDS_PER_TICK_def)
  then show ?thesis using g1(1) g2(1) by blast
qed

text \<open>
  When the clock goes back, identifiers repeat: the clock sequence does not change, since the new time
  stamp is compared with the reading it was just built from.
\<close>

theorem clock_step_back_repeats:
  assumes "get_system_time a \<noteq> get_system_time b" "id_last i \<noteq> get_system_time a"
  shows "\<exists>txt other i1 i2 i3. prelude_ident_generate i [a, b, a] = Some (txt, i1, [b, a]) \<and>
    prelude_ident_generate i1 [b, a] = Some (other, i2, [a]) \<and>
    prelude_ident_generate i2 [a] = Some (txt, i3, []) \<and> id_clockseq i3 = id_clockseq i"
  using assms by (simp add: prelude_ident_generate_def uuidgen_def Let_def)

theorem clock_step_back_repeats_witness:
  "\<exists>txt other i1 i2 i3. prelude_ident_generate \<lparr>id_tick = 0, id_last = 0, id_clockseq = 7\<rparr> [(5, 1), (5, 2), (5, 1)] =
      Some (txt, i1, [(5, 2), (5, 1)]) \<and>
    prelude_ident_generate i1 [(5, 2), (5, 1)] = Some (other, i2, [(5, 1)]) \<and>
    prelude_ident_generate i2 [(5, 1)] = Some (txt, i3, []) \<and> id_clockseq i3 = 7"
  using clock_step_back_repeats [of "(5, 1)" "(5, 2)" "\<lparr>id_tick = 0, id_last = 0, id_clockseq = 7\<rparr>"]
  by (simp add: get_system_time_def UUID_TIMEOFFSET_def)

end
