(* ===== verification/Unicode.thy ===== *)
theory Unicode
  imports PError
begin

text \<open>
  Unicode escapes (\<open>prelude_unicode_to_string\<close> and its helpers in \<open>src/common.c\<close>). An \<open>int\<close> is a 32 bit word whose
  top bit is its sign; the text is a block of memory, and \<open>None\<close> a read outside of it. The result gives
  the return value and the bytes appended to the output string, one at a time by \<open>prelude_string_ncat\<close>.
\<close>

section \<open>Conversion\<close>

abbreviation negative :: "u32 \<Rightarrow> bool" where
  "negative w \<equiv> bit w 31"

text \<open>The value of \<open>prelude_error_verbose (PRELUDE_ERROR_GENERIC, ...)\<close> in this file (source 0).\<close>

definition generic_error :: u32 where
  "generic_error = word_of_int (prelude_error_verbose_make_v 0 0 (error_code_value PRELUDE_ERROR_GENERIC))"

definition hexval :: "byte \<Rightarrow> u32" where
  "hexval c = (if 48 \<le> c \<and> c \<le> 57 then ucast (c - 48)
     else if 97 \<le> c \<and> c \<le> 102 then ucast (c - 97 + 10)
     else if 65 \<le> c \<and> c \<le> 70 then ucast (c - 65 + 10)
     else generic_error)"

fun or_digits :: "u32 \<Rightarrow> nat \<Rightarrow> byte list \<Rightarrow> u32" where
  "or_digits ret shift [] = ret"
| "or_digits ret shift (c # cs) = or_digits (ret OR push_bit shift (hexval c)) (shift - 4) cs"

definition unescape_unicode :: "byte list \<Rightarrow> nat \<Rightarrow> nat \<Rightarrow> nat \<Rightarrow> u32 option" where
  "unescape_unicode mem p len bits =
     (if len < bits div 4 then Some generic_error
      else map_option (or_digits 0 (bits - 4)) (mem_read mem p (bits div 4)))"

text \<open>The returned flag is the \<open>int\<close> of the source: 0 for a surrogate, 1 for a character, negative for an error.\<close>

definition unicode_to_utf8 :: "u32 \<Rightarrow> u32 \<times> byte list" where
  "unicode_to_utf8 codepoint =
     (if codepoint < 0x80 then (1, [ucast codepoint])
      else if codepoint < 0x800
      then (1, [ucast (192 + codepoint div 64), ucast (128 + codepoint mod 64)])
      else if codepoint - 0xd800 < 0x800 then (0, [])
      else if codepoint < 0x10000
      then (1, [ucast (224 + codepoint div 4096), ucast (128 + codepoint div 64 mod 64), ucast (128 + codepoint mod 64)])
      else if codepoint < 0x110000
      then (1, [ucast (240 + codepoint div 262144), ucast (128 + codepoint div 4096 mod 64),
                ucast (128 + codepoint div 64 mod 64), ucast (128 + codepoint mod 64)])
      else (generic_error, []))"

abbreviation backslash :: byte where "backslash \<equiv> 92"

definition prelude_unicode_to_string :: "byte list \<Rightarrow> nat \<Rightarrow> nat \<Rightarrow> (u32 \<times> byte list) option" where
  "prelude_unicode_to_string mem p len =
     Option.bind (mem_read mem p 1) (\<lambda>c0.
     if c0 \<noteq> [backslash] then Some (generic_error, [])
     else Option.bind (mem_read mem (p + 1) 1) (\<lambda>c1.
       let finish = (\<lambda>n codepoint.
         (case unicode_to_utf8 codepoint of (ret, bs) \<Rightarrow> (if negative ret then ret else n, bs)))
       in
       if c1 = [85] then
         map_option (\<lambda>codepoint. if negative codepoint then (codepoint, []) else finish 10 codepoint)
           (unescape_unicode mem (p + 2) (size_sub len 2) 32)
       else if c1 = [117] then
         Option.bind (unescape_unicode mem (p + 2) (size_sub len 2) 16) (\<lambda>codepoint.
           if negative codepoint then Some (codepoint, [])
           else if codepoint AND 0xfc00 = 0xd800 then
             Option.bind (unescape_unicode mem (p + 8) (size_sub len 8) 16) (\<lambda>ret.
               if negative ret then Some (ret, [])
               else Option.bind (mem_read mem (p + 6) 1) (\<lambda>b. Option.bind (mem_read mem (p + 7) 1) (\<lambda>u.
                 if b \<noteq> [backslash] \<and> u \<noteq> [117] then Some (generic_error, [])
                 else Some (finish 12 (0x10000 + push_bit 10 (codepoint - 0xd800) + (ret - 0xdc00))))))
           else Some (finish 6 codepoint))
       else Some (generic_error, [])))"

section \<open>The reference decoder\<close>

text \<open>One character of UTF-8 and the bytes behind it; overlong forms, surrogates and values above 0x10ffff are refused.\<close>

abbreviation continuation :: "byte \<Rightarrow> bool" where
  "continuation b \<equiv> 128 \<le> unat b \<and> unat b < 192"

fun utf8_decode :: "byte list \<Rightarrow> (nat \<times> byte list) option" where
  "utf8_decode [] = None"
| "utf8_decode (a # bs) =
     (if unat a < 128 then Some (unat a, bs)
      else if 192 \<le> unat a \<and> unat a < 224 then
        (case bs of b # r \<Rightarrow> let c = (unat a - 192) * 64 + (unat b - 128) in
           if continuation b \<and> 128 \<le> c then Some (c, r) else None
         | _ \<Rightarrow> None)
      else if 224 \<le> unat a \<and> unat a < 240 then
        (case bs of b # b' # r \<Rightarrow> let c = ((unat a - 224) * 64 + (unat b - 128)) * 64 + (unat b' - 128) in
           if continuation b \<and> continuation b' \<and> 2048 \<le> c \<and> \<not> (55296 \<le> c \<and> c < 57344) then Some (c, r) else None
         | _ \<Rightarrow> None)
      else if 240 \<le> unat a \<and> unat a < 248 then
        (case bs of b # b' # b'' # r \<Rightarrow>
           let c = (((unat a - 240) * 64 + (unat b - 128)) * 64 + (unat b' - 128)) * 64 + (unat b'' - 128) in
           if continuation b \<and> continuation b' \<and> continuation b'' \<and> 65536 \<le> c \<and> c < 1114112 then Some (c, r) else None
         | _ \<Rightarrow> None)
      else None)"

definition scalar_value :: "nat \<Rightarrow> bool" where
  "scalar_value c \<longleftrightarrow> c < 1114112 \<and> \<not> (55296 \<le> c \<and> c < 57344)"

lemma unat_byte_of_u32: "unat (w :: u32) < 256 \<Longrightarrow> unat (ucast w :: byte) = unat w"
  by (simp add: unsigned_ucast_eq take_bit_nat_eq_self)

lemma byte_plus:
  assumes "unat (w :: u32) < 256 - n" "n < 256"
  shows "unat (ucast (of_nat n + w) :: byte) = n + unat w"
proof -
  have "unat (of_nat n :: u32) = n" using assms by (simp add: unat_of_nat_small)
  then have "unat (of_nat n + w) = n + unat w" using assms by (simp add: unat_plus_small)
  then show ?thesis using assms by (simp add: unat_byte_of_u32)
qed

lemmas byte_plus_numeral = byte_plus [of _ "numeral k" for k, simplified]

lemma surrogate_word: "w - 0xd800 < 0x800 \<longleftrightarrow> 55296 \<le> unat w \<and> unat w < 57344" for w :: u32
proof (cases "55296 \<le> unat w")
  case True
  then show ?thesis by (simp add: word_less_nat_alt unat_minus_small) linarith
next
  case False
  then have "unat (w - 0xd800) = 2 ^ 32 + unat w - 55296" by (simp add: unat_sub_if')
  then show ?thesis using False by (simp add: word_less_nat_alt)
qed

text \<open>The encoder is inverted by the decoder, on exactly the scalar values.\<close>

lemma mod_digit: "c div n * n + c mod n = c" for c n :: nat
  by (rule div_mult_mod_eq)

lemma utf8_encode_decode:
  assumes "scalar_value (unat w)"
  shows "\<exists>bs. unicode_to_utf8 w = (1, bs) \<and> utf8_decode (bs @ r) = Some (unat w, r)"
proof -
  let ?c = "unat w"
  have c: "?c < 1114112" "\<not> (55296 \<le> ?c \<and> ?c < 57344)" using assms by (simp_all add: scalar_value_def)
  consider "?c < 128" | "128 \<le> ?c" "?c < 2048" | "2048 \<le> ?c" "?c < 65536" | "65536 \<le> ?c" by linarith
  then show ?thesis
  proof cases
    case 1
    then show ?thesis by (simp add: unicode_to_utf8_def word_less_nat_alt unat_byte_of_u32)
  next
    case 2
    have b: "unat (ucast (192 + w div 64) :: byte) = 192 + ?c div 64" "unat (ucast (128 + w mod 64) :: byte) = 128 + ?c mod 64"
      using 2 by (simp_all add: byte_plus_numeral unat_div unat_mod)
    then show ?thesis
      using 2 mod_digit [of ?c 64] by (simp add: unicode_to_utf8_def word_less_nat_alt Let_def)
  next
    case 3
    define q where "q = ?c div 4096"
    have q: "q < 16" "q * 64 + ?c div 64 mod 64 = ?c div 64"
      using 3 mod_digit [of "?c div 64" 64] by (simp_all add: q_def div_mult2_eq [symmetric])
    have b: "unat (ucast (224 + w div 4096) :: byte) = 224 + q"
      "unat (ucast (128 + w div 64 mod 64) :: byte) = 128 + ?c div 64 mod 64" "unat (ucast (128 + w mod 64) :: byte) = 128 + ?c mod 64"
      using 3 by (simp_all add: byte_plus_numeral unat_div unat_mod q_def)
    show ?thesis
      using 3 c q b mod_digit [of ?c 64]
      by (simp add: unicode_to_utf8_def word_less_nat_alt [of w] surrogate_word Let_def) auto
  next
    case 4
    define q p where "q = ?c div 262144" and "p = ?c div 4096"
    have q: "q < 5" "q * 64 + p mod 64 = p" "p * 64 + ?c div 64 mod 64 = ?c div 64"
      using c mod_digit [of "?c div 64" 64] mod_digit [of p 64] by (simp_all add: q_def p_def div_mult2_eq [symmetric])
    have b: "unat (ucast (240 + w div 262144) :: byte) = 240 + q" "unat (ucast (128 + w div 4096 mod 64) :: byte) = 128 + p mod 64"
      "unat (ucast (128 + w div 64 mod 64) :: byte) = 128 + ?c div 64 mod 64" "unat (ucast (128 + w mod 64) :: byte) = 128 + ?c mod 64"
      using 4 c by (simp_all add: byte_plus_numeral unat_div unat_mod q_def p_def)
    have "4096 * p + ?c div 64 mod 64 * 64 + ?c mod 64 = ?c" using q(3) mod_digit [of ?c 64] by linarith
    then show ?thesis
      using 4 c q(1,2) b
      by (simp add: unicode_to_utf8_def word_less_nat_alt [of w] surrogate_word Let_def)
  qed
qed

section \<open>Escaped characters\<close>

definition hex_byte :: "u32 \<Rightarrow> byte" where
  "hex_byte d = (if d < 10 then ucast (48 + d) else ucast (55 + d))"

definition hex4 :: "u32 \<Rightarrow> byte list" where
  "hex4 w = map (\<lambda>k. hex_byte (take_bit 4 (drop_bit k w))) [12, 8, 4, 0]"

text \<open>The escape of a character as JSON writes it, with a pair of surrogates above 0xffff.\<close>

definition unicode_escape :: "u32 \<Rightarrow> byte list" where
  "unicode_escape c =
     (if c < 0x10000 then [backslash, 117] @ hex4 c
      else [backslash, 117] @ hex4 (0xd800 + drop_bit 10 (c - 0x10000)) @
           [backslash, 117] @ hex4 (0xdc00 + take_bit 10 (c - 0x10000)))"

lemma length_hex4 [simp]: "length (hex4 w) = 4"
  by (simp add: hex4_def)

lemma hexval_hex_byte:
  assumes "unat d < 16"
  shows "hexval (hex_byte d) = d"
proof -
  obtain k where k: "d = of_nat k" "k < 16" using assms by (metis unat_of_nat_small word_unat_eq_iff unsigned_less)
  then have "k = 0 \<or> k = 1 \<or> k = 2 \<or> k = 3 \<or> k = 4 \<or> k = 5 \<or> k = 6 \<or> k = 7 \<or> k = 8 \<or> k = 9 \<or> k = 10 \<or>
    k = 11 \<or> k = 12 \<or> k = 13 \<or> k = 14 \<or> k = 15" by arith
  then show ?thesis unfolding k(1) by (elim disjE) (simp_all add: hexval_def hex_byte_def)
qed

lemma or_digits_hex4:
  assumes "unat w < 65536"
  shows "or_digits 0 12 (hex4 w) = w"
proof -
  have d: "hexval (hex_byte (take_bit 4 v)) = take_bit 4 v" for v :: u32
  proof (rule hexval_hex_byte)
    have "unat (take_bit 4 v) = take_bit 4 (unat v)" by (rule unsigned_take_bit_eq)
    then show "unat (take_bit 4 v) < 16" by (simp add: take_bit_eq_mod)
  qed
  have "take_bit 16 w = w"
    using assms by (simp add: word_unat_eq_iff unsigned_take_bit_eq take_bit_nat_eq_self)
  then have hi: "bit w n \<Longrightarrow> n < 16" for n by (metis bit_take_bit_iff)
  have "or_digits 0 12 (hex4 w) = push_bit 12 (take_bit 4 (drop_bit 12 w)) OR push_bit 8 (take_bit 4 (drop_bit 8 w)) OR
      push_bit 4 (take_bit 4 (drop_bit 4 w)) OR take_bit 4 w"
    by (simp add: hex4_def d or.assoc)
  also have "\<dots> = w"
  proof (rule bit_word_eqI)
    fix n assume "n < LENGTH(32)"
    consider "n < 4" | "4 \<le> n" "n < 8" | "8 \<le> n" "n < 12" | "12 \<le> n" "n < 16" | "16 \<le> n" by linarith
    then show "bit (push_bit 12 (take_bit 4 (drop_bit 12 w)) OR push_bit 8 (take_bit 4 (drop_bit 8 w)) OR
      push_bit 4 (take_bit 4 (drop_bit 4 w)) OR take_bit 4 w) n = bit w n"
      using hi [of n] by cases (auto simp: bit_simps)
  qed
  finally show ?thesis .
qed

lemma unescape_hex4:
  assumes "unat w < 65536" "4 \<le> len" "take 4 (drop p mem) = hex4 w"
  shows "unescape_unicode mem p len 16 = Some w"
proof -
  have "length (take 4 (drop p mem)) = 4" using assms(3) by simp
  then have "p + 4 \<le> length mem" by (auto split: if_splits)
  then show ?thesis using assms or_digits_hex4 by (simp add: unescape_unicode_def mem_read_def)
qed

lemma not_negative: "unat w < 2 ^ 31 \<Longrightarrow> \<not> negative w"
proof
  assume "unat w < 2 ^ 31" "negative w"
  then have "take_bit 31 w = w" by (simp add: word_unat_eq_iff unsigned_take_bit_eq take_bit_nat_eq_self)
  then show False using \<open>negative w\<close> by (metis bit_take_bit_iff less_irrefl)
qed

text \<open>Whether a 16 bit value is a high surrogate.\<close>

lemma high_surrogate:
  fixes w :: u32
  assumes "unat w < 65536"
  shows "w AND 0xfc00 = 0xd800 \<longleftrightarrow> 55296 \<le> unat w \<and> unat w < 56320"
proof -
  have m: "(0xfc00 :: u32) = push_bit 10 (mask 6)" by (simp add: mask_eq_exp_minus_1 push_bit_eq_mult)
  have "take_bit 16 w = w" using assms by (simp add: word_unat_eq_iff unsigned_take_bit_eq take_bit_nat_eq_self)
  then have hi: "bit w n \<Longrightarrow> n < 16" for n by (metis bit_take_bit_iff)
  have "w AND 0xfc00 = push_bit 10 (drop_bit 10 w)"
    unfolding m by (rule bit_word_eqI) (auto simp: bit_simps dest: hi)
  moreover have "(0xd800 :: u32) = push_bit 10 54" by simp
  ultimately have "w AND 0xfc00 = 0xd800 \<longleftrightarrow> push_bit 10 (drop_bit 10 w) = (push_bit 10 54 :: u32)" by (simp only:)
  also have "\<dots> \<longleftrightarrow> drop_bit 10 w = 54"
  proof
    assume eq: "push_bit 10 (drop_bit 10 w) = (push_bit 10 54 :: u32)"
    have "drop_bit 10 (push_bit 10 (drop_bit 10 w)) = drop_bit 10 w"
      by (rule bit_word_eqI) (auto simp: bit_simps dest: hi)
    then show "drop_bit 10 w = 54" by (simp only: eq) simp
  qed simp
  also have "\<dots> \<longleftrightarrow> unat w div 1024 = 54"
  proof -
    have "unat (drop_bit 10 w) = drop_bit 10 (unat w)" by (rule unat_drop_bit_eq)
    then show ?thesis by (simp add: word_unat_eq_iff drop_bit_eq_div unat_div)
  qed
  also have "\<dots> \<longleftrightarrow> 55296 \<le> unat w \<and> unat w < 56320" by auto
  finally show ?thesis .
qed

text \<open>The two halves of a character above 0xffff.\<close>

lemma surrogate_pair:
  fixes c :: u32
  defines "d \<equiv> c - 0x10000"
  assumes "65536 \<le> unat c" "unat c < 1114112"
  shows "unat (0xd800 + drop_bit 10 d) < 65536" "unat (0xdc00 + take_bit 10 d) < 65536"
    "(0xd800 + drop_bit 10 d) AND 0xfc00 = 0xd800"
    "\<not> negative (0xd800 + drop_bit 10 d)" "\<not> negative (0xdc00 + take_bit 10 d)"
    "0x10000 + push_bit 10 (0xd800 + drop_bit 10 d - 0xd800) + (0xdc00 + take_bit 10 d - 0xdc00) = c"
proof -
  have d: "unat d = unat c - 65536" using assms(2) by (simp add: d_def unat_minus_small)
  have hi: "unat (0xd800 + drop_bit 10 d) = 55296 + unat d div 1024"
    using d assms(2,3) by (simp add: unat_plus_small unat_drop_bit_eq drop_bit_eq_div unat_div)
  have "unat (take_bit 10 d) = unat d mod 1024" by (simp add: unsigned_take_bit_eq take_bit_eq_mod unat_mod)
  then have lo: "unat (0xdc00 + take_bit 10 d) = 56320 + unat d mod 1024" by (simp add: unat_plus_small)
  show "unat (0xd800 + drop_bit 10 d) < 65536" "unat (0xdc00 + take_bit 10 d) < 65536" using hi lo d assms(2,3) by simp_all
  then show "\<not> negative (0xd800 + drop_bit 10 d)" "\<not> negative (0xdc00 + take_bit 10 d)" by (simp_all add: not_negative)
  show "(0xd800 + drop_bit 10 d) AND 0xfc00 = 0xd800"
    using high_surrogate [of "0xd800 + drop_bit 10 d"] hi d assms(2,3) by simp
  have "push_bit 10 (0xd800 + drop_bit 10 d - 0xd800) + (0xdc00 + take_bit 10 d - 0xdc00) = push_bit 10 (drop_bit 10 d) + take_bit 10 d"
    by simp
  also have "\<dots> = d" using bits_ident [of 10 d] by simp
  finally show "0x10000 + push_bit 10 (0xd800 + drop_bit 10 d - 0xd800) + (0xdc00 + take_bit 10 d - 0xdc00) = c"
    by (simp add: d_def add.assoc)
qed

text \<open>
  A character that is escaped as JSON prescribes, anywhere in a text, is converted to its UTF-8 encoding: the
  standard decoder gives the character back, and the return value is the length of the escape, with a
  surrogate pair for characters above 0xffff.
\<close>

theorem unicode_escape_converts:
  assumes "scalar_value (unat c)" "length (unicode_escape c) \<le> len" "len < 2 ^ 64"
  shows "\<exists>bs. prelude_unicode_to_string (pre @ unicode_escape c @ post) (length pre) len =
      Some (of_nat (length (unicode_escape c)), bs) \<and> utf8_decode bs = Some (unat c, [])"
proof -
  let ?mem = "pre @ unicode_escape c @ post" and ?p = "length pre"
  obtain bs where bs: "unicode_to_utf8 c = (1, bs)" "utf8_decode bs = Some (unat c, [])"
    using utf8_encode_decode [OF assms(1), of "[]"] by auto
  have r: "mem_read ?mem ?p 1 = Some [backslash]" "mem_read ?mem (?p + 1) 1 = Some [117]"
    by (auto simp: unicode_escape_def mem_read_def)
  show ?thesis
  proof (cases "c < 0x10000")
    case True
    then have small: "unat c < 65536" by (simp add: word_less_nat_alt)
    have "unescape_unicode ?mem (?p + 2) (size_sub len 2) 16 = Some c"
      using assms(2,3) True small by (intro unescape_hex4) (simp_all add: unicode_escape_def)
    moreover have "c AND 0xfc00 \<noteq> 0xd800"
      using high_surrogate [OF small] assms(1) by (auto simp: scalar_value_def)
    ultimately show ?thesis
      using r bs small True not_negative [of c]
      by (simp add: prelude_unicode_to_string_def unicode_escape_def Let_def)
  next
    case False
    define d where "d = c - 0x10000"
    have big: "65536 \<le> unat c" "unat c < 1114112"
      using False assms(1) by (simp_all add: word_less_nat_alt scalar_value_def)
    note pair = surrogate_pair [OF big, folded d_def]
    have e: "unicode_escape c = [backslash, 117] @ hex4 (0xd800 + drop_bit 10 d) @ [backslash, 117] @ hex4 (0xdc00 + take_bit 10 d)"
      using False by (simp add: unicode_escape_def d_def)
    have u1: "unescape_unicode ?mem (?p + 2) (size_sub len 2) 16 = Some (0xd800 + drop_bit 10 d)"
      using assms(2,3) pair(1) by (intro unescape_hex4) (simp_all add: e)
    have u2: "unescape_unicode ?mem (?p + 8) (size_sub len 8) 16 = Some (0xdc00 + take_bit 10 d)"
      using assms(2,3) pair(2) by (intro unescape_hex4) (simp_all add: e)
    have r2: "mem_read ?mem (?p + 6) 1 = Some [backslash]" "mem_read ?mem (?p + 7) 1 = Some [117]"
      by (simp_all add: e mem_read_def)
    have l: "length (unicode_escape c) = 12" by (simp add: e)
    show ?thesis
      unfolding prelude_unicode_to_string_def Let_def l
      using r r2 u1 u2 pair(3-6) bs by simp
  qed
qed

theorem unicode_escape_converts_witness:
  "\<exists>bs. prelude_unicode_to_string ([65] @ unicode_escape 0x1F600 @ [66]) 1 13 = Some (12, bs) \<and> utf8_decode bs = Some (128512, [])"
proof -
  have "length (unicode_escape 0x1F600) = 12" by (simp add: unicode_escape_def)
  then show ?thesis
    using unicode_escape_converts [of "0x1F600" 13 "[65]" "[66]"] by (simp add: scalar_value_def)
qed

end
