(* ===== verification/JsonString.thy ===== *)
theory JsonString
  imports Unicode PIo
begin

text \<open>
  Strings in JSON messages: \<open>conv_string\<close> of \<open>src/idmef-message-print-json.c\<close>, which writes them, and
  \<open>unescape_string\<close> of \<open>src/idmef-message-read-json.c\<close>, which reads them back. The writer is any output
  object; the reader works on the text of the whole message, in which \<open>p\<close> is its position and \<open>e\<close> the end
  of the string, and collects the bytes that \<open>prelude_string_ncat\<close> appends.
\<close>

section \<open>Writing\<close>

definition hex_X :: "byte \<Rightarrow> byte" where
  "hex_X d = (if d < 10 then 48 + d else 55 + d)"

text \<open>The pieces that are written for one byte, each by its own call of \<open>prelude_io_write\<close>.\<close>

definition conv_char :: "byte \<Rightarrow> byte list list" where
  "conv_char c =
     (if c = backslash \<or> c = 34 \<or> c = 47 then [[backslash], [c]]
      else if c = 8 then [[backslash, 98]]
      else if c = 9 then [[backslash, 116]]
      else if c = 10 then [[backslash, 110]]
      else if c = 12 then [[backslash, 102]]
      else if c = 13 then [[backslash, 114]]
      else if 0x20 \<le> c then [[c]]
      else [[backslash, 117, 48, 48, hex_X (c div 16), hex_X (c mod 16)]])"

text \<open>Writes in order, up to the first error.\<close>

fun write_pieces :: "('io \<Rightarrow> byte list \<Rightarrow> (nat result \<times> 'io) option) \<Rightarrow> byte list list \<Rightarrow> 'io \<Rightarrow> (unit result \<times> 'io) option" where
  "write_pieces wr [] fd = Some (Inr (), fd)"
| "write_pieces wr (bs # ps) fd = Option.bind (wr fd bs) (\<lambda>(r, fd').
     case r of Inl e \<Rightarrow> Some (Inl e, fd') | Inr _ \<Rightarrow> write_pieces wr ps fd')"

definition conv_string ::
  "('io \<Rightarrow> byte list \<Rightarrow> (nat result \<times> 'io) option) \<Rightarrow> byte list \<Rightarrow> 'io \<Rightarrow> (nat result \<times> 'io) option" where
  "conv_string wr s fd = Option.bind (write_pieces wr ([[34]] @ concat (map conv_char s)) fd) (\<lambda>(r, fd').
     case r of Inl e \<Rightarrow> Some (Inl e, fd') | Inr _ \<Rightarrow> wr fd' [34])"

section \<open>Reading\<close>

fun simple_escape :: "byte \<Rightarrow> byte" where
  "simple_escape c =
     (if c = 98 then 8 else if c = 116 then 9 else if c = 110 then 10 else if c = 102 then 12
      else if c = 114 then 13 else c)"

text \<open>
  On an escape the position moves from the backslash to the byte behind it. A Unicode escape is then converted
  from two bytes before that position, as the source does, which is one byte before the backslash.
\<close>

function unescape_string :: "byte list \<Rightarrow> nat \<Rightarrow> nat \<Rightarrow> byte list \<Rightarrow> (u32 \<times> byte list) option" where
  "unescape_string mem p e out =
     (if e \<le> p then Some (0, out)
      else Option.bind (mem_read mem p 1) (\<lambda>c.
        if c \<noteq> [backslash] then unescape_string mem (p + 1) e (out @ c)
        else Option.bind (mem_read mem (p + 1) 1) (\<lambda>c'.
          if c' = [117] then
            (if p = 0 then None
             else Option.bind (prelude_unicode_to_string mem (p - 1) (e - (p - 1))) (\<lambda>(ret, bs).
               if negative ret then Some (ret, out)
               else unescape_string mem (p + 1 + unat ret) e (out @ bs)))
          else unescape_string mem (p + 2) e (out @ map simple_escape c'))))"
  by pat_completeness auto
termination
  by (relation "measure (\<lambda>(mem, p, e, out). e - p)") auto

declare unescape_string.simps [simp del]

section \<open>What the writer writes\<close>

definition escaped :: "byte list \<Rightarrow> byte list" where
  "escaped s = concat (concat (map conv_char s))"

lemma escaped_simps [simp]: "escaped [] = []" "escaped (c # s) = concat (conv_char c) @ escaped s"
  by (simp_all add: escaped_def)

lemma conv_char_pieces: "bs \<in> set (conv_char c) \<Longrightarrow> bs \<noteq> []"
  by (auto simp: conv_char_def split: if_splits)

context byte_sink
begin

lemma write_pieces_all:
  assumes "wok io" "\<forall>bs \<in> set ps. bs \<noteq> []" "length (concat ps) < room io"
  shows "\<exists>io'. write_pieces wr ps io = Some (Inr (), io') \<and> wok io' \<and> written io' = written io @ concat ps \<and>
    room io' = room io - length (concat ps)"
  using assms
proof (induction ps arbitrary: io)
  case (Cons bs ps)
  obtain io1 where 1: "wr io bs = Some (Inr (length bs), io1)" "wok io1" "written io1 = written io @ bs" "room io1 = room io - length bs"
    using wr_all [of io bs] Cons.prems by auto
  then show ?case using Cons.IH [of io1] Cons.prems by auto
qed simp

lemma conv_string_written:
  assumes "wok io" "length (escaped s) + 2 < room io"
  shows "\<exists>io'. conv_string wr s io = Some (Inr 1, io') \<and> wok io' \<and> written io' = written io @ [34] @ escaped s @ [34]"
proof -
  let ?ps = "[[34]] @ concat (map conv_char s)"
  obtain io1 where 1: "write_pieces wr ?ps io = Some (Inr (), io1)" "wok io1" "written io1 = written io @ [34] @ escaped s"
      "room io1 = room io - length (concat ?ps)"
    using write_pieces_all [of io ?ps] assms by (auto simp: escaped_def dest: conv_char_pieces)
  moreover have "1 < room io1" using 1(4) assms(2) by (simp add: escaped_def)
  then obtain io2 where "wr io1 [34] = Some (Inr 1, io2)" "wok io2" "written io2 = written io1 @ [34]"
    using wr_all [of io1 "[34]"] 1(2) by auto
  ultimately show ?thesis by (simp add: conv_string_def)
qed

end

section \<open>Reading back\<close>

text \<open>The bytes that the writer does not write as a Unicode escape.\<close>

definition json_plain :: "byte \<Rightarrow> bool" where
  "json_plain c \<longleftrightarrow> 0x20 \<le> c \<or> c \<in> {8, 9, 10, 12, 13}"

lemma unescape_end: "unescape_string mem p p out = Some (0, out)"
  by (simp add: unescape_string.simps)

lemma conv_char_cases:
  assumes "json_plain c"
  obtains (plain) "concat (conv_char c) = [c]" "c \<noteq> backslash"
  | (escape) x where "concat (conv_char c) = [backslash, x]" "x \<noteq> 117" "simple_escape x = c"
proof -
  have "concat (conv_char c) = [c] \<and> c \<noteq> backslash \<or>
      (\<exists>x. concat (conv_char c) = [backslash, x] \<and> x \<noteq> 117 \<and> simple_escape x = c)"
    using assms by (auto simp: json_plain_def conv_char_def)
  then show ?thesis using plain escape by blast
qed

lemma unescape_plain:
  assumes "json_plain c"
  shows "unescape_string (pre @ concat (conv_char c) @ r) (length pre) e out =
    (if e \<le> length pre then Some (0, out)
     else unescape_string (pre @ concat (conv_char c) @ r) (length pre + length (concat (conv_char c))) e (out @ [c]))"
  using assms
proof (cases rule: conv_char_cases)
  case plain
  then show ?thesis by (subst unescape_string.simps) (simp add: mem_read_def)
next
  case (escape x)
  then show ?thesis by (subst unescape_string.simps) (simp add: mem_read_def)
qed

lemma negative_generic_error [simp]: "negative generic_error"
  by code_simp

text \<open>Where a control byte is written as a Unicode escape, the conversion starts one byte early and fails.\<close>

lemma unescape_control:
  assumes "\<not> json_plain c" "pre \<noteq> []" "length pre < e"
  shows "unescape_string (pre @ concat (conv_char c) @ r) (length pre) e out = Some (generic_error, out)"
proof -
  obtain q b where pre: "pre = q @ [b]" using assms(2) by (metis rev_exhaust)
  have "c \<notin> {backslash, 34, 47}" using assms(1) by (auto simp: json_plain_def)
  then obtain h where h: "concat (conv_char c) = [backslash, 117] @ h"
    using assms(1) by (auto simp: json_plain_def conv_char_def that)
  have "prelude_unicode_to_string (pre @ concat (conv_char c) @ r) (length pre - 1) n = Some (generic_error, [])" for n
    by (simp add: prelude_unicode_to_string_def pre h mem_read_def Let_def)
  then show ?thesis using assms(2,3) h by (subst unescape_string.simps) (simp add: mem_read_def)
qed

lemma unescape_escaped:
  assumes "pre \<noteq> []"
  shows "unescape_string (pre @ escaped s @ r) (length pre) (length pre + length (escaped s)) out =
    Some (if list_all json_plain s then 0 else generic_error, out @ takeWhile json_plain s)"
  using assms
proof (induction s arbitrary: pre out)
  case (Cons c s)
  have ne: "concat (conv_char c) \<noteq> []" by (simp add: conv_char_def)
  show ?case
  proof (cases "json_plain c")
    case True
    then show ?thesis
      using unescape_plain [OF True, of pre "escaped s @ r"] Cons.IH [of "pre @ concat (conv_char c)" "out @ [c]"] ne Cons.prems
      by (simp add: add.assoc)
  next
    case False
    then show ?thesis using unescape_control [OF False Cons.prems, of _ "escaped s @ r"] ne by simp
  qed
qed (simp add: unescape_end)

text \<open>
  C37: A string that is written to a buffer as JSON is read back: \<open>conv_string\<close> appends the string in quotes, and
  \<open>unescape_string\<close> on the bytes between the quotes, wherever they stand in a message, returns the original
  string, provided it holds no control byte other than the five with an escape of their own. At any other
  control byte the reader fails with the generic error, as it looks for the Unicode escape one byte too early.
\<close>

theorem json_string_roundtrip:
  assumes "buffer_ok io" "6 * length s + 2 < buffer_room io"
  shows "\<exists>io' t. conv_string (buffer_write (\<lambda>_. True)) s io = Some (Inr 1, io') \<and>
    buffer_unread io' = buffer_unread io @ [34] @ t @ [34] \<and>
    unescape_string (pre @ [34] @ t @ [34] @ post) (length pre + 1) (length pre + 1 + length t) [] =
      Some (if list_all json_plain s then (0, s) else (generic_error, takeWhile json_plain s))"
proof -
  have "length (escaped s) \<le> 6 * length s"
    by (induction s) (auto simp: conv_char_def)
  then obtain io' where io': "conv_string (buffer_write (\<lambda>_. True)) s io = Some (Inr 1, io')"
      "buffer_unread io' = buffer_unread io @ [34] @ escaped s @ [34]"
    using buf_snk.conv_string_written [of io s] assms by auto
  have "takeWhile json_plain s = s" if "list_all json_plain s"
    using that by (simp add: list_all_iff takeWhile_eq_all_conv)
  then show ?thesis
    using io' unescape_escaped [of "pre @ [34]" s "[34] @ post" "[]"] by (intro exI conjI) auto
qed

theorem json_string_roundtrip_witness:
  "\<exists>io' t. conv_string (buffer_write (\<lambda>_. True)) [97, 10, 34] (prelude_io_set_buffer_io (prelude_io_new ())) = Some (Inr 1, io') \<and>
    buffer_unread io' = [34] @ t @ [34] \<and>
    unescape_string ([123] @ [34] @ t @ [34] @ [125]) 2 (2 + length t) [] = Some (0, [97, 10, 34])"
  using json_string_roundtrip [of "prelude_io_set_buffer_io (prelude_io_new ())" "[97, 10, 34]" "[123]" "[125]"]
  by (simp add: buffer_new_ok json_plain_def) (simp add: numeral_2_eq_2)

end
