(* ===== verification/Ntp.thy ===== *)
theory Ntp
  imports CText
begin

text \<open>
  Conversion between microseconds and the fractions of NTP time stamps (\<open>src/ntp.c\<close>, \<open>src/include/ntp.h\<close>). The
  tables are those of the source; a \<open>long\<close> is an \<open>int\<close>, as no sum of table entries leaves its range.
\<close>

section \<open>Tables\<close>

definition ustotslo :: "int list" where
  "ustotslo = [
     0x0, 0x10c7, 0x218e, 0x3255, 0x431c, 0x53e3, 0x64aa, 0x7571,
     0x8638, 0x96ff, 0xa7c6, 0xb88d, 0xc954, 0xda1b, 0xeae2, 0xfba9,
     0x10c6f, 0x11d36, 0x12dfd, 0x13ec4, 0x14f8b, 0x16052, 0x17119, 0x181e0,
     0x192a7, 0x1a36e, 0x1b435, 0x1c4fc, 0x1d5c3, 0x1e68a, 0x1f751, 0x20818,
     0x218df, 0x229a6, 0x23a6d, 0x24b34, 0x25bfb, 0x26cc2, 0x27d89, 0x28e50,
     0x29f17, 0x2afde, 0x2c0a5, 0x2d16c, 0x2e233, 0x2f2fa, 0x303c0, 0x31487,
     0x3254e, 0x33615, 0x346dc, 0x357a3, 0x3686a, 0x37931, 0x389f8, 0x39abf,
     0x3ab86, 0x3bc4d, 0x3cd14, 0x3dddb, 0x3eea2, 0x3ff69, 0x41030, 0x420f7,
     0x431be, 0x44285, 0x4534c, 0x46413, 0x474da, 0x485a1, 0x49668, 0x4a72f,
     0x4b7f6, 0x4c8bd, 0x4d984, 0x4ea4b, 0x4fb12, 0x50bd8, 0x51c9f, 0x52d66,
     0x53e2d, 0x54ef4, 0x55fbb, 0x57082, 0x58149, 0x59210, 0x5a2d7, 0x5b39e,
     0x5c465, 0x5d52c, 0x5e5f3, 0x5f6ba, 0x60781, 0x61848, 0x6290f, 0x639d6,
     0x64a9d, 0x65b64, 0x66c2b, 0x67cf2, 0x68db9, 0x69e80, 0x6af47, 0x6c00e,
     0x6d0d5, 0x6e19c, 0x6f263, 0x70329, 0x713f0, 0x724b7, 0x7357e, 0x74645,
     0x7570c, 0x767d3, 0x7789a, 0x78961, 0x79a28, 0x7aaef, 0x7bbb6, 0x7cc7d,
     0x7dd44, 0x7ee0b, 0x7fed2, 0x80f99, 0x82060, 0x83127, 0x841ee, 0x852b5,
     0x8637c, 0x87443, 0x8850a, 0x895d1, 0x8a698, 0x8b75f, 0x8c826, 0x8d8ed,
     0x8e9b4, 0x8fa7b, 0x90b41, 0x91c08, 0x92ccf, 0x93d96, 0x94e5d, 0x95f24,
     0x96feb, 0x980b2, 0x99179, 0x9a240, 0x9b307, 0x9c3ce, 0x9d495, 0x9e55c,
     0x9f623, 0xa06ea, 0xa17b1, 0xa2878, 0xa393f, 0xa4a06, 0xa5acd, 0xa6b94,
     0xa7c5b, 0xa8d22, 0xa9de9, 0xaaeb0, 0xabf77, 0xad03e, 0xae105, 0xaf1cc,
     0xb0292, 0xb1359, 0xb2420, 0xb34e7, 0xb45ae, 0xb5675, 0xb673c, 0xb7803,
     0xb88ca, 0xb9991, 0xbaa58, 0xbbb1f, 0xbcbe6, 0xbdcad, 0xbed74, 0xbfe3b,
     0xc0f02, 0xc1fc9, 0xc3090, 0xc4157, 0xc521e, 0xc62e5, 0xc73ac, 0xc8473,
     0xc953a, 0xca601, 0xcb6c8, 0xcc78f, 0xcd856, 0xce91d, 0xcf9e4, 0xd0aaa,
     0xd1b71, 0xd2c38, 0xd3cff, 0xd4dc6, 0xd5e8d, 0xd6f54, 0xd801b, 0xd90e2,
     0xda1a9, 0xdb270, 0xdc337, 0xdd3fe, 0xde4c5, 0xdf58c, 0xe0653, 0xe171a,
     0xe27e1, 0xe38a8, 0xe496f, 0xe5a36, 0xe6afd, 0xe7bc4, 0xe8c8b, 0xe9d52,
     0xeae19, 0xebee0, 0xecfa7, 0xee06e, 0xef135, 0xf01fb, 0xf12c2, 0xf2389,
     0xf3450, 0xf4517, 0xf55de, 0xf66a5, 0xf776c, 0xf8833, 0xf98fa, 0xfa9c1,
     0xfba88, 0xfcb4f, 0xfdc16, 0xfecdd, 0xffda4, 0x100e6b, 0x101f32, 0x102ff9,
     0x1040c0, 0x105187, 0x10624e, 0x107315, 0x1083dc, 0x1094a3, 0x10a56a, 0x10b631]"

definition ustotsmid :: "int list" where
  "ustotsmid = [
     0x0, 0x10c6f8, 0x218def, 0x3254e7, 0x431bde, 0x53e2d6, 0x64a9ce, 0x7570c5,
     0x8637bd, 0x96feb4, 0xa7c5ac, 0xb88ca4, 0xc9539b, 0xda1a93, 0xeae18a, 0xfba882,
     0x10c6f7a, 0x11d3671, 0x12dfd69, 0x13ec460, 0x14f8b58, 0x1605250, 0x1711947, 0x181e03f,
     0x192a736, 0x1a36e2e, 0x1b43526, 0x1c4fc1d, 0x1d5c315, 0x1e68a0c, 0x1f75104, 0x20817fc,
     0x218def3, 0x229a5eb, 0x23a6ce3, 0x24b33da, 0x25bfad2, 0x26cc1c9, 0x27d88c1, 0x28e4fb9,
     0x29f16b0, 0x2afdda8, 0x2c0a49f, 0x2d16b97, 0x2e2328f, 0x2f2f986, 0x303c07e, 0x3148775,
     0x3254e6d, 0x3361565, 0x346dc5c, 0x357a354, 0x3686a4b, 0x3793143, 0x389f83b, 0x39abf32,
     0x3ab862a, 0x3bc4d21, 0x3cd1419, 0x3dddb11, 0x3eea208, 0x3ff6900, 0x4102ff7, 0x420f6ef,
     0x431bde7, 0x44284de, 0x4534bd6, 0x46412cd, 0x474d9c5, 0x485a0bd, 0x49667b4, 0x4a72eac,
     0x4b7f5a3, 0x4c8bc9b, 0x4d98393, 0x4ea4a8a, 0x4fb1182, 0x50bd879, 0x51c9f71, 0x52d6669,
     0x53e2d60, 0x54ef458, 0x55fbb4f, 0x5708247, 0x581493f, 0x5921036, 0x5a2d72e, 0x5b39e25,
     0x5c4651d, 0x5d52c15, 0x5e5f30c, 0x5f6ba04, 0x60780fb, 0x61847f3, 0x6290eeb, 0x639d5e2,
     0x64a9cda, 0x65b63d2, 0x66c2ac9, 0x67cf1c1, 0x68db8b8, 0x69e7fb0, 0x6af46a8, 0x6c00d9f,
     0x6d0d497, 0x6e19b8e, 0x6f26286, 0x703297e, 0x713f075, 0x724b76d, 0x7357e64, 0x746455c,
     0x7570c54, 0x767d34b, 0x7789a43, 0x789613a, 0x79a2832, 0x7aaef2a, 0x7bbb621, 0x7cc7d19,
     0x7dd4410, 0x7ee0b08, 0x7fed200, 0x80f98f7, 0x8205fef, 0x83126e6, 0x841edde, 0x852b4d6,
     0x8637bcd, 0x87442c5, 0x88509bc, 0x895d0b4, 0x8a697ac, 0x8b75ea3, 0x8c8259b, 0x8d8ec92,
     0x8e9b38a, 0x8fa7a82, 0x90b4179, 0x91c0871, 0x92ccf68, 0x93d9660, 0x94e5d58, 0x95f244f,
     0x96feb47, 0x980b23e, 0x9917936, 0x9a2402e, 0x9b30725, 0x9c3ce1d, 0x9d49514, 0x9e55c0c,
     0x9f62304, 0xa06e9fb, 0xa17b0f3, 0xa2877ea, 0xa393ee2, 0xa4a05da, 0xa5accd1, 0xa6b93c9,
     0xa7c5ac1, 0xa8d21b8, 0xa9de8b0, 0xaaeafa7, 0xabf769f, 0xad03d97, 0xae1048e, 0xaf1cb86,
     0xb02927d, 0xb135975, 0xb24206d, 0xb34e764, 0xb45ae5c, 0xb567553, 0xb673c4b, 0xb780343,
     0xb88ca3a, 0xb999132, 0xbaa5829, 0xbbb1f21, 0xbcbe619, 0xbdcad10, 0xbed7408, 0xbfe3aff,
     0xc0f01f7, 0xc1fc8ef, 0xc308fe6, 0xc4156de, 0xc521dd5, 0xc62e4cd, 0xc73abc5, 0xc8472bc,
     0xc9539b4, 0xca600ab, 0xcb6c7a3, 0xcc78e9b, 0xcd85592, 0xce91c8a, 0xcf9e381, 0xd0aaa79,
     0xd1b7171, 0xd2c3868, 0xd3cff60, 0xd4dc657, 0xd5e8d4f, 0xd6f5447, 0xd801b3e, 0xd90e236,
     0xda1a92d, 0xdb27025, 0xdc3371d, 0xdd3fe14, 0xde4c50c, 0xdf58c03, 0xe0652fb, 0xe1719f3,
     0xe27e0ea, 0xe38a7e2, 0xe496ed9, 0xe5a35d1, 0xe6afcc9, 0xe7bc3c0, 0xe8c8ab8, 0xe9d51b0,
     0xeae18a7, 0xebedf9f, 0xecfa696, 0xee06d8e, 0xef13486, 0xf01fb7d, 0xf12c275, 0xf23896c,
     0xf345064, 0xf45175c, 0xf55de53, 0xf66a54b, 0xf776c42, 0xf88333a, 0xf98fa32, 0xfa9c129,
     0xfba8821, 0xfcb4f18, 0xfdc1610, 0xfecdd08, 0xffda3ff, 0x100e6af7, 0x101f31ee, 0x102ff8e6,
     0x1040bfde, 0x105186d5, 0x10624dcd, 0x107314c4, 0x1083dbbc, 0x1094a2b4, 0x10a569ab, 0x10b630a3]"

definition ustotshi :: "int list" where
  "ustotshi = [
     0x0, 0x10c6f79a, 0x218def35, 0x3254e6cf, 0x431bde6a, 0x53e2d604, 0x64a9cd9f, 0x7570c539,
     0x8637bcd3, 0x96feb46e, 0xa7c5ac08, 0xb88ca3a3, 0xc9539b3d, 0xda1a92d7, 0xeae18a72, 0xfba8820c]"

definition tstoushi :: "int list" where
  "tstoushi = [
     0x0, 0x7a12, 0xf424, 0x16e36, 0x1e848, 0x2625a, 0x2dc6c, 0x3567e,
     0x3d090, 0x44aa2, 0x4c4b4, 0x53ec6, 0x5b8d8, 0x632ea, 0x6acfc, 0x7270e,
     0x7a120, 0x81b32, 0x89544, 0x90f56, 0x98968, 0xa037a, 0xa7d8c, 0xaf79e,
     0xb71b0, 0xbebc2, 0xc65d4, 0xcdfe6, 0xd59f8, 0xdd40a, 0xe4e1c, 0xec82e,
     0xf4240, 0xfbc52, 0x103664, 0x10b076, 0x112a88, 0x11a49a, 0x121eac, 0x1298be,
     0x1312d0, 0x138ce2, 0x1406f4, 0x148106, 0x14fb18, 0x15752a, 0x15ef3c, 0x16694e,
     0x16e360, 0x175d72, 0x17d784, 0x185196, 0x18cba8, 0x1945ba, 0x19bfcc, 0x1a39de,
     0x1ab3f0, 0x1b2e02, 0x1ba814, 0x1c2226, 0x1c9c38, 0x1d164a, 0x1d905c, 0x1e0a6e,
     0x1e8480, 0x1efe92, 0x1f78a4, 0x1ff2b6, 0x206cc8, 0x20e6da, 0x2160ec, 0x21dafe,
     0x225510, 0x22cf22, 0x234934, 0x23c346, 0x243d58, 0x24b76a, 0x25317c, 0x25ab8e,
     0x2625a0, 0x269fb2, 0x2719c4, 0x2793d6, 0x280de8, 0x2887fa, 0x29020c, 0x297c1e,
     0x29f630, 0x2a7042, 0x2aea54, 0x2b6466, 0x2bde78, 0x2c588a, 0x2cd29c, 0x2d4cae,
     0x2dc6c0, 0x2e40d2, 0x2ebae4, 0x2f34f6, 0x2faf08, 0x30291a, 0x30a32c, 0x311d3e,
     0x319750, 0x321162, 0x328b74, 0x330586, 0x337f98, 0x33f9aa, 0x3473bc, 0x34edce,
     0x3567e0, 0x35e1f2, 0x365c04, 0x36d616, 0x375028, 0x37ca3a, 0x38444c, 0x38be5e,
     0x393870, 0x39b282, 0x3a2c94, 0x3aa6a6, 0x3b20b8, 0x3b9aca, 0x3c14dc, 0x3c8eee,
     0x3d0900, 0x3d8312, 0x3dfd24, 0x3e7736, 0x3ef148, 0x3f6b5a, 0x3fe56c, 0x405f7e,
     0x40d990, 0x4153a2, 0x41cdb4, 0x4247c6, 0x42c1d8, 0x433bea, 0x43b5fc, 0x44300e,
     0x44aa20, 0x452432, 0x459e44, 0x461856, 0x469268, 0x470c7a, 0x47868c, 0x48009e,
     0x487ab0, 0x48f4c2, 0x496ed4, 0x49e8e6, 0x4a62f8, 0x4add0a, 0x4b571c, 0x4bd12e,
     0x4c4b40, 0x4cc552, 0x4d3f64, 0x4db976, 0x4e3388, 0x4ead9a, 0x4f27ac, 0x4fa1be,
     0x501bd0, 0x5095e2, 0x510ff4, 0x518a06, 0x520418, 0x527e2a, 0x52f83c, 0x53724e,
     0x53ec60, 0x546672, 0x54e084, 0x555a96, 0x55d4a8, 0x564eba, 0x56c8cc, 0x5742de,
     0x57bcf0, 0x583702, 0x58b114, 0x592b26, 0x59a538, 0x5a1f4a, 0x5a995c, 0x5b136e,
     0x5b8d80, 0x5c0792, 0x5c81a4, 0x5cfbb6, 0x5d75c8, 0x5defda, 0x5e69ec, 0x5ee3fe,
     0x5f5e10, 0x5fd822, 0x605234, 0x60cc46, 0x614658, 0x61c06a, 0x623a7c, 0x62b48e,
     0x632ea0, 0x63a8b2, 0x6422c4, 0x649cd6, 0x6516e8, 0x6590fa, 0x660b0c, 0x66851e,
     0x66ff30, 0x677942, 0x67f354, 0x686d66, 0x68e778, 0x69618a, 0x69db9c, 0x6a55ae,
     0x6acfc0, 0x6b49d2, 0x6bc3e4, 0x6c3df6, 0x6cb808, 0x6d321a, 0x6dac2c, 0x6e263e,
     0x6ea050, 0x6f1a62, 0x6f9474, 0x700e86, 0x708898, 0x7102aa, 0x717cbc, 0x71f6ce,
     0x7270e0, 0x72eaf2, 0x736504, 0x73df16, 0x745928, 0x74d33a, 0x754d4c, 0x75c75e,
     0x764170, 0x76bb82, 0x773594, 0x77afa6, 0x7829b8, 0x78a3ca, 0x791ddc, 0x7997ee]"

definition tstousmid :: "int list" where
  "tstousmid = [
     0x0, 0x7a, 0xf4, 0x16e, 0x1e8, 0x262, 0x2dc, 0x356,
     0x3d1, 0x44b, 0x4c5, 0x53f, 0x5b9, 0x633, 0x6ad, 0x727,
     0x7a1, 0x81b, 0x895, 0x90f, 0x989, 0xa03, 0xa7e, 0xaf8,
     0xb72, 0xbec, 0xc66, 0xce0, 0xd5a, 0xdd4, 0xe4e, 0xec8,
     0xf42, 0xfbc, 0x1036, 0x10b0, 0x112b, 0x11a5, 0x121f, 0x1299,
     0x1313, 0x138d, 0x1407, 0x1481, 0x14fb, 0x1575, 0x15ef, 0x1669,
     0x16e3, 0x175d, 0x17d8, 0x1852, 0x18cc, 0x1946, 0x19c0, 0x1a3a,
     0x1ab4, 0x1b2e, 0x1ba8, 0x1c22, 0x1c9c, 0x1d16, 0x1d90, 0x1e0a,
     0x1e84, 0x1eff, 0x1f79, 0x1ff3, 0x206d, 0x20e7, 0x2161, 0x21db,
     0x2255, 0x22cf, 0x2349, 0x23c3, 0x243d, 0x24b7, 0x2531, 0x25ac,
     0x2626, 0x26a0, 0x271a, 0x2794, 0x280e, 0x2888, 0x2902, 0x297c,
     0x29f6, 0x2a70, 0x2aea, 0x2b64, 0x2bde, 0x2c59, 0x2cd3, 0x2d4d,
     0x2dc7, 0x2e41, 0x2ebb, 0x2f35, 0x2faf, 0x3029, 0x30a3, 0x311d,
     0x3197, 0x3211, 0x328b, 0x3306, 0x3380, 0x33fa, 0x3474, 0x34ee,
     0x3568, 0x35e2, 0x365c, 0x36d6, 0x3750, 0x37ca, 0x3844, 0x38be,
     0x3938, 0x39b3, 0x3a2d, 0x3aa7, 0x3b21, 0x3b9b, 0x3c15, 0x3c8f,
     0x3d09, 0x3d83, 0x3dfd, 0x3e77, 0x3ef1, 0x3f6b, 0x3fe5, 0x405f,
     0x40da, 0x4154, 0x41ce, 0x4248, 0x42c2, 0x433c, 0x43b6, 0x4430,
     0x44aa, 0x4524, 0x459e, 0x4618, 0x4692, 0x470c, 0x4787, 0x4801,
     0x487b, 0x48f5, 0x496f, 0x49e9, 0x4a63, 0x4add, 0x4b57, 0x4bd1,
     0x4c4b, 0x4cc5, 0x4d3f, 0x4db9, 0x4e34, 0x4eae, 0x4f28, 0x4fa2,
     0x501c, 0x5096, 0x5110, 0x518a, 0x5204, 0x527e, 0x52f8, 0x5372,
     0x53ec, 0x5466, 0x54e1, 0x555b, 0x55d5, 0x564f, 0x56c9, 0x5743,
     0x57bd, 0x5837, 0x58b1, 0x592b, 0x59a5, 0x5a1f, 0x5a99, 0x5b13,
     0x5b8d, 0x5c08, 0x5c82, 0x5cfc, 0x5d76, 0x5df0, 0x5e6a, 0x5ee4,
     0x5f5e, 0x5fd8, 0x6052, 0x60cc, 0x6146, 0x61c0, 0x623a, 0x62b5,
     0x632f, 0x63a9, 0x6423, 0x649d, 0x6517, 0x6591, 0x660b, 0x6685,
     0x66ff, 0x6779, 0x67f3, 0x686d, 0x68e7, 0x6962, 0x69dc, 0x6a56,
     0x6ad0, 0x6b4a, 0x6bc4, 0x6c3e, 0x6cb8, 0x6d32, 0x6dac, 0x6e26,
     0x6ea0, 0x6f1a, 0x6f94, 0x700f, 0x7089, 0x7103, 0x717d, 0x71f7,
     0x7271, 0x72eb, 0x7365, 0x73df, 0x7459, 0x74d3, 0x754d, 0x75c7,
     0x7641, 0x76bc, 0x7736, 0x77b0, 0x782a, 0x78a4, 0x791e, 0x7998]"

definition tstouslo :: "int list" where
  "tstouslo = [
     0x0, 0x1, 0x2, 0x3, 0x4, 0x5, 0x6, 0x7,
     0x8, 0x9, 0xa, 0xa, 0xb, 0xc, 0xd, 0xe,
     0xf, 0x10, 0x11, 0x12, 0x13, 0x14, 0x15, 0x16,
     0x17, 0x18, 0x19, 0x1a, 0x1b, 0x1c, 0x1d, 0x1e,
     0x1f, 0x1f, 0x20, 0x21, 0x22, 0x23, 0x24, 0x25,
     0x26, 0x27, 0x28, 0x29, 0x2a, 0x2b, 0x2c, 0x2d,
     0x2e, 0x2f, 0x30, 0x31, 0x32, 0x33, 0x33, 0x34,
     0x35, 0x36, 0x37, 0x38, 0x39, 0x3a, 0x3b, 0x3c,
     0x3d, 0x3e, 0x3f, 0x40, 0x41, 0x42, 0x43, 0x44,
     0x45, 0x46, 0x47, 0x48, 0x48, 0x49, 0x4a, 0x4b,
     0x4c, 0x4d, 0x4e, 0x4f, 0x50, 0x51, 0x52, 0x53,
     0x54, 0x55, 0x56, 0x57, 0x58, 0x59, 0x5a, 0x5b,
     0x5c, 0x5c, 0x5d, 0x5e, 0x5f, 0x60, 0x61, 0x62,
     0x63, 0x64, 0x65, 0x66, 0x67, 0x68, 0x69, 0x6a,
     0x6b, 0x6c, 0x6d, 0x6e, 0x6f, 0x70, 0x71, 0x71,
     0x72, 0x73, 0x74, 0x75, 0x76, 0x77, 0x78, 0x79]"

section \<open>Conversions\<close>

definition TS_MASK :: u32 where "TS_MASK = 0xfffff000"
definition TS_ROUNDBIT :: u32 where "TS_ROUNDBIT = 0x800"
definition JAN_1970 :: u32 where "JAN_1970 = 0x83aa7e80"

record l_fp =
  l_ui :: u32
  l_uf :: u32

definition TVUTOTSF :: "int \<Rightarrow> u32" where
  "TVUTOTSF tvu = word_of_int
     (ustotslo ! nat (tvu AND 0xff) + ustotsmid ! nat (drop_bit 8 tvu AND 0xff) + ustotshi ! nat (drop_bit 16 tvu AND 0xf))"

definition L_NEG :: "l_fp \<Rightarrow> l_fp" where
  "L_NEG v = (if l_uf v = 0 then v\<lparr>l_ui := - l_ui v\<rparr> else v\<lparr>l_uf := - l_uf v, l_ui := NOT (l_ui v)\<rparr>)"

text \<open>The time of day is given by its seconds and microseconds.\<close>

definition sTVTOTS :: "int \<times> int \<Rightarrow> l_fp" where
  "sTVTOTS tv =
     (let ui = word_of_int (fst tv) in
      if fst tv < 0 \<or> snd tv < 0 then L_NEG \<lparr>l_ui = - ui, l_uf = TVUTOTSF (- snd tv)\<rparr>
      else \<lparr>l_ui = ui, l_uf = TVUTOTSF (snd tv)\<rparr>)"

definition TSFTOTVU :: "u32 \<Rightarrow> int" where
  "TSFTOTVU tsf =
     drop_bit 3 (tstoushi ! unat (drop_bit 24 tsf AND 0xff) + tstousmid ! unat (drop_bit 16 tsf AND 0xff)
       + tstouslo ! unat (drop_bit 9 tsf AND 0x7f) + 4)"

definition TSTOTV :: "l_fp \<Rightarrow> int \<times> int" where
  "TSTOTV ts =
     (let usec = TSFTOTVU (l_uf ts) in
      if usec = 1000000 then (uint (l_ui ts) + 1, 0) else (uint (l_ui ts), usec))"

section \<open>Accuracy of the tables\<close>

text \<open>Entry \<open>i\<close> of a table is \<open>i * n / d\<close>, up to an error of \<open>t / d\<close>.\<close>

fun accurate :: "int \<Rightarrow> int \<Rightarrow> int \<Rightarrow> int \<Rightarrow> int list \<Rightarrow> bool" where
  "accurate n d t i [] \<longleftrightarrow> True"
| "accurate n d t i (x # xs) \<longleftrightarrow> \<bar>x * d - i * n\<bar> \<le> t \<and> accurate n d t (i + 1) xs"

lemma accurate_nth:
  "accurate n d t i xs \<Longrightarrow> k < length xs \<Longrightarrow> \<bar>xs ! k * d - (i + int k) * n\<bar> \<le> t"
proof (induction xs arbitrary: i k)
  case (Cons x xs)
  show ?case
  proof (cases k)
    case (Suc k')
    then have "\<bar>xs ! k' * d - (i + 1 + int k') * n\<bar> \<le> t" using Cons.IH [of "i + 1" k'] Cons.prems by simp
    then show ?thesis using Suc by (simp add: algebra_simps)
  qed (use Cons.prems in simp)
qed simp

lemma accurate_tables:
  "accurate 4294967296 1000000 511000 0 ustotslo" "accurate 1099511627776 1000000 6600000 0 ustotsmid"
  "accurate 281474976710656 1000000 94700000 0 ustotshi"
  "accurate 8000000 256 0 0 tstoushi" "accurate 8000000 65536 32768 0 tstousmid" "accurate 8000000 8388608 4250000 0 tstouslo"
  by (simp_all add: ustotslo_def ustotsmid_def ustotshi_def tstoushi_def tstousmid_def tstouslo_def)

lemma length_tables:
  "length ustotslo = 256" "length ustotsmid = 256" "length ustotshi = 16"
  "length tstoushi = 256" "length tstousmid = 256" "length tstouslo = 128"
  by (simp_all add: ustotslo_def ustotsmid_def ustotshi_def tstoushi_def tstousmid_def tstouslo_def)

lemma tables_nonnegative:
  "list_all (\<lambda>x. 0 \<le> x) ustotslo" "list_all (\<lambda>x. 0 \<le> x) ustotsmid" "list_all (\<lambda>x. 0 \<le> x) ustotshi"
  by (simp_all add: ustotslo_def ustotsmid_def ustotshi_def)

lemma nat_and_mask: "0 \<le> z \<Longrightarrow> nat (z AND 0xff) = nat z mod 256" "0 \<le> z \<Longrightarrow> nat (z AND 0xf) = nat z mod 16" for z :: int
proof -
  have "z AND 0xff = z mod 256" "z AND 0xf = z mod 16"
    using take_bit_eq_mask [of 8 z] take_bit_eq_mask [of 4 z] by (simp_all add: mask_eq_exp_minus_1 take_bit_eq_mod)
  then show "0 \<le> z \<Longrightarrow> nat (z AND 0xff) = nat z mod 256" "0 \<le> z \<Longrightarrow> nat (z AND 0xf) = nat z mod 16"
    by (simp_all add: nat_mod_distrib)
qed

lemma abs_sum3: "\<bar>x\<bar> \<le> a \<Longrightarrow> \<bar>y\<bar> \<le> b \<Longrightarrow> \<bar>z\<bar> \<le> c \<Longrightarrow> a + b + c \<le> d \<Longrightarrow> \<bar>x + y + z\<bar> \<le> d" for x y z :: int
  by linarith

text \<open>A fraction differs from the exact one by at most 102 units of \<open>1 / 2 ^ 32\<close> seconds.\<close>

lemma TVUTOTSF_close:
  assumes "0 \<le> u" "u < 1000000"
  shows "\<bar>uint (TVUTOTSF u) * 1000000 - u * 4294967296\<bar> \<le> 102000000"
proof -
  define n where "n = nat u"
  define a b c where "a = n mod 256" and "b = n div 256 mod 256" and "c = n div 65536 mod 16"
  have n: "n < 1000000" "u = int n" using assms by (simp_all add: n_def)
  have "n div 65536 < 16" using n by linarith
  then have c: "n div 65536 = c" by (simp add: c_def)
  have "n = a + 256 * (n div 256)" "n div 256 = b + 256 * (n div 256 div 256)" by (simp_all add: a_def b_def)
  moreover have "n div 256 div 256 = c" using c by (simp add: div_mult2_eq [symmetric])
  ultimately have n_eq: "u = int a + 256 * int b + 65536 * int c" using n(2) by linarith
  have lt: "a < 256" "b < 256" "c < 16" by (simp_all add: a_def b_def c_def)
  let ?x = "ustotslo ! a" and ?y = "ustotsmid ! b" and ?z = "ustotshi ! c"
  define t where "t = ?x + ?y + ?z"
  have e: "\<bar>?x * 1000000 - int a * 4294967296\<bar> \<le> 511000" "\<bar>?y * 1000000 - int b * 1099511627776\<bar> \<le> 6600000"
    "\<bar>?z * 1000000 - int c * 281474976710656\<bar> \<le> 94700000"
    using accurate_nth [OF accurate_tables(1), of a] accurate_nth [OF accurate_tables(2), of b]
      accurate_nth [OF accurate_tables(3), of c] lt length_tables by simp_all
  have pos: "0 \<le> ?x" "0 \<le> ?y" "0 \<le> ?z" using tables_nonnegative lt length_tables by (simp_all add: list_all_length)
  have sum: "\<bar>t * 1000000 - u * 4294967296\<bar> \<le> 102000000" using abs_sum3 [OF e] n_eq by (simp add: t_def algebra_simps)
  then have "0 \<le> t" "t < 2 ^ 32" using pos assms by (simp_all add: t_def)
  then have "uint (word_of_int t :: u32) = t" by (simp add: uint_word_of_int_eq take_bit_int_eq_self)
  moreover have "nat (u AND 0xff) = a" "nat (drop_bit 8 u AND 0xff) = b" "nat (drop_bit 16 u AND 0xf) = c"
    using assms by (simp_all add: nat_and_mask drop_bit_eq_div a_def b_def c_def n_def nat_div_distrib)
  ultimately show ?thesis using sum by (simp only: TVUTOTSF_def t_def)
qed

lemma masked_units: "uint (w AND TS_MASK) = uint w div 4096 * 4096"
proof -
  have m: "TS_MASK = push_bit 12 (mask 20)" by (simp add: TS_MASK_def mask_eq_exp_minus_1 push_bit_eq_mult)
  have "w AND TS_MASK = push_bit 12 (drop_bit 12 w)"
    unfolding m by (rule bit_word_eqI) (auto simp: bit_simps)
  moreover have "uint (push_bit 12 (drop_bit 12 w)) = push_bit 12 (drop_bit 12 (uint w))"
  proof (rule bit_eqI)
    fix k show "bit (uint (push_bit 12 (drop_bit 12 w))) k = bit (push_bit 12 (drop_bit 12 (uint w))) k"
      by (auto simp: bit_simps bit_uint_iff dest: bit_imp_le_length)
  qed
  ultimately show ?thesis by (simp add: push_bit_eq_mult drop_bit_eq_div)
qed

lemma TSFTOTVU_close:
  assumes "uint g = 4096 * q"
  shows "\<exists>S. TSFTOTVU g = (S + 4) div 8 \<and> \<bar>S * 4294967296 - uint g * 8000000\<bar> \<le> 4324000000"
proof -
  define n where "n = unat g"
  have n: "n < 2 ^ 32" "uint g = int n" using unsigned_less [of g, where 'a=nat] by (simp_all add: n_def)
  define h m l where "h = n div 2 ^ 24" and "m = n div 2 ^ 16 mod 256" and "l = n div 2 ^ 9 mod 128"
  have "h < 256" using n(1) unfolding h_def by (simp add: less_mult_imp_div_less)
  then have lt: "h < 256" "m < 256" "l < 128" by (simp_all add: m_def l_def)
  have "int n = 512 * (8 * q)" using assms n(2) by simp
  then have "512 dvd int n" by simp
  then have "512 dvd n" by presburger
  then have "n = 512 * (n div 512)" by simp
  moreover have "n div 512 = l + 128 * (n div 512 div 128)" by (simp add: l_def)
  moreover have "m = n div 512 div 128 mod 256" by (simp add: m_def div_mult2_eq [symmetric])
  then have "n div 512 div 128 = m + 256 * (n div 512 div 128 div 256)" by (simp only: mod_mult_div_eq)
  moreover have "n div 512 div 128 div 256 = h" by (simp add: h_def div_mult2_eq [symmetric])
  ultimately have n_eq: "uint g = 16777216 * int h + 65536 * int m + 512 * int l" using n(2) by linarith
  let ?S = "tstoushi ! h + tstousmid ! m + tstouslo ! l"
  have e: "\<bar>tstoushi ! h * 256 - int h * 8000000\<bar> \<le> 0" "\<bar>tstousmid ! m * 65536 - int m * 8000000\<bar> \<le> 32768"
    "\<bar>tstouslo ! l * 8388608 - int l * 8000000\<bar> \<le> 4250000"
    using accurate_nth [OF accurate_tables(4), of h] accurate_nth [OF accurate_tables(5), of m]
      accurate_nth [OF accurate_tables(6), of l] lt length_tables by simp_all
  have "\<bar>(tstoushi ! h * 256 - int h * 8000000) * 16777216 + (tstousmid ! m * 65536 - int m * 8000000) * 65536 +
      (tstouslo ! l * 8388608 - int l * 8000000) * 512\<bar> \<le> 4324000000"
    by (rule abs_sum3 [of _ 0 _ "32768 * 65536" _ "4250000 * 512"]) (use e in \<open>simp_all add: abs_mult\<close>)
  then have "\<bar>?S * 4294967296 - uint g * 8000000\<bar> \<le> 4324000000" by (simp add: n_eq algebra_simps)
  moreover have "TSFTOTVU g = (?S + 4) div 8"
  proof -
    have "unat (drop_bit k g AND mask j) = n div 2 ^ k mod 2 ^ j" for k j
    proof -
      have "unat (take_bit j (drop_bit k g)) = take_bit j (unat (drop_bit k g))" by (rule unsigned_take_bit_eq)
      also have "unat (drop_bit k g) = drop_bit k n" unfolding n_def by (rule unat_drop_bit_eq)
      finally show ?thesis by (simp only: take_bit_eq_mask [symmetric]) (simp only: take_bit_eq_mod drop_bit_eq_div)
    qed
    from this [of 24 8] this [of 16 8] this [of 9 7]
    have "unat (drop_bit 24 g AND 0xff) = h" "unat (drop_bit 16 g AND 0xff) = m" "unat (drop_bit 9 g AND 0x7f) = l"
      using lt(1) by (simp_all add: mask_eq_exp_minus_1 h_def m_def l_def)
    then show ?thesis by (simp add: TSFTOTVU_def drop_bit_eq_div)
  qed
  ultimately show ?thesis by blast
qed

section \<open>There and back\<close>

text \<open>What remains of the microseconds after rounding for output and the reverse on input.\<close>

definition ntp_there_and_back :: "int \<Rightarrow> u32" where
  "ntp_there_and_back u = (((TVUTOTSF u + TS_ROUNDBIT) AND TS_MASK) - TS_ROUNDBIT) AND TS_MASK"

lemma ntp_zero: "TSFTOTVU (ntp_there_and_back 0) = 999999"
  by (simp add: ntp_there_and_back_def TVUTOTSF_def TSFTOTVU_def TS_MASK_def TS_ROUNDBIT_def ustotslo_def ustotsmid_def
      ustotshi_def tstoushi_def tstousmid_def tstouslo_def)

lemma ntp_close:
  assumes "0 < u" "u < 1000000"
  shows "u - 1 \<le> TSFTOTVU (ntp_there_and_back u)" "TSFTOTVU (ntp_there_and_back u) \<le> u"
proof -
  define f where "f = uint (TVUTOTSF u)"
  have f: "f * 1000000 \<le> u * 4294967296 + 102000000" "u * 4294967296 - 102000000 \<le> f * 1000000"
    using TVUTOTSF_close [of u] assms by (simp_all add: f_def abs_le_iff)
  then have fb: "4000 \<le> f" "f < 4294964000" using assms by linarith+
  define g where "g = (TVUTOTSF u + TS_ROUNDBIT) AND TS_MASK"
  define q where "q = (f + 2048) div 4096"
  have "uint (TVUTOTSF u + TS_ROUNDBIT) = f + 2048"
    using fb by (simp add: f_def TS_ROUNDBIT_def uint_plus_if' )
  then have g: "uint g = 4096 * q" by (simp add: g_def masked_units q_def)
  have q: "1 \<le> q" "4096 * q \<le> f + 2048" "f + 2048 < 4096 * q + 4096" using fb unfolding q_def by linarith+
  have "uint (g - TS_ROUNDBIT) = 4096 * q - 2048"
    using g q(1) by (simp add: TS_ROUNDBIT_def uint_sub_if')
  moreover have "4096 * q - 2048 = 2048 + 4096 * (q - 1)" by simp
  then have "(4096 * q - 2048) div 4096 = q - 1" by simp
  ultimately have r: "uint (ntp_there_and_back u) = 4096 * (q - 1)"
    by (simp only: ntp_there_and_back_def g_def [symmetric] masked_units mult.commute)
  then obtain S where S: "TSFTOTVU (ntp_there_and_back u) = (S + 4) div 8" "\<bar>S * 4294967296 - 4096 * (q - 1) * 8000000\<bar> \<le> 4324000000"
    using TSFTOTVU_close [OF r] by auto
  have "S * 4294967296 \<le> 32768000000 * q - 28444000000" "32768000000 * q - 37092000000 \<le> S * 4294967296"
    using S(2) by (simp_all add: abs_le_iff)
  moreover have "32768000000 * q \<le> 8000000 * f + 16384000000" "8000000 * f - 16384000000 \<le> 32768000000 * q"
    using q(2,3) by simp_all
  ultimately have "S * 4294967296 \<le> 34359738368 * u" "34359738368 * u - 54292000000 \<le> S * 4294967296" using f by simp_all
  then have "S \<le> 8 * u" "8 * u - 12 \<le> S" by simp_all
  then show "u - 1 \<le> TSFTOTVU (ntp_there_and_back u)" "TSFTOTVU (ntp_there_and_back u) \<le> u" using S(1) by linarith+
qed

end
