(* ===== verification/IdmefTime.thy ===== *)
theory IdmefTime
  imports Ntp Unicode "HOL-Library.Signed_Division"
begin

text \<open>
  Times of messages (\<open>src/idmef-time.c\<close>): seconds and microseconds since 1970 with the offset of the local
  time, conversion to and from the two text formats of IDMEF, copying and comparison. The calendar functions
  \<open>timegm\<close> and \<open>gmtime_r\<close>, and \<open>strptime\<close>, \<open>strtoul\<close> and \<open>sscanf\<close> for the formats in use, are modelled; \<open>mktime\<close> and the
  offset of a time depend on the local time zone and are arguments. Return values are those of the source:
  an \<open>int\<close> as a word of 32 bits.
\<close>

section \<open>The calendar\<close>

record tm =
  tm_sec :: int
  tm_min :: int
  tm_hour :: int
  tm_mday :: int
  tm_mon :: int
  tm_year :: int

definition leap_year :: "int \<Rightarrow> bool" where
  "leap_year y \<longleftrightarrow> y mod 4 = 0 \<and> y mod 100 \<noteq> 0 \<or> y mod 400 = 0"

definition month_lengths :: "int \<Rightarrow> int list" where
  "month_lengths y = [31, if leap_year y then 29 else 28, 31, 30, 31, 30, 31, 31, 30, 31, 30, 31]"

text \<open>Days from the first of January 1970 to that of the given year.\<close>

definition year_start :: "int \<Rightarrow> int" where
  "year_start y = 365 * (y - 1) + (y - 1) div 4 - (y - 1) div 100 + (y - 1) div 400 - 719162"

definition timegm :: "tm \<Rightarrow> int" where
  "timegm t =
     (let y = tm_year t + 1900 + tm_mon t div 12;
          days = year_start y + sum_list (take (nat (tm_mon t mod 12)) (month_lengths y)) + tm_mday t - 1
      in ((days * 24 + tm_hour t) * 60 + tm_min t) * 60 + tm_sec t)"

lemma div_pred:
  fixes k y :: int
  assumes "0 < k"
  shows "y div k = (y - 1) div k + (if y mod k = 0 then 1 else 0)"
proof (cases "y mod k = 0")
  case True
  then have "y - 1 = k * (y div k - 1) + (k - 1)" using mult_div_mod_eq [of k y] by (simp add: algebra_simps)
  then have "(y - 1) div k = y div k - 1" by (rule int_div_pos_eq) (use assms in simp_all)
  then show ?thesis using True by simp
next
  case False
  have "y - 1 = k * (y div k) + (y mod k - 1)" using mult_div_mod_eq [of k y] by (simp add: algebra_simps)
  moreover have "0 \<le> y mod k - 1" "y mod k - 1 < k" using False assms pos_mod_sign [of k y] pos_mod_bound [of k y] by linarith+
  ultimately have "(y - 1) div k = y div k" by (rule int_div_pos_eq)
  then show ?thesis using False by simp
qed

lemma year_start_Suc: "year_start (y + 1) = year_start y + (if leap_year y then 366 else 365)"
proof -
  define p q r where "p = (y - 1) div 4" and "q = (y - 1) div 100" and "r = (y - 1) div 400"
  define A B C where "A \<longleftrightarrow> y mod 4 = 0" and "B \<longleftrightarrow> y mod 100 = 0" and "C \<longleftrightarrow> y mod 400 = 0"
  have i: "C \<longrightarrow> B" "B \<longrightarrow> A" unfolding A_def B_def C_def by presburger+
  have "year_start y = 365 * (y - 1) + p - q + r - 719162" by (simp add: year_start_def p_def q_def r_def)
  moreover have "y div 4 = p + (if A then 1 else 0)" "y div 100 = q + (if B then 1 else 0)" "y div 400 = r + (if C then 1 else 0)"
    unfolding p_def q_def r_def A_def B_def C_def by (rule div_pred, simp)+
  then have "year_start (y + 1) = 365 * y + (p + (if A then 1 else 0)) - (q + (if B then 1 else 0)) + (r + (if C then 1 else 0)) - 719162"
    by (simp add: year_start_def)
  moreover have "leap_year y \<longleftrightarrow> A \<and> \<not> B \<or> C" by (simp add: leap_year_def A_def B_def C_def)
  ultimately show ?thesis using i by auto
qed

text \<open>The year that holds a day, searched from an earlier one, and the month and day in it.\<close>

function year_up :: "int \<Rightarrow> int \<Rightarrow> int" where
  "year_up d y = (if d < year_start (y + 1) then y else year_up d (y + 1))"
  by pat_completeness auto
termination
  by (relation "measure (\<lambda>(d, y). nat (d + 366 - year_start y))") (auto simp: year_start_Suc split: if_splits)

declare year_up.simps [simp del]

fun split_month :: "int list \<Rightarrow> int \<Rightarrow> int \<Rightarrow> int \<times> int" where
  "split_month [] m d = (m, d)"
| "split_month (l # ls) m d = (if d < l then (m, d) else split_month ls (m + 1) (d - l))"

definition gmtime_r :: "nat \<Rightarrow> tm" where
  "gmtime_r t =
     (let days = int t div 86400; rem = int t mod 86400; y = year_up days 1970
      in case split_month (month_lengths y) 0 (days - year_start y) of (mon, d) \<Rightarrow>
        \<lparr>tm_sec = rem mod 60, tm_min = rem div 60 mod 60, tm_hour = rem div 3600,
         tm_mday = d + 1, tm_mon = mon, tm_year = y - 1900\<rparr>)"

section \<open>Scanning times\<close>

text \<open>\<open>get_number\<close> of \<open>strptime\<close>: spaces, then a number of at most \<open>n\<close> digits in the given range.\<close>

fun number_loop :: "nat \<Rightarrow> nat \<Rightarrow> nat \<Rightarrow> string \<Rightarrow> nat \<times> string" where
  "number_loop to n acc [] = (acc, [])"
| "number_loop to n acc (c # s) =
     (if n = 0 then (acc, c # s)
      else case char_digit 10 c of
        None \<Rightarrow> (acc, c # s)
      | Some d \<Rightarrow> if (acc * 10 + d) * 10 \<le> to then number_loop to (n - 1) (acc * 10 + d) s else (acc * 10 + d, s))"

definition get_number :: "nat \<Rightarrow> nat \<Rightarrow> nat \<Rightarrow> string \<Rightarrow> (int \<times> string) option" where
  "get_number from to n s =
     (let s' = dropWhile (\<lambda>c. c = CHR '' '') s in
      if \<not> starts_digit 10 s' then None
      else case number_loop to n 0 s' of (v, r) \<Rightarrow> if v < from \<or> to < v then None else Some (int v, r))"

definition match_char :: "char \<Rightarrow> string \<Rightarrow> string option" where
  "match_char c s = (case s of [] \<Rightarrow> None | d # r \<Rightarrow> if c = d then Some r else None)"

definition strptime_ymd :: "tm \<Rightarrow> string \<Rightarrow> (tm \<times> string) option" where
  "strptime_ymd t s =
     Option.bind (get_number 0 9999 4 s) (\<lambda>(y, s). Option.bind (match_char (CHR ''-'') s) (\<lambda>s.
     Option.bind (get_number 1 12 2 s) (\<lambda>(m, s). Option.bind (match_char (CHR ''-'') s) (\<lambda>s.
     map_option (\<lambda>(d, s). (t\<lparr>tm_year := y - 1900, tm_mon := m - 1, tm_mday := d\<rparr>, s)) (get_number 1 31 2 s)))))"

definition strptime_hms :: "tm \<Rightarrow> string \<Rightarrow> (tm \<times> string) option" where
  "strptime_hms t s =
     Option.bind (get_number 0 23 2 s) (\<lambda>(h, s). Option.bind (match_char (CHR '':'') s) (\<lambda>s.
     Option.bind (get_number 0 59 2 s) (\<lambda>(m, s). Option.bind (match_char (CHR '':'') s) (\<lambda>s.
     map_option (\<lambda>(x, s). (t\<lparr>tm_hour := h, tm_min := m, tm_sec := x\<rparr>, s)) (get_number 0 61 2 s)))))"

text \<open>An optional sign: whether it is a minus, and the text behind it.\<close>

definition scan_sign :: "string \<Rightarrow> bool \<times> string" where
  "scan_sign s = (case s of [] \<Rightarrow> (False, [])
     | c # r \<Rightarrow> if c = CHR ''-'' then (True, r) else if c = CHR ''+'' then (False, r) else (False, s))"

text \<open>\<open>strtoul\<close> in base 10: the value and the rest, or nothing when no number is there.\<close>

definition strtoul10 :: "string \<Rightarrow> (u64 \<times> string) option" where
  "strtoul10 s =
     (case scan_sign (dropWhile isspace s) of (neg, s1) \<Rightarrow>
      if \<not> starts_digit 10 s1 then None
      else case scan 10 (length s1) 0 s1 of (v, r) \<Rightarrow>
        Some (if 2 ^ 64 \<le> v then - 1 else if neg then - of_nat v else of_nat v, r))"

text \<open>The conversion \<open>%2u\<close> of \<open>sscanf\<close>: a sign counts as one of the two characters.\<close>

definition scan_2u :: "string \<Rightarrow> (u32 \<times> string) option" where
  "scan_2u s =
     (let s0 = dropWhile isspace s in
      case scan_sign s0 of (neg, s1) \<Rightarrow>
        let w = 2 - (length s0 - length s1) in
        if \<not> starts_digit 10 s1 then None
        else case scan 10 w 0 s1 of (v, r) \<Rightarrow> Some (if neg then - of_nat v else of_nat v, r))"

text \<open>The conversion \<open>%x\<close>: white space, a sign, an optional prefix, digits.\<close>

definition scan_x :: "string \<Rightarrow> (u32 \<times> string) option" where
  "scan_x s =
     (case scan_sign (dropWhile isspace s) of (neg, s1) \<Rightarrow>
      let s2 = (if take 2 s1 = ''0x'' \<or> take 2 s1 = ''0X'' then drop 2 s1 else s1) in
      if \<not> starts_digit 16 s2 then None
      else case scan 16 (length s2) 0 s2 of (v, r) \<Rightarrow>
        Some (if 2 ^ 64 \<le> v then - 1 else if neg then - of_nat v else of_nat v, r))"

section \<open>Times\<close>

record idmef_time =
  it_refcount :: int
  it_sec :: u32
  it_usec :: u32
  it_gmt_offset :: u32

definition idmef_time_new :: "(nat \<Rightarrow> bool) \<Rightarrow> idmef_time result" where
  "idmef_time_new mem_ok =
     (if \<not> mem_ok 0 then Inl PRELUDE_ERROR_ENOMEM
      else Inr \<lparr>it_refcount = 1, it_sec = 0, it_usec = 0, it_gmt_offset = 0\<rparr>)"

definition idmef_time_ref :: "idmef_time \<Rightarrow> idmef_time" where
  "idmef_time_ref t = t\<lparr>it_refcount := it_refcount t + 1\<rparr>"

text \<open>The time after the call, or \<open>None\<close> when it was freed.\<close>

definition idmef_time_destroy :: "idmef_time \<Rightarrow> idmef_time option" where
  "idmef_time_destroy t =
     (if it_refcount t - 1 \<noteq> 0 then Some (t\<lparr>it_refcount := it_refcount t - 1\<rparr>) else None)"

definition idmef_time_copy :: "idmef_time \<Rightarrow> idmef_time \<Rightarrow> idmef_time" where
  "idmef_time_copy src dst =
     dst\<lparr>it_sec := it_sec src, it_usec := it_usec src, it_gmt_offset := it_gmt_offset src\<rparr>"

definition idmef_time_clone :: "(nat \<Rightarrow> bool) \<Rightarrow> idmef_time \<Rightarrow> idmef_time result" where
  "idmef_time_clone mem_ok src =
     (case idmef_time_new mem_ok of Inl e \<Rightarrow> Inl e | Inr dst \<Rightarrow> Inr (idmef_time_copy src dst))"

text \<open>\<open>gmtoff t\<close> is the offset of the local time at \<open>t\<close>, or an error.\<close>

definition idmef_time_set_from_timeval :: "(int \<Rightarrow> int result) \<Rightarrow> idmef_time \<Rightarrow> int \<times> int \<Rightarrow> unit result \<times> idmef_time" where
  "idmef_time_set_from_timeval gmtoff t tv =
     (case gmtoff (fst tv) of
        Inl e \<Rightarrow> (Inl e, t)
      | Inr off \<Rightarrow> (Inr (), t\<lparr>it_sec := word_of_int (fst tv), it_usec := word_of_int (snd tv), it_gmt_offset := word_of_int off\<rparr>))"

definition idmef_time_new_from_timeval :: "(nat \<Rightarrow> bool) \<Rightarrow> (int \<Rightarrow> int result) \<Rightarrow> int \<times> int \<Rightarrow> unit result \<times> idmef_time option" where
  "idmef_time_new_from_timeval mem_ok gmtoff tv =
     (case idmef_time_new mem_ok of
        Inl e \<Rightarrow> (Inl e, None)
      | Inr t \<Rightarrow> (case idmef_time_set_from_timeval gmtoff t tv of (r, t') \<Rightarrow> (r, Some t')))"

definition idmef_time_set_gmt_offset :: "idmef_time \<Rightarrow> u32 \<Rightarrow> idmef_time" where
  "idmef_time_set_gmt_offset t off = t\<lparr>it_gmt_offset := off\<rparr>"

definition idmef_time_set_sec :: "idmef_time \<Rightarrow> u32 \<Rightarrow> idmef_time" where
  "idmef_time_set_sec t s = t\<lparr>it_sec := s\<rparr>"

definition idmef_time_set_usec :: "idmef_time \<Rightarrow> u32 \<Rightarrow> idmef_time" where
  "idmef_time_set_usec t u = t\<lparr>it_usec := u\<rparr>"

text \<open>An error of \<open>gmtoff\<close> is ignored, and the offset that is stored was then never set (\<open>None\<close>).\<close>

definition idmef_time_set_from_time :: "(int \<Rightarrow> int result) \<Rightarrow> idmef_time \<Rightarrow> int \<Rightarrow> idmef_time option" where
  "idmef_time_set_from_time gmtoff time t =
     (case gmtoff t of
        Inl e \<Rightarrow> None
      | Inr off \<Rightarrow> Some (time\<lparr>it_gmt_offset := word_of_int off, it_sec := word_of_int t\<rparr>))"

definition idmef_time_new_from_time :: "(nat \<Rightarrow> bool) \<Rightarrow> (int \<Rightarrow> int result) \<Rightarrow> int \<Rightarrow> idmef_time result option" where
  "idmef_time_new_from_time mem_ok gmtoff t =
     (case idmef_time_new mem_ok of
        Inl e \<Rightarrow> Some (Inl e)
      | Inr time \<Rightarrow> map_option Inr (idmef_time_set_from_time gmtoff time t))"

text \<open>What \<open>gettimeofday\<close> returns is the argument \<open>clock\<close>.\<close>

definition idmef_time_set_from_gettimeofday ::
  "(int \<Rightarrow> int result) \<Rightarrow> (int \<times> int) result \<Rightarrow> idmef_time \<Rightarrow> unit result \<times> idmef_time" where
  "idmef_time_set_from_gettimeofday gmtoff clock time =
     (case clock of Inl e \<Rightarrow> (Inl e, time) | Inr tv \<Rightarrow> idmef_time_set_from_timeval gmtoff time tv)"

definition idmef_time_new_from_gettimeofday ::
  "(nat \<Rightarrow> bool) \<Rightarrow> (int \<Rightarrow> int result) \<Rightarrow> (int \<times> int) result \<Rightarrow> unit result \<times> idmef_time option" where
  "idmef_time_new_from_gettimeofday mem_ok gmtoff clock =
     (case clock of Inl e \<Rightarrow> (Inl e, None) | Inr tv \<Rightarrow> idmef_time_new_from_timeval mem_ok gmtoff tv)"

text \<open>A null pointer is \<open>None\<close>. The sum of seconds and offset is one of unsigned 32 bit numbers.\<close>

definition idmef_time_compare :: "idmef_time option \<Rightarrow> idmef_time option \<Rightarrow> int" where
  "idmef_time_compare time1 time2 =
     (case (time1, time2) of
        (None, None) \<Rightarrow> 0
      | (Some x, Some y) \<Rightarrow>
          let t1 = it_sec x + it_gmt_offset x; t2 = it_sec y + it_gmt_offset y in
          if t1 = t2 then (if it_usec x = it_usec y then 0 else if it_usec x < it_usec y then - 1 else 1)
          else if t1 < t2 then - 1 else 1
      | _ \<Rightarrow> - 1)"

section \<open>NTP time stamps\<close>

definition idmef_time_to_ntpstamp :: "idmef_time \<Rightarrow> string" where
  "idmef_time_to_ntpstamp time =
     (let ts = sTVTOTS (uint (it_sec time), uint (it_usec time));
          ui = l_ui ts + JAN_1970;
          uf = (l_uf ts + TS_ROUNDBIT) AND TS_MASK
      in ''0x'' @ radix 16 8 (unat ui) @ ''.0x'' @ radix 16 8 (unat uf))"

definition idmef_time_set_from_ntpstamp :: "idmef_time \<Rightarrow> string \<Rightarrow> u32 \<times> idmef_time" where
  "idmef_time_set_from_ntpstamp time buf =
     (case Option.bind (scan_x buf) (\<lambda>(ui, s). Option.bind (match_char (CHR ''.'') s) (\<lambda>s.
             map_option (\<lambda>(uf, s). (ui, uf)) (scan_x s))) of
        None \<Rightarrow> (- 1, time)
      | Some (ui, uf) \<Rightarrow>
          (case TSTOTV \<lparr>l_ui = ui - JAN_1970, l_uf = (uf - TS_ROUNDBIT) AND TS_MASK\<rparr> of (sec, usec) \<Rightarrow>
            (0, time\<lparr>it_sec := word_of_int sec, it_usec := word_of_int usec, it_gmt_offset := 0\<rparr>)))"

section \<open>Dates\<close>

definition parse_time_ymd :: "tm \<Rightarrow> string \<Rightarrow> (tm \<times> string) option" where
  "parse_time_ymd t buf =
     map_option (\<lambda>(t, p). let p = dropWhile isspace p in (t, if take 1 p = ''T'' then drop 1 p else p)) (strptime_ymd t buf)"

text \<open>A number of digits above six is refused.\<close>

definition digit2usec :: "u32 \<Rightarrow> nat \<Rightarrow> u32" where
  "digit2usec n digit_count = (if 6 < digit_count then generic_error else n * 10 ^ (6 - digit_count))"

definition parse_time_hmsu :: "tm \<Rightarrow> u32 \<Rightarrow> string \<Rightarrow> u32 \<times> tm \<times> u32 \<times> string" where
  "parse_time_hmsu t usec buf =
     (case strptime_hms t buf of
        None \<Rightarrow> (generic_error, t, usec, buf)
      | Some (t, p) \<Rightarrow>
          if take 1 p = ''.'' \<or> take 1 p = '','' then
            (let p = drop 1 p in
             case strtoul10 p of
               None \<Rightarrow> (generic_error, t, usec, p)
             | Some (v, e) \<Rightarrow>
                 let fraction = digit2usec (ucast v) (length p - length e) in
                 if negative fraction then (fraction, t, usec, p) else (0, t, fraction, e))
          else (0, t, usec, p))"

definition parse_time_gmt :: "tm \<Rightarrow> u32 \<Rightarrow> string \<Rightarrow> u32 \<times> tm \<times> u32" where
  "parse_time_gmt t gmtoff buf =
     (if take 1 buf = ''Z'' then (0, t, gmtoff)
      else case Option.bind (scan_2u (drop 1 buf)) (\<lambda>(h, s). Option.bind (match_char (CHR '':'') s) (\<lambda>s.
                  map_option (\<lambda>(m, s). (h, m)) (scan_2u s))) of
        None \<Rightarrow> (- 1, t, gmtoff)
      | Some (offset_hour, offset_min) \<Rightarrow>
          if take 1 buf = ''+'' then
            (0, t\<lparr>tm_min := sint (word_of_int (tm_min t) - offset_min), tm_hour := sint (word_of_int (tm_hour t) - offset_hour)\<rparr>,
             offset_hour * 3600 + offset_min * 60)
          else if take 1 buf = ''-'' then
            (0, t\<lparr>tm_min := sint (word_of_int (tm_min t) + offset_min), tm_hour := sint (word_of_int (tm_hour t) + offset_hour)\<rparr>,
             - (offset_hour * 3600 + offset_min * 60))
          else (- 1, t, gmtoff))"

text \<open>
  Without an offset the time is local: \<open>mktime\<close> converts it, and returns -1 for an error, in which case the
  offset that is stored was never set (\<open>None\<close>).
\<close>

definition idmef_time_set_from_string :: "(tm \<Rightarrow> int) \<Rightarrow> idmef_time \<Rightarrow> string \<Rightarrow> (u32 \<times> idmef_time) option" where
  "idmef_time_set_from_string mktime time buf =
     (case parse_time_ymd \<lparr>tm_sec = 0, tm_min = 0, tm_hour = 0, tm_mday = 0, tm_mon = 0, tm_year = 0\<rparr> buf of
        None \<Rightarrow> Some (generic_error, time)
      | Some (t, p) \<Rightarrow>
          let time = time\<lparr>it_usec := 0, it_gmt_offset := 0\<rparr> in
          if p = [] then Some (0, time\<lparr>it_sec := word_of_int (timegm t)\<rparr>)
          else case parse_time_hmsu t 0 p of (ret, t, usec, p) \<Rightarrow>
            let time = time\<lparr>it_usec := usec\<rparr> in
            if negative ret then Some (ret, time)
            else if p \<noteq> [] then
              (case parse_time_gmt t 0 p of (ret, t, off) \<Rightarrow>
                let time = time\<lparr>it_gmt_offset := off\<rparr> in
                if negative ret then Some (generic_error, time)
                else Some (0, time\<lparr>it_sec := word_of_int (timegm t)\<rparr>))
            else if mktime t = - 1 then None
            else Some (0, time\<lparr>it_gmt_offset := word_of_int (timegm t - mktime t), it_sec := word_of_int (mktime t)\<rparr>))"

definition idmef_time_to_string :: "idmef_time \<Rightarrow> string" where
  "idmef_time_to_string time =
     (let utc = gmtime_r (unat (it_sec time + it_gmt_offset time));
          hour_off = sint (it_gmt_offset time) sdiv 3600;
          min_off = sint (it_gmt_offset time) smod 3600 sdiv 60
      in dec_int 1 (tm_year utc + 1900) @ ''-'' @ dec_int 2 (tm_mon utc + 1) @ ''-'' @ dec_int 2 (tm_mday utc) @ ''T'' @
         dec_int 2 (tm_hour utc) @ '':'' @ dec_int 2 (tm_min utc) @ '':'' @ dec_int 2 (tm_sec utc) @ ''.'' @
         dec_min 6 (unat (it_usec time)) @ dec_sign 2 hour_off @ '':'' @ dec_int 2 min_off)"

definition idmef_time_new_from_ntpstamp :: "(nat \<Rightarrow> bool) \<Rightarrow> string \<Rightarrow> u32 result \<times> idmef_time option" where
  "idmef_time_new_from_ntpstamp mem_ok buf =
     (case idmef_time_new mem_ok of
        Inl e \<Rightarrow> (Inl e, None)
      | Inr time \<Rightarrow> (case idmef_time_set_from_ntpstamp time buf of (ret, time) \<Rightarrow>
          (Inr ret, if negative ret then None else Some time)))"

definition idmef_time_new_from_string :: "(nat \<Rightarrow> bool) \<Rightarrow> (tm \<Rightarrow> int) \<Rightarrow> string \<Rightarrow> (u32 result \<times> idmef_time option) option" where
  "idmef_time_new_from_string mem_ok mktime buf =
     (case idmef_time_new mem_ok of
        Inl e \<Rightarrow> Some (Inl e, None)
      | Inr time \<Rightarrow> map_option (\<lambda>(ret, time). (Inr ret, if negative ret then None else Some time))
          (idmef_time_set_from_string mktime time buf))"

section \<open>Scanning what was printed\<close>

lemma scan_ge: "0 < b \<Longrightarrow> acc \<le> fst (scan b k acc s)"
proof (induction b k acc s rule: scan.induct)
  case (2 b k acc c s)
  show ?case
  proof (cases "char_digit b c")
    case (Some d)
    have "acc \<le> acc * b + d" using "2.prems" by (simp add: trans_le_add1)
    then show ?thesis using "2.IH" [of d] Some "2.prems" by (cases "k = 0") simp_all
  qed simp
qed simp

lemma number_loop_scan:
  "scan 10 n acc s = (v, r) \<Longrightarrow> v \<le> to \<Longrightarrow> number_loop to n acc s = (v, r)"
proof (induction to n acc s rule: number_loop.induct)
  case (2 to n acc c s)
  show ?case
  proof (cases "n = 0 \<or> char_digit 10 c = None")
    case False
    then obtain d where d: "n \<noteq> 0" "char_digit 10 c = Some d" by auto
    let ?a = "acc * 10 + d"
    have v: "scan 10 (n - 1) ?a s = (v, r)" using "2.prems"(1) d by simp
    show ?thesis
    proof (cases "?a * 10 \<le> to")
      case True
      then show ?thesis using "2.IH" d v "2.prems"(2) by simp
    next
      case False
      have "scan 10 (n - 1) ?a s = (?a, s)"
      proof (rule ccontr)
        assume ne: "scan 10 (n - 1) ?a s \<noteq> (?a, s)"
        then obtain c' s' e where s: "s = c' # s'" "n - 1 \<noteq> 0" "char_digit 10 c' = Some e"
          by (cases s) (auto split: if_splits option.splits)
        then have "?a * 10 + e \<le> fst (scan 10 (n - 1) ?a s)" using scan_ge [of 10 "?a * 10 + e"] by simp
        then show False using v False "2.prems"(2) by simp
      qed
      then show ?thesis using False d v by simp
    qed
  qed (use "2.prems" in \<open>auto split: option.splits\<close>)
qed simp

lemma starts_digitE:
  assumes "starts_digit b s"
  obtains c d r where "s = c # r" "char_digit b c = Some d"
  using assms by (cases s) (auto simp: starts_digit_def)

lemma digit_not_space:
  assumes "starts_digit b s" "b \<le> 16"
  shows "dropWhile isspace s = s" "dropWhile (\<lambda>c. c = CHR '' '') s = s" "scan_sign s = (False, s)"
proof -
  obtain c d r where s: "s = c # r" "char_digit b c = Some d" using assms(1) by (rule starts_digitE)
  have "48 \<le> (of_char c :: nat)" using s(2) assms(2) by (auto simp: char_digit_def Let_def split: if_splits)
  then have "\<not> isspace c" "c \<noteq> CHR '' ''" "c \<noteq> CHR ''-''" "c \<noteq> CHR ''+''" by (auto simp: isspace_def Let_def)
  then show "dropWhile isspace s = s" "dropWhile (\<lambda>c. c = CHR '' '') s = s" "scan_sign s = (False, s)"
    by (simp_all add: s scan_sign_def)
qed

lemmas digit_start = starts_digit_radix [of 10, simplified] starts_digit_radix [of 16, simplified]

lemma get_number_printed:
  assumes "0 < n" "x < 10 ^ n" "lo \<le> x" "x \<le> to"
  shows "get_number lo to n (radix 10 n x @ r) = Some (int x, r)"
proof -
  have "scan 10 n 0 (radix 10 n x @ r) = (x, r)" using scan_printed [of 10 x n r 0] assms(2) by simp
  then have "number_loop to n 0 (radix 10 n x @ r) = (x, r)" using assms(4) by (rule number_loop_scan)
  then show ?thesis
    using assms digit_start(1) [of n x r] digit_not_space(2) [OF digit_start(1) [of n x r]] by (simp add: get_number_def)
qed

lemma scan_2u_printed: "x < 100 \<Longrightarrow> scan_2u (radix 10 2 x @ r) = Some (of_nat x, r)"
  using digit_start(1) [of 2 x r] digit_not_space [OF digit_start(1) [of 2 x r]] scan_printed [of 10 x 2 r 0]
  by (simp add: scan_2u_def)

lemma strtoul10_printed:
  assumes "0 < n" "x < 10 ^ n" "x < 2 ^ 64" "\<not> starts_digit 10 r"
  shows "strtoul10 (radix 10 n x @ r) = Some (of_nat x, r)"
  using assms digit_start(1) [of n x r] digit_not_space [OF digit_start(1) [of n x r]] scan_printed [of 10 x n r "length r"]
  by (simp add: strtoul10_def)

lemma scan_x_printed:
  assumes "x < 2 ^ 32" "\<not> starts_digit 16 r"
  shows "scan_x (''0x'' @ radix 16 8 x @ r) = Some (of_nat x, r)"
proof -
  have p: "dropWhile isspace (''0x'' @ radix 16 8 x @ r) = ''0x'' @ radix 16 8 x @ r" "scan_sign (''0x'' @ radix 16 8 x @ r) = (False, ''0x'' @ radix 16 8 x @ r)"
    by (simp_all add: isspace_def scan_sign_def)
  have "scan 16 (8 + length r) 0 (radix 16 8 x @ r) = (x, r)" using scan_printed [of 16 x 8 r "length r"] assms by simp
  then show ?thesis
    unfolding scan_x_def p prod.case Let_def using assms(1) digit_start(2) [of 8 x r] by simp
qed

section \<open>NTP time stamps are read back\<close>

text \<open>
  C39. A time that is written as an NTP stamp and read back has the same second, the offset 0, and a microsecond
  that is the original one or the one before it. The exception is a time at the very start of a second,
  which comes back at the end of that second: the rounding that the reader undoes wraps around.
\<close>

theorem ntpstamp_roundtrip:
  assumes "unat (it_usec t) < 1000000"
  shows "\<exists>u. idmef_time_set_from_ntpstamp t' (idmef_time_to_ntpstamp t) =
      (0, t'\<lparr>it_sec := it_sec t, it_usec := of_nat u, it_gmt_offset := 0\<rparr>) \<and>
    (if it_usec t = 0 then u = 999999 else unat (it_usec t) \<le> u + 1 \<and> u \<le> unat (it_usec t))"
proof -
  define u v where "u = int (unat (it_usec t))" and "v = TSFTOTVU (ntp_there_and_back u)"
  let ?uf = "(TVUTOTSF u + TS_ROUNDBIT) AND TS_MASK"
  have ui: "uint (it_usec t) = u" by (simp add: u_def)
  have u: "0 \<le> u" "u < 1000000" "u = int (unat (it_usec t))" using assms unfolding u_def by linarith+
  have zero: "it_usec t = 0 \<longleftrightarrow> u = 0" unfolding ui [symmetric] by (rule uint_0_iff [symmetric])
  have v0: "u = 0 \<Longrightarrow> v = 999999" using ntp_zero by (simp only: v_def)
  have v1: "u \<noteq> 0 \<Longrightarrow> u - 1 \<le> v \<and> v \<le> u" unfolding v_def using ntp_close [of u] u(1,2) by linarith
  have v: "0 \<le> v" "v \<noteq> 1000000" using v0 v1 u(1,2) by (cases "u = 0"; linarith)+
  have ts: "sTVTOTS (uint (it_sec t), u) = \<lparr>l_ui = it_sec t, l_uf = TVUTOTSF u\<rparr>"
    using u(1) by (simp add: sTVTOTS_def Let_def)
  have "scan_x (''0x'' @ radix 16 8 (unat (it_sec t + JAN_1970)) @ ''.0x'' @ radix 16 8 (unat ?uf)) =
      Some (it_sec t + JAN_1970, ''.0x'' @ radix 16 8 (unat ?uf))"
    using unsigned_less [of "it_sec t + JAN_1970", where 'a=nat] by (subst scan_x_printed) (simp_all add: starts_digit_def char_digit_def)
  moreover have "scan_x (''0x'' @ radix 16 8 (unat ?uf)) = Some (?uf, [])"
    using scan_x_printed [of "unat ?uf" "[]"] unsigned_less [of ?uf, where 'a=nat] by (simp add: starts_digit_def)
  ultimately have "idmef_time_set_from_ntpstamp t' (idmef_time_to_ntpstamp t) =
      (case TSTOTV \<lparr>l_ui = it_sec t, l_uf = ntp_there_and_back u\<rparr> of (sec, usec) \<Rightarrow>
        (0, t'\<lparr>it_sec := word_of_int sec, it_usec := word_of_int usec, it_gmt_offset := 0\<rparr>))"
    unfolding idmef_time_to_ntpstamp_def idmef_time_set_from_ntpstamp_def ui ts ntp_there_and_back_def Let_def l_fp.simps
    by (simp add: match_char_def)
  moreover have "TSTOTV \<lparr>l_ui = it_sec t, l_uf = ntp_there_and_back u\<rparr> = (uint (it_sec t), v)"
    using v(2) by (simp add: TSTOTV_def Let_def v_def)
  ultimately have "idmef_time_set_from_ntpstamp t' (idmef_time_to_ntpstamp t) =
      (0, t'\<lparr>it_sec := it_sec t, it_usec := of_nat (nat v), it_gmt_offset := 0\<rparr>)" using v(1) by simp
  moreover have "if it_usec t = 0 then nat v = 999999 else unat (it_usec t) \<le> nat v + 1 \<and> nat v \<le> unat (it_usec t)"
  proof (cases "u = 0")
    case True
    then show ?thesis using v0 zero by simp
  next
    case False
    then have "unat (it_usec t) \<le> nat v + 1" "nat v \<le> unat (it_usec t)" using v1 u(3) v(1) by linarith+
    then show ?thesis using False zero by simp
  qed
  ultimately show ?thesis by blast
qed

theorem ntpstamp_roundtrip_witness:
  "\<exists>u. idmef_time_set_from_ntpstamp \<lparr>it_refcount = 1, it_sec = 0, it_usec = 0, it_gmt_offset = 0\<rparr>
      (idmef_time_to_ntpstamp \<lparr>it_refcount = 1, it_sec = 1000, it_usec = 500, it_gmt_offset = 3600\<rparr>) =
      (0, \<lparr>it_refcount = 1, it_sec = 1000, it_usec = of_nat u, it_gmt_offset = 0\<rparr>) \<and> 500 \<le> u + 1 \<and> u \<le> 500"
  using ntpstamp_roundtrip [of "\<lparr>it_refcount = 1, it_sec = 1000, it_usec = 500, it_gmt_offset = 3600\<rparr>"
      "\<lparr>it_refcount = 1, it_sec = 0, it_usec = 0, it_gmt_offset = 0\<rparr>"] by simp

section \<open>The calendar is inverted\<close>

lemma year_start_mono: "y \<le> z \<Longrightarrow> year_start y \<le> year_start z"
proof (induction z rule: int_ge_induct)
  case (step z)
  then show ?case using year_start_Suc [of z] by (auto split: if_splits)
qed simp

lemma year_up_bounds:
  "year_start y \<le> d \<Longrightarrow> y \<le> year_up d y \<and> year_start (year_up d y) \<le> d \<and> d < year_start (year_up d y + 1)"
proof (induction d y rule: year_up.induct)
  case (1 d y)
  show ?case
  proof (cases "d < year_start (y + 1)")
    case True
    then show ?thesis using "1.prems" by (simp add: year_up.simps [of d y])
  next
    case False
    then show ?thesis using "1.IH" by (simp add: year_up.simps [of d y])
  qed
qed

lemma split_month_spec:
  assumes "0 \<le> d" "d < sum_list ls" "\<forall>l \<in> set ls. 0 < l"
  shows "\<exists>k r. split_month ls m d = (m + int k, r) \<and> k < length ls \<and> 0 \<le> r \<and> r < ls ! k \<and> d = sum_list (take k ls) + r"
  using assms
proof (induction ls arbitrary: m d)
  case (Cons l ls)
  show ?case
  proof (cases "d < l")
    case True
    then show ?thesis using Cons.prems by (intro exI [of _ 0] exI [of _ d]) simp
  next
    case False
    then obtain k r where "split_month ls (m + 1) (d - l) = (m + 1 + int k, r)" "k < length ls" "0 \<le> r" "r < ls ! k"
        "d - l = sum_list (take k ls) + r"
      using Cons.IH [of "d - l" "m + 1"] Cons.prems by auto
    then show ?thesis using False by (intro exI [of _ "Suc k"] exI [of _ r]) simp
  qed
qed simp

lemma month_lengths_bounds: "l \<in> set (month_lengths y) \<Longrightarrow> 0 < l \<and> l \<le> 31"
  by (auto simp: month_lengths_def split: if_splits)

lemma sum_month_lengths: "sum_list (month_lengths y) = (if leap_year y then 366 else 365)"
  by (simp add: month_lengths_def)

definition tm_valid :: "tm \<Rightarrow> bool" where
  "tm_valid u \<longleftrightarrow> 0 \<le> tm_sec u \<and> tm_sec u < 60 \<and> 0 \<le> tm_min u \<and> tm_min u < 60 \<and> 0 \<le> tm_hour u \<and> tm_hour u < 24 \<and>
     1 \<le> tm_mday u \<and> tm_mday u \<le> 31 \<and> 0 \<le> tm_mon u \<and> tm_mon u < 12 \<and> 1970 \<le> tm_year u + 1900 \<and> tm_year u + 1900 < 10000"

lemma timegm_gmtime:
  assumes "t < 2 ^ 32"
  shows "tm_valid (gmtime_r t)" "timegm (gmtime_r t) = int t"
    "tm_mday (gmtime_r t) \<le> month_lengths (tm_year (gmtime_r t) + 1900) ! nat (tm_mon (gmtime_r t))"
proof -
  define days rem where "days = int t div 86400" and "rem = int t mod 86400"
  define y where "y = year_up days 1970"
  have days: "0 \<le> days" "days < 49711" using assms by (simp_all add: days_def)
  have "year_start 1970 \<le> days" using days by (simp add: year_start_def)
  then have y: "1970 \<le> y" "year_start y \<le> days" "days < year_start (y + 1)" using year_up_bounds by (simp_all add: y_def)
  have "y < 10000"
  proof (rule ccontr)
    assume "\<not> y < 10000"
    then have "year_start 10000 \<le> year_start y" by (intro year_start_mono) simp
    then show False using y(2) days by (simp add: year_start_def)
  qed
  have "days - year_start y < sum_list (month_lengths y)" using y(3) by (simp add: year_start_Suc sum_month_lengths)
  moreover have "\<forall>l \<in> set (month_lengths y). 0 < l" using month_lengths_bounds by blast
  ultimately obtain k r where k: "split_month (month_lengths y) 0 (days - year_start y) = (int k, r)"
      "k < length (month_lengths y)" "0 \<le> r" "r < month_lengths y ! k" "days - year_start y = sum_list (take k (month_lengths y)) + r"
    using split_month_spec [of "days - year_start y" "month_lengths y" 0] y(2) by auto
  have "month_lengths y ! k \<le> 31" using month_lengths_bounds [OF nth_mem [OF k(2)]] by simp
  moreover have k12: "k < 12" using k(2) by (simp add: month_lengths_def)
  moreover have rem: "0 \<le> rem" "rem < 86400" by (simp_all add: rem_def)
  have g: "gmtime_r t = \<lparr>tm_sec = rem mod 60, tm_min = rem div 60 mod 60, tm_hour = rem div 3600,
      tm_mday = r + 1, tm_mon = int k, tm_year = y - 1900\<rparr>"
    using k(1) by (simp add: gmtime_r_def days_def [symmetric] rem_def [symmetric] y_def [symmetric] Let_def)
  have h: "0 \<le> rem div 3600" "rem div 3600 < 24" using rem by linarith+
  ultimately show "tm_valid (gmtime_r t)"
    using k(3,4) y(1) \<open>y < 10000\<close> k12 h unfolding g tm_valid_def by simp
  have "rem div 3600 = rem div 60 div 60" by (simp add: zdiv_zmult2_eq [symmetric])
  then have "(rem div 3600 * 60 + rem div 60 mod 60) * 60 + rem mod 60 = rem" by simp
  moreover have "days * 86400 + rem = int t" by (simp add: days_def rem_def)
  moreover have "int k mod 12 = int k" "int k div 12 = 0" using k12 by simp_all
  then have "timegm (gmtime_r t) = ((days * 24 + rem div 3600) * 60 + rem div 60 mod 60) * 60 + rem mod 60"
    using k(5) unfolding g timegm_def by (simp add: Let_def)
  ultimately show "timegm (gmtime_r t) = int t" by simp
  show "tm_mday (gmtime_r t) \<le> month_lengths (tm_year (gmtime_r t) + 1900) ! nat (tm_mon (gmtime_r t))"
    using k(4) unfolding g by simp
qed

section \<open>Dates are read back\<close>

lemma radix_4: "radix b 4 x = [digit_char (x div b div b div b mod b), digit_char (x div b div b mod b), digit_char (x div b mod b), digit_char (x mod b)]"
  by (simp add: numeral_eq_Suc)

lemma dec_year:
  assumes "1000 \<le> y" "y < 10000"
  shows "dec_int 1 (int y) = radix 10 4 y"
proof -
  define a b c where "a = y div 10" and "b = a div 10" and "c = b div 10"
  have "\<not> y < 10" "\<not> a < 10" "\<not> b < 10" "c < 10" using assms unfolding a_def b_def c_def by linarith+
  then have "dec y = [digit_char c, digit_char (b mod 10), digit_char (a mod 10), digit_char (y mod 10)]"
    by (simp only: dec.simps [of y] a_def [symmetric] dec.simps [of a] b_def [symmetric] dec.simps [of b] c_def [symmetric] dec.simps [of c])
      simp
  moreover have "c mod 10 = c" using \<open>c < 10\<close> by simp
  ultimately show ?thesis
    unfolding radix_4 a_def [symmetric] b_def [symmetric] c_def [symmetric] by (simp add: dec_int_def dec_min_def)
qed

lemma dec_two: "0 \<le> z \<Longrightarrow> z < 100 \<Longrightarrow> dec_int 2 z = radix 10 2 (nat z)"
  by (simp add: dec_int_def dec_min_eq)

lemma strptime_ymd_printed:
  assumes "0 \<le> y" "y < 10000" "1 \<le> m" "m \<le> 12" "1 \<le> d" "d \<le> 31"
  shows "strptime_ymd t (radix 10 4 (nat y) @ ''-'' @ radix 10 2 (nat m) @ ''-'' @ radix 10 2 (nat d) @ r) =
    Some (t\<lparr>tm_year := y - 1900, tm_mon := m - 1, tm_mday := d\<rparr>, r)"
  using assms by (simp add: strptime_ymd_def get_number_printed match_char_def)

lemma strptime_hms_printed:
  assumes "0 \<le> h" "h < 24" "0 \<le> m" "m < 60" "0 \<le> x" "x < 60"
  shows "strptime_hms t (radix 10 2 (nat h) @ '':'' @ radix 10 2 (nat m) @ '':'' @ radix 10 2 (nat x) @ r) =
    Some (t\<lparr>tm_hour := h, tm_min := m, tm_sec := x\<rparr>, r)"
  using assms by (simp add: strptime_hms_def get_number_printed match_char_def)

lemma parse_hmsu_printed:
  assumes "0 \<le> h" "h < 24" "0 \<le> m" "m < 60" "0 \<le> x" "x < 60" "u < 1000000" "\<not> starts_digit 10 r"
  shows "parse_time_hmsu t us (radix 10 2 (nat h) @ '':'' @ radix 10 2 (nat m) @ '':'' @ radix 10 2 (nat x) @ ''.'' @ radix 10 6 u @ r) =
    (0, t\<lparr>tm_hour := h, tm_min := m, tm_sec := x\<rparr>, of_nat u, r)"
proof -
  have "ucast (of_nat u :: u64) = (of_nat u :: u32)" using assms(7) by (simp add: word_unat_eq_iff unat_byte_of_u32 unsigned_ucast_eq unat_of_nat_small take_bit_nat_eq_self)
  moreover have "\<not> negative (of_nat u :: u32)" using assms(7) by (intro not_negative) (simp add: unat_of_nat_small)
  ultimately show ?thesis
    unfolding parse_time_hmsu_def strptime_hms_printed [OF assms(1-6)]
    using strtoul10_printed [of 6 u r] assms(7,8) by (simp add: digit2usec_def Let_def)
qed

lemma sint_u32_small: "- (2 ^ 31) \<le> z \<Longrightarrow> z < 2 ^ 31 \<Longrightarrow> sint (word_of_int z :: u32) = z"
  by (simp add: signed_of_int signed_take_bit_int_eq_self)

text \<open>The text of an offset, and the effect of reading it on the broken-down time.\<close>

lemma parse_gmt_printed:
  assumes "h < 100" "m < 100" "\<bar>tm_min t\<bar> < 1000" "\<bar>tm_hour t\<bar> < 1000"
  shows "parse_time_gmt t g (''+'' @ radix 10 2 h @ '':'' @ radix 10 2 m) =
      (0, t\<lparr>tm_min := tm_min t - int m, tm_hour := tm_hour t - int h\<rparr>, word_of_int (int h * 3600 + int m * 60))"
    "parse_time_gmt t g (''-'' @ radix 10 2 h @ '':'' @ radix 10 2 m) =
      (0, t\<lparr>tm_min := tm_min t + int m, tm_hour := tm_hour t + int h\<rparr>, word_of_int (- (int h * 3600 + int m * 60)))"
proof -
  have s: "scan_2u (radix 10 2 h @ r) = Some (of_nat h, r)" "scan_2u (radix 10 2 m) = Some (of_nat m, [])" for r
    using scan_2u_printed [of h r] scan_2u_printed [of m "[]"] assms(1,2) by simp_all
  have i: "sint (word_of_int (tm_min t) - of_nat m :: u32) = tm_min t - int m" "sint (word_of_int (tm_hour t) - of_nat h :: u32) = tm_hour t - int h"
    "sint (word_of_int (tm_min t) + of_nat m :: u32) = tm_min t + int m" "sint (word_of_int (tm_hour t) + of_nat h :: u32) = tm_hour t + int h"
    using assms sint_u32_small [of "tm_min t - int m"] sint_u32_small [of "tm_hour t - int h"] sint_u32_small [of "tm_min t + int m"]
      sint_u32_small [of "tm_hour t + int h"] by simp_all
  show "parse_time_gmt t g (''+'' @ radix 10 2 h @ '':'' @ radix 10 2 m) =
      (0, t\<lparr>tm_min := tm_min t - int m, tm_hour := tm_hour t - int h\<rparr>, word_of_int (int h * 3600 + int m * 60))"
    "parse_time_gmt t g (''-'' @ radix 10 2 h @ '':'' @ radix 10 2 m) =
      (0, t\<lparr>tm_min := tm_min t + int m, tm_hour := tm_hour t + int h\<rparr>, word_of_int (- (int h * 3600 + int m * 60)))"
    by (simp_all add: parse_time_gmt_def s i match_char_def)
qed

lemma timegm_shift:
  "timegm (u\<lparr>tm_min := tm_min u + m, tm_hour := tm_hour u + h\<rparr>) = timegm u + h * 3600 + m * 60"
  by (simp add: timegm_def Let_def algebra_simps)

definition offset_text :: "int \<Rightarrow> string" where
  "offset_text off = dec_sign 2 (off sdiv 3600) @ '':'' @ dec_int 2 (off smod 3600 sdiv 60)"

text \<open>Offsets that are read back: whole minutes east of Greenwich, and whole hours west of it.\<close>

definition offset_printable :: "int \<Rightarrow> bool" where
  "offset_printable off \<longleftrightarrow> \<bar>off\<bar> < 360000 \<and> (if 0 \<le> off then off mod 60 = 0 else off mod 3600 = 0)"

lemma parse_offset_text:
  assumes "offset_printable off" "tm_valid u"
  shows "\<exists>h m. parse_time_gmt u g (offset_text off) = (0, u\<lparr>tm_min := tm_min u + m, tm_hour := tm_hour u + h\<rparr>, word_of_int off) \<and>
    h * 3600 + m * 60 = - off"
proof -
  have u: "\<bar>tm_min u\<bar> < 1000" "\<bar>tm_hour u\<bar> < 1000" using assms(2) by (auto simp: tm_valid_def)
  show ?thesis
  proof (cases "0 \<le> off")
    case True
    have "60 dvd off" "off < 360000" using assms(1) True by (auto simp: offset_printable_def dvd_eq_mod_eq_0)
    then obtain k where k: "off = 60 * k" "0 \<le> k" "k < 6000" using True by (auto elim: dvdE)
    define h m where "h = nat (k div 60)" and "m = nat (k mod 60)"
    have d: "off div 3600 = int h" "off mod 3600 = 60 * int m"
      using k mod_mult_mult1 [of 60 k 60] zdiv_zmult2_eq [of 60 "60 * k" 60] by (simp_all add: h_def m_def)
    have eq: "int h * 3600 + int m * 60 = off" using d div_mult_mod_eq [of off 3600] by simp
    have hm: "h < 100" "m < 100" using k by (simp_all add: h_def m_def)
    have "off sdiv 3600 = int h" "off smod 3600 = 60 * int m"
      using True d by (cases "off = 0"; simp add: signed_modulo_int_def signed_divide_int_def minus_div_mult_eq_mod)+
    then have "offset_text off = ''+'' @ radix 10 2 h @ '':'' @ radix 10 2 m"
      using hm by (cases "m = 0") (simp_all add: offset_text_def signed_divide_int_def dec_sign_def dec_int_def dec_min_eq)
    then show ?thesis
      using parse_gmt_printed(1) [OF hm u, of g] eq by (intro exI [of _ "- int h"] exI [of _ "- int m"]) simp
  next
    case False
    define h where "h = nat ((- off) div 3600)"
    have "off mod 3600 = 0" "- 360000 < off" using assms(1) False by (auto simp: offset_printable_def)
    then have "3600 dvd - off" by (simp add: dvd_eq_mod_eq_0 zmod_zminus1_eq_if)
    then have eq: "int h * 3600 = - off" using False by (simp add: h_def)
    then have h: "h < 100" "0 < h" using False \<open>- 360000 < off\<close> by linarith+
    have off: "off = - (int h * 3600)" using eq by simp
    have "off sdiv 3600 = - int h" "off smod 3600 = 0"
      using h by (simp_all add: off signed_divide_int_def signed_modulo_int_def)
    then have "offset_text off = ''-'' @ radix 10 2 h @ '':'' @ radix 10 2 0"
      using h by (simp add: offset_text_def dec_sign_def dec_int_def dec_min_eq)
    then show ?thesis
      using parse_gmt_printed(2) [OF h(1) _ u, of 0 g] by (intro exI [of _ "int h"] exI [of _ 0]) (simp add: off)
  qed
qed

lemma offset_text_start: "\<exists>c r. offset_text off = c # r \<and> char_digit 10 c = None"
  by (simp add: offset_text_def dec_sign_def char_digit_def)

definition time_text :: "tm \<Rightarrow> nat \<Rightarrow> int \<Rightarrow> string" where
  "time_text u usec off = radix 10 2 (nat (tm_hour u)) @ '':'' @ radix 10 2 (nat (tm_min u)) @ '':'' @ radix 10 2 (nat (tm_sec u)) @
     ''.'' @ radix 10 6 usec @ offset_text off"

lemma to_string_text:
  assumes "tm_valid u" "u = gmtime_r (unat (it_sec t + it_gmt_offset t))" "unat (it_usec t) < 1000000"
  shows "idmef_time_to_string t = radix 10 4 (nat (tm_year u + 1900)) @ ''-'' @ radix 10 2 (nat (tm_mon u + 1)) @ ''-'' @
      radix 10 2 (nat (tm_mday u)) @ ''T'' @ time_text u (unat (it_usec t)) (sint (it_gmt_offset t))"
proof -
  have "1000 \<le> nat (tm_year u + 1900)" "nat (tm_year u + 1900) < 10000" "0 \<le> tm_year u + 1900" using assms(1) by (auto simp: tm_valid_def)
  then have "dec_int 1 (tm_year u + 1900) = radix 10 4 (nat (tm_year u + 1900))"
    using dec_year [of "nat (tm_year u + 1900)"] by (simp only: int_nat_eq if_True)
  then show ?thesis
    using assms(1,3)
    by (simp add: idmef_time_to_string_def assms(2) [symmetric] dec_two dec_min_eq tm_valid_def time_text_def offset_text_def Let_def)
qed

text \<open>
  C38: A time that is written as a date and read back is the same time, with its microseconds and its offset,
  for every offset of whole minutes east of Greenwich and of whole hours west of it, as long as the local time is in
  the range of 32 bits. Of the object that is read into, only the reference count remains.
\<close>

theorem time_string_roundtrip:
  assumes "unat (it_usec t) < 1000000" "offset_printable (sint (it_gmt_offset t))"
    and "0 \<le> uint (it_sec t) + sint (it_gmt_offset t)" "uint (it_sec t) + sint (it_gmt_offset t) < 2 ^ 32"
  shows "idmef_time_set_from_string mktime t' (idmef_time_to_string t) = Some (0, idmef_time_copy t t')"
proof -
  define off where "off = sint (it_gmt_offset t)"
  define u where "u = gmtime_r (unat (it_sec t + it_gmt_offset t))"
  let ?n = "unat (it_sec t + it_gmt_offset t)" and ?us = "unat (it_usec t)"
  define z where "z = uint (it_sec t) + off"
  have "it_sec t + it_gmt_offset t = word_of_int z" by (simp add: z_def off_def)
  moreover have "uint (word_of_int z :: u32) = z"
    using assms(3,4) by (simp only: uint_word_of_int_eq) (simp add: z_def off_def take_bit_int_eq_self)
  ultimately have n: "int ?n = uint (it_sec t) + off" by (simp only: uint_nat [symmetric] z_def)
  have u: "tm_valid u" "timegm u = uint (it_sec t) + off"
    using timegm_gmtime [of ?n] unsigned_less [of "it_sec t + it_gmt_offset t", where 'a=nat] n by (simp_all add: u_def)
  obtain c r where o: "offset_text off = c # r" "char_digit 10 c = None" using offset_text_start by blast
  define hms where "hms = time_text u ?us off"
  have printed: "idmef_time_to_string t = radix 10 4 (nat (tm_year u + 1900)) @ ''-'' @ radix 10 2 (nat (tm_mon u + 1)) @ ''-'' @
      radix 10 2 (nat (tm_mday u)) @ ''T'' @ hms"
    using to_string_text [OF u(1) u_def assms(1)] by (simp add: hms_def off_def)
  let ?z = "\<lparr>tm_sec = 0, tm_min = 0, tm_hour = 0, tm_mday = 0, tm_mon = 0, tm_year = 0\<rparr>"
  let ?d = "?z\<lparr>tm_year := tm_year u, tm_mon := tm_mon u, tm_mday := tm_mday u\<rparr>"
  have ymd: "parse_time_ymd ?z (idmef_time_to_string t) = Some (?d, hms)"
    unfolding printed parse_time_ymd_def
    using strptime_ymd_printed [of "tm_year u + 1900" "tm_mon u + 1" "tm_mday u" ?z "''T'' @ hms"] u(1)
    by (simp add: tm_valid_def isspace_def Let_def)
  have ud: "?d\<lparr>tm_hour := tm_hour u, tm_min := tm_min u, tm_sec := tm_sec u\<rparr> = u" by simp
  have "\<not> starts_digit 10 (offset_text off)" using o by (simp add: starts_digit_def)
  then have hmsu: "parse_time_hmsu ?d 0 hms = (0, u, of_nat ?us, offset_text off)"
    using parse_hmsu_printed [of "tm_hour u" "tm_min u" "tm_sec u" ?us "offset_text off" ?d 0] u(1) assms(1) ud
    by (simp add: hms_def time_text_def tm_valid_def)
  obtain h m where g: "parse_time_gmt u 0 (offset_text off) = (0, u\<lparr>tm_min := tm_min u + m, tm_hour := tm_hour u + h\<rparr>, word_of_int off)"
      "h * 3600 + m * 60 = - off"
    using parse_offset_text [of off u 0] assms(2) u(1) by (auto simp: off_def)
  have "timegm (u\<lparr>tm_min := tm_min u + m, tm_hour := tm_hour u + h\<rparr>) = uint (it_sec t)"
    using timegm_shift [of u h m] u(2) g(2) by simp
  moreover have "hms \<noteq> []" "offset_text off \<noteq> []" using o by (simp_all add: hms_def time_text_def)
  ultimately show ?thesis
    unfolding idmef_time_set_from_string_def ymd
    by (simp add: hmsu [simplified] g(1) idmef_time_copy_def Let_def) (simp add: off_def)
qed

theorem time_string_roundtrip_witness:
  "idmef_time_set_from_string (\<lambda>_. 0) \<lparr>it_refcount = 1, it_sec = 0, it_usec = 0, it_gmt_offset = 0\<rparr>
     (idmef_time_to_string \<lparr>it_refcount = 1, it_sec = 1700000000, it_usec = 42, it_gmt_offset = 19800\<rparr>) =
   Some (0, \<lparr>it_refcount = 1, it_sec = 1700000000, it_usec = 42, it_gmt_offset = 19800\<rparr>)"
  using time_string_roundtrip [of "\<lparr>it_refcount = 1, it_sec = 1700000000, it_usec = 42, it_gmt_offset = 19800\<rparr>" "\<lambda>_. 0"
      "\<lparr>it_refcount = 1, it_sec = 0, it_usec = 0, it_gmt_offset = 0\<rparr>"]
  by (simp add: offset_printable_def idmef_time_copy_def)

lemma half_hour_west_calendar:
  "gmtime_r 1699987400 = \<lparr>tm_sec = 20, tm_min = 43, tm_hour = 18, tm_mday = 14, tm_mon = 10, tm_year = 123\<rparr>"
  "timegm \<lparr>tm_sec = 20, tm_min = 40, tm_hour = 21, tm_mday = 14, tm_mon = 10, tm_year = 123\<rparr> = 1699998020"
proof -
  have "year_up 19675 1970 = 2023" by (simp add: year_up.simps year_start_def)
  then show "gmtime_r 1699987400 = \<lparr>tm_sec = 20, tm_min = 43, tm_hour = 18, tm_mday = 14, tm_mon = 10, tm_year = 123\<rparr>"
    by (simp add: gmtime_r_def year_start_def month_lengths_def leap_year_def Let_def)
qed (simp add: timegm_def year_start_def month_lengths_def leap_year_def Let_def)

text \<open>
  West of Greenwich an offset that is not a whole number of hours is not read back. The minutes are printed
  with a sign of their own, of which the reader takes the sign and one digit: half past three hours west
  becomes almost three hours, and the time is off by 33 minutes.
\<close>

theorem half_hour_west_not_read_back:
  "idmef_time_to_string \<lparr>it_refcount = 1, it_sec = 1700000000, it_usec = 123456, it_gmt_offset = - 12600\<rparr> =
     ''2023-11-14T18:43:20.123456-03:-30'' \<and>
   idmef_time_set_from_string mktime t ''2023-11-14T18:43:20.123456-03:-30'' =
     Some (0, t\<lparr>it_sec := 1699998020, it_usec := 123456, it_gmt_offset := - 10620\<rparr>)"
proof
  show "idmef_time_to_string \<lparr>it_refcount = 1, it_sec = 1700000000, it_usec = 123456, it_gmt_offset = - 12600\<rparr> =
     ''2023-11-14T18:43:20.123456-03:-30''"
    by (simp add: idmef_time_to_string_def half_hour_west_calendar dec_int_def dec_sign_def dec_min_def dec.simps digit_char_def
        signed_divide_int_def signed_modulo_int_def Let_def)
  let ?z = "\<lparr>tm_sec = 0, tm_min = 0, tm_hour = 0, tm_mday = 0, tm_mon = 0, tm_year = 0\<rparr>"
  let ?d = "\<lparr>tm_sec = 0, tm_min = 0, tm_hour = 0, tm_mday = 14, tm_mon = 10, tm_year = 123\<rparr>"
  let ?h = "\<lparr>tm_sec = 20, tm_min = 43, tm_hour = 18, tm_mday = 14, tm_mon = 10, tm_year = 123\<rparr>"
  have "parse_time_ymd ?z ''2023-11-14T18:43:20.123456-03:-30'' = Some (?d, ''18:43:20.123456-03:-30'')"
    by (simp add: parse_time_ymd_def strptime_ymd_def get_number_def match_char_def starts_digit_def char_digit_def isspace_def Let_def)
  moreover have "parse_time_hmsu ?d 0 ''18:43:20.123456-03:-30'' = (0, ?h, 123456, ''-03:-30'')"
    by (simp add: parse_time_hmsu_def strptime_hms_def get_number_def match_char_def strtoul10_def scan_sign_def starts_digit_def
        char_digit_def isspace_def digit2usec_def Let_def)
  moreover have "parse_time_gmt ?h 0 ''-03:-30'' = (0, ?h\<lparr>tm_min := 40, tm_hour := 21\<rparr>, - 10620)"
    by (simp add: parse_time_gmt_def scan_2u_def scan_sign_def match_char_def starts_digit_def char_digit_def isspace_def Let_def)
  ultimately show "idmef_time_set_from_string mktime t ''2023-11-14T18:43:20.123456-03:-30'' =
     Some (0, t\<lparr>it_sec := 1699998020, it_usec := 123456, it_gmt_offset := - 10620\<rparr>)"
    by (simp add: idmef_time_set_from_string_def half_hour_west_calendar Let_def)
qed

section \<open>Comparison\<close>

definition local_time :: "idmef_time \<Rightarrow> int" where
  "local_time t = uint (it_sec t) + sint (it_gmt_offset t)"

text \<open>The microseconds of the local time, as one number.\<close>

definition local_usec :: "idmef_time \<Rightarrow> int" where
  "local_usec t = local_time t * 1000000 + uint (it_usec t)"

lemma local_time_word:
  assumes "0 \<le> local_time t" "local_time t < 2 ^ 32"
  shows "uint (it_sec t + it_gmt_offset t) = local_time t"
proof -
  have "it_sec t + it_gmt_offset t = word_of_int (local_time t)" by (simp add: local_time_def)
  moreover have "uint (word_of_int (local_time t) :: u32) = local_time t"
    using assms by (simp only: uint_word_of_int_eq) (simp add: take_bit_int_eq_self)
  ultimately show ?thesis by simp
qed

text \<open>
  Two times compare as their local times do, and not as the instants that they stand for: the same instant with
  two different offsets compares as different.
\<close>

theorem time_compare_is_local:
  assumes "0 \<le> local_time x" "local_time x < 2 ^ 32" "0 \<le> local_time y" "local_time y < 2 ^ 32"
    and "uint (it_usec x) < 1000000" "uint (it_usec y) < 1000000"
  shows "idmef_time_compare (Some x) (Some y) = sgn (local_usec x - local_usec y) \<and>
    (it_sec x = it_sec y \<and> it_usec x = it_usec y \<longrightarrow>
      (idmef_time_compare (Some x) (Some y) = 0 \<longleftrightarrow> it_gmt_offset x = it_gmt_offset y))"
proof -
  note w = local_time_word [OF assms(1,2)] local_time_word [OF assms(3,4)]
  have eq: "it_sec x + it_gmt_offset x = it_sec y + it_gmt_offset y \<longleftrightarrow> local_time x = local_time y"
    by (simp add: word_uint_eq_iff w)
  have lt: "it_sec x + it_gmt_offset x < it_sec y + it_gmt_offset y \<longleftrightarrow> local_time x < local_time y"
    by (simp add: word_less_def w)
  have us: "it_usec x = it_usec y \<longleftrightarrow> uint (it_usec x) = uint (it_usec y)" "it_usec x < it_usec y \<longleftrightarrow> uint (it_usec x) < uint (it_usec y)"
    by (simp_all add: word_uint_eq_iff word_less_def)
  have "idmef_time_compare (Some x) (Some y) = sgn (local_usec x - local_usec y)"
  proof -
    have "local_usec x < local_usec y \<longleftrightarrow> local_time x < local_time y \<or> local_time x = local_time y \<and> uint (it_usec x) < uint (it_usec y)"
      "local_usec y < local_usec x \<longleftrightarrow> local_time y < local_time x \<or> local_time y = local_time x \<and> uint (it_usec y) < uint (it_usec x)"
      using assms(5,6) uint_ge_0 [of "it_usec x"] uint_ge_0 [of "it_usec y"] unfolding local_usec_def by linarith+
    then show ?thesis
      using linorder_neq_iff [of "local_usec x" "local_usec y"] by (auto simp: idmef_time_compare_def Let_def eq lt us sgn_if)
  qed
  moreover have "it_sec x = it_sec y \<and> it_usec x = it_usec y \<longrightarrow>
      (idmef_time_compare (Some x) (Some y) = 0 \<longleftrightarrow> it_gmt_offset x = it_gmt_offset y)"
    by (simp add: idmef_time_compare_def Let_def)
  ultimately show ?thesis by blast
qed

theorem time_compare_is_local_witness:
  "idmef_time_compare (Some \<lparr>it_refcount = 1, it_sec = 1000, it_usec = 5, it_gmt_offset = 3600\<rparr>)
     (Some \<lparr>it_refcount = 1, it_sec = 1000, it_usec = 5, it_gmt_offset = 0\<rparr>) = 1"
  using time_compare_is_local [of "\<lparr>it_refcount = 1, it_sec = 1000, it_usec = 5, it_gmt_offset = 3600\<rparr>"
      "\<lparr>it_refcount = 1, it_sec = 1000, it_usec = 5, it_gmt_offset = 0\<rparr>"]
  by (simp add: local_time_def local_usec_def)

end
