(* ===== verification/Criteria.thy ===== *)
theory Criteria
  imports PError
begin

text \<open>
  Criteria on messages (\<open>src/idmef-criteria.c\<close>) and the matching of criterion values against the values of a message
  (\<open>src/idmef-criterion-value.c\<close>). A criteria is a tree of boolean operators over criteria on single paths. Types
  and functions that a criterion refers to are parameters: the path and its lookup in an object (\<open>pget\<close>), and
  the criterion value with the match function that it holds (\<open>m\<close>). A negative \<open>int\<close> is an error.
\<close>

section \<open>Operators\<close>

abbreviation OP_AND :: u32 where "OP_AND \<equiv> 0x40"
abbreviation OP_OR :: u32 where "OP_OR \<equiv> 0x80"
abbreviation OP_NOT :: u32 where "OP_NOT \<equiv> 0x8000"
abbreviation OP_NOCASE :: u32 where "OP_NOCASE \<equiv> 0x4000"
abbreviation OP_EQUAL :: u32 where "OP_EQUAL \<equiv> 1"
abbreviation OP_LESSER :: u32 where "OP_LESSER \<equiv> 2"
abbreviation OP_GREATER :: u32 where "OP_GREATER \<equiv> 4"
abbreviation OP_SUBSTR :: u32 where "OP_SUBSTR \<equiv> 8"
abbreviation OP_REGEX :: u32 where "OP_REGEX \<equiv> 0x10"
abbreviation OP_NULL :: u32 where "OP_NULL \<equiv> 0x20"
abbreviation OP_NOT_NULL :: u32 where "OP_NOT_NULL \<equiv> 0x8020"

definition operator_table :: "(u32 \<times> string) list" where
  "operator_table = [
     (OP_AND, ''&&''), (OP_OR, ''||''), (OP_EQUAL, ''=''), (OP_EQUAL OR OP_NOCASE, ''=*''),
     (OP_NOT OR OP_EQUAL, ''!=''), (OP_NOT OR OP_EQUAL OR OP_NOCASE, ''!=*''),
     (OP_LESSER, ''<''), (OP_GREATER, ''>''), (OP_LESSER OR OP_EQUAL, ''<=''), (OP_GREATER OR OP_EQUAL, ''>=''),
     (OP_REGEX, ''~''), (OP_REGEX OR OP_NOCASE, ''~*''), (OP_NOT OR OP_REGEX, ''!~''), (OP_NOT OR OP_REGEX OR OP_NOCASE, ''!~*''),
     (OP_SUBSTR, ''<>''), (OP_SUBSTR OR OP_NOCASE, ''<>*''), (OP_NOT OR OP_SUBSTR, ''!<>''), (OP_NOT OR OP_SUBSTR OR OP_NOCASE, ''!<>*''),
     (OP_NOT_NULL, ''''), (OP_NULL, ''!'')]"

text \<open>The table has no end mark: for an operator that is not in it the loop reads behind the table (\<open>None\<close>).\<close>

definition idmef_criteria_operator_to_string :: "u32 \<Rightarrow> string option" where
  "idmef_criteria_operator_to_string op = map_of operator_table op"

section \<open>Values\<close>

text \<open>A value is a scalar or a list, whose entries may be null pointers.\<close>

datatype 'v idmef_value = Scalar 'v | VList "'v idmef_value option list"

definition idmef_value_is_list :: "'v idmef_value \<Rightarrow> bool" where
  "idmef_value_is_list v = (case v of Scalar _ \<Rightarrow> False | VList _ \<Rightarrow> True)"

text \<open>The counters of \<open>struct match_cb\<close>: matches and mismatches.\<close>

record match_cb =
  mcb_match :: u32
  mcb_nmatch :: u32

definition count_match :: "bool \<Rightarrow> match_cb \<Rightarrow> match_cb" where
  "count_match hit mcb = (if hit then mcb\<lparr>mcb_match := mcb_match mcb + 1\<rparr> else mcb\<lparr>mcb_nmatch := mcb_nmatch mcb + 1\<rparr>)"

definition match_leaf :: "int \<Rightarrow> match_cb \<Rightarrow> int \<times> match_cb" where
  "match_leaf ret mcb = (if ret < 0 then (ret, mcb) else (0, count_match (0 < ret) mcb))"

text \<open>\<open>idmef_value_iterate\<close> with this callback is \<open>match_iterate\<close> on the entries of a list.\<close>

fun do_match_cb :: "('cv \<Rightarrow> u32 \<Rightarrow> 'v option \<Rightarrow> int) \<Rightarrow> 'cv option \<Rightarrow> u32 \<Rightarrow> 'v idmef_value option \<Rightarrow> match_cb \<Rightarrow> int \<times> match_cb"
  and match_iterate :: "('cv \<Rightarrow> u32 \<Rightarrow> 'v option \<Rightarrow> int) \<Rightarrow> 'cv option \<Rightarrow> u32 \<Rightarrow> 'v idmef_value option list \<Rightarrow> match_cb \<Rightarrow> int \<times> match_cb"
where
  "do_match_cb m None op v mcb = (0, count_match (if op = OP_NOT_NULL then v \<noteq> None else v = None) mcb)"
| "do_match_cb m (Some cv) op None mcb = match_leaf (m cv op None) mcb"
| "do_match_cb m (Some cv) op (Some (Scalar x)) mcb = match_leaf (m cv op (Some x)) mcb"
| "do_match_cb m (Some cv) op (Some (VList vs)) mcb = match_iterate m (Some cv) op vs mcb"
| "match_iterate m cv op [] mcb = (0, mcb)"
| "match_iterate m cv op (v # vs) mcb =
     (case do_match_cb m cv op v mcb of (ret, mcb') \<Rightarrow>
        if ret < 0 then (ret, mcb') else match_iterate m cv op vs mcb')"

definition my_value_match :: "('cv \<Rightarrow> u32 \<Rightarrow> 'v option \<Rightarrow> int) \<Rightarrow> 'cv option \<Rightarrow> u32 \<Rightarrow> 'v idmef_value option \<Rightarrow> match_cb \<Rightarrow> int \<times> match_cb" where
  "my_value_match m cv op v mcb =
     (case v of Some (VList vs) \<Rightarrow> match_iterate m cv op vs mcb | _ \<Rightarrow> do_match_cb m cv op v mcb)"

definition idmef_criterion_value_match :: "('cv \<Rightarrow> u32 \<Rightarrow> 'v option \<Rightarrow> int) \<Rightarrow> 'cv option \<Rightarrow> 'v idmef_value option \<Rightarrow> u32 \<Rightarrow> int" where
  "idmef_criterion_value_match m cv v op =
     (case my_value_match m cv op v \<lparr>mcb_match = 0, mcb_nmatch = 0\<rparr> of (ret, mcb) \<Rightarrow>
        if ret < 0 then ret
        else if (case v of None \<Rightarrow> False | Some x \<Rightarrow> idmef_value_is_list x) \<and> op \<noteq> OP_NOT_NULL \<and> op = OP_NULL
        then (if mcb_nmatch mcb = 0 then 1 else 0)
        else if (case v of None \<Rightarrow> False | Some x \<Rightarrow> idmef_value_is_list x) \<and> op \<noteq> OP_NOT_NULL \<and> op AND OP_NOT \<noteq> 0 \<and> 0 < mcb_nmatch mcb
        then 0
        else sint (mcb_match mcb))"

section \<open>Criteria\<close>

datatype ('p, 'cv) idmef_criteria =
    Criterion 'p "'cv option" u32
  | Node u32 "('p, 'cv) idmef_criteria option" "('p, 'cv) idmef_criteria option"

fun idmef_criteria_get_operator :: "('p, 'cv) idmef_criteria \<Rightarrow> u32" where
  "idmef_criteria_get_operator (Criterion p v op) = op"
| "idmef_criteria_get_operator (Node op l r) = op"

text \<open>The source tells the two kinds of nodes apart by the operator.\<close>

definition criterion_operator :: "u32 \<Rightarrow> bool" where
  "criterion_operator op \<longleftrightarrow> \<not> (op AND (OP_OR OR OP_AND) \<noteq> 0 \<or> op = OP_NOT)"

definition idmef_criteria_is_criterion :: "('p, 'cv) idmef_criteria \<Rightarrow> bool" where
  "idmef_criteria_is_criterion c = criterion_operator (idmef_criteria_get_operator c)"

definition idmef_criterion_new :: "(nat \<Rightarrow> bool) \<Rightarrow> 'p \<Rightarrow> 'cv option \<Rightarrow> u32 \<Rightarrow> ('p, 'cv) idmef_criteria result" where
  "idmef_criterion_new mem_ok path v op =
     (if v = None \<and> op AND OP_NULL = 0 then Inl PRELUDE_ERROR_ASSERTION
      else if \<not> mem_ok 0 then Inl PRELUDE_ERROR_ENOMEM
      else Inr (Criterion path v op))"

fun idmef_criteria_clone :: "(nat \<Rightarrow> bool) \<Rightarrow> ('p, 'cv) idmef_criteria \<Rightarrow> ('p, 'cv) idmef_criteria result" where
  "idmef_criteria_clone mem_ok (Criterion p v op) = idmef_criterion_new mem_ok p v op"
| "idmef_criteria_clone mem_ok (Node op l r) =
     (if \<not> mem_ok 0 then Inl PRELUDE_ERROR_ENOMEM
      else case (case l of None \<Rightarrow> Inr None | Some c \<Rightarrow> (case idmef_criteria_clone mem_ok c of Inl e \<Rightarrow> Inl e | Inr d \<Rightarrow> Inr (Some d))) of
        Inl e \<Rightarrow> Inl e
      | Inr l' \<Rightarrow>
          (case (case r of None \<Rightarrow> Inr None | Some c \<Rightarrow> (case idmef_criteria_clone mem_ok c of Inl e \<Rightarrow> Inl e | Inr d \<Rightarrow> Inr (Some d))) of
             Inl e \<Rightarrow> Inl e
           | Inr r' \<Rightarrow> Inr (Node op l' r')))"

text \<open>The first criteria becomes the left child of a new root; the caller keeps its pointer.\<close>

definition append_criteria :: "(nat \<Rightarrow> bool) \<Rightarrow> ('p, 'cv) idmef_criteria \<Rightarrow> ('p, 'cv) idmef_criteria \<Rightarrow> u32 \<Rightarrow> ('p, 'cv) idmef_criteria result" where
  "append_criteria mem_ok c d op = (if \<not> mem_ok 0 then Inl PRELUDE_ERROR_ENOMEM else Inr (Node op (Some c) (Some d)))"

definition idmef_criteria_or_criteria :: "(nat \<Rightarrow> bool) \<Rightarrow> ('p, 'cv) idmef_criteria \<Rightarrow> ('p, 'cv) idmef_criteria \<Rightarrow> ('p, 'cv) idmef_criteria result" where
  "idmef_criteria_or_criteria mem_ok c d = append_criteria mem_ok c d OP_OR"

definition idmef_criteria_and_criteria :: "(nat \<Rightarrow> bool) \<Rightarrow> ('p, 'cv) idmef_criteria \<Rightarrow> ('p, 'cv) idmef_criteria \<Rightarrow> ('p, 'cv) idmef_criteria result" where
  "idmef_criteria_and_criteria mem_ok c d = append_criteria mem_ok c d OP_AND"

definition idmef_criteria_join ::
  "(nat \<Rightarrow> bool) \<Rightarrow> ('p, 'cv) idmef_criteria option \<Rightarrow> u32 \<Rightarrow> ('p, 'cv) idmef_criteria option \<Rightarrow> ('p, 'cv) idmef_criteria result" where
  "idmef_criteria_join mem_ok l op r =
     (if r = None then Inl PRELUDE_ERROR_ASSERTION
      else if l = None \<and> op \<noteq> OP_NOT then Inl PRELUDE_ERROR_ASSERTION
      else if \<not> mem_ok 0 then Inl PRELUDE_ERROR_ENOMEM
      else Inr (Node op l r))"

section \<open>Matching\<close>

text \<open>The value of \<open>prelude_error (PRELUDE_ERROR_ASSERTION)\<close>.\<close>

definition assertion_error :: int where
  "assertion_error = prelude_error_make 0 (error_code_value PRELUDE_ERROR_ASSERTION)"

definition criterion_match ::
  "('p \<Rightarrow> 'o \<Rightarrow> int + 'v idmef_value option) \<Rightarrow> ('cv \<Rightarrow> u32 \<Rightarrow> 'v option \<Rightarrow> int) \<Rightarrow> 'p \<Rightarrow> 'cv option \<Rightarrow> u32 \<Rightarrow> 'o \<Rightarrow> int" where
  "criterion_match pget m p cv op object =
     (case pget p object of
        Inl e \<Rightarrow> e
      | Inr v \<Rightarrow> let ret = idmef_criterion_value_match m cv v op in if ret < 0 then ret else if 0 < ret then 1 else 0)"

fun idmef_criteria_match ::
  "('p \<Rightarrow> 'o \<Rightarrow> int + 'v idmef_value option) \<Rightarrow> ('cv \<Rightarrow> u32 \<Rightarrow> 'v option \<Rightarrow> int) \<Rightarrow> ('p, 'cv) idmef_criteria \<Rightarrow> 'o \<Rightarrow> int" where
  "idmef_criteria_match pget m (Criterion p cv op) object = criterion_match pget m p cv op object"
| "idmef_criteria_match pget m (Node op l r) object =
     (let right = (case r of None \<Rightarrow> assertion_error | Some c \<Rightarrow> idmef_criteria_match pget m c object) in
      if op = OP_NOT then (if right = 0 then 1 else 0)
      else
        let ret = (case l of None \<Rightarrow> assertion_error | Some c \<Rightarrow> idmef_criteria_match pget m c object) in
        if ret < 0 then ret
        else
          let ret = (if ret = 0 \<and> op AND OP_OR \<noteq> 0 \<or> ret = 1 \<and> op AND OP_AND \<noteq> 0 then right else ret) in
          if op AND OP_NOT \<noteq> 0 then (if ret = 0 then 1 else 0) else ret)"

section \<open>Text\<close>

text \<open>The name of a path and the text of a criterion value are parameters.\<close>

definition criterion_to_string :: "('p \<Rightarrow> string) \<Rightarrow> ('cv \<Rightarrow> string) \<Rightarrow> 'p \<Rightarrow> 'cv option \<Rightarrow> u32 \<Rightarrow> string option" where
  "criterion_to_string pname cvtext p cv op =
     map_option (\<lambda>operator. case cv of
         None \<Rightarrow> operator @ (if operator \<noteq> [] then '' '' else []) @ pname p
       | Some v \<Rightarrow> pname p @ '' '' @ operator @ '' '' @ cvtext v)
       (idmef_criteria_operator_to_string op)"

fun criteria_to_string :: "('p \<Rightarrow> string) \<Rightarrow> ('cv \<Rightarrow> string) \<Rightarrow> ('p, 'cv) idmef_criteria \<Rightarrow> nat \<Rightarrow> string option" where
  "criteria_to_string pname cvtext (Criterion p cv op) depth = criterion_to_string pname cvtext p cv op"
| "criteria_to_string pname cvtext (Node op l r) depth =
     (let opening = (if 0 < depth then ''('' else []); closing = (if 0 < depth then '')'' else []);
          left = (case l of None \<Rightarrow> Some [] | Some c \<Rightarrow> criteria_to_string pname cvtext c (depth + 1));
          right = (case r of None \<Rightarrow> Some [] | Some c \<Rightarrow> criteria_to_string pname cvtext c (depth + 1))
      in if op = OP_NOT
         then Option.bind left (\<lambda>a. map_option (\<lambda>b. opening @ ''!'' @ a @ b @ closing) right)
         else Option.bind left (\<lambda>a. Option.bind (idmef_criteria_operator_to_string op) (\<lambda>operator.
              map_option (\<lambda>b. opening @ a @ '' '' @ operator @ '' '' @ b @ closing) right)))"

definition idmef_criteria_to_string :: "('p \<Rightarrow> string) \<Rightarrow> ('cv \<Rightarrow> string) \<Rightarrow> ('p, 'cv) idmef_criteria \<Rightarrow> string option" where
  "idmef_criteria_to_string pname cvtext c = criteria_to_string pname cvtext c 0"

section \<open>Criteria are boolean formulas\<close>

fun well_formed :: "('p, 'cv) idmef_criteria \<Rightarrow> bool" where
  "well_formed (Criterion p cv op) \<longleftrightarrow> criterion_operator op"
| "well_formed (Node op l r) \<longleftrightarrow>
     (case r of None \<Rightarrow> False | Some c \<Rightarrow> well_formed c) \<and>
     (case l of None \<Rightarrow> op = OP_NOT | Some c \<Rightarrow> (op = OP_AND \<or> op = OP_OR) \<and> well_formed c)"

fun atoms :: "('p, 'cv) idmef_criteria \<Rightarrow> ('p \<times> 'cv option \<times> u32) set" where
  "atoms (Criterion p cv op) = {(p, cv, op)}"
| "atoms (Node op l r) = (case l of None \<Rightarrow> {} | Some c \<Rightarrow> atoms c) \<union> (case r of None \<Rightarrow> {} | Some c \<Rightarrow> atoms c)"

fun truth :: "('p \<times> 'cv option \<times> u32 \<Rightarrow> bool) \<Rightarrow> ('p, 'cv) idmef_criteria \<Rightarrow> bool" where
  "truth I (Criterion p cv op) \<longleftrightarrow> I (p, cv, op)"
| "truth I (Node op l r) \<longleftrightarrow>
     (let a = (case l of None \<Rightarrow> False | Some c \<Rightarrow> truth I c); b = (case r of None \<Rightarrow> False | Some c \<Rightarrow> truth I c)
      in if op = OP_NOT then \<not> b else if op = OP_AND then a \<and> b else a \<or> b)"

text \<open>The lookup reports errors by negative numbers.\<close>

abbreviation errors_negative :: "('p \<Rightarrow> 'o \<Rightarrow> int + 'x) \<Rightarrow> bool" where
  "errors_negative pget \<equiv> \<forall>p ob e. pget p ob = Inl e \<longrightarrow> e < 0"

definition atom_match ::
  "('p \<Rightarrow> 'o \<Rightarrow> int + 'v idmef_value option) \<Rightarrow> ('cv \<Rightarrow> u32 \<Rightarrow> 'v option \<Rightarrow> int) \<Rightarrow> 'o \<Rightarrow> 'p \<times> 'cv option \<times> u32 \<Rightarrow> int" where
  "atom_match pget m ob = (\<lambda>(p, cv, op). criterion_match pget m p cv op ob)"

lemma atom_match_values:
  assumes "errors_negative pget"
  shows "atom_match pget m ob a < 0 \<or> atom_match pget m ob a = 0 \<or> atom_match pget m ob a = 1"
  using assms by (auto simp: atom_match_def criterion_match_def Let_def split: prod.splits sum.splits)

text \<open>Evaluation never leaves the values of \<open>bool\<close> and errors, and an error has its cause in a criterion.\<close>

lemma criteria_match_values:
  assumes "errors_negative pget"
  shows "well_formed c \<Longrightarrow> idmef_criteria_match pget m c ob = 0 \<or> idmef_criteria_match pget m c ob = 1 \<or>
    idmef_criteria_match pget m c ob < 0 \<and> (\<exists>a \<in> atoms c. atom_match pget m ob a < 0)"
proof (induction c)
  case (Criterion p cv op)
  then show ?case using atom_match_values [OF assms, of m ob "(p, cv, op)"] by (auto simp: atom_match_def)
next
  case (Node op l r)
  obtain d where d: "r = Some d" "well_formed d" using Node.prems by (auto split: option.splits)
  note rd = Node.IH(2) [of d, simplified d, simplified]
  show ?case
  proof (cases l)
    case None
    then show ?thesis using Node.prems d by (simp add: Let_def)
  next
    case (Some e)
    then have e: "well_formed e" "op = OP_AND \<or> op = OP_OR" using Node.prems by auto
    note le = Node.IH(1) [of e, simplified Some e(1), simplified]
    show ?thesis
    proof (cases "idmef_criteria_match pget m e ob < 0")
      case True
      then show ?thesis using Some e(2) le by (auto simp: Let_def)
    next
      case False
      then show ?thesis using Some d e(2) le rd by (auto simp: Let_def)
    qed
  qed
qed

lemma criteria_match_truth:
  assumes "errors_negative pget"
  shows "well_formed c \<Longrightarrow> \<forall>a \<in> atoms c. 0 \<le> atom_match pget m ob a \<Longrightarrow>
    idmef_criteria_match pget m c ob = (if truth (\<lambda>a. atom_match pget m ob a = 1) c then 1 else 0)"
proof (induction c)
  case (Criterion p cv op)
  then show ?case using atom_match_values [OF assms, of m ob "(p, cv, op)"] by (auto simp: atom_match_def)
next
  case (Node op l r)
  obtain d where d: "r = Some d" "well_formed d" using Node.prems by (auto split: option.splits)
  have rd: "idmef_criteria_match pget m d ob = (if truth (\<lambda>a. atom_match pget m ob a = 1) d then 1 else 0)"
    using Node.IH(2) [of d] Node.prems(2) d by simp
  show ?case
  proof (cases l)
    case None
    then show ?thesis using Node.prems d rd by (simp add: Let_def)
  next
    case (Some e)
    then have "idmef_criteria_match pget m e ob = (if truth (\<lambda>a. atom_match pget m ob a = 1) e then 1 else 0)"
      using Node.IH(1) [of e] Node.prems by simp
    then show ?thesis using Node.prems(1) Some d rd by (auto simp: Let_def)
  qed
qed

text \<open>
  C40: A criteria is a boolean formula. When every criterion in it can be evaluated, matching returns 1 or 0 as the
  formula is true or false, although it evaluates the right side only when needed; an error is returned only if
  a criterion failed; and the functions that combine criteria build the conjunction, the disjunction and the
  negation. A negated criteria that fails does not report the error: it does not match.
\<close>

theorem criteria_match_is_boolean:
  assumes "errors_negative pget" "well_formed c" "well_formed d"
  shows "((\<forall>a \<in> atoms c. 0 \<le> atom_match pget m ob a) \<longrightarrow>
      idmef_criteria_match pget m c ob = (if truth (\<lambda>a. atom_match pget m ob a = 1) c then 1 else 0)) \<and>
    (idmef_criteria_match pget m c ob < 0 \<longrightarrow> (\<exists>a \<in> atoms c. atom_match pget m ob a < 0)) \<and>
    (\<exists>e. idmef_criteria_and_criteria (\<lambda>_. True) c d = Inr e \<and> well_formed e \<and> truth I e = (truth I c \<and> truth I d)) \<and>
    (\<exists>e. idmef_criteria_or_criteria (\<lambda>_. True) c d = Inr e \<and> well_formed e \<and> truth I e = (truth I c \<or> truth I d)) \<and>
    (\<exists>e. idmef_criteria_join (\<lambda>_. True) None OP_NOT (Some c) = Inr e \<and> well_formed e \<and> truth I e = (\<not> truth I c) \<and>
      (idmef_criteria_match pget m c ob < 0 \<longrightarrow> idmef_criteria_match pget m e ob = 0))"
  using criteria_match_truth [OF assms(1,2), of m ob] criteria_match_values [OF assms(1,2), of m ob] assms(2,3)
  by (auto simp: idmef_criteria_and_criteria_def idmef_criteria_or_criteria_def append_criteria_def idmef_criteria_join_def Let_def)

theorem criteria_match_is_boolean_witness:
  "idmef_criteria_match (\<lambda>p ob. Inr (Some (Scalar (p + ob)))) (\<lambda>cv op v. if v = Some cv then 1 else 0)
     (Node OP_AND (Some (Criterion 1 (Some (3 :: nat)) OP_EQUAL)) (Some (Criterion 2 (Some 3) OP_EQUAL))) 2 = 0"
proof -
  let ?pget = "\<lambda>p ob. Inr (Some (Scalar (p + ob))) :: int + nat idmef_value option" and ?m = "\<lambda>cv (op :: u32) v. if v = Some cv then 1 else 0 :: int"
  let ?c = "Node OP_AND (Some (Criterion 1 (Some (3 :: nat)) OP_EQUAL)) (Some (Criterion 2 (Some 3) OP_EQUAL))"
  have wf: "well_formed ?c" by (simp add: criterion_operator_def)
  have m: "atom_match ?pget ?m 2 (1, Some 3, OP_EQUAL) = 1" "atom_match ?pget ?m 2 (2, Some 3, OP_EQUAL) = 0"
    by (simp_all add: atom_match_def criterion_match_def idmef_criterion_value_match_def my_value_match_def match_leaf_def count_match_def
        idmef_value_is_list_def Let_def)
  show ?thesis
    using criteria_match_is_boolean [of ?pget ?c ?c ?m 2] wf m by (simp add: Let_def)
qed

section \<open>Values that are lists\<close>

fun leaves :: "'v idmef_value option \<Rightarrow> 'v option list" where
  "leaves None = [None]"
| "leaves (Some (Scalar x)) = [Some x]"
| "leaves (Some (VList vs)) = concat (map leaves vs)"

definition count_leaves :: "('v option \<Rightarrow> bool) \<Rightarrow> 'v option list \<Rightarrow> match_cb \<Rightarrow> match_cb" where
  "count_leaves hit xs mcb =
     mcb\<lparr>mcb_match := mcb_match mcb + of_nat (length (filter hit xs)), mcb_nmatch := mcb_nmatch mcb + of_nat (length (filter (\<lambda>x. \<not> hit x) xs))\<rparr>"

lemma count_leaves_simps [simp]:
  "count_leaves hit [] mcb = mcb" "count_leaves hit (xs @ ys) mcb = count_leaves hit ys (count_leaves hit xs mcb)"
  by (simp_all add: count_leaves_def algebra_simps)

lemma match_leaves:
  "(\<forall>x \<in> set (leaves v). 0 \<le> m cv op x) \<Longrightarrow>
     do_match_cb m (Some cv) op v mcb = (0, count_leaves (\<lambda>x. 0 < m cv op x) (leaves v) mcb)"
  "(\<forall>x \<in> set (concat (map leaves vs)). 0 \<le> m cv op x) \<Longrightarrow>
     match_iterate m (Some cv) op vs mcb = (0, count_leaves (\<lambda>x. 0 < m cv op x) (concat (map leaves vs)) mcb)"
  by (induction m "Some cv" op v mcb and m "Some cv" op vs mcb rule: do_match_cb_match_iterate.induct)
    (auto simp: match_leaf_def count_match_def count_leaves_def)

lemma match_null:
  "match_iterate m None op vs mcb =
     (0, count_leaves (\<lambda>x. if op = OP_NOT_NULL then x \<noteq> None else x = None) (map (map_option (\<lambda>_. ())) vs) mcb)"
  by (induction vs arbitrary: mcb) (auto simp: count_match_def count_leaves_def)

lemma sint_of_nat_small: "n < 2 ^ 31 \<Longrightarrow> sint (of_nat n :: u32) = int n"
  by (simp add: signed_of_nat signed_take_bit_int_eq_self)

lemma length_filter_split: "length (filter P xs) + length (filter (\<lambda>x. \<not> P x) xs) = length xs"
  by (rule sum_length_filter_compl)

lemma list_match_values:
  assumes "\<forall>x \<in> set (leaves v). 0 \<le> m cv op x" "length (leaves v) < 2 ^ 31" "length vs < 2 ^ 31"
    and "v = Some (VList us)" "op \<noteq> OP_NULL" "op \<noteq> OP_NOT_NULL"
  defines "hits \<equiv> length (filter (\<lambda>x. 0 < m cv op x) (leaves v))"
  shows "idmef_criterion_value_match m (Some cv) v op = (if op AND OP_NOT \<noteq> 0 \<and> hits < length (leaves v) then 0 else int hits)"
    and "0 < idmef_criterion_value_match m (Some cv) v op \<longleftrightarrow>
      (if op AND OP_NOT \<noteq> 0 then leaves v \<noteq> [] \<and> (\<forall>x \<in> set (leaves v). 0 < m cv op x) else (\<exists>x \<in> set (leaves v). 0 < m cv op x))"
    and "idmef_criterion_value_match m None (Some (VList vs)) OP_NULL = (if \<forall>x \<in> set vs. x = None then 1 else 0)"
    and "idmef_criterion_value_match m None (Some (VList vs)) OP_NOT_NULL = int (length (filter (\<lambda>x. x \<noteq> None) vs))"
proof -
  let ?miss = "length (filter (\<lambda>x. \<not> 0 < m cv op x) (leaves v))"
  have len: "hits + ?miss = length (leaves v)" unfolding hits_def by (rule length_filter_split)
  have "match_iterate m (Some cv) op us \<lparr>mcb_match = 0, mcb_nmatch = 0\<rparr> = (0, \<lparr>mcb_match = of_nat hits, mcb_nmatch = of_nat ?miss\<rparr>)"
    using match_leaves(2) [of us m cv op] assms(1,4) by (simp add: count_leaves_def hits_def)
  moreover have "unat (of_nat ?miss :: u32) = ?miss" using len assms(2) by (intro unat_of_nat_small) simp
  then have "(0 :: u32) < of_nat ?miss \<longleftrightarrow> hits < length (leaves v)" using len unfolding word_less_nat_alt unsigned_0 by linarith
  ultimately show eq: "idmef_criterion_value_match m (Some cv) v op = (if op AND OP_NOT \<noteq> 0 \<and> hits < length (leaves v) then 0 else int hits)"
    using assms(2,4,5,6) len sint_of_nat_small [of hits]
    by (auto simp: idmef_criterion_value_match_def my_value_match_def idmef_value_is_list_def)
  have "hits < length (leaves v) \<longleftrightarrow> \<not> (\<forall>x \<in> set (leaves v). 0 < m cv op x)"
  proof (cases "\<forall>x \<in> set (leaves v). 0 < m cv op x")
    case False
    then show ?thesis using length_filter_less [of _ "leaves v" "\<lambda>x. 0 < m cv op x"] by (auto simp: hits_def)
  qed (simp add: hits_def)
  moreover have "0 < hits \<longleftrightarrow> (\<exists>x \<in> set (leaves v). 0 < m cv op x)" by (auto simp: hits_def filter_empty_conv)
  ultimately show "0 < idmef_criterion_value_match m (Some cv) v op \<longleftrightarrow>
      (if op AND OP_NOT \<noteq> 0 then leaves v \<noteq> [] \<and> (\<forall>x \<in> set (leaves v). 0 < m cv op x) else (\<exists>x \<in> set (leaves v). 0 < m cv op x))"
    unfolding eq set_empty [symmetric] by auto
  have n: "length (filter P vs) < 2 ^ 31" for P using length_filter_le [of P vs] assms(3) by linarith
  have "(of_nat (length (filter (\<lambda>x. x \<noteq> None) vs)) :: u32) = 0 \<longleftrightarrow> (\<forall>x \<in> set vs. x = None)"
    using n [of "\<lambda>x. x \<noteq> None"] by (simp add: word_unat_eq_iff unat_of_nat_small filter_empty_conv)
  then show "idmef_criterion_value_match m None (Some (VList vs)) OP_NULL = (if \<forall>x \<in> set vs. x = None then 1 else 0)"
    by (simp add: idmef_criterion_value_match_def my_value_match_def idmef_value_is_list_def match_null count_leaves_def filter_map comp_def)
  show "idmef_criterion_value_match m None (Some (VList vs)) OP_NOT_NULL = int (length (filter (\<lambda>x. x \<noteq> None) vs))"
    using sint_of_nat_small [OF n [of "\<lambda>x. x \<noteq> None"]]
    by (simp add: idmef_criterion_value_match_def my_value_match_def idmef_value_is_list_def match_null count_leaves_def filter_map comp_def)
qed

text \<open>
  On a value that is a list, nested or not, a criterion with a positive operator matches if some entry does, and one
  with a negated operator if there is an entry and all entries do; the result is the number of matches. Without a
  value to compare with, the list is null if all of its entries are, and not null once per entry that is not.
\<close>

theorem criterion_matches_lists:
  assumes "\<forall>x \<in> set (leaves v). 0 \<le> m cv op x" "length (leaves v) < 2 ^ 31" "length vs < 2 ^ 31"
    and "v = Some (VList us)" "op \<noteq> OP_NULL" "op \<noteq> OP_NOT_NULL"
  shows "(0 < idmef_criterion_value_match m (Some cv) v op \<longleftrightarrow>
      (if op AND OP_NOT \<noteq> 0 then leaves v \<noteq> [] \<and> (\<forall>x \<in> set (leaves v). 0 < m cv op x) else (\<exists>x \<in> set (leaves v). 0 < m cv op x))) \<and>
    (0 < idmef_criterion_value_match m (Some cv) v op \<longrightarrow>
      idmef_criterion_value_match m (Some cv) v op = int (length (filter (\<lambda>x. 0 < m cv op x) (leaves v)))) \<and>
    idmef_criterion_value_match m None (Some (VList vs)) OP_NULL = (if \<forall>x \<in> set vs. x = None then 1 else 0) \<and>
    idmef_criterion_value_match m None (Some (VList vs)) OP_NOT_NULL = int (length (filter (\<lambda>x. x \<noteq> None) vs))"
  using list_match_values [of v m cv op vs us, OF assms] by (auto split: if_splits)

theorem criterion_matches_lists_witness:
  "\<not> 0 < idmef_criterion_value_match (\<lambda>cv op v. if v = Some cv then 0 else 1) (Some (3 :: nat))
     (Some (VList [Some (Scalar 4), Some (VList [Some (Scalar 3)])])) (OP_NOT OR OP_EQUAL)"
  using criterion_matches_lists [of "Some (VList [Some (Scalar 4), Some (VList [Some (Scalar 3)])])"
      "\<lambda>cv op v. if v = Some cv then 0 else 1" "3 :: nat" "OP_NOT OR OP_EQUAL" "[]" "[Some (Scalar 4), Some (VList [Some (Scalar 3)])]"]
  by simp

end
