(* ===== verification/IdmefClass.thy ===== *)
theory IdmefClass
  imports PError
begin

text \<open>
  The classes of IDMEF messages: the tables of \<open>src/include/idmef-tree-data.h\<close> and the functions of
  \<open>src/idmef-class.c\<close> that read them. A class and a child are numbers; a class is an enumeration, a structure with
  children, or not assigned. The function pointers of the tables are left out.
\<close>

section \<open>Tables\<close>

datatype value_type =
    VT_UNKNOWN | VT_INT8 | VT_UINT8 | VT_INT16 | VT_UINT16 | VT_INT32 | VT_UINT32 | VT_INT64 | VT_UINT64 | VT_FLOAT | VT_DOUBLE
  | VT_STRING | VT_TIME | VT_DATA | VT_ENUM | VT_LIST | VT_CLASS

record child_entry =
  ch_name :: string
  ch_list :: bool
  ch_keyed_list :: bool
  ch_type :: value_type
  ch_class :: int
  ch_union_id :: int
  ch_attributes :: "string list option"

abbreviation child :: "string \<Rightarrow> bool \<Rightarrow> bool \<Rightarrow> value_type \<Rightarrow> int \<Rightarrow> int \<Rightarrow> string list option \<Rightarrow> child_entry" where
  "child n l k t c u a \<equiv> \<lparr>ch_name = n, ch_list = l, ch_keyed_list = k, ch_type = t, ch_class = c, ch_union_id = u, ch_attributes = a\<rparr>"

abbreviation priority_0 :: "string list option" where
  "priority_0 \<equiv> Some [''priority'', ''0'']"

text \<open>Which of the function pointers of a class are there: none, those of an enumeration, or those of a structure.\<close>

datatype class_kind = Unassigned | Enumeration | Structure

record object_data =
  od_name :: "string option"
  od_kind :: class_kind
  od_children :: "child_entry list"
  od_is_listed :: bool

abbreviation object_row :: "string option \<Rightarrow> class_kind \<Rightarrow> child_entry list \<Rightarrow> bool \<Rightarrow> object_data" where
  "object_row n k cs l \<equiv> \<lparr>od_name = n, od_kind = k, od_children = cs, od_is_listed = l\<rparr>"

definition additional_data_children :: "child_entry list" where
  "additional_data_children = [
     child ''meaning'' False False VT_STRING 0 0 None,
     child ''type'' False False VT_ENUM 3 0 None,
     child ''data'' False False VT_DATA 0 0 None]"

definition reference_children :: "child_entry list" where
  "reference_children = [
     child ''origin'' False False VT_ENUM 5 0 None,
     child ''name'' False False VT_STRING 0 0 priority_0,
     child ''url'' False False VT_STRING 0 0 None,
     child ''meaning'' False False VT_STRING 0 0 None]"

definition classification_children :: "child_entry list" where
  "classification_children = [
     child ''ident'' False False VT_STRING 0 0 None,
     child ''text'' False False VT_STRING 0 0 priority_0,
     child ''reference'' True False VT_CLASS 50 0 priority_0]"

definition user_id_children :: "child_entry list" where
  "user_id_children = [
     child ''ident'' False False VT_STRING 0 0 None,
     child ''type'' False False VT_ENUM 7 0 None,
     child ''tty'' False False VT_STRING 0 0 None,
     child ''name'' False False VT_STRING 0 0 priority_0,
     child ''number'' False False VT_UINT32 0 0 priority_0]"

definition user_children :: "child_entry list" where
  "user_children = [
     child ''ident'' False False VT_STRING 0 0 None,
     child ''category'' False False VT_ENUM 9 0 None,
     child ''user_id'' True False VT_CLASS 8 0 priority_0]"

definition address_children :: "child_entry list" where
  "address_children = [
     child ''ident'' False False VT_STRING 0 0 None,
     child ''category'' False False VT_ENUM 11 0 None,
     child ''vlan_name'' False False VT_STRING 0 0 None,
     child ''vlan_num'' False False VT_INT32 0 0 None,
     child ''address'' False False VT_STRING 0 0 priority_0,
     child ''netmask'' False False VT_STRING 0 0 None]"

definition process_children :: "child_entry list" where
  "process_children = [
     child ''ident'' False False VT_STRING 0 0 None,
     child ''name'' False False VT_STRING 0 0 None,
     child ''pid'' False False VT_UINT32 0 0 None,
     child ''path'' False False VT_STRING 0 0 None,
     child ''arg'' True False VT_STRING 0 0 None,
     child ''env'' True False VT_STRING 0 0 None]"

definition web_service_children :: "child_entry list" where
  "web_service_children = [
     child ''url'' False False VT_STRING 0 0 None,
     child ''cgi'' False False VT_STRING 0 0 None,
     child ''http_method'' False False VT_STRING 0 0 None,
     child ''arg'' True False VT_STRING 0 0 None]"

definition snmp_service_children :: "child_entry list" where
  "snmp_service_children = [
     child ''oid'' False False VT_STRING 0 0 None,
     child ''message_processing_model'' False False VT_UINT32 0 0 None,
     child ''security_model'' False False VT_UINT32 0 0 None,
     child ''security_name'' False False VT_STRING 0 0 None,
     child ''security_level'' False False VT_UINT32 0 0 None,
     child ''context_name'' False False VT_STRING 0 0 None,
     child ''context_engine_id'' False False VT_STRING 0 0 None,
     child ''command'' False False VT_STRING 0 0 None]"

definition service_children :: "child_entry list" where
  "service_children = [
     child ''ident'' False False VT_STRING 0 0 None,
     child ''ip_version'' False False VT_UINT8 0 0 None,
     child ''iana_protocol_number'' False False VT_UINT8 0 0 None,
     child ''iana_protocol_name'' False False VT_STRING 0 0 None,
     child ''name'' False False VT_STRING 0 0 None,
     child ''port'' False False VT_UINT16 0 0 priority_0,
     child ''portlist'' False False VT_STRING 0 0 priority_0,
     child ''protocol'' False False VT_STRING 0 0 None,
     child ''web_service'' False False VT_CLASS 14 1 None,
     child ''snmp_service'' False False VT_CLASS 15 1 None]"

definition node_children :: "child_entry list" where
  "node_children = [
     child ''ident'' False False VT_STRING 0 0 None,
     child ''category'' False False VT_ENUM 18 0 None,
     child ''name'' False False VT_STRING 0 0 priority_0,
     child ''location'' False False VT_STRING 0 0 priority_0,
     child ''address'' True False VT_CLASS 12 0 priority_0]"

definition source_children :: "child_entry list" where
  "source_children = [
     child ''ident'' False False VT_STRING 0 0 None,
     child ''spoofed'' False False VT_ENUM 20 0 None,
     child ''interface'' False False VT_STRING 0 0 None,
     child ''node'' False False VT_CLASS 19 0 priority_0,
     child ''user'' False False VT_CLASS 10 0 priority_0,
     child ''process'' False False VT_CLASS 13 0 priority_0,
     child ''service'' False False VT_CLASS 17 0 priority_0]"

definition file_access_children :: "child_entry list" where
  "file_access_children = [
     child ''user_id'' False False VT_CLASS 8 0 None,
     child ''permission'' True False VT_STRING 0 0 None]"

definition inode_children :: "child_entry list" where
  "inode_children = [
     child ''change_time'' False False VT_TIME 0 0 None,
     child ''number'' False False VT_UINT32 0 0 None,
     child ''major_device'' False False VT_UINT32 0 0 None,
     child ''minor_device'' False False VT_UINT32 0 0 None,
     child ''c_major_device'' False False VT_UINT32 0 0 None,
     child ''c_minor_device'' False False VT_UINT32 0 0 None]"

definition checksum_children :: "child_entry list" where
  "checksum_children = [
     child ''value'' False False VT_STRING 0 0 None,
     child ''key'' False False VT_STRING 0 0 None,
     child ''algorithm'' False False VT_ENUM 53 0 None]"

definition file_children :: "child_entry list" where
  "file_children = [
     child ''ident'' False False VT_STRING 0 0 None,
     child ''name'' False False VT_STRING 0 0 None,
     child ''path'' False False VT_STRING 0 0 None,
     child ''create_time'' False False VT_TIME 0 0 None,
     child ''modify_time'' False False VT_TIME 0 0 None,
     child ''access_time'' False False VT_TIME 0 0 None,
     child ''data_size'' False False VT_UINT64 0 0 None,
     child ''disk_size'' False False VT_UINT64 0 0 None,
     child ''file_access'' True False VT_CLASS 22 0 None,
     child ''linkage'' True False VT_CLASS 28 0 None,
     child ''inode'' False False VT_CLASS 23 0 None,
     child ''checksum'' True False VT_CLASS 52 0 None,
     child ''category'' False False VT_ENUM 24 0 None,
     child ''fstype'' False False VT_ENUM 25 0 None,
     child ''file_type'' False False VT_STRING 0 0 None]"

definition linkage_children :: "child_entry list" where
  "linkage_children = [
     child ''category'' False False VT_ENUM 27 0 None,
     child ''name'' False False VT_STRING 0 0 None,
     child ''path'' False False VT_STRING 0 0 None,
     child ''file'' False False VT_CLASS 26 0 None]"

definition target_children :: "child_entry list" where
  "target_children = [
     child ''ident'' False False VT_STRING 0 0 None,
     child ''decoy'' False False VT_ENUM 29 0 None,
     child ''interface'' False False VT_STRING 0 0 None,
     child ''node'' False False VT_CLASS 19 0 priority_0,
     child ''user'' False False VT_CLASS 10 0 priority_0,
     child ''process'' False False VT_CLASS 13 0 priority_0,
     child ''service'' False False VT_CLASS 17 0 priority_0,
     child ''file'' True False VT_CLASS 26 0 priority_0]"

definition analyzer_children :: "child_entry list" where
  "analyzer_children = [
     child ''analyzerid'' False False VT_STRING 0 0 None,
     child ''name'' False False VT_STRING 0 0 priority_0,
     child ''manufacturer'' False False VT_STRING 0 0 None,
     child ''model'' False False VT_STRING 0 0 priority_0,
     child ''version'' False False VT_STRING 0 0 None,
     child ''class'' False False VT_STRING 0 0 priority_0,
     child ''ostype'' False False VT_STRING 0 0 None,
     child ''osversion'' False False VT_STRING 0 0 None,
     child ''node'' False False VT_CLASS 19 0 priority_0,
     child ''process'' False False VT_CLASS 13 0 None]"

definition alertident_children :: "child_entry list" where
  "alertident_children = [
     child ''alertident'' False False VT_STRING 0 0 None,
     child ''analyzerid'' False False VT_STRING 0 0 None]"

definition impact_children :: "child_entry list" where
  "impact_children = [
     child ''severity'' False False VT_ENUM 33 0 None,
     child ''completion'' False False VT_ENUM 34 0 None,
     child ''type'' False False VT_ENUM 35 0 None,
     child ''description'' False False VT_STRING 0 0 priority_0]"

definition action_children :: "child_entry list" where
  "action_children = [
     child ''category'' False False VT_ENUM 37 0 None,
     child ''description'' False False VT_STRING 0 0 None]"

definition confidence_children :: "child_entry list" where
  "confidence_children = [
     child ''rating'' False False VT_ENUM 39 0 None,
     child ''confidence'' False False VT_FLOAT 0 0 None]"

definition assessment_children :: "child_entry list" where
  "assessment_children = [
     child ''impact'' False False VT_CLASS 36 0 priority_0,
     child ''action'' True False VT_CLASS 38 0 None,
     child ''confidence'' False False VT_CLASS 40 0 priority_0]"

definition tool_alert_children :: "child_entry list" where
  "tool_alert_children = [
     child ''name'' False False VT_STRING 0 0 priority_0,
     child ''command'' False False VT_STRING 0 0 priority_0,
     child ''alertident'' True False VT_CLASS 32 0 None]"

definition correlation_alert_children :: "child_entry list" where
  "correlation_alert_children = [
     child ''name'' False False VT_STRING 0 0 priority_0,
     child ''alertident'' True False VT_CLASS 32 0 None]"

definition overflow_alert_children :: "child_entry list" where
  "overflow_alert_children = [
     child ''program'' False False VT_STRING 0 0 priority_0,
     child ''size'' False False VT_UINT32 0 0 None,
     child ''buffer'' False False VT_DATA 0 0 None]"

definition alert_children :: "child_entry list" where
  "alert_children = [
     child ''messageid'' False False VT_STRING 0 0 None,
     child ''analyzer'' True False VT_CLASS 31 0 None,
     child ''create_time'' False False VT_TIME 0 0 None,
     child ''classification'' False False VT_CLASS 6 0 None,
     child ''detect_time'' False False VT_TIME 0 0 None,
     child ''analyzer_time'' False False VT_TIME 0 0 None,
     child ''source'' True False VT_CLASS 21 0 None,
     child ''target'' True False VT_CLASS 30 0 None,
     child ''assessment'' False False VT_CLASS 41 0 None,
     child ''additional_data'' True True VT_CLASS 4 0 None,
     child ''tool_alert'' False False VT_CLASS 42 1 None,
     child ''correlation_alert'' False False VT_CLASS 43 1 None,
     child ''overflow_alert'' False False VT_CLASS 44 1 None]"

definition heartbeat_children :: "child_entry list" where
  "heartbeat_children = [
     child ''messageid'' False False VT_STRING 0 0 None,
     child ''analyzer'' True False VT_CLASS 31 0 None,
     child ''create_time'' False False VT_TIME 0 0 None,
     child ''analyzer_time'' False False VT_TIME 0 0 None,
     child ''heartbeat_interval'' False False VT_UINT32 0 0 None,
     child ''additional_data'' True True VT_CLASS 4 0 None]"

definition message_children :: "child_entry list" where
  "message_children = [
     child ''version'' False False VT_STRING 0 0 None,
     child ''alert'' False False VT_CLASS 46 1 None,
     child ''heartbeat'' False False VT_CLASS 47 1 None]"

definition object_data :: "object_data list" where
  "object_data = [
     object_row (Some ''(unassigned)'') Unassigned [] False,
     object_row (Some ''(unassigned)'') Unassigned [] False,
     object_row (Some ''(unassigned)'') Unassigned [] False,
     object_row (Some ''additional_data_type'') Enumeration [] False,
     object_row (Some ''additional_data'') Structure additional_data_children True,
     object_row (Some ''reference_origin'') Enumeration [] False,
     object_row (Some ''classification'') Structure classification_children False,
     object_row (Some ''user_id_type'') Enumeration [] False,
     object_row (Some ''user_id'') Structure user_id_children True,
     object_row (Some ''user_category'') Enumeration [] False,
     object_row (Some ''user'') Structure user_children False,
     object_row (Some ''address_category'') Enumeration [] False,
     object_row (Some ''address'') Structure address_children True,
     object_row (Some ''process'') Structure process_children False,
     object_row (Some ''web_service'') Structure web_service_children False,
     object_row (Some ''snmp_service'') Structure snmp_service_children False,
     object_row (Some ''service_type'') Enumeration [] False,
     object_row (Some ''service'') Structure service_children False,
     object_row (Some ''node_category'') Enumeration [] False,
     object_row (Some ''node'') Structure node_children False,
     object_row (Some ''source_spoofed'') Enumeration [] False,
     object_row (Some ''source'') Structure source_children True,
     object_row (Some ''file_access'') Structure file_access_children True,
     object_row (Some ''inode'') Structure inode_children False,
     object_row (Some ''file_category'') Enumeration [] False,
     object_row (Some ''file_fstype'') Enumeration [] False,
     object_row (Some ''file'') Structure file_children True,
     object_row (Some ''linkage_category'') Enumeration [] False,
     object_row (Some ''linkage'') Structure linkage_children True,
     object_row (Some ''target_decoy'') Enumeration [] False,
     object_row (Some ''target'') Structure target_children True,
     object_row (Some ''analyzer'') Structure analyzer_children True,
     object_row (Some ''alertident'') Structure alertident_children True,
     object_row (Some ''impact_severity'') Enumeration [] False,
     object_row (Some ''impact_completion'') Enumeration [] False,
     object_row (Some ''impact_type'') Enumeration [] False,
     object_row (Some ''impact'') Structure impact_children False,
     object_row (Some ''action_category'') Enumeration [] False,
     object_row (Some ''action'') Structure action_children True,
     object_row (Some ''confidence_rating'') Enumeration [] False,
     object_row (Some ''confidence'') Structure confidence_children False,
     object_row (Some ''assessment'') Structure assessment_children False,
     object_row (Some ''tool_alert'') Structure tool_alert_children False,
     object_row (Some ''correlation_alert'') Structure correlation_alert_children False,
     object_row (Some ''overflow_alert'') Structure overflow_alert_children False,
     object_row (Some ''alert_type'') Enumeration [] False,
     object_row (Some ''alert'') Structure alert_children False,
     object_row (Some ''heartbeat'') Structure heartbeat_children False,
     object_row (Some ''message_type'') Enumeration [] False,
     object_row (Some ''message'') Structure message_children False,
     object_row (Some ''reference'') Structure reference_children True,
     object_row (Some ''(unassigned)'') Unassigned [] False,
     object_row (Some ''checksum'') Structure checksum_children True,
     object_row (Some ''checksum_algorithm'') Enumeration [] False,
     object_row None Unassigned [] False]"

section \<open>Functions\<close>

definition lower_char :: "char \<Rightarrow> char" where
  "lower_char c = (let n = of_char c :: nat in if 65 \<le> n \<and> n \<le> 90 then char_of (n + 32) else c)"

definition strcasecmp0 :: "string \<Rightarrow> string \<Rightarrow> bool" where
  "strcasecmp0 s t = (map lower_char s = map lower_char t)"

text \<open>The size of the table counts its end mark too, so that the number of the mark is a class without a name.\<close>

definition is_class_valid :: "int \<Rightarrow> unit result" where
  "is_class_valid class =
     (if class < 0 \<or> int (length object_data) \<le> class then Inl PRELUDE_ERROR_IDMEF_CLASS_UNKNOWN else Inr ())"

abbreviation class_row :: "int \<Rightarrow> object_data" where
  "class_row class \<equiv> object_data ! nat class"

definition is_child_valid :: "int \<Rightarrow> int \<Rightarrow> unit result" where
  "is_child_valid class ch =
     (case is_class_valid class of
        Inl e \<Rightarrow> Inl e
      | Inr _ \<Rightarrow> if ch < 0 \<or> int (length (od_children (class_row class))) \<le> ch
                then Inl PRELUDE_ERROR_IDMEF_CLASS_UNKNOWN_CHILD else Inr ())"

abbreviation child_row :: "int \<Rightarrow> int \<Rightarrow> child_entry" where
  "child_row class ch \<equiv> od_children (class_row class) ! nat ch"

text \<open>The common shape of the functions that read one field of a child, or of a class.\<close>

definition with_child :: "int \<Rightarrow> int \<Rightarrow> (child_entry \<Rightarrow> 'a result) \<Rightarrow> 'a result" where
  "with_child class ch f = (case is_child_valid class ch of Inl e \<Rightarrow> Inl e | Inr _ \<Rightarrow> f (child_row class ch))"

definition with_class :: "int \<Rightarrow> (object_data \<Rightarrow> 'a result) \<Rightarrow> 'a result" where
  "with_class class f = (case is_class_valid class of Inl e \<Rightarrow> Inl e | Inr _ \<Rightarrow> f (class_row class))"

fun find_name :: "string \<Rightarrow> child_entry list \<Rightarrow> nat option" where
  "find_name name [] = None"
| "find_name name (c # cs) = (if strcasecmp0 (ch_name c) name then Some 0 else map_option Suc (find_name name cs))"

definition idmef_class_find_child :: "int \<Rightarrow> string \<Rightarrow> int result" where
  "idmef_class_find_child class name =
     with_class class (\<lambda>od. case find_name name (od_children od) of
        Some i \<Rightarrow> Inr (int i) | None \<Rightarrow> Inl PRELUDE_ERROR_IDMEF_CLASS_UNKNOWN_CHILD)"

definition idmef_class_is_child_union_member :: "int \<Rightarrow> int \<Rightarrow> bool result" where
  "idmef_class_is_child_union_member class ch = with_child class ch (\<lambda>c. Inr (0 < ch_union_id c))"

definition idmef_class_is_child_list :: "int \<Rightarrow> int \<Rightarrow> bool result" where
  "idmef_class_is_child_list class ch = with_child class ch (\<lambda>c. Inr (ch_list c))"

definition idmef_class_is_child_keyed_list :: "int \<Rightarrow> int \<Rightarrow> bool result" where
  "idmef_class_is_child_keyed_list class ch = with_child class ch (\<lambda>c. Inr (ch_keyed_list c))"

text \<open>The error of these functions is a negative number, which their callers take for true.\<close>

definition truth :: "bool result \<Rightarrow> bool" where
  "truth r = (case r of Inl _ \<Rightarrow> True | Inr b \<Rightarrow> b)"

definition idmef_class_get_child_value_type :: "int \<Rightarrow> int \<Rightarrow> value_type result" where
  "idmef_class_get_child_value_type class ch = with_child class ch (\<lambda>c. Inr (ch_type c))"

definition idmef_class_get_child_attributes :: "int \<Rightarrow> int \<Rightarrow> string list option result" where
  "idmef_class_get_child_attributes class ch = with_child class ch (\<lambda>c. Inr (ch_attributes c))"

definition idmef_class_get_child_count :: "int \<Rightarrow> nat result" where
  "idmef_class_get_child_count class = with_class class (\<lambda>od. Inr (length (od_children od)))"

definition idmef_class_get_child_union_id :: "int \<Rightarrow> int \<Rightarrow> int result" where
  "idmef_class_get_child_union_id class ch =
     with_child class ch (\<lambda>c. if ch_union_id c = 0 then Inl PRELUDE_ERROR_IDMEF_CLASS_CHILD_NOT_UNION else Inr (ch_union_id c))"

definition idmef_class_get_child_class :: "int \<Rightarrow> int \<Rightarrow> int result" where
  "idmef_class_get_child_class class ch =
     with_child class ch (\<lambda>c. if ch_type c \<noteq> VT_CLASS \<and> ch_type c \<noteq> VT_ENUM
                             then Inl PRELUDE_ERROR_IDMEF_CLASS_CHILD_NOT_CLASS else Inr (ch_class c))"

definition idmef_class_get_child_name :: "int \<Rightarrow> int \<Rightarrow> string option" where
  "idmef_class_get_child_name class ch =
     (case is_child_valid class ch of Inl _ \<Rightarrow> None | Inr _ \<Rightarrow> Some (ch_name (child_row class ch)))"

fun find_class :: "string \<Rightarrow> object_data list \<Rightarrow> nat \<Rightarrow> int result" where
  "find_class name [] i = Inl PRELUDE_ERROR_IDMEF_CLASS_UNKNOWN_NAME"
| "find_class name (od # ods) i =
     (case od_name od of
        None \<Rightarrow> Inl PRELUDE_ERROR_IDMEF_CLASS_UNKNOWN_NAME
      | Some n \<Rightarrow> if strcasecmp0 n name then Inr (int i) else find_class name ods (Suc i))"

definition idmef_class_find :: "string \<Rightarrow> int result" where
  "idmef_class_find name = find_class name object_data 0"

definition idmef_class_get_name :: "int \<Rightarrow> string option" where
  "idmef_class_get_name class = (case is_class_valid class of Inl _ \<Rightarrow> None | Inr _ \<Rightarrow> od_name (class_row class))"

definition idmef_class_is_listed :: "int \<Rightarrow> bool result" where
  "idmef_class_is_listed class = with_class class (\<lambda>od. Inr (od_is_listed od))"

lemmas class_defs = with_child_def with_class_def idmef_class_is_child_list_def idmef_class_is_child_keyed_list_def
  idmef_class_get_child_value_type_def idmef_class_get_child_class_def idmef_class_get_child_name_def idmef_class_get_name_def

section \<open>The tables are well formed\<close>

definition child_ok :: "child_entry \<Rightarrow> bool" where
  "child_ok c \<longleftrightarrow>
     list_all (\<lambda>x. x \<in> set ''abcdefghijklmnopqrstuvwxyz_'') (ch_name c) \<and> ch_name c \<noteq> [] \<and>
     (ch_keyed_list c \<longrightarrow> ch_list c \<and> ch_type c = VT_CLASS) \<and>
     (ch_type c = VT_CLASS \<longrightarrow> 0 < ch_class c \<and> ch_class c < 54 \<and> od_kind (class_row (ch_class c)) = Structure \<and>
        od_name (class_row (ch_class c)) = Some (ch_name c) \<and> (ch_list c \<longrightarrow> od_is_listed (class_row (ch_class c)))) \<and>
     (ch_type c = VT_ENUM \<longrightarrow> \<not> ch_list c \<and> 0 < ch_class c \<and> ch_class c < 54 \<and> od_kind (class_row (ch_class c)) = Enumeration) \<and>
     ch_type c \<notin> {VT_UNKNOWN, VT_LIST}"

definition class_ok :: "object_data \<Rightarrow> bool" where
  "class_ok od \<longleftrightarrow> list_all child_ok (od_children od) \<and> distinct (map ch_name (od_children od)) \<and>
     (od_children od \<noteq> [] \<longleftrightarrow> od_kind od = Structure)"

lemma length_object_data [simp]: "length object_data = 55"
  by (simp add: object_data_def)

lemma tables_ok: "list_all class_ok object_data"
  by code_simp

lemma valid_class: "is_class_valid class = Inr u \<longleftrightarrow> 0 \<le> class \<and> class < 55"
  by (auto simp: is_class_valid_def)

lemma valid_child: "is_child_valid class ch = Inr u \<longleftrightarrow> 0 \<le> class \<and> class < 55 \<and> 0 \<le> ch \<and> ch < int (length (od_children (class_row class)))"
  by (auto simp: is_child_valid_def is_class_valid_def split: sum.splits)

lemma class_row_ok: "0 \<le> class \<Longrightarrow> class < 55 \<Longrightarrow> class_ok (class_row class)"
  using tables_ok by (simp add: list_all_length)

lemma child_row_ok:
  assumes "is_child_valid class ch = Inr u"
  shows "child_ok (child_row class ch)"
proof -
  have "class_ok (class_row class)" using assms by (intro class_row_ok) (simp_all add: valid_child)
  then show ?thesis using assms by (auto simp: class_ok_def list_all_length valid_child)
qed

lemma lower_name: "list_all (\<lambda>x. x \<in> set ''abcdefghijklmnopqrstuvwxyz_'') n \<Longrightarrow> map lower_char n = n"
  by (induction n) (auto simp: lower_char_def)

lemma find_name_nth:
  assumes "list_all child_ok cs" "distinct (map ch_name cs)" "i < length cs"
  shows "find_name (ch_name (cs ! i)) cs = Some i"
  using assms
proof (induction cs arbitrary: i)
  case (Cons c cs)
  have same: "strcasecmp0 (ch_name c) (ch_name d) \<longleftrightarrow> ch_name c = ch_name d" if "child_ok d" for d
    using that Cons.prems(1) by (simp add: strcasecmp0_def child_ok_def lower_name)
  show ?case
  proof (cases i)
    case (Suc j)
    then have "j < length cs" using Cons.prems(3) by simp
    then have j: "child_ok (cs ! j)" "ch_name c \<noteq> ch_name (cs ! j)" "find_name (ch_name (cs ! j)) cs = Some j"
      using Cons.IH [of j] Cons.prems by (simp_all add: list_all_iff) (metis imageI nth_mem)
    then show ?thesis using same [OF j(1)] Suc by simp
  qed (simp add: strcasecmp0_def)
qed simp

text \<open>A child is found by its name.\<close>

lemma find_child_name:
  assumes "is_child_valid class ch = Inr u"
  shows "idmef_class_find_child class (ch_name (child_row class ch)) = Inr ch"
proof -
  have c: "0 \<le> class" "class < 55" "0 \<le> ch" "nat ch < length (od_children (class_row class))" using assms by (auto simp: valid_child)
  then have "class_ok (class_row class)" by (intro class_row_ok)
  then have "find_name (ch_name (child_row class ch)) (od_children (class_row class)) = Some (nat ch)"
    using c(4) by (intro find_name_nth) (simp_all add: class_ok_def)
  moreover have "is_class_valid class = Inr ()" using c by (simp add: valid_class)
  ultimately show ?thesis using c(3) by (simp add: idmef_class_find_child_def with_class_def)
qed

lemma find_name_bound: "find_name name cs = Some i \<Longrightarrow> i < length cs"
  by (induction cs arbitrary: i) (auto split: if_splits)

lemma find_child_valid: "idmef_class_find_child class name = Inr ch \<Longrightarrow> is_child_valid class ch = Inr ()"
  by (auto simp: idmef_class_find_child_def with_class_def valid_child valid_class dest: find_name_bound split: sum.splits option.splits)

text \<open>The readers on a valid child.\<close>

lemma child_readers:
  assumes "is_child_valid class ch = Inr ()"
  shows "truth (idmef_class_is_child_list class ch) = ch_list (child_row class ch)"
    "truth (idmef_class_is_child_keyed_list class ch) = ch_keyed_list (child_row class ch)"
    "idmef_class_get_child_value_type class ch = Inr (ch_type (child_row class ch))"
    "idmef_class_get_child_name class ch = Some (ch_name (child_row class ch))"
    "idmef_class_get_child_class class ch = (if ch_type (child_row class ch) \<in> {VT_CLASS, VT_ENUM}
       then Inr (ch_class (child_row class ch)) else Inl PRELUDE_ERROR_IDMEF_CLASS_CHILD_NOT_CLASS)"
  using assms by (simp_all add: class_defs truth_def)

end
