(* ===== verification/IdmefPath.thy ===== *)
theory IdmefPath
  imports IdmefClass CText
begin

text \<open>
  Paths into IDMEF messages (\<open>src/idmef-path.c\<close>): the text of a path is parsed into a list of elements, each of them a
  child of the class before it with an optional index. Paths are shared through a cache and reference counts. The result
  \<open>None\<close> stands for undefined behaviour: a write behind the name, a null or freed key, an element behind the array.
\<close>

section \<open>Paths\<close>

definition MAX_DEPTH :: nat where "MAX_DEPTH = 16"
definition MAX_NAME_LEN :: nat where "MAX_NAME_LEN = 128"
definition INDEX_UNDEFINED :: int where "INDEX_UNDEFINED = - (2 ^ 31)"
definition INDEX_KEY :: int where "INDEX_KEY = - (2 ^ 31) + 1"
definition INDEX_FORBIDDEN :: int where "INDEX_FORBIDDEN = - (2 ^ 31) + 2"
definition IDMEF_LIST_APPEND :: int where "IDMEF_LIST_APPEND = 2 ^ 31 - 1"
definition IDMEF_LIST_PREPEND :: int where "IDMEF_LIST_PREPEND = 2 ^ 31 - 2"
definition IDMEF_CLASS_ID_MESSAGE :: int where "IDMEF_CLASS_ID_MESSAGE = 49"

lemmas index_values = INDEX_UNDEFINED_def INDEX_KEY_def INDEX_FORBIDDEN_def IDMEF_LIST_APPEND_def IDMEF_LIST_PREPEND_def

text \<open>The pointer to a key: null, a string, or a pointer to freed memory.\<close>

datatype key_ptr = No_Key | Key string | Dangling

record path_element =
  pe_index :: int
  pe_key :: key_ptr
  pe_class :: "int result"
  pe_position :: int
  pe_value_type :: value_type

record idmef_path =
  pa_name :: string
  pa_refcount :: int
  pa_depth :: nat
  pa_top_class :: int
  pa_elem :: "path_element list"

text \<open>A fresh path is filled with zeros.\<close>

definition empty_element :: path_element where
  "empty_element = \<lparr>pe_index = 0, pe_key = No_Key, pe_class = Inr 0, pe_position = 0, pe_value_type = VT_UNKNOWN\<rparr>"

definition empty_path :: idmef_path where
  "empty_path = \<lparr>pa_name = [], pa_refcount = 0, pa_depth = 0, pa_top_class = 0, pa_elem = replicate MAX_DEPTH empty_element\<rparr>"

text \<open>A negative class number, as an argument, is \<open>-1\<close>.\<close>

definition class_arg :: "int result \<Rightarrow> int" where
  "class_arg r = (case r of Inl _ \<Rightarrow> - 1 | Inr c \<Rightarrow> c)"

section \<open>Parsing\<close>

definition copy_path_name :: "string \<Rightarrow> unit result" where
  "copy_path_name buffer = (if MAX_NAME_LEN \<le> length buffer + 1 then Inl PRELUDE_ERROR_IDMEF_PATH_LENGTH else Inr ())"

text \<open>
  The tokens between the dots (\<open>parse_path_token\<close>). The source puts zero bytes into the name while it parses and takes them out
  again, so that the name is unchanged when parsing succeeds; when it fails the path is freed.
\<close>

fun path_tokens :: "string \<Rightarrow> string list" where
  "path_tokens [] = [[]]"
| "path_tokens (c # s) = (if c = CHR ''.'' then [] # path_tokens s else (c # hd (path_tokens s)) # tl (path_tokens s))"

text \<open>The text of an index, without the parentheses: the index and the key. A number is converted from \<open>long\<close> to \<open>int\<close>.\<close>

definition parse_index :: "string \<Rightarrow> (int \<times> key_ptr) result" where
  "parse_index tok =
     (if tok = ''<<'' then Inr (IDMEF_LIST_PREPEND, No_Key)
      else if tok = ''>>'' then Inr (IDMEF_LIST_APPEND, No_Key)
      else if tok \<noteq> [] \<and> (hd tok = CHR 0x27 \<or> hd tok = CHR 0x22) \<and> last tok = hd tok
      then Inr (INDEX_KEY, Key (take (length tok - 2) (tl tok)))
      else if tok = ''*'' then Inr (INDEX_UNDEFINED, No_Key)
      else case strtol tok of (n, rest) \<Rightarrow>
        let index = signed_take_bit 31 n in
        if index = 0 \<and> rest = tok then Inl PRELUDE_ERROR_GENERIC else Inr (index, No_Key))"

text \<open>A token is a name and an optional index; what follows the closing parenthesis is not looked at.\<close>

definition parse_token :: "string \<Rightarrow> (string \<times> int \<times> key_ptr) result" where
  "parse_token t =
     (let name = takeWhile (\<lambda>c. c \<noteq> CHR ''('') t; rest = drop (Suc (length name)) t in
      if name = t then Inr (name, INDEX_UNDEFINED, No_Key)
      else if CHR '')'' \<notin> set rest then Inl PRELUDE_ERROR_GENERIC
      else case parse_index (takeWhile (\<lambda>c. c \<noteq> CHR '')'') rest) of
        Inl e \<Rightarrow> Inl e
      | Inr (index, key) \<Rightarrow> Inr (name, index, key))"

text \<open>The element that a token stands for in a class, written over the old one; \<open>is_last\<close> tells whether a token follows.\<close>

definition parse_element :: "int \<Rightarrow> bool \<Rightarrow> string \<Rightarrow> path_element \<Rightarrow> path_element result" where
  "parse_element class is_last token elem =
     (case parse_token token of
        Inl e \<Rightarrow> Inl e
      | Inr (name, index, key) \<Rightarrow>
          (case idmef_class_find_child class name of
             Inl e \<Rightarrow> Inl e
           | Inr ch \<Rightarrow>
               let listed = truth (idmef_class_is_child_list class ch);
                   index' = (if index = INDEX_UNDEFINED then if listed then INDEX_UNDEFINED else INDEX_FORBIDDEN else index)
               in if index \<noteq> INDEX_UNDEFINED \<and> \<not> listed then Inl PRELUDE_ERROR_IDMEF_PATH_INDEX_FORBIDDEN
                  else if index = INDEX_KEY \<and> \<not> truth (idmef_class_is_child_keyed_list class ch)
                  then Inl PRELUDE_ERROR_IDMEF_PATH_INDEX_FORBIDDEN
                  else case idmef_class_get_child_value_type class ch of
                    Inl e \<Rightarrow> Inl e
                  | Inr vtype \<Rightarrow>
                      if vtype \<noteq> VT_CLASS \<and> \<not> is_last then Inl PRELUDE_ERROR_GENERIC
                      else Inr \<lparr>pe_index = index', pe_key = (if key = No_Key then pe_key elem else key),
                        pe_class = idmef_class_get_child_class class ch, pe_position = ch, pe_value_type = vtype\<rparr>))"

fun parse_elements :: "int \<Rightarrow> nat \<Rightarrow> string list \<Rightarrow> idmef_path \<Rightarrow> idmef_path result" where
  "parse_elements class depth [] path = Inr (path\<lparr>pa_depth := depth\<rparr>)"
| "parse_elements class depth (t # ts) path =
     (case parse_element class (ts = []) t (pa_elem path ! depth) of
        Inl e \<Rightarrow> Inl e
      | Inr elem \<Rightarrow>
          if Suc depth = MAX_DEPTH then Inl PRELUDE_ERROR_IDMEF_PATH_DEPTH
          else parse_elements (class_arg (pe_class elem)) (Suc depth) ts (path\<lparr>pa_elem := (pa_elem path)[depth := elem]\<rparr>))"

definition idmef_path_parse_new :: "idmef_path \<Rightarrow> int \<Rightarrow> string \<Rightarrow> idmef_path result" where
  "idmef_path_parse_new path rootclass buffer =
     (case copy_path_name buffer of
        Inl e \<Rightarrow> Inl e
      | Inr _ \<Rightarrow> parse_elements rootclass 0 (path_tokens buffer) (path\<lparr>pa_name := buffer, pa_top_class := rootclass\<rparr>))"

section \<open>Names\<close>

definition idmef_path_get_name :: "idmef_path \<Rightarrow> int \<Rightarrow> string option" where
  "idmef_path_get_name path depth =
     (if \<not> (depth < 0 \<or> nat depth < pa_depth path) then None
      else if depth < 0 then Some (pa_name path)
      else let elem = pa_elem path ! nat depth in
        if 0 < depth \<and> (isl (pe_class elem) \<or> pe_value_type elem = VT_ENUM)
        then idmef_class_get_child_name (class_arg (pe_class (pa_elem path ! nat (depth - 1)))) (pe_position elem)
        else idmef_class_get_name (class_arg (pe_class elem)))"

text \<open>
  \<open>strncat\<close> is given the number of bytes that are left, without room for the zero byte that it adds: a text that fills them is
  written one byte too far. \<open>snprintf\<close> keeps the zero byte inside.
\<close>

definition name_strncat :: "string \<Rightarrow> string \<Rightarrow> string option" where
  "name_strncat name text =
     (let name' = name @ take (MAX_NAME_LEN - length name) text in if length name' < MAX_NAME_LEN then Some name' else None)"

definition name_snprintf :: "string \<Rightarrow> string \<Rightarrow> string" where
  "name_snprintf name text = name @ take (MAX_NAME_LEN - length name - 1) text"

text \<open>The index of an element, appended to the name, without the quotes of a key.\<close>

definition append_index :: "path_element \<Rightarrow> string \<Rightarrow> string option" where
  "append_index elem name =
     (if pe_index elem = INDEX_UNDEFINED \<or> pe_index elem = INDEX_FORBIDDEN then Some name
      else Option.bind (name_strncat name ''('') (\<lambda>n1.
        Option.bind (if pe_index elem \<noteq> INDEX_KEY then Some (name_snprintf n1 (dec_int 0 (pe_index elem)))
                     else case pe_key elem of No_Key \<Rightarrow> Some n1 | Key k \<Rightarrow> name_strncat n1 k | Dangling \<Rightarrow> None)
          (\<lambda>n2. name_strncat n2 '')'')))"

text \<open>The loop of \<open>build_name\<close> from element \<open>i\<close> on, for \<open>n\<close> elements; it starts at the class of messages for every path.\<close>

fun build_elements :: "idmef_path \<Rightarrow> int \<Rightarrow> nat \<Rightarrow> nat \<Rightarrow> string \<Rightarrow> (unit result \<times> string) option" where
  "build_elements path class i 0 name = Some (Inr (), name)"
| "build_elements path class i (Suc n) name =
     Option.bind (if 0 < i then name_strncat name ''.'' else Some name) (\<lambda>name1.
       case idmef_path_get_name path (int i) of
         None \<Rightarrow> Some (Inl PRELUDE_ERROR_IDMEF_PATH_INTEGRITY, name1)
       | Some ename \<Rightarrow>
           Option.bind (name_strncat name1 ename) (\<lambda>name2.
           Option.bind (append_index (pa_elem path ! i) name2) (\<lambda>name3.
             let child_class = idmef_class_get_child_class class (pe_position (pa_elem path ! i)) in
             if isl child_class \<and> i < pa_depth path - 1 then Some (Inl PRELUDE_ERROR_IDMEF_PATH_INTEGRITY, name3)
             else build_elements path (class_arg child_class) (Suc i) n name3)))"

definition build_name :: "idmef_path \<Rightarrow> (unit result \<times> idmef_path) option" where
  "build_name path =
     map_option (\<lambda>(ret, name). (ret, path\<lparr>pa_name := name\<rparr>)) (build_elements path IDMEF_CLASS_ID_MESSAGE 0 (pa_depth path) [])"

section \<open>Reading a path\<close>

text \<open>The depth \<open>-1\<close> stands for the last element; an element behind the array is undefined.\<close>

definition elem_at :: "idmef_path \<Rightarrow> int \<Rightarrow> path_element option" where
  "elem_at path d = (if 0 \<le> d \<and> nat d < length (pa_elem path) then Some (pa_elem path ! nat d) else None)"

definition real_depth :: "idmef_path \<Rightarrow> int \<Rightarrow> int" where
  "real_depth path depth = (if depth < 0 then int (pa_depth path) - 1 else depth)"

definition idmef_path_get_class :: "idmef_path \<Rightarrow> int \<Rightarrow> int result option" where
  "idmef_path_get_class path depth =
     (let d = real_depth path depth in
      if pa_depth path = 0 \<and> d < 0 then Some (Inr (pa_top_class path)) else map_option pe_class (elem_at path d))"

definition idmef_path_get_value_type :: "idmef_path \<Rightarrow> int \<Rightarrow> value_type option" where
  "idmef_path_get_value_type path depth =
     (let d = real_depth path depth in
      if pa_depth path = 0 \<and> d < 0 then Some VT_CLASS else map_option pe_value_type (elem_at path d))"

definition idmef_path_get_index :: "idmef_path \<Rightarrow> nat \<Rightarrow> int result" where
  "idmef_path_get_index path depth =
     (if pa_depth path \<le> depth then Inl PRELUDE_ERROR_IDMEF_PATH_DEPTH
      else let index = pe_index (pa_elem path ! depth) in
        if index = INDEX_UNDEFINED then Inl PRELUDE_ERROR_IDMEF_PATH_INDEX_UNDEFINED
        else if index = INDEX_FORBIDDEN then Inl PRELUDE_ERROR_IDMEF_PATH_INDEX_FORBIDDEN
        else Inr index)"

definition idmef_path_get_key :: "idmef_path \<Rightarrow> nat \<Rightarrow> key_ptr result" where
  "idmef_path_get_key path depth =
     (if pa_depth path \<le> depth then Inl PRELUDE_ERROR_IDMEF_PATH_DEPTH
      else let index = pe_index (pa_elem path ! depth) in
        if index = INDEX_UNDEFINED then Inl PRELUDE_ERROR_IDMEF_PATH_INDEX_UNDEFINED
        else if index = INDEX_FORBIDDEN then Inl PRELUDE_ERROR_IDMEF_PATH_INDEX_FORBIDDEN
        else if index \<noteq> INDEX_KEY then Inl PRELUDE_ERROR_IDMEF_PATH_INDEX_FORBIDDEN
        else Inr (pe_key (pa_elem path ! depth)))"

definition idmef_path_is_ambiguous :: "idmef_path \<Rightarrow> bool" where
  "idmef_path_is_ambiguous path = list_ex (\<lambda>e. pe_index e = INDEX_UNDEFINED) (take (pa_depth path) (pa_elem path))"

definition idmef_path_has_lists :: "idmef_path \<Rightarrow> nat" where
  "idmef_path_has_lists path = length (filter (\<lambda>e. pe_index e \<noteq> INDEX_FORBIDDEN) (take (pa_depth path) (pa_elem path)))"

definition idmef_path_is_list :: "idmef_path \<Rightarrow> int \<Rightarrow> bool option" where
  "idmef_path_is_list path depth = map_option (\<lambda>e. pe_index e \<noteq> INDEX_FORBIDDEN) (elem_at path (real_depth path depth))"

text \<open>\<open>strcmp\<close> on keys; null and freed pointers are undefined.\<close>

definition key_eq :: "key_ptr \<Rightarrow> key_ptr \<Rightarrow> bool option" where
  "key_eq k l = (case (k, l) of (Key s, Key t) \<Rightarrow> Some (s = t) | _ \<Rightarrow> None)"

fun ncompare_elements :: "path_element list \<Rightarrow> path_element list \<Rightarrow> nat \<Rightarrow> int option" where
  "ncompare_elements es fs 0 = Some 0"
| "ncompare_elements (e # es) (f # fs) (Suc n) =
     (if pe_index e \<noteq> pe_index f then Some (- 1)
      else case (if pe_index e = INDEX_KEY then key_eq (pe_key e) (pe_key f) else Some True) of
        None \<Rightarrow> None
      | Some same \<Rightarrow> if \<not> same \<or> pe_position e \<noteq> pe_position f then Some (- 1) else ncompare_elements es fs n)"
| "ncompare_elements _ _ (Suc n) = None"

definition idmef_path_ncompare :: "idmef_path \<Rightarrow> idmef_path \<Rightarrow> nat \<Rightarrow> int option" where
  "idmef_path_ncompare p1 p2 depth = ncompare_elements (pa_elem p1) (pa_elem p2) depth"

definition idmef_path_compare :: "idmef_path \<Rightarrow> idmef_path \<Rightarrow> int option" where
  "idmef_path_compare p1 p2 = (if pa_depth p1 \<noteq> pa_depth p2 then Some (- 1) else idmef_path_ncompare p1 p2 (pa_depth p1))"

section \<open>Changing a path that is not shared\<close>

text \<open>The parts of the operations behind the call of \<open>invalidate\<close>.\<close>

definition put_index :: "nat \<Rightarrow> int \<Rightarrow> idmef_path \<Rightarrow> (unit result \<times> idmef_path) option" where
  "put_index depth index path =
     (let elem = pa_elem path ! depth;
          freed = (if pe_index elem = INDEX_KEY then case pe_key elem of Key _ \<Rightarrow> Some Dangling | No_Key \<Rightarrow> Some No_Key | Dangling \<Rightarrow> None
                   else Some (pe_key elem))
      in Option.bind freed (\<lambda>k. build_name (path\<lparr>pa_elem := (pa_elem path)[depth := elem\<lparr>pe_key := k, pe_index := index\<rparr>]\<rparr>)))"

definition set_index_error :: "idmef_path \<Rightarrow> nat \<Rightarrow> int \<Rightarrow> prelude_error_code option" where
  "set_index_error path depth index =
     (if pa_depth path \<le> depth then Some PRELUDE_ERROR_IDMEF_PATH_DEPTH
      else if index = INDEX_FORBIDDEN \<or> index = INDEX_KEY then Some PRELUDE_ERROR_IDMEF_PATH_INDEX_RESERVED
      else if pe_index (pa_elem path ! depth) = INDEX_FORBIDDEN then Some PRELUDE_ERROR_IDMEF_PATH_INDEX_FORBIDDEN
      else None)"

text \<open>A new element keeps the key that an earlier element of this depth has left behind.\<close>

definition put_child :: "int \<Rightarrow> int \<Rightarrow> string \<Rightarrow> int \<Rightarrow> idmef_path \<Rightarrow> idmef_path" where
  "put_child class ch child_name index path =
     (let listed = truth (idmef_class_is_child_list class ch);
          buf = (if 0 \<le> index \<and> listed then ''('' @ dec_int 0 index @ '')'' else []);
          dot = (if 0 < pa_depth path then ''.'' else []);
          elem = pa_elem path ! pa_depth path
      in path\<lparr>pa_name := name_snprintf (pa_name path) (dot @ child_name @ buf), pa_depth := Suc (pa_depth path),
           pa_elem := (pa_elem path)[pa_depth path := elem\<lparr>pe_position := ch,
             pe_index := (if listed then if index < 0 then INDEX_UNDEFINED else index else INDEX_FORBIDDEN),
             pe_class := idmef_class_get_child_class class ch,
             pe_value_type := (case idmef_class_get_child_value_type class ch of Inr t \<Rightarrow> t | Inl _ \<Rightarrow> VT_UNKNOWN)\<rparr>]\<rparr>)"

definition make_child_error :: "idmef_path \<Rightarrow> string \<Rightarrow> (prelude_error_code + int \<times> int) option" where
  "make_child_error path child_name =
     (if MAX_DEPTH - 1 < pa_depth path then Some (Inl PRELUDE_ERROR_IDMEF_PATH_DEPTH)
      else Option.bind (idmef_path_get_class path (- 1)) (\<lambda>class.
        Some (case idmef_class_find_child (class_arg class) child_name of Inl e \<Rightarrow> Inl e | Inr ch \<Rightarrow> Inr (class_arg class, ch))))"

text \<open>The name is cut at its last dot; a name without a dot becomes empty.\<close>

definition drop_parent :: "idmef_path \<Rightarrow> idmef_path" where
  "drop_parent path =
     path\<lparr>pa_depth := pa_depth path - 1,
       pa_name := (if CHR ''.'' \<in> set (pa_name path) then rev (tl (dropWhile (\<lambda>c. c \<noteq> CHR ''.'') (rev (pa_name path)))) else [])\<rparr>"

section \<open>Sharing\<close>

text \<open>
  The allocated paths by their addresses, and the cache: the addresses of the paths in it, which the hash table finds by the top class and the
  name. \<open>addr\<close> is the address that an allocation returns, or \<open>None\<close> when it fails.
\<close>

record path_state =
  ps_paths :: "nat \<Rightarrow> idmef_path option"
  ps_cache :: "nat list"

definition path_key_cmp_func :: "idmef_path \<Rightarrow> idmef_path \<Rightarrow> bool" where
  "path_key_cmp_func p q = (pa_top_class p = pa_top_class q \<and> pa_name p = pa_name q)"

text \<open>The hash table compares the paths in it with the key; a freed one among them is undefined.\<close>

definition cache_get :: "path_state \<Rightarrow> idmef_path \<Rightarrow> nat option option" where
  "cache_get st key =
     (if list_all (\<lambda>a. ps_paths st a \<noteq> None) (ps_cache st)
      then Some (find (\<lambda>a. path_key_cmp_func (the (ps_paths st a)) key) (ps_cache st)) else None)"

abbreviation put_path :: "nat \<Rightarrow> idmef_path option \<Rightarrow> path_state \<Rightarrow> path_state" where
  "put_path a p st \<equiv> st\<lparr>ps_paths := (ps_paths st)(a := p)\<rparr>"

definition idmef_path_ref :: "nat \<Rightarrow> path_state \<Rightarrow> path_state option" where
  "idmef_path_ref a st = map_option (\<lambda>p. put_path a (Some (p\<lparr>pa_refcount := pa_refcount p + 1\<rparr>)) st) (ps_paths st a)"

definition idmef_path_destroy :: "nat \<Rightarrow> path_state \<Rightarrow> path_state option" where
  "idmef_path_destroy a st =
     map_option (\<lambda>p. put_path a (if pa_refcount p - 1 \<noteq> 0 then Some (p\<lparr>pa_refcount := pa_refcount p - 1\<rparr>) else None) st) (ps_paths st a)"

text \<open>\<open>1\<close> with a path of the cache, or \<open>0\<close> with a new one.\<close>

definition idmef_path_create :: "nat option \<Rightarrow> int \<Rightarrow> string \<Rightarrow> path_state \<Rightarrow> ((bool \<times> nat) result \<times> path_state) option" where
  "idmef_path_create addr rootclass buffer st =
     (case copy_path_name buffer of
        Inl e \<Rightarrow> Some (Inl e, st)
      | Inr _ \<Rightarrow>
          (case cache_get st (empty_path\<lparr>pa_name := buffer, pa_top_class := rootclass\<rparr>) of
             None \<Rightarrow> None
           | Some (Some a) \<Rightarrow> Some (Inr (True, a), st)
           | Some None \<Rightarrow>
               (case addr of
                  None \<Rightarrow> Some (Inl PRELUDE_ERROR_ENOMEM, st)
                | Some a \<Rightarrow> Some (Inr (False, a), put_path a (Some (empty_path\<lparr>pa_refcount := 1\<rparr>)) st))))"

text \<open>When the path cannot be added to the cache, it is freed and the last return value, a success, is returned.\<close>

definition idmef_path_new_from_root_fast ::
  "nat option \<Rightarrow> bool \<Rightarrow> int \<Rightarrow> string \<Rightarrow> path_state \<Rightarrow> (nat result \<times> path_state) option" where
  "idmef_path_new_from_root_fast addr hash_ok rootclass buffer st =
     (case idmef_path_create addr rootclass buffer st of
        None \<Rightarrow> None
      | Some (Inl e, st) \<Rightarrow> Some (Inl e, st)
      | Some (Inr (True, a), st) \<Rightarrow> map_option (\<lambda>st. (Inr a, st)) (idmef_path_ref a st)
      | Some (Inr (False, a), st) \<Rightarrow>
          (case ps_paths st a of
             None \<Rightarrow> None
           | Some path \<Rightarrow>
               (case (if buffer = [] then Inr (path\<lparr>pa_top_class := rootclass\<rparr>) else idmef_path_parse_new path rootclass buffer) of
                  Inl e \<Rightarrow> Some (Inl e, put_path a None st)
                | Inr path' \<Rightarrow>
                    if \<not> hash_ok then Some (Inr a, put_path a None st)
                    else map_option (\<lambda>st. (Inr a, st))
                      (idmef_path_ref a ((put_path a (Some path') st)\<lparr>ps_cache := ps_cache st @ [a]\<rparr>)))))"

definition idmef_path_new_fast :: "nat option \<Rightarrow> bool \<Rightarrow> string \<Rightarrow> path_state \<Rightarrow> (nat result \<times> path_state) option" where
  "idmef_path_new_fast addr hash_ok buffer st = idmef_path_new_from_root_fast addr hash_ok IDMEF_CLASS_ID_MESSAGE buffer st"

definition idmef_path_get_depth :: "idmef_path \<Rightarrow> nat" where
  "idmef_path_get_depth path = pa_depth path"

text \<open>
  A path that is going to change leaves the cache. The entry is looked up by its name, so that it can be the entry of another
  path; the return value \<open>-1\<close> is a generic error.
\<close>

definition invalidate :: "nat \<Rightarrow> path_state \<Rightarrow> (unit result \<times> path_state) option" where
  "invalidate a st =
     (case ps_paths st a of
        None \<Rightarrow> None
      | Some p \<Rightarrow>
          if pa_refcount p = 1 then Some (Inr (), st)
          else if 2 < pa_refcount p then Some (Inl PRELUDE_ERROR_GENERIC, st)
          else if pa_refcount p = 2
          then (case cache_get st p of
                  None \<Rightarrow> None
                | Some (Some b) \<Rightarrow> Some (Inr (), (put_path a (Some (p\<lparr>pa_refcount := 1\<rparr>)) st)\<lparr>ps_cache := remove1 b (ps_cache st)\<rparr>)
                | Some None \<Rightarrow> Some (Inl PRELUDE_ERROR_GENERIC, st))
          else Some (Inr (), st))"

text \<open>An operation on the path at an address, once it was invalidated.\<close>

definition change_path ::
  "nat \<Rightarrow> (idmef_path \<Rightarrow> (unit result \<times> idmef_path) option) \<Rightarrow> path_state \<Rightarrow> (unit result \<times> path_state) option" where
  "change_path a f st =
     (case invalidate a st of
        None \<Rightarrow> None
      | Some (Inl e, st) \<Rightarrow> Some (Inl e, st)
      | Some (Inr _, st) \<Rightarrow>
          Option.bind (ps_paths st a) (\<lambda>p. map_option (\<lambda>(ret, p'). (ret, put_path a (Some p') st)) (f p)))"

definition idmef_path_set_index :: "nat \<Rightarrow> nat \<Rightarrow> int \<Rightarrow> path_state \<Rightarrow> (unit result \<times> path_state) option" where
  "idmef_path_set_index a depth index st =
     (case ps_paths st a of
        None \<Rightarrow> None
      | Some p \<Rightarrow> (case set_index_error p depth index of
          Some e \<Rightarrow> Some (Inl e, st)
        | None \<Rightarrow> change_path a (put_index depth index) st))"

definition idmef_path_undefine_index :: "nat \<Rightarrow> nat \<Rightarrow> path_state \<Rightarrow> (unit result \<times> path_state) option" where
  "idmef_path_undefine_index a depth st = idmef_path_set_index a depth INDEX_UNDEFINED st"

definition idmef_path_make_child :: "nat \<Rightarrow> string \<Rightarrow> int \<Rightarrow> path_state \<Rightarrow> (unit result \<times> path_state) option" where
  "idmef_path_make_child a child_name index st =
     (case ps_paths st a of
        None \<Rightarrow> None
      | Some p \<Rightarrow> (case make_child_error p child_name of
          None \<Rightarrow> None
        | Some (Inl e) \<Rightarrow> Some (Inl e, st)
        | Some (Inr (class, ch)) \<Rightarrow> change_path a (\<lambda>p. Some (Inr (), put_child class ch child_name index p)) st))"

definition idmef_path_make_parent :: "nat \<Rightarrow> path_state \<Rightarrow> (unit result \<times> path_state) option" where
  "idmef_path_make_parent a st =
     (case ps_paths st a of
        None \<Rightarrow> None
      | Some p \<Rightarrow> if pa_depth p = 0 then Some (Inl PRELUDE_ERROR_IDMEF_PATH_PARENT_ROOT, st)
                 else change_path a (\<lambda>p. Some (Inr (), drop_parent p)) st)"

text \<open>
  Keys are copied up to the depth; \<open>dup_ok i\<close> tells whether the copy of the key of element \<open>i\<close> succeeds. When the first one
  fails, the loop that frees the earlier copies counts down from zero and leaves the array.
\<close>

fun clone_keys :: "(nat \<Rightarrow> bool) \<Rightarrow> path_element list \<Rightarrow> nat \<Rightarrow> nat \<Rightarrow> unit result option" where
  "clone_keys dup_ok elems i 0 = Some (Inr ())"
| "clone_keys dup_ok elems i (Suc n) =
     (case pe_key (elems ! i) of
        No_Key \<Rightarrow> clone_keys dup_ok elems (Suc i) n
      | Dangling \<Rightarrow> None
      | Key _ \<Rightarrow> if dup_ok i then clone_keys dup_ok elems (Suc i) n
                else if i = 0 then None else Some (Inl PRELUDE_ERROR_ENOMEM))"

definition idmef_path_clone :: "nat option \<Rightarrow> (nat \<Rightarrow> bool) \<Rightarrow> nat \<Rightarrow> path_state \<Rightarrow> (nat result \<times> path_state) option" where
  "idmef_path_clone addr dup_ok src st =
     (case ps_paths st src of
        None \<Rightarrow> None
      | Some p \<Rightarrow>
          (case addr of
             None \<Rightarrow> Some (Inl PRELUDE_ERROR_ENOMEM, st)
           | Some a \<Rightarrow>
               map_option (\<lambda>ret. case ret of Inl e \<Rightarrow> (Inl e, st)
                   | Inr _ \<Rightarrow> (Inr a, put_path a (Some (p\<lparr>pa_refcount := 1\<rparr>)) st))
                 (clone_keys dup_ok (pa_elem p) 0 (pa_depth p))))"

section \<open>Histories\<close>

text \<open>Any operation, with any arguments; the result \<open>r\<close> of the operation is not part of the state.\<close>

inductive path_step :: "path_state \<Rightarrow> path_state \<Rightarrow> bool" where
  new: "addr \<notin> Some ` dom (ps_paths st) \<Longrightarrow> idmef_path_new_from_root_fast addr hash_ok rootclass buffer st = Some (r, st') \<Longrightarrow> path_step st st'"
| ref: "idmef_path_ref a st = Some st' \<Longrightarrow> path_step st st'"
| destroy: "idmef_path_destroy a st = Some st' \<Longrightarrow> path_step st st'"
| set_index: "idmef_path_set_index a depth index st = Some (r', st') \<Longrightarrow> path_step st st'"
| make_child: "idmef_path_make_child a name index st = Some (r', st') \<Longrightarrow> path_step st st'"
| make_parent: "idmef_path_make_parent a st = Some (r', st') \<Longrightarrow> path_step st st'"
| clone: "addr \<notin> Some ` dom (ps_paths st) \<Longrightarrow> idmef_path_clone addr dup_ok a st = Some (r, st') \<Longrightarrow> path_step st st'"

definition initial_paths :: path_state where
  "initial_paths = \<lparr>ps_paths = (\<lambda>_. None), ps_cache = []\<rparr>"

end
