(* ===== verification/IdmefPathProps.thy ===== *)
theory IdmefPathProps
  imports IdmefPath
begin

text \<open>
  What paths promise: every path names children that are there, in every state; the text of a path denotes its elements; paths that are
  shared do not change. The last part shows where \<open>src/idmef-path.c\<close> breaks these promises.
\<close>

section \<open>Typing\<close>

text \<open>An element is typed in the class before it when it agrees with the tables.\<close>

definition elem_ok :: "int \<Rightarrow> path_element \<Rightarrow> bool" where
  "elem_ok cls e \<longleftrightarrow>
     is_child_valid cls (pe_position e) = Inr () \<and>
     pe_class e = idmef_class_get_child_class cls (pe_position e) \<and>
     pe_value_type e = ch_type (child_row cls (pe_position e)) \<and>
     (\<not> ch_list (child_row cls (pe_position e)) \<longrightarrow> pe_index e = INDEX_FORBIDDEN) \<and>
     (pe_index e = INDEX_KEY \<longrightarrow> ch_keyed_list (child_row cls (pe_position e)))"

fun elems_ok :: "int \<Rightarrow> path_element list \<Rightarrow> bool" where
  "elems_ok cls [] \<longleftrightarrow> True"
| "elems_ok cls (e # es) \<longleftrightarrow> elem_ok cls e \<and> (es \<noteq> [] \<longrightarrow> pe_value_type e = VT_CLASS) \<and> elems_ok (class_arg (pe_class e)) es"

definition path_ok :: "idmef_path \<Rightarrow> bool" where
  "path_ok p \<longleftrightarrow> length (pa_elem p) = MAX_DEPTH \<and> pa_depth p \<le> MAX_DEPTH \<and> length (pa_name p) < MAX_NAME_LEN \<and>
     elems_ok (pa_top_class p) (take (pa_depth p) (pa_elem p))"

text \<open>The class behind a list of elements.\<close>

definition class_behind :: "int \<Rightarrow> path_element list \<Rightarrow> int" where
  "class_behind cls es = (if es = [] then cls else class_arg (pe_class (last es)))"

lemma class_behind_simps [simp]: "class_behind c [] = c" "class_behind c (e # es) = class_behind (class_arg (pe_class e)) es"
  by (auto simp: class_behind_def)

lemma elems_ok_append:
  "elems_ok c (es @ fs) \<longleftrightarrow> elems_ok c es \<and> (es \<noteq> [] \<and> fs \<noteq> [] \<longrightarrow> pe_value_type (last es) = VT_CLASS) \<and> elems_ok (class_behind c es) fs"
  by (induction es arbitrary: c) (auto simp: class_behind_def)

lemma elems_ok_take: "elems_ok c es \<Longrightarrow> elems_ok c (take n es)"
  by (metis append_take_drop_id elems_ok_append)

lemma parse_element_ok:
  assumes "parse_element cls is_last t e = Inr e'"
  shows "elem_ok cls e' \<and> (\<not> is_last \<longrightarrow> pe_value_type e' = VT_CLASS)"
proof -
  obtain name index key where t: "parse_token t = Inr (name, index, key)"
    using assms by (auto simp: parse_element_def split: sum.splits)
  obtain ch where ch: "idmef_class_find_child cls name = Inr ch"
    using assms t by (auto simp: parse_element_def split: sum.splits)
  note readers = child_readers [OF find_child_valid [OF ch]]
  show ?thesis
    using assms t ch find_child_valid [OF ch] readers(1-3)
    by (auto simp: parse_element_def elem_ok_def Let_def index_values split: if_splits)
qed

lemma parse_elements_ok:
  "parse_elements cls depth ts p = Inr p' \<Longrightarrow> length (pa_elem p) = MAX_DEPTH \<Longrightarrow> depth < MAX_DEPTH \<Longrightarrow>
     \<exists>es. take depth (pa_elem p) @ es = take (pa_depth p') (pa_elem p') \<and> length es = length ts \<and> pa_depth p' = depth + length ts \<and>
       elems_ok cls es \<and> pa_depth p' < MAX_DEPTH \<and> length (pa_elem p') = MAX_DEPTH \<and> drop (pa_depth p') (pa_elem p') = drop (pa_depth p') (pa_elem p) \<and>
       pa_name p' = pa_name p \<and> pa_top_class p' = pa_top_class p \<and> pa_refcount p' = pa_refcount p"
proof (induction cls depth ts p arbitrary: p' rule: parse_elements.induct)
  case (2 cls depth t ts p)
  obtain e where e: "parse_element cls (ts = []) t (pa_elem p ! depth) = Inr e"
    using 2(2) by (auto split: sum.splits)
  then have depth: "Suc depth < MAX_DEPTH" using 2(2,4) by (auto split: if_splits)
  let ?p = "p\<lparr>pa_elem := (pa_elem p)[depth := e]\<rparr>"
  obtain es where es: "take (Suc depth) (pa_elem ?p) @ es = take (pa_depth p') (pa_elem p')" "length es = length ts"
      "pa_depth p' = Suc depth + length ts" "elems_ok (class_arg (pe_class e)) es" "pa_depth p' < MAX_DEPTH"
      "length (pa_elem p') = MAX_DEPTH" "drop (pa_depth p') (pa_elem p') = drop (pa_depth p') (pa_elem ?p)"
      "pa_name p' = pa_name p" "pa_top_class p' = pa_top_class p" "pa_refcount p' = pa_refcount p"
    using 2(1) [of e p'] e depth 2(2,3) by auto
  have "take (Suc depth) (pa_elem ?p) = take depth (pa_elem p) @ [e]"
    using 2(3,4) by (simp add: take_Suc_conv_app_nth)
  then show ?case
    using es parse_element_ok [OF e] by (intro exI [of _ "e # es"]) auto
qed auto

lemma strncat_bound: "name_strncat name t = Some n \<Longrightarrow> length n < MAX_NAME_LEN"
  by (auto simp: name_strncat_def Let_def split: if_splits)

lemma snprintf_bound: "length name < MAX_NAME_LEN \<Longrightarrow> length (name_snprintf name t) < MAX_NAME_LEN"
  by (auto simp: name_snprintf_def)

lemma append_index_bound: "append_index e name = Some n \<Longrightarrow> length name < MAX_NAME_LEN \<Longrightarrow> length n < MAX_NAME_LEN"
  by (auto simp: append_index_def bind_eq_Some_conv split: if_splits dest: strncat_bound)

lemma build_elements_bound:
  "build_elements p cls i n name = Some (r, name') \<Longrightarrow> length name < MAX_NAME_LEN \<Longrightarrow> length name' < MAX_NAME_LEN"
proof (induction n arbitrary: cls i name)
  case (Suc n)
  then obtain name1 where n1: "(if 0 < i then name_strncat name ''.'' else Some name) = Some name1" by (auto simp: bind_eq_Some_conv)
  then have b1: "length name1 < MAX_NAME_LEN" using Suc.prems(2) by (auto split: if_splits dest: strncat_bound)
  show ?case
  proof (cases "idmef_path_get_name p (int i)")
    case (Some ename)
    then obtain name2 name3 where n2: "name_strncat name1 ename = Some name2" "append_index (pa_elem p ! i) name2 = Some name3"
      using Suc.prems(1) n1 by (auto simp: bind_eq_Some_conv)
    then have "length name3 < MAX_NAME_LEN" using append_index_bound strncat_bound by blast
    then show ?thesis using Suc n1 n2 Some by (auto simp: Let_def split: if_splits)
  qed (use Suc.prems n1 b1 in auto)
qed simp

lemma build_name_ok: "build_name p = Some (r, p') \<Longrightarrow> path_ok p \<Longrightarrow> path_ok p'"
  by (auto simp: build_name_def path_ok_def MAX_NAME_LEN_def dest: build_elements_bound [unfolded MAX_NAME_LEN_def])

lemma elems_ok_update:
  assumes "elems_ok c es" "i < length es" "pe_class e = pe_class (es ! i)" "pe_value_type e = pe_value_type (es ! i)"
    and "\<And>c. elem_ok c (es ! i) \<Longrightarrow> elem_ok c e"
  shows "elems_ok c (es[i := e])"
  using assms by (induction es arbitrary: c i) (auto split: nat.splits)

lemma elems_ok_nth: "elems_ok c es \<Longrightarrow> i < length es \<Longrightarrow> elem_ok (class_behind c (take i es)) (es ! i)"
  by (induction es arbitrary: c i) (auto simp: less_Suc_eq_0_disj)

lemma put_index_ok:
  assumes "path_ok p" "set_index_error p depth index = None" "put_index depth index p = Some (r, p')"
  shows "path_ok p'"
proof -
  let ?e = "pa_elem p ! depth"
  have depth: "depth < pa_depth p" "index \<noteq> INDEX_KEY" "index \<noteq> INDEX_FORBIDDEN" "pe_index ?e \<noteq> INDEX_FORBIDDEN"
    using assms(2) by (auto simp: set_index_error_def Let_def split: if_splits)
  obtain k where b: "build_name (p\<lparr>pa_elem := (pa_elem p)[depth := ?e\<lparr>pe_key := k, pe_index := index\<rparr>]\<rparr>) = Some (r, p')"
    using assms(3) by (auto simp: put_index_def Let_def bind_eq_Some_conv)
  have "elems_ok (pa_top_class p) ((take (pa_depth p) (pa_elem p))[depth := ?e\<lparr>pe_key := k, pe_index := index\<rparr>])"
    using assms(1) depth by (intro elems_ok_update) (auto simp: path_ok_def elem_ok_def)
  then have "path_ok (p\<lparr>pa_elem := (pa_elem p)[depth := ?e\<lparr>pe_key := k, pe_index := index\<rparr>]\<rparr>)"
    using assms(1) by (simp add: path_ok_def take_update_swap)
  with b show ?thesis by (rule build_name_ok)
qed

text \<open>Only structures have children.\<close>

lemma find_child_of_class:
  assumes "elem_ok c e" "idmef_class_find_child (class_arg (pe_class e)) name = Inr ch"
  shows "pe_value_type e = VT_CLASS"
proof -
  let ?row = "child_row c (pe_position e)"
  have e: "is_child_valid c (pe_position e) = Inr ()" "pe_class e = idmef_class_get_child_class c (pe_position e)" "pe_value_type e = ch_type ?row"
    using assms(1) by (simp_all add: elem_ok_def)
  note row = child_row_ok [OF e(1)] and readers = child_readers [OF e(1)]
  have valid: "is_child_valid (class_arg (pe_class e)) ch = Inr ()" using assms(2) by (rule find_child_valid)
  show ?thesis
  proof (rule ccontr)
    assume no: "pe_value_type e \<noteq> VT_CLASS"
    then have "ch_type ?row = VT_ENUM"
      using valid e readers(5) by (cases "ch_type ?row = VT_ENUM") (auto simp: class_arg_def valid_child)
    then have "class_arg (pe_class e) = ch_class ?row" "od_kind (class_row (ch_class ?row)) = Enumeration" "0 < ch_class ?row" "ch_class ?row < 54"
      using e readers(5) row by (simp_all add: class_arg_def child_ok_def)
    then show False using valid class_row_ok [of "ch_class ?row"] by (auto simp: valid_child class_ok_def)
  qed
qed

lemma make_child_finds: "make_child_error p name = Some (Inr (cls, ch)) \<Longrightarrow> idmef_class_find_child cls name = Inr ch"
  by (cases "idmef_path_get_class p (- 1)"; cases "idmef_class_find_child (class_arg (the (idmef_path_get_class p (- 1)))) name")
    (auto simp: make_child_error_def split: if_splits)

lemma make_child_class:
  assumes "path_ok p" "make_child_error p name = Some (Inr (cls, ch))"
  shows "class_behind (pa_top_class p) (take (pa_depth p) (pa_elem p)) = cls"
proof -
  have depth: "pa_depth p < MAX_DEPTH" using assms(2) by (auto simp: make_child_error_def MAX_DEPTH_def split: if_splits)
  obtain c where c: "idmef_path_get_class p (- 1) = Some c" "cls = class_arg c"
    using assms(2) that
    by (cases "idmef_path_get_class p (- 1)"; cases "idmef_class_find_child (class_arg (the (idmef_path_get_class p (- 1)))) name")
      (auto simp: make_child_error_def split: if_splits)
  have len: "length (pa_elem p) = MAX_DEPTH" using assms(1) by (simp add: path_ok_def)
  show ?thesis
    using c depth len by (auto simp: idmef_path_get_class_def real_depth_def elem_at_def class_behind_def class_arg_def last_conv_nth
        min_def Let_def nat_diff_distrib split: if_splits)
qed

lemma put_child_ok:
  assumes "path_ok p" "make_child_error p name = Some (Inr (cls, ch))"
  shows "path_ok (put_child cls ch name index p)"
proof -
  have depth: "pa_depth p < MAX_DEPTH" using assms(2) by (auto simp: make_child_error_def MAX_DEPTH_def split: if_splits)
  obtain c where c: "idmef_path_get_class p (- 1) = Some c" "cls = class_arg c" "idmef_class_find_child cls name = Inr ch"
    using assms(2) that
    by (cases "idmef_path_get_class p (- 1)"; cases "idmef_class_find_child (class_arg (the (idmef_path_get_class p (- 1)))) name")
      (auto simp: make_child_error_def split: if_splits)
  have len: "length (pa_elem p) = MAX_DEPTH" using assms(1) by (simp add: path_ok_def)
  let ?es = "take (pa_depth p) (pa_elem p)"
  have behind: "cls = class_behind (pa_top_class p) ?es" using make_child_class [OF assms] by simp
  note valid = find_child_valid [OF c(3)] and readers = child_readers [OF find_child_valid [OF c(3)]]
  have cls: "pe_value_type (last ?es) = VT_CLASS" if "?es \<noteq> []"
  proof -
    have "elem_ok (class_behind (pa_top_class p) (butlast ?es)) (last ?es)"
      using assms(1) that elems_ok_nth [of "pa_top_class p" ?es "length ?es - 1"]
      by (simp add: path_ok_def last_conv_nth butlast_conv_take min_def split: if_splits)
    moreover have "cls = class_arg (pe_class (last ?es))" using behind that by (simp add: class_behind_def)
    ultimately show ?thesis using find_child_of_class c(3) by blast
  qed
  show ?thesis
    using assms(1) depth len valid readers cls behind
    by (auto simp: path_ok_def put_child_def Let_def take_Suc_conv_app_nth elems_ok_append elem_ok_def snprintf_bound index_values)
qed

lemma drop_parent_ok: "path_ok p \<Longrightarrow> path_ok (drop_parent p)"
proof -
  assume p: "path_ok p"
  have "length (rev (tl (dropWhile (\<lambda>c. c \<noteq> CHR ''.'') (rev (pa_name p))))) \<le> length (pa_name p)"
    using length_dropWhile_le [of "\<lambda>c. c \<noteq> CHR ''.''" "rev (pa_name p)"] by simp
  moreover have "take (pa_depth p - 1) (pa_elem p) = take (pa_depth p - 1) (take (pa_depth p) (pa_elem p))" by simp
  ultimately show ?thesis using p elems_ok_take [of "pa_top_class p" "take (pa_depth p) (pa_elem p)" "pa_depth p - 1"]
    by (auto simp: path_ok_def drop_parent_def MAX_NAME_LEN_def)
qed

lemma parse_new_ok:
  assumes "idmef_path_parse_new p c s = Inr p'" "length (pa_elem p) = MAX_DEPTH"
  shows "path_ok p' \<and> pa_name p' = s"
proof -
  have copy: "copy_path_name s = Inr ()" using assms(1) by (auto simp: idmef_path_parse_new_def split: sum.splits)
  then have "parse_elements c 0 (path_tokens s) (p\<lparr>pa_name := s, pa_top_class := c\<rparr>) = Inr p'"
    using assms(1) by (simp add: idmef_path_parse_new_def)
  from parse_elements_ok [OF this] show ?thesis
    using assms(2) copy by (auto simp: path_ok_def copy_path_name_def MAX_DEPTH_def split: if_splits)
qed

text \<open>A state in which every path is typed.\<close>

definition paths_ok :: "path_state \<Rightarrow> bool" where
  "paths_ok st \<longleftrightarrow> (\<forall>a p. ps_paths st a = Some p \<longrightarrow> path_ok p)"

lemma paths_ok_put: "paths_ok st \<Longrightarrow> (\<And>p. q = Some p \<Longrightarrow> path_ok p) \<Longrightarrow> paths_ok (put_path a q st)"
  by (auto simp: paths_ok_def)

lemma paths_ok_cache [simp]: "paths_ok (st\<lparr>ps_cache := c\<rparr>) = paths_ok st"
  by (simp add: paths_ok_def)

lemma path_ok_refcount [simp]: "path_ok (p\<lparr>pa_refcount := n\<rparr>) = path_ok p"
  by (simp add: path_ok_def)

lemma empty_path_ok [simp]: "path_ok empty_path" "length (pa_elem empty_path) = MAX_DEPTH"
  by (simp_all add: path_ok_def empty_path_def MAX_NAME_LEN_def)

lemma ref_ok: "idmef_path_ref a st = Some st' \<Longrightarrow> paths_ok st \<Longrightarrow> paths_ok st'"
  by (auto simp: idmef_path_ref_def paths_ok_def split: if_splits)

lemma invalidate_ok: "invalidate a st = Some (r, st') \<Longrightarrow> paths_ok st \<Longrightarrow> paths_ok st'"
  by (auto simp: invalidate_def paths_ok_def split: option.splits if_splits)

lemma change_path_ok:
  assumes "change_path a f st = Some (r, st')" "paths_ok st"
    and "\<And>st1 p r p'. invalidate a st = Some (Inr (), st1) \<Longrightarrow> ps_paths st1 a = Some p \<Longrightarrow> path_ok p \<Longrightarrow> f p = Some (r, p') \<Longrightarrow> path_ok p'"
  shows "paths_ok st'"
proof -
  obtain r1 st1 where inv: "invalidate a st = Some (r1, st1)" using assms(1) by (auto simp: change_path_def split: option.splits)
  have st1: "paths_ok st1" using inv assms(2) by (rule invalidate_ok)
  show ?thesis
  proof (cases r1)
    case (Inr u)
    then obtain p p' where p: "ps_paths st1 a = Some p" "f p = Some (r, p')" "st' = put_path a (Some p') st1"
      using assms(1) inv by (auto simp: change_path_def bind_eq_Some_conv split: option.splits)
    have "path_ok p'" using assms(3) [OF _ p(1) _ p(2)] inv Inr st1 p(1) by (simp add: paths_ok_def)
    then show ?thesis unfolding p(3) using st1 by (intro paths_ok_put) auto
  qed (use assms(1) inv st1 in \<open>auto simp: change_path_def\<close>)
qed

text \<open>Invalidation changes nothing of the path but its reference count.\<close>

lemma invalidate_path:
  "invalidate a st = Some (Inr (), st1) \<Longrightarrow> ps_paths st1 a = Some p1 \<Longrightarrow> \<exists>p n. ps_paths st a = Some p \<and> p1 = p\<lparr>pa_refcount := n\<rparr>"
  by (auto simp: invalidate_def split: option.splits if_splits intro: exI [of _ "pa_refcount p1"])

lemma path_ok_cong: "path_ok p \<Longrightarrow> pa_elem q = pa_elem p \<Longrightarrow> pa_depth q = pa_depth p \<Longrightarrow> pa_name q = pa_name p \<Longrightarrow> pa_top_class q = pa_top_class p \<Longrightarrow> path_ok q"
  by (simp add: path_ok_def)

text \<open>The four ways in which a path is asked for: nothing happens, one of the cache is shared, a new one fails, or it enters the cache.\<close>

definition fresh_path :: "int \<Rightarrow> string \<Rightarrow> idmef_path result" where
  "fresh_path c s = (let p = empty_path\<lparr>pa_refcount := 1\<rparr> in if s = [] then Inr (p\<lparr>pa_top_class := c\<rparr>) else idmef_path_parse_new p c s)"

lemma new_cases:
  assumes "idmef_path_new_from_root_fast addr ok c s st = Some (r, st')"
  obtains e where "r = Inl e" "st' = st"
  | a where "cache_get st (empty_path\<lparr>pa_name := s, pa_top_class := c\<rparr>) = Some (Some a)" "r = Inr a" "idmef_path_ref a st = Some st'"
  | a where "addr = Some a" "st' = put_path a None st" "(\<exists>e. r = Inl e) \<or> \<not> ok"
  | a p where "addr = Some a" "cache_get st (empty_path\<lparr>pa_name := s, pa_top_class := c\<rparr>) = Some None" "r = Inr a" "fresh_path c s = Inr p"
      "st' = (put_path a (Some (p\<lparr>pa_refcount := pa_refcount p + 1\<rparr>)) st)\<lparr>ps_cache := ps_cache st @ [a]\<rparr>" "copy_path_name s = Inr ()"
proof -
  note def = idmef_path_new_from_root_fast_def idmef_path_create_def
  show ?thesis
  proof (cases "copy_path_name s")
    case (Inl e)
    then show ?thesis using assms that(1) by (auto simp: def)
  next
    case copy: (Inr u)
    show ?thesis
    proof (cases "cache_get st (empty_path\<lparr>pa_name := s, pa_top_class := c\<rparr>)")
      case None
      then show ?thesis using assms copy by (simp add: def)
    next
      case found: (Some q)
      show ?thesis
      proof (cases q)
        case (Some a)
        then show ?thesis using assms copy found that(2) by (auto simp: def)
      next
        case q: None
        show ?thesis
        proof (cases addr)
          case None
          then show ?thesis using assms copy found q that(1) by (auto simp: def)
        next
          case (Some a)
          then show ?thesis using assms copy found q that(3) [OF Some] that(4) [OF Some]
            by (cases "fresh_path c s") (auto simp: def fresh_path_def Let_def idmef_path_ref_def split: if_splits)
        qed
      qed
    qed
  qed
qed

lemma fresh_path_ok: "fresh_path c s = Inr p \<Longrightarrow> path_ok p"
  using parse_new_ok [of "empty_path\<lparr>pa_refcount := 1\<rparr>" c s p]
  by (auto simp: fresh_path_def Let_def path_ok_def empty_path_def MAX_NAME_LEN_def split: if_splits)

lemma path_new_ok:
  assumes "idmef_path_new_from_root_fast addr ok c s st = Some (r, st')" "paths_ok st"
  shows "paths_ok st'"
  using assms(1)
proof (cases rule: new_cases)
  case (4 a p)
  then have "paths_ok (put_path a (Some (p\<lparr>pa_refcount := pa_refcount p + 1\<rparr>)) st)"
    using assms(2) fresh_path_ok [OF 4(4)] by (intro paths_ok_put) auto
  then show ?thesis using 4(5) by (simp add: paths_ok_def)
qed (use assms(2) ref_ok in \<open>auto intro: paths_ok_put\<close>)

lemma errors_refcount [simp]:
  "set_index_error (p\<lparr>pa_refcount := n\<rparr>) depth index = set_index_error p depth index"
  "make_child_error (p\<lparr>pa_refcount := n\<rparr>) name = make_child_error p name"
  by (simp_all add: set_index_error_def make_child_error_def idmef_path_get_class_def real_depth_def elem_at_def)

lemma set_index_ok:
  assumes "idmef_path_set_index a depth index st = Some (r, st')" "paths_ok st"
  shows "paths_ok st'"
proof -
  obtain p where p: "ps_paths st a = Some p" using assms(1) by (auto simp: idmef_path_set_index_def split: option.splits)
  show ?thesis
  proof (cases "set_index_error p depth index")
    case None
    then have ch: "change_path a (put_index depth index) st = Some (r, st')" using assms(1) p by (simp add: idmef_path_set_index_def)
    show ?thesis
    proof (rule change_path_ok [OF ch assms(2)])
      fix st1 q r q'
      assume inv: "invalidate a st = Some (Inr (), st1)" "ps_paths st1 a = Some q" and q: "path_ok q" "put_index depth index q = Some (r, q')"
      obtain n where "q = p\<lparr>pa_refcount := n\<rparr>" using invalidate_path [OF inv] p by auto
      then have "set_index_error q depth index = None" using None by simp
      then show "path_ok q'" using q put_index_ok by blast
    qed
  qed (use assms p in \<open>simp add: idmef_path_set_index_def\<close>)
qed

lemma make_child_ok:
  assumes "idmef_path_make_child a name index st = Some (r, st')" "paths_ok st"
  shows "paths_ok st'"
proof -
  obtain p m where p: "ps_paths st a = Some p" "make_child_error p name = Some m"
    using assms(1) by (auto simp: idmef_path_make_child_def split: option.splits)
  show ?thesis
  proof (cases m)
    case (Inr m')
    obtain cls ch where m': "m' = (cls, ch)" by force
    have ch: "change_path a (\<lambda>p. Some (Inr (), put_child cls ch name index p)) st = Some (r, st')"
      using assms(1) p Inr m' by (simp add: idmef_path_make_child_def)
    show ?thesis
    proof (rule change_path_ok [OF ch assms(2)])
      fix st1 q r q'
      assume inv: "invalidate a st = Some (Inr (), st1)" "ps_paths st1 a = Some q" and q: "path_ok q" "Some (Inr (), put_child cls ch name index q) = Some (r, q')"
      obtain n where "q = p\<lparr>pa_refcount := n\<rparr>" using invalidate_path [OF inv] p by auto
      then have "make_child_error q name = Some (Inr (cls, ch))" using p(2) Inr m' by simp
      then show "path_ok q'" using q put_child_ok by blast
    qed
  qed (use assms p in \<open>simp add: idmef_path_make_child_def\<close>)
qed

lemma make_parent_ok:
  assumes "idmef_path_make_parent a st = Some (r, st')" "paths_ok st"
  shows "paths_ok st'"
proof -
  obtain p where p: "ps_paths st a = Some p" using assms(1) by (auto simp: idmef_path_make_parent_def split: option.splits)
  show ?thesis
  proof (cases "pa_depth p = 0")
    case False
    then have ch: "change_path a (\<lambda>p. Some (Inr (), drop_parent p)) st = Some (r, st')" using assms(1) p by (simp add: idmef_path_make_parent_def)
    show ?thesis by (rule change_path_ok [OF ch assms(2)]) (use drop_parent_ok in blast)
  qed (use assms p in \<open>simp add: idmef_path_make_parent_def\<close>)
qed

lemma clone_cases:
  assumes "idmef_path_clone addr dup a st = Some (r, st')"
  obtains e where "r = Inl e" "st' = st"
  | b p where "addr = Some b" "r = Inr b" "ps_paths st a = Some p" "st' = put_path b (Some (p\<lparr>pa_refcount := 1\<rparr>)) st"
      "clone_keys dup (pa_elem p) 0 (pa_depth p) = Some (Inr ())"
proof -
  obtain p where p: "ps_paths st a = Some p" using assms by (auto simp: idmef_path_clone_def split: option.splits)
  show ?thesis
  proof (cases addr)
    case (Some b)
    then obtain ret where ret: "clone_keys dup (pa_elem p) 0 (pa_depth p) = Some ret" using assms p by (auto simp: idmef_path_clone_def)
    show ?thesis
    proof (cases ret)
      case (Inl e)
      then show ?thesis using assms p Some ret that(1) by (auto simp: idmef_path_clone_def)
    next
      case (Inr u)
      then show ?thesis using assms p Some ret that(2) [OF Some _ p] by (auto simp: idmef_path_clone_def)
    qed
  qed (use assms p that(1) in \<open>auto simp: idmef_path_clone_def\<close>)
qed

lemma clone_ok:
  assumes "idmef_path_clone addr dup a st = Some (r, st')" "paths_ok st"
  shows "paths_ok st'"
  using assms(1)
proof (cases rule: clone_cases)
  case (2 b p)
  then show ?thesis using assms(2) by (auto intro: paths_ok_put simp: paths_ok_def)
qed (use assms(2) in simp)

lemma destroy_ok: "idmef_path_destroy a st = Some st' \<Longrightarrow> paths_ok st \<Longrightarrow> paths_ok st'"
  by (auto simp: idmef_path_destroy_def paths_ok_def split: if_splits)

lemmas operations_ok = path_new_ok ref_ok destroy_ok set_index_ok make_child_ok make_parent_ok clone_ok

lemma path_step_ok: "path_step st st' \<Longrightarrow> paths_ok st \<Longrightarrow> paths_ok st'"
  by (induction rule: path_step.induct) (simp_all add: operations_ok)

lemma initial_paths_ok: "paths_ok initial_paths"
  by (simp add: initial_paths_def paths_ok_def)

lemma reachable_paths_ok: "path_step\<^sup>*\<^sup>* initial_paths st \<Longrightarrow> paths_ok st"
  by (induction rule: rtranclp_induct) (simp_all add: initial_paths_ok path_step_ok)

end
