(* ===== verification/IdmefPathText.thy ===== *)
theory IdmefPathText
  imports IdmefPathProps
begin

text \<open>
  The text of a path: the names of the elements with their indices, between dots. Parsing the text gives the elements, and the operations of
  \<open>src/idmef-path.c\<close> keep the name of a path and its elements in step.
\<close>

section \<open>The text of elements\<close>

definition index_text :: "path_element \<Rightarrow> string" where
  "index_text e =
     (if pe_index e = INDEX_UNDEFINED \<or> pe_index e = INDEX_FORBIDDEN then []
      else ''('' @ (case pe_key e of Key k \<Rightarrow> CHR 0x27 # k @ [CHR 0x27] | _ \<Rightarrow> dec_int 0 (pe_index e)) @ '')'')"

definition elem_text :: "int \<Rightarrow> path_element \<Rightarrow> string" where
  "elem_text c e = ch_name (child_row c (pe_position e)) @ index_text e"

fun elems_texts :: "int \<Rightarrow> path_element list \<Rightarrow> string list" where
  "elems_texts c [] = []"
| "elems_texts c (e # es) = elem_text c e # elems_texts (class_arg (pe_class e)) es"

fun join_dots :: "string list \<Rightarrow> string" where
  "join_dots [] = []"
| "join_dots [t] = t"
| "join_dots (t # ts) = t @ ''.'' @ join_dots ts"

definition elems_text :: "int \<Rightarrow> path_element list \<Rightarrow> string" where
  "elems_text c es = join_dots (elems_texts c es)"

text \<open>Elements that a text can stand for: typed, with an index in the range of an \<open>int\<close> or a key without a dot or a parenthesis.\<close>

definition canonical :: "int \<Rightarrow> path_element \<Rightarrow> bool" where
  "canonical c e \<longleftrightarrow> elem_ok c e \<and> (ch_list (child_row c (pe_position e)) \<longrightarrow> pe_index e \<noteq> INDEX_FORBIDDEN) \<and>
     - (2 ^ 31) \<le> pe_index e \<and> pe_index e < 2 ^ 31 \<and>
     (if pe_index e = INDEX_KEY then (case pe_key e of Key k \<Rightarrow> CHR ''.'' \<notin> set k \<and> CHR '')'' \<notin> set k | _ \<Rightarrow> False) else pe_key e = No_Key)"

fun all_canonical :: "int \<Rightarrow> path_element list \<Rightarrow> bool" where
  "all_canonical c [] \<longleftrightarrow> True"
| "all_canonical c (e # es) \<longleftrightarrow> canonical c e \<and> (es \<noteq> [] \<longrightarrow> pe_value_type e = VT_CLASS) \<and> all_canonical (class_arg (pe_class e)) es"

definition number_chars :: "char set" where "number_chars = set ''-0123456789''"

lemma dec_int_chars: "set (dec_int 0 z) \<subseteq> number_chars" "dec_int 0 z \<noteq> []"
proof -
  have "CHR ''-'' \<in> number_chars" "set ''0123456789'' \<subseteq> number_chars" by (simp_all add: number_chars_def)
  then have "CHR ''-'' \<in> number_chars" "set (dec (nat \<bar>z\<bar>)) \<subseteq> number_chars" using set_dec order.trans by blast+
  then show "set (dec_int 0 z) \<subseteq> number_chars" unfolding dec_int_0 by (cases "z < 0") simp_all
  show "dec_int 0 z \<noteq> []" using hd_dec [of "nat \<bar>z\<bar>"] by (simp add: dec_int_0)
qed

lemma not_number_chars:
  "CHR '')'' \<notin> number_chars" "CHR ''.'' \<notin> number_chars" "CHR ''<'' \<notin> number_chars" "CHR ''>'' \<notin> number_chars"
  "CHR ''*'' \<notin> number_chars" "CHR 0x27 \<notin> number_chars" "CHR 0x22 \<notin> number_chars"
  by (simp_all add: number_chars_def)

lemma parse_index_number:
  assumes "- (2 ^ 31) \<le> z" "z < 2 ^ 31"
  shows "parse_index (dec_int 0 z) = Inr (z, No_Key)"
proof -
  let ?t = "dec_int 0 z"
  have ne: "?t \<noteq> []" by (rule dec_int_chars)
  then have hd: "hd ?t \<in> number_chars" using dec_int_chars(1) hd_in_set by blast
  have no: "?t \<noteq> ''<<''" "?t \<noteq> ''>>''" "?t \<noteq> ''*''" "hd ?t \<noteq> CHR 0x27" "hd ?t \<noteq> CHR 0x22"
    using hd not_number_chars by (metis list.sel(1))+
  have "signed_take_bit 31 z = z" using assms by (intro signed_take_bit_int_eq_self) simp_all
  then show ?thesis using no ne assms strtol_dec_int [of z] by (simp add: parse_index_def)
qed

lemma parse_index_key: "parse_index (CHR 0x27 # k @ [CHR 0x27]) = Inr (INDEX_KEY, Key k)"
  by (simp add: parse_index_def)

definition name_chars :: "char set" where "name_chars = set ''abcdefghijklmnopqrstuvwxyz_''"

lemma not_name_chars: "CHR ''('' \<notin> name_chars" "CHR '')'' \<notin> name_chars" "CHR ''.'' \<notin> name_chars"
  by (simp_all add: name_chars_def)

lemma child_name_chars:
  assumes "is_child_valid c ch = Inr ()"
  shows "set (ch_name (child_row c ch)) \<subseteq> name_chars" "ch_name (child_row c ch) \<noteq> []"
  using child_row_ok [OF assms] unfolding child_ok_def list_all_iff name_chars_def by blast+

lemma takeWhile_stop: "x \<notin> set a \<Longrightarrow> takeWhile (\<lambda>c. c \<noteq> x) (a @ x # b) = a"
  by (subst takeWhile_append2) auto

lemma takeWhile_all: "x \<notin> set a \<Longrightarrow> takeWhile (\<lambda>c. c \<noteq> x) a = a"
  by (induction a) auto

definition index_token :: "path_element \<Rightarrow> string" where
  "index_token e = (case pe_key e of Key k \<Rightarrow> CHR 0x27 # k @ [CHR 0x27] | _ \<Rightarrow> dec_int 0 (pe_index e))"

lemma canonical_key:
  assumes "canonical c e"
  obtains "pe_key e = No_Key" "pe_index e \<noteq> INDEX_KEY"
    | k where "pe_index e = INDEX_KEY" "pe_key e = Key k" "CHR ''.'' \<notin> set k" "CHR '')'' \<notin> set k"
  using assms that unfolding canonical_def by (cases "pe_index e = INDEX_KEY"; cases "pe_key e") auto

lemma index_token_chars:
  assumes "canonical c e"
  shows "CHR '')'' \<notin> set (index_token e)" "CHR ''.'' \<notin> set (index_token e)"
proof -
  have num: "CHR '')'' \<notin> set (dec_int 0 z)" "CHR ''.'' \<notin> set (dec_int 0 z)" for z
    using dec_int_chars(1) [of z] not_number_chars by blast+
  show "CHR '')'' \<notin> set (index_token e)" "CHR ''.'' \<notin> set (index_token e)"
    using assms by (auto simp: index_token_def num elim: canonical_key)
qed

lemma parse_index_token:
  assumes "canonical c e"
  shows "parse_index (index_token e) = Inr (pe_index e, pe_key e)"
  using assms
proof (cases rule: canonical_key)
  case 1
  then show ?thesis using assms parse_index_number [of "pe_index e"] unfolding canonical_def by (simp add: index_token_def)
qed (simp add: index_token_def parse_index_key)

lemma parse_token_text:
  assumes "canonical c e"
  shows "parse_token (elem_text c e) = Inr (ch_name (child_row c (pe_position e)),
    if pe_index e = INDEX_FORBIDDEN then INDEX_UNDEFINED else pe_index e, pe_key e)"
proof -
  let ?n = "ch_name (child_row c (pe_position e))"
  have valid: "is_child_valid c (pe_position e) = Inr ()" using assms by (simp add: canonical_def elem_ok_def)
  have n: "CHR ''('' \<notin> set ?n" using child_name_chars [OF valid] not_name_chars by blast
  show ?thesis
  proof (cases "pe_index e = INDEX_UNDEFINED \<or> pe_index e = INDEX_FORBIDDEN")
    case True
    then have "pe_index e \<noteq> INDEX_KEY" by (auto simp: index_values)
    then have t: "elem_text c e = ?n" "pe_key e = No_Key" using True assms by (auto simp: elem_text_def index_text_def elim: canonical_key)
    have name: "takeWhile (\<lambda>c. c \<noteq> CHR ''('') ?n = ?n" using n by (rule takeWhile_all)
    show ?thesis using True t(2) unfolding parse_token_def Let_def t(1) name by auto
  next
    case False
    have et: "elem_text c e = ?n @ CHR ''('' # index_token e @ '')''"
      using False by (simp add: elem_text_def index_text_def index_token_def)
    have name: "takeWhile (\<lambda>c. c \<noteq> CHR ''('') (elem_text c e) = ?n" unfolding et by (rule takeWhile_stop) (rule n)
    have tok: "takeWhile (\<lambda>c. c \<noteq> CHR '')'') (index_token e @ '')'') = index_token e"
      by (rule takeWhile_stop) (rule index_token_chars [OF assms])
    have rest: "drop (Suc (length ?n)) (elem_text c e) = index_token e @ '')''" "?n \<noteq> elem_text c e" by (simp_all add: et)
    show ?thesis using rest(2) False unfolding parse_token_def Let_def name rest(1) tok parse_index_token [OF assms] by simp
  qed
qed

lemma parse_element_text:
  assumes "canonical c e" "pe_key old = No_Key" "\<not> is_last \<longrightarrow> pe_value_type e = VT_CLASS"
  shows "parse_element c is_last (elem_text c e) old = Inr e"
proof -
  have e: "is_child_valid c (pe_position e) = Inr ()" using assms(1) by (simp add: canonical_def elem_ok_def)
  show ?thesis
    using assms parse_token_text [OF assms(1)] find_child_name [OF e] child_readers [OF e]
    by (auto simp: parse_element_def canonical_def elem_ok_def index_values Let_def)
qed

section \<open>Joining and splitting\<close>

lemma tokens_of_text: "CHR ''.'' \<notin> set t \<Longrightarrow> path_tokens t = [t]"
  by (induction t) auto

lemma tokens_of_first: "CHR ''.'' \<notin> set t \<Longrightarrow> path_tokens (t @ CHR ''.'' # s) = t # path_tokens s"
  by (induction t) auto

lemma path_tokens_join: "ts \<noteq> [] \<Longrightarrow> (\<And>t. t \<in> set ts \<Longrightarrow> CHR ''.'' \<notin> set t) \<Longrightarrow> path_tokens (join_dots ts) = ts"
  by (induction ts rule: join_dots.induct) (simp_all add: tokens_of_text tokens_of_first)

lemma join_dots_snoc: "ts \<noteq> [] \<Longrightarrow> join_dots (ts @ [t]) = join_dots ts @ CHR ''.'' # t"
  by (induction ts rule: join_dots.induct) auto

lemma elem_text_chars: "canonical c e \<Longrightarrow> CHR ''.'' \<notin> set (elem_text c e)"
proof -
  assume can: "canonical c e"
  then have "is_child_valid c (pe_position e) = Inr ()" by (simp add: canonical_def elem_ok_def)
  then have "CHR ''.'' \<notin> set (ch_name (child_row c (pe_position e)))" using child_name_chars not_name_chars by blast
  moreover have "index_text e = [] \<or> index_text e = ''('' @ index_token e @ '')''" by (simp add: index_text_def index_token_def)
  ultimately show ?thesis using index_token_chars(2) [OF can] by (auto simp: elem_text_def)
qed

lemma elem_text_nonempty: "canonical c e \<Longrightarrow> elem_text c e \<noteq> []"
  using child_name_chars(2) [of c "pe_position e"] by (simp add: canonical_def elem_ok_def elem_text_def)

lemma length_elems_texts [simp]: "length (elems_texts c es) = length es" "elems_texts c es = [] \<longleftrightarrow> es = []"
  by (induction es arbitrary: c) auto

lemma elems_texts_snoc: "elems_texts c (es @ [e]) = elems_texts c es @ [elem_text (class_behind c es) e]"
  by (induction es arbitrary: c) auto

lemma elems_text_chars: "all_canonical c es \<Longrightarrow> t \<in> set (elems_texts c es) \<Longrightarrow> CHR ''.'' \<notin> set t"
  by (induction es arbitrary: c) (auto simp: elem_text_chars)

lemma elems_text_nonempty: "all_canonical c es \<Longrightarrow> es \<noteq> [] \<Longrightarrow> elems_text c es \<noteq> []"
proof -
  assume can: "all_canonical c es" "es \<noteq> []"
  then obtain e es' where es: "es = e # es'" by (cases es) auto
  then have "elem_text c e \<noteq> []" using can elem_text_nonempty by simp
  then show ?thesis unfolding es elems_text_def by (cases "elems_texts (class_arg (pe_class e)) es'") auto
qed

section \<open>A text denotes its elements\<close>

lemma parse_elements_text:
  "all_canonical c es \<Longrightarrow> length (pa_elem p) = MAX_DEPTH \<Longrightarrow> depth + length es < MAX_DEPTH \<Longrightarrow>
     (\<And>i. depth \<le> i \<Longrightarrow> i < MAX_DEPTH \<Longrightarrow> pe_key (pa_elem p ! i) = No_Key) \<Longrightarrow>
     parse_elements c depth (elems_texts c es) p =
       Inr (p\<lparr>pa_depth := depth + length es, pa_elem := take depth (pa_elem p) @ es @ drop (depth + length es) (pa_elem p)\<rparr>)"
proof (induction es arbitrary: c depth p)
  case (Cons e es)
  let ?p = "p\<lparr>pa_elem := (pa_elem p)[depth := e]\<rparr>"
  have e: "parse_element c (elems_texts (class_arg (pe_class e)) es = []) (elem_text c e) (pa_elem p ! depth) = Inr e"
    using Cons.prems(1,3) Cons.prems(4) [of depth] by (intro parse_element_text) auto
  have "parse_elements (class_arg (pe_class e)) (Suc depth) (elems_texts (class_arg (pe_class e)) es) ?p =
    Inr (?p\<lparr>pa_depth := Suc depth + length es, pa_elem := take (Suc depth) (pa_elem ?p) @ es @ drop (Suc depth + length es) (pa_elem ?p)\<rparr>)"
    using Cons.prems by (intro Cons.IH) simp_all
  moreover have "take (Suc depth) ((pa_elem p)[depth := e]) = take depth (pa_elem p) @ [e]"
    using Cons.prems(2,3) by (simp add: take_Suc_conv_app_nth)
  ultimately show ?case using e Cons.prems(3) by simp
qed simp

text \<open>The path with these elements.\<close>

definition path_of :: "int \<Rightarrow> path_element list \<Rightarrow> idmef_path" where
  "path_of c es = \<lparr>pa_name = elems_text c es, pa_refcount = 0, pa_depth = length es, pa_top_class = c,
     pa_elem = es @ replicate (MAX_DEPTH - length es) empty_element\<rparr>"

text \<open>C9. The text of elements, whatever their indices and whatever their keys without a dot or a closing parenthesis (which end a key in a text), is parsed into the
  path with these elements, when they and the text fit into the arrays of a path.\<close>

theorem path_text_denotes:
  assumes "all_canonical c es" "es \<noteq> []" "length es < MAX_DEPTH" "length (elems_text c es) + 1 < MAX_NAME_LEN"
  shows "idmef_path_parse_new empty_path c (elems_text c es) = Inr (path_of c es)"
proof -
  have "path_tokens (elems_text c es) = elems_texts c es"
    unfolding elems_text_def using assms(1,2) elems_text_chars by (intro path_tokens_join) auto
  moreover have "copy_path_name (elems_text c es) = Inr ()" using assms(4) by (simp add: copy_path_name_def)
  moreover have "parse_elements c 0 (elems_texts c es) (empty_path\<lparr>pa_name := elems_text c es, pa_top_class := c\<rparr>) =
    Inr ((empty_path\<lparr>pa_name := elems_text c es, pa_top_class := c\<rparr>)\<lparr>pa_depth := 0 + length es,
      pa_elem := take 0 (pa_elem empty_path) @ es @ drop (0 + length es) (pa_elem empty_path)\<rparr>)"
    using assms(1,3) by (subst parse_elements_text) (simp_all add: empty_path_def empty_element_def)
  ultimately show ?thesis by (simp add: idmef_path_parse_new_def empty_path_def path_of_def)
qed

text \<open>The element \<open>e\<close> of a child with the index \<open>i\<close> and the key \<open>k\<close>.\<close>

definition element :: "int \<Rightarrow> int \<Rightarrow> int \<Rightarrow> key_ptr \<Rightarrow> path_element" where
  "element c ch i k = \<lparr>pe_index = i, pe_key = k, pe_class = idmef_class_get_child_class c ch, pe_position = ch,
     pe_value_type = ch_type (child_row c ch)\<rparr>"

definition sample_elements :: "path_element list" where
  "sample_elements = [element 49 1 INDEX_FORBIDDEN No_Key, element 46 9 INDEX_KEY (Key ''k''), element 4 2 INDEX_FORBIDDEN No_Key]"

lemma path_text_denotes_witness:
  "idmef_path_parse_new empty_path 49 (elems_text 49 sample_elements) = Inr (path_of 49 sample_elements) \<and>
   elems_text 49 sample_elements = ''alert.additional_data('' @ [CHR 0x27, CHR ''k'', CHR 0x27] @ '').data''"
proof -
  have txt_eq: "elems_text 49 sample_elements = ''alert.additional_data('' @ [CHR 0x27, CHR ''k'', CHR 0x27] @ '').data''"
    by code_simp
  have "all_canonical 49 sample_elements" by code_simp
  moreover have "sample_elements \<noteq> []" "length sample_elements < MAX_DEPTH" by (simp_all add: sample_elements_def MAX_DEPTH_def)
  moreover have "length (elems_text 49 sample_elements) + 1 < MAX_NAME_LEN" by (simp add: txt_eq MAX_NAME_LEN_def)
  ultimately show ?thesis using path_text_denotes txt_eq by blast
qed

section \<open>The name of a path is the text of its elements\<close>

definition path_elements :: "idmef_path \<Rightarrow> path_element list" where
  "path_elements p = take (pa_depth p) (pa_elem p)"

definition named :: "idmef_path \<Rightarrow> bool" where
  "named p \<longleftrightarrow> all_canonical (pa_top_class p) (path_elements p) \<and> pa_name p = elems_text (pa_top_class p) (path_elements p)"

lemma all_canonical_append:
  "all_canonical c (es @ fs) \<longleftrightarrow> all_canonical c es \<and> (es \<noteq> [] \<and> fs \<noteq> [] \<longrightarrow> pe_value_type (last es) = VT_CLASS) \<and>
     all_canonical (class_behind c es) fs"
  by (induction es arbitrary: c) (auto simp: class_behind_def)

lemma all_canonical_update:
  "all_canonical c es \<Longrightarrow> i < length es \<Longrightarrow> pe_class e = pe_class (es ! i) \<Longrightarrow> pe_value_type e = pe_value_type (es ! i) \<Longrightarrow>
     (\<And>c. canonical c (es ! i) \<Longrightarrow> canonical c e) \<Longrightarrow> all_canonical c (es[i := e])"
  by (induction es arbitrary: c i) (auto split: nat.splits)

lemma all_canonical_nth: "all_canonical c es \<Longrightarrow> i < length es \<Longrightarrow> canonical (class_behind c (take i es)) (es ! i)"
  by (induction es arbitrary: c i) (auto simp: less_Suc_eq_0_disj)

lemma all_canonical_structure: "all_canonical c es \<Longrightarrow> Suc i < length es \<Longrightarrow> pe_value_type (es ! i) = VT_CLASS"
  by (induction es arbitrary: c i) (auto simp: nth_Cons split: nat.splits)

lemma elems_text_snoc:
  "elems_text c (es @ [e]) = elems_text c es @ (if es = [] then [] else ''.'') @ elem_text (class_behind c es) e"
  by (auto simp: elems_text_def elems_texts_snoc join_dots_snoc)

lemma elems_text_take_Suc:
  "i < length es \<Longrightarrow> elems_text c (take (Suc i) es) =
     elems_text c (take i es) @ (if i = 0 then [] else ''.'') @ elem_text (class_behind c (take i es)) (es ! i)"
  by (simp add: take_Suc_conv_app_nth elems_text_snoc) auto

lemma elems_text_mono: "i \<le> j \<Longrightarrow> j \<le> length es \<Longrightarrow> length (elems_text c (take i es)) \<le> length (elems_text c (take j es))"
  by (induction j rule: dec_induct) (auto simp: elems_text_take_Suc)

text \<open>Going to the parent.\<close>

lemma cut_at_last_dot: "CHR ''.'' \<notin> set t \<Longrightarrow> rev (tl (dropWhile (\<lambda>c. c \<noteq> CHR ''.'') (rev (s @ CHR ''.'' # t)))) = s"
proof -
  assume "CHR ''.'' \<notin> set t"
  then have "dropWhile (\<lambda>c. c \<noteq> CHR ''.'') (rev t @ CHR ''.'' # rev s) = CHR ''.'' # rev s"
    by (subst dropWhile_append2) auto
  then show ?thesis by simp
qed

lemma drop_parent_named:
  assumes "named p" "0 < pa_depth p" "pa_depth p \<le> length (pa_elem p)"
  shows "named (drop_parent p)"
proof -
  obtain d where d: "pa_depth p = Suc d" using assms(2) by (cases "pa_depth p") auto
  let ?es = "take d (pa_elem p)" and ?e = "pa_elem p ! d" and ?c = "pa_top_class p"
  have es: "path_elements p = ?es @ [?e]" using assms(3) d by (simp add: path_elements_def take_Suc_conv_app_nth)
  then have can: "all_canonical ?c ?es" "canonical (class_behind ?c ?es) ?e" using assms(1) by (auto simp: named_def all_canonical_append)
  have dot: "CHR ''.'' \<notin> set (elem_text (class_behind ?c ?es) ?e)" using can(2) by (rule elem_text_chars)
  have name: "pa_name p = elems_text ?c ?es @ (if ?es = [] then [] else ''.'') @ elem_text (class_behind ?c ?es) ?e"
    using assms(1) es by (simp add: named_def elems_text_snoc)
  have "pa_name (drop_parent p) = elems_text ?c ?es"
  proof (cases "?es = []")
    case True
    show ?thesis using name dot unfolding True by (simp add: drop_parent_def elems_text_def)
  next
    case False
    then have "pa_name p = elems_text ?c ?es @ CHR ''.'' # elem_text (class_behind ?c ?es) ?e" using name by simp
    then show ?thesis using cut_at_last_dot [OF dot] by (simp add: drop_parent_def)
  qed
  then show ?thesis using can(1) d by (simp add: named_def path_elements_def drop_parent_def)
qed

lemma strncat_fits: "length (name @ t) < MAX_NAME_LEN \<Longrightarrow> name_strncat name t = Some (name @ t)"
  by (auto simp: name_strncat_def Let_def)

lemma snprintf_fits: "length (name @ t) < MAX_NAME_LEN \<Longrightarrow> name_snprintf name t = name @ t"
  by (auto simp: name_snprintf_def)

text \<open>Going to a child, named as in the table.\<close>

lemma put_child_named:
  assumes "named p" "path_ok p" "make_child_error p (ch_name (child_row c ch)) = Some (Inr (c, ch))" "index < 2 ^ 31"
    and "pe_key (pa_elem p ! pa_depth p) = No_Key"
    and "q = put_child c ch (ch_name (child_row c ch)) index p" "length (elems_text (pa_top_class q) (path_elements q)) < MAX_NAME_LEN"
  shows "named q"
proof -
  let ?es = "path_elements p" and ?row = "child_row c ch"
  have depth: "pa_depth p < MAX_DEPTH" and len: "length (pa_elem p) = MAX_DEPTH"
    using assms(2,3) by (auto simp: make_child_error_def path_ok_def MAX_DEPTH_def split: if_splits)
  have top: "pa_top_class q = pa_top_class p" by (simp add: assms(6) put_child_def Let_def)
  have valid: "is_child_valid c ch = Inr ()" using make_child_finds [OF assms(3)] by (rule find_child_valid)
  note readers = child_readers [OF valid]
  define e where "e = pa_elem q ! pa_depth p"
  have es: "path_elements q = ?es @ [e]" using depth len
    by (simp add: path_elements_def assms(6) put_child_def Let_def e_def take_Suc_conv_app_nth)
  have ok: "elems_ok (pa_top_class p) (?es @ [e])"
    using put_child_ok [OF assms(2,3), of index] es top by (simp add: path_ok_def path_elements_def flip: assms(6))
  have fields: "pe_index e = (if ch_list ?row then if index < 0 then INDEX_UNDEFINED else index else INDEX_FORBIDDEN)"
      "pe_key e = No_Key" "pe_position e = ch"
    using depth len assms(5) readers by (simp_all add: e_def assms(6) put_child_def Let_def)
  have c: "class_behind (pa_top_class p) ?es = c" using make_child_class [OF assms(2,3)] by (simp add: path_elements_def)
  have can: "canonical c e" using ok fields c assms(4) by (auto simp: canonical_def elems_ok_append index_values)
  have idx: "index_text e = (if 0 \<le> index \<and> ch_list ?row then ''('' @ dec_int 0 index @ '')'' else [])"
    using fields by (auto simp: index_text_def index_values)
  have txt_q: "elems_text (pa_top_class p) (?es @ [e]) = pa_name p @ (if ?es = [] then [] else ''.'') @ ch_name ?row @ index_text e"
    using assms(1) c fields(3) by (simp add: named_def elems_text_snoc elem_text_def)
  have empty: "?es = [] \<longleftrightarrow> pa_depth p = 0" using depth len by (auto simp: path_elements_def MAX_DEPTH_def)
  define w where "w = (if pa_depth p = 0 then [] else ''.'') @ ch_name ?row @ index_text e"
  have "pa_name q = name_snprintf (pa_name p) w"
    by (subst assms(6)) (simp add: put_child_def Let_def idx readers w_def)
  moreover have "length (pa_name p @ w) < MAX_NAME_LEN" using assms(7) unfolding es top txt_q by (simp add: w_def empty)
  ultimately have "pa_name q = elems_text (pa_top_class p) (?es @ [e])" by (simp add: snprintf_fits txt_q w_def empty)
  moreover have "all_canonical (pa_top_class p) (?es @ [e])" using assms(1) can c ok by (simp add: named_def all_canonical_append elems_ok_append)
  ultimately show ?thesis by (simp add: named_def es top)
qed

text \<open>Building the name of a path into a message that has no keys.\<close>

lemma append_index_fits:
  assumes "length (name @ index_text e) < MAX_NAME_LEN" "pe_index e \<noteq> INDEX_KEY" "pe_key e = No_Key"
  shows "append_index e name = Some (name @ index_text e)"
proof (cases "pe_index e = INDEX_UNDEFINED \<or> pe_index e = INDEX_FORBIDDEN")
  case False
  then have t: "index_text e = ''('' @ dec_int 0 (pe_index e) @ '')''" using assms(3) by (simp add: index_text_def)
  have "name_strncat name ''('' = Some (name @ ''('')" using assms(1) by (intro strncat_fits) (simp add: t)
  moreover have "name_snprintf (name @ ''('') (dec_int 0 (pe_index e)) = name @ ''('' @ dec_int 0 (pe_index e)"
    using assms(1) by (subst snprintf_fits) (simp_all add: t)
  moreover have "name_strncat (name @ ''('' @ dec_int 0 (pe_index e)) '')'' = Some (name @ index_text e)"
    using assms(1) by (subst strncat_fits) (simp_all add: t)
  ultimately show ?thesis using False assms(2) by (simp add: append_index_def t)
qed (auto simp: append_index_def index_text_def)

text \<open>The name that is read for an element: the one of its class, which is the one of the child.\<close>

lemma name_of_element:
  assumes "all_canonical c es" "i < length es" "0 < i \<or> pe_value_type (es ! 0) = VT_CLASS"
    and "es = take (pa_depth p) (pa_elem p)"
  shows "idmef_path_get_name p (int i) = Some (ch_name (child_row (class_behind c (take i es)) (pe_position (es ! i))))"
proof -
  let ?c = "class_behind c (take i es)" and ?e = "es ! i"
  have "elem_ok ?c ?e" using all_canonical_nth [OF assms(1,2)] by (simp add: canonical_def)
  then have valid: "is_child_valid ?c (pe_position ?e) = Inr ()" and e: "pe_class ?e = idmef_class_get_child_class ?c (pe_position ?e)"
      "pe_value_type ?e = ch_type (child_row ?c (pe_position ?e))" by (simp_all add: elem_ok_def)
  have nth: "pa_elem p ! i = ?e" "pa_elem p ! (i - 1) = es ! (i - 1)" "i < pa_depth p" using assms(2,4) by auto
  note row = child_row_ok [OF valid] and readers = child_readers [OF valid]
  show ?thesis
  proof (cases "ch_type (child_row ?c (pe_position ?e)) = VT_CLASS")
    case True
    then have "idmef_class_get_name (ch_class (child_row ?c (pe_position ?e))) = Some (ch_name (child_row ?c (pe_position ?e)))"
      using row unfolding child_ok_def class_defs by (auto simp: is_class_valid_def)
    then show ?thesis using True e readers(5) nth by (simp add: idmef_path_get_name_def Let_def class_arg_def)
  next
    case False
    have i: "0 < i" using assms(3) False e(2) by (cases i) auto
    have "class_arg (pe_class (es ! (i - 1))) = ?c" using i assms(2) by (simp add: class_behind_def last_conv_nth) (auto simp: min_def)
    moreover have "isl (pe_class ?e) \<or> pe_value_type ?e = VT_ENUM" using False e readers(5) by auto
    ultimately show ?thesis using i nth readers(4) by (simp add: idmef_path_get_name_def Let_def nat_diff_distrib)
  qed
qed

lemma build_elements_text:
  assumes "es = take (pa_depth p) (pa_elem p)" "length es = pa_depth p" "all_canonical IDMEF_CLASS_ID_MESSAGE es"
    and "pe_value_type (es ! 0) = VT_CLASS" "\<And>e. e \<in> set es \<Longrightarrow> pe_index e \<noteq> INDEX_KEY \<and> pe_key e = No_Key"
    and "length (elems_text IDMEF_CLASS_ID_MESSAGE es) < MAX_NAME_LEN"
  shows "i + n = pa_depth p \<Longrightarrow> build_elements p (class_behind IDMEF_CLASS_ID_MESSAGE (take i es)) i n
      (elems_text IDMEF_CLASS_ID_MESSAGE (take i es)) = Some (Inr (), elems_text IDMEF_CLASS_ID_MESSAGE es)"
proof (induction n arbitrary: i)
  case (Suc n)
  let ?m = "IDMEF_CLASS_ID_MESSAGE"
  let ?c = "class_behind ?m (take i es)" and ?e = "es ! i" and ?t = "elems_text ?m (take i es)"
  have i: "i < length es" "i < pa_depth p" using Suc.prems assms(2) by auto
  have nth: "pa_elem p ! i = ?e" using assms(1) i by simp
  define dot :: string where "dot = (if i = 0 then [] else ''.'')"
  define nm where "nm = ch_name (child_row ?c (pe_position ?e))"
  have txt_i: "elems_text ?m (take (Suc i) es) = ?t @ dot @ nm @ index_text ?e"
    using elems_text_take_Suc [OF i(1)] by (simp add: elem_text_def dot_def nm_def)
  have fits: "length (?t @ dot @ nm @ index_text ?e) < MAX_NAME_LEN"
    using elems_text_mono [of "Suc i" "length es" es ?m] i assms(6) unfolding txt_i by simp
  have s1: "(if 0 < i then name_strncat ?t ''.'' else Some ?t) = Some (?t @ dot)"
    using fits by (auto simp: dot_def intro!: strncat_fits)
  have s2: "name_strncat (?t @ dot) nm = Some (?t @ dot @ nm)" using fits by (subst strncat_fits) auto
  have s3: "append_index ?e (?t @ dot @ nm) = Some (?t @ dot @ nm @ index_text ?e)"
    using fits assms(5) [OF nth_mem [OF i(1)]] by (subst append_index_fits) auto
  have name: "idmef_path_get_name p (int i) = Some nm"
    unfolding nm_def using assms(1,3,4) i by (intro name_of_element) (auto simp: gr0_conv_Suc)
  have cls: "idmef_class_get_child_class ?c (pe_position ?e) = pe_class ?e"
    using all_canonical_nth [OF assms(3) i(1)] by (simp add: canonical_def elem_ok_def)
  have next_class: "class_arg (pe_class ?e) = class_behind ?m (take (Suc i) es)" using i by (simp add: class_behind_def take_Suc_conv_app_nth)
  have ok: "elem_ok ?c ?e" using all_canonical_nth [OF assms(3) i(1)] by (simp add: canonical_def)
  have "pe_class ?e = Inr (ch_class (child_row ?c (pe_position ?e)))" if "i < pa_depth p - 1"
    using that ok all_canonical_structure [OF assms(3), of i] assms(2) child_readers(5) [of ?c "pe_position ?e"] by (simp add: elem_ok_def)
  then have leaf: "\<not> (isl (pe_class ?e) \<and> i < pa_depth p - 1)" by auto
  show ?case
    using Suc.IH [of "Suc i"] Suc.prems leaf
    by (simp only: build_elements.simps s1 bind.simps name option.case s2 nth s3 cls Let_def if_False next_class txt_i)
qed (use assms in simp)

text \<open>The conditions under which a change of a path that is not shared keeps its name: the new name fits, no key is in the way.\<close>

definition child_fits :: "idmef_path \<Rightarrow> int \<Rightarrow> int \<Rightarrow> int \<Rightarrow> bool" where
  "child_fits p c ch index \<longleftrightarrow>
     (let q = put_child c ch (ch_name (child_row c ch)) index p in
      make_child_error p (ch_name (child_row c ch)) = Some (Inr (c, ch)) \<and> index < 2 ^ 31 \<and> pe_key (pa_elem p ! pa_depth p) = No_Key \<and>
      length (elems_text (pa_top_class q) (path_elements q)) < MAX_NAME_LEN)"

definition with_index :: "nat \<Rightarrow> int \<Rightarrow> idmef_path \<Rightarrow> idmef_path" where
  "with_index depth index p = p\<lparr>pa_elem := (pa_elem p)[depth := (pa_elem p ! depth)\<lparr>pe_index := index\<rparr>]\<rparr>"

definition index_fits :: "idmef_path \<Rightarrow> nat \<Rightarrow> int \<Rightarrow> bool" where
  "index_fits p depth index \<longleftrightarrow>
     set_index_error p depth index = None \<and> pa_top_class p = IDMEF_CLASS_ID_MESSAGE \<and> - (2 ^ 31) \<le> index \<and> index < 2 ^ 31 \<and>
     list_all (\<lambda>e. pe_index e \<noteq> INDEX_KEY) (path_elements p) \<and>
     length (elems_text IDMEF_CLASS_ID_MESSAGE (path_elements (with_index depth index p))) < MAX_NAME_LEN"

text \<open>No child of a message is a list.\<close>

lemma message_children_single: "list_all (\<lambda>c. \<not> ch_list c) (od_children (class_row IDMEF_CLASS_ID_MESSAGE))"
  by code_simp

lemma message_lists: "is_child_valid IDMEF_CLASS_ID_MESSAGE ch = Inr () \<Longrightarrow> \<not> ch_list (child_row IDMEF_CLASS_ID_MESSAGE ch)"
  using message_children_single by (auto simp: valid_child list_all_length nat_less_iff)

lemma put_index_named:
  assumes "named p" "path_ok p" "index_fits p depth index"
  shows "\<exists>q. put_index depth index p = Some (Inr (), q) \<and> named q \<and> path_elements q = (path_elements p)[depth := (path_elements p ! depth)\<lparr>pe_index := index\<rparr>]"
proof -
  let ?m = "IDMEF_CLASS_ID_MESSAGE" and ?e = "pa_elem p ! depth" and ?q = "with_index depth index p"
  have d: "depth < pa_depth p" "index \<noteq> INDEX_KEY" "index \<noteq> INDEX_FORBIDDEN" "pe_index ?e \<noteq> INDEX_FORBIDDEN" and top: "pa_top_class p = ?m"
    using assms(3) by (auto simp: index_fits_def set_index_error_def Let_def split: if_splits)
  have len: "length (path_elements p) = pa_depth p" "path_elements p ! depth = ?e" "pa_depth p \<le> length (pa_elem p)"
    using assms(2) d by (auto simp: path_elements_def path_ok_def)
  have can: "all_canonical ?m (path_elements p)" using assms(1) top by (simp add: named_def)
  have nokey: "pe_index e \<noteq> INDEX_KEY \<and> pe_key e = No_Key" if e: "e \<in> set (path_elements p)" for e
  proof -
    obtain i where "i < length (path_elements p)" "e = path_elements p ! i" using e unfolding in_set_conv_nth by blast
    then have "canonical (class_behind ?m (take i (path_elements p))) e" using all_canonical_nth [OF can] by blast
    moreover have "pe_index e \<noteq> INDEX_KEY" using e assms(3) by (simp add: index_fits_def list_all_iff)
    ultimately show ?thesis by (auto elim: canonical_key)
  qed
  have key_e: "pe_index ?e \<noteq> INDEX_KEY" "pe_key ?e = No_Key" using nokey [of ?e] nth_mem [of depth "path_elements p"] d len by simp_all
  have es: "path_elements ?q = (path_elements p)[depth := ?e\<lparr>pe_index := index\<rparr>]"
    by (simp add: path_elements_def with_index_def take_update_swap)
  have can_q: "all_canonical ?m (path_elements ?q)" unfolding es
    using can d len assms(3) key_e by (intro all_canonical_update) (auto simp: canonical_def elem_ok_def index_fits_def split: if_splits)
  have nokey_q: "pe_index e \<noteq> INDEX_KEY \<and> pe_key e = No_Key" if "e \<in> set (path_elements ?q)" for e
    using that nokey key_e d(2) set_update_subset_insert [of "path_elements p" depth] unfolding es by fastforce
  have first: "pe_value_type (path_elements ?q ! 0) = VT_CLASS"
  proof (rule ccontr)
    assume "\<not> ?thesis"
    then have leaf: "pe_value_type (path_elements p ! 0) \<noteq> VT_CLASS" using d len unfolding es by (cases depth) auto
    then have "length (path_elements p) = 1" using all_canonical_structure [OF can, of 0] d len by (cases "length (path_elements p) = 1") auto
    then have zero: "depth = 0" "path_elements p ! 0 = ?e" using d len by auto
    have "elem_ok ?m ?e" using all_canonical_nth [OF can, of 0] zero d len by (simp add: canonical_def)
    then show False using message_lists d(4) by (auto simp: elem_ok_def)
  qed
  have "build_elements ?q (class_behind ?m (take 0 (path_elements ?q))) 0 (pa_depth ?q) (elems_text ?m (take 0 (path_elements ?q))) =
    Some (Inr (), elems_text ?m (path_elements ?q))"
    using len can_q first nokey_q assms(3)
    by (intro build_elements_text) (auto simp: path_elements_def with_index_def index_fits_def)
  then have "build_name ?q = Some (Inr (), ?q\<lparr>pa_name := elems_text ?m (path_elements ?q)\<rparr>)"
    by (simp add: build_name_def elems_text_def)
  moreover have same: "?e\<lparr>pe_key := No_Key, pe_index := index\<rparr> = ?e\<lparr>pe_index := index\<rparr>" using key_e by simp
  have "put_index depth index p = build_name (p\<lparr>pa_elem := (pa_elem p)[depth := ?e\<lparr>pe_key := No_Key, pe_index := index\<rparr>]\<rparr>)"
    using key_e by (simp add: put_index_def)
  then have "put_index depth index p = build_name ?q" unfolding same with_index_def .
  ultimately show ?thesis using can_q es top len by (auto simp: named_def path_elements_def with_index_def)
qed

text \<open>A path that nobody else holds is not touched by its invalidation.\<close>

lemma change_sole: "ps_paths st a = Some p \<Longrightarrow> pa_refcount p = 1 \<Longrightarrow> f p = Some (r, q) \<Longrightarrow> change_path a f st = Some (r, put_path a (Some q) st)"
  by (simp add: change_path_def invalidate_def)

text \<open>
  C11. The operations that change a path which is not shared succeed and keep its name the text of its elements: the parent drops the last element,
  the child adds one, an index replaces an index, when there is no key and the name fits.
\<close>

theorem path_changes_keep_name:
  assumes "ps_paths st a = Some p" "pa_refcount p = 1" "named p" "path_ok p"
  shows "(0 < pa_depth p \<longrightarrow> (\<exists>q. idmef_path_make_parent a st = Some (Inr (), put_path a (Some q) st) \<and> named q \<and>
           path_elements q = butlast (path_elements p))) \<and>
         (child_fits p c ch index \<longrightarrow> (\<exists>q. idmef_path_make_child a (ch_name (child_row c ch)) index st = Some (Inr (), put_path a (Some q) st) \<and>
           named q \<and> (\<exists>e. path_elements q = path_elements p @ [e] \<and> pe_position e = ch))) \<and>
         (index_fits p depth i \<longrightarrow> (\<exists>q. idmef_path_set_index a depth i st = Some (Inr (), put_path a (Some q) st) \<and>
           named q \<and> path_elements q = (path_elements p)[depth := (path_elements p ! depth)\<lparr>pe_index := i\<rparr>]))"
proof (intro conjI impI)
  have len: "pa_depth p \<le> length (pa_elem p)" using assms(4) by (simp add: path_ok_def)
  assume depth: "0 < pa_depth p"
  have "path_elements (drop_parent p) = butlast (path_elements p)"
    using len depth by (simp add: path_elements_def drop_parent_def butlast_take)
  then show "\<exists>q. idmef_path_make_parent a st = Some (Inr (), put_path a (Some q) st) \<and> named q \<and> path_elements q = butlast (path_elements p)"
    using assms(1,2) depth drop_parent_named [OF assms(3) depth len]
    by (simp add: idmef_path_make_parent_def change_sole) blast
next
  let ?q = "put_child c ch (ch_name (child_row c ch)) index p"
  assume fits: "child_fits p c ch index"
  then have err: "make_child_error p (ch_name (child_row c ch)) = Some (Inr (c, ch))" by (simp add: child_fits_def Let_def)
  then have depth: "pa_depth p < length (pa_elem p)" using assms(4) by (auto simp: make_child_error_def path_ok_def MAX_DEPTH_def split: if_splits)
  have "named ?q" using fits by (intro put_child_named [OF assms(3,4) err _ _ refl]) (simp_all add: child_fits_def Let_def)
  moreover have "path_elements ?q = path_elements p @ [pa_elem ?q ! pa_depth p]" "pe_position (pa_elem ?q ! pa_depth p) = ch"
    using depth by (simp_all add: path_elements_def put_child_def Let_def take_Suc_conv_app_nth)
  ultimately show "\<exists>q. idmef_path_make_child a (ch_name (child_row c ch)) index st = Some (Inr (), put_path a (Some q) st) \<and>
      named q \<and> (\<exists>e. path_elements q = path_elements p @ [e] \<and> pe_position e = ch)"
    using assms(1,2) err by (simp add: idmef_path_make_child_def change_sole) blast
next
  assume fits: "index_fits p depth i"
  then have "set_index_error p depth i = None" by (simp add: index_fits_def)
  then show "\<exists>q. idmef_path_set_index a depth i st = Some (Inr (), put_path a (Some q) st) \<and> named q \<and>
      path_elements q = (path_elements p)[depth := (path_elements p ! depth)\<lparr>pe_index := i\<rparr>]"
    using put_index_named [OF assms(3,4) fits] assms(1,2) by (fastforce simp: idmef_path_set_index_def change_sole)
qed

definition sample_path :: idmef_path where
  "sample_path = \<lparr>pa_name = ''alert.source(2)'', pa_refcount = 1, pa_depth = 2, pa_top_class = 49,
     pa_elem = [element 49 1 INDEX_FORBIDDEN No_Key, element 46 6 2 No_Key] @ replicate 14 empty_element\<rparr>"

definition sample_state :: path_state where
  "sample_state = \<lparr>ps_paths = (\<lambda>a. if a = 7 then Some sample_path else None), ps_cache = []\<rparr>"

lemma path_changes_keep_name_witness:
  "(\<exists>q. idmef_path_make_parent 7 sample_state = Some (Inr (), put_path 7 (Some q) sample_state) \<and> named q) \<and>
   (\<exists>q. idmef_path_make_child 7 ''node'' 0 sample_state = Some (Inr (), put_path 7 (Some q) sample_state) \<and> named q) \<and>
   (\<exists>q. idmef_path_set_index 7 1 (- 1) sample_state = Some (Inr (), put_path 7 (Some q) sample_state) \<and> named q)"
proof -
  have "ps_paths sample_state 7 = Some sample_path" "pa_refcount sample_path = 1" "0 < pa_depth sample_path"
    by (simp_all add: sample_state_def sample_path_def)
  moreover have "named sample_path" "path_ok sample_path" "child_fits sample_path 21 3 0" "index_fits sample_path 1 (- 1)" by code_simp+
  moreover have "ch_name (child_row 21 3) = ''node''" by code_simp
  ultimately show ?thesis using path_changes_keep_name [of sample_state 7 sample_path 21 3 0 1 "- 1"] by metis
qed

end
