(* ===== verification/IdmefPathShare.thy ===== *)
theory IdmefPathShare
  imports IdmefPathText
begin

text \<open>
  Who holds a path, and what a change of it does to the others: the reference counts and the cache of \<open>src/idmef-path.c\<close>. A path that leaves
  the cache is not shared again in the histories of the first part; the last part shows what happens when it is, and other defects.
\<close>

section \<open>Holders\<close>

text \<open>The number of holders of each address.\<close>

type_synonym holders = "nat \<Rightarrow> nat"

definition change_op :: "nat \<Rightarrow> path_state \<Rightarrow> (unit result \<times> path_state) option \<Rightarrow> bool" where
  "change_op a st res \<longleftrightarrow> (\<exists>depth index. res = idmef_path_set_index a depth index st) \<or>
     (\<exists>name index. res = idmef_path_make_child a name index st) \<or> res = idmef_path_make_parent a st"

inductive hold_step :: "path_state \<times> holders \<Rightarrow> path_state \<times> holders \<Rightarrow> bool" where
  ask: "addr \<notin> Some ` dom (ps_paths st) \<Longrightarrow> idmef_path_new_from_root_fast addr True c s st = Some (Inr a, st') \<Longrightarrow>
    hold_step (st, h) (st', h(a := Suc (h a)))"
| ask_error: "addr \<notin> Some ` dom (ps_paths st) \<Longrightarrow> idmef_path_new_from_root_fast addr True c s st = Some (Inl e, st') \<Longrightarrow>
    hold_step (st, h) (st', h)"
| share: "0 < h a \<Longrightarrow> a \<in> set (ps_cache st) \<Longrightarrow> idmef_path_ref a st = Some st' \<Longrightarrow> hold_step (st, h) (st', h(a := Suc (h a)))"
| release: "0 < h a \<Longrightarrow> idmef_path_destroy a st = Some st' \<Longrightarrow> hold_step (st, h) (st', h(a := h a - 1))"
| change: "0 < h a \<Longrightarrow> change_op a st (Some (r, st')) \<Longrightarrow> hold_step (st, h) (st', h)"
| copy: "0 < h a \<Longrightarrow> addr \<notin> Some ` dom (ps_paths st) \<Longrightarrow> idmef_path_clone addr dup_ok a st = Some (Inr b, st') \<Longrightarrow>
    hold_step (st, h) (st', h(b := 1))"

text \<open>The reference count is the number of holders, and one for the cache; a path that is not in the cache has one holder.\<close>

definition count_ok :: "path_state \<Rightarrow> holders \<Rightarrow> nat \<Rightarrow> bool" where
  "count_ok st h a \<longleftrightarrow>
     (case ps_paths st a of
        None \<Rightarrow> h a = 0 \<and> a \<notin> set (ps_cache st)
      | Some p \<Rightarrow> pa_refcount p = int (h a) + (if a \<in> set (ps_cache st) then 1 else 0) \<and> (a \<notin> set (ps_cache st) \<longrightarrow> h a = 1))"

definition cache_ok :: "path_state \<Rightarrow> bool" where
  "cache_ok st \<longleftrightarrow> distinct (ps_cache st) \<and>
     (\<forall>a \<in> set (ps_cache st). \<forall>b \<in> set (ps_cache st). path_key_cmp_func (the (ps_paths st a)) (the (ps_paths st b)) \<longrightarrow> a = b)"

definition share_ok :: "path_state \<Rightarrow> holders \<Rightarrow> bool" where
  "share_ok st h \<longleftrightarrow> (\<forall>a. count_ok st h a) \<and> cache_ok st"

lemma key_refcount [simp]:
  "path_key_cmp_func (p\<lparr>pa_refcount := n\<rparr>) q = path_key_cmp_func p q" "path_key_cmp_func p (q\<lparr>pa_refcount := n\<rparr>) = path_key_cmp_func p q"
  by (simp_all add: path_key_cmp_func_def)

lemma share_cached: "share_ok st h \<Longrightarrow> a \<in> set (ps_cache st) \<Longrightarrow> \<exists>p. ps_paths st a = Some p \<and> pa_refcount p = int (h a) + 1"
proof -
  assume ok: "share_ok st h" "a \<in> set (ps_cache st)"
  then have "count_ok st h a" by (simp add: share_ok_def)
  then show ?thesis using ok(2) by (auto simp: count_ok_def split: option.splits)
qed

lemma share_held: "share_ok st h \<Longrightarrow> 0 < h a \<Longrightarrow> \<exists>p. ps_paths st a = Some p \<and> pa_refcount p = int (h a) + (if a \<in> set (ps_cache st) then 1 else 0) \<and>
    (a \<notin> set (ps_cache st) \<longrightarrow> h a = 1)"
proof -
  assume ok: "share_ok st h" "0 < h a"
  then have "count_ok st h a" by (simp add: share_ok_def)
  then show ?thesis using ok(2) by (auto simp: count_ok_def split: option.splits)
qed

lemma cache_get_found:
  assumes "cache_get st key = Some (Some a)"
  shows "a \<in> set (ps_cache st)" "path_key_cmp_func (the (ps_paths st a)) key"
  using assms by (auto simp: cache_get_def find_Some_iff split: if_splits)

lemma cache_get_missing:
  "cache_get st key = Some None \<Longrightarrow> a \<in> set (ps_cache st) \<Longrightarrow> \<not> path_key_cmp_func (the (ps_paths st a)) key"
  by (auto simp: cache_get_def find_None_iff split: if_splits)

text \<open>A path of the cache finds itself.\<close>

lemma cache_get_self:
  assumes "share_ok st h" "a \<in> set (ps_cache st)" "ps_paths st a = Some p"
  shows "cache_get st p = Some (Some a)"
proof -
  have "list_all (\<lambda>b. ps_paths st b \<noteq> None) (ps_cache st)" using share_cached [OF assms(1)] by (fastforce simp: list_all_iff)
  then obtain r where r: "cache_get st p = Some r" by (simp add: cache_get_def)
  have self: "path_key_cmp_func (the (ps_paths st a)) p" using assms(3) by (simp add: path_key_cmp_func_def)
  show ?thesis
  proof (cases r)
    case None
    then show ?thesis using cache_get_missing [OF _ assms(2)] r self by blast
  next
    case (Some b)
    then have "b \<in> set (ps_cache st)" "path_key_cmp_func (the (ps_paths st b)) p" using r cache_get_found by blast+
    then have "b = a" using assms by (auto simp: share_ok_def cache_ok_def path_key_cmp_func_def)
    then show ?thesis using r Some by simp
  qed
qed

lemma put_same: "ps_paths st a = Some p \<Longrightarrow> pa_refcount p = 1 \<Longrightarrow> put_path a (Some (p\<lparr>pa_refcount := 1\<rparr>)) st = st"
proof -
  assume p: "ps_paths st a = Some p" "pa_refcount p = 1"
  then have "p\<lparr>pa_refcount := 1\<rparr> = p" by simp
  then show ?thesis using p(1) by (simp add: fun_upd_idem)
qed

text \<open>Invalidation by a holder: refused when there are others, otherwise the path is not in the cache any more.\<close>

lemma invalidate_held:
  assumes "share_ok st h" "0 < h a"
  obtains p where "ps_paths st a = Some p" "1 < h a" "invalidate a st = Some (Inl PRELUDE_ERROR_GENERIC, st)"
  | p where "ps_paths st a = Some p" "h a = 1"
      "invalidate a st = Some (Inr (), (put_path a (Some (p\<lparr>pa_refcount := 1\<rparr>)) st)\<lparr>ps_cache := remove1 a (ps_cache st)\<rparr>)"
proof -
  obtain p where p: "ps_paths st a = Some p" "pa_refcount p = int (h a) + (if a \<in> set (ps_cache st) then 1 else 0)" "a \<notin> set (ps_cache st) \<longrightarrow> h a = 1"
    using share_held [OF assms] by blast
  show ?thesis
  proof (cases "a \<in> set (ps_cache st)")
    case False
    then have one: "pa_refcount p = 1" "h a = 1" using p by simp_all
    have "(put_path a (Some (p\<lparr>pa_refcount := 1\<rparr>)) st)\<lparr>ps_cache := remove1 a (ps_cache st)\<rparr> = st"
      unfolding put_same [OF p(1) one(1)] using False by (simp add: remove1_idem)
    then have "invalidate a st = Some (Inr (), (put_path a (Some (p\<lparr>pa_refcount := 1\<rparr>)) st)\<lparr>ps_cache := remove1 a (ps_cache st)\<rparr>)"
      using p(1) one by (simp add: invalidate_def)
    then show ?thesis using p(1) one(2) that(2) by blast
  next
    case True
    then show ?thesis using p assms(2) that cache_get_self [OF assms(1) True p(1)]
      by (cases "h a = 1") (simp_all add: invalidate_def)
  qed
qed

section \<open>The operations keep the counts\<close>

lemma share_update:
  assumes "share_ok st h" "count_ok st' h' a" "cache_ok st'"
    and "\<And>b. b \<noteq> a \<Longrightarrow> ps_paths st' b = ps_paths st b \<and> h' b = h b \<and> (b \<in> set (ps_cache st') \<longleftrightarrow> b \<in> set (ps_cache st))"
  shows "share_ok st' h'"
  unfolding share_ok_def
proof (intro conjI allI)
  fix b
  have "count_ok st' h' b = count_ok st h b" if "b \<noteq> a" using assms(4) [OF that] by (cases "ps_paths st b") (simp_all add: count_ok_def)
  then show "count_ok st' h' b" using assms(1,2) by (cases "b = a") (simp_all add: share_ok_def)
qed (rule assms(3))

lemma cache_ok_put:
  assumes "cache_ok st" "a \<in> set (ps_cache st) \<longrightarrow> (\<exists>p. ps_paths st a = Some p \<and> q = p\<lparr>pa_refcount := n\<rparr>)"
  shows "cache_ok (put_path a (Some q) st)"
  using assms by (auto simp: cache_ok_def)

lemma cache_ok_remove:
  assumes "cache_ok st"
  shows "cache_ok (st\<lparr>ps_paths := (ps_paths st)(a := q), ps_cache := remove1 a (ps_cache st)\<rparr>)"
  using assms by (auto simp: cache_ok_def set_remove1_eq)

lemma change_op_cases:
  assumes "change_op a st (Some (r, st'))"
  obtains "st' = st"
  | f where "change_path a f st = Some (r, st')" "\<And>p r q. f p = Some (r, q) \<Longrightarrow> pa_refcount q = pa_refcount p"
proof -
  note def = idmef_path_set_index_def idmef_path_make_child_def idmef_path_make_parent_def
  have put: "pa_refcount q = pa_refcount p" if "put_index depth index p = Some (r, q)" for depth index p r q
    using that by (auto simp: put_index_def build_name_def Let_def bind_eq_Some_conv)
  consider depth index where "idmef_path_set_index a depth index st = Some (r, st')"
    | name index where "idmef_path_make_child a name index st = Some (r, st')"
    | "idmef_path_make_parent a st = Some (r, st')"
    using assms unfolding change_op_def by metis
  then show ?thesis
  proof cases
    case (1 depth index)
    then show ?thesis using that(1) that(2) [of "put_index depth index"] put by (auto simp: def split: option.splits)
  next
    case (2 name index)
    then obtain p m where m: "ps_paths st a = Some p" "make_child_error p name = Some m" by (auto simp: def split: option.splits)
    show ?thesis
    proof (cases m)
      case (Inr m')
      then show ?thesis using 2 m that(2) [of "\<lambda>p. Some (Inr (), put_child (fst m') (snd m') name index p)"]
        by (cases m') (auto simp: def put_child_def Let_def)
    qed (use 2 m that(1) in \<open>simp add: def\<close>)
  next
    case 3
    then show ?thesis using that(1) that(2) [of "\<lambda>p. Some (Inr (), drop_parent p)"] by (auto simp: def drop_parent_def split: option.splits if_splits)
  qed
qed

lemma change_held:
  assumes "share_ok st h" "0 < h a" "change_op a st (Some (r, st'))"
  shows "share_ok st' h \<and> (\<forall>b. b \<noteq> a \<longrightarrow> ps_paths st' b = ps_paths st b) \<and> (1 < h a \<longrightarrow> st' = st)"
  using assms(3)
proof (cases rule: change_op_cases)
  case (2 f)
  show ?thesis
  proof (cases rule: invalidate_held [OF assms(1,2)])
    case (1 p)
    then show ?thesis using 2(1) assms(1) by (simp add: change_path_def)
  next
    case (2 p)
    then obtain p' where p': "f (p\<lparr>pa_refcount := 1\<rparr>) = Some (r, p')"
        "st' = st\<lparr>ps_paths := (ps_paths st)(a \<mapsto> p'), ps_cache := remove1 a (ps_cache st)\<rparr>"
      using \<open>change_path a f st = Some (r, st')\<close> by (auto simp: change_path_def bind_eq_Some_conv)
    have dist: "distinct (ps_cache st)" "cache_ok st" using assms(1) by (simp_all add: share_ok_def cache_ok_def)
    have "pa_refcount p' = 1" using \<open>\<And>p r q. f p = Some (r, q) \<Longrightarrow> pa_refcount q = pa_refcount p\<close> [OF p'(1)] by simp
    then have "count_ok st' h a" using 2 dist by (simp add: p'(2) count_ok_def)
    moreover have "cache_ok st'" unfolding p'(2) using dist(2) by (rule cache_ok_remove)
    ultimately have "share_ok st' h" using dist by (intro share_update [OF assms(1), of _ _ a]) (simp_all add: p'(2))
    then show ?thesis using 2 by (simp add: p'(2))
  qed
qed (use assms(1) in simp)

lemma ref_held:
  assumes "share_ok st h" "a \<in> set (ps_cache st)" "idmef_path_ref a st = Some st'"
  shows "share_ok st' (h(a := Suc (h a)))"
proof -
  obtain p where p: "ps_paths st a = Some p" "pa_refcount p = int (h a) + 1" using share_cached [OF assms(1,2)] by blast
  then have st': "st' = put_path a (Some (p\<lparr>pa_refcount := pa_refcount p + 1\<rparr>)) st" using assms(3) by (simp add: idmef_path_ref_def)
  have "cache_ok st'" unfolding st' using assms(1) p by (intro cache_ok_put) (auto simp: share_ok_def)
  then show ?thesis using assms(2) p by (intro share_update [OF assms(1), of _ _ a]) (simp_all add: st' count_ok_def)
qed

lemma destroy_held:
  assumes "share_ok st h" "0 < h a" "idmef_path_destroy a st = Some st'"
  shows "share_ok st' (h(a := h a - 1))"
proof -
  obtain p where p: "ps_paths st a = Some p" "pa_refcount p = int (h a) + (if a \<in> set (ps_cache st) then 1 else 0)"
      "a \<notin> set (ps_cache st) \<longrightarrow> h a = 1"
    using share_held [OF assms(1,2)] by blast
  show ?thesis
  proof (cases "a \<in> set (ps_cache st)")
    case True
    then have st': "st' = put_path a (Some (p\<lparr>pa_refcount := pa_refcount p - 1\<rparr>)) st" using assms(2,3) p by (simp add: idmef_path_destroy_def)
    have "cache_ok st'" unfolding st' using assms(1) p by (intro cache_ok_put) (auto simp: share_ok_def)
    then show ?thesis using True assms(2) p by (intro share_update [OF assms(1), of _ _ a]) (simp_all add: st' count_ok_def)
  next
    case False
    then have st': "st' = put_path a None st" using assms(3) p by (simp add: idmef_path_destroy_def)
    have "cache_ok st'" using assms(1) False by (auto simp: st' share_ok_def cache_ok_def)
    then show ?thesis using False p by (intro share_update [OF assms(1), of _ _ a]) (simp_all add: st' count_ok_def)
  qed
qed

lemma clone_held:
  assumes "share_ok st h" "addr \<notin> Some ` dom (ps_paths st)" "idmef_path_clone addr dup a st = Some (Inr b, st')"
  shows "share_ok st' (h(b := 1))"
  using assms(3)
proof (cases rule: clone_cases)
  case (2 b' p)
  then have b: "ps_paths st b = None" "st' = put_path b (Some (p\<lparr>pa_refcount := 1\<rparr>)) st" using assms(2) by auto
  then have "b \<notin> set (ps_cache st)" using share_cached [OF assms(1)] by fastforce
  moreover from this have "cache_ok st'" unfolding b(2) using assms(1) by (intro cache_ok_put) (auto simp: share_ok_def)
  ultimately show ?thesis by (intro share_update [OF assms(1), of _ _ b]) (simp_all add: b(2) count_ok_def)
qed simp

lemma fresh_path_fields: "fresh_path c s = Inr p \<Longrightarrow> pa_name p = s \<and> pa_top_class p = c \<and> pa_refcount p = 1"
proof -
  assume f: "fresh_path c s = Inr p"
  show ?thesis
  proof (cases "s = []")
    case True
    then show ?thesis using f by (auto simp: fresh_path_def Let_def empty_path_def)
  next
    case False
    then have "parse_elements c 0 (path_tokens s) (empty_path\<lparr>pa_refcount := 1, pa_name := s, pa_top_class := c\<rparr>) = Inr p"
      using f by (auto simp: fresh_path_def Let_def idmef_path_parse_new_def split: sum.splits)
    from parse_elements_ok [OF this] show ?thesis by (auto simp: MAX_DEPTH_def)
  qed
qed

lemma new_held:
  assumes "share_ok st h" "addr \<notin> Some ` dom (ps_paths st)" "idmef_path_new_from_root_fast addr True c s st = Some (r, st')"
  shows "case r of Inl _ \<Rightarrow> share_ok st' h | Inr a \<Rightarrow> share_ok st' (h(a := Suc (h a)))"
  using assms(3)
proof (cases rule: new_cases)
  case (2 a)
  then show ?thesis using ref_held [OF assms(1) cache_get_found(1)] by simp
next
  case (3 a)
  then have "ps_paths st a = None" using assms(2) by auto
  then have "st' = st" using 3(2) by (simp add: fun_upd_idem)
  then show ?thesis using 3(3) assms(1) by auto
next
  case (4 a p)
  have none: "ps_paths st a = None" using assms(2) 4(1) by auto
  then have "count_ok st h a" using assms(1) by (simp add: share_ok_def)
  then have a: "h a = 0" "a \<notin> set (ps_cache st)" using none by (simp_all add: count_ok_def)
  note p = fresh_path_fields [OF 4(4)]
  have other: "\<not> path_key_cmp_func (the (ps_paths st b)) (p\<lparr>pa_refcount := n\<rparr>) \<and>
      \<not> path_key_cmp_func (p\<lparr>pa_refcount := n\<rparr>) (the (ps_paths st b))" if "b \<in> set (ps_cache st)" for b n
    using cache_get_missing [OF 4(2) that] p by (auto simp: path_key_cmp_func_def)
  have "cache_ok st'" using assms(1) a(2) other unfolding 4(5) by (auto simp: share_ok_def cache_ok_def simp del: key_refcount)
  then have "share_ok st' (h(a := Suc (h a)))"
    using a p by (intro share_update [OF assms(1), of _ _ a]) (simp_all add: 4(5) count_ok_def)
  then show ?thesis by (simp add: 4(3))
qed (use assms(1) in simp)

lemma hold_step_ok: "hold_step s s' \<Longrightarrow> share_ok (fst s) (snd s) \<Longrightarrow> share_ok (fst s') (snd s')"
proof (induction rule: hold_step.induct)
  case (ask addr st c s a st' h)
  then show ?case using new_held [of st h addr c s "Inr a" st'] by (simp add: fun_upd_def)
next
  case (ask_error addr st c s e st' h)
  then show ?case using new_held [of st h addr c s "Inl e" st'] by simp
qed (simp_all add: ref_held destroy_held [unfolded One_nat_def] clone_held [unfolded One_nat_def] change_held)

lemma initial_share_ok: "share_ok initial_paths (\<lambda>_. 0)"
  by (simp add: share_ok_def count_ok_def cache_ok_def initial_paths_def)

lemma reachable_share_ok: "hold_step\<^sup>*\<^sup>* s s' \<Longrightarrow> share_ok (fst s) (snd s) \<Longrightarrow> share_ok (fst s') (snd s')"
  by (induction rule: rtranclp_induct) (simp_all add: hold_step_ok)

text \<open>
  C12. When only paths of the cache are shared, the reference counts are the numbers of holders: a held path is never freed, the cache has no freed
  path, and a change is refused when there are other holders and otherwise changes this path alone.
\<close>

theorem path_sharing:
  assumes "hold_step\<^sup>*\<^sup>* (initial_paths, \<lambda>_. 0) (st, h)"
  shows "(\<forall>a. 0 < h a \<longrightarrow> ps_paths st a \<noteq> None) \<and> (\<forall>key. cache_get st key \<noteq> None) \<and>
    (\<forall>a r st'. 0 < h a \<and> change_op a st (Some (r, st')) \<longrightarrow>
      (\<forall>b. b \<noteq> a \<longrightarrow> ps_paths st' b = ps_paths st b) \<and> (1 < h a \<longrightarrow> st' = st))"
proof -
  have ok: "share_ok st h" using reachable_share_ok [OF assms] initial_share_ok by simp
  have "list_all (\<lambda>b. ps_paths st b \<noteq> None) (ps_cache st)" using share_cached [OF ok] by (fastforce simp: list_all_iff)
  then have "cache_get st key \<noteq> None" for key by (simp add: cache_get_def)
  moreover have "ps_paths st a \<noteq> None" if "0 < h a" for a using share_held [of st h a, OF ok that] by auto
  ultimately show ?thesis using change_held [OF ok] by blast
qed

text \<open>Two holders of the path \<open>alert\<close>, who ask for it one after the other.\<close>

definition alert_path :: idmef_path where
  "alert_path = \<lparr>pa_name = ''alert'', pa_refcount = 3, pa_depth = 1, pa_top_class = 49,
     pa_elem = element 49 1 INDEX_FORBIDDEN No_Key # replicate 15 empty_element\<rparr>"

definition alert_state :: "nat \<Rightarrow> int \<Rightarrow> path_state" where
  "alert_state a n = \<lparr>ps_paths = (\<lambda>_. None)(a \<mapsto> alert_path\<lparr>pa_refcount := n\<rparr>), ps_cache = [a]\<rparr>"

lemma fresh_alert: "fresh_path 49 ''alert'' = Inr (alert_path\<lparr>pa_refcount := 1\<rparr>)"
  by code_simp

lemma ask_alert: "idmef_path_new_from_root_fast (Some 7) True 49 ''alert'' initial_paths = Some (Inr 7, alert_state 7 2)"
proof -
  have "copy_path_name ''alert'' = Inr ()" by code_simp
  then show ?thesis using fresh_alert
    by (simp add: idmef_path_new_from_root_fast_def idmef_path_create_def cache_get_def initial_paths_def fresh_path_def Let_def
        idmef_path_ref_def alert_state_def)
qed

lemma path_sharing_witness:
  "hold_step\<^sup>*\<^sup>* (initial_paths, \<lambda>_. 0) (alert_state 7 3, (\<lambda>_. 0)(7 := 2)) \<and>
   change_op 7 (alert_state 7 3) (Some (Inl PRELUDE_ERROR_GENERIC, alert_state 7 3)) \<and> ps_paths (alert_state 7 3) 7 \<noteq> None"
proof -
  have one: "hold_step (initial_paths, \<lambda>_. 0) (alert_state 7 2, (\<lambda>_. 0)(7 := 1))"
    using hold_step.ask [OF _ ask_alert, of "\<lambda>_. 0"] by (simp add: initial_paths_def)
  have "idmef_path_ref 7 (alert_state 7 2) = Some (alert_state 7 3)" by (simp add: idmef_path_ref_def alert_state_def)
  then have two: "hold_step (alert_state 7 2, (\<lambda>_. 0)(7 := 1)) (alert_state 7 3, (\<lambda>_. 0)(7 := 2))"
    using hold_step.share [of "(\<lambda>_. 0)(7 := 1)" 7 "alert_state 7 2"] by (simp add: alert_state_def numeral_2_eq_2)
  have reach: "hold_step\<^sup>*\<^sup>* (initial_paths, \<lambda>_. 0) (alert_state 7 3, (\<lambda>_. 0)(7 := 2))"
    using one two by (meson converse_rtranclp_into_rtranclp rtranclp.rtrancl_refl)
  have "idmef_path_make_parent 7 (alert_state 7 3) = Some (Inl PRELUDE_ERROR_GENERIC, alert_state 7 3)"
    by (simp add: idmef_path_make_parent_def change_path_def invalidate_def alert_state_def alert_path_def)
  then have "change_op 7 (alert_state 7 3) (Some (Inl PRELUDE_ERROR_GENERIC, alert_state 7 3))" by (simp add: change_op_def)
  then show ?thesis using path_sharing [OF reach] reach by (metis fun_upd_same zero_less_numeral)
qed

section \<open>Defects\<close>

text \<open>The paths \<open>additional_data('k')\<close> below an alert and below a message.\<close>

definition keyed_path :: idmef_path where
  "keyed_path = path_of 46 [element 46 9 INDEX_KEY (Key ''k'')]"

definition alert_keyed_path :: idmef_path where
  "alert_keyed_path = path_of 49 [element 49 1 INDEX_FORBIDDEN No_Key, element 46 9 INDEX_KEY (Key ''k'')]"

text \<open>The path \<open>alert.target(0).file(10)\<close> with three times \<open>.linkage(100).file\<close> and three times \<open>.linkage(0).file\<close>.\<close>

definition long_elements :: "path_element list" where
  "long_elements = [element 49 1 INDEX_FORBIDDEN No_Key, element 46 7 0 No_Key, element 30 7 10 No_Key] @
     concat (map (\<lambda>i. [element 26 9 i No_Key, element 28 3 INDEX_FORBIDDEN No_Key]) [100, 100, 100, 0, 0, 0])"

text \<open>
  Defects of indices: reserved numbers are accepted in the text of a path, which then cannot be compared; an index over a key leaves a freed key; a new
  child has the key of an old one; below another root than a message an index is set and an error returned; a long index is written behind the name; text
  behind an index is ignored; paths below different roots compare as equal.
\<close>

theorem path_index_defects:
  "idmef_path_parse_new empty_path 46 ''additional_data(-2147483647)'' =
     Inr ((path_of 46 [element 46 9 INDEX_KEY No_Key])\<lparr>pa_name := ''additional_data(-2147483647)''\<rparr>) \<and>
   idmef_path_compare (path_of 46 [element 46 9 INDEX_KEY No_Key]) (path_of 46 [element 46 9 INDEX_KEY No_Key]) = None \<and>
   map_option (\<lambda>(r, q). (r, pa_name q, pe_key (pa_elem q ! 1))) (put_index 1 3 alert_keyed_path) =
     Some (Inr (), ''alert.additional_data(3)'', Dangling) \<and>
   pe_key (pa_elem (put_child 46 9 ''additional_data'' 5 (drop_parent alert_keyed_path)) ! 1) = Key ''k'' \<and>
   map_option (\<lambda>(r, q). (r, pa_name q)) (put_index 0 3 (path_of 46 [element 46 6 1 No_Key, element 21 3 INDEX_FORBIDDEN No_Key])) =
     Some (Inl PRELUDE_ERROR_IDMEF_PATH_INTEGRITY, ''source(3)'') \<and>
   length (elems_text 49 long_elements) = 126 \<and> put_index 1 100 (path_of 49 long_elements) = None \<and>
   parse_token ''source(0)abc'' = parse_token ''source(0)'' \<and>
   idmef_path_compare (path_of 46 [element 46 0 INDEX_FORBIDDEN No_Key]) (path_of 47 [element 47 0 INDEX_FORBIDDEN No_Key]) = Some 0"
proof (intro conjI)
  have "dec_int 0 INDEX_KEY = ''-2147483647''" by (simp add: dec_int_0 INDEX_KEY_def dec.simps digit_char_def)
  then have "parse_index ''-2147483647'' = Inr (INDEX_KEY, No_Key)" using parse_index_number [of INDEX_KEY] by (simp add: index_values)
  then have tok: "parse_token ''additional_data(-2147483647)'' = Inr (''additional_data'', INDEX_KEY, No_Key)"
    by (simp add: parse_token_def Let_def)
  have find: "idmef_class_find_child 46 ''additional_data'' = Inr 9" and valid: "is_child_valid 46 9 = Inr ()"
    and row: "ch_list (child_row 46 9)" "ch_keyed_list (child_row 46 9)" "ch_type (child_row 46 9) = VT_CLASS" by code_simp+
  have "parse_element 46 True ''additional_data(-2147483647)'' empty_element = Inr (element 46 9 INDEX_KEY No_Key)"
    using child_readers [OF valid] tok find row
    by (simp add: parse_element_def Let_def element_def empty_element_def index_values)
  moreover have "path_tokens ''additional_data(-2147483647)'' = [''additional_data(-2147483647)'']" by (rule tokens_of_text) simp
  moreover have "copy_path_name ''additional_data(-2147483647)'' = Inr ()" by (simp add: copy_path_name_def MAX_NAME_LEN_def)
  ultimately show "idmef_path_parse_new empty_path 46 ''additional_data(-2147483647)'' =
     Inr ((path_of 46 [element 46 9 INDEX_KEY No_Key])\<lparr>pa_name := ''additional_data(-2147483647)''\<rparr>)"
    by (simp add: idmef_path_parse_new_def empty_path_def MAX_DEPTH_def path_of_def numeral_eq_Suc del: path_tokens.simps)
  show "idmef_path_compare (path_of 46 [element 46 9 INDEX_KEY No_Key]) (path_of 46 [element 46 9 INDEX_KEY No_Key]) = None"
    by (simp add: idmef_path_compare_def idmef_path_ncompare_def path_of_def element_def key_eq_def)
  show "parse_token ''source(0)abc'' = parse_token ''source(0)''" by (simp add: parse_token_def)
qed (code_simp, code_simp, code_simp, code_simp, code_simp, code_simp)

section \<open>Typing of reachable paths\<close>

text \<open>
  C10. Whatever the operations do, with any arguments and any failure of an allocation, every allocated path is typed: each element is a child of the
  class before it with the class and the value type of the tables, an index only where the tables have a list and a key only where they have a keyed
  list, leaves are last, and the name fits its array.
\<close>

theorem paths_are_typed:
  assumes "path_step\<^sup>*\<^sup>* initial_paths st" "ps_paths st a = Some p"
  shows "path_ok p"
  using reachable_paths_ok [OF assms(1)] assms(2) by (simp add: paths_ok_def)

lemma paths_are_typed_witness:
  "path_step\<^sup>*\<^sup>* initial_paths (alert_state 7 2) \<and> path_ok (alert_path\<lparr>pa_refcount := 2\<rparr>)"
proof -
  have "path_step initial_paths (alert_state 7 2)" using path_step.new [OF _ ask_alert] by (simp add: initial_paths_def)
  then have "path_step\<^sup>*\<^sup>* initial_paths (alert_state 7 2)" by (rule r_into_rtranclp)
  moreover have "ps_paths (alert_state 7 2) 7 = Some (alert_path\<lparr>pa_refcount := 2\<rparr>)" by (simp add: alert_state_def)
  ultimately show ?thesis using paths_are_typed by blast
qed

end
