(* ===== verification/IdmefData.thy ===== *)
theory IdmefData
  imports PString IdmefTime
begin

text \<open>
  Data objects of IDMEF messages (\<open>src/idmef-data.c\<close>): a character, a number, a string of bytes or a time, which the object owns or refers to.
  Memory is explicit, since the point is who frees what: an address holds a block that came from \<open>malloc\<close>, or one that belongs to the
  program and must not be freed. The address that an allocation returns is a parameter, \<open>None\<close> when it fails.
\<close>

section \<open>Memory\<close>

datatype block = Heap "byte list" | Static "byte list"

record memory =
  mm_blocks :: "nat \<Rightarrow> block option"
  mm_times :: "nat \<Rightarrow> idmef_time option"

definition put_block :: "nat \<Rightarrow> block option \<Rightarrow> memory \<Rightarrow> memory" where
  "put_block a b m = m\<lparr>mm_blocks := (mm_blocks m)(a := b)\<rparr>"

definition put_time :: "nat \<Rightarrow> idmef_time option \<Rightarrow> memory \<Rightarrow> memory" where
  "put_time a t m = m\<lparr>mm_times := (mm_times m)(a := t)\<rparr>"

definition block_bytes :: "block \<Rightarrow> byte list" where
  "block_bytes b = (case b of Heap bs \<Rightarrow> bs | Static bs \<Rightarrow> bs)"

text \<open>The first \<open>n\<close> bytes behind a pointer.\<close>

definition read_ptr :: "nat option \<Rightarrow> nat \<Rightarrow> memory \<Rightarrow> byte list option" where
  "read_ptr p n m = Option.bind p (\<lambda>a. Option.bind (mm_blocks m a) (\<lambda>b. mem_read (block_bytes b) 0 n))"

definition free_ptr :: "nat option \<Rightarrow> memory \<Rightarrow> memory option" where
  "free_ptr p m = (case p of None \<Rightarrow> Some m
     | Some a \<Rightarrow> (case mm_blocks m a of Some (Heap _) \<Rightarrow> Some (put_block a None m) | _ \<Rightarrow> None))"

section \<open>Data\<close>

datatype data_type = DT_UNKNOWN | DT_CHAR | DT_BYTE | DT_UINT32 | DT_INT | DT_FLOAT | DT_CHAR_STRING | DT_BYTE_STRING | DT_TIME

text \<open>The union; an object that was just allocated holds a null pointer. A float is its bits.\<close>

datatype data_union = Char_Data byte | Byte_Data byte | Int_Data u64 | Float_Data u32 | Ptr_Data "nat option"

record idmef_data =
  da_refcount :: int
  da_own_structure :: bool
  da_own_data :: bool
  da_type :: data_type
  da_len :: nat
  da_data :: data_union

definition string_type :: "data_type \<Rightarrow> bool" where
  "string_type t \<longleftrightarrow> t = DT_CHAR_STRING \<or> t = DT_BYTE_STRING"

definition data_ptr :: "idmef_data \<Rightarrow> nat option option" where
  "data_ptr d = (case da_data d of Ptr_Data p \<Rightarrow> Some p | _ \<Rightarrow> None)"

text \<open>A null pointer to a time is refused quietly.\<close>

definition destroy_time_ptr :: "nat option \<Rightarrow> memory \<Rightarrow> memory option" where
  "destroy_time_ptr p m = (case p of None \<Rightarrow> Some m | Some a \<Rightarrow> map_option (\<lambda>t. put_time a (idmef_time_destroy t) m) (mm_times m a))"

definition idmef_data_destroy_internal :: "idmef_data \<Rightarrow> memory \<Rightarrow> (idmef_data \<times> memory) option" where
  "idmef_data_destroy_internal d m =
     (if da_type d = DT_TIME \<and> da_own_data d
      then Option.bind (data_ptr d) (\<lambda>p. map_option (\<lambda>m'. (d, m')) (destroy_time_ptr p m))
      else if string_type (da_type d) \<and> da_own_data d
      then Option.bind (data_ptr d) (\<lambda>p. map_option (\<lambda>m'. (d\<lparr>da_data := Ptr_Data None\<rparr>, m')) (free_ptr p m))
      else Some (d, m))"

definition idmef_data_destroy :: "idmef_data \<Rightarrow> memory \<Rightarrow> (idmef_data option \<times> memory) option" where
  "idmef_data_destroy d m =
     (let d1 = d\<lparr>da_refcount := da_refcount d - 1\<rparr> in
      if da_refcount d1 \<noteq> 0 then Some (Some d1, m)
      else map_option (\<lambda>(d2, m'). (if da_own_structure d2 then None else Some d2, m')) (idmef_data_destroy_internal d1 m))"

definition new_data :: idmef_data where
  "new_data = \<lparr>da_refcount = 1, da_own_structure = True, da_own_data = False, da_type = DT_UNKNOWN, da_len = 0, da_data = Ptr_Data None\<rparr>"

definition idmef_data_new :: "bool \<Rightarrow> idmef_data result" where
  "idmef_data_new mem_ok = (if \<not> mem_ok then Inl PRELUDE_ERROR_ENOMEM else Inr new_data)"

definition idmef_data_ref :: "idmef_data \<Rightarrow> idmef_data" where
  "idmef_data_ref d = d\<lparr>da_refcount := da_refcount d + 1\<rparr>"

section \<open>Numbers and times\<close>

definition set_scalar :: "data_type \<Rightarrow> nat \<Rightarrow> data_union \<Rightarrow> idmef_data \<Rightarrow> memory \<Rightarrow> (idmef_data \<times> memory) option" where
  "set_scalar t n u d m = map_option (\<lambda>(d', m'). (d'\<lparr>da_type := t, da_len := n, da_data := u\<rparr>, m')) (idmef_data_destroy_internal d m)"

definition idmef_data_set_char :: "byte \<Rightarrow> idmef_data \<Rightarrow> memory \<Rightarrow> (idmef_data \<times> memory) option" where
  "idmef_data_set_char v = set_scalar DT_CHAR 1 (Char_Data v)"

definition idmef_data_set_byte :: "byte \<Rightarrow> idmef_data \<Rightarrow> memory \<Rightarrow> (idmef_data \<times> memory) option" where
  "idmef_data_set_byte v = set_scalar DT_BYTE 1 (Byte_Data v)"

definition idmef_data_set_uint32 :: "u32 \<Rightarrow> idmef_data \<Rightarrow> memory \<Rightarrow> (idmef_data \<times> memory) option" where
  "idmef_data_set_uint32 v = set_scalar DT_INT 4 (Int_Data (ucast v))"

definition idmef_data_set_uint64 :: "u64 \<Rightarrow> idmef_data \<Rightarrow> memory \<Rightarrow> (idmef_data \<times> memory) option" where
  "idmef_data_set_uint64 v = set_scalar DT_INT 8 (Int_Data v)"

definition idmef_data_set_int :: "u64 \<Rightarrow> idmef_data \<Rightarrow> memory \<Rightarrow> (idmef_data \<times> memory) option" where
  "idmef_data_set_int v = set_scalar DT_INT 8 (Int_Data v)"

definition idmef_data_set_float :: "u32 \<Rightarrow> idmef_data \<Rightarrow> memory \<Rightarrow> (idmef_data \<times> memory) option" where
  "idmef_data_set_float v = set_scalar DT_FLOAT 4 (Float_Data v)"

definition idmef_data_set_time :: "nat option \<Rightarrow> idmef_data \<Rightarrow> idmef_data" where
  "idmef_data_set_time t d = d\<lparr>da_len := 1, da_type := DT_TIME, da_own_data := True, da_data := Ptr_Data t\<rparr>"

definition idmef_data_new_time :: "bool \<Rightarrow> nat option \<Rightarrow> idmef_data result" where
  "idmef_data_new_time mem_ok t = (case idmef_data_new mem_ok of Inl e \<Rightarrow> Inl e
     | Inr d \<Rightarrow> Inr (d\<lparr>da_len := 1, da_type := DT_TIME, da_own_data := True, da_data := Ptr_Data t\<rparr>))"

section \<open>Strings\<close>

text \<open>The three ways to hand a block over: refer to it, copy it, take it. Only the last two set the flag of ownership, none clears it.\<close>

definition idmef_data_set_ptr_ref_fast ::
  "idmef_data \<Rightarrow> data_type \<Rightarrow> nat option \<Rightarrow> nat \<Rightarrow> memory \<Rightarrow> (unit result \<times> idmef_data \<times> memory) option" where
  "idmef_data_set_ptr_ref_fast d t ptr len m =
     (if ptr = None then Some (Inl PRELUDE_ERROR_ASSERTION, d, m)
      else map_option (\<lambda>(d', m'). (Inr (), d'\<lparr>da_type := t, da_data := Ptr_Data ptr, da_len := len\<rparr>, m')) (idmef_data_destroy_internal d m))"

definition idmef_data_set_ptr_dup_fast ::
  "nat option \<Rightarrow> idmef_data \<Rightarrow> data_type \<Rightarrow> nat option \<Rightarrow> nat \<Rightarrow> memory \<Rightarrow> (unit result \<times> idmef_data \<times> memory) option" where
  "idmef_data_set_ptr_dup_fast addr d t ptr len m =
     (if ptr = None then Some (Inl PRELUDE_ERROR_ASSERTION, d, m)
      else Option.bind (idmef_data_destroy_internal d m) (\<lambda>(d', m').
        case addr of
          None \<Rightarrow> Some (Inl PRELUDE_ERROR_GENERIC, d', m')
        | Some a \<Rightarrow> map_option (\<lambda>bs. (Inr (), d'\<lparr>da_type := t, da_data := Ptr_Data (Some a), da_len := len, da_own_data := True\<rparr>,
            put_block a (Some (Heap bs)) m')) (read_ptr ptr len m')))"

definition idmef_data_set_ptr_nodup_fast ::
  "idmef_data \<Rightarrow> data_type \<Rightarrow> nat option \<Rightarrow> nat \<Rightarrow> memory \<Rightarrow> (unit result \<times> idmef_data \<times> memory) option" where
  "idmef_data_set_ptr_nodup_fast d t ptr len m =
     (if ptr = None then Some (Inl PRELUDE_ERROR_ASSERTION, d, m)
      else map_option (\<lambda>(d', m'). (Inr (), d'\<lparr>da_type := t, da_data := Ptr_Data ptr, da_len := len, da_own_data := True\<rparr>, m'))
        (idmef_data_destroy_internal d m))"

text \<open>A new object on which one of them failed is destroyed; the object that is left, if any, is dangling.\<close>

definition new_and_set ::
  "bool \<Rightarrow> (idmef_data \<Rightarrow> memory \<Rightarrow> (unit result \<times> idmef_data \<times> memory) option) \<Rightarrow> memory \<Rightarrow> (idmef_data result \<times> memory) option" where
  "new_and_set mem_ok set_data m =
     (case idmef_data_new mem_ok of
        Inl e \<Rightarrow> Some (Inl e, m)
      | Inr d \<Rightarrow> Option.bind (set_data d m) (\<lambda>(ret, d', m').
          case ret of Inr _ \<Rightarrow> Some (Inr d', m') | Inl e \<Rightarrow> map_option (\<lambda>(_, m''). (Inl e, m'')) (idmef_data_destroy d' m')))"

definition idmef_data_new_ptr_ref_fast :: "bool \<Rightarrow> data_type \<Rightarrow> nat option \<Rightarrow> nat \<Rightarrow> memory \<Rightarrow> (idmef_data result \<times> memory) option" where
  "idmef_data_new_ptr_ref_fast mem_ok t ptr len = new_and_set mem_ok (\<lambda>d. idmef_data_set_ptr_ref_fast d t ptr len)"

definition idmef_data_new_ptr_dup_fast ::
  "bool \<Rightarrow> nat option \<Rightarrow> data_type \<Rightarrow> nat option \<Rightarrow> nat \<Rightarrow> memory \<Rightarrow> (idmef_data result \<times> memory) option" where
  "idmef_data_new_ptr_dup_fast mem_ok addr t ptr len = new_and_set mem_ok (\<lambda>d. idmef_data_set_ptr_dup_fast addr d t ptr len)"

definition idmef_data_new_ptr_nodup_fast :: "bool \<Rightarrow> data_type \<Rightarrow> nat option \<Rightarrow> nat \<Rightarrow> memory \<Rightarrow> (idmef_data result \<times> memory) option" where
  "idmef_data_new_ptr_nodup_fast mem_ok t ptr len = new_and_set mem_ok (\<lambda>d. idmef_data_set_ptr_nodup_fast d t ptr len)"

text \<open>The length of a character string counts its terminating zero.\<close>

definition idmef_data_new_char_string_ref_fast where
  "idmef_data_new_char_string_ref_fast mem_ok ptr len = idmef_data_new_ptr_ref_fast mem_ok DT_CHAR_STRING ptr (size_add len 1)"
definition idmef_data_new_char_string_dup_fast where
  "idmef_data_new_char_string_dup_fast mem_ok addr ptr len = idmef_data_new_ptr_dup_fast mem_ok addr DT_CHAR_STRING ptr (size_add len 1)"
definition idmef_data_new_char_string_nodup_fast where
  "idmef_data_new_char_string_nodup_fast mem_ok ptr len = idmef_data_new_ptr_nodup_fast mem_ok DT_CHAR_STRING ptr (size_add len 1)"
definition idmef_data_set_char_string_ref_fast where
  "idmef_data_set_char_string_ref_fast d ptr len = idmef_data_set_ptr_ref_fast d DT_CHAR_STRING ptr (size_add len 1)"
definition idmef_data_set_char_string_dup_fast where
  "idmef_data_set_char_string_dup_fast addr d ptr len = idmef_data_set_ptr_dup_fast addr d DT_CHAR_STRING ptr (size_add len 1)"
definition idmef_data_set_char_string_nodup_fast where
  "idmef_data_set_char_string_nodup_fast d ptr len = idmef_data_set_ptr_nodup_fast d DT_CHAR_STRING ptr (size_add len 1)"

text \<open>\<open>strlen\<close> of a block.\<close>

definition strlen_ptr :: "nat option \<Rightarrow> memory \<Rightarrow> nat option" where
  "strlen_ptr p m = Option.bind p (\<lambda>a. Option.bind (mm_blocks m a) (\<lambda>b. strlen (block_bytes b)))"

definition idmef_data_new_char_string_ref :: "bool \<Rightarrow> nat option \<Rightarrow> memory \<Rightarrow> (idmef_data result \<times> memory) option" where
  "idmef_data_new_char_string_ref mem_ok ptr m = (if ptr = None then Some (Inl PRELUDE_ERROR_ASSERTION, m)
     else Option.bind (strlen_ptr ptr m) (\<lambda>len. idmef_data_new_char_string_ref_fast mem_ok ptr len m))"

definition idmef_data_new_char_string_dup :: "bool \<Rightarrow> nat option \<Rightarrow> nat option \<Rightarrow> memory \<Rightarrow> (idmef_data result \<times> memory) option" where
  "idmef_data_new_char_string_dup mem_ok addr ptr m = (if ptr = None then Some (Inl PRELUDE_ERROR_ASSERTION, m)
     else Option.bind (strlen_ptr ptr m) (\<lambda>len. idmef_data_new_char_string_dup_fast mem_ok addr ptr len m))"

definition idmef_data_new_char_string_nodup :: "bool \<Rightarrow> nat option \<Rightarrow> memory \<Rightarrow> (idmef_data result \<times> memory) option" where
  "idmef_data_new_char_string_nodup mem_ok ptr m = (if ptr = None then Some (Inl PRELUDE_ERROR_ASSERTION, m)
     else Option.bind (strlen_ptr ptr m) (\<lambda>len. idmef_data_new_char_string_nodup_fast mem_ok ptr len m))"

definition idmef_data_set_char_string_ref :: "idmef_data \<Rightarrow> nat option \<Rightarrow> memory \<Rightarrow> (unit result \<times> idmef_data \<times> memory) option" where
  "idmef_data_set_char_string_ref d ptr m = (if ptr = None then Some (Inl PRELUDE_ERROR_ASSERTION, d, m)
     else Option.bind (strlen_ptr ptr m) (\<lambda>len. idmef_data_set_char_string_ref_fast d ptr len m))"

definition idmef_data_set_char_string_dup :: "nat option \<Rightarrow> idmef_data \<Rightarrow> nat option \<Rightarrow> memory \<Rightarrow> (unit result \<times> idmef_data \<times> memory) option" where
  "idmef_data_set_char_string_dup addr d ptr m = (if ptr = None then Some (Inl PRELUDE_ERROR_ASSERTION, d, m)
     else Option.bind (strlen_ptr ptr m) (\<lambda>len. idmef_data_set_char_string_dup_fast addr d ptr len m))"

definition idmef_data_set_char_string_nodup :: "idmef_data \<Rightarrow> nat option \<Rightarrow> memory \<Rightarrow> (unit result \<times> idmef_data \<times> memory) option" where
  "idmef_data_set_char_string_nodup d ptr m = (if ptr = None then Some (Inl PRELUDE_ERROR_ASSERTION, d, m)
     else Option.bind (strlen_ptr ptr m) (\<lambda>len. idmef_data_set_char_string_nodup_fast d ptr len m))"

definition idmef_data_new_byte_string_ref where
  "idmef_data_new_byte_string_ref mem_ok ptr len = idmef_data_new_ptr_ref_fast mem_ok DT_BYTE_STRING ptr len"
definition idmef_data_new_byte_string_dup where
  "idmef_data_new_byte_string_dup mem_ok addr ptr len = idmef_data_new_ptr_dup_fast mem_ok addr DT_BYTE_STRING ptr len"
definition idmef_data_new_byte_string_nodup where
  "idmef_data_new_byte_string_nodup mem_ok ptr len = idmef_data_new_ptr_nodup_fast mem_ok DT_BYTE_STRING ptr len"
definition idmef_data_set_byte_string_ref where
  "idmef_data_set_byte_string_ref d ptr len = idmef_data_set_ptr_ref_fast d DT_BYTE_STRING ptr len"
definition idmef_data_set_byte_string_dup where
  "idmef_data_set_byte_string_dup addr d ptr len = idmef_data_set_ptr_dup_fast addr d DT_BYTE_STRING ptr len"
definition idmef_data_set_byte_string_nodup where
  "idmef_data_set_byte_string_nodup d ptr len = idmef_data_set_ptr_nodup_fast d DT_BYTE_STRING ptr len"

section \<open>Copies\<close>

definition idmef_data_copy_ref :: "idmef_data \<Rightarrow> idmef_data \<Rightarrow> memory \<Rightarrow> (idmef_data \<times> memory) option" where
  "idmef_data_copy_ref src dst m =
     map_option (\<lambda>(d, m'). (d\<lparr>da_type := da_type src, da_len := da_len src, da_data := da_data src, da_own_data := False\<rparr>, m'))
       (idmef_data_destroy_internal dst m)"

text \<open>\<open>addr\<close> is the address for the copy of the string or of the time.\<close>

definition idmef_data_copy_dup :: "nat option \<Rightarrow> idmef_data \<Rightarrow> idmef_data \<Rightarrow> memory \<Rightarrow> (unit result \<times> idmef_data \<times> memory) option" where
  "idmef_data_copy_dup addr src dst m =
     Option.bind (idmef_data_destroy_internal dst m) (\<lambda>(d, m').
       let d1 = d\<lparr>da_type := da_type src, da_own_data := True, da_len := da_len src\<rparr> in
       if da_type src = DT_TIME then
         Option.bind (data_ptr src) (\<lambda>p. Option.bind p (\<lambda>t. map_option (\<lambda>time.
           case addr of None \<Rightarrow> (Inl PRELUDE_ERROR_ENOMEM, d1\<lparr>da_data := Ptr_Data None\<rparr>, m')
           | Some a \<Rightarrow> (case idmef_time_clone (\<lambda>_. True) time of Inl e \<Rightarrow> (Inl e, d1, m')
               | Inr copy \<Rightarrow> (Inr (), d1\<lparr>da_data := Ptr_Data (Some a)\<rparr>, put_time a (Some copy) m')))
           (mm_times m' t)))
       else if string_type (da_type src) then
         (case addr of None \<Rightarrow> Some (Inl PRELUDE_ERROR_GENERIC, d1\<lparr>da_data := Ptr_Data None\<rparr>, m')
          | Some a \<Rightarrow> Option.bind (data_ptr src) (\<lambda>p. map_option (\<lambda>bs.
              (Inr (), d1\<lparr>da_data := Ptr_Data (Some a)\<rparr>, put_block a (Some (Heap bs)) m')) (read_ptr p (da_len src) m')))
       else Some (Inr (), d1\<lparr>da_data := da_data src\<rparr>, m'))"

definition idmef_data_clone :: "bool \<Rightarrow> nat option \<Rightarrow> idmef_data \<Rightarrow> memory \<Rightarrow> (idmef_data result \<times> memory) option" where
  "idmef_data_clone mem_ok addr src = new_and_set mem_ok (idmef_data_copy_dup addr src)"

section \<open>Reading\<close>

definition idmef_data_get_type :: "idmef_data \<Rightarrow> data_type" where "idmef_data_get_type d = da_type d"
definition idmef_data_get_len :: "idmef_data \<Rightarrow> nat" where "idmef_data_get_len d = da_len d"
definition idmef_data_is_empty :: "idmef_data \<Rightarrow> bool" where "idmef_data_is_empty d = (da_len d = 0)"

text \<open>The bytes of a number in memory.\<close>

definition union_bytes :: "byte_order \<Rightarrow> data_union \<Rightarrow> byte list" where
  "union_bytes bo u = (case u of Char_Data c \<Rightarrow> [c] | Byte_Data c \<Rightarrow> [c] | Int_Data w \<Rightarrow> mem64 bo w | Float_Data w \<Rightarrow> mem32 bo w | Ptr_Data _ \<Rightarrow> [])"

text \<open>What \<open>idmef_data_get_data\<close> points to: nothing, an address, or the union itself.\<close>

datatype data_pointer = Null | At nat | Inside

definition idmef_data_get_data :: "idmef_data \<Rightarrow> data_pointer option" where
  "idmef_data_get_data d =
     (if da_type d = DT_UNKNOWN then Some Null
      else if string_type (da_type d) \<or> da_type d = DT_TIME then map_option (\<lambda>p. case p of None \<Rightarrow> Null | Some a \<Rightarrow> At a) (data_ptr d)
      else Some Inside)"

text \<open>\<open>memcmp\<close>: the sign of the first difference; undefined behind the end.\<close>

fun memcmp :: "byte list \<Rightarrow> byte list \<Rightarrow> nat \<Rightarrow> int option" where
  "memcmp _ _ 0 = Some 0"
| "memcmp (a # as) (b # bs) (Suc n) = (if a < b then Some (- 1) else if b < a then Some 1 else memcmp as bs n)"
| "memcmp _ _ (Suc n) = None"

definition idmef_data_compare :: "byte_order \<Rightarrow> memory \<Rightarrow> idmef_data option \<Rightarrow> idmef_data option \<Rightarrow> int option" where
  "idmef_data_compare bo m data1 data2 =
     (case (data1, data2) of
        (None, None) \<Rightarrow> Some 0
      | (Some _, None) \<Rightarrow> Some 1
      | (None, Some _) \<Rightarrow> Some (- 1)
      | (Some d1, Some d2) \<Rightarrow>
          if da_len d1 \<noteq> da_len d2 then Some (if da_len d2 < da_len d1 then 1 else - 1)
          else if da_type d1 \<noteq> da_type d2 then Some (- 1)
          else if da_type d1 = DT_TIME
          then Option.bind (data_ptr d1) (\<lambda>p. Option.bind (data_ptr d2) (\<lambda>q.
            let time = (\<lambda>p. case p of None \<Rightarrow> Some None | Some a \<Rightarrow> map_option Some (mm_times m a)) in
            Option.bind (time p) (\<lambda>t1. Option.bind (time q) (\<lambda>t2. Some (idmef_time_compare t1 t2)))))
          else if string_type (da_type d1)
          then Option.bind (data_ptr d1) (\<lambda>p. Option.bind (data_ptr d2) (\<lambda>q.
            Option.bind (read_ptr p (da_len d1) m) (\<lambda>x. Option.bind (read_ptr q (da_len d1) m) (\<lambda>y. memcmp x y (da_len d1)))))
          else memcmp (union_bytes bo (da_data d1)) (union_bytes bo (da_data d2)) (da_len d1))"

end
