(* ===== verification/Base64.thy ===== *)
theory Base64
  imports IdmefData
begin

text \<open>
  Data objects as text (\<open>src/idmef-data.c\<close>): strings of bytes are written in base 64. The text that was appended is decoded again by the
  usual reading of base 64.
\<close>

section \<open>Writing\<close>

definition b64tbl :: string where
  "b64tbl = ''ABCDEFGHIJKLMNOPQRSTUVWXYZabcdefghijklmnopqrstuvwxyz0123456789+/''"

definition b64 :: "nat \<Rightarrow> byte" where
  "b64 n = of_char (b64tbl ! (n AND 0x3f))"

text \<open>The four characters that are made of the next three bytes, or of the one or two that are left.\<close>

definition b64_group :: "byte list \<Rightarrow> byte list" where
  "b64_group src =
     (let s0 = unat (src ! 0); s1 = unat (src ! 1); s2 = unat (src ! 2); size = length src in
      [b64 (drop_bit 2 s0),
       b64 (push_bit 4 s0 + (if 1 < size then drop_bit 4 s1 else 0)),
       if 1 < size then b64 (push_bit 2 s1 + (if 2 < size then drop_bit 6 s2 else 0)) else of_char CHR ''='',
       if 2 < size then b64 s2 else of_char CHR ''=''])"

fun append_chars :: "(nat \<Rightarrow> bool) \<Rightarrow> prelude_string \<Rightarrow> byte list \<Rightarrow> (nat result \<times> prelude_string) option" where
  "append_chars mem_ok out [] = Some (Inr 0, out)"
| "append_chars mem_ok out (c # cs) =
     Option.bind (prelude_string_ncat mem_ok out [c] 1) (\<lambda>(ret, out').
       case ret of Inl e \<Rightarrow> Some (Inl e, out') | Inr _ \<Rightarrow> append_chars mem_ok out' cs)"

function bytes_to_string :: "(nat \<Rightarrow> bool) \<Rightarrow> prelude_string \<Rightarrow> byte list \<Rightarrow> (nat result \<times> prelude_string) option" where
  "bytes_to_string mem_ok out src =
     (if src = [] then Some (Inr 0, out)
      else Option.bind (append_chars mem_ok out (b64_group src)) (\<lambda>(ret, out').
        case ret of Inl e \<Rightarrow> Some (Inl e, out') | Inr _ \<Rightarrow> bytes_to_string mem_ok out' (drop 3 src)))"
  by pat_completeness auto
termination by (relation "measure (\<lambda>(mem_ok, out, src). length src)") auto

declare bytes_to_string.simps [simp del]

abbreviation text_bytes :: "string \<Rightarrow> byte list" where
  "text_bytes \<equiv> map of_char"

text \<open>\<open>fmt_f\<close> is the text of a float under the format \<open>%f\<close>. A null pointer to a time is an error.\<close>

definition idmef_data_to_string ::
  "(nat \<Rightarrow> bool) \<Rightarrow> (u32 \<Rightarrow> string) \<Rightarrow> memory \<Rightarrow> idmef_data \<Rightarrow> prelude_string \<Rightarrow> (nat result \<times> prelude_string) option" where
  "idmef_data_to_string mem_ok fmt_f m d out =
     (case (da_type d, da_data d) of
        (DT_UNKNOWN, _) \<Rightarrow> Some (Inr 0, out)
      | (DT_CHAR, Char_Data c) \<Rightarrow> prelude_string_sprintf mem_ok out (Some [c])
      | (DT_BYTE, Byte_Data c) \<Rightarrow> prelude_string_sprintf mem_ok out (Some (text_bytes (dec (unat c))))
      | (DT_UINT32, Int_Data w) \<Rightarrow> prelude_string_sprintf mem_ok out (Some (text_bytes (dec_int 0 (sint w))))
      | (DT_INT, Int_Data w) \<Rightarrow> prelude_string_sprintf mem_ok out (Some (text_bytes (dec_int 0 (sint w))))
      | (DT_FLOAT, Float_Data w) \<Rightarrow> prelude_string_sprintf mem_ok out (Some (text_bytes (fmt_f w)))
      | (DT_CHAR_STRING, Ptr_Data p) \<Rightarrow>
          (if da_len d = 0 then Some (Inr 0, out)
           else Option.bind (read_ptr p (da_len d - 1) m) (\<lambda>bs. prelude_string_ncat mem_ok out bs (da_len d - 1)))
      | (DT_BYTE_STRING, Ptr_Data p) \<Rightarrow> Option.bind (read_ptr p (da_len d) m) (bytes_to_string mem_ok out)
      | (DT_TIME, Ptr_Data p) \<Rightarrow>
          (case p of None \<Rightarrow> Some (Inl PRELUDE_ERROR_ASSERTION, out)
           | Some a \<Rightarrow> Option.bind (mm_times m a) (\<lambda>t. prelude_string_sprintf mem_ok out (Some (text_bytes (idmef_time_to_string t)))))
      | _ \<Rightarrow> None)"

section \<open>Reading base 64\<close>

fun base64 :: "byte list \<Rightarrow> byte list" where
  "base64 [] = []"
| "base64 [a] = b64_group [a]"
| "base64 [a, b] = b64_group [a, b]"
| "base64 (a # b # c # s) = b64_group [a, b, c] @ base64 s"

definition unb64 :: "byte \<Rightarrow> nat option" where
  "unb64 c = map_option fst (find (\<lambda>(i, d). of_char d = c) (enumerate 0 b64tbl))"

definition pad :: byte where "pad = of_char CHR ''=''"

text \<open>A group of four characters stands for 24 bits; one or two padding characters at the end take away one or two bytes.\<close>

fun decode64 :: "byte list \<Rightarrow> byte list option" where
  "decode64 [] = Some []"
| "decode64 (p # q # r # s # cs) =
     (case (unb64 p, unb64 q) of
        (Some i, Some j) \<Rightarrow>
          let a = word_of_nat ((i * 64 + j) div 16) in
          if r = pad then (if s = pad \<and> cs = [] then Some [a] else None)
          else (case unb64 r of None \<Rightarrow> None
            | Some k \<Rightarrow>
                let b = word_of_nat ((j * 64 + k) div 4) in
                if s = pad then (if cs = [] then Some [a, b] else None)
                else (case unb64 s of None \<Rightarrow> None | Some l \<Rightarrow> map_option (\<lambda>bs. a # b # word_of_nat (k * 64 + l) # bs) (decode64 cs)))
      | _ \<Rightarrow> None)"
| "decode64 _ = None"

lemma b64_table: "list_all (\<lambda>n. unb64 (b64 n) = Some n \<and> b64 n \<noteq> pad) [0..<64]"
  by code_simp

lemma and_63: "(n::nat) AND 0x3f = n mod 64"
  using take_bit_eq_mask [of 6 n] by (simp add: mask_eq_exp_minus_1 take_bit_eq_mod)

lemma unb64_b64: "unb64 (b64 n) = Some (n mod 64)" "b64 n \<noteq> pad"
proof -
  have m: "b64 n = b64 (n mod 64)" by (simp add: b64_def and_63)
  have "n mod 64 \<in> set [0..<64]" by simp
  then have "unb64 (b64 (n mod 64)) = Some (n mod 64) \<and> b64 (n mod 64) \<noteq> pad" using b64_table unfolding list_all_iff by blast
  then show "unb64 (b64 n) = Some (n mod 64)" "b64 n \<noteq> pad" unfolding m by simp_all
qed

lemma byte_bound: "unat (x :: byte) < 256"
  using unsigned_less [of x] by simp

lemma byte_of_nat: "n mod 256 = unat b \<Longrightarrow> word_of_nat n = (b :: byte)"
  by (simp add: word_unat_eq_iff unat_of_nat)

lemma first_byte: "x < 256 \<Longrightarrow> y < 16 \<Longrightarrow> (x div 4 mod 64 * 64 + (x * 16 + y) mod 64) div 16 = (x :: nat)"
proof -
  assume b: "x < 256" "y < 16"
  define q r where "q = x div 4" and "r = x mod 4"
  have q: "x = 4 * q + r" "q < 64" "r < 4" using b by (auto simp: q_def r_def)
  have "(x * 16 + y) mod 64 = (r * 16 + y + 64 * q) mod 64" by (simp add: q(1) algebra_simps)
  also have "\<dots> = r * 16 + y" using q b by (simp add: mod_mult_self2)
  finally show ?thesis using q b by simp
qed

lemma second_byte: "y < 256 \<Longrightarrow> z < 4 \<Longrightarrow> ((x * 16 + y div 16) mod 64 * 64 + (y * 4 + z) mod 64) div 4 mod 256 = (y :: nat)"
proof -
  assume b: "y < 256" "z < 4"
  define q r where "q = y div 16" and "r = y mod 16"
  have q: "y = 16 * q + r" "q < 16" "r < 16" using b by (auto simp: q_def r_def)
  define s t where "s = x div 4" and "t = x mod 4"
  have t: "x = 4 * s + t" "t < 4" by (auto simp: s_def t_def)
  have "(x * 16 + q) mod 64 = (t * 16 + q + 64 * s) mod 64" by (simp add: t(1) algebra_simps)
  also have "\<dots> = t * 16 + q" using q t by (simp add: mod_mult_self2)
  finally have 1: "(x * 16 + q) mod 64 = t * 16 + q" .
  have "(y * 4 + z) mod 64 = (r * 4 + z + 64 * q) mod 64" by (simp add: q(1) algebra_simps)
  also have "\<dots> = r * 4 + z" using q b by (simp add: mod_mult_self2)
  finally have 2: "(y * 4 + z) mod 64 = r * 4 + z" .
  have "((t * 16 + q) * 64 + (r * 4 + z)) div 4 = 256 * t + (16 * q + r)" using b by simp
  then show ?thesis using 1 2 q by (simp flip: q_def)
qed

lemma third_byte: "z < 256 \<Longrightarrow> ((y * 4 + z div 64) mod 64 * 64 + z mod 64) mod 256 = (z :: nat)"
proof -
  assume b: "z < 256"
  define q r where "q = z div 64" and "r = z mod 64"
  have q: "z = 64 * q + r" "q < 4" "r < 64" using b by (auto simp: q_def r_def)
  define s t where "s = y div 16" and "t = y mod 16"
  have t: "y = 16 * s + t" "t < 16" by (auto simp: s_def t_def)
  have "(y * 4 + q) mod 64 = (t * 4 + q + 64 * s) mod 64" by (simp add: t(1) algebra_simps)
  also have "\<dots> = t * 4 + q" using q t by (simp add: mod_mult_self2)
  finally have "((y * 4 + q) mod 64 * 64 + r) mod 256 = (64 * q + r + 256 * t) mod 256" by (simp add: algebra_simps)
  also have "\<dots> = z" using q by (simp add: mod_mult_self2)
  finally show ?thesis by (simp add: q_def r_def)
qed
lemma group_bytes:
  "word_of_nat ((unat (a :: byte) div 4 mod 64 * 64 + (unat a * 16 + 0) mod 64) div 16) = a"
  "word_of_nat ((unat a div 4 mod 64 * 64 + (unat a * 16 + unat (b :: byte) div 16) mod 64) div 16) = a"
  "word_of_nat (((unat a * 16 + unat b div 16) mod 64 * 64 + (unat b * 4 + 0) mod 64) div 4) = b"
  "word_of_nat (((unat a * 16 + unat b div 16) mod 64 * 64 + (unat b * 4 + unat (c :: byte) div 64) mod 64) div 4) = b"
  "word_of_nat ((unat b * 4 + unat c div 64) mod 64 * 64 + unat c mod 64) = c"
  using byte_bound [of a] byte_bound [of b] byte_bound [of c]
  by (intro byte_of_nat; subst first_byte second_byte third_byte; simp add: less_mult_imp_div_less)+

lemma decode_group: "decode64 (base64 src) = Some src"
proof (induction src rule: base64.induct)
  case (2 a)
  show ?case using group_bytes(1) [of a]
    by (simp add: b64_group_def Let_def unb64_b64 push_bit_eq_mult drop_bit_eq_div pad_def mult.commute)
next
  case (3 a b)
  show ?case using group_bytes(2,3) [where a = a and b = b] unb64_b64(2)
    by (simp add: b64_group_def Let_def unb64_b64(1) push_bit_eq_mult drop_bit_eq_div pad_def mult.commute)
next
  case (4 a b c s)
  show ?case using group_bytes(2) [where a = a and b = b] group_bytes(4) [where a = a and b = b and c = c] group_bytes(5) [where b = b and c = c] 4 unb64_b64(2)
    by (simp add: b64_group_def Let_def unb64_b64(1) push_bit_eq_mult drop_bit_eq_div pad_def mult.commute)
qed simp

section \<open>The text of a string of bytes\<close>

text \<open>A string that can be appended to; its size stays within three times its length.\<close>

definition growing :: "nat \<Rightarrow> prelude_string \<Rightarrow> bool" where
  "growing b s \<longleftrightarrow> str_ok s \<and> (str_own_data s \<or> str_data s = None) \<and> str_size s \<le> b \<and> 3 * str_index s + 8 \<le> b"

lemma ncat_one:
  assumes "growing b s" "b < 2 ^ 48"
  shows "\<exists>s'. prelude_string_ncat (\<lambda>_. True) s [c] 1 = Some (Inr 1, s') \<and> str_ok s' \<and> str_own_data s' \<and>
    str_val s' = str_val s @ [c] \<and> str_index s' = str_index s + 1 \<and> str_size s' \<le> b"
proof -
  have fits: "\<exists>s'. prelude_string_ncat (\<lambda>_. True) t [c] 1 = Some (Inr 1, s') \<and> str_ok s' \<and> str_own_data s' \<and>
      str_val s' = take (str_index t) d @ [c] \<and> str_index s' = str_index t + 1 \<and> str_size s' \<le> b"
    if "str_own_data t" "str_data t = Some d" "str_index t + 1 < str_size t" "str_size t \<le> length d" "str_size t \<le> b" for t d
    using ncat_fits [of t d 1 "[c]"] that assms(2) by (simp add: str_ok_def str_shape_def str_val_def nth_append)
  have s: "str_ok s" "str_own_data s \<or> str_data s = None" "str_size s \<le> b" "3 * str_index s + 8 \<le> b" "str_index s \<le> str_size s"
    using assms(1) by (auto simp: growing_def str_ok_def str_shape_def split: option.splits)
  show ?thesis
  proof (cases "str_own_data s \<and> 1 < size_sub (str_size s) (str_index s)")
    case True
    then obtain d where "str_data s = Some d" "str_index s + 1 < str_size s" "str_size s \<le> length d"
      using s assms(2) by (cases "str_data s") (auto simp: str_ok_def str_shape_def)
    then show ?thesis using fits [of s d] True s by (simp add: str_val_def)
  next
    case False
    then have short: "str_size s \<le> str_index s + 2" using s assms(2) by (auto simp: str_ok_def str_shape_def split: option.splits)
    obtain t d where t: "allocate_more_chunk_if_needed (\<lambda>_. True) s 2 = Some (Inr (), t)" "str_own_data t" "str_index t = str_index s"
        "str_data t = Some d" "str_index s + 2 \<le> str_size t" "str_size t \<le> length d" "str_size t \<le> 3 * str_size s + 2" "take (str_index s) d = str_val s"
      using allocate_more [of s 2] s(1) short by (auto simp: str_ok_def)
    have "str_size t \<le> b" using t(7) short s(4) by simp
    then have "\<exists>s'. prelude_string_ncat (\<lambda>_. True) t [c] 1 = Some (Inr 1, s') \<and> str_ok s' \<and> str_own_data s' \<and>
        str_val s' = str_val s @ [c] \<and> str_index s' = str_index s + 1 \<and> str_size s' \<le> b"
      using fits [OF t(2,4)] t(3,5,6,8) by simp
    moreover have "prelude_string_ncat (\<lambda>_. True) s [c] 1 = prelude_string_ncat (\<lambda>_. True) t [c] 1"
    proof -
      have "size_add 1 1 = 2" by simp
      then show ?thesis using False t(1) [unfolded numeral_2_eq_2] by (subst prelude_string_ncat.simps) auto
    qed
    ultimately show ?thesis by simp
  qed
qed

lemma append_chars_ok:
  "growing b out \<Longrightarrow> b < 2 ^ 48 \<Longrightarrow> 3 * (str_index out + length cs) + 8 \<le> b \<Longrightarrow>
     \<exists>out' n. append_chars (\<lambda>_. True) out cs = Some (Inr n, out') \<and> growing b out' \<and>
       str_val out' = str_val out @ cs \<and> str_index out' = str_index out + length cs"
proof (induction cs arbitrary: out)
  case (Cons c cs)
  obtain s' where s': "prelude_string_ncat (\<lambda>_. True) out [c] 1 = Some (Inr 1, s')" "str_ok s'" "str_own_data s'"
      "str_val s' = str_val out @ [c]" "str_index s' = str_index out + 1" "str_size s' \<le> b"
    using ncat_one [OF Cons.prems(1,2)] by blast
  then have "growing b s'" using Cons.prems(3) by (simp add: growing_def)
  then show ?case using Cons.IH [of s'] Cons.prems s' by auto
qed simp

lemma base64_step: "src \<noteq> [] \<Longrightarrow> base64 src = b64_group src @ base64 (drop 3 src)"
  by (cases src rule: base64.cases) (simp_all add: b64_group_def Let_def)

lemma length_b64_group [simp]: "length (b64_group src) = 4"
  by (simp add: b64_group_def Let_def)

lemma length_base64: "length (base64 src) = 4 * ((length src + 2) div 3)"
proof (induction src rule: base64.induct)
  case (4 a b c s)
  have "4 + 4 * ((n + 2) div 3) = 4 * ((Suc (Suc (Suc n)) + 2) div 3)" for n :: nat by presburger
  then show ?case using 4 by simp
qed simp_all

lemma bytes_to_string_ok:
  "growing b out \<Longrightarrow> b < 2 ^ 48 \<Longrightarrow> 3 * (str_index out + length (base64 src)) + 8 \<le> b \<Longrightarrow>
     \<exists>out' n. bytes_to_string (\<lambda>_. True) out src = Some (Inr n, out') \<and> growing b out' \<and> str_val out' = str_val out @ base64 src"
proof (induction src arbitrary: out rule: length_induct)
  case (1 src)
  show ?case
  proof (cases "src = []")
    case False
    have step: "base64 src = b64_group src @ base64 (drop 3 src)" using False by (rule base64_step)
    obtain out1 n where out1: "append_chars (\<lambda>_. True) out (b64_group src) = Some (Inr n, out1)" "growing b out1"
        "str_val out1 = str_val out @ b64_group src" "str_index out1 = str_index out + 4"
      using append_chars_ok [OF 1(2,3), of "b64_group src"] 1(4) step by auto
    have "length (drop 3 src) < length src" using False by simp
    then obtain out' n' where "bytes_to_string (\<lambda>_. True) out1 (drop 3 src) = Some (Inr n', out')" "growing b out'"
        "str_val out' = str_val out1 @ base64 (drop 3 src)"
      using 1(1) out1(2,4) 1(3,4) step by fastforce
    then show ?thesis using out1(1,3) step False by (subst bytes_to_string.simps) simp
  qed (use 1 in \<open>simp add: bytes_to_string.simps\<close>)
qed

text \<open>
  C19. The text that is appended for a string of bytes is terminated, follows the text that was there, and is decoded to the bytes; the string functions stay
  inside of their buffer.
\<close>

theorem base64_roundtrip:
  assumes "str_ok out" "str_own_data out \<or> str_data out = None" "str_size out + length src < 2 ^ 40"
    and "da_type d = DT_BYTE_STRING" "da_data d = Ptr_Data p" "read_ptr p (da_len d) m = Some src"
  shows "\<exists>out' n. idmef_data_to_string (\<lambda>_. True) fmt_f m d out = Some (Inr n, out') \<and> str_ok out' \<and>
    str_val out' = str_val out @ base64 src \<and> decode64 (base64 src) = Some src"
proof -
  have "str_index out \<le> str_size out" using assms(1) by (auto simp: str_ok_def str_shape_def split: option.splits)
  then have "growing (2 ^ 47) out" "3 * (str_index out + length (base64 src)) + 8 \<le> 2 ^ 47"
    using assms(1-3) by (simp_all add: growing_def length_base64)
  then obtain out' n where "bytes_to_string (\<lambda>_. True) out src = Some (Inr n, out')" "growing (2 ^ 47) out'" "str_val out' = str_val out @ base64 src"
    using bytes_to_string_ok [of "2 ^ 47" out src] by auto
  then show ?thesis using assms(4-6) decode_group by (simp add: idmef_data_to_string_def growing_def)
qed

definition sample_memory :: memory where
  "sample_memory = \<lparr>mm_blocks = [1 \<mapsto> Static [77, 97], 2 \<mapsto> Heap [77, 97]], mm_times = [3 \<mapsto> \<lparr>it_refcount = 1, it_sec = 0, it_usec = 0, it_gmt_offset = 0\<rparr>]\<rparr>"

definition sample_data :: idmef_data where
  "sample_data = new_data\<lparr>da_type := DT_BYTE_STRING, da_len := 2, da_data := Ptr_Data (Some 1)\<rparr>"

lemma base64_roundtrip_witness:
  "\<exists>out' n. idmef_data_to_string (\<lambda>_. True) (\<lambda>_. []) sample_memory sample_data empty_string = Some (Inr n, out') \<and> str_ok out' \<and>
    str_val out' = text_bytes ''TWE='' \<and> decode64 (text_bytes ''TWE='') = Some [77, 97]"
proof -
  have "base64 [77, 97] = text_bytes ''TWE=''" by code_simp
  moreover have "read_ptr (Some 1) (da_len sample_data) sample_memory = Some [77, 97]"
    by (simp add: read_ptr_def sample_memory_def sample_data_def block_bytes_def mem_read_def)
  moreover have "str_own_data empty_string \<or> str_data empty_string = None" "str_size empty_string = 0" by (simp_all add: empty_string_def)
  ultimately show ?thesis
    using base64_roundtrip [of empty_string "[77, 97]" sample_data "Some 1" sample_memory] by (simp add: sample_data_def)
qed

section \<open>Ownership\<close>

text \<open>Data that can be read: it has the value that its type promises.\<close>

definition readable :: "memory \<Rightarrow> byte_order \<Rightarrow> idmef_data \<Rightarrow> bool" where
  "readable m bo d \<longleftrightarrow>
     (if string_type (da_type d) then (case da_data d of Ptr_Data p \<Rightarrow> read_ptr p (da_len d) m \<noteq> None | _ \<Rightarrow> False)
      else if da_type d = DT_TIME then (case da_data d of Ptr_Data (Some a) \<Rightarrow> mm_times m a \<noteq> None | _ \<Rightarrow> False)
      else da_len d \<le> length (union_bytes bo (da_data d)))"

lemma memcmp_same: "n \<le> length x \<Longrightarrow> memcmp x x n = Some 0"
proof (induction n arbitrary: x)
  case (Suc n)
  then show ?case by (cases x) auto
qed simp

lemma memcmp_prefix: "memcmp (x @ y) (x @ z) (length x) = Some 0"
  by (induction x) auto

lemma time_compare_clone:
  "idmef_time_compare (Some t) (Some \<lparr>it_refcount = n, it_sec = it_sec t, it_usec = it_usec t, it_gmt_offset = it_gmt_offset t\<rparr>) = 0"
  by (simp add: idmef_time_compare_def)

lemma read_ptr_put [simp]: "mm_blocks m a = None \<Longrightarrow> read_ptr p n m = Some bs \<Longrightarrow> read_ptr p n (put_block a b m) = Some bs"
  by (auto simp: read_ptr_def put_block_def bind_eq_Some_conv)

lemma read_ptr_length: "read_ptr p n m = Some bs \<Longrightarrow> length bs = n"
  by (auto simp: read_ptr_def bind_eq_Some_conv dest: mem_read_length)

text \<open>
  C20. A clone compares as equal with its source, on a host of either byte order, whatever they hold; it owns what was allocated for it, so that destroying it
  leaves the memory as it was.
\<close>

theorem data_clone:
  assumes "readable m bo src" "mm_blocks m a = None" "mm_times m a = None"
  shows "\<exists>d m'. idmef_data_clone True (Some a) src m = Some (Inr d, m') \<and> idmef_data_compare bo m' (Some src) (Some d) = Some 0 \<and>
    idmef_data_destroy d m' = Some (None, m)"
proof -
  note def = idmef_data_clone_def new_and_set_def idmef_data_new_def new_data_def idmef_data_copy_dup_def idmef_data_destroy_internal_def string_type_def
    idmef_data_compare_def idmef_data_destroy_def data_ptr_def free_ptr_def
  consider "string_type (da_type src)" | "da_type src = DT_TIME" | "\<not> string_type (da_type src)" "da_type src \<noteq> DT_TIME" by blast
  then show ?thesis
  proof cases
    case 1
    then obtain p bs where p: "da_data src = Ptr_Data p" "read_ptr p (da_len src) m = Some bs"
      using assms(1) by (auto simp: readable_def split: data_union.splits)
    have bs: "memcmp bs bs (da_len src) = Some 0" using read_ptr_length [OF p(2)] by (simp add: memcmp_same)
    have same: "read_ptr p (da_len src) (put_block a (Some (Heap bs)) m) = Some bs" using assms(2) p(2) by simp
    have new: "read_ptr (Some a) (da_len src) (put_block a (Some (Heap bs)) m) = Some bs"
      using read_ptr_length [OF p(2)] by (simp add: read_ptr_def put_block_def block_bytes_def mem_read_def)
    have gone: "put_block a None (put_block a (Some (Heap bs)) m) = m" using assms(2) by (simp add: put_block_def fun_upd_idem)
    have at: "mm_blocks (put_block a (Some (Heap bs)) m) a = Some (Heap bs)" by (simp add: put_block_def)
    let ?m = "put_block a (Some (Heap bs)) m"
    let ?d = "new_data\<lparr>da_type := da_type src, da_own_data := True, da_len := da_len src, da_data := Ptr_Data (Some a)\<rparr>"
    have type: "da_type src \<noteq> DT_TIME" using 1 by (auto simp: string_type_def)
    have "idmef_data_clone True (Some a) src m = Some (Inr ?d, ?m)" using 1 p type by (simp add: def)
    moreover have "idmef_data_compare bo ?m (Some src) (Some ?d) = Some 0"
      using 1 p type same new bs by (simp add: idmef_data_compare_def data_ptr_def)
    moreover have "idmef_data_destroy ?d ?m = Some (None, m)" using 1 type at gone by (simp add: def)
    ultimately show ?thesis by blast
  next
    case 2
    then obtain b t where t: "da_data src = Ptr_Data (Some b)" "mm_times m b = Some t"
      using assms(1) by (auto simp: readable_def string_type_def split: data_union.splits option.splits)
    let ?m = "put_time a (Some (idmef_time_copy t \<lparr>it_refcount = 1, it_sec = 0, it_usec = 0, it_gmt_offset = 0\<rparr>)) m"
    have at: "mm_times ?m b = Some t" "b \<noteq> a" using t assms(3) by (auto simp: put_time_def)
    have gone: "put_time a None ?m = m" using assms(3) by (simp add: put_time_def fun_upd_idem)
    show ?thesis using 2 t at gone time_compare_clone [of t]
      by (simp add: def idmef_time_clone_def idmef_time_new_def destroy_time_ptr_def) (simp add: put_time_def idmef_time_destroy_def idmef_time_copy_def)
  next
    case 3
    then have "memcmp (union_bytes bo (da_data src)) (union_bytes bo (da_data src)) (da_len src) = Some 0"
      using assms(1) by (simp add: readable_def memcmp_same)
    then show ?thesis using 3 by (simp add: def)
  qed
qed

lemma data_clone_witness:
  "\<exists>d m'. idmef_data_clone True (Some 5) sample_data sample_memory = Some (Inr d, m') \<and>
    idmef_data_compare Little_Endian m' (Some sample_data) (Some d) = Some 0 \<and> idmef_data_destroy d m' = Some (None, sample_memory)"
proof -
  have "readable sample_memory Little_Endian sample_data"
    by (simp add: readable_def sample_data_def sample_memory_def string_type_def read_ptr_def block_bytes_def mem_read_def)
  moreover have "mm_blocks sample_memory 5 = None" "mm_times sample_memory 5 = None" by (simp_all add: sample_memory_def)
  ultimately show ?thesis by (rule data_clone)
qed

text \<open>The number \<open>v\<close> as a data object, and two others.\<close>

definition int_data :: "nat \<Rightarrow> u64 \<Rightarrow> idmef_data" where
  "int_data n v = new_data\<lparr>da_type := DT_INT, da_len := n, da_data := Int_Data v\<rparr>"

definition owning_data :: idmef_data where
  "owning_data = new_data\<lparr>da_type := DT_BYTE_STRING, da_own_data := True, da_len := 2, da_data := Ptr_Data (Some 2)\<rparr>"

definition owning_time :: idmef_data where
  "owning_time = new_data\<lparr>da_type := DT_TIME, da_own_data := True, da_len := 1, da_data := Ptr_Data (Some 3)\<rparr>"

text \<open>
  Defects: a reference over data that was owned is freed with the object though it belongs to the program; when the memory for a copy is missing
  after a time was dropped, the time is dropped again; numbers are ordered by their first byte in memory, and on a big endian host 32 bit numbers are all
  equal; data of different types are each less than the other; an unsigned 64 bit number is written as a negative one.
\<close>

theorem data_defects:
  "Option.bind (idmef_data_set_byte_string_ref owning_data (Some 1) 2 sample_memory) (\<lambda>(r, d, m). idmef_data_destroy d m) = None \<and>
   Option.bind (idmef_data_set_byte_string_dup None owning_time (Some 1) 2 sample_memory) (\<lambda>(r, d, m). idmef_data_destroy d m) = None \<and>
   idmef_data_compare Little_Endian m (Some (int_data 8 256)) (Some (int_data 8 1)) = Some (- 1) \<and>
   idmef_data_set_uint32 v new_data m = Some (int_data 4 (ucast v), m) \<and>
   idmef_data_compare Big_Endian m (Some (int_data 4 (ucast (v :: u32)))) (Some (int_data 4 (ucast (w :: u32)))) = Some 0 \<and>
   idmef_data_compare bo m (Some (new_data\<lparr>da_type := DT_CHAR\<rparr>)) (Some (new_data\<lparr>da_type := DT_BYTE\<rparr>)) = Some (- 1) \<and>
   idmef_data_compare bo m (Some (new_data\<lparr>da_type := DT_BYTE\<rparr>)) (Some (new_data\<lparr>da_type := DT_CHAR\<rparr>)) = Some (- 1) \<and>
   idmef_data_to_string mem_ok fmt_f m (int_data 8 (2 ^ 63)) out =
     prelude_string_sprintf mem_ok out (Some (text_bytes (dec_int 0 (- (2 ^ 63)))))"
proof (intro conjI)
  note def = idmef_data_set_byte_string_ref_def idmef_data_set_ptr_ref_fast_def idmef_data_set_byte_string_dup_def idmef_data_set_ptr_dup_fast_def
    idmef_data_destroy_def idmef_data_destroy_internal_def string_type_def data_ptr_def free_ptr_def destroy_time_ptr_def new_data_def
  show "Option.bind (idmef_data_set_byte_string_ref owning_data (Some 1) 2 sample_memory) (\<lambda>(r, d, m). idmef_data_destroy d m) = None"
    by (simp add: def owning_data_def sample_memory_def put_block_def)
  show "Option.bind (idmef_data_set_byte_string_dup None owning_time (Some 1) 2 sample_memory) (\<lambda>(r, d, m). idmef_data_destroy d m) = None"
    by (simp add: def owning_time_def sample_memory_def put_time_def idmef_time_destroy_def)
  have le: "mem64 Little_Endian 256 = [0, 1, 0, 0, 0, 0, 0, 0]" "mem64 Little_Endian 1 = [1, 0, 0, 0, 0, 0, 0, 0]" by code_simp+
  have lt: "(0 :: byte) < 1" by simp
  show "idmef_data_compare Little_Endian m (Some (int_data 8 256)) (Some (int_data 8 1)) = Some (- 1)"
    using lt by (simp add: idmef_data_compare_def int_data_def string_type_def union_bytes_def le eval_nat_numeral)
  show "idmef_data_set_uint32 v new_data m = Some (int_data 4 (ucast v), m)"
    by (simp add: idmef_data_set_uint32_def set_scalar_def def int_data_def)
  have high: "ucast (drop_bit 32 (ucast (x :: u32) :: u64)) = (0 :: u32)" for x by (rule bit_word_eqI) (auto simp: bit_simps dest: bit_imp_le_length)
  show "idmef_data_compare Big_Endian m (Some (int_data 4 (ucast v))) (Some (int_data 4 (ucast w))) = Some 0"
    using memcmp_prefix [of "be32 0" "be32 (ucast (ucast v :: u64))" "be32 (ucast (ucast w :: u64))"]
    by (simp add: idmef_data_compare_def int_data_def string_type_def union_bytes_def mem64_def be64_def high)
qed (simp_all add: idmef_data_compare_def new_data_def string_type_def int_data_def idmef_data_to_string_def)

end
