(* ===== verification/IdmefValueType.thy ===== *)
theory IdmefValueType
  imports Base64 Criteria IdmefClass
begin

text \<open>
  Typed values (\<open>src/idmef-value-type.c\<close>): reading them from text, writing, comparing under an operator, through a table of the operations of each type.
  Parameters are gathered in a record: the byte order of the host, the memory of data objects, \<open>fnmatch\<close>, the conversions of floating point numbers, the
  time zone, and the generated operations of the message classes. A null pointer is \<open>None\<close>.
\<close>

section \<open>Values\<close>

primrec vt_num :: "value_type \<Rightarrow> int" where
  "vt_num VT_UNKNOWN = 0"
| "vt_num VT_INT8 = 1"
| "vt_num VT_UINT8 = 2"
| "vt_num VT_INT16 = 3"
| "vt_num VT_UINT16 = 4"
| "vt_num VT_INT32 = 5"
| "vt_num VT_UINT32 = 6"
| "vt_num VT_INT64 = 7"
| "vt_num VT_UINT64 = 8"
| "vt_num VT_FLOAT = 9"
| "vt_num VT_DOUBLE = 10"
| "vt_num VT_STRING = 11"
| "vt_num VT_TIME = 12"
| "vt_num VT_DATA = 13"
| "vt_num VT_ENUM = 14"
| "vt_num VT_LIST = 15"
| "vt_num VT_CLASS = 16"

text \<open>The union: a number of the width of its type, the bits of a floating point number, an enumeration value with its class, pointers.\<close>

datatype 'o vt_data =
    VD_int int | VD_bits u64 | VD_enum int int | VD_string "prelude_string option" | VD_time "idmef_time option"
  | VD_data "idmef_data option" | VD_class int 'o

record 'o idmef_value_type =
  vt_id :: int
  vt_data :: "'o vt_data"

record 'o environment =
  en_order :: byte_order
  en_memory :: memory
  en_fnmatch :: "bool \<Rightarrow> byte list \<Rightarrow> byte list \<Rightarrow> bool"
  en_strtod :: "string \<Rightarrow> u64 \<times> string \<times> bool"
  en_float_text :: "value_type \<Rightarrow> u64 \<Rightarrow> string"
  en_data_float :: "u32 \<Rightarrow> string"
  en_mktime :: "tm \<Rightarrow> int"
  en_enum_to_string :: "int \<Rightarrow> int \<Rightarrow> byte list option"
  en_class_compare :: "int \<Rightarrow> 'o \<Rightarrow> 'o \<Rightarrow> int"
  en_class_write :: "int \<Rightarrow> 'o \<Rightarrow> prelude_string \<Rightarrow> (nat result \<times> prelude_string) option"

section \<open>Reading\<close>

text \<open>The macro for integers: the conversion, the type of the temporary variable, and the bounds.\<close>

definition int_read :: "(string \<Rightarrow> int \<times> string \<times> bool) \<Rightarrow> (int \<Rightarrow> int) \<Rightarrow> int \<Rightarrow> int \<Rightarrow> string \<Rightarrow> 'o vt_data result" where
  "int_read rfunc tmp_type lo hi buf =
     (case rfunc buf of (n, rest, erange) \<Rightarrow>
        let tmp = tmp_type n in
        if rest = buf \<or> rest \<noteq> [] \<or> tmp < lo \<or> hi < tmp \<or> erange then Inl PRELUDE_ERROR_IDMEF_VALUE_TYPE_PARSE
        else Inr (VD_int tmp))"

abbreviation signed_tmp :: "nat \<Rightarrow> int \<Rightarrow> int" where "signed_tmp w \<equiv> signed_take_bit (w - 1)"
abbreviation unsigned_tmp :: "nat \<Rightarrow> int \<Rightarrow> int" where "unsigned_tmp w \<equiv> take_bit w"

definition int8_read :: "string \<Rightarrow> 'o vt_data result" where
  "int8_read = int_read strtol_range (signed_tmp 32) (- 128) 127"
definition uint8_read :: "string \<Rightarrow> 'o vt_data result" where
  "uint8_read = int_read strtol_range (unsigned_tmp 32) 0 255"
definition int16_read :: "string \<Rightarrow> 'o vt_data result" where
  "int16_read = int_read strtol_range (signed_tmp 32) (- 32768) 32767"
definition uint16_read :: "string \<Rightarrow> 'o vt_data result" where
  "uint16_read = int_read strtoul_range (unsigned_tmp 32) 0 65535"
definition int32_read :: "string \<Rightarrow> 'o vt_data result" where
  "int32_read = int_read strtol_range (signed_tmp 64) (- (2 ^ 31)) (2 ^ 31 - 1)"
definition uint32_read :: "string \<Rightarrow> 'o vt_data result" where
  "uint32_read = int_read strtoul_range (unsigned_tmp 64) 0 (2 ^ 32 - 1)"
definition int64_read :: "string \<Rightarrow> 'o vt_data result" where
  "int64_read = int_read strtol_range (signed_tmp 64) (- (2 ^ 63)) (2 ^ 63 - 1)"
definition uint64_read :: "string \<Rightarrow> 'o vt_data result" where
  "uint64_read = int_read strtoul_range (unsigned_tmp 64) 0 (2 ^ 64 - 1)"

text \<open>The macro for floating point numbers; the narrowing to \<open>float\<close> is part of the parameter.\<close>

definition float_read :: "'o environment \<Rightarrow> string \<Rightarrow> 'o vt_data result" where
  "float_read env buf = (case en_strtod env buf of (bits, rest, erange) \<Rightarrow>
     if rest = buf \<or> rest \<noteq> [] \<or> erange then Inl PRELUDE_ERROR_IDMEF_VALUE_TYPE_PARSE else Inr (VD_bits bits))"

text \<open>\<open>sscanf\<close> with \<open>%d\<close>; the class of the enumeration is the one that was there.\<close>

definition scan_d :: "string \<Rightarrow> int option" where
  "scan_d buf =
     (let t = dropWhile isspace buf; u = (if t \<noteq> [] \<and> hd t \<in> set ''+-'' then tl t else t); n = int (fst (scan 10 (length u) 0 u)) in
      if \<not> starts_digit 10 u then None
      else Some (signed_take_bit 31 (max (- (2 ^ 63)) (min (2 ^ 63 - 1) (if hd t = CHR ''-'' then - n else n)))))"

definition enum_read :: "int \<Rightarrow> string \<Rightarrow> 'o vt_data result" where
  "enum_read cls buf = (case scan_d buf of None \<Rightarrow> Inl PRELUDE_ERROR_IDMEF_VALUE_TYPE_PARSE | Some n \<Rightarrow> Inr (VD_enum n cls))"

definition time_read :: "'o environment \<Rightarrow> string \<Rightarrow> 'o vt_data result option" where
  "time_read env buf =
     (case idmef_time_new_from_ntpstamp (\<lambda>_. True) buf of (ret, t) \<Rightarrow>
        if ret = Inr 0 then Some (Inr (VD_time t))
        else map_option (\<lambda>(ret, t). if ret = Inr 0 then Inr (VD_time t) else Inl PRELUDE_ERROR_IDMEF_VALUE_TYPE_PARSE)
          (idmef_time_new_from_string (\<lambda>_. True) (en_mktime env) buf))"

definition string_read :: "string \<Rightarrow> 'o vt_data result option" where
  "string_read buf = map_option (\<lambda>(r, s). map_sum id (\<lambda>_. VD_string s) r) (prelude_string_new_dup (\<lambda>_. True) (text_bytes buf @ [0]))"

section \<open>Comparing\<close>

text \<open>The bytes of the union, as far as the type determines them.\<close>

definition vt_bytes :: "byte_order \<Rightarrow> nat \<Rightarrow> 'o vt_data \<Rightarrow> byte list option" where
  "vt_bytes bo sz d =
     (case d of
        VD_int z \<Rightarrow>
          if sz = 1 then Some [word_of_int z] else if sz = 2 then Some (mem16 bo (word_of_int z))
          else if sz = 4 then Some (mem32 bo (word_of_int z)) else if sz = 8 then Some (mem64 bo (word_of_int z)) else None
      | VD_bits w \<Rightarrow> if sz = 4 then Some (mem32 bo (ucast w)) else if sz = 8 then Some (mem64 bo w) else None
      | VD_enum z c \<Rightarrow> if sz = 8 then Some (mem32 bo (word_of_int z) @ mem32 bo (word_of_int c)) else None
      | _ \<Rightarrow> None)"

definition op_holds :: "u32 \<Rightarrow> int \<Rightarrow> bool" where
  "op_holds op ret \<longleftrightarrow> ret = 0 \<and> op AND OP_EQUAL \<noteq> 0 \<or> ret < 0 \<and> op AND OP_LESSER \<noteq> 0 \<or> 0 < ret \<and> op AND OP_GREATER \<noteq> 0"

type_synonym 'o compare_fn = "'o idmef_value_type option \<Rightarrow> 'o idmef_value_type option \<Rightarrow> nat \<Rightarrow> u32 \<Rightarrow> int option"

definition generic_compare :: "'o environment \<Rightarrow> 'o compare_fn" where
  "generic_compare env t1 t2 sz op =
     (case (t1, t2) of
        (Some v1, Some v2) \<Rightarrow>
          Option.bind (vt_bytes (en_order env) sz (vt_data v1)) (\<lambda>x. Option.bind (vt_bytes (en_order env) sz (vt_data v2)) (\<lambda>y.
            map_option (\<lambda>ret. if op_holds op ret then 0 else - 1) (memcmp x y sz)))
      | (None, None) \<Rightarrow> None
      | _ \<Rightarrow> Some (- 1))"

definition lower_byte :: "byte \<Rightarrow> byte" where
  "lower_byte c = (if 65 \<le> c \<and> c \<le> 90 then c + 32 else c)"

text \<open>Two null pointers reach the string functions, which is undefined.\<close>

definition charstring_compare :: "'o environment \<Rightarrow> byte list option \<Rightarrow> byte list option \<Rightarrow> u32 \<Rightarrow> int option" where
  "charstring_compare env s1 s2 op =
     (if (s1 = None) \<noteq> (s2 = None) then Some (- 1)
      else if op \<notin> {OP_EQUAL OR OP_NOCASE, OP_EQUAL, OP_SUBSTR OR OP_NOCASE, OP_SUBSTR} then Some (- 1)
      else Option.bind s1 (\<lambda>x. Option.bind s2 (\<lambda>y.
        if 0 \<notin> set x \<or> 0 \<notin> set y then None
        else let x = c_string x; y = c_string y;
                 hit = (if op = OP_EQUAL OR OP_NOCASE then map lower_byte x = map lower_byte y
                        else if op = OP_EQUAL then x = y
                        else en_fnmatch env (op = OP_SUBSTR OR OP_NOCASE) y x)
             in Some (if hit then 0 else - 1))))"

definition string_of :: "'o idmef_value_type option \<Rightarrow> byte list option option" where
  "string_of t = (case t of None \<Rightarrow> Some None
     | Some v \<Rightarrow> (case vt_data v of VD_string s \<Rightarrow> Some (Option.bind s prelude_string_get_string) | _ \<Rightarrow> None))"

definition string_compare :: "'o environment \<Rightarrow> 'o compare_fn" where
  "string_compare env t1 t2 sz op =
     Option.bind (string_of t1) (\<lambda>s1. Option.bind (string_of t2) (\<lambda>s2. charstring_compare env s1 s2 op))"

definition enum_compare :: "'o environment \<Rightarrow> 'o compare_fn" where
  "enum_compare env src dst sz op =
     (case (src, dst) of
        (Some s, Some d) \<Rightarrow>
          if vt_id d = vt_num VT_STRING
          then (case vt_data s of
                  VD_enum z c \<Rightarrow> (case en_enum_to_string env c z of
                      None \<Rightarrow> Some (- 1)
                    | Some text \<Rightarrow> Option.bind (string_of dst) (\<lambda>s2. charstring_compare env (Some text) s2 op))
                | _ \<Rightarrow> None)
          else generic_compare env src dst sz op
      | (None, None) \<Rightarrow> None
      | _ \<Rightarrow> Some (- 1))"

definition time_compare :: "'o compare_fn" where
  "time_compare t1 t2 sz op =
     (case (t1, t2) of
        (Some v1, Some v2) \<Rightarrow> (case (vt_data v1, vt_data v2) of
            (VD_time x, VD_time y) \<Rightarrow> Some (if op_holds op (idmef_time_compare x y) then 0 else - 1)
          | _ \<Rightarrow> None)
      | (None, None) \<Rightarrow> None
      | _ \<Rightarrow> Some (- 1))"

definition data_of :: "'o idmef_value_type option \<Rightarrow> idmef_data option option" where
  "data_of t = (case t of None \<Rightarrow> Some None | Some v \<Rightarrow> (case vt_data v of VD_data d \<Rightarrow> Some d | _ \<Rightarrow> None))"

text \<open>The bytes that \<open>memmem\<close> gets, \<open>None\<close> inside for a null pointer.\<close>

definition data_bytes :: "'o environment \<Rightarrow> idmef_data option \<Rightarrow> byte list option option" where
  "data_bytes env d =
     (case d of None \<Rightarrow> Some None
      | Some x \<Rightarrow> Option.bind (idmef_data_get_data x) (\<lambda>p. case p of
          Null \<Rightarrow> Some None
        | At a \<Rightarrow> map_option Some (read_ptr (Some a) (idmef_data_get_len x) (en_memory env))
        | Inside \<Rightarrow> map_option Some (mem_read (union_bytes (en_order env) (da_data x)) 0 (idmef_data_get_len x))))"

fun memmem :: "byte list \<Rightarrow> byte list \<Rightarrow> bool" where
  "memmem hay needle = (take (length needle) hay = needle \<or> (case hay of [] \<Rightarrow> False | _ # hay' \<Rightarrow> memmem hay' needle))"

definition data_compare :: "'o environment \<Rightarrow> 'o compare_fn" where
  "data_compare env t1 t2 len op =
     Option.bind (data_of t1) (\<lambda>d1. Option.bind (data_of t2) (\<lambda>d2.
     Option.bind (data_bytes env d1) (\<lambda>s1. Option.bind (data_bytes env d2) (\<lambda>s2.
       if (s1 = None) \<noteq> (s2 = None) then Some (- 1)
       else if t1 = None \<or> t2 = None then None
       else if op AND OP_SUBSTR \<noteq> 0
       then Option.bind s1 (\<lambda>x. map_option (\<lambda>y. if memmem x y then 0 else - 1) s2)
       else map_option (\<lambda>ret. if op_holds op ret then 0 else - 1) (idmef_data_compare (en_order env) (en_memory env) d1 d2)))))"

definition class_compare :: "'o environment \<Rightarrow> 'o compare_fn" where
  "class_compare env c1 c2 len op =
     (case (c1, c2) of
        (Some v1, Some v2) \<Rightarrow> (case (vt_data v1, vt_data v2) of
            (VD_class i x, VD_class j y) \<Rightarrow> Some (en_class_compare env i x y)
          | _ \<Rightarrow> None)
      | (None, None) \<Rightarrow> None
      | _ \<Rightarrow> Some (- 1))"

section \<open>The table\<close>

record 'o operations =
  op_name :: string
  op_len :: nat
  op_operator :: u32
  op_compare :: "'o compare_fn option"
  op_read :: "('o vt_data \<Rightarrow> string \<Rightarrow> 'o vt_data result option) option"
  op_write :: "('o vt_data \<Rightarrow> prelude_string \<Rightarrow> (nat result \<times> prelude_string) option) option"

abbreviation CLASS_OPERATOR :: u32 where "CLASS_OPERATOR \<equiv> OP_NULL OR OP_NOT OR OP_EQUAL"
abbreviation DATA_OPERATOR :: u32 where "DATA_OPERATOR \<equiv> OP_EQUAL OR OP_NOT OR OP_LESSER OR OP_GREATER OR OP_SUBSTR"
abbreviation TIME_OPERATOR :: u32 where "TIME_OPERATOR \<equiv> OP_LESSER OR OP_GREATER OR OP_EQUAL OR OP_NOT"
abbreviation STRING_OPERATOR :: u32 where "STRING_OPERATOR \<equiv> OP_SUBSTR OR OP_EQUAL OR OP_NOT OR OP_NOCASE"
abbreviation INTEGER_OPERATOR :: u32 where "INTEGER_OPERATOR \<equiv> OP_LESSER OR OP_GREATER OR OP_EQUAL OR OP_NOT"
abbreviation ENUM_OPERATOR :: u32 where "ENUM_OPERATOR \<equiv> STRING_OPERATOR OR INTEGER_OPERATOR"

definition int_write :: "'o vt_data \<Rightarrow> prelude_string \<Rightarrow> (nat result \<times> prelude_string) option" where
  "int_write d out = (case d of VD_int z \<Rightarrow> prelude_string_sprintf (\<lambda>_. True) out (Some (text_bytes (dec_int 0 z))) | _ \<Rightarrow> None)"

definition float_write :: "'o environment \<Rightarrow> value_type \<Rightarrow> 'o vt_data \<Rightarrow> prelude_string \<Rightarrow> (nat result \<times> prelude_string) option" where
  "float_write env t d out =
     (case d of VD_bits w \<Rightarrow> prelude_string_sprintf (\<lambda>_. True) out (Some (text_bytes (en_float_text env t w))) | _ \<Rightarrow> None)"

definition enum_write :: "'o environment \<Rightarrow> 'o vt_data \<Rightarrow> prelude_string \<Rightarrow> (nat result \<times> prelude_string) option" where
  "enum_write env d out =
     (case d of VD_enum z c \<Rightarrow> (case en_enum_to_string env c z of
          None \<Rightarrow> Some (Inl PRELUDE_ERROR_IDMEF_VALUE_TYPE_PARSE, out)
        | Some str \<Rightarrow> prelude_string_cat (\<lambda>_. True) out str)
      | _ \<Rightarrow> None)"

definition time_write :: "'o vt_data \<Rightarrow> prelude_string \<Rightarrow> (nat result \<times> prelude_string) option" where
  "time_write d out =
     (case d of VD_time t \<Rightarrow> (case t of
          None \<Rightarrow> Some (Inl PRELUDE_ERROR_ASSERTION, out)
        | Some x \<Rightarrow> prelude_string_sprintf (\<lambda>_. True) out (Some (text_bytes (idmef_time_to_string x))))
      | _ \<Rightarrow> None)"

definition string_write :: "'o vt_data \<Rightarrow> prelude_string \<Rightarrow> (nat result \<times> prelude_string) option" where
  "string_write d out =
     (case d of VD_string s \<Rightarrow> Option.bind s (\<lambda>x.
        Option.bind (prelude_string_get_string_or_default x (Some (text_bytes ''<empty>'' @ [0]))) (\<lambda>str.
          if 0 \<in> set str then prelude_string_sprintf (\<lambda>_. True) out (Some (c_string str)) else None))
      | _ \<Rightarrow> None)"

definition data_write :: "'o environment \<Rightarrow> 'o vt_data \<Rightarrow> prelude_string \<Rightarrow> (nat result \<times> prelude_string) option" where
  "data_write env d out =
     (case d of VD_data x \<Rightarrow> (case x of
          None \<Rightarrow> Some (Inl PRELUDE_ERROR_ASSERTION, out)
        | Some y \<Rightarrow> idmef_data_to_string (\<lambda>_. True) (en_data_float env) (en_memory env) y out)
      | _ \<Rightarrow> None)"

definition class_write :: "'o environment \<Rightarrow> 'o vt_data \<Rightarrow> prelude_string \<Rightarrow> (nat result \<times> prelude_string) option" where
  "class_write env d out = (case d of VD_class i x \<Rightarrow> en_class_write env i x out | _ \<Rightarrow> None)"

text \<open>
  \<open>data_read\<close> copies the text with its terminating zero to a new block; the copy is what the parameter \<open>copy\<close> makes of the bytes. Functions that
  only manage memory are left out of the table.
\<close>

definition ops_tbl :: "'o environment \<Rightarrow> (byte list \<Rightarrow> idmef_data result) \<Rightarrow> 'o operations list" where
  "ops_tbl env copy =
     (let row = (\<lambda>n l ops c r w. \<lparr>op_name = n, op_len = l, op_operator = ops, op_compare = c, op_read = r, op_write = w\<rparr>);
          int_row = (\<lambda>n l read. row n l INTEGER_OPERATOR (Some (generic_compare env)) (Some (\<lambda>_ buf. Some (read buf))) (Some int_write))
      in [row ''unknown'' 0 0 None None None,
          int_row ''int8'' 1 int8_read, int_row ''uint8'' 1 uint8_read, int_row ''int16'' 2 int16_read, int_row ''uint16'' 2 uint16_read,
          int_row ''int32'' 4 int32_read, int_row ''uint32'' 4 uint32_read, int_row ''int64'' 8 int64_read, int_row ''uint64'' 8 uint64_read,
          row ''float'' 4 INTEGER_OPERATOR (Some (generic_compare env)) (Some (\<lambda>_ buf. Some (float_read env buf))) (Some (float_write env VT_FLOAT)),
          row ''double'' 8 INTEGER_OPERATOR (Some (generic_compare env)) (Some (\<lambda>_ buf. Some (float_read env buf))) (Some (float_write env VT_DOUBLE)),
          row ''string'' 0 STRING_OPERATOR (Some (string_compare env)) (Some (\<lambda>_ buf. string_read buf)) (Some string_write),
          row ''time'' 0 TIME_OPERATOR (Some time_compare) (Some (\<lambda>_ buf. time_read env buf)) (Some time_write),
          row ''data'' 0 DATA_OPERATOR (Some (data_compare env))
            (Some (\<lambda>_ buf. Some (map_sum id (\<lambda>d. VD_data (Some d)) (copy (text_bytes buf @ [0]))))) (Some (data_write env)),
          row ''enum'' 8 ENUM_OPERATOR (Some (enum_compare env))
            (Some (\<lambda>d buf. Some (enum_read (case d of VD_enum _ c \<Rightarrow> c | _ \<Rightarrow> 0) buf))) (Some (enum_write env)),
          row ''list'' 0 0 None None None,
          row ''class'' 0 CLASS_OPERATOR (Some (class_compare env)) None (Some (class_write env))])"

definition is_type_valid :: "int \<Rightarrow> unit result" where
  "is_type_valid t = (if t < 0 \<or> 17 \<le> t then Inl PRELUDE_ERROR_IDMEF_VALUE_TYPE_UNKNOWN else Inr ())"

section \<open>Operations\<close>

text \<open>The operations take the table as the argument \<open>tbl\<close>.\<close>

definition idmef_value_type_to_string :: "'o operations list \<Rightarrow> int \<Rightarrow> string option" where
  "idmef_value_type_to_string tbl t = (case is_type_valid t of Inl _ \<Rightarrow> None | Inr _ \<Rightarrow> Some (op_name (tbl ! nat t)))"

text \<open>The text of the operator in an error message is looked up in a table without end.\<close>

definition operator_error :: "prelude_error_code \<Rightarrow> u32 \<Rightarrow> 'a result option" where
  "operator_error e op = map_option (\<lambda>_. Inl e) (idmef_criteria_operator_to_string op)"

definition idmef_value_type_compare ::
  "'o operations list \<Rightarrow> 'o idmef_value_type option \<Rightarrow> 'o idmef_value_type option \<Rightarrow> u32 \<Rightarrow> int result option" where
  "idmef_value_type_compare tbl type1 type2 op =
     (case (type1, type2) of
        (None, None) \<Rightarrow> Some (Inl PRELUDE_ERROR_ASSERTION)
      | _ \<Rightarrow>
          let tid = vt_id (case type1 of Some v \<Rightarrow> v | None \<Rightarrow> the type2); ops = tbl ! nat tid in
          case is_type_valid tid of
            Inl e \<Rightarrow> Some (Inl e)
          | Inr _ \<Rightarrow>
              if type1 \<noteq> None \<and> type2 \<noteq> None \<and> vt_id (the type1) \<noteq> vt_id (the type2) \<and>
                 vt_id (the type1) \<noteq> vt_num VT_ENUM \<and> vt_id (the type2) \<noteq> vt_num VT_STRING
              then Some (Inl PRELUDE_ERROR_IDMEF_VALUE_TYPE_COMPARE_MISMATCH)
              else if op AND op_operator ops = 0 then operator_error PRELUDE_ERROR_IDMEF_VALUE_TYPE_COMPARE_UNAVAILABLE op
              else case op_compare ops of
                None \<Rightarrow> Some (Inl PRELUDE_ERROR_IDMEF_VALUE_TYPE_COMPARE_UNAVAILABLE)
              | Some compare \<Rightarrow> map_option (\<lambda>ret.
                  let ret = (if ret < 0 then 1 else ret) in
                  Inr (if op AND OP_NOT \<noteq> 0 then if ret = 0 then 1 else 0 else ret)) (compare type1 type2 (op_len ops) (op AND NOT OP_NOT)))"

definition idmef_value_type_read :: "'o operations list \<Rightarrow> 'o idmef_value_type \<Rightarrow> string \<Rightarrow> 'o idmef_value_type result option" where
  "idmef_value_type_read tbl dst buf =
     (case is_type_valid (vt_id dst) of
        Inl e \<Rightarrow> Some (Inl e)
      | Inr _ \<Rightarrow> (case op_read (tbl ! nat (vt_id dst)) of
          None \<Rightarrow> Some (Inl PRELUDE_ERROR_IDMEF_VALUE_TYPE_READ_UNAVAILABLE)
        | Some read \<Rightarrow> map_option (map_sum id (\<lambda>d. dst\<lparr>vt_data := d\<rparr>)) (read (vt_data dst) buf)))"

definition idmef_value_type_write :: "'o operations list \<Rightarrow> 'o idmef_value_type \<Rightarrow> prelude_string \<Rightarrow> (nat result \<times> prelude_string) option" where
  "idmef_value_type_write tbl src out =
     (case is_type_valid (vt_id src) of
        Inl e \<Rightarrow> Some (Inl e, out)
      | Inr _ \<Rightarrow> (case op_write (tbl ! nat (vt_id src)) of
          None \<Rightarrow> Some (Inl PRELUDE_ERROR_IDMEF_VALUE_TYPE_WRITE_UNAVAILABLE, out)
        | Some write \<Rightarrow> write (vt_data src) out))"

definition idmef_value_type_check_operator :: "'o operations list \<Rightarrow> int \<Rightarrow> u32 \<Rightarrow> unit result option" where
  "idmef_value_type_check_operator tbl t op =
     (case is_type_valid t of
        Inl e \<Rightarrow> Some (Inl e)
      | Inr _ \<Rightarrow> if NOT (op_operator (tbl ! nat t)) AND op = 0 then Some (Inr ())
               else operator_error PRELUDE_ERROR_IDMEF_CRITERION_UNSUPPORTED_OPERATOR op)"

definition idmef_value_type_get_applicable_operators :: "'o operations list \<Rightarrow> int \<Rightarrow> u32 result" where
  "idmef_value_type_get_applicable_operators tbl t =
     (case is_type_valid t of Inl e \<Rightarrow> Inl e | Inr _ \<Rightarrow> Inr (op_operator (tbl ! nat t)))"

end
