(* ===== verification/IdmefValueProps.thy ===== *)
theory IdmefValueProps
  imports IdmefValueType
begin

text \<open>
  Typed values: integers are read back as they were written, equality is right for all of them, and where the order of numbers and the bounds of narrow types
  are not what they should be.
\<close>

section \<open>A sample\<close>

text \<open>Parameters for examples.\<close>

definition sample_env :: "byte_order \<Rightarrow> unit environment" where
  "sample_env bo = \<lparr>en_order = bo, en_memory = \<lparr>mm_blocks = [1 \<mapsto> Static (text_bytes ''abc'' @ [0]), 2 \<mapsto> Static (text_bytes ''b'' @ [0])], mm_times = \<lambda>_. None\<rparr>,
     en_fnmatch = \<lambda>_ _ _. False, en_strtod = \<lambda>s. (0, s, False), en_float_text = \<lambda>_ _. [], en_data_float = \<lambda>_. [], en_mktime = \<lambda>_. 0,
     en_enum_to_string = \<lambda>_ _. None, en_class_compare = \<lambda>_ _ _. 0, en_class_write = \<lambda>_ _ _. None\<rparr>"

definition sample_tbl :: "byte_order \<Rightarrow> unit operations list" where
  "sample_tbl bo = ops_tbl (sample_env bo) (\<lambda>_. Inl PRELUDE_ERROR_ENOMEM)"

section \<open>Integers as text\<close>

fun int_bounds :: "value_type \<Rightarrow> (int \<times> int) option" where
  "int_bounds VT_INT8 = Some (- 128, 127)"
| "int_bounds VT_UINT8 = Some (0, 255)"
| "int_bounds VT_INT16 = Some (- 32768, 32767)"
| "int_bounds VT_UINT16 = Some (0, 65535)"
| "int_bounds VT_INT32 = Some (- (2 ^ 31), 2 ^ 31 - 1)"
| "int_bounds VT_UINT32 = Some (0, 2 ^ 32 - 1)"
| "int_bounds VT_INT64 = Some (- (2 ^ 63), 2 ^ 63 - 1)"
| "int_bounds VT_UINT64 = Some (0, 2 ^ 64 - 1)"
| "int_bounds _ = None"

lemma int_bounds_cases:
  assumes "int_bounds t = Some (lo, hi)"
  obtains "t = VT_INT8" "lo = - 128" "hi = 127" | "t = VT_UINT8" "lo = 0" "hi = 255" | "t = VT_INT16" "lo = - 32768" "hi = 32767"
  | "t = VT_UINT16" "lo = 0" "hi = 65535" | "t = VT_INT32" "lo = - (2 ^ 31)" "hi = 2 ^ 31 - 1" | "t = VT_UINT32" "lo = 0" "hi = 2 ^ 32 - 1"
  | "t = VT_INT64" "lo = - (2 ^ 63)" "hi = 2 ^ 63 - 1" | "t = VT_UINT64" "lo = 0" "hi = 2 ^ 64 - 1"
  using assms by (cases t) auto

lemma dec_int_nonempty: "dec_int 0 z \<noteq> []"
  using hd_dec [of "nat \<bar>z\<bar>"] by (simp add: dec_int_0)

lemma int_read_signed:
  "- (2 ^ 63) \<le> z \<Longrightarrow> z < 2 ^ 63 \<Longrightarrow> int_read strtol_range f lo hi (dec_int 0 z) =
     (if lo \<le> f z \<and> f z \<le> hi then Inr (VD_int (f z)) else Inl PRELUDE_ERROR_IDMEF_VALUE_TYPE_PARSE)"
  using dec_int_nonempty [of z] by (auto simp: int_read_def strtol_range_dec_int Let_def)

lemma int_read_unsigned:
  "- (2 ^ 64) < z \<Longrightarrow> z < 2 ^ 64 \<Longrightarrow> int_read strtoul_range f lo hi (dec_int 0 z) =
     (if lo \<le> f (z mod 2 ^ 64) \<and> f (z mod 2 ^ 64) \<le> hi then Inr (VD_int (f (z mod 2 ^ 64))) else Inl PRELUDE_ERROR_IDMEF_VALUE_TYPE_PARSE)"
  using dec_int_nonempty [of z] by (auto simp: int_read_def strtoul_range_dec_int Let_def)

lemmas int_readers = int8_read_def uint8_read_def int16_read_def uint16_read_def int32_read_def uint32_read_def int64_read_def uint64_read_def

lemma tmp_small:
  "- (2 ^ 31) \<le> z \<Longrightarrow> z < 2 ^ 31 \<Longrightarrow> signed_take_bit 31 z = (z :: int)" "- (2 ^ 63) \<le> z \<Longrightarrow> z < 2 ^ 63 \<Longrightarrow> signed_take_bit 63 z = (z :: int)"
  "0 \<le> z \<Longrightarrow> z < 2 ^ 32 \<Longrightarrow> take_bit 32 z = (z :: int)" "0 \<le> z \<Longrightarrow> z < 2 ^ 64 \<Longrightarrow> take_bit 64 z = (z :: int)"
  by (simp_all add: signed_take_bit_int_eq_self take_bit_int_eq_self)

abbreviation int_value :: "value_type \<Rightarrow> int \<Rightarrow> 'o idmef_value_type" where
  "int_value t z \<equiv> \<lparr>vt_id = vt_num t, vt_data = VD_int z\<rparr>"

lemma integer_read_write:
  assumes "int_bounds t = Some (lo, hi)" "lo \<le> z" "z \<le> hi"
  shows "idmef_value_type_write (ops_tbl env copy) (int_value t z) out = prelude_string_sprintf (\<lambda>_. True) out (Some (text_bytes (dec_int 0 z))) \<and>
    idmef_value_type_read (ops_tbl env copy) (int_value t y) (dec_int 0 z) = Some (Inr (int_value t z))"
  using assms(1)
  by (cases rule: int_bounds_cases)
    (use assms(2,3) in \<open>simp_all add: idmef_value_type_write_def idmef_value_type_read_def is_type_valid_def ops_tbl_def Let_def int_write_def
      int_readers int_read_signed int_read_unsigned tmp_small\<close>)

text \<open>C15. An integer of any of the eight types is written as its decimal digits, and these are read as the integer.\<close>

theorem integer_roundtrip:
  assumes "int_bounds t = Some (lo, hi)" "lo \<le> z" "z \<le> hi"
  shows "idmef_value_type_write (ops_tbl env copy) (int_value t z) out = prelude_string_sprintf (\<lambda>_. True) out (Some (text_bytes (dec_int 0 z))) \<and>
    idmef_value_type_read (ops_tbl env copy) (int_value t y) (dec_int 0 z) = Some (Inr (int_value t z))"
  using integer_read_write [OF assms] by blast

lemma integer_roundtrip_witness:
  "idmef_value_type_write (sample_tbl Little_Endian) (int_value VT_INT16 (- 5)) empty_string = prelude_string_sprintf (\<lambda>_. True) empty_string (Some (text_bytes ''-5'')) \<and>
    idmef_value_type_read (sample_tbl Little_Endian) (int_value VT_INT16 0) ''-5'' = Some (Inr (int_value VT_INT16 (- 5)))"
proof -
  have digits: "dec_int 0 (- 5) = ''-5''" by (simp add: dec_int_0 dec.simps digit_char_def)
  have "int_bounds VT_INT16 = Some (- 32768, 32767)" "- 32768 \<le> (- 5 :: int)" "(- 5 :: int) \<le> 32767" by simp_all
  from integer_roundtrip [OF this] show ?thesis unfolding digits sample_tbl_def by blast
qed

text \<open>
  The bounds of the types of 8 and 16 bits are checked after the number was cut to 32 bits, so that numbers far outside are accepted modulo \<open>2 ^ 32\<close>;
  a negative number is read as an unsigned one of 64 bits modulo \<open>2 ^ 64\<close>.
\<close>

theorem narrow_reads_wrap:
  assumes "- (2 ^ 63) \<le> z" "z < 2 ^ 63"
  shows "(int8_read (dec_int 0 z) :: 'o vt_data result) = (if - 128 \<le> signed_take_bit 31 z \<and> signed_take_bit 31 z \<le> 127 then Inr (VD_int (signed_take_bit 31 z))
      else Inl PRELUDE_ERROR_IDMEF_VALUE_TYPE_PARSE) \<and>
    (uint8_read (dec_int 0 z) :: 'o vt_data result) = (if z mod 2 ^ 32 \<le> 255 then Inr (VD_int (z mod 2 ^ 32)) else Inl PRELUDE_ERROR_IDMEF_VALUE_TYPE_PARSE) \<and>
    (int16_read (dec_int 0 z) :: 'o vt_data result) = (if - 32768 \<le> signed_take_bit 31 z \<and> signed_take_bit 31 z \<le> 32767 then Inr (VD_int (signed_take_bit 31 z))
      else Inl PRELUDE_ERROR_IDMEF_VALUE_TYPE_PARSE) \<and>
    (uint16_read (dec_int 0 z) :: 'o vt_data result) = (if z mod 2 ^ 32 \<le> 65535 then Inr (VD_int (z mod 2 ^ 32)) else Inl PRELUDE_ERROR_IDMEF_VALUE_TYPE_PARSE) \<and>
    (uint64_read (dec_int 0 z) :: 'o vt_data result) = Inr (VD_int (z mod 2 ^ 64))"
proof -
  have "(z mod 2 ^ 64) mod 2 ^ 32 = z mod 2 ^ 32" by (rule mod_mod_cancel) simp
  moreover have "0 \<le> z mod 2 ^ 32" "0 \<le> z mod 2 ^ 64" "z mod 2 ^ 64 < 2 ^ 64" by simp_all
  ultimately show ?thesis using assms
    by (simp add: int_readers int_read_signed int_read_unsigned take_bit_eq_mod)
qed

lemma narrow_reads_wrap_witness:
  "int8_read (dec_int 0 4294967297) = (Inr (VD_int 1) :: unit vt_data result) \<and> uint16_read (dec_int 0 (- 4294967295)) = (Inr (VD_int 1) :: unit vt_data result) \<and>
   uint64_read (dec_int 0 (- 1)) = (Inr (VD_int 18446744073709551615) :: unit vt_data result)"
  using narrow_reads_wrap [of 4294967297, where 'o = unit] narrow_reads_wrap [of "- 4294967295", where 'o = unit] narrow_reads_wrap [of "- 1", where 'o = unit]
  by (simp add: signed_take_bit_eq_take_bit_shift take_bit_eq_mod)

section \<open>Equality\<close>

definition int_bytes :: "value_type \<Rightarrow> nat" where
  "int_bytes t = (if t = VT_INT8 \<or> t = VT_UINT8 then 1 else if t = VT_INT16 \<or> t = VT_UINT16 then 2
     else if t = VT_INT32 \<or> t = VT_UINT32 then 4 else 8)"

lemma memcmp_zero: "length x = n \<Longrightarrow> length y = n \<Longrightarrow> \<exists>r. memcmp x y n = Some r \<and> (r = 0 \<longleftrightarrow> x = y)"
proof (induction x y n rule: memcmp.induct)
  case (2 a as b bs n)
  then show ?case by (cases "a = b") auto
qed auto

lemma word_of_int_inj_bounds:
  assumes "lo \<le> v" "v \<le> hi" "lo \<le> w" "w \<le> hi" "hi - lo < 2 ^ LENGTH('a)"
  shows "word_of_int v = (word_of_int w :: 'a::len word) \<longleftrightarrow> v = w"
proof
  assume "word_of_int v = (word_of_int w :: 'a word)"
  then have "v mod 2 ^ LENGTH('a) = w mod 2 ^ LENGTH('a)" by (simp add: word_of_int_eq_iff take_bit_eq_mod)
  then have "2 ^ LENGTH('a) dvd v - w" by (simp add: mod_eq_dvd_iff)
  moreover have "\<bar>v - w\<bar> < 2 ^ LENGTH('a)" using assms by linarith
  ultimately show "v = w" using zdvd_imp_le [of "2 ^ LENGTH('a)" "\<bar>v - w\<bar>"] by (cases "v = w") auto
qed simp

lemma mem_inj: "mem16 bo a = mem16 bo b \<longleftrightarrow> a = b" "mem32 bo c = mem32 bo d \<longleftrightarrow> c = d" "mem64 bo e = mem64 bo f \<longleftrightarrow> e = f"
  by (metis load_mem)+

lemma int_bytes_equal:
  assumes "int_bounds t = Some (lo, hi)" "lo \<le> v" "v \<le> hi" "lo \<le> w" "w \<le> hi"
  shows "\<exists>x y. vt_bytes bo (int_bytes t) (VD_int v) = Some x \<and> vt_bytes bo (int_bytes t) (VD_int w) = Some y \<and>
    length x = int_bytes t \<and> length y = int_bytes t \<and> (x = y \<longleftrightarrow> v = w)"
  using assms(1)
  by (cases rule: int_bounds_cases)
    (use assms(2-5) in \<open>simp_all add: vt_bytes_def int_bytes_def mem_inj word_of_int_inj_bounds [where lo = lo and hi = hi]\<close>)

lemma integer_row:
  assumes "int_bounds t = Some b"
  shows "is_type_valid (vt_num t) = Inr ()" "op_len (ops_tbl env copy ! nat (vt_num t)) = int_bytes t"
    "op_operator (ops_tbl env copy ! nat (vt_num t)) = INTEGER_OPERATOR" "op_compare (ops_tbl env copy ! nat (vt_num t)) = Some (generic_compare env)"
  using assms by (cases t; simp add: is_type_valid_def ops_tbl_def int_bytes_def Let_def)+

text \<open>The comparison of two integers of one type, down to \<open>memcmp\<close> of their bytes.\<close>

lemma integer_compare:
  fixes env :: "'o environment"
  assumes "int_bounds t = Some b"
  shows "idmef_value_type_compare (ops_tbl env copy) (Some (int_value t v)) (Some (int_value t w)) op =
    (if op AND INTEGER_OPERATOR = 0 then operator_error PRELUDE_ERROR_IDMEF_VALUE_TYPE_COMPARE_UNAVAILABLE op
     else Option.bind (vt_bytes (en_order env) (int_bytes t) (VD_int v :: 'o vt_data)) (\<lambda>x.
       Option.bind (vt_bytes (en_order env) (int_bytes t) (VD_int w :: 'o vt_data)) (\<lambda>y.
         map_option (\<lambda>ret. Inr (if op_holds (op AND NOT OP_NOT) ret = (op AND OP_NOT = 0) then 0 else 1)) (memcmp x y (int_bytes t)))))"
  by (auto simp: integer_row [OF assms] idmef_value_type_compare_def Let_def generic_compare_def map_option_bind option.map_comp o_def
    intro!: map_option_cong split: Option.bind_splits)

text \<open>C103. Integers of one type are equal exactly if they are the same number, on either byte order.\<close>

theorem integers_compare_equal:
  fixes env :: "'o environment"
  assumes "int_bounds t = Some (lo, hi)" "lo \<le> v" "v \<le> hi" "lo \<le> w" "w \<le> hi"
  shows "idmef_value_type_compare (ops_tbl env copy) (Some (int_value t v)) (Some (int_value t w)) OP_EQUAL = Some (Inr (if v = w then 0 else 1)) \<and>
    idmef_value_type_compare (ops_tbl env copy) (Some (int_value t v)) (Some (int_value t w)) (OP_NOT OR OP_EQUAL) = Some (Inr (if v = w then 1 else 0))"
proof -
  obtain x y where bytes: "vt_bytes (en_order env) (int_bytes t) (VD_int v :: 'o vt_data) = Some x" "vt_bytes (en_order env) (int_bytes t) (VD_int w :: 'o vt_data) = Some y"
    "length x = int_bytes t" "length y = int_bytes t" "x = y \<longleftrightarrow> v = w"
    using int_bytes_equal [OF assms, where bo = "en_order env" and 'a = 'o] by blast
  obtain r where r: "memcmp x y (int_bytes t) = Some r" "r = 0 \<longleftrightarrow> v = w" using memcmp_zero [OF bytes(3,4)] bytes(5) by auto
  show ?thesis using bytes(1,2) r by (simp add: integer_compare [OF assms(1)] op_holds_def)
qed

lemma integers_compare_equal_witness:
  "idmef_value_type_compare (sample_tbl Little_Endian) (Some (int_value VT_INT32 (- 7))) (Some (int_value VT_INT32 7)) OP_EQUAL = Some (Inr 1) \<and>
   idmef_value_type_compare (sample_tbl Little_Endian) (Some (int_value VT_INT32 (- 7))) (Some (int_value VT_INT32 7)) (OP_NOT OR OP_EQUAL) = Some (Inr 0)"
proof -
  have "int_bounds VT_INT32 = Some (- (2 ^ 31), 2 ^ 31 - 1)" "- (2 ^ 31) \<le> (- 7 :: int)" "(- 7 :: int) \<le> 2 ^ 31 - 1"
    "- (2 ^ 31) \<le> (7 :: int)" "(7 :: int) \<le> 2 ^ 31 - 1" by simp_all
  from integers_compare_equal [OF this] show ?thesis by (simp add: sample_tbl_def)
qed

section \<open>Order\<close>

text \<open>The number that bytes in network order stand for.\<close>

fun be_val :: "byte list \<Rightarrow> nat" where
  "be_val [] = 0"
| "be_val (b # bs) = unat b * 256 ^ length bs + be_val bs"

lemma unat_below: "unat (w :: 'a::len word) < 2 ^ LENGTH('a)"
  by (rule unsigned_less)

lemma be_val_less: "be_val bs < 256 ^ length bs"
proof (induction bs)
  case (Cons b bs)
  have "be_val (b # bs) < (unat b + 1) * 256 ^ length bs" using Cons by simp
  also have "\<dots> \<le> 256 * 256 ^ length bs" using unat_below [of b] by (intro mult_le_mono1) simp
  finally show ?case by simp
qed simp

lemma be_val_append: "be_val (as @ bs) = be_val as * 256 ^ length bs + be_val bs"
  by (induction as) (simp_all add: power_add algebra_simps)

lemma be_val_first:
  assumes "length as = length bs" "a < b"
  shows "be_val (a # as) < be_val (b # bs)"
proof -
  have "unat a + 1 \<le> unat b" using assms(2) by (simp add: word_less_nat_alt)
  then have "(unat a + 1) * 256 ^ length bs \<le> unat b * 256 ^ length bs" by (rule mult_le_mono1)
  then show ?thesis using be_val_less [of as] assms(1) by (simp add: algebra_simps)
qed

lemma memcmp_be_val:
  "length x = n \<Longrightarrow> length y = n \<Longrightarrow>
     memcmp x y n = Some (if be_val x < be_val y then - 1 else if be_val y < be_val x then 1 else 0)"
proof (induction x y n rule: memcmp.induct)
  case (2 a as b bs n)
  consider "a < b" | "b < a" | "a = b" by (meson less_linear)
  then show ?case
  proof cases
    case 1
    then show ?thesis using 2 be_val_first [of as bs a b] by simp
  next
    case 3
    then show ?thesis using 2 by simp
  next
    case prems: 2
    then show ?thesis using 2 be_val_first [of bs as b a] by (auto dest: less_not_sym)
  qed
qed auto

lemma digits_256:
  fixes u :: nat
  shows "u < 65536 \<Longrightarrow> u div 256 mod 256 * 256 + u mod 256 = u"
    "u div 16777216 * 16777216 + (u div 65536 mod 256 * 65536 + (u div 256 mod 256 * 256 + u mod 256)) = u"
    "u < 18446744073709551616 \<Longrightarrow> u div 4294967296 mod 4294967296 * 4294967296 + u mod 4294967296 = u"
proof -
  show "u < 65536 \<Longrightarrow> u div 256 mod 256 * 256 + u mod 256 = u"
    using div_mult_mod_eq [of u 256] by (simp add: less_mult_imp_div_less)
  show "u < 18446744073709551616 \<Longrightarrow> u div 4294967296 mod 4294967296 * 4294967296 + u mod 4294967296 = u"
    using div_mult_mod_eq [of u 4294967296] by (simp add: less_mult_imp_div_less)
  have digits: "u = a * 256 + r \<Longrightarrow> a = b * 256 + r' \<Longrightarrow> b = c * 256 + r'' \<Longrightarrow> c * 16777216 + (r'' * 65536 + (r' * 256 + r)) = u"
    for a b c r r' r'' :: nat by simp
  have divs: "u div 65536 = u div 256 div 256" "u div 16777216 = u div 256 div 256 div 256" by (simp_all add: div_mult2_eq [symmetric])
  show "u div 16777216 * 16777216 + (u div 65536 mod 256 * 65536 + (u div 256 mod 256 * 256 + u mod 256)) = u"
    unfolding divs by (rule digits) (rule div_mult_mod_eq [symmetric])+
qed

lemmas unat_bytes = unsigned_ucast_eq unat_drop_bit_eq drop_bit_eq_div [where 'a = nat] take_bit_eq_mod digits_256

lemma be_val_be16: "be_val (be16 w) = unat w"
  using unat_below [of w] by (simp add: be16_def unat_bytes)

lemma be_val_be32: "be_val (be32 w) = unat w"
  using unat_below [of w] by (simp add: be32_def unat_bytes)

lemma be_val_be64: "be_val (be64 w) = unat w"
  using unat_below [of w] by (simp add: be64_def be_val_append be_val_be32 unat_bytes)

lemma be_val_mem:
  "be_val (mem16 Big_Endian a) = unat a" "be_val (mem32 Big_Endian b) = unat b" "be_val (mem64 Big_Endian c) = unat c"
  by (simp_all add: mem16_def mem32_def mem64_def be_val_be16 be_val_be32 be_val_be64)

lemma unat_of_int: "0 \<le> v \<Longrightarrow> v < 2 ^ LENGTH('a) \<Longrightarrow> unat (word_of_int v :: 'a::len word) = nat v"
  by (simp add: unsigned_of_int take_bit_int_eq_self)

lemma unsigned_bytes:
  assumes "t \<in> {VT_UINT8, VT_UINT16, VT_UINT32, VT_UINT64}" "int_bounds t = Some (0, hi)" "0 \<le> v" "v \<le> hi" "bo = Big_Endian \<or> t = VT_UINT8"
  shows "\<exists>x. vt_bytes bo (int_bytes t) (VD_int v :: 'o vt_data) = Some x \<and> length x = int_bytes t \<and> be_val x = nat v"
  using assms by (auto simp: vt_bytes_def int_bytes_def be_val_mem unat_of_int)

text \<open>C104. On a machine that stores the high byte first, numbers without a sign are ordered correctly; those of one byte on every machine.\<close>

theorem unsigned_order:
  fixes env :: "'o environment"
  assumes "t \<in> {VT_UINT8, VT_UINT16, VT_UINT32, VT_UINT64}" "int_bounds t = Some (0, hi)" "0 \<le> v" "v \<le> hi" "0 \<le> w" "w \<le> hi"
    and "en_order env = Big_Endian \<or> t = VT_UINT8"
  shows "idmef_value_type_compare (ops_tbl env copy) (Some (int_value t v)) (Some (int_value t w)) OP_LESSER = Some (Inr (if v < w then 0 else 1)) \<and>
    idmef_value_type_compare (ops_tbl env copy) (Some (int_value t v)) (Some (int_value t w)) OP_GREATER = Some (Inr (if w < v then 0 else 1)) \<and>
    idmef_value_type_compare (ops_tbl env copy) (Some (int_value t v)) (Some (int_value t w)) (OP_LESSER OR OP_EQUAL) = Some (Inr (if v \<le> w then 0 else 1))"
proof -
  obtain x where x: "vt_bytes (en_order env) (int_bytes t) (VD_int v :: 'o vt_data) = Some x" "length x = int_bytes t" "be_val x = nat v"
    using unsigned_bytes [OF assms(1-4,7)] by blast
  obtain y where y: "vt_bytes (en_order env) (int_bytes t) (VD_int w :: 'o vt_data) = Some y" "length y = int_bytes t" "be_val y = nat w"
    using unsigned_bytes [OF assms(1,2,5-7)] by blast
  show ?thesis using x y assms(3,5)
    by (simp add: integer_compare [OF assms(2)] memcmp_be_val op_holds_def)
qed

lemma unsigned_order_witness:
  "idmef_value_type_compare (sample_tbl Big_Endian) (Some (int_value VT_UINT16 1)) (Some (int_value VT_UINT16 256)) OP_LESSER = Some (Inr 0)"
proof -
  have "VT_UINT16 \<in> {VT_UINT8, VT_UINT16, VT_UINT32, VT_UINT64}" "int_bounds VT_UINT16 = Some (0, 65535)" "0 \<le> (1 :: int)" "(1 :: int) \<le> 65535"
    "0 \<le> (256 :: int)" "(256 :: int) \<le> 65535" "en_order (sample_env Big_Endian) = Big_Endian \<or> VT_UINT16 = VT_UINT8"
    by (simp_all add: sample_env_def)
  from unsigned_order [OF this] show ?thesis by (simp add: sample_tbl_def)
qed

definition char_value :: "nat \<Rightarrow> nat \<Rightarrow> unit idmef_value_type" where
  "char_value a n = \<lparr>vt_id = vt_num VT_DATA, vt_data = VD_data (Some (new_data\<lparr>da_type := DT_CHAR_STRING, da_len := n, da_data := Ptr_Data (Some a)\<rparr>))\<rparr>"

text \<open>
  On a machine that stores the low byte first 256 is less than 1, and everywhere \<open>- 1\<close> is greater than 1: numbers are compared as bytes. A part of a
  character string is not found in it, because the zero at its end is compared too. The check that both sides have one type lets any value through
  whose other side is a string, and the bytes of the pointer are compared; the other way round it is refused.
\<close>

theorem compare_defects:
  "idmef_value_type_compare (ops_tbl (sample_env Little_Endian) copy) (Some (int_value VT_UINT16 256)) (Some (int_value VT_UINT16 1)) OP_LESSER = Some (Inr 0) \<and>
   idmef_value_type_compare (ops_tbl (sample_env bo) copy) (Some (int_value VT_INT8 (- 1))) (Some (int_value VT_INT8 1)) OP_GREATER = Some (Inr 0) \<and>
   idmef_value_type_compare (ops_tbl (sample_env bo) copy) (Some (char_value 1 4)) (Some (char_value 2 2)) OP_SUBSTR = Some (Inr 1) \<and>
   idmef_value_type_compare (ops_tbl (sample_env bo) copy) (Some (int_value VT_INT8 5)) (Some \<lparr>vt_id = vt_num VT_STRING, vt_data = VD_string s\<rparr>) OP_EQUAL = None \<and>
   idmef_value_type_compare (ops_tbl (sample_env bo) copy) (Some \<lparr>vt_id = vt_num VT_STRING, vt_data = VD_string s\<rparr>) (Some (int_value VT_INT8 5)) OP_EQUAL =
     Some (Inl PRELUDE_ERROR_IDMEF_VALUE_TYPE_COMPARE_MISMATCH)"
proof (intro conjI)
  have bytes: "vt_bytes Little_Endian 2 (VD_int 256 :: unit vt_data) = Some [0, 1]" "vt_bytes Little_Endian 2 (VD_int 1 :: unit vt_data) = Some [1, 0]"
    "memcmp [0, 1] [1, 0] 2 = Some (- 1)" by code_simp+
  show "idmef_value_type_compare (ops_tbl (sample_env Little_Endian) copy) (Some (int_value VT_UINT16 256)) (Some (int_value VT_UINT16 1)) OP_LESSER = Some (Inr 0)"
    using integer_compare [where t = VT_UINT16 and env = "sample_env Little_Endian" and copy = copy and v = 256 and w = 1 and op = OP_LESSER]
    by (simp add: sample_env_def int_bytes_def bytes op_holds_def)
  have "(1 :: byte) < - 1" by (simp add: word_less_nat_alt unsigned_minus_1_eq_mask mask_eq_exp_minus_1)
  then show "idmef_value_type_compare (ops_tbl (sample_env bo) copy) (Some (int_value VT_INT8 (- 1))) (Some (int_value VT_INT8 1)) OP_GREATER = Some (Inr 0)"
    using integer_compare [where t = VT_INT8 and env = "sample_env bo" and copy = copy and v = "- 1" and w = 1 and op = OP_GREATER]
    by (simp add: int_bytes_def vt_bytes_def op_holds_def)
  show "idmef_value_type_compare (ops_tbl (sample_env bo) copy) (Some (char_value 1 4)) (Some (char_value 2 2)) OP_SUBSTR = Some (Inr 1)"
    by (simp add: idmef_value_type_compare_def is_type_valid_def ops_tbl_def Let_def char_value_def data_compare_def data_of_def data_bytes_def sample_env_def
      idmef_data_get_data_def idmef_data_get_len_def string_type_def data_ptr_def new_data_def read_ptr_def block_bytes_def mem_read_def)
  show "idmef_value_type_compare (ops_tbl (sample_env bo) copy) (Some (int_value VT_INT8 5)) (Some \<lparr>vt_id = vt_num VT_STRING, vt_data = VD_string s\<rparr>) OP_EQUAL = None"
    by (simp add: idmef_value_type_compare_def is_type_valid_def ops_tbl_def Let_def generic_compare_def vt_bytes_def)
  show "idmef_value_type_compare (ops_tbl (sample_env bo) copy) (Some \<lparr>vt_id = vt_num VT_STRING, vt_data = VD_string s\<rparr>) (Some (int_value VT_INT8 5)) OP_EQUAL =
     Some (Inl PRELUDE_ERROR_IDMEF_VALUE_TYPE_COMPARE_MISMATCH)"
    by (simp add: idmef_value_type_compare_def is_type_valid_def)
qed

end
