(* ===== verification/IdmefValue.thy ===== *)
theory IdmefValue
  imports IdmefValueProps
begin

text \<open>
  Values (\<open>src/idmef-value.c\<close>): one typed value, or a list of values, which may be null pointers. Here are the access to the entries, iteration, matching, the
  list as a block of memory, and the conversion between types. The reference counts and the release of the memory are left out.
\<close>

section \<open>Entries\<close>

definition idmef_value_get_count :: "'v idmef_value \<Rightarrow> nat" where
  "idmef_value_get_count v = (case v of Scalar _ \<Rightarrow> 1 | VList vs \<Rightarrow> length vs)"

definition idmef_value_list_is_empty :: "'v idmef_value \<Rightarrow> bool" where
  "idmef_value_list_is_empty v = (case v of Scalar _ \<Rightarrow> True | VList vs \<Rightarrow> vs = [])"

text \<open>\<open>Inr None\<close> is the return value 0, \<open>Inr (Some p)\<close> is 1 with the pointer \<open>p\<close>.\<close>

definition idmef_value_get_nth2 :: "'v idmef_value \<Rightarrow> int \<Rightarrow> 'v idmef_value option option result" where
  "idmef_value_get_nth2 v index =
     (let list_elems = (case v of Scalar _ \<Rightarrow> 0 | VList vs \<Rightarrow> int (length vs)) in
      if list_elems < index then Inl PRELUDE_ERROR_ASSERTION
      else if index = 0 \<and> \<not> idmef_value_is_list v then Inr (Some (Some v))
      else case v of
        VList vs \<Rightarrow> if 0 \<le> index \<and> index < list_elems then Inr (Some (vs ! nat index)) else if list_elems \<le> index then Inr None
                   else Inl PRELUDE_ERROR_GENERIC
      | Scalar _ \<Rightarrow> if list_elems \<le> index then Inr None else Inl PRELUDE_ERROR_GENERIC)"

definition idmef_value_get_nth :: "'v idmef_value \<Rightarrow> int \<Rightarrow> 'v idmef_value option" where
  "idmef_value_get_nth v n = (case idmef_value_get_nth2 v n of Inr (Some p) \<Rightarrow> p | _ \<Rightarrow> None)"

fun iterate_entries :: "('e \<Rightarrow> 's \<Rightarrow> int \<times> 's) \<Rightarrow> 'e list \<Rightarrow> 's \<Rightarrow> int \<times> 's" where
  "iterate_entries callback [] s = (0, s)"
| "iterate_entries callback (e # es) s = (case callback e s of (ret, s') \<Rightarrow> if ret < 0 then (ret, s') else iterate_entries callback es s')"

definition idmef_value_iterate :: "('v idmef_value option \<Rightarrow> 's \<Rightarrow> int \<times> 's) \<Rightarrow> 'v idmef_value \<Rightarrow> 's \<Rightarrow> int \<times> 's" where
  "idmef_value_iterate callback v s = (case v of Scalar _ \<Rightarrow> callback (Some v) s | VList es \<Rightarrow> iterate_entries callback es s)"

definition idmef_value_iterate_reversed :: "('v idmef_value option \<Rightarrow> 's \<Rightarrow> int \<times> 's) \<Rightarrow> 'v idmef_value \<Rightarrow> 's \<Rightarrow> int \<times> 's" where
  "idmef_value_iterate_reversed callback v s = (case v of Scalar _ \<Rightarrow> callback (Some v) s | VList es \<Rightarrow> iterate_entries callback (rev es) s)"

section \<open>Matching\<close>

text \<open>
  The comparison at the end of the recursion. The right hand side is used as \<open>&val2->type\<close>, so that a null pointer there is an address near zero, which is
  read as soon as the type on the left is valid.
\<close>

definition match_scalars ::
  "'o operations list \<Rightarrow> u32 \<Rightarrow> 'o idmef_value_type option \<Rightarrow> 'o idmef_value_type option \<Rightarrow> int result option" where
  "match_scalars tbl op a b =
     (case b of
        Some y \<Rightarrow> idmef_value_type_compare tbl a (Some y) op
      | None \<Rightarrow> (case a of
          Some x \<Rightarrow> (case is_type_valid (vt_id x) of Inl e \<Rightarrow> Some (Inl e) | Inr _ \<Rightarrow> None)
        | None \<Rightarrow> None))"

definition scalar_of :: "'v idmef_value option \<Rightarrow> 'v option" where
  "scalar_of v = (case v of Some (Scalar x) \<Rightarrow> Some x | _ \<Rightarrow> None)"

text \<open>
  The callback (\<open>idmef_value_match_internal\<close>), its iteration over a list (\<open>match_entries\<close>) and \<open>idmef_value_match\<close>; the number of matches so far is passed along. When the
  right hand side is a list the two sides are swapped and the operator stays.
\<close>

function (sequential) idmef_value_match_internal ::
    "'o operations list \<Rightarrow> u32 \<Rightarrow> 'o idmef_value_type idmef_value option \<Rightarrow> 'o idmef_value_type idmef_value option \<Rightarrow> nat \<Rightarrow> nat result option"
  and match_entries ::
    "'o operations list \<Rightarrow> u32 \<Rightarrow> 'o idmef_value_type idmef_value option list \<Rightarrow> 'o idmef_value_type idmef_value option \<Rightarrow> nat \<Rightarrow> nat result option"
  and idmef_value_match ::
    "'o operations list \<Rightarrow> u32 \<Rightarrow> 'o idmef_value_type idmef_value option \<Rightarrow> 'o idmef_value_type idmef_value option \<Rightarrow> nat result option"
where
  "idmef_value_match_internal tbl op (Some (VList vs)) val2 n = match_entries tbl op vs val2 n"
| "idmef_value_match_internal tbl op val1 (Some (VList ws)) n =
     map_option (map_sum id (\<lambda>ret. n + ret)) (idmef_value_match tbl op (Some (VList ws)) val1)"
| "idmef_value_match_internal tbl op val1 val2 n =
     map_option (map_sum id (\<lambda>ret. if ret = 0 then n + 1 else n)) (match_scalars tbl op (scalar_of val1) (scalar_of val2))"
| "match_entries tbl op [] val2 n = Some (Inr n)"
| "match_entries tbl op (v # vs) val2 n =
     Option.bind (idmef_value_match_internal tbl op v val2 n) (\<lambda>r. case r of Inl e \<Rightarrow> Some (Inl e) | Inr n' \<Rightarrow> match_entries tbl op vs val2 n')"
| "idmef_value_match tbl op None None = Some (Inl PRELUDE_ERROR_ASSERTION)"
| "idmef_value_match tbl op (Some (VList vs)) val2 = match_entries tbl op vs val2 0"
| "idmef_value_match tbl op val1 val2 = idmef_value_match_internal tbl op val1 val2 0"
  by pat_completeness auto

termination
  apply (relation "measure (\<lambda>x. case x of
      Inl (tbl, op, v1, v2, n) \<Rightarrow> 4 * (size_option size v1 + size_option size v2) + (case v1 of Some (VList _) \<Rightarrow> 0 | _ \<Rightarrow> 1)
    | Inr (Inl (tbl, op, vs, v2, n)) \<Rightarrow> 4 * (size_list (size_option size) vs + size_option size v2)
    | Inr (Inr (tbl, op, v1, v2)) \<Rightarrow> 4 * (size_option size v1 + size_option size v2) + (case v1 of Some (VList _) \<Rightarrow> 0 | _ \<Rightarrow> 2))")
  apply (auto split: option.splits idmef_value.splits)
  done

section \<open>What matching counts\<close>

text \<open>The scalars of a value, in order; a null pointer stays one.\<close>

fun leaves :: "'v idmef_value option \<Rightarrow> 'v option list" and entry_leaves :: "'v idmef_value option list \<Rightarrow> 'v option list" where
  "leaves None = [None]"
| "leaves (Some (Scalar x)) = [Some x]"
| "leaves (Some (VList vs)) = entry_leaves vs"
| "entry_leaves [] = []"
| "entry_leaves (v # vs) = leaves v @ entry_leaves vs"

definition is_list :: "'v idmef_value option \<Rightarrow> bool" where
  "is_list v \<longleftrightarrow> (case v of Some x \<Rightarrow> idmef_value_is_list x | None \<Rightarrow> False)"

text \<open>Two scalars as they are compared: swapped when the right hand side is a list.\<close>

definition pair_matches ::
  "'o operations list \<Rightarrow> u32 \<Rightarrow> 'o idmef_value_type idmef_value option \<Rightarrow> 'o idmef_value_type option \<Rightarrow> 'o idmef_value_type option \<Rightarrow> int result option" where
  "pair_matches tbl op val2 a b = (if is_list val2 then match_scalars tbl op b a else match_scalars tbl op a b)"

definition matched :: "int result option \<Rightarrow> bool" where
  "matched r \<longleftrightarrow> r = Some (Inr 0)"

definition compared :: "int result option \<Rightarrow> bool" where
  "compared r \<longleftrightarrow> (case r of Some (Inr _) \<Rightarrow> True | _ \<Rightarrow> False)"

lemma not_list_leaves: "\<not> is_list v \<Longrightarrow> leaves v = [scalar_of v]"
  by (auto simp: is_list_def idmef_value_is_list_def scalar_of_def split: option.splits idmef_value.splits)

lemma match_one:
  assumes "\<not> is_list v1" "\<not> is_list v2" "compared (match_scalars tbl op (scalar_of v1) (scalar_of v2))"
  shows "idmef_value_match_internal tbl op v1 v2 n = Some (Inr (if matched (match_scalars tbl op (scalar_of v1) (scalar_of v2)) then n + 1 else n))"
proof -
  obtain r where r: "match_scalars tbl op (scalar_of v1) (scalar_of v2) = Some (Inr r)"
    using assms(3) by (auto simp: compared_def split: option.splits sum.splits)
  have "idmef_value_match_internal tbl op v1 v2 n =
      map_option (map_sum id (\<lambda>ret. if ret = 0 then n + 1 else n)) (match_scalars tbl op (scalar_of v1) (scalar_of v2))"
    using assms(1,2) by (cases v1 rule: leaves.cases; cases v2 rule: leaves.cases) (simp_all add: is_list_def idmef_value_is_list_def)
  then show ?thesis by (simp add: r matched_def)
qed

text \<open>Against a scalar, or a null pointer, the leaves of the left hand side are counted.\<close>

lemma match_against_scalar:
  "\<not> is_list v2 \<Longrightarrow> (\<forall>a \<in> set (leaves v1). compared (match_scalars tbl op a (scalar_of v2))) \<Longrightarrow>
     idmef_value_match_internal tbl op v1 v2 n = Some (Inr (n + length (filter (\<lambda>a. matched (match_scalars tbl op a (scalar_of v2))) (leaves v1))))"
  "\<not> is_list v2 \<Longrightarrow> (\<forall>a \<in> set (entry_leaves vs). compared (match_scalars tbl op a (scalar_of v2))) \<Longrightarrow>
     match_entries tbl op vs v2 n = Some (Inr (n + length (filter (\<lambda>a. matched (match_scalars tbl op a (scalar_of v2))) (entry_leaves vs))))"
proof (induction v1 and vs arbitrary: n and n rule: leaves_entry_leaves.induct)
  case 1
  then show ?case using match_one [of None v2] by (simp add: is_list_def scalar_of_def)
next
  case (2 x)
  then show ?case using match_one [of "Some (Scalar x)" v2] by (simp add: is_list_def idmef_value_is_list_def scalar_of_def)
qed auto

lemma match_entries_against_scalar:
  "\<not> is_list v2 \<Longrightarrow> (\<forall>a \<in> set (leaves v1). compared (match_scalars tbl op a (scalar_of v2))) \<Longrightarrow> is_list v1 \<Longrightarrow>
     idmef_value_match tbl op v1 v2 = Some (Inr (length (filter (\<lambda>a. matched (match_scalars tbl op a (scalar_of v2))) (leaves v1))))"
  by (cases v1 rule: leaves.cases) (auto simp: is_list_def idmef_value_is_list_def match_against_scalar)

lemma match_against_list:
  "is_list v2 \<Longrightarrow> (\<forall>a \<in> set (leaves v1). \<forall>b \<in> set (leaves v2). compared (match_scalars tbl op b a)) \<Longrightarrow>
     idmef_value_match_internal tbl op v1 v2 n = Some (Inr (n + (\<Sum>a\<leftarrow>leaves v1. length (filter (\<lambda>b. matched (match_scalars tbl op b a)) (leaves v2)))))"
  "is_list v2 \<Longrightarrow> (\<forall>a \<in> set (entry_leaves vs). \<forall>b \<in> set (leaves v2). compared (match_scalars tbl op b a)) \<Longrightarrow>
     match_entries tbl op vs v2 n = Some (Inr (n + (\<Sum>a\<leftarrow>entry_leaves vs. length (filter (\<lambda>b. matched (match_scalars tbl op b a)) (leaves v2)))))"
proof (induction v1 and vs arbitrary: n and n rule: leaves_entry_leaves.induct)
  case 1
  then show ?case using match_entries_against_scalar [of None v2 tbl op]
    by (cases v2 rule: leaves.cases) (auto simp: is_list_def idmef_value_is_list_def scalar_of_def)
next
  case (2 x)
  then show ?case using match_entries_against_scalar [of "Some (Scalar x)" v2 tbl op]
    by (cases v2 rule: leaves.cases) (auto simp: is_list_def idmef_value_is_list_def scalar_of_def)
qed auto

lemma match_entries_start:
  "v1 \<noteq> None \<or> v2 \<noteq> None \<Longrightarrow> idmef_value_match tbl op v1 v2 = idmef_value_match_internal tbl op v1 v2 0"
  by (cases v1 rule: leaves.cases; cases v2 rule: leaves.cases) simp_all

text \<open>
  C13. When every pair of scalars of the two values can be compared, matching counts the pairs that match. The pairs are compared in the order of the
  arguments, but the other way round when the right hand side is a list.
\<close>

theorem match_counts_pairs:
  assumes "\<forall>a \<in> set (leaves v1). \<forall>b \<in> set (leaves v2). compared (pair_matches tbl op v2 a b)" "v1 \<noteq> None \<or> v2 \<noteq> None"
  shows "idmef_value_match tbl op v1 v2 = Some (Inr (\<Sum>a\<leftarrow>leaves v1. length (filter (\<lambda>b. matched (pair_matches tbl op v2 a b)) (leaves v2))))"
proof (cases "is_list v2")
  case True
  then show ?thesis using match_against_list(1) [OF True, of v1 tbl op 0] assms by (simp add: match_entries_start pair_matches_def)
next
  case False
  have count: "length (filter P xs) = (\<Sum>a\<leftarrow>xs. if P a then 1 else 0)" for P and xs :: "'b list" by (induction xs) auto
  have one: "length (filter P [x]) = (if P x then 1 else 0)" for P and x :: 'b by simp
  show ?thesis using match_against_scalar(1) [OF False, of v1 tbl op 0] assms False
    by (simp add: match_entries_start pair_matches_def not_list_leaves count one del: filter.simps)
qed

abbreviation byte_value :: "int \<Rightarrow> 'o idmef_value_type idmef_value" where
  "byte_value v \<equiv> Scalar (int_value VT_UINT8 v)"

lemma byte_less:
  assumes "0 \<le> v" "v \<le> 255" "0 \<le> w" "w \<le> 255"
  shows "match_scalars (ops_tbl env copy) OP_LESSER (Some (int_value VT_UINT8 v)) (Some (int_value VT_UINT8 w)) = Some (Inr (if v < w then 0 else 1))"
proof -
  have "be_val [word_of_int v] = nat v" "be_val [word_of_int w] = nat w" using assms by (simp_all add: unat_of_int)
  then have "memcmp [word_of_int v] [word_of_int w] 1 = Some (if v < w then - 1 else if w < v then 1 else 0)"
    using memcmp_be_val [of "[word_of_int v]" 1 "[word_of_int w]"] assms(1,3) by simp
  then show ?thesis by (simp add: match_scalars_def integer_compare [where t = VT_UINT8] int_bytes_def vt_bytes_def op_holds_def del: memcmp.simps vt_num.simps)
qed

lemma match_counts_pairs_witness:
  "idmef_value_match (sample_tbl Little_Endian) OP_LESSER (Some (VList [Some (byte_value 1), Some (VList [Some (byte_value 9), Some (byte_value 3)])])) (Some (byte_value 5)) =
     Some (Inr 2)"
proof -
  let ?v = "Some (VList [Some (byte_value 1), Some (VList [Some (byte_value 9), Some (byte_value 3)])])" and ?w = "Some (byte_value 5)"
  have "\<forall>a \<in> set (leaves ?v). \<forall>b \<in> set (leaves ?w). compared (pair_matches (sample_tbl Little_Endian) OP_LESSER ?w a b)"
    by (simp add: pair_matches_def is_list_def idmef_value_is_list_def byte_less sample_tbl_def compared_def del: vt_num.simps)
  then show ?thesis using match_counts_pairs [of ?v ?w "sample_tbl Little_Endian" OP_LESSER]
    by (simp add: pair_matches_def is_list_def idmef_value_is_list_def byte_less sample_tbl_def matched_def del: vt_num.simps)
qed

section \<open>The list in memory\<close>

text \<open>The entries, the number after which the block is enlarged, and the number of slots of the block (\<open>None\<close> when there is none).\<close>

record 'e value_list =
  vl_entries :: "'e list"
  vl_max :: nat
  vl_slots :: "nat option"

definition CHUNK_SIZE :: nat where "CHUNK_SIZE = 16"

definition idmef_value_new_list :: "bool \<Rightarrow> 'e value_list result" where
  "idmef_value_new_list mem_ok =
     (if \<not> mem_ok then Inl PRELUDE_ERROR_ENOMEM else Inr \<lparr>vl_entries = [], vl_max = CHUNK_SIZE - 1, vl_slots = Some CHUNK_SIZE\<rparr>)"

text \<open>When the block cannot be enlarged the pointer to it is lost. A write behind the block is undefined.\<close>

definition idmef_value_list_add :: "bool \<Rightarrow> 'e value_list \<Rightarrow> 'e \<Rightarrow> (unit result \<times> 'e value_list) option" where
  "idmef_value_list_add mem_ok l item =
     (let full = (length (vl_entries l) = vl_max l);
          l1 = (if full then l\<lparr>vl_slots := (if mem_ok then Some (vl_max l + 1 + CHUNK_SIZE) else None)\<rparr> else l);
          l2 = (if full then l1\<lparr>vl_max := vl_max l + CHUNK_SIZE\<rparr> else l1)
      in if full \<and> \<not> mem_ok then Some (Inl PRELUDE_ERROR_ENOMEM, l1)
         else case vl_slots l2 of
           None \<Rightarrow> None
         | Some n \<Rightarrow> if length (vl_entries l2) < n then Some (Inr (), l2\<lparr>vl_entries := vl_entries l2 @ [item]\<rparr>) else None)"

text \<open>
  The loop of \<open>idmef_value_list_clone\<close>, on entries that are null pointers (\<open>None\<close>) or values. After the first value that it clones, with success or not, it
  releases the block and returns \<open>- 1\<close>; \<open>clone_ok\<close> says whether that clone was made, in which case nothing refers to it any more.
\<close>

fun clone_entries :: "('e \<Rightarrow> bool) \<Rightarrow> 'e option list \<Rightarrow> 'e option list \<Rightarrow> 'e option list result \<times> 'e list" where
  "clone_entries clone_ok copied [] = (Inr copied, [])"
| "clone_entries clone_ok copied (None # es) = clone_entries clone_ok (copied @ [None]) es"
| "clone_entries clone_ok copied (Some e # es) = (Inl PRELUDE_ERROR_GENERIC, if clone_ok e then [e] else [])"

definition idmef_value_list_clone :: "bool \<Rightarrow> bool \<Rightarrow> ('e \<Rightarrow> bool) \<Rightarrow> 'e option value_list \<Rightarrow> ('e option value_list result \<times> 'e list) option" where
  "idmef_value_list_clone new_ok mem_ok clone_ok l =
     (if \<not> new_ok then Some (Inl PRELUDE_ERROR_ENOMEM, [])
      else if \<not> mem_ok \<and> vl_entries l \<noteq> [] then None
      else Some (case clone_entries clone_ok [] (vl_entries l) of (ret, leaked) \<Rightarrow>
        (map_sum id (\<lambda>es. \<lparr>vl_entries = es, vl_max = vl_max l, vl_slots = if mem_ok then Some (length (vl_entries l) + 1) else None\<rparr>) ret, leaked)))"

fun add_all :: "'e value_list \<Rightarrow> 'e list \<Rightarrow> 'e value_list option" where
  "add_all l [] = Some l"
| "add_all l (e # es) = Option.bind (idmef_value_list_add True l e) (\<lambda>(ret, l'). add_all l' es)"

definition list_ok :: "'e value_list \<Rightarrow> bool" where
  "list_ok l \<longleftrightarrow> length (vl_entries l) \<le> vl_max l \<and> vl_slots l = Some (vl_max l + 1)"

lemma list_add_ok:
  "list_ok l \<Longrightarrow> \<exists>l'. idmef_value_list_add True l e = Some (Inr (), l') \<and> list_ok l' \<and> vl_entries l' = vl_entries l @ [e]"
  by (auto simp: list_ok_def idmef_value_list_add_def Let_def CHUNK_SIZE_def)

lemma add_all_ok: "list_ok l \<Longrightarrow> \<exists>l'. add_all l es = Some l' \<and> list_ok l' \<and> vl_entries l' = vl_entries l @ es"
proof (induction es arbitrary: l)
  case (Cons e es)
  from list_add_ok [OF Cons.prems, of e] obtain l1 where "idmef_value_list_add True l e = Some (Inr (), l1)" "list_ok l1" "vl_entries l1 = vl_entries l @ [e]" by blast
  then show ?case using Cons.IH [of l1] by auto
qed simp

lemma clone_entries_present: "e \<in> set es \<Longrightarrow> e \<noteq> None \<Longrightarrow> fst (clone_entries clone_ok copied es) = Inl PRELUDE_ERROR_GENERIC"
  by (induction clone_ok copied es rule: clone_entries.induct) auto

text \<open>C107. Any number of items can be added to a new list without a write behind its block, and they are its entries, in order.\<close>

theorem list_adds_in_bounds:
  "\<exists>l l'. idmef_value_new_list True = Inr l \<and> add_all l items = Some l' \<and> list_ok l' \<and> vl_entries l' = items"
  using add_all_ok [of "\<lparr>vl_entries = [], vl_max = CHUNK_SIZE - 1, vl_slots = Some CHUNK_SIZE\<rparr>" items]
  by (simp add: idmef_value_new_list_def list_ok_def CHUNK_SIZE_def)

text \<open>
  A list with any value in it cannot be cloned, even when all memory is available: the call fails and leaks the clone of the first value. An empty list
  can, but the second item added to the clone is written behind its block. A value is matched against a list as if the list were on the left: 5 is
  reported to be less than the list of 1. Matching against a null pointer on the right is undefined.
\<close>

theorem value_defects:
  "idmef_value_list_clone True True (\<lambda>_. True) \<lparr>vl_entries = Some e # es, vl_max = m, vl_slots = slots\<rparr> = Some (Inl PRELUDE_ERROR_GENERIC, [e]) \<and>
   idmef_value_list_clone True True clone_ok \<lparr>vl_entries = [], vl_max = 15, vl_slots = Some 16\<rparr> = Some (Inr \<lparr>vl_entries = [], vl_max = 15, vl_slots = Some 1\<rparr>, []) \<and>
   add_all \<lparr>vl_entries = [], vl_max = 15, vl_slots = Some 1\<rparr> [a, b] = None \<and>
   idmef_value_match (ops_tbl env copy) OP_LESSER (Some (byte_value 5)) (Some (VList [Some (byte_value 1)])) = Some (Inr 1) \<and>
   idmef_value_match (ops_tbl env copy) OP_LESSER (Some (byte_value 5)) (Some (byte_value 1)) = Some (Inr 0) \<and>
   idmef_value_match (ops_tbl env copy) op (Some (byte_value 5)) None = None"
proof (intro conjI)
  show "idmef_value_match (ops_tbl env copy) op (Some (byte_value 5)) None = None"
    by (simp add: scalar_of_def match_scalars_def is_type_valid_def)
qed (simp_all add: idmef_value_list_clone_def idmef_value_list_add_def Let_def scalar_of_def byte_less del: vt_num.simps)

end
