(* ===== verification/IdmefCast.thy ===== *)
theory IdmefCast
  imports IdmefValue
begin

text \<open>
  The conversion of a value to another type (\<open>_idmef_value_cast\<close> in \<open>src/idmef-value.c\<close>). The conversions of C between integer types are written out.
  Parameters are the conversions that involve floating point numbers, the allocation of data objects, the offset of the local time zone and the values of
  enumerations. The release of the old value is left out.
\<close>

section \<open>Integer types of C\<close>

text \<open>An integer type: signed or not, and its width.\<close>

type_synonym c_type = "bool \<times> nat"

definition conv :: "c_type \<Rightarrow> int \<Rightarrow> int" where
  "conv t v = (if fst t then signed_take_bit (snd t - 1) v else take_bit (snd t) v)"

definition promote :: "c_type \<Rightarrow> c_type" where
  "promote t = (if snd t < 32 then (True, 32) else t)"

text \<open>The type in which the operands of an operator are converted.\<close>

definition common_type :: "c_type \<Rightarrow> c_type \<Rightarrow> c_type" where
  "common_type a b =
     (let a = promote a; b = promote b in
      if snd a = snd b then (fst a \<and> fst b, snd a) else if snd a < snd b then b else a)"

definition c_equal :: "c_type \<Rightarrow> int \<Rightarrow> c_type \<Rightarrow> int \<Rightarrow> bool" where
  "c_equal a v b w \<longleftrightarrow> conv (common_type a b) v = conv (common_type a b) w"

definition below_one :: "c_type \<Rightarrow> int \<Rightarrow> bool" where
  "below_one a v \<longleftrightarrow> conv (common_type a (True, 32)) v < conv (common_type a (True, 32)) 1"

definition CASTCHK :: "c_type \<Rightarrow> c_type \<Rightarrow> int \<Rightarrow> bool" where
  "CASTCHK src_type dst_type src \<longleftrightarrow>
     c_equal src_type src dst_type (conv dst_type src) \<and> below_one src_type src = below_one dst_type (conv dst_type src)"

section \<open>Conversion\<close>

definition int_type :: "int \<Rightarrow> c_type option" where
  "int_type t = (if 1 \<le> t \<and> t \<le> 8 then Some (t mod 2 = 1, 8 * 2 ^ nat ((t - 1) div 2)) else None)"

definition float_type :: "int \<Rightarrow> bool" where
  "float_type t \<longleftrightarrow> t = vt_num VT_FLOAT \<or> t = vt_num VT_DOUBLE"

record 'o cast_env =
  ce_tbl :: "'o operations list"
  ce_mem :: bool
  ce_char_data :: "byte list \<Rightarrow> idmef_data result"
  ce_time_data :: "idmef_time option \<Rightarrow> idmef_data result"
  ce_float_cast :: "int \<Rightarrow> int \<Rightarrow> 'o vt_data \<Rightarrow> 'o vt_data result"
  ce_float_data :: "'o vt_data \<Rightarrow> idmef_data result"
  ce_gmtoff :: "int \<Rightarrow> int result"
  ce_mktime :: "tm \<Rightarrow> int"
  ce_enum :: "int \<Rightarrow> string \<Rightarrow> int result"

abbreviation retyped :: "value_type \<Rightarrow> 'o vt_data \<Rightarrow> 'o idmef_value_type" where
  "retyped t d \<equiv> \<lparr>vt_id = vt_num t, vt_data = d\<rparr>"

type_synonym 'o cast_result = "(unit result \<times> 'o idmef_value_type) option"

text \<open>The old value with an error, or the new one.\<close>

definition cast_to :: "'o idmef_value_type \<Rightarrow> value_type \<Rightarrow> 'o vt_data result \<Rightarrow> unit result \<times> 'o idmef_value_type" where
  "cast_to v t r = (case r of Inl e \<Rightarrow> (Inl e, v) | Inr d \<Rightarrow> (Inr (), retyped t d))"

definition idmef_data_new_int :: "bool \<Rightarrow> int \<Rightarrow> idmef_data result" where
  "idmef_data_new_int mem_ok v =
     (case idmef_data_new mem_ok of Inl e \<Rightarrow> Inl e | Inr d \<Rightarrow> Inr (d\<lparr>da_type := DT_INT, da_len := 8, da_data := Int_Data (word_of_int v)\<rparr>))"

text \<open>The text of a string value up to its zero; \<open>Some None\<close> is a null pointer.\<close>

definition value_text :: "'o idmef_value_type \<Rightarrow> string option option" where
  "value_text v = (case vt_data v of
     VD_string s \<Rightarrow> (case Option.bind s prelude_string_get_string of
       None \<Rightarrow> Some None
     | Some bs \<Rightarrow> if 0 \<in> set bs then Some (Some (map (\<lambda>b. char_of (unat b)) (c_string bs))) else None)
   | _ \<Rightarrow> None)"

definition cast_to_data :: "'o cast_env \<Rightarrow> 'o idmef_value_type \<Rightarrow> 'o cast_result" where
  "cast_to_data ce v =
     (let new_data = (\<lambda>r. cast_to v VT_DATA (map_sum id (\<lambda>d. VD_data (Some d)) r)) in
      if vt_id v = vt_num VT_STRING
      then (case vt_data v of
          VD_string s \<Rightarrow> (case s of
              None \<Rightarrow> Some (Inl PRELUDE_ERROR_ASSERTION, v)
            | Some str \<Rightarrow> (case prelude_string_get_string str of
                None \<Rightarrow> Some (Inl PRELUDE_ERROR_ASSERTION, v)
              | Some bs \<Rightarrow> map_option (\<lambda>src. new_data (ce_char_data ce src)) (mem_read bs 0 (prelude_string_get_len str + 1))))
        | _ \<Rightarrow> None)
      else if int_type (vt_id v) \<noteq> None
      then (case vt_data v of VD_int z \<Rightarrow> Some (new_data (idmef_data_new_int (ce_mem ce) z)) | _ \<Rightarrow> None)
      else if vt_id v = vt_num VT_TIME
      then (case vt_data v of VD_time t \<Rightarrow> Some (new_data (ce_time_data ce (map_option idmef_time_ref t))) | _ \<Rightarrow> None)
      else if float_type (vt_id v) then Some (new_data (ce_float_data ce (vt_data v)))
      else Some (Inl PRELUDE_ERROR_GENERIC, v))"

text \<open>Any other type gives \<open>- 1\<close>.\<close>

definition cast_to_time :: "'o cast_env \<Rightarrow> 'o idmef_value_type \<Rightarrow> 'o cast_result" where
  "cast_to_time ce v =
     (if vt_id v = vt_num VT_STRING
      then Option.bind (value_text v) (\<lambda>str. case str of
          None \<Rightarrow> Some (Inl PRELUDE_ERROR_ASSERTION, v)
        | Some buf \<Rightarrow> map_option (\<lambda>(ret, t). case ret of Inl e \<Rightarrow> (Inl e, v) | Inr _ \<Rightarrow> (Inr (), retyped VT_TIME (VD_time t)))
            (idmef_time_new_from_string (\<lambda>_. ce_mem ce) (ce_mktime ce) buf))
      else if vt_id v \<in> {vt_num VT_INT32, vt_num VT_UINT32, vt_num VT_INT64, vt_num VT_UINT64}
      then (case vt_data v of
          VD_int z \<Rightarrow> map_option (\<lambda>r. cast_to v VT_TIME (map_sum id (\<lambda>t. VD_time (Some t)) r))
            (idmef_time_new_from_time (\<lambda>_. ce_mem ce) (ce_gmtoff ce) (conv (True, 64) z))
        | _ \<Rightarrow> None)
      else Some (Inl PRELUDE_ERROR_GENERIC, v))"

definition cast_to_string :: "'o cast_env \<Rightarrow> 'o idmef_value_type \<Rightarrow> 'o cast_result" where
  "cast_to_string ce v =
     (case prelude_string_new (\<lambda>_. ce_mem ce) of
        Inl e \<Rightarrow> Some (Inl e, v)
      | Inr out \<Rightarrow> map_option (\<lambda>(ret, out). case ret of Inl e \<Rightarrow> (Inl e, v) | Inr _ \<Rightarrow> (Inr (), retyped VT_STRING (VD_string (Some out))))
          (idmef_value_type_write (ce_tbl ce) v out))"

text \<open>The new value has no class and no data before it is read. A null pointer is read when the type can be.\<close>

definition cast_from_string :: "'o cast_env \<Rightarrow> 'o idmef_value_type \<Rightarrow> int \<Rightarrow> 'o cast_result" where
  "cast_from_string ce v ntype =
     (let vt = \<lparr>vt_id = ntype, vt_data = VD_int 0\<rparr>;
          result = (\<lambda>r. case r of Inl e \<Rightarrow> (Inl e, v) | Inr new \<Rightarrow> (Inr (), new)) in
      case is_type_valid ntype of
        Inl e \<Rightarrow> Some (Inl e, v)
      | Inr _ \<Rightarrow> if op_read (ce_tbl ce ! nat ntype) = None then map_option result (idmef_value_type_read (ce_tbl ce) vt [])
               else Option.bind (value_text v) (\<lambda>str. Option.bind str (\<lambda>buf. map_option result (idmef_value_type_read (ce_tbl ce) vt buf))))"

text \<open>The macro, for a value of an integer type.\<close>

definition VALUE_CAST_CHECK :: "'o cast_env \<Rightarrow> 'o idmef_value_type \<Rightarrow> c_type \<Rightarrow> int \<Rightarrow> 'o cast_result" where
  "VALUE_CAST_CHECK ce v itype ntype =
     (case vt_data v of
        VD_int src \<Rightarrow> (case int_type ntype of
            Some dst_type \<Rightarrow>
              if CASTCHK itype dst_type src then Some (Inr (), \<lparr>vt_id = ntype, vt_data = VD_int (conv dst_type src)\<rparr>)
              else Some (Inl PRELUDE_ERROR_GENERIC, v)
          | None \<Rightarrow>
              if float_type ntype
              then Some (case ce_float_cast ce (vt_id v) ntype (VD_int src) of
                  Inl e \<Rightarrow> (Inl e, v) | Inr d \<Rightarrow> (Inr (), \<lparr>vt_id = ntype, vt_data = d\<rparr>))
              else Some (Inl PRELUDE_ERROR_GENERIC, v))
      | _ \<Rightarrow> None)"

definition idmef_value_cast :: "'o cast_env \<Rightarrow> 'o idmef_value_type \<Rightarrow> int \<Rightarrow> int \<Rightarrow> 'o cast_result" where
  "idmef_value_cast ce v ntype cls =
     (if ntype = vt_num VT_DATA then cast_to_data ce v
      else if ntype = vt_num VT_TIME then cast_to_time ce v
      else if ntype = vt_num VT_STRING then cast_to_string ce v
      else if ntype = vt_num VT_ENUM \<and> vt_id v = vt_num VT_STRING
      then map_option (\<lambda>str. case str of
          None \<Rightarrow> (Inl PRELUDE_ERROR_ASSERTION, v)
        | Some buf \<Rightarrow> cast_to v VT_ENUM (map_sum id (\<lambda>n. VD_enum n cls) (ce_enum ce cls buf))) (value_text v)
      else case int_type (vt_id v) of
        Some itype \<Rightarrow> VALUE_CAST_CHECK ce v itype ntype
      | None \<Rightarrow>
          if float_type (vt_id v)
          then if int_type ntype \<noteq> None \<or> float_type ntype
               then Some (case ce_float_cast ce (vt_id v) ntype (vt_data v) of
                  Inl e \<Rightarrow> (Inl e, v) | Inr d \<Rightarrow> (Inr (), \<lparr>vt_id = ntype, vt_data = d\<rparr>))
               else Some (Inl PRELUDE_ERROR_GENERIC, v)
          else if vt_id v = vt_num VT_STRING then cast_from_string ce v ntype
          else Some (Inl PRELUDE_ERROR_GENERIC, v))"

section \<open>Integers keep their value\<close>

definition type_range :: "c_type \<Rightarrow> int \<times> int" where
  "type_range t = (if fst t then (- (2 ^ (snd t - 1)), 2 ^ (snd t - 1) - 1) else (0, 2 ^ snd t - 1))"

definition in_range :: "c_type \<Rightarrow> int \<Rightarrow> bool" where
  "in_range t v \<longleftrightarrow> fst (type_range t) \<le> v \<and> v \<le> snd (type_range t)"

lemma conv_in_range: "0 < snd t \<Longrightarrow> in_range t (conv t v)"
  using signed_take_bit_int_greater_eq_minus_exp [of "snd t - 1" v] signed_take_bit_int_less_exp [of "snd t - 1" v] take_bit_int_less_exp [of "snd t" v]
  by (auto simp: in_range_def type_range_def conv_def)

lemma conv_id: "0 < snd t \<Longrightarrow> conv t v = v \<longleftrightarrow> in_range t v"
proof -
  assume "0 < snd t"
  moreover have "in_range t v \<Longrightarrow> conv t v = v"
    by (auto simp: in_range_def type_range_def conv_def signed_take_bit_int_eq_self take_bit_int_eq_self split: if_splits)
  ultimately show ?thesis using conv_in_range [of t v] by metis
qed

lemma conv_cong: "0 < snd t \<Longrightarrow> conv t v mod 2 ^ snd t = v mod 2 ^ snd t"
proof -
  assume "0 < snd t"
  then have "take_bit (snd t) (signed_take_bit (snd t - 1) v) = take_bit (snd t) v" by (simp add: take_bit_signed_take_bit)
  then show ?thesis by (simp add: conv_def take_bit_eq_mod)
qed

lemma common_wide: "snd a \<le> snd (common_type a b)" "snd b \<le> snd (common_type a b)" "32 \<le> snd (common_type a b)"
  by (auto simp: common_type_def promote_def Let_def)

lemma in_range_signed: "fst t \<Longrightarrow> in_range t v \<longleftrightarrow> - (2 ^ (snd t - 1)) \<le> v \<and> v < 2 ^ (snd t - 1)"
  and in_range_unsigned: "\<not> fst t \<Longrightarrow> in_range t v \<longleftrightarrow> 0 \<le> v \<and> v < 2 ^ snd t"
  by (auto simp: in_range_def type_range_def)

text \<open>The values of a type lie within the width of every wider type.\<close>

lemma range_bounds:
  assumes "in_range t v" "0 < snd t" "snd t \<le> n"
  shows "- (2 ^ (n - 1)) \<le> v" "v < 2 ^ n"
proof -
  have p: "(2 :: int) ^ (snd t - 1) \<le> 2 ^ (n - 1)" "(2 :: int) ^ snd t \<le> 2 ^ n" "(2 :: int) ^ (snd t - 1) \<le> 2 ^ n" "0 < (2 :: int) ^ (n - 1)"
    using assms(3) by (simp_all add: power_increasing)
  show "- (2 ^ (n - 1)) \<le> v"
    by (cases "fst t") (use assms(1) in_range_signed [of t v] in_range_unsigned [of t v] p in linarith)+
  show "v < 2 ^ n"
    by (cases "fst t") (use assms(1) in_range_signed [of t v] in_range_unsigned [of t v] p in linarith)+
qed

lemma range_in_int:
  assumes "in_range t v" "0 < snd t"
  shows "in_range (common_type t (True, 32)) v"
proof -
  consider "snd t < 32" | "snd t = 32" | "32 < snd t" by linarith
  then show ?thesis
  proof cases
    case 1
    then have "common_type t (True, 32) = (True, 32)" by (simp add: common_type_def promote_def)
    moreover have "- (2 ^ 31) \<le> v" "v < 2 ^ 31" using range_bounds [OF assms, of 31] range_bounds [OF assms, of 32] 1 by simp_all
    ultimately show ?thesis by (simp add: in_range_signed)
  next
    case 2
    then have "common_type t (True, 32) = t" by (cases t) (simp add: common_type_def promote_def)
    then show ?thesis using assms(1) by simp
  next
    case 3
    then have "common_type t (True, 32) = t" by (simp add: common_type_def promote_def)
    then show ?thesis using assms(1) by simp
  qed
qed

lemma one_in_range: "32 \<le> snd t \<Longrightarrow> in_range t 1"
proof -
  assume wide: "32 \<le> snd t"
  then have "(2 :: int) ^ 1 \<le> 2 ^ (snd t - 1)" "(2 :: int) ^ 1 \<le> 2 ^ snd t" by (intro power_increasing; simp)+
  then show ?thesis unfolding power_one_right
    by (cases "fst t") (use in_range_signed [of t 1] in_range_unsigned [of t 1] in linarith)+
qed

lemma below_one_iff:
  assumes "0 < snd t" "in_range t v"
  shows "below_one t v \<longleftrightarrow> v < 1"
proof -
  let ?c = "common_type t (True, 32)"
  have "32 \<le> snd ?c" by (rule common_wide)
  then have "conv ?c v = v" "conv ?c 1 = 1" using conv_id [of ?c] range_in_int [OF assms(2,1)] one_in_range [of ?c] by auto
  then show ?thesis by (simp add: below_one_def)
qed

lemma cong_equal:
  fixes v w :: int
  assumes "v mod 2 ^ n = w mod 2 ^ n" "- (2 ^ (n - 1)) \<le> v" "v < 2 ^ n" "- (2 ^ (n - 1)) \<le> w" "w < 2 ^ n" "(v < 1) = (w < 1)" "0 < n"
  shows "v = w"
proof -
  have "2 ^ n dvd v - w" using assms(1) by (simp add: mod_eq_dvd_iff)
  moreover have "(2 :: int) ^ n = 2 * 2 ^ (n - 1)" using assms(7) by (simp add: power_eq_if)
  then have "\<bar>v - w\<bar> < 2 ^ n" using assms(2-6) by linarith
  ultimately show ?thesis using zdvd_imp_le [of "2 ^ n" "\<bar>v - w\<bar>"] by (cases "v = w") auto
qed

text \<open>The check of the macro is exact.\<close>

lemma CASTCHK_iff:
  assumes "0 < snd a" "0 < snd b" "in_range a v"
  shows "CASTCHK a b v \<longleftrightarrow> in_range b v"
proof
  let ?c = "common_type a b" and ?w = "conv b v"
  have w: "in_range b ?w" using assms(2) by (rule conv_in_range)
  assume "CASTCHK a b v"
  then have eq: "conv ?c v = conv ?c ?w" and sign: "(v < 1) = (?w < 1)"
    by (simp_all add: CASTCHK_def c_equal_def below_one_iff [OF assms(1,3)] below_one_iff [OF assms(2) w])
  have c: "0 < snd ?c" "snd a \<le> snd ?c" "snd b \<le> snd ?c" using common_wide [of a b] common_wide(2) [where a = a and b = b] by auto
  have "v mod 2 ^ snd ?c = ?w mod 2 ^ snd ?c" using eq conv_cong [OF c(1), of v] conv_cong [OF c(1), of ?w] by simp
  then have "v = ?w"
    using range_bounds [OF assms(3,1) c(2)] range_bounds [OF w assms(2) c(3)] sign c(1) by (rule cong_equal)
  then show "in_range b v" using w by simp
next
  assume "in_range b v"
  then show "CASTCHK a b v"
    using below_one_iff [OF assms(1,3)] below_one_iff [OF assms(2), of v] conv_id [OF assms(2), of v] by (simp add: CASTCHK_def c_equal_def)
qed

lemma int_bounds_type:
  assumes "int_bounds t = Some (lo, hi)"
  shows "\<exists>c. int_type (vt_num t) = Some c \<and> 0 < snd c \<and> type_range c = (lo, hi)"
  using assms by (cases t) (auto simp: int_type_def type_range_def)

text \<open>
  C14. A number of one of the eight integer types is converted to another exactly if that type can represent it, and keeps its value; otherwise the
  conversion fails and nothing has changed.
\<close>

theorem integer_cast:
  assumes "int_bounds t = Some (lo, hi)" "lo \<le> z" "z \<le> hi" "int_bounds u = Some (lo', hi')"
  shows "idmef_value_cast ce (int_value t z) (vt_num u) cls =
    Some (if lo' \<le> z \<and> z \<le> hi' then (Inr (), int_value u z) else (Inl PRELUDE_ERROR_GENERIC, int_value t z))"
proof -
  obtain a where a: "int_type (vt_num t) = Some a" "0 < snd a" "type_range a = (lo, hi)" using int_bounds_type [OF assms(1)] by blast
  obtain b where b: "int_type (vt_num u) = Some b" "0 < snd b" "type_range b = (lo', hi')" using int_bounds_type [OF assms(4)] by blast
  have z: "in_range a z" using assms(2,3) a(3) by (simp add: in_range_def)
  have "vt_num u \<noteq> vt_num VT_DATA" "vt_num u \<noteq> vt_num VT_TIME" "vt_num u \<noteq> vt_num VT_STRING" "vt_num u \<noteq> vt_num VT_ENUM"
    using assms(4) by (cases u; simp)+
  then have "idmef_value_cast ce (int_value t z) (vt_num u) cls = VALUE_CAST_CHECK ce (int_value t z) a (vt_num u)"
    using a(1) by (simp add: idmef_value_cast_def)
  then show ?thesis
    using b CASTCHK_iff [OF a(2) b(2) z] conv_id [OF b(2), of z] by (auto simp: VALUE_CAST_CHECK_def in_range_def)
qed

definition sample_cast :: "unit cast_env" where
  "sample_cast = \<lparr>ce_tbl = sample_tbl Little_Endian, ce_mem = True, ce_char_data = \<lambda>_. Inl PRELUDE_ERROR_ENOMEM, ce_time_data = \<lambda>_. Inl PRELUDE_ERROR_ENOMEM,
     ce_float_cast = \<lambda>_ _ d. Inr d, ce_float_data = \<lambda>_. Inl PRELUDE_ERROR_ENOMEM, ce_gmtoff = \<lambda>_. Inr 0, ce_mktime = \<lambda>_. 0, ce_enum = \<lambda>_ _. Inr 0\<rparr>"

lemma integer_cast_witness:
  "idmef_value_cast sample_cast (int_value VT_INT16 200) (vt_num VT_UINT8) 0 = Some (Inr (), int_value VT_UINT8 200) \<and>
   idmef_value_cast sample_cast (int_value VT_INT16 200) (vt_num VT_INT8) 0 = Some (Inl PRELUDE_ERROR_GENERIC, int_value VT_INT16 200)"
proof -
  have b: "int_bounds VT_INT16 = Some (- 32768, 32767)" "- 32768 \<le> (200 :: int)" "(200 :: int) \<le> 32767"
    "int_bounds VT_UINT8 = Some (0, 255)" "int_bounds VT_INT8 = Some (- 128, 127)" by simp_all
  show ?thesis using integer_cast [OF b(1-4), of sample_cast 0] integer_cast [OF b(1-3,5), of sample_cast 0] by simp
qed

section \<open>Integers as strings\<close>

lemma unat_of_char: "unat (of_char c :: byte) = of_char c"
proof -
  have "of_char c = (of_char c :: nat) mod 256" using of_char_of [of "of_char c :: nat"] by (simp only: char_of_char)
  then have "(of_char c :: nat) < 256" by (metis mod_less_divisor zero_less_numeral)
  then have "unat (word_of_nat (of_char c) :: byte) = of_char c" by (simp add: unat_of_nat)
  then show ?thesis by (simp only: of_nat_of_char)
qed

lemma text_bytes_inverse: "map (\<lambda>b. char_of (unat b)) (text_bytes cs) = cs"
  by (induction cs) (simp_all add: unat_of_char)

lemma length_dec: "0 < n \<Longrightarrow> x < 10 ^ n \<Longrightarrow> length (dec x) \<le> n"
proof (induction n arbitrary: x)
  case (Suc n)
  show ?case
  proof (cases "x < 10")
    case True
    then show ?thesis by (simp add: dec.simps)
  next
    case False
    then have "n \<noteq> 0" using Suc.prems by (cases n) auto
    moreover have "x div 10 < 10 ^ n" using Suc.prems by (simp add: less_mult_imp_div_less mult.commute)
    ultimately have "length (dec (x div 10)) \<le> n" using Suc.IH by simp
    then show ?thesis using False by (subst dec.simps) simp
  qed
qed simp

lemma dec_int_no_zero: "0 \<notin> set (text_bytes (dec_int 0 z))"
proof -
  define D where "D = set ''0123456789''"
  have "\<forall>c \<in> D. of_char c \<noteq> (0 :: byte)" "of_char CHR ''-'' \<noteq> (0 :: byte)" unfolding D_def by simp_all
  moreover have "set (dec n) \<subseteq> D" for n unfolding D_def by (rule set_dec)
  ultimately have "c \<in> set (dec n) \<Longrightarrow> of_char c \<noteq> (0 :: byte)" for c n by blast
  then show ?thesis by (auto simp: dec_int_0 image_iff)
qed

text \<open>The text of a string object, from its value.\<close>

lemma value_text_string:
  assumes "str_ok s" "str_val s = text_bytes cs" "cs \<noteq> []" "0 \<notin> set (text_bytes cs)"
  shows "value_text (retyped t (VD_string (Some s))) = Some (Some cs)"
proof -
  obtain d where d: "str_data s = Some d" "str_index s < length d" "d ! str_index s = 0" "take (str_index s) d = text_bytes cs"
    using assms(1-3) by (cases rule: str_okE) auto
  then have "c_string d = text_bytes cs" "0 \<in> set d" using take_index_c_string [of d "str_index s"] assms(4) by auto
  then show ?thesis using d(1) by (simp add: value_text_def prelude_string_get_string_def text_bytes_inverse del: map_map)
qed

lemma sprintf_number:
  assumes "\<bar>z\<bar> < 2 ^ 64"
  shows "\<exists>n s. prelude_string_sprintf (\<lambda>_. True) empty_string (Some (text_bytes (dec_int 0 z))) = Some (Inr n, s) \<and>
    str_ok s \<and> str_val s = text_bytes (dec_int 0 z)"
proof -
  have "nat \<bar>z\<bar> < 10 ^ 20" using assms by (simp add: nat_less_iff)
  then have "length (dec (nat \<bar>z\<bar>)) \<le> 20" by (intro length_dec) simp_all
  moreover have "length (text_bytes (dec_int 0 z)) \<le> Suc (length (dec (nat \<bar>z\<bar>)))" by (simp add: dec_int_0)
  ultimately have "length (text_bytes (dec_int 0 z)) \<le> 21" by linarith
  then have "str_size empty_string + length (text_bytes (dec_int 0 z)) < 2 ^ 45" by (simp add: empty_string_def)
  from vprintf_any [OF empty_string_ok(1) this] show ?thesis by (auto simp: prelude_string_sprintf_def)
qed

text \<open>An integer that is converted to a string and back to its type is the same integer.\<close>

theorem cast_string_roundtrip:
  assumes "int_bounds t = Some (lo, hi)" "lo \<le> z" "z \<le> hi" "ce_tbl ce = ops_tbl env copy" "ce_mem ce"
  shows "\<exists>s. idmef_value_cast ce (int_value t z) (vt_num VT_STRING) cls = Some (Inr (), retyped VT_STRING (VD_string (Some s))) \<and>
    idmef_value_cast ce (retyped VT_STRING (VD_string (Some s))) (vt_num t) cls = Some (Inr (), int_value t z)"
proof -
  have rw: "idmef_value_type_write (ops_tbl env copy) (int_value t z) out = prelude_string_sprintf (\<lambda>_. True) out (Some (text_bytes (dec_int 0 z)))"
    "idmef_value_type_read (ops_tbl env copy) (int_value t 0) (dec_int 0 z) = Some (Inr (int_value t z))" for out
    using integer_read_write [OF assms(1-3)] by blast+
  have "\<bar>z\<bar> < 2 ^ 64" using assms(1) by (cases rule: int_bounds_cases) (use assms(2,3) in simp_all)
  then obtain n s where s: "prelude_string_sprintf (\<lambda>_. True) empty_string (Some (text_bytes (dec_int 0 z))) = Some (Inr n, s)"
    "str_ok s" "str_val s = text_bytes (dec_int 0 z)" using sprintf_number by blast
  have to: "idmef_value_cast ce (int_value t z) (vt_num VT_STRING) cls = Some (Inr (), retyped VT_STRING (VD_string (Some s)))"
    using s(1) assms(4,5) by (simp add: idmef_value_cast_def cast_to_string_def prelude_string_new_def rw)
  have "\<exists>read. op_read (ops_tbl env copy ! nat (vt_num t)) = Some read \<and> is_type_valid (vt_num t) = Inr () \<and>
      vt_num t \<notin> {vt_num VT_DATA, vt_num VT_TIME, vt_num VT_STRING, vt_num VT_ENUM}"
    using assms(1) by (cases t) (auto simp: ops_tbl_def is_type_valid_def Let_def)
  then obtain read where "op_read (ops_tbl env copy ! nat (vt_num t)) = Some read" "is_type_valid (vt_num t) = Inr ()"
      "vt_num t \<notin> {vt_num VT_DATA, vt_num VT_TIME, vt_num VT_STRING, vt_num VT_ENUM}" by blast
  moreover have "int_type (vt_num VT_STRING) = None" "\<not> float_type (vt_num VT_STRING)" by (simp_all add: int_type_def float_type_def)
  ultimately have "idmef_value_cast ce (retyped VT_STRING (VD_string (Some s))) (vt_num t) cls = Some (Inr (), int_value t z)"
    using rw(2) assms(4)
    by (simp add: value_text_string [OF s(2,3) dec_int_nonempty dec_int_no_zero] idmef_value_cast_def cast_from_string_def Let_def del: vt_num.simps)
  then show ?thesis using to by blast
qed

lemma cast_string_roundtrip_witness:
  "\<exists>s. idmef_value_cast sample_cast (int_value VT_INT8 (- 5)) (vt_num VT_STRING) 0 = Some (Inr (), retyped VT_STRING (VD_string (Some s))) \<and>
    idmef_value_cast sample_cast (retyped VT_STRING (VD_string (Some s))) (vt_num VT_INT8) 0 = Some (Inr (), int_value VT_INT8 (- 5))"
proof -
  have "int_bounds VT_INT8 = Some (- 128, 127)" "- 128 \<le> (- 5 :: int)" "(- 5 :: int) \<le> 127"
    "ce_tbl sample_cast = ops_tbl (sample_env Little_Endian) (\<lambda>_. Inl PRELUDE_ERROR_ENOMEM)" "ce_mem sample_cast"
    by (simp_all add: sample_cast_def sample_tbl_def)
  then show ?thesis by (rule cast_string_roundtrip)
qed

end
