(* ===== verification/Connection.thy ===== *)
theory Connection
  imports PError CText
begin

text \<open>
  Connections (\<open>src/prelude-connection.c\<close>) and the addresses they are made from (\<open>prelude_parse_address\<close> of \<open>src/common.c\<close>): the text of addresses and
  of permissions, and the states of a connection.

  Sockets, authentication and the transport of messages are a parameter, \<open>network\<close>: the results of the calls by their number, which every operation
  counts. A \<open>None\<close> is a call that never returns, or an access outside of a buffer.
\<close>

section \<open>Addresses\<close>

text \<open>\<open>strtoul\<close> with base 10.\<close>

definition strtoul10 :: "string \<Rightarrow> int \<times> string" where
  "strtoul10 s =
     (let t = dropWhile isspace s;
          neg = (t \<noteq> [] \<and> hd t = CHR ''-'');
          u = (if t \<noteq> [] \<and> hd t \<in> set ''+-'' then tl t else t)
      in if \<not> starts_digit 10 u then (0, s)
         else case scan 10 (length u) 0 u of (n, rest) \<Rightarrow>
           (if 2 ^ 64 \<le> n then 2 ^ 64 - 1 else (if neg then - int n else int n) mod 2 ^ 64, rest))"

abbreviation colon :: char where "colon \<equiv> CHR '':''"

text \<open>What is before and after the first and the last character of a kind, as \<open>strchr\<close> and \<open>strrchr\<close> find them.\<close>

fun strchr :: "char \<Rightarrow> string \<Rightarrow> (string \<times> string) option" where
  "strchr c [] = None"
| "strchr c (x # s) = (if x = c then Some ([], s) else map_option (\<lambda>(a, b). (x # a, b)) (strchr c s))"

definition strrchr :: "char \<Rightarrow> string \<Rightarrow> (string \<times> string) option" where
  "strrchr c s = map_option (\<lambda>(a, b). (rev b, rev a)) (strchr c (rev s))"

text \<open>The port keeps its value when the text names none; it is an \<open>unsigned int\<close>.\<close>

definition prelude_parse_address :: "string \<Rightarrow> nat \<Rightarrow> (string \<times> nat) result" where
  "prelude_parse_address str port =
     (case (case strchr (CHR ''['') str of
              None \<Rightarrow> Some (None, str)
            | Some (_, input) \<Rightarrow> map_option (\<lambda>(a, r). (Some a, r)) (strchr (CHR '']'') input)) of
        None \<Rightarrow> Inl PRELUDE_ERROR_GENERIC
      | Some (host, port_ptr) \<Rightarrow>
          (case strrchr colon port_ptr of
             None \<Rightarrow> Inr (case host of None \<Rightarrow> port_ptr | Some a \<Rightarrow> a, port)
           | Some (before, digits) \<Rightarrow>
               (case strtoul10 digits of (n, rest) \<Rightarrow>
                 if rest \<noteq> [] then Inl PRELUDE_ERROR_GENERIC
                 else Inr (case host of None \<Rightarrow> before | Some a \<Rightarrow> a, nat (n mod 2 ^ 32)))))"

section \<open>Permissions\<close>

abbreviation PERMISSION_IDMEF_READ :: u32 where "PERMISSION_IDMEF_READ \<equiv> 1"
abbreviation PERMISSION_ADMIN_READ :: u32 where "PERMISSION_ADMIN_READ \<equiv> 2"
abbreviation PERMISSION_IDMEF_WRITE :: u32 where "PERMISSION_IDMEF_WRITE \<equiv> 4"
abbreviation PERMISSION_ADMIN_WRITE :: u32 where "PERMISSION_ADMIN_WRITE \<equiv> 8"

definition permission_tbl :: "(string \<times> u32 \<times> u32) list" where
  "permission_tbl = [(''idmef'', PERMISSION_IDMEF_READ, PERMISSION_IDMEF_WRITE), (''admin'', PERMISSION_ADMIN_READ, PERMISSION_ADMIN_WRITE)]"

fun permission_entries :: "(string \<times> u32 \<times> u32) list \<Rightarrow> u32 \<Rightarrow> string \<Rightarrow> string" where
  "permission_entries [] permission out = out"
| "permission_entries ((name, rd, wr) # tbl) permission out =
     permission_entries tbl permission
       (if permission AND (rd OR wr) = 0 then out
        else out @ (if out \<noteq> [] then '' '' else '''') @ name @ '':'' @
          (if permission AND rd = rd then ''r'' else '''') @ (if permission AND wr = wr then ''w'' else ''''))"

definition prelude_connection_permission_to_string :: "u32 \<Rightarrow> string \<Rightarrow> string" where
  "prelude_connection_permission_to_string permission out = permission_entries permission_tbl permission out"

text \<open>
  The text is copied to a buffer of 1024 bytes and scanned there. A pointer into the buffer is the rest of the buffer behind it; reading the empty rest
  is out of bounds.
\<close>

abbreviation nul :: char where "nul \<equiv> CHR 0x00"

definition strncpy_buf :: "nat \<Rightarrow> string \<Rightarrow> string" where
  "strncpy_buf n s = take n (s @ replicate n nul)"

fun strsep_colon :: "string \<Rightarrow> (string \<times> string option) option" where
  "strsep_colon [] = None"
| "strsep_colon (c # r) =
     (if c = nul then Some ([], None) else if c = colon then Some ([], Some r)
      else map_option (\<lambda>(t, q). (c # t, q)) (strsep_colon r))"

fun skip_blanks :: "string \<Rightarrow> string option" where
  "skip_blanks [] = None"
| "skip_blanks (c # r) = (if c = CHR '' '' then skip_blanks r else Some (c # r))"

text \<open>The characters of one entry, up to a blank or the zero byte; the pointer is behind that.\<close>

fun permission_bits :: "u32 \<Rightarrow> u32 \<Rightarrow> u32 \<Rightarrow> string \<Rightarrow> (u32 \<times> string) result option" where
  "permission_bits rd wr out [] = None"
| "permission_bits rd wr out (c # r) =
     (if c = nul then Some (Inr (out, r))
      else if c = CHR ''r'' then permission_bits rd wr (out OR rd) r
      else if c = CHR ''w'' then permission_bits rd wr (out OR wr) r
      else if c = CHR '' '' then Some (Inr (out, r))
      else Some (Inl PRELUDE_ERROR_UNKNOWN_PERMISSION_BIT))"

lemma strsep_shorter: "strsep_colon s = Some (t, Some q) \<Longrightarrow> length q < length s"
  by (induction s arbitrary: t q) (fastforce split: if_splits)+

lemma skip_blanks_shorter: "skip_blanks s = Some q \<Longrightarrow> length q \<le> length s"
  by (induction s) (auto split: if_splits)

lemma permission_bits_shorter: "permission_bits rd wr out s = Some (Inr (out', q)) \<Longrightarrow> length q < length s"
  by (induction s arbitrary: out) (fastforce split: if_splits)+

function permission_words :: "u32 \<Rightarrow> string \<Rightarrow> u32 result option" where
  "permission_words out tmp =
     (case strsep_colon tmp of
        None \<Rightarrow> None
      | Some (tptr, None) \<Rightarrow> Some (Inr out)
      | Some (tptr, Some q) \<Rightarrow>
          (if dropWhile (\<lambda>c. c = CHR '' '') tptr = [] then permission_words out q
           else case map_of permission_tbl (dropWhile (\<lambda>c. c = CHR '' '') tptr) of
               None \<Rightarrow> Some (Inl PRELUDE_ERROR_UNKNOWN_PERMISSION_TYPE)
             | Some (rd, wr) \<Rightarrow>
                 (case skip_blanks q of
                    None \<Rightarrow> None
                  | Some q' \<Rightarrow>
                      (case permission_bits rd wr out q' of
                         None \<Rightarrow> None
                       | Some (Inl e) \<Rightarrow> Some (Inl e)
                       | Some (Inr (out', q'')) \<Rightarrow> permission_words out' q''))))"
  by pat_completeness auto
termination
  by (relation "measure (\<lambda>(out, tmp). length tmp)")
    (auto dest!: strsep_shorter skip_blanks_shorter permission_bits_shorter)

definition prelude_connection_permission_new_from_string :: "string \<Rightarrow> u32 result option" where
  "prelude_connection_permission_new_from_string permission = permission_words 0 (strncpy_buf 1024 permission)"

section \<open>The network\<close>

record 'm network =
  ne_socket :: "nat \<Rightarrow> nat result"
  ne_auth :: "nat \<Rightarrow> u32 result"
  ne_sockname :: "nat \<Rightarrow> unit result"
  ne_close :: "nat \<Rightarrow> unit result \<times> bool"
  ne_send :: "nat \<Rightarrow> unit result"
  ne_recv :: "nat \<Rightarrow> 'm result"
  ne_tag :: "'m \<Rightarrow> nat"
  ne_resolve :: "string \<Rightarrow> nat \<Rightarrow> bool"
  ne_backup :: "string \<Rightarrow> 'm list result"
  ne_select :: "nat \<Rightarrow> nat set \<Rightarrow> nat \<Rightarrow> nat \<times> nat \<Rightarrow> nat set result"
  ne_time :: "nat \<Rightarrow> int \<times> int"

text \<open>
  \<open>ne_socket\<close> and \<open>ne_auth\<close> are \<open>generic_connect\<close> and \<open>tls_auth_connection\<close>, which gives the permission; \<open>ne_close\<close> is \<open>prelude_io_close\<close> with the fatality of its error,
  \<open>ne_send\<close> writes a message and looks whether the peer has closed, \<open>ne_backup\<close> opens the failover of a directory with the messages in it.

  \<open>con_open\<close> tells whether the descriptor is an open one; \<open>con_sent\<close> what was sent through the connection.
\<close>

record 'm connection =
  con_id :: nat
  con_unix :: bool
  con_daddr :: string
  con_dport :: nat
  con_alive :: bool
  con_own_fd :: bool
  con_fd :: nat
  con_open :: bool
  con_permission :: u32
  con_sent :: "'m list"

definition UNIX_SOCKET :: string where "UNIX_SOCKET = ''/tmp/.prelude-unix''"
definition DEFAULT_PORT :: nat where "DEFAULT_PORT = 4690"

text \<open>The address of a Unix socket is what follows the first colon; other addresses are resolved.\<close>

definition is_unix_addr :: "string \<Rightarrow> string option" where
  "is_unix_addr addr =
     (if take 4 addr \<noteq> ''unix'' then None
      else case strchr colon addr of Some (_, path) \<Rightarrow> Some (if path = [] then UNIX_SOCKET else path) | None \<Rightarrow> Some UNIX_SOCKET)"

definition do_getaddrinfo :: "'m network \<Rightarrow> string \<Rightarrow> string result" where
  "do_getaddrinfo net addr_string =
     (case prelude_parse_address addr_string DEFAULT_PORT of
        Inl e \<Rightarrow> Inl e
      | Inr (addr, port) \<Rightarrow>
          if ne_resolve net addr port
          then Inr (take 1023 (addr @ '':'' @ dec_int 0 (if port < 2 ^ 31 then int port else int port - 2 ^ 32)))
          else Inl PRELUDE_ERROR_CANT_RESOLVE)"

definition prelude_connection_new :: "'m network \<Rightarrow> nat \<Rightarrow> string \<Rightarrow> 'm connection result" where
  "prelude_connection_new net ident addr =
     (case (case is_unix_addr addr of Some path \<Rightarrow> Inr (True, path) | None \<Rightarrow> map_sum id (\<lambda>d. (False, d)) (do_getaddrinfo net addr)) of
        Inl e \<Rightarrow> Inl e
      | Inr (un, daddr) \<Rightarrow> Inr \<lparr>con_id = ident, con_unix = un, con_daddr = daddr, con_dport = 0, con_alive = False, con_own_fd = True,
          con_fd = 0, con_open = False, con_permission = 0, con_sent = []\<rparr>)"

section \<open>Operations\<close>

abbreviation prelude_connection_is_alive :: "'m connection \<Rightarrow> bool" where
  "prelude_connection_is_alive con \<equiv> con_alive con"

definition prelude_connection_get_peer_port :: "'m connection \<Rightarrow> nat" where
  "prelude_connection_get_peer_port con = con_dport con"

text \<open>The state is two bits; it is set to both of them.\<close>

definition prelude_connection_set_state :: "bool \<Rightarrow> bool \<Rightarrow> 'm connection \<Rightarrow> 'm connection" where
  "prelude_connection_set_state established own con = con\<lparr>con_alive := established, con_own_fd := own\<rparr>"

definition close_connection_fd :: "'m network \<Rightarrow> nat \<Rightarrow> 'm connection \<Rightarrow> unit result \<times> nat \<times> 'm connection" where
  "close_connection_fd net n con =
     (if \<not> con_alive con then (Inl PRELUDE_ERROR_GENERIC, n, con)
      else case ne_close net n of (ret, fatal) \<Rightarrow>
        (ret, n + 1, if \<not> isl ret \<or> fatal then con\<lparr>con_alive := False, con_open := False\<rparr> else con))"

definition prelude_connection_close :: "'m network \<Rightarrow> nat \<Rightarrow> 'm connection \<Rightarrow> unit result \<times> nat \<times> 'm connection" where
  "prelude_connection_close net n con = close_connection_fd net n con"

text \<open>The number of the call behind the last one that closes.\<close>

partial_function (option) io_close_block :: "'m network \<Rightarrow> nat \<Rightarrow> nat option" where
  "io_close_block net n = (case ne_close net n of (ret, fatal) \<Rightarrow> if isl ret \<and> \<not> fatal then io_close_block net (n + 1) else Some (n + 1))"

definition close_connection_fd_block :: "'m network \<Rightarrow> nat \<Rightarrow> 'm connection \<Rightarrow> (nat \<times> 'm connection) option" where
  "close_connection_fd_block net n con =
     (if \<not> con_alive con then Some (n, con)
      else map_option (\<lambda>n'. (n', con\<lparr>con_alive := False, con_open := False\<rparr>)) (io_close_block net n))"

definition handle_authentication :: "'m network \<Rightarrow> u32 \<Rightarrow> nat \<Rightarrow> 'm connection \<Rightarrow> unit result \<times> 'm connection" where
  "handle_authentication net reqperms n con =
     (case ne_auth net n of
        Inl e \<Rightarrow> (Inl e, con)
      | Inr perm \<Rightarrow> (if perm AND reqperms \<noteq> reqperms then Inl PRELUDE_ERROR_PROFILE else Inr (), con\<lparr>con_permission := perm\<rparr>))"

definition do_connect :: "'m network \<Rightarrow> u32 \<Rightarrow> nat \<Rightarrow> 'm connection \<Rightarrow> (unit result \<times> nat \<times> 'm connection) option" where
  "do_connect net reqperms n con =
     (case ne_socket net n of
        Inl e \<Rightarrow> Some (Inl e, n + 1, con)
      | Inr fd \<Rightarrow>
          (case handle_authentication net reqperms (n + 1) (con\<lparr>con_fd := fd, con_open := True\<rparr>) of
             (Inl e, con1) \<Rightarrow> map_option (\<lambda>n'. (Inl e, n', con1\<lparr>con_open := False\<rparr>)) (io_close_block net (n + 2))
           | (Inr _, con1) \<Rightarrow> Some (if con_unix con then (Inr (), n + 2, con1) else (ne_sockname net (n + 2), n + 3, con1))))"

text \<open>After an error of the first message the connection is not established, so that closing it does nothing.\<close>

definition prelude_connection_connect :: "'m network \<Rightarrow> u32 \<Rightarrow> nat \<Rightarrow> 'm connection \<Rightarrow> (unit result \<times> nat \<times> 'm connection) option" where
  "prelude_connection_connect net permission n con =
     Option.bind (close_connection_fd_block net n con) (\<lambda>(n1, con1).
       Option.bind (do_connect net permission n1 con1) (\<lambda>(ret, n2, con2).
         case ret of
           Inl e \<Rightarrow> Some (Inl e, n2, con2)
         | Inr _ \<Rightarrow>
             (case ne_send net n2 of
                Inl e \<Rightarrow> map_option (\<lambda>(n3, con3). (Inl e, n3, con3)) (close_connection_fd_block net (n2 + 1) con2)
              | Inr _ \<Rightarrow> Some (Inr (), n2 + 1, con2\<lparr>con_alive := True\<rparr>))))"

definition prelude_connection_send :: "'m network \<Rightarrow> 'm \<Rightarrow> nat \<Rightarrow> 'm connection \<Rightarrow> unit result \<times> nat \<times> 'm connection" where
  "prelude_connection_send net msg n con =
     (if \<not> con_alive con then (Inl PRELUDE_ERROR_GENERIC, n, con)
      else (ne_send net n, n + 1, if isl (ne_send net n) then con else con\<lparr>con_sent := con_sent con @ [msg]\<rparr>))"

definition prelude_connection_recv :: "'m network \<Rightarrow> nat \<Rightarrow> 'm connection \<Rightarrow> 'm result \<times> nat" where
  "prelude_connection_recv net n con =
     (if \<not> con_alive con then (Inl PRELUDE_ERROR_GENERIC, n)
      else (case ne_recv net n of
          Inl e \<Rightarrow> Inl e
        | Inr msg \<Rightarrow>
            if ne_tag net msg = 0 \<and> con_permission con AND PERMISSION_IDMEF_READ = 0 \<or>
               ne_tag net msg = 7 \<and> con_permission con AND PERMISSION_ADMIN_READ = 0
            then Inl PRELUDE_ERROR_PROFILE else Inr msg, n + 1))"

section \<open>Addresses and permissions are read as they are written\<close>

lemma strchr_first: "c \<notin> set a \<Longrightarrow> strchr c (a @ c # b) = Some (a, b)"
  by (induction a) auto

lemma strchr_none: "c \<notin> set a \<Longrightarrow> strchr c a = None"
  by (induction a) auto

lemma strrchr_last: "c \<notin> set b \<Longrightarrow> strrchr c (a @ c # b) = Some (a, b)"
  using strchr_first [of c "rev b" "rev a"] by (simp add: strrchr_def)

lemma strrchr_none: "c \<notin> set a \<Longrightarrow> strrchr c a = None"
  by (simp add: strrchr_def strchr_none)

lemma dec_no_colon: "colon \<notin> set (dec n)"
  using set_dec [of n] by auto

lemma strtoul10_dec:
  assumes "n < 2 ^ 64"
  shows "strtoul10 (dec n) = (int n, [])"
proof -
  have digits: "\<not> isspace c \<and> c \<notin> set ''+-'' \<and> char_digit 10 c \<noteq> None" if "c \<in> set (dec n)" for c
    using set_dec [of n] that by (auto simp: isspace_def char_digit_def)
  obtain c r where "dec n = c # r" using hd_dec [of n] by (cases "dec n") auto
  then have "dropWhile isspace (dec n) = dec n" "hd (dec n) \<notin> set ''+-''" "starts_digit 10 (dec n)"
    using digits by (auto simp: starts_digit_def)
  moreover have "scan 10 (length (dec n)) 0 (dec n) = (n, [])" using scan_dec [of "[]" n] by (simp add: starts_digit_def)
  ultimately show ?thesis using assms unfolding strtoul10_def Let_def by (auto simp: hd_dec)
qed

definition host_text :: "bool \<Rightarrow> string \<Rightarrow> string" where
  "host_text bracketed host = (if bracketed then ''['' @ host @ '']'' else host)"

lemma parse_host:
  assumes "CHR ''['' \<notin> set (host @ rest)" "CHR '']'' \<notin> set host"
  shows "(case strchr (CHR ''['') (host_text bracketed host @ rest) of None \<Rightarrow> Some (None, host_text bracketed host @ rest)
      | Some (_, input) \<Rightarrow> map_option (\<lambda>(a, r). (Some a, r)) (strchr (CHR '']'') input))
    = Some (if bracketed then (Some host, rest) else (None, host @ rest))"
  using assms strchr_first [of "CHR ''[''" "[]"] by (auto simp: host_text_def strchr_first strchr_none)

text \<open>
  C29. An address written with its port, in brackets or without them, is parsed into the host and the port, which is cut to 32 bits. Without a port the
  default is kept, unless a host outside of brackets has a colon in it.
\<close>

theorem address_roundtrip:
  assumes "CHR ''['' \<notin> set host" "CHR '']'' \<notin> set host" "port < 2 ^ 64"
  shows "prelude_parse_address (host_text bracketed host @ '':'' @ dec port) dflt = Inr (host, port mod 2 ^ 32) \<and>
    (colon \<notin> set host \<or> bracketed \<longrightarrow> prelude_parse_address (host_text bracketed host) dflt = Inr (host, dflt))"
proof -
  have no_brackets: "CHR ''['' \<notin> set (dec port)" using set_dec [of port] by auto
  have "prelude_parse_address (host_text bracketed host @ '':'' @ dec port) dflt = Inr (host, port mod 2 ^ 32)"
    using assms parse_host [of host "'':'' @ dec port" bracketed] strrchr_last [OF dec_no_colon, of "if bracketed then [] else host" port] no_brackets
    unfolding prelude_parse_address_def
    by (auto simp: strtoul10_dec nat_mod_distrib)
  moreover have "prelude_parse_address (host_text bracketed host) dflt = Inr (host, dflt)" if "colon \<notin> set host \<or> bracketed"
    using assms that parse_host [of host "[]" bracketed, unfolded append_Nil2] unfolding prelude_parse_address_def by (auto simp: strrchr_none)
  ultimately show ?thesis by blast
qed

theorem address_roundtrip_witness:
  "prelude_parse_address (host_text True ''::1'' @ '':'' @ dec 4690) 0 = Inr (''::1'', 4690)"
  using address_roundtrip [of "''::1''" 4690 True 0] by simp

lemma and_bit: "(p::u32) AND 2 ^ n = (if bit p n then 2 ^ n else 0)"
  by (auto simp: bit_eq_iff [where 'a = u32] bit_simps)

lemma permission_parts:
  "p AND (1::u32) = (if bit p 0 then 1 else 0)" "p AND (2::u32) = (if bit p 1 then 2 else 0)"
  "p AND (4::u32) = (if bit p 2 then 4 else 0)" "p AND (8::u32) = (if bit p 3 then 8 else 0)"
  using and_bit [of p 0] and_bit [of p 1] and_bit [of p 2] and_bit [of p 3] by simp_all

lemma permission_sums:
  "p AND (5::u32) = (p AND 1) OR (p AND 4)" "p AND (10::u32) = (p AND 2) OR (p AND 8)"
  "p AND (15::u32) = (p AND 1) OR (p AND 2) OR (p AND 4) OR (p AND 8)"
  by (simp_all flip: bit.conj_disj_distrib)

lemma strncpy_short: "length s \<le> 1022 \<Longrightarrow> strncpy_buf 1024 s = s @ nul # nul # replicate (1022 - length s) nul"
  by (simp add: strncpy_buf_def numeral_eq_Suc flip: replicate_Suc)

text \<open>
  C28. The text of a permission is read as the permission, without the bits that stand for nothing.
\<close>

theorem permission_roundtrip:
  "prelude_connection_permission_new_from_string (prelude_connection_permission_to_string permission []) = Some (Inr (permission AND 15))"
  by (cases "bit permission 0"; cases "bit permission 1"; cases "bit permission 2"; cases "bit permission 3")
    (simp_all add: prelude_connection_permission_to_string_def prelude_connection_permission_new_from_string_def permission_tbl_def
      permission_parts permission_sums strncpy_short permission_words.simps)

text \<open>A network where everything succeeds at once, on descriptor 5, and one where the first message of a connection fails.\<close>

definition good_network :: "'m network" where
  "good_network = \<lparr>ne_socket = \<lambda>_. Inr 5, ne_auth = \<lambda>_. Inr 15, ne_sockname = \<lambda>_. Inr (), ne_close = \<lambda>_. (Inr (), False),
     ne_send = \<lambda>_. Inr (), ne_recv = \<lambda>_. Inl PRELUDE_ERROR_EAGAIN, ne_tag = \<lambda>_. 0, ne_resolve = \<lambda>_ _. True, ne_backup = \<lambda>_. Inr [],
     ne_select = \<lambda>_ fds _ _. Inr fds, ne_time = \<lambda>n. (int n, 0)\<rparr>"

definition unix_connection :: "'m connection" where
  "unix_connection = \<lparr>con_id = 0, con_unix = True, con_daddr = UNIX_SOCKET, con_dport = 0, con_alive = False, con_own_fd = True,
     con_fd = 0, con_open = False, con_permission = 0, con_sent = []\<rparr>"

lemma strsep_first: "colon \<notin> set a \<Longrightarrow> nul \<notin> set a \<Longrightarrow> strsep_colon (a @ colon # b) = Some (a, Some b)"
  by (induction a) auto

text \<open>
  C1. A permission without a colon is ignored; a text of 1023 characters that ends with an entry is read beyond the buffer. A connection whose first message
  cannot be sent keeps its descriptor open, and closing it does nothing. The port of the peer is never set.
\<close>

theorem connection_defects:
  "prelude_connection_permission_new_from_string ''idmef'' = Some (Inr 0) \<and>
   prelude_connection_permission_new_from_string (replicate 1016 (CHR '' '') @ ''idmef:r'') = None \<and>
   (\<not> con_alive con \<and> con_unix con \<and> ne_socket net n = Inr fd \<and> ne_auth net (n + 1) = Inr perm \<and> perm AND req = req \<and> ne_send net (n + 2) = Inl e \<longrightarrow>
      (\<exists>con'. prelude_connection_connect net req n con = Some (Inl e, n + 3, con') \<and> con_open con' \<and>
        close_connection_fd_block net (n + 3) con' = Some (n + 3, con'))) \<and>
   (prelude_connection_new net i addr = Inr con \<longrightarrow> prelude_connection_get_peer_port con = 0)"
proof (intro conjI impI)
  show "prelude_connection_permission_new_from_string ''idmef'' = Some (Inr 0)"
    by (simp add: prelude_connection_permission_new_from_string_def strncpy_short permission_words.simps)
  have "strncpy_buf 1024 (replicate 1016 (CHR '' '') @ ''idmef:r'') = (replicate 1016 (CHR '' '') @ ''idmef'') @ colon # [CHR ''r'', nul]"
    by (simp add: strncpy_buf_def)
  moreover have "dropWhile (\<lambda>c. c = CHR '' '') (replicate n (CHR '' '') @ ''idmef'') = ''idmef''" for n
    by (induction n) auto
  moreover have "strsep_colon ((replicate 1016 (CHR '' '') @ ''idmef'') @ colon # [CHR ''r'', nul]) = Some (replicate 1016 (CHR '' '') @ ''idmef'', Some [CHR ''r'', nul])"
    by (rule strsep_first) auto
  ultimately show "prelude_connection_permission_new_from_string (replicate 1016 (CHR '' '') @ ''idmef:r'') = None"
    unfolding prelude_connection_permission_new_from_string_def
    by (simp add: permission_tbl_def permission_words.simps [of _ "[]"] permission_words.simps [of 0 "_ @ _"])
  show "\<exists>con'. prelude_connection_connect net req n con = Some (Inl e, n + 3, con') \<and> con_open con' \<and>
        close_connection_fd_block net (n + 3) con' = Some (n + 3, con')"
    if "\<not> con_alive con \<and> con_unix con \<and> ne_socket net n = Inr fd \<and> ne_auth net (n + 1) = Inr perm \<and> perm AND req = req \<and> ne_send net (n + 2) = Inl e"
    using that by (simp add: prelude_connection_connect_def close_connection_fd_block_def do_connect_def handle_authentication_def eval_nat_numeral)
  show "prelude_connection_new net i addr = Inr con \<Longrightarrow> prelude_connection_get_peer_port con = 0"
    by (auto simp: prelude_connection_new_def prelude_connection_get_peer_port_def split: sum.splits)
qed

theorem connection_defects_witness:
  "prelude_connection_get_peer_port (unix_connection :: nat connection) = 0 \<and>
   (\<exists>con' :: nat connection. prelude_connection_connect (good_network\<lparr>ne_send := \<lambda>_. Inl PRELUDE_ERROR_ECONNRESET\<rparr>) 15 0 unix_connection = Some (Inl PRELUDE_ERROR_ECONNRESET, 3, con') \<and>
     con_open con' \<and> close_connection_fd_block (good_network\<lparr>ne_send := \<lambda>_. Inl PRELUDE_ERROR_ECONNRESET\<rparr>) 3 con' = Some (3, con'))"
  using connection_defects [of "unix_connection :: nat connection" "good_network\<lparr>ne_send := \<lambda>_. Inl PRELUDE_ERROR_ECONNRESET\<rparr>" 0 5 15 15 PRELUDE_ERROR_ECONNRESET 0 "''unix''"]
  by (simp add: good_network_def unix_connection_def prelude_connection_new_def is_unix_addr_def)

end
