(* ===== verification/Pool.thy ===== *)
theory Pool
  imports Connection
begin

text \<open>
  The connection pool (\<open>src/prelude-connection-pool.c\<close>): a disjunction of conjunctions of connections. A message goes to all connections of the first
  list that is not dead; what cannot be sent is saved in failover files and sent when the connection is back. A failover file is the queue of messages
  that \<open>Failover\<close> shows it to be, and saving succeeds; every operation is one step, as its lock makes it. The event handlers of the user only record
  what they are told. A connection object is in a pool once. \<open>None\<close> is undefined behaviour, a failed assertion or a call that does not return.
\<close>

section \<open>State\<close>

text \<open>A connection that was freed and is still in its list is marked \<open>cx_freed\<close>; \<open>cx_timer\<close> tells whether its timer runs.\<close>

record 'm cnx =
  cx_con :: "'m connection"
  cx_timer :: bool
  cx_expire :: nat
  cx_failover :: "'m list option"
  cx_freed :: bool

record 'm cnx_list =
  cl_and :: "'m cnx list"
  cl_dead :: nat
  cl_total :: nat

datatype event = EVENT_INPUT | EVENT_DEAD | EVENT_ALIVE

text \<open>The log \<open>po_events\<close> has the events of the calls of the handlers, with the connection for the handler of single connections.\<close>

record 'm prelude_connection_pool =
  po_or_list :: "'m cnx_list list"
  po_initialized :: bool
  po_failover :: "'m list option"
  po_nfd :: nat
  po_fds :: "nat set"
  po_refcount :: nat
  po_freed :: bool
  po_connection_string :: "string option"
  po_connection_string_changed :: bool
  po_permission :: u32
  po_backup :: string
  po_reconnect :: bool
  po_use_failover :: bool
  po_timer :: bool
  po_all_cnx :: "nat list"
  po_wanted :: "event set"
  po_global_wanted :: "event set"
  po_events :: "(event set \<times> nat option) list"
  po_jobs :: "'m list"
  po_data :: nat
  po_next :: nat
  po_clock :: nat

type_synonym 'm pool = "'m prelude_connection_pool"

definition INITIAL_EXPIRATION_TIME :: nat where "INITIAL_EXPIRATION_TIME = 10"
definition MAXIMUM_EXPIRATION_TIME :: nat where "MAXIMUM_EXPIRATION_TIME = 3600"
definition FD_SETSIZE :: nat where "FD_SETSIZE = 1024"

text \<open>A connection is addressed by the number of its list and its number there.\<close>

type_synonym place = "nat \<times> nat"

definition cnx_at :: "'m pool \<Rightarrow> place \<Rightarrow> 'm cnx" where
  "cnx_at p c = cl_and (po_or_list p ! fst c) ! snd c"

definition upd_list :: "nat \<Rightarrow> ('m cnx_list \<Rightarrow> 'm cnx_list) \<Rightarrow> 'm pool \<Rightarrow> 'm pool" where
  "upd_list i f p = p\<lparr>po_or_list := (po_or_list p)[i := f (po_or_list p ! i)]\<rparr>"

definition upd_cnx :: "place \<Rightarrow> ('m cnx \<Rightarrow> 'm cnx) \<Rightarrow> 'm pool \<Rightarrow> 'm pool" where
  "upd_cnx c f = upd_list (fst c) (\<lambda>l. l\<lparr>cl_and := (cl_and l)[snd c := f (cl_and l ! snd c)]\<rparr>)"

text \<open>The connection and the number of the next call after an operation of the connection.\<close>

definition set_con :: "place \<Rightarrow> nat \<times> 'm connection \<Rightarrow> 'm pool \<Rightarrow> 'm pool" where
  "set_con c r p = (upd_cnx c (\<lambda>x. x\<lparr>cx_con := snd r\<rparr>) p)\<lparr>po_clock := fst r\<rparr>"

definition list_places :: "'m pool \<Rightarrow> nat \<Rightarrow> place list" where
  "list_places p i = map (Pair i) [0..<length (cl_and (po_or_list p ! i))]"

definition all_places :: "'m pool \<Rightarrow> place list" where
  "all_places p = concat (map (list_places p) [0..<length (po_or_list p)])"

section \<open>Events\<close>

definition global_event_handler :: "event set \<Rightarrow> 'm pool \<Rightarrow> 'm pool" where
  "global_event_handler ev p = (if ev \<inter> po_global_wanted p \<noteq> {} then p\<lparr>po_events := po_events p @ [(ev, None)]\<rparr> else p)"

definition event_handler :: "event \<Rightarrow> nat \<Rightarrow> 'm pool \<Rightarrow> 'm pool" where
  "event_handler ev con p = (if ev \<in> po_wanted p then p\<lparr>po_events := po_events p @ [({ev}, Some con)]\<rparr> else p)"

definition notify_event :: "event \<Rightarrow> nat \<Rightarrow> bool \<Rightarrow> 'm pool \<Rightarrow> 'm pool" where
  "notify_event ev con global_notice p =
     (let p1 = event_handler ev con p in if global_notice then global_event_handler {ev} p1 else p1)"

section \<open>Sending\<close>

partial_function (option) do_send :: "'m network \<Rightarrow> place \<Rightarrow> 'm \<Rightarrow> 'm pool \<Rightarrow> (unit result \<times> 'm pool) option" where
  "do_send net c msg p =
     (case prelude_connection_send net msg (po_clock p) (cx_con (cnx_at p c)) of (ret, r) \<Rightarrow>
        if ret = Inl PRELUDE_ERROR_EAGAIN then do_send net c msg (set_con c r p) else Some (ret, set_con c r p))"

definition failover_save_msg :: "place \<Rightarrow> 'm \<Rightarrow> 'm pool \<Rightarrow> 'm pool" where
  "failover_save_msg c msg = upd_cnx c (\<lambda>x. x\<lparr>cx_failover := map_option (\<lambda>q. q @ [msg]) (cx_failover x)\<rparr>)"

definition init_cnx_timer :: "place \<Rightarrow> 'm pool \<Rightarrow> 'm pool" where
  "init_cnx_timer c p = (if po_reconnect p then upd_cnx c (\<lambda>x. x\<lparr>cx_timer := True\<rparr>) p else p)"

definition set_state_dead :: "'m network \<Rightarrow> place \<Rightarrow> bool \<Rightarrow> 'm pool \<Rightarrow> 'm pool option" where
  "set_state_dead net c global_notice p =
     (let p1 = set_con c (snd (prelude_connection_close net (po_clock p) (cx_con (cnx_at p c)))) p;
          p2 = upd_list (fst c) (\<lambda>l. l\<lparr>cl_dead := cl_dead l + 1\<rparr>) p1;
          p3 = notify_event EVENT_DEAD (con_id (cx_con (cnx_at p c))) global_notice (init_cnx_timer c p2);
          fd = con_fd (cx_con (cnx_at p3 c))
      in if fd < FD_SETSIZE then Some (p3\<lparr>po_fds := po_fds p3 - {fd}\<rparr>) else None)"

fun broadcast_message :: "'m network \<Rightarrow> place list \<Rightarrow> 'm \<Rightarrow> 'm pool \<Rightarrow> 'm pool option" where
  "broadcast_message net [] msg p = Some p"
| "broadcast_message net (c # cs) msg p =
     (if cx_freed (cnx_at p c) then None
      else Option.bind
        (if prelude_connection_is_alive (cx_con (cnx_at p c))
         then Option.bind (do_send net c msg p) (\<lambda>(ret, p1).
           if isl ret then map_option (Pair True) (set_state_dead net c True p1) else Some (False, p1))
         else Some (True, p)) (\<lambda>(failed, p2).
        broadcast_message net cs msg (if failed then failover_save_msg c msg p2 else p2)))"

text \<open>
  \<open>failover_flush\<close> for the file of a connection and for the file of the pool; false is a negative return value. A message that cannot be sent to its
  connection is saved again, behind the others.
\<close>

partial_function (option) flush_cnx :: "'m network \<Rightarrow> place \<Rightarrow> 'm pool \<Rightarrow> (bool \<times> 'm pool) option" where
  "flush_cnx net c p =
     (case cx_failover (cnx_at p c) of
        None \<Rightarrow> Some (True, p)
      | Some [] \<Rightarrow> Some (True, p)
      | Some (msg # q) \<Rightarrow>
          Option.bind (do_send net c msg (upd_cnx c (\<lambda>x. x\<lparr>cx_failover := Some q\<rparr>) p)) (\<lambda>(ret, p1).
            if isl ret then map_option (\<lambda>p2. (False, failover_save_msg c msg p2)) (set_state_dead net c True p1)
            else flush_cnx net c p1))"

partial_function (option) flush_pool :: "'m network \<Rightarrow> nat \<Rightarrow> 'm pool \<Rightarrow> (bool \<times> 'm pool) option" where
  "flush_pool net i p =
     (case po_failover p of
        None \<Rightarrow> Some (True, p)
      | Some [] \<Rightarrow> Some (True, p)
      | Some (msg # q) \<Rightarrow>
          Option.bind (broadcast_message net (list_places p i) msg (p\<lparr>po_failover := Some q\<rparr>)) (\<lambda>p1.
            if cl_dead (po_or_list p1 ! i) \<noteq> 0 then Some (False, p1) else flush_pool net i p1))"

definition set_state_alive :: "'m network \<Rightarrow> place \<Rightarrow> bool \<Rightarrow> 'm pool \<Rightarrow> (bool \<times> 'm pool) option" where
  "set_state_alive net c global_notice p =
     (let p1 = upd_cnx c (\<lambda>x. x\<lparr>cx_timer := False, cx_expire := INITIAL_EXPIRATION_TIME\<rparr>) p;
          p2 = upd_list (fst c) (\<lambda>l. l\<lparr>cl_dead := cl_dead l - 1\<rparr>) p1;
          p3 = notify_event EVENT_ALIVE (con_id (cx_con (cnx_at p2 c))) global_notice p2
      in Option.bind (flush_cnx net c p3) (\<lambda>(ok, p4).
           if \<not> ok then Some (False, p4)
           else Option.bind
             (if po_failover p4 \<noteq> None \<and> cl_dead (po_or_list p4 ! fst c) = 0 then flush_pool net (fst c) p4 else Some (True, p4)) (\<lambda>(ok, p5).
             if \<not> ok then Some (False, p5)
             else let fd = con_fd (cx_con (cnx_at p5 c)) in
               if fd < FD_SETSIZE then Some (True, p5\<lparr>po_fds := insert fd (po_fds p5), po_nfd := max (fd + 1) (po_nfd p5)\<rparr>) else None)))"

section \<open>Broadcasting\<close>

fun walk_lists :: "'m network \<Rightarrow> nat list \<Rightarrow> 'm \<Rightarrow> 'm pool \<Rightarrow> 'm pool option" where
  "walk_lists net [] msg p = Some (p\<lparr>po_failover := map_option (\<lambda>q. q @ [msg]) (po_failover p)\<rparr>)"
| "walk_lists net (i # is) msg p =
     (if cl_dead (po_or_list p ! i) = cl_total (po_or_list p ! i) \<and> po_use_failover p then walk_lists net is msg p
      else broadcast_message net (list_places p i) msg p)"

definition walk_manager_lists :: "'m network \<Rightarrow> 'm \<Rightarrow> 'm pool \<Rightarrow> 'm pool option" where
  "walk_manager_lists net msg p = walk_lists net [0..<length (po_or_list p)] msg p"

definition prelude_connection_pool_broadcast :: "'m network \<Rightarrow> 'm \<Rightarrow> 'm pool \<Rightarrow> 'm pool option" where
  "prelude_connection_pool_broadcast net msg p = walk_manager_lists net msg p"

text \<open>Reference counts, and the broadcast by the thread of asynchronous jobs.\<close>

definition prelude_connection_pool_ref :: "'m pool \<Rightarrow> 'm pool" where
  "prelude_connection_pool_ref p = p\<lparr>po_refcount := po_refcount p + 1\<rparr>"

text \<open>Destroying a list that has a freed connection in it is undefined.\<close>

definition freed_member :: "'m pool \<Rightarrow> bool" where
  "freed_member p \<longleftrightarrow> list_ex (\<lambda>l. list_ex cx_freed (cl_and l)) (po_or_list p)"

definition prelude_connection_pool_destroy :: "'m pool \<Rightarrow> 'm pool option" where
  "prelude_connection_pool_destroy p =
     (let p1 = p\<lparr>po_refcount := po_refcount p - 1\<rparr> in
      if po_refcount p1 \<noteq> 0 then Some p1
      else if freed_member p then None else Some (p1\<lparr>po_timer := False, po_or_list := [], po_freed := True\<rparr>))"

definition prelude_connection_pool_broadcast_async :: "'m \<Rightarrow> 'm pool \<Rightarrow> 'm pool" where
  "prelude_connection_pool_broadcast_async msg p = p\<lparr>po_refcount := po_refcount p + 1, po_jobs := po_jobs p @ [msg]\<rparr>"

definition broadcast_async_cb :: "'m network \<Rightarrow> 'm \<Rightarrow> 'm pool \<Rightarrow> 'm pool option" where
  "broadcast_async_cb net msg p = Option.bind (prelude_connection_pool_broadcast net msg p) prelude_connection_pool_destroy"

end
