(* ===== verification/PoolSetup.thy ===== *)
theory PoolSetup
  imports Pool
begin

text \<open>
  The connection pool, continued: its connection string, its initialisation, reconnection after a timer, adding and removing connections, and waiting for
  events.
\<close>

section \<open>Creation and configuration\<close>

definition prelude_connection_pool_new :: "string \<Rightarrow> u32 \<Rightarrow> 'm pool" where
  "prelude_connection_pool_new backup permission =
     \<lparr>po_or_list = [], po_initialized = False, po_failover = None, po_nfd = 0, po_fds = {}, po_refcount = 1, po_freed = False,
      po_connection_string = None, po_connection_string_changed = False, po_permission = permission, po_backup = backup,
      po_reconnect = False, po_use_failover = True, po_timer = False, po_all_cnx = [], po_wanted = {}, po_global_wanted = {},
      po_events = [], po_jobs = [], po_data = 0, po_next = 0, po_clock = 0\<rparr>"

definition prelude_connection_pool_set_connection_string :: "string \<Rightarrow> 'm pool \<Rightarrow> 'm pool" where
  "prelude_connection_pool_set_connection_string cfgstr p = p\<lparr>po_connection_string := Some cfgstr, po_connection_string_changed := True\<rparr>"

definition prelude_connection_pool_get_connection_string :: "'m pool \<Rightarrow> string option" where
  "prelude_connection_pool_get_connection_string p = po_connection_string p"

definition prelude_connection_pool_set_flags :: "bool \<Rightarrow> bool \<Rightarrow> 'm pool \<Rightarrow> 'm pool" where
  "prelude_connection_pool_set_flags reconnect failover p = p\<lparr>po_reconnect := reconnect, po_use_failover := failover\<rparr>"

definition prelude_connection_pool_set_required_permission :: "u32 \<Rightarrow> 'm pool \<Rightarrow> 'm pool" where
  "prelude_connection_pool_set_required_permission req_perm p = p\<lparr>po_permission := req_perm\<rparr>"

definition prelude_connection_pool_set_event_handler :: "event set \<Rightarrow> 'm pool \<Rightarrow> 'm pool" where
  "prelude_connection_pool_set_event_handler wanted_events p = p\<lparr>po_wanted := wanted_events\<rparr>"

definition prelude_connection_pool_set_global_event_handler :: "event set \<Rightarrow> 'm pool \<Rightarrow> 'm pool" where
  "prelude_connection_pool_set_global_event_handler wanted_events p = p\<lparr>po_global_wanted := wanted_events\<rparr>"

definition prelude_connection_pool_get_flags :: "'m pool \<Rightarrow> bool \<times> bool" where
  "prelude_connection_pool_get_flags p = (po_reconnect p, po_use_failover p)"

definition prelude_connection_pool_get_connection_list :: "'m pool \<Rightarrow> nat list" where
  "prelude_connection_pool_get_connection_list p = po_all_cnx p"

text \<open>The data of the user is a pointer.\<close>

definition prelude_connection_pool_set_data :: "nat \<Rightarrow> 'm pool \<Rightarrow> 'm pool" where
  "prelude_connection_pool_set_data data p = p\<lparr>po_data := data\<rparr>"

definition prelude_connection_pool_get_data :: "'m pool \<Rightarrow> nat" where
  "prelude_connection_pool_get_data p = po_data p"

section \<open>The connection string\<close>

text \<open>The next word, and what is behind the blank that ends it.\<close>

definition parse_config_string :: "string \<Rightarrow> string \<times> string option" where
  "parse_config_string line =
     (let s = dropWhile (\<lambda>c. c = CHR '' '') line in
      (takeWhile (\<lambda>c. c \<noteq> CHR '' '') s, case dropWhile (\<lambda>c. c \<noteq> CHR '' '') s of [] \<Rightarrow> None | _ # r \<Rightarrow> Some r))"

lemma parse_config_string_shorter: "parse_config_string s = (w, Some r) \<Longrightarrow> length r < length s"
proof -
  let ?s = "dropWhile (\<lambda>c. c = CHR '' '') s"
  assume "parse_config_string s = (w, Some r)"
  then have "(case dropWhile (\<lambda>c. c \<noteq> CHR '' '') ?s of [] \<Rightarrow> None | _ # r \<Rightarrow> Some r) = Some r"
    unfolding parse_config_string_def Let_def prod.inject by (rule conjunct2)
  then obtain c where "dropWhile (\<lambda>c. c \<noteq> CHR '' '') ?s = c # r"
    by (cases "dropWhile (\<lambda>c. c \<noteq> CHR '' '') ?s") simp_all
  then have "length (c # r) \<le> length ?s" by (metis length_dropWhile_le)
  also have "\<dots> \<le> length s" by (rule length_dropWhile_le)
  finally show ?thesis by simp
qed

definition get_connection_backup_path :: "'m connection \<Rightarrow> string \<Rightarrow> string" where
  "get_connection_backup_path cn path = path @ ''/'' @ map (\<lambda>c. if c = CHR ''/'' then CHR ''_'' else c) (con_daddr cn)"

definition create_connection_list :: "'m cnx_list" where
  "create_connection_list = \<lparr>cl_and = [], cl_dead = 0, cl_total = 0\<rparr>"

text \<open>
  A connection is added behind the others of its list; its failover holds what an earlier program has saved. Without the flag for reconnection the time of
  its timer is not initialised; zero stands for that.
\<close>

definition new_connection :: "'m network \<Rightarrow> nat \<Rightarrow> 'm connection \<Rightarrow> 'm pool \<Rightarrow> unit result \<times> 'm pool" where
  "new_connection net i con p =
     (case (if po_use_failover p then map_sum id Some (ne_backup net (get_connection_backup_path con (po_backup p))) else Inr None) of
        Inl e \<Rightarrow> (Inl e, p)
      | Inr q \<Rightarrow>
          let nc = \<lparr>cx_con = con, cx_timer = False, cx_expire = (if po_reconnect p then INITIAL_EXPIRATION_TIME else 0), cx_failover = q, cx_freed = False\<rparr> in
          (Inr (), (upd_list i (\<lambda>l. l\<lparr>cl_and := cl_and l @ [nc], cl_total := cl_total l + 1\<rparr>) p)\<lparr>po_all_cnx := con_id con # po_all_cnx p\<rparr>))"

definition new_connection_from_address :: "'m network \<Rightarrow> nat \<Rightarrow> string \<Rightarrow> 'm pool \<Rightarrow> unit result \<times> 'm pool" where
  "new_connection_from_address net i addr p =
     (case prelude_connection_new net (po_next p) addr of
        Inl e \<Rightarrow> (Inl e, p)
      | Inr con \<Rightarrow> new_connection net i con (p\<lparr>po_next := po_next p + 1\<rparr>))"

function parse_words :: "'m network \<Rightarrow> string option \<Rightarrow> 'm pool \<Rightarrow> unit result \<times> 'm pool" where
  "parse_words net None p = (Inr (), p)"
| "parse_words net (Some cfgline) p =
     (case parse_config_string cfgline of (ptr, rest) \<Rightarrow>
        if ptr = ''||'' then parse_words net rest (p\<lparr>po_or_list := po_or_list p @ [create_connection_list]\<rparr>)
        else if ptr = ''&&'' then parse_words net rest p
        else case new_connection_from_address net (length (po_or_list p) - 1) ptr p of
            (Inl e, p1) \<Rightarrow> (Inl e, p1)
          | (Inr _, p1) \<Rightarrow> parse_words net rest p1)"
  by pat_completeness auto
termination
  by (relation "measure (\<lambda>(net, l, p). case l of None \<Rightarrow> 0 | Some s \<Rightarrow> Suc (length s))")
    (auto dest: parse_config_string_shorter [OF sym] split: option.split)

definition parse_config_line :: "'m network \<Rightarrow> 'm pool \<Rightarrow> unit result \<times> 'm pool" where
  "parse_config_line net p = parse_words net (po_connection_string p) (p\<lparr>po_or_list := [create_connection_list]\<rparr>)"

section \<open>Connecting\<close>

text \<open>The walk over the connections. The event added for an established connection is the one the source reports for a connection that is established.\<close>

definition pool_connect :: "'m network \<Rightarrow> place \<Rightarrow> 'm pool \<Rightarrow> (unit result \<times> 'm pool) option" where
  "pool_connect net c p =
     map_option (\<lambda>(ret, r). (ret, set_con c r p)) (prelude_connection_connect net (po_permission p) (po_clock p) (cx_con (cnx_at p c)))"

fun connect_places :: "'m network \<Rightarrow> place list \<Rightarrow> event set \<Rightarrow> 'm pool \<Rightarrow> (unit result \<times> event set \<times> 'm pool) option" where
  "connect_places net [] ev p = Some (Inr (), ev, p)"
| "connect_places net (c # cs) ev p =
     (if cx_freed (cnx_at p c) then None
      else if prelude_connection_is_alive (cx_con (cnx_at p c)) then connect_places net cs ev p
      else Option.bind (pool_connect net c p) (\<lambda>(ret, p1).
        if ret = Inl PRELUDE_ERROR_PROFILE then Some (ret, ev, p1)
        else if isl ret then Option.bind (set_state_dead net c False p1) (\<lambda>p2. connect_places net cs (insert EVENT_DEAD ev) p2)
        else if prelude_connection_is_alive (cx_con (cnx_at p1 c))
        then Option.bind (set_state_alive net c False p1) (\<lambda>(_, p2). connect_places net cs (insert EVENT_DEAD ev) p2)
        else connect_places net cs ev p1))"

definition prelude_connection_pool_init :: "'m network \<Rightarrow> 'm pool \<Rightarrow> (unit result \<times> 'm pool) option" where
  "prelude_connection_pool_init net p =
     (case (if po_failover p = None \<and> po_use_failover p
            then map_sum id (\<lambda>q. p\<lparr>po_failover := Some q\<rparr>) (ne_backup net (po_backup p @ ''/global'')) else Inr p) of
        Inl e \<Rightarrow> Some (Inl e, p)
      | Inr p1 \<Rightarrow>
          if (\<not> po_connection_string_changed p1 \<or> po_connection_string p1 = None) \<and> po_or_list p1 = [] then Some (Inl PRELUDE_ERROR_CONNECTION_STRING, p1)
          else if po_connection_string_changed p1 \<and> freed_member p1 then None
          else (case (if po_connection_string_changed p1
                      then parse_config_line net (p1\<lparr>po_connection_string_changed := False, po_nfd := 0, po_or_list := [], po_all_cnx := []\<rparr>)
                      else (Inr (), p1)) of
              (Inl e, p2) \<Rightarrow> Some (Inl e, p2)
            | (Inr _, p2) \<Rightarrow>
                Option.bind (connect_places net (all_places p2) {} p2) (\<lambda>(ret, ev, p3).
                  if isl ret then Some (ret, p3)
                  else Some (Inr (), (global_event_handler ev p3)\<lparr>po_timer := po_timer p3 \<or> EVENT_INPUT \<in> po_wanted p3, po_initialized := True\<rparr>))))"

text \<open>The timer of a connection has expired; without success the next expiry is twice as far away.\<close>

definition connection_timer_expire :: "'m network \<Rightarrow> place \<Rightarrow> 'm pool \<Rightarrow> 'm pool option" where
  "connection_timer_expire net c p =
     (if cx_freed (cnx_at p c) then None
      else Option.bind (pool_connect net c p) (\<lambda>(ret, p1).
        if \<not> isl ret then map_option snd (set_state_alive net c True p1)
        else Some (upd_cnx c (\<lambda>x. x\<lparr>cx_expire := (if cx_expire x < MAXIMUM_EXPIRATION_TIME then cx_expire x * 2 else cx_expire x), cx_timer := True\<rparr>) p1)))"

section \<open>Single connections\<close>

text \<open>False, and \<open>PRELUDE_ERROR_GENERIC\<close> below, stand for any negative return value.\<close>

definition prelude_connection_pool_add_connection :: "'m network \<Rightarrow> 'm connection \<Rightarrow> 'm pool \<Rightarrow> (bool \<times> 'm pool) option" where
  "prelude_connection_pool_add_connection net con p =
     (let p1 = (if po_or_list p = [] then p\<lparr>po_or_list := [create_connection_list]\<rparr> else p) in
      case new_connection net 0 con p1 of
        (Inl e, p2) \<Rightarrow> Some (False, p2)
      | (Inr _, p2) \<Rightarrow>
          let c = (0, length (cl_and (po_or_list p1 ! 0))) in
          Option.bind
            (if po_initialized p2 \<and> \<not> prelude_connection_is_alive con
             then Option.bind (pool_connect net c p2) (\<lambda>(ret, p3).
               if isl ret then map_option (Pair False) (set_state_dead net c True p3)
               else if prelude_connection_is_alive (cx_con (cnx_at p3 c)) then map_option (\<lambda>(_, p4). (True, p4)) (set_state_alive net c True p3)
               else Some (True, p3))
             else Some (True, p2)) (\<lambda>(ok, p5).
            if cl_dead (po_or_list p5 ! 0) = 0 \<and> po_failover p5 \<noteq> None then flush_pool net 0 p5 else Some (ok, p5)))"

text \<open>Reading a freed connection while searching is undefined.\<close>

fun search_places :: "'m pool \<Rightarrow> nat \<Rightarrow> place list \<Rightarrow> place option option" where
  "search_places p con [] = Some None"
| "search_places p con (c # cs) =
     (if cx_freed (cnx_at p c) then None else if con_id (cx_con (cnx_at p c)) = con then Some (Some c) else search_places p con cs)"

definition search_cnx :: "'m pool \<Rightarrow> nat \<Rightarrow> place option option" where
  "search_cnx p con = search_places p con (all_places p)"

definition with_cnx :: "nat \<Rightarrow> (place \<Rightarrow> 'm pool \<Rightarrow> (unit result \<times> 'm pool) option) \<Rightarrow> 'm pool \<Rightarrow> (unit result \<times> 'm pool) option" where
  "with_cnx con f p = Option.bind (search_cnx p con) (\<lambda>found. case found of None \<Rightarrow> Some (Inl PRELUDE_ERROR_GENERIC, p) | Some c \<Rightarrow> f c p)"

text \<open>The connection is freed, but stays in its list.\<close>

definition prelude_connection_pool_del_connection :: "nat \<Rightarrow> 'm pool \<Rightarrow> (unit result \<times> 'm pool) option" where
  "prelude_connection_pool_del_connection con =
     with_cnx con (\<lambda>c p. Some (Inr (), upd_cnx c (\<lambda>x. x\<lparr>cx_timer := False, cx_freed := True\<rparr>) p))"

definition prelude_connection_pool_set_connection_dead :: "'m network \<Rightarrow> nat \<Rightarrow> 'm pool \<Rightarrow> (unit result \<times> 'm pool) option" where
  "prelude_connection_pool_set_connection_dead net con =
     with_cnx con (\<lambda>c p.
       if \<not> prelude_connection_is_alive (cx_con (cnx_at p c)) then Some (Inr (), p)
       else map_option (Pair (Inr ()))
         (set_state_dead net c False (upd_cnx c (\<lambda>x. x\<lparr>cx_con := prelude_connection_set_state False False (cx_con x)\<rparr>) p)))"

definition prelude_connection_pool_set_connection_alive :: "'m network \<Rightarrow> nat \<Rightarrow> 'm pool \<Rightarrow> (unit result \<times> 'm pool) option" where
  "prelude_connection_pool_set_connection_alive net con =
     with_cnx con (\<lambda>c p.
       if cl_dead (po_or_list p ! fst c) = 0 then Some (Inr (), p)
       else map_option (\<lambda>(ok, p1). (if ok then Inr () else Inl PRELUDE_ERROR_GENERIC, p1)) (set_state_alive net c False p))"

end
