(* ===== verification/PoolEvents.thy ===== *)
theory PoolEvents
  imports PoolSetup
begin

text \<open>
  The connection pool, continued: waiting for events of the connections. The callback of the user is any function of the pool and the connection to a
  return value and a pool, which must not add connections to a list that is being walked; \<open>select\<close> and the clock are part of the network.
\<close>

section \<open>Time\<close>

text \<open>Times are seconds and microseconds; C divides towards zero, which is division here where the arguments are not negative.\<close>

definition timeval_subtract :: "int \<times> int \<Rightarrow> int \<times> int \<Rightarrow> int" where
  "timeval_subtract x y =
     (let nsec = (snd y - snd x) div 1000000 + 1;
          y1 = (if snd x < snd y then (fst y + nsec, snd y - 1000000 * nsec) else y);
          nsec' = (snd x - snd y1) div 1000000;
          y2 = (if 1000000 < snd x - snd y1 then (fst y1 - nsec', snd y1 + 1000000 * nsec') else y1)
      in (fst x - fst y2) * 1000 + (snd x - snd y2) div 1000)"

text \<open>The time that \<open>select\<close> may wait, from a number of milliseconds.\<close>

definition wait_time :: "int \<Rightarrow> nat \<times> nat" where
  "wait_time timeout =
     (if 0 < timeout then (nat (timeout div 1000), nat (timeout mod 1000)) else (if timeout < 0 then 1 else 0, 0))"

section \<open>One event\<close>

type_synonym 'm callback = "'m pool \<Rightarrow> nat \<Rightarrow> int \<times> 'm pool"

text \<open>What the caller wants, and where it gets what it wants.\<close>

record 'm request =
  rq_callback :: "'m callback option"
  rq_outcon :: bool
  rq_outmsg :: bool

record 'm reply =
  re_con :: "nat option"
  re_msg :: "'m option"

definition no_reply :: "'m reply" where
  "no_reply = \<lparr>re_con = None, re_msg = None\<rparr>"

definition check_error :: "'m network \<Rightarrow> place \<Rightarrow> int \<Rightarrow> event set \<Rightarrow> 'm reply \<Rightarrow> 'm pool \<Rightarrow> (int \<times> event set \<times> 'm reply \<times> 'm pool) option" where
  "check_error net c ret ev re p = map_option (\<lambda>p1. (ret, insert EVENT_DEAD ev, re, p1)) (set_state_dead net c False p)"

definition check_connection_event ::
  "'m network \<Rightarrow> 'm request \<Rightarrow> place \<Rightarrow> event set \<Rightarrow> 'm reply \<Rightarrow> 'm pool \<Rightarrow> (int \<times> event set \<times> 'm reply \<times> 'm pool) option" where
  "check_connection_event net rq c ev re p =
     (let con = cx_con (cnx_at p c) in
      if rq_outcon rq
      then let re1 = re\<lparr>re_con := Some (con_id con)\<rparr> in
        if \<not> rq_outmsg rq then Some (1, ev, re1, p)
        else (case prelude_connection_recv net (po_clock p) con of (ret, n) \<Rightarrow>
          (case ret of
             Inl e \<Rightarrow> if e = PRELUDE_ERROR_EAGAIN then Some (0, ev, re1, p\<lparr>po_clock := n\<rparr>) else check_error net c (- 1) ev re1 (p\<lparr>po_clock := n\<rparr>)
           | Inr msg \<Rightarrow> Some (1, ev, re1\<lparr>re_msg := Some msg\<rparr>, p\<lparr>po_clock := n\<rparr>)))
      else case (case rq_callback rq of Some cb \<Rightarrow> cb p (con_id con) | None \<Rightarrow> (0, event_handler EVENT_INPUT (con_id con) p)) of (ret, p1) \<Rightarrow>
        if ret < 0 \<or> \<not> prelude_connection_is_alive (cx_con (cnx_at p1 c)) then check_error net c ret ev re p1 else Some (0, ev, re, p1))"

section \<open>All connections\<close>

text \<open>The first result is the counter of the source. The \<open>break\<close> leaves the loop over one list, not the loop over the lists.\<close>

function check_places ::
  "'m network \<Rightarrow> 'm request \<Rightarrow> nat set \<Rightarrow> place list \<Rightarrow> int \<times> event set \<times> 'm reply \<times> 'm pool \<Rightarrow> (int \<times> event set \<times> 'm reply \<times> 'm pool) option" where
  "check_places net rq rfds [] s = Some s"
| "check_places net rq rfds (c # cs) s =
     (case s of (i, ev, re, p) \<Rightarrow>
        if cx_freed (cnx_at p c) then None
        else let con = cx_con (cnx_at p c) in
          if \<not> prelude_connection_is_alive con \<or> con_fd con \<notin> rfds then check_places net rq rfds cs s
          else (case check_connection_event net rq c (insert EVENT_INPUT ev) re p of
              None \<Rightarrow> None
            | Some (ret, ev1, re1, p1) \<Rightarrow>
                if ret = 1 then check_places net rq rfds (dropWhile (\<lambda>d. fst d = fst c) cs) (i + 1, ev1, re1, p1)
                else check_places net rq rfds cs (if ret \<le> 0 then i else i + 1, ev1, re1, p1)))"
  by pat_completeness auto
termination
  by (relation "measure (\<lambda>(net, rq, rfds, cs, s). length cs)") (auto simp: le_imp_less_Suc length_dropWhile_le)

text \<open>The inner loop selects again while nothing happens and there is no time limit.\<close>

partial_function (option) select_loop :: "'m network \<Rightarrow> int \<Rightarrow> 'm pool \<Rightarrow> (nat set result \<times> 'm pool) option" where
  "select_loop net timeout p =
     (let ret = ne_select net (po_clock p) (po_fds p) (po_nfd p) (wait_time timeout); p1 = p\<lparr>po_clock := po_clock p + 1\<rparr> in
      if ret = Inr {} \<and> timeout = - 1 then select_loop net timeout p1 else Some (ret, p1))"

definition get_time :: "'m network \<Rightarrow> 'm pool \<Rightarrow> (int \<times> int) \<times> 'm pool" where
  "get_time net p = (ne_time net (po_clock p), p\<lparr>po_clock := po_clock p + 1\<rparr>)"

partial_function (option) connection_pool_check_event ::
  "'m network \<Rightarrow> 'm request \<Rightarrow> int \<Rightarrow> 'm reply \<Rightarrow> 'm pool \<Rightarrow> (int result \<times> 'm reply \<times> 'm pool) option" where
  "connection_pool_check_event net rq timeout re p =
     (case get_time net p of (ts, p1) \<Rightarrow>
        Option.bind (select_loop net timeout p1) (\<lambda>(ret, p2).
          case ret of
            Inl e \<Rightarrow> Some (Inl e, re, p2)
          | Inr rfds \<Rightarrow>
              if rfds = {} then Some (Inr 0, re, p2)
              else Option.bind (check_places net rq rfds (all_places p2) (0, {}, re, p2)) (\<lambda>(i, ev, re1, p3).
                let p4 = global_event_handler ev p3 in
                Option.bind (if po_connection_string_changed p4 then map_option snd (prelude_connection_pool_init net p4) else Some p4) (\<lambda>p5.
                  if timeout = - 1 \<and> i = 0 then connection_pool_check_event net rq timeout re1 p5
                  else case get_time net p5 of (te, p6) \<Rightarrow>
                    if i = 0 \<and> timeval_subtract te ts < timeout
                    then connection_pool_check_event net rq (timeout - timeval_subtract te ts) re1 p6
                    else Some (Inr i, re1, p6)))))"

definition prelude_connection_pool_check_event :: "'m network \<Rightarrow> int \<Rightarrow> 'm callback option \<Rightarrow> 'm pool \<Rightarrow> (int result \<times> 'm pool) option" where
  "prelude_connection_pool_check_event net timeout cb p =
     map_option (\<lambda>(ret, re, p1). (ret, p1))
       (connection_pool_check_event net \<lparr>rq_callback = cb, rq_outcon = False, rq_outmsg = False\<rparr> timeout no_reply p)"

definition prelude_connection_pool_recv :: "'m network \<Rightarrow> int \<Rightarrow> bool \<Rightarrow> 'm pool \<Rightarrow> (int result \<times> 'm reply \<times> 'm pool) option" where
  "prelude_connection_pool_recv net timeout outmsg p =
     connection_pool_check_event net \<lparr>rq_callback = None, rq_outcon = True, rq_outmsg = outmsg\<rparr> timeout no_reply p"

definition check_for_data_cb :: "'m network \<Rightarrow> 'm pool \<Rightarrow> 'm pool option" where
  "check_for_data_cb net p = map_option (\<lambda>r. (snd r)\<lparr>po_timer := True\<rparr>) (prelude_connection_pool_check_event net 0 None p)"

end
