(* ===== verification/PoolProps.thy ===== *)
theory PoolProps
  imports PoolEvents
begin

text \<open>
  No operation of the pool loses a message. The relation \<open>pool_le\<close> says that a step keeps the shape of the pool and, at each connection, the messages
  that were sent or are saved there; every operation is shown to be such a step, and what flushing takes from a file is found again at the connections.
\<close>

section \<open>Places\<close>

definition valid :: "'m pool \<Rightarrow> place \<Rightarrow> bool" where
  "valid p c \<longleftrightarrow> fst c < length (po_or_list p) \<and> snd c < length (cl_and (po_or_list p ! fst c))"

lemma upd_list_nth:
  "po_or_list (upd_list i f p) ! k = (if k = i \<and> i < length (po_or_list p) then f (po_or_list p ! i) else po_or_list p ! k)"
  by (cases "i < length (po_or_list p)") (auto simp: upd_list_def list_update_beyond not_less)

lemma cnx_at_upd_list: "(\<And>l. cl_and (f l) = cl_and l) \<Longrightarrow> cnx_at (upd_list i f p) d = cnx_at p d"
  by (simp add: cnx_at_def upd_list_nth)

lemma cnx_at_upd_cnx: "valid p c \<Longrightarrow> cnx_at (upd_cnx c f p) d = (if d = c then f (cnx_at p c) else cnx_at p d)"
  by (cases c; cases d) (auto simp: cnx_at_def upd_cnx_def upd_list_def valid_def nth_list_update)

lemma valid_list_places: "i < length (po_or_list p) \<Longrightarrow> c \<in> set (list_places p i) \<Longrightarrow> valid p c"
  by (auto simp: list_places_def valid_def)

lemma valid_all_places: "c \<in> set (all_places p) \<Longrightarrow> valid p c"
  by (auto simp: all_places_def intro: valid_list_places)

section \<open>Steps that keep messages\<close>

definition cnx_has :: "'m \<Rightarrow> 'm cnx \<Rightarrow> bool" where
  "cnx_has m x \<longleftrightarrow> m \<in> set (con_sent (cx_con x)) \<or> (\<exists>q. cx_failover x = Some q \<and> m \<in> set q)"

text \<open>All messages but those of \<open>S\<close> are kept.\<close>

definition list_le :: "'m cnx_list \<Rightarrow> 'm cnx_list \<Rightarrow> bool" where
  "list_le l l' \<longleftrightarrow> length (cl_and l') = length (cl_and l) \<and> cl_total l' = cl_total l \<and> (cl_and l = [] \<longrightarrow> cl_dead l' \<le> cl_dead l)"

definition cnx_le :: "'m set \<Rightarrow> 'm cnx \<Rightarrow> 'm cnx \<Rightarrow> bool" where
  "cnx_le N x x' \<longleftrightarrow> (\<forall>m. m \<notin> N \<longrightarrow> cnx_has m x \<longrightarrow> cnx_has m x') \<and> (cx_failover x \<noteq> None \<longrightarrow> cx_failover x' \<noteq> None)"

definition pool_frame :: "'m pool \<Rightarrow> 'm pool \<Rightarrow> bool" where
  "pool_frame p p' \<longleftrightarrow> po_use_failover p' = po_use_failover p \<and> po_failover p' = po_failover p \<and>
     po_connection_string_changed p' = po_connection_string_changed p \<and> length (po_or_list p') = length (po_or_list p) \<and>
     (\<forall>i < length (po_or_list p). list_le (po_or_list p ! i) (po_or_list p' ! i))"

definition pool_le :: "(place \<Rightarrow> 'm set) \<Rightarrow> 'm pool \<Rightarrow> 'm pool \<Rightarrow> bool" where
  "pool_le S p p' \<longleftrightarrow> pool_frame p p' \<and> (\<forall>c. valid p c \<longrightarrow> cnx_le (S c) (cnx_at p c) (cnx_at p' c))"

abbreviation none :: "place \<Rightarrow> 'm set" where "none \<equiv> \<lambda>_. {}"

lemma list_le_refl [simp]: "list_le l l"
  by (simp add: list_le_def)

lemma list_le_trans: "list_le k l \<Longrightarrow> list_le l m \<Longrightarrow> list_le k m"
  by (cases "cl_and k") (auto simp: list_le_def)

lemma cnx_le_refl [simp]: "cnx_le N x x"
  by (simp add: cnx_le_def)

lemma cnx_le_trans: "cnx_le N x y \<Longrightarrow> cnx_le M y z \<Longrightarrow> cnx_le (N \<union> M) x z"
  unfolding cnx_le_def by blast

lemma pool_frame_valid: "pool_frame p p' \<Longrightarrow> valid p' c = valid p c"
  by (auto simp: pool_frame_def valid_def list_le_def)

lemma pool_frame_trans: "pool_frame p q \<Longrightarrow> pool_frame q r \<Longrightarrow> pool_frame p r"
  by (auto simp: pool_frame_def intro: list_le_trans)

lemma pool_le_valid: "pool_le S p p' \<Longrightarrow> valid p' c = valid p c"
  by (simp add: pool_le_def pool_frame_valid)

lemma pool_le_refl [simp]: "pool_le S p p"
  by (simp add: pool_le_def pool_frame_def)

lemma pool_le_trans: "pool_le S p q \<Longrightarrow> pool_le T q r \<Longrightarrow> pool_le (\<lambda>c. S c \<union> T c) p r"
  unfolding pool_le_def by (meson cnx_le_trans pool_frame_trans pool_frame_valid)

lemma pool_le_trans0 [trans]: "pool_le none p q \<Longrightarrow> pool_le none q r \<Longrightarrow> pool_le none p r"
  using pool_le_trans [of none p q none r] by simp

lemma pool_le_more: "pool_le S p q \<Longrightarrow> pool_le none q r \<Longrightarrow> pool_le S p r"
  using pool_le_trans [of S p q none r] by simp

lemma pool_le_has: "pool_le S p p' \<Longrightarrow> valid p c \<Longrightarrow> m \<notin> S c \<Longrightarrow> cnx_has m (cnx_at p c) \<Longrightarrow> cnx_has m (cnx_at p' c)"
  unfolding pool_le_def cnx_le_def by blast

lemma pool_le_restored:
  assumes "pool_le (none(c := {m})) p p'" "cnx_has m (cnx_at p' c)"
  shows "pool_le none p p'"
  using assms unfolding pool_le_def cnx_le_def by (metis emptyE fun_upd_apply insertE)

lemma pool_le_fields:
  assumes "po_use_failover p' = po_use_failover p" "po_failover p' = po_failover p"
    "po_connection_string_changed p' = po_connection_string_changed p" "po_or_list p' = po_or_list p"
  shows "pool_le none p p'"
  using assms by (simp add: pool_le_def pool_frame_def cnx_at_def)

lemma pool_le_upd_cnx:
  assumes "valid p c" "cnx_le (S c) (cnx_at p c) (f (cnx_at p c))"
  shows "pool_le S p (upd_cnx c f p)"
proof -
  have "pool_frame p (upd_cnx c f p)"
    by (auto simp: pool_frame_def upd_cnx_def upd_list_nth list_le_def) (simp_all add: upd_list_def)
  then show ?thesis using assms by (simp add: pool_le_def cnx_at_upd_cnx)
qed

lemma pool_le_upd_dead:
  assumes "valid p c"
  shows "pool_le none p (upd_list (fst c) (\<lambda>l. l\<lparr>cl_dead := g l\<rparr>) p)"
proof -
  have "pool_frame p (upd_list (fst c) (\<lambda>l. l\<lparr>cl_dead := g l\<rparr>) p)"
    using assms by (auto simp: pool_frame_def upd_list_nth list_le_def valid_def) (simp_all add: upd_list_def)
  then show ?thesis by (simp add: pool_le_def cnx_at_upd_list)
qed

section \<open>Steps on one connection\<close>

lemma close_sent: "con_sent (snd (snd (prelude_connection_close net n con))) = con_sent con"
  by (auto simp: prelude_connection_close_def close_connection_fd_def split: prod.split)

lemma close_block_sent: "close_connection_fd_block net n con = Some (n', con') \<Longrightarrow> con_sent con' = con_sent con"
  by (auto simp: close_connection_fd_block_def split: if_splits)

lemma do_connect_sent: "do_connect net req n con = Some (ret, n', con') \<Longrightarrow> con_sent con' = con_sent con"
  by (auto simp: do_connect_def handle_authentication_def split: sum.splits if_splits)

lemma connect_sent:
  assumes "prelude_connection_connect net req n con = Some (ret, n', con')"
  shows "con_sent con' = con_sent con"
proof -
  obtain n1 con1 where 1: "close_connection_fd_block net n con = Some (n1, con1)"
    using assms by (auto simp: prelude_connection_connect_def bind_eq_Some_conv)
  then obtain ret2 n2 con2 where 2: "do_connect net req n1 con1 = Some (ret2, n2, con2)"
    using assms by (auto simp: prelude_connection_connect_def bind_eq_Some_conv)
  have "con_sent con' = con_sent con2"
    using assms 1 2 by (auto simp: prelude_connection_connect_def dest!: close_block_sent split: sum.split_asm)
  then show ?thesis using close_block_sent [OF 1] do_connect_sent [OF 2] by simp
qed

lemma send_sent:
  assumes "prelude_connection_send net msg n con = (ret, n', con')"
  shows "set (con_sent con) \<subseteq> set (con_sent con') \<and> (\<not> isl ret \<longrightarrow> msg \<in> set (con_sent con'))"
  using assms by (auto simp: prelude_connection_send_def split: if_splits)

lemma set_con_le:
  assumes "valid p c" "set (con_sent (cx_con (cnx_at p c))) \<subseteq> set (con_sent (snd r))"
  shows "pool_le none p (set_con c r p)"
proof -
  have "pool_le none p (upd_cnx c (\<lambda>x. x\<lparr>cx_con := snd r\<rparr>) p)"
    using assms by (intro pool_le_upd_cnx) (auto simp: cnx_le_def cnx_has_def)
  then show ?thesis unfolding set_con_def by (rule pool_le_trans0) (rule pool_le_fields; simp)
qed

lemma cnx_at_set_con: "valid p c \<Longrightarrow> cnx_at (set_con c r p) d = (if d = c then (cnx_at p c)\<lparr>cx_con := snd r\<rparr> else cnx_at p d)"
  using cnx_at_upd_cnx [of p c "\<lambda>x. x\<lparr>cx_con := snd r\<rparr>" d] by (simp add: set_con_def cnx_at_def)

lemma event_handlers [simp]:
  "po_use_failover (event_handler ev i p) = po_use_failover p" "po_use_failover (global_event_handler evs p) = po_use_failover p"
  "po_failover (event_handler ev i p) = po_failover p" "po_failover (global_event_handler evs p) = po_failover p"
  "po_connection_string_changed (event_handler ev i p) = po_connection_string_changed p"
  "po_connection_string_changed (global_event_handler evs p) = po_connection_string_changed p"
  "po_or_list (event_handler ev i p) = po_or_list p" "po_or_list (global_event_handler evs p) = po_or_list p"
  by (simp_all add: event_handler_def global_event_handler_def)

lemma notify_le: "pool_le none p (notify_event ev i g p)"
  by (rule pool_le_fields) (simp_all add: notify_event_def Let_def)

lemma init_timer_le: "valid p c \<Longrightarrow> pool_le none p (init_cnx_timer c p)"
  by (auto simp: init_cnx_timer_def cnx_le_def cnx_has_def intro!: pool_le_upd_cnx)

lemma set_state_dead_le:
  assumes "set_state_dead net c g p = Some p'" "valid p c"
  shows "pool_le none p p'"
proof -
  define p1 where "p1 = set_con c (snd (prelude_connection_close net (po_clock p) (cx_con (cnx_at p c)))) p"
  define p2 where "p2 = upd_list (fst c) (\<lambda>l. l\<lparr>cl_dead := cl_dead l + 1\<rparr>) p1"
  define p3 where "p3 = notify_event EVENT_DEAD (con_id (cx_con (cnx_at p c))) g (init_cnx_timer c p2)"
  have "pool_le none p p1" unfolding p1_def using assms(2) by (rule set_con_le) (simp add: close_sent)
  also have v: "valid p1 c" using calculation assms(2) by (simp add: pool_le_valid)
  have "pool_le none p1 p2" unfolding p2_def using v by (rule pool_le_upd_dead)
  also have "valid p2 c" using \<open>pool_le none p1 p2\<close> v by (simp add: pool_le_valid)
  then have "pool_le none p2 (init_cnx_timer c p2)" by (rule init_timer_le)
  also have "pool_le none (init_cnx_timer c p2) p3" unfolding p3_def by (rule notify_le)
  also have "pool_le none p3 p'"
    using assms(1) unfolding set_state_dead_def Let_def p1_def [symmetric] p2_def [symmetric] p3_def [symmetric]
    by (auto split: if_splits intro: pool_le_fields)
  finally show ?thesis .
qed

lemma do_send_le:
  assumes "do_send net c msg p = Some (ret, p')" "valid p c"
  shows "pool_le none p p' \<and> (\<not> isl ret \<longrightarrow> cnx_has msg (cnx_at p' c))"
proof -
  have "valid p c \<longrightarrow> pool_le none p (snd r) \<and> (\<not> isl (fst r) \<longrightarrow> cnx_has msg (cnx_at (snd r) c))" if "do_send net c msg p = Some r" for r
  proof (rule do_send.raw_induct [of "\<lambda>net c msg p r. valid p c \<longrightarrow> pool_le none p (snd r) \<and> (\<not> isl (fst r) \<longrightarrow> cnx_has msg (cnx_at (snd r) c))", OF _ that])
    fix do_send' net c msg p r
    assume IH: "\<And>net c msg p r. do_send' net c msg p = Some r \<Longrightarrow> valid p c \<longrightarrow> pool_le none p (snd r) \<and> (\<not> isl (fst r) \<longrightarrow> cnx_has msg (cnx_at (snd r) c))"
      and body: "(case prelude_connection_send net msg (po_clock p) (cx_con (cnx_at p c)) of (ret, ra) \<Rightarrow>
        if ret = Inl PRELUDE_ERROR_EAGAIN then do_send' net c msg (set_con c ra p) else Some (ret, set_con c ra p)) = Some r"
    obtain ret n' con' where s: "prelude_connection_send net msg (po_clock p) (cx_con (cnx_at p c)) = (ret, n', con')" by (metis prod_cases3)
    have sent: "pool_le none p (set_con c (n', con') p)" if "valid p c" using that send_sent [OF s] by (intro set_con_le) auto
    show "valid p c \<longrightarrow> pool_le none p (snd r) \<and> (\<not> isl (fst r) \<longrightarrow> cnx_has msg (cnx_at (snd r) c))"
    proof (cases "ret = Inl PRELUDE_ERROR_EAGAIN")
      case True
      then have "do_send' net c msg (set_con c (n', con') p) = Some r" using body s by simp
      from IH [OF this] sent show ?thesis by (auto simp: pool_le_valid intro: pool_le_trans0)
    next
      case False
      then have "r = (ret, set_con c (n', con') p)" using body s by simp
      then show ?thesis using sent send_sent [OF s] by (auto simp: cnx_at_set_con cnx_has_def)
    qed
  qed
  from this [OF assms(1)] assms(2) show ?thesis by simp
qed

lemma save_le: "valid p c \<Longrightarrow> pool_le none p (failover_save_msg c msg p)"
  unfolding failover_save_msg_def by (rule pool_le_upd_cnx) (auto simp: cnx_le_def cnx_has_def)

lemma save_has: "valid p c \<Longrightarrow> cx_failover (cnx_at p c) \<noteq> None \<Longrightarrow> cnx_has msg (cnx_at (failover_save_msg c msg p) c)"
  unfolding failover_save_msg_def by (auto simp: cnx_at_upd_cnx cnx_has_def)

lemma pool_le_saved: "pool_le S p p' \<Longrightarrow> valid p c \<Longrightarrow> cx_failover (cnx_at p c) \<noteq> None \<Longrightarrow> cx_failover (cnx_at p' c) \<noteq> None"
  unfolding pool_le_def cnx_le_def by blast

definition saves :: "'m pool \<Rightarrow> place \<Rightarrow> bool" where
  "saves p c \<longleftrightarrow> valid p c \<and> cx_failover (cnx_at p c) \<noteq> None"

lemma pool_le_saves: "pool_le S p p' \<Longrightarrow> saves p c \<Longrightarrow> saves p' c"
  by (auto simp: saves_def pool_le_valid dest: pool_le_saved)

lemma broadcast_message_le:
  assumes "broadcast_message net cs msg p = Some p'" "\<forall>c \<in> set cs. saves p c"
  shows "pool_le none p p' \<and> (\<forall>c \<in> set cs. cnx_has msg (cnx_at p' c))"
  using assms
proof (induction cs arbitrary: p)
  case (Cons c cs)
  let ?sent = "if prelude_connection_is_alive (cx_con (cnx_at p c))
     then Option.bind (do_send net c msg p) (\<lambda>(ret, p1). if isl ret then map_option (Pair True) (set_state_dead net c True p1) else Some (False, p1))
     else Some (True, p)"
  obtain failed p2 where sent: "?sent = Some (failed, p2)"
    and rest: "broadcast_message net cs msg (if failed then failover_save_msg c msg p2 else p2) = Some p'"
    using Cons.prems(1) by (auto simp: bind_eq_Some_conv split: if_splits)
  have c: "saves p c" using Cons.prems(2) by auto
  then have v: "valid p c" by (simp add: saves_def)
  have p2: "pool_le none p p2 \<and> (\<not> failed \<longrightarrow> cnx_has msg (cnx_at p2 c))"
    using sent v by (auto simp: bind_eq_Some_conv pool_le_valid dest!: do_send_le set_state_dead_le split: if_splits intro: pool_le_trans0)
  define p3 where "p3 = (if failed then failover_save_msg c msg p2 else p2)"
  have "saves p2 c" using c p2 pool_le_saves by blast
  then have p3: "pool_le none p p3" "cnx_has msg (cnx_at p3 c)"
    using p2 save_le [of p2 c msg] save_has [of p2 c msg] by (auto simp: p3_def saves_def intro: pool_le_trans0)
  have "\<forall>d \<in> set cs. saves p3 d" using Cons.prems(2) pool_le_saves [OF p3(1)] by simp
  then have p': "pool_le none p3 p'" "\<forall>d \<in> set cs. cnx_has msg (cnx_at p' d)"
    using Cons.IH [of p3] rest by (simp_all add: p3_def)
  then show ?case using p3 v pool_le_has [OF p'(1), of c msg] by (auto simp: pool_le_valid intro: pool_le_trans0)
qed simp

lemma flush_cnx_le:
  assumes "flush_cnx net c p = Some r" "valid p c"
  shows "pool_le none p (snd r)"
proof -
  have "valid p c \<longrightarrow> pool_le none p (snd r)"
  proof (rule flush_cnx.raw_induct [of "\<lambda>net c p r. valid p c \<longrightarrow> pool_le none p (snd r)", OF _ assms(1)], intro impI)
    fix f net c p r
    assume IH: "\<And>net c p r. f net c p = Some r \<Longrightarrow> valid p c \<longrightarrow> pool_le none p (snd r)" and v: "valid p c"
      and body: "(case cx_failover (cnx_at p c) of None \<Rightarrow> Some (True, p) | Some [] \<Rightarrow> Some (True, p)
      | Some (msg # q) \<Rightarrow> Option.bind (do_send net c msg (upd_cnx c (\<lambda>x. x\<lparr>cx_failover := Some q\<rparr>) p)) (\<lambda>(ret, p1).
            if isl ret then map_option (\<lambda>p2. (False, failover_save_msg c msg p2)) (set_state_dead net c True p1) else f net c p1)) = Some r"
    show "pool_le none p (snd r)"
    proof (cases "cx_failover (cnx_at p c) = None \<or> cx_failover (cnx_at p c) = Some []")
      case True
      then show ?thesis using body by auto
    next
      case False
      then obtain msg q where q: "cx_failover (cnx_at p c) = Some (msg # q)" by (auto simp: neq_Nil_conv)
      define p0 where "p0 = upd_cnx c (\<lambda>x. x\<lparr>cx_failover := Some q\<rparr>) p"
      have p0: "pool_le (none(c := {msg})) p p0" unfolding p0_def using v q by (intro pool_le_upd_cnx) (auto simp: cnx_le_def cnx_has_def)
      obtain ret p1 where p1: "do_send net c msg p0 = Some (ret, p1)" using body q by (auto simp: bind_eq_Some_conv p0_def)
      have v0: "saves p0 c" using v pool_le_valid [OF p0, of c] by (simp add: p0_def cnx_at_upd_cnx saves_def)
      have s1: "pool_le none p0 p1" "\<not> isl ret \<longrightarrow> cnx_has msg (cnx_at p1 c)" using do_send_le [OF p1] v0 by (auto simp: saves_def)
      have v1: "saves p1 c" using pool_le_saves [OF s1(1) v0] .
      show ?thesis
      proof (cases "isl ret")
        case True
        then obtain p2 where p2: "set_state_dead net c True p1 = Some p2" "r = (False, failover_save_msg c msg p2)"
          using body q p1 by (auto simp: p0_def)
        have le2: "pool_le none p1 p2" using set_state_dead_le [OF p2(1)] v1 by (simp add: saves_def)
        have v2: "valid p2 c" "cx_failover (cnx_at p2 c) \<noteq> None" using pool_le_saves [OF le2 v1] by (simp_all add: saves_def)
        have "pool_le (none(c := {msg})) p (snd r)"
          using pool_le_more [OF pool_le_more [OF pool_le_more [OF p0 s1(1)] le2] save_le [OF v2(1)]] p2(2) by simp
        then show ?thesis using save_has [OF v2] p2(2) by (auto intro: pool_le_restored)
      next
        case False
        then have "f net c p1 = Some r" using body q p1 by (simp add: p0_def)
        then have "pool_le none p1 (snd r)" using IH v1 by (auto simp: saves_def)
        moreover have "pool_le none p p1" using pool_le_restored [OF pool_le_more [OF p0 s1(1)]] s1(2) False by simp
        ultimately show ?thesis by (rule pool_le_trans0 [rotated])
      qed
    qed
  qed
  then show ?thesis using assms(2) by simp
qed

section \<open>Steps of the pool\<close>

text \<open>
  A message is kept when it is in the file of the pool, or when each connection of one list has sent it or saves it. All files are there; a list without
  connections counts as dead.
\<close>

definition kept :: "'m \<Rightarrow> 'm pool \<Rightarrow> bool" where
  "kept m p \<longleftrightarrow> (\<exists>q. po_failover p = Some q \<and> m \<in> set q) \<or>
     (\<exists>l \<in> set (po_or_list p). cl_and l \<noteq> [] \<and> (\<forall>x \<in> set (cl_and l). cnx_has m x))"

definition pool_ok :: "'m pool \<Rightarrow> bool" where
  "pool_ok p \<longleftrightarrow> po_failover p \<noteq> None \<and> po_use_failover p \<and> \<not> po_connection_string_changed p \<and>
     (\<forall>l \<in> set (po_or_list p). cl_total l = length (cl_and l) \<and> (cl_and l = [] \<longrightarrow> cl_dead l = 0) \<and> (\<forall>x \<in> set (cl_and l). cx_failover x \<noteq> None))"

definition keeps :: "'m pool \<Rightarrow> 'm pool \<Rightarrow> bool" where
  "keeps p p' \<longleftrightarrow> (pool_ok p \<longrightarrow> pool_ok p' \<and> (\<forall>m. kept m p \<longrightarrow> kept m p') \<and> (\<forall>c. valid p' c = valid p c))"

lemma all_cnx: "(\<forall>x \<in> set (cl_and (po_or_list p ! i)). P x) \<longleftrightarrow> (\<forall>c \<in> set (list_places p i). P (cnx_at p c))"
  by (auto simp: list_places_def cnx_at_def all_set_conv_all_nth)

lemma bex_nth: "(\<exists>l \<in> set ls. Q l) \<longleftrightarrow> (\<exists>i < length ls. Q (ls ! i))"
  by (metis in_set_conv_nth)

lemma list_places_Nil [simp]: "list_places p i = [] \<longleftrightarrow> cl_and (po_or_list p ! i) = []"
  by (simp add: list_places_def)

lemma kept_places:
  "kept m p \<longleftrightarrow> (\<exists>q. po_failover p = Some q \<and> m \<in> set q) \<or>
     (\<exists>i < length (po_or_list p). list_places p i \<noteq> [] \<and> (\<forall>c \<in> set (list_places p i). cnx_has m (cnx_at p c)))"
  by (simp add: kept_def bex_nth all_cnx)

lemma pool_ok_saves: "pool_ok p \<Longrightarrow> valid p c \<Longrightarrow> saves p c"
  by (auto simp: pool_ok_def saves_def valid_def cnx_at_def dest!: nth_mem)

lemma list_places_le: "pool_le S p p' \<Longrightarrow> i < length (po_or_list p) \<Longrightarrow> list_places p' i = list_places p i"
  by (simp add: pool_le_def pool_frame_def list_le_def list_places_def)

lemma pool_le_kept: "pool_le none p p' \<Longrightarrow> kept m p \<Longrightarrow> kept m p'"
  unfolding kept_places using list_places_le [of none p p'] valid_list_places [of _ p] pool_le_has [of none p p' _ m]
  by (auto simp: pool_le_def pool_frame_def simp del: list_places_Nil)

lemma pool_le_ok:
  assumes "pool_le none p p'" "pool_ok p"
  shows "pool_ok p'"
proof -
  have "cl_total l' = length (cl_and l') \<and> (cl_and l' = [] \<longrightarrow> cl_dead l' = 0) \<and> (\<forall>x \<in> set (cl_and l'). cx_failover x \<noteq> None)"
    if l: "l' \<in> set (po_or_list p')" for l'
  proof -
    obtain i where i: "i < length (po_or_list p')" "l' = po_or_list p' ! i" using l by (auto simp: in_set_conv_nth)
    then have le: "i < length (po_or_list p)" "list_le (po_or_list p ! i) l'" using assms(1) by (auto simp: pool_le_def pool_frame_def)
    have "\<forall>c \<in> set (list_places p' i). cx_failover (cnx_at p' c) \<noteq> None"
      using valid_list_places [OF i(1)] pool_ok_saves [OF assms(2)] pool_le_saves [OF assms(1)] pool_le_valid [OF assms(1)] by (auto simp: saves_def)
    then have "\<forall>x \<in> set (cl_and l'). cx_failover x \<noteq> None" unfolding i(2) all_cnx .
    moreover have "cl_total l = length (cl_and l) \<and> (cl_and l = [] \<longrightarrow> cl_dead l = 0)" if "l = po_or_list p ! i" for l
      using assms(2) le(1) that by (auto simp: pool_ok_def)
    ultimately show ?thesis using le(2) by (auto simp: list_le_def)
  qed
  then show ?thesis using assms by (auto simp: pool_ok_def pool_le_def pool_frame_def)
qed

lemma pool_le_keeps: "pool_le none p p' \<Longrightarrow> keeps p p'"
  by (simp add: keeps_def pool_le_kept pool_le_ok pool_le_valid)

lemma keeps_refl [simp]: "keeps p p"
  by (simp add: keeps_def)

lemma keeps_trans [trans]: "keeps p q \<Longrightarrow> keeps q r \<Longrightarrow> keeps p r"
  by (simp add: keeps_def)

lemma keeps_if: "(pool_ok p \<Longrightarrow> keeps p p') \<Longrightarrow> keeps p p'"
  by (auto simp: keeps_def)

lemma keeps_ok: "keeps p p' \<Longrightarrow> pool_ok p \<Longrightarrow> pool_ok p'"
  by (simp add: keeps_def)

lemma keeps_valid: "keeps p p' \<Longrightarrow> pool_ok p \<Longrightarrow> valid p' c = valid p c"
  unfolding keeps_def by blast

text \<open>A message taken from the file of the pool and sent to all connections of a list.\<close>

lemma broadcast_taken:
  assumes "broadcast_message net (list_places p i) msg (p\<lparr>po_failover := Some q\<rparr>) = Some p'"
    and "po_failover p = Some (msg # q)" "i < length (po_or_list p)" "cl_and (po_or_list p ! i) \<noteq> []"
  shows "keeps p p'"
proof (rule keeps_if)
  assume ok: "pool_ok p"
  let ?p = "p\<lparr>po_failover := Some q\<rparr>"
  have same: "valid ?p c = valid p c" "cnx_at ?p c = cnx_at p c" "list_places ?p j = list_places p j" for c j
    by (simp_all add: valid_def cnx_at_def list_places_def)
  have ok': "pool_ok ?p" using ok by (simp add: pool_ok_def)
  have "\<forall>c \<in> set (list_places p i). saves ?p c" using pool_ok_saves [OF ok'] valid_list_places [OF assms(3)] same(1) by blast
  from broadcast_message_le [OF assms(1) this]
  have le: "pool_le none ?p p'" and all: "\<forall>c \<in> set (list_places p i). cnx_has msg (cnx_at p' c)" by simp_all
  have "kept m p'" if "kept m p" for m
  proof (cases "m = msg")
    case True
    have "list_places p' i = list_places p i" "i < length (po_or_list p')"
      using list_places_le [OF le, of i] assms(3) same(3) le by (simp_all add: pool_le_def pool_frame_def)
    then show ?thesis using all assms(4) True unfolding kept_places by (metis list_places_Nil)
  next
    case False
    then have "kept m ?p" using \<open>kept m p\<close> assms(2) by (auto simp: kept_def)
    then show ?thesis using le by (rule pool_le_kept [rotated])
  qed
  then show "keeps p p'" using pool_le_ok [OF le ok'] pool_le_valid [OF le] same(1) by (simp add: keeps_def)
qed

lemma valid_list: "valid p c \<Longrightarrow> fst c < length (po_or_list p) \<and> cl_and (po_or_list p ! fst c) \<noteq> []"
  by (auto simp: valid_def)

lemma flush_pool_keeps:
  assumes "flush_pool net i p = Some r" "valid p c" "fst c = i"
  shows "keeps p (snd r)"
proof -
  have "valid p c \<longrightarrow> fst c = i \<longrightarrow> keeps p (snd r)"
  proof (rule flush_pool.raw_induct [of "\<lambda>net i p r. valid p c \<longrightarrow> fst c = i \<longrightarrow> keeps p (snd r)", OF _ assms(1)], intro impI)
    fix f net i p r
    assume IH: "\<And>net i p r. f net i p = Some r \<Longrightarrow> valid p c \<longrightarrow> fst c = i \<longrightarrow> keeps p (snd r)" and v: "valid p c" "fst c = i"
      and body: "(case po_failover p of None \<Rightarrow> Some (True, p) | Some [] \<Rightarrow> Some (True, p)
      | Some (msg # q) \<Rightarrow> Option.bind (broadcast_message net (list_places p i) msg (p\<lparr>po_failover := Some q\<rparr>)) (\<lambda>p1.
            if cl_dead (po_or_list p1 ! i) \<noteq> 0 then Some (False, p1) else f net i p1)) = Some r"
    show "keeps p (snd r)"
    proof (cases "po_failover p = None \<or> po_failover p = Some []")
      case True
      then show ?thesis using body by auto
    next
      case False
      then obtain msg q where q: "po_failover p = Some (msg # q)" by (auto simp: neq_Nil_conv)
      then obtain p1 where p1: "broadcast_message net (list_places p i) msg (p\<lparr>po_failover := Some q\<rparr>) = Some p1"
        and rest: "(if cl_dead (po_or_list p1 ! i) \<noteq> 0 then Some (False, p1) else f net i p1) = Some r"
        using body by (auto simp: bind_eq_Some_conv)
      have step: "keeps p p1" using broadcast_taken [OF p1 q] valid_list [OF v(1)] v(2) by simp
      show ?thesis
      proof (rule keeps_if)
        assume "pool_ok p"
        then have "valid p1 c" using keeps_valid [OF step] v(1) by simp
        then have "keeps p1 (snd r)" using rest IH [of net i p1 r] v(2) by (auto split: if_splits)
        then show "keeps p (snd r)" by (rule keeps_trans [OF step])
      qed
    qed
  qed
  then show ?thesis using assms by simp
qed

lemma set_state_alive_keeps:
  assumes "set_state_alive net c g p = Some r" "valid p c"
  shows "keeps p (snd r)"
proof (rule keeps_if)
  assume ok: "pool_ok p"
  define p1 where "p1 = upd_cnx c (\<lambda>x. x\<lparr>cx_timer := False, cx_expire := INITIAL_EXPIRATION_TIME\<rparr>) p"
  define p2 where "p2 = upd_list (fst c) (\<lambda>l. l\<lparr>cl_dead := cl_dead l - 1\<rparr>) p1"
  define p3 where "p3 = notify_event EVENT_ALIVE (con_id (cx_con (cnx_at p2 c))) g p2"
  have "pool_le none p p1" unfolding p1_def using assms(2) by (intro pool_le_upd_cnx) (auto simp: cnx_le_def cnx_has_def)
  also have "pool_le none p1 p2" unfolding p2_def using assms(2) calculation by (intro pool_le_upd_dead) (simp add: pool_le_valid)
  also have "pool_le none p2 p3" unfolding p3_def by (rule notify_le)
  finally have le3: "pool_le none p p3" .
  obtain ok4 p4 where p4: "flush_cnx net c p3 = Some (ok4, p4)"
    and rest: "(if \<not> ok4 then Some (False, p4) else Option.bind
             (if po_failover p4 \<noteq> None \<and> cl_dead (po_or_list p4 ! fst c) = 0 then flush_pool net (fst c) p4 else Some (True, p4)) (\<lambda>(ok, p5).
             if \<not> ok then Some (False, p5)
             else let fd = con_fd (cx_con (cnx_at p5 c)) in
               if fd < FD_SETSIZE then Some (True, p5\<lparr>po_fds := insert fd (po_fds p5), po_nfd := max (fd + 1) (po_nfd p5)\<rparr>) else None)) = Some r"
    using assms(1) unfolding set_state_alive_def Let_def p1_def [symmetric] p2_def [symmetric] p3_def [symmetric]
    by (auto simp: bind_eq_Some_conv)
  have "pool_le none p3 p4" using flush_cnx_le [OF p4] assms(2) le3 by (simp add: pool_le_valid)
  then have le4: "pool_le none p p4" by (rule pool_le_trans0 [OF le3])
  have v4: "valid p4 c" using le4 assms(2) by (simp add: pool_le_valid)
  have fields: "keeps p4 (p5\<lparr>po_fds := a, po_nfd := b\<rparr>)" if "keeps p4 p5" for p5 a b
    using that by (rule keeps_trans) (rule pool_le_keeps, rule pool_le_fields, simp_all)
  have "keeps p4 (snd r)"
    using rest flush_pool_keeps [of net "fst c" p4 _ c] v4 fields
    by (auto simp: bind_eq_Some_conv Let_def split: if_splits)
  then show "keeps p (snd r)" by (rule keeps_trans [OF pool_le_keeps [OF le4]])
qed

lemma dead_list_empty: "pool_ok p \<Longrightarrow> i < length (po_or_list p) \<Longrightarrow> \<not> (cl_dead (po_or_list p ! i) = cl_total (po_or_list p ! i) \<and> po_use_failover p) \<Longrightarrow>
  cl_and (po_or_list p ! i) \<noteq> []"
  by (auto simp: pool_ok_def dest!: nth_mem)

lemma pool_le_cons: "broadcast_message net (list_places p i) msg p = Some p' \<Longrightarrow> pool_ok p \<Longrightarrow> i < length (po_or_list p) \<Longrightarrow>
    pool_le none p p' \<and> (\<forall>c \<in> set (list_places p i). cnx_has msg (cnx_at p' c))"
  by (rule broadcast_message_le) (auto intro: pool_ok_saves valid_list_places)

lemma walk_lists_keeps:
  assumes "walk_lists net is msg p = Some p'" "pool_ok p" "set is \<subseteq> {..<length (po_or_list p)}"
  shows "keeps p p' \<and> kept msg p'"
  using assms
proof (induction net "is" msg p rule: walk_lists.induct)
  case (1 net msg p)
  then show ?case by (auto simp: keeps_def kept_def pool_ok_def valid_def)
next
  case (2 net i "is" msg p)
  show ?case
  proof (cases "cl_dead (po_or_list p ! i) = cl_total (po_or_list p ! i) \<and> po_use_failover p")
    case True
    then show ?thesis using 2 by simp
  next
    case False
    then have b: "broadcast_message net (list_places p i) msg p = Some p'" and i: "i < length (po_or_list p)" using 2(2,4) by auto
    from pool_le_cons [OF b 2(3) i] have le: "pool_le none p p'" and all: "\<forall>c \<in> set (list_places p i). cnx_has msg (cnx_at p' c)" by simp_all
    have "i < length (po_or_list p')" "list_places p' i = list_places p i" using i le list_places_le [OF le i] by (simp_all add: pool_le_def pool_frame_def)
    then have "kept msg p'" using all dead_list_empty [OF 2(3) i False] unfolding kept_places by (metis list_places_Nil)
    then show ?thesis using pool_le_keeps [OF le] by simp
  qed
qed

lemma broadcast_keeps:
  "prelude_connection_pool_broadcast net msg p = Some p' \<Longrightarrow> keeps p p' \<and> (pool_ok p \<longrightarrow> kept msg p')"
  using walk_lists_keeps [of net "[0..<length (po_or_list p)]" msg p p']
  by (auto simp: prelude_connection_pool_broadcast_def walk_manager_lists_def atLeast0LessThan lessThan_Suc intro: keeps_if)

section \<open>Operations\<close>

lemma pool_connect_le: "pool_connect net c p = Some (ret, p') \<Longrightarrow> valid p c \<Longrightarrow> pool_le none p p'"
  by (auto simp: pool_connect_def connect_sent intro!: set_con_le)

lemma connect_places_keeps:
  assumes "connect_places net cs ev p = Some (ret, ev', p')" "\<forall>c \<in> set cs. valid p c"
  shows "keeps p p'"
proof (rule keeps_if)
  assume "pool_ok p"
  with assms show "keeps p p'"
  proof (induction cs arbitrary: ev p)
    case (Cons c cs)
    have cont: "keeps p p'" if "keeps p q" "connect_places net cs ev q = Some (ret, ev', p')" for q ev
      using Cons.IH [OF that(2)] Cons.prems(2,3) keeps_ok [OF that(1) Cons.prems(3)] keeps_valid [OF that(1) Cons.prems(3)]
      by (auto intro: keeps_trans [OF that(1)])
    show ?case
    proof (cases "prelude_connection_is_alive (cx_con (cnx_at p c))")
      case True
      then show ?thesis using Cons.prems(1) cont [OF keeps_refl] by (auto split: if_splits)
    next
      case False
      then obtain r1 p1 where p1: "pool_connect net c p = Some (r1, p1)" using Cons.prems(1) by (auto simp: bind_eq_Some_conv split: if_splits)
      have le: "pool_le none p p1" and v: "valid p1 c" using pool_connect_le [OF p1] Cons.prems(2) by (auto simp: pool_le_valid)
      have k1: "keeps p p1" using le by (rule pool_le_keeps)
      have dead: "keeps p q" if "set_state_dead net c False p1 = Some q" for q
        using keeps_trans [OF k1 pool_le_keeps [OF set_state_dead_le [OF that v]]] .
      have alive: "keeps p q" if "set_state_alive net c False p1 = Some (b, q)" for b q
        using keeps_trans [OF k1] set_state_alive_keeps [OF that v] by simp
      show ?thesis
        using Cons.prems(1) False p1 k1 cont [OF k1] cont [OF dead] cont [OF alive]
        by (auto simp: bind_eq_Some_conv split: if_splits)
    qed
  qed simp
qed

text \<open>The initialisation again, after it has failed or when connections are to be established anew.\<close>

lemma init_keeps:
  assumes "prelude_connection_pool_init net p = Some (ret, p')"
  shows "keeps p p'"
proof (rule keeps_if)
  assume ok: "pool_ok p"
  have finish: "keeps p ((global_event_handler ev q)\<lparr>po_timer := a, po_initialized := b\<rparr>)" if "keeps p q" for q ev a b
    using that by (rule keeps_trans) (rule pool_le_keeps, rule pool_le_fields, simp_all)
  have fresh: "po_failover p \<noteq> None" "\<not> po_connection_string_changed p" using ok by (simp_all add: pool_ok_def)
  show "keeps p p'"
    using assms fresh connect_places_keeps [of net "all_places p" "{}" p] valid_all_places [of _ p]
    by (auto simp: prelude_connection_pool_init_def bind_eq_Some_conv split: if_splits intro: finish)
qed

lemma timer_expire_keeps:
  assumes "connection_timer_expire net c p = Some p'" "valid p c"
  shows "keeps p p'"
proof -
  obtain ret p1 where p1: "pool_connect net c p = Some (ret, p1)"
    using assms(1) by (auto simp: connection_timer_expire_def bind_eq_Some_conv split: if_splits)
  have k: "keeps p p1" and v: "valid p1 c" using pool_connect_le [OF p1 assms(2)] assms(2) by (simp_all add: pool_le_keeps pool_le_valid)
  have timer: "keeps p1 (upd_cnx c (\<lambda>x. x\<lparr>cx_expire := f x, cx_timer := True\<rparr>) p1)" for f
    using v by (intro pool_le_keeps pool_le_upd_cnx) (auto simp: cnx_le_def cnx_has_def)
  have alive: "keeps p1 q" if "set_state_alive net c True p1 = Some (b, q)" for b q
    using set_state_alive_keeps [OF that v] by simp
  show ?thesis
    using assms(1) p1 keeps_trans [OF k timer] keeps_trans [OF k alive]
    by (auto simp: connection_timer_expire_def split: if_splits)
qed

lemma search_places_in: "search_places p con cs = Some (Some c) \<Longrightarrow> c \<in> set cs"
  by (induction cs) (auto split: if_splits)

lemma with_cnx_keeps:
  assumes "with_cnx con f p = Some (ret, p')" "\<And>c. valid p c \<Longrightarrow> f c p = Some (ret, p') \<Longrightarrow> keeps p p'"
  shows "keeps p p'"
proof -
  obtain found where found: "search_places p con (all_places p) = Some found"
    using assms(1) by (auto simp: with_cnx_def search_cnx_def bind_eq_Some_conv)
  show ?thesis
  proof (cases found)
    case None
    then show ?thesis using assms(1) found by (auto simp: with_cnx_def search_cnx_def)
  next
    case (Some c)
    then have "c \<in> set (all_places p)" using found search_places_in by simp
    then have "valid p c" by (rule valid_all_places)
    moreover have "f c p = Some (ret, p')" using assms(1) found Some by (simp add: with_cnx_def search_cnx_def)
    ultimately show ?thesis by (rule assms(2))
  qed
qed

lemma del_keeps: "prelude_connection_pool_del_connection con p = Some (ret, p') \<Longrightarrow> keeps p p'"
  unfolding prelude_connection_pool_del_connection_def
  by (erule with_cnx_keeps) (auto intro!: pool_le_keeps pool_le_upd_cnx simp: cnx_le_def cnx_has_def)

lemma set_dead_keeps:
  assumes "prelude_connection_pool_set_connection_dead net con p = Some (ret, p')"
  shows "keeps p p'"
  using assms unfolding prelude_connection_pool_set_connection_dead_def
proof (rule with_cnx_keeps)
  fix c
  let ?p = "upd_cnx c (\<lambda>x. x\<lparr>cx_con := prelude_connection_set_state False False (cx_con x)\<rparr>) p"
  assume v: "valid p c" and step: "(if \<not> con_alive (cx_con (cnx_at p c)) then Some (Inr (), p) else map_option (Pair (Inr ())) (set_state_dead net c False ?p)) = Some (ret, p')"
  have le: "pool_le none p ?p"
    using v by (intro pool_le_upd_cnx) (auto simp: cnx_le_def cnx_has_def prelude_connection_set_state_def)
  then have "pool_le none ?p q" if "set_state_dead net c False ?p = Some q" for q using set_state_dead_le [OF that] v by (simp add: pool_le_valid)
  then show "keeps p p'" using step pool_le_trans0 [OF le] by (auto intro!: pool_le_keeps split: if_splits)
qed

lemma set_alive_keeps: "prelude_connection_pool_set_connection_alive net con p = Some (ret, p') \<Longrightarrow> keeps p p'"
  unfolding prelude_connection_pool_set_connection_alive_def
  by (erule with_cnx_keeps) (auto split: if_splits dest: set_state_alive_keeps)

section \<open>Waiting for events\<close>

text \<open>Without a callback of the user, the loop over the connections is a step that keeps messages.\<close>

lemma check_error_keeps:
  "check_error net c ret ev re p = Some (ret', ev', re', p') \<Longrightarrow> valid p c \<Longrightarrow> pool_le none p p'"
  by (auto simp: check_error_def dest: set_state_dead_le)

lemma clock_le: "pool_le none p (p\<lparr>po_clock := n\<rparr>)"
  by (rule pool_le_fields) simp_all

lemma check_connection_event_le:
  assumes "check_connection_event net rq c ev re p = Some (ret, ev', re', p')" "rq_callback rq = None" "valid p c"
  shows "pool_le none p p'"
proof -
  have clock: "pool_le none p q" if "check_error net c ret ev re (p\<lparr>po_clock := n\<rparr>) = Some (ret', ev', re', q)" for ret ev re n ret' ev' re' q
    using check_error_keeps [OF that] assms(3) pool_le_trans0 [OF clock_le] by (simp add: valid_def)
  have handler: "pool_le none p (event_handler EVENT_INPUT k p)" for k
    by (rule pool_le_fields) simp_all
  have handled: "pool_le none p q" if "check_error net c ret ev re (event_handler EVENT_INPUT k p) = Some (ret', ev', re', q)" for ret ev re k ret' ev' re' q
    using check_error_keeps [OF that] assms(3) pool_le_trans0 [OF handler] by (simp add: valid_def)
  show ?thesis
    using assms(1,2) clock handled by (auto simp: check_connection_event_def Let_def clock_le handler split: if_splits sum.splits prod.splits)
qed

lemma check_places_step:
  "check_places net rq rfds (c # cs) (i, ev, re, p) = Some r \<Longrightarrow>
     check_places net rq rfds cs (i, ev, re, p) = Some r \<or>
     (\<exists>ret ev1 re1 p1 cs' i'. check_connection_event net rq c (insert EVENT_INPUT ev) re p = Some (ret, ev1, re1, p1) \<and>
        set cs' \<subseteq> set cs \<and> length cs' \<le> length cs \<and> (i' = i \<or> 0 < ret) \<and> check_places net rq rfds cs' (i', ev1, re1, p1) = Some r)"
proof -
  assume run: "check_places net rq rfds (c # cs) (i, ev, re, p) = Some r"
  let ?con = "cx_con (cnx_at p c)"
  have cut: "set (dropWhile (\<lambda>d. fst d = fst c) cs) \<subseteq> set cs" "length (dropWhile (\<lambda>d. fst d = fst c) cs) \<le> length cs"
    by (auto simp: length_dropWhile_le dest: set_dropWhileD)
  have f: "\<not> cx_freed (cnx_at p c)" using run by (auto split: if_splits)
  show ?thesis
  proof (cases "\<not> con_alive ?con \<or> con_fd ?con \<notin> rfds")
    case True
    then show ?thesis using run f by (simp add: Let_def)
  next
    case False
    then obtain ret ev1 re1 p1 where e: "check_connection_event net rq c (insert EVENT_INPUT ev) re p = Some (ret, ev1, re1, p1)"
      using run f by (auto simp: Let_def split: option.splits)
    define cs' i' where "cs' = (if ret = 1 then dropWhile (\<lambda>d. fst d = fst c) cs else cs)" and "i' = (if ret \<le> 0 then i else i + 1)"
    have "set cs' \<subseteq> set cs \<and> length cs' \<le> length cs \<and> (i' = i \<or> 0 < ret) \<and> check_places net rq rfds cs' (i', ev1, re1, p1) = Some r"
      using run f False e cut by (auto simp: Let_def cs'_def i'_def split: if_splits)
    then show ?thesis using e by blast
  qed
qed

lemma check_places_le:
  assumes "check_places net rq rfds cs s = Some (i', ev', re', p')" "rq_callback rq = None" "\<forall>c \<in> set cs. valid (snd (snd (snd s))) c"
  shows "pool_le none (snd (snd (snd s))) p'"
  using assms
proof (induction cs arbitrary: s rule: length_induct)
  case (1 cs)
  obtain i ev re p where s: "s = (i, ev, re, p)" by (cases s)
  show ?case
  proof (cases cs)
    case (Cons c ds)
    have "check_places net rq rfds ds s = Some (i', ev', re', p') \<Longrightarrow> pool_le none p p'"
      using 1 Cons s by auto
    moreover have "pool_le none p p'"
      if e: "check_connection_event net rq c (insert EVENT_INPUT ev) re p = Some (ret, ev1, re1, p1)"
        and rest: "set cs' \<subseteq> set ds" "length cs' \<le> length ds" "check_places net rq rfds cs' (j, ev1, re1, p1) = Some (i', ev', re', p')" for ret ev1 re1 p1 cs' j
    proof -
      have le: "pool_le none p p1" using check_connection_event_le [OF e 1(3)] 1(4) s Cons by simp
      have "\<forall>d \<in> set cs'. valid p1 d" using 1(4) s Cons rest(1) pool_le_valid [OF le] by auto
      moreover have "length cs' < length cs" using rest(2) Cons by simp
      ultimately have "pool_le none p1 p'" using 1(1) [rule_format, of cs' "(j, ev1, re1, p1)"] 1(3) rest(3) by simp
      then show ?thesis by (rule pool_le_trans0 [OF le])
    qed
    ultimately show ?thesis using check_places_step [of net rq rfds c ds i ev re p] 1(2) s Cons by auto
  qed (use 1 s in simp)
qed

definition select_works :: "'m network \<Rightarrow> bool" where
  "select_works net \<longleftrightarrow> (\<forall>n fds k w. \<not> isl (ne_select net n fds k w))"

lemma select_worksD: "select_works net \<Longrightarrow> \<not> isl (ne_select net n fds k w)"
  unfolding select_works_def by blast

definition selected :: "'m network \<Rightarrow> int \<Rightarrow> 'm pool \<Rightarrow> nat set result \<times> 'm pool \<Rightarrow> bool" where
  "selected net timeout p r \<longleftrightarrow> (\<exists>n. snd r = p\<lparr>po_clock := n\<rparr>) \<and> (timeout = - 1 \<longrightarrow> fst r \<noteq> Inr {}) \<and> (select_works net \<longrightarrow> \<not> isl (fst r))"

lemma select_loop_selected:
  assumes "select_loop net timeout p = Some r"
  shows "selected net timeout p r"
proof (rule select_loop.raw_induct [of selected, OF _ assms])
  fix f net timeout p r
  assume IH: "\<And>net timeout p r. f net timeout p = Some r \<Longrightarrow> selected net timeout p r"
    and body: "(let ret = ne_select net (po_clock p) (po_fds p) (po_nfd p) (wait_time timeout); p1 = p\<lparr>po_clock := po_clock p + 1\<rparr> in
      if ret = Inr {} \<and> timeout = - 1 then f net timeout p1 else Some (ret, p1)) = Some r"
  show "selected net timeout p r"
  proof (cases "ne_select net (po_clock p) (po_fds p) (po_nfd p) (wait_time timeout) = Inr {} \<and> timeout = - 1")
    case True
    then have "selected net timeout (p\<lparr>po_clock := po_clock p + 1\<rparr>) r"
      using body IH [of net timeout "p\<lparr>po_clock := po_clock p + 1\<rparr>" r] by (auto simp: Let_def)
    then show ?thesis by (auto simp: selected_def)
  next
    case False
    then have "r = (ne_select net (po_clock p) (po_fds p) (po_nfd p) (wait_time timeout), p\<lparr>po_clock := po_clock p + 1\<rparr>)"
      using body by (auto simp: Let_def)
    then show ?thesis using False by (auto simp: selected_def dest: select_worksD)
  qed
qed

text \<open>One turn of the loop: it ends, or goes on with less time.\<close>

lemma check_event_turn:
  assumes "(case get_time net p of (ts, p1) \<Rightarrow>
        Option.bind (select_loop net timeout p1) (\<lambda>(ret, p2).
          case ret of
            Inl e \<Rightarrow> Some (Inl e, re, p2)
          | Inr rfds \<Rightarrow>
              if rfds = {} then Some (Inr 0, re, p2)
              else Option.bind (check_places net rq rfds (all_places p2) (0, {}, re, p2)) (\<lambda>(i, ev, re1, p3).
                let p4 = global_event_handler ev p3 in
                Option.bind (if po_connection_string_changed p4 then map_option snd (prelude_connection_pool_init net p4) else Some p4) (\<lambda>p5.
                  if timeout = - 1 \<and> i = 0 then f net rq timeout re1 p5
                  else case get_time net p5 of (te, p6) \<Rightarrow>
                    if i = 0 \<and> timeval_subtract te ts < timeout then f net rq (timeout - timeval_subtract te ts) re1 p6
                    else Some (Inr i, re1, p6))))) = Some r"
  obtains (ended) n ret where "r = (ret, re, p\<lparr>po_clock := n\<rparr>)" "\<forall>i. ret = Inr i \<longrightarrow> i = 0" "timeout = - 1 \<longrightarrow> isl ret" "select_works net \<longrightarrow> \<not> isl ret"
  | (turned) n rfds i ev re1 p3 p5 where "check_places net rq rfds (all_places p) (0, {}, re, p\<lparr>po_clock := n\<rparr>) = Some (i, ev, re1, p3)"
      "(if po_connection_string_changed p3 then map_option snd (prelude_connection_pool_init net (global_event_handler ev p3)) else Some (global_event_handler ev p3)) = Some p5"
      "(\<exists>m. r = (Inr i, re1, p5\<lparr>po_clock := m\<rparr>)) \<and> \<not> (timeout = - 1 \<and> i = 0) \<or>
       (\<exists>t p6. f net rq t re1 p6 = Some r \<and> (\<exists>m. p6 = p5\<lparr>po_clock := m\<rparr>) \<and> i = 0 \<and> (timeout = - 1 \<longrightarrow> t = - 1))"
proof -
  obtain ret p2 where sel: "select_loop net timeout (p\<lparr>po_clock := po_clock p + 1\<rparr>) = Some (ret, p2)"
    using assms(1) by (auto simp: get_time_def bind_eq_Some_conv)
  from select_loop_selected [OF sel] obtain n where n: "p2 = p\<lparr>po_clock := n\<rparr>" "timeout = - 1 \<longrightarrow> ret \<noteq> Inr {}"
    "select_works net \<longrightarrow> \<not> isl ret" by (auto simp: selected_def)
  have "list_places p2 = list_places p" by (rule ext) (simp add: n list_places_def)
  then have places: "all_places p2 = all_places p" by (simp add: n all_places_def)
  show thesis
  proof (cases "isl ret \<or> ret = Inr {}")
    case True
    then show thesis using assms(1) sel n by (intro ended [of "map_sum id (\<lambda>_. 0) ret" n]) (auto simp: get_time_def split: sum.splits)
  next
    case False
    then obtain rfds where rfds: "ret = Inr rfds" "rfds \<noteq> {}" by (cases ret) auto
    then obtain i ev re1 p3 where scan: "check_places net rq rfds (all_places p) (0, {}, re, p2) = Some (i, ev, re1, p3)"
      using assms(1) sel places by (auto simp: get_time_def bind_eq_Some_conv)
    then obtain p5 where init: "(if po_connection_string_changed p3 then map_option snd (prelude_connection_pool_init net (global_event_handler ev p3)) else Some (global_event_handler ev p3)) = Some p5"
      using assms(1) sel rfds places by (auto simp: get_time_def bind_eq_Some_conv Let_def)
    have id: "\<exists>m. p5 = p5\<lparr>po_clock := m\<rparr>" by (rule exI [of _ "po_clock p5"]) simp
    show thesis
      using assms(1) sel rfds scan init places id
      by (intro turned [OF scan [unfolded n(1)] init]) (auto simp: get_time_def Let_def split: if_splits)
  qed
qed

lemma valid_clock [simp]: "valid (p\<lparr>po_clock := n\<rparr>) c = valid p c"
  by (simp add: valid_def)

lemma clock_keeps: "keeps p (p\<lparr>po_clock := n\<rparr>)"
  by (rule pool_le_keeps) (rule clock_le)

lemma check_event_keeps:
  assumes "connection_pool_check_event net rq timeout re p = Some r" "rq_callback rq = None"
  shows "keeps p (snd (snd r))"
proof -
  have "rq_callback rq = None \<longrightarrow> keeps p (snd (snd r))"
  proof (rule connection_pool_check_event.raw_induct [of "\<lambda>net rq t re p r. rq_callback rq = None \<longrightarrow> keeps p (snd (snd r))", OF _ assms(1)], intro impI)
    fix f net rq timeout re p r
    assume IH: "\<And>net rq t re p r. f net rq t re p = Some r \<Longrightarrow> rq_callback rq = None \<longrightarrow> keeps p (snd (snd r))"
      and no_cb: "rq_callback rq = None"
      and body: "(case get_time net p of (ts, p1) \<Rightarrow>
        Option.bind (select_loop net timeout p1) (\<lambda>(ret, p2).
          case ret of
            Inl e \<Rightarrow> Some (Inl e, re, p2)
          | Inr rfds \<Rightarrow>
              if rfds = {} then Some (Inr 0, re, p2)
              else Option.bind (check_places net rq rfds (all_places p2) (0, {}, re, p2)) (\<lambda>(i, ev, re1, p3).
                let p4 = global_event_handler ev p3 in
                Option.bind (if po_connection_string_changed p4 then map_option snd (prelude_connection_pool_init net p4) else Some p4) (\<lambda>p5.
                  if timeout = - 1 \<and> i = 0 then f net rq timeout re1 p5
                  else case get_time net p5 of (te, p6) \<Rightarrow>
                    if i = 0 \<and> timeval_subtract te ts < timeout then f net rq (timeout - timeval_subtract te ts) re1 p6
                    else Some (Inr i, re1, p6))))) = Some r"
    from body show "keeps p (snd (snd r))"
    proof (cases rule: check_event_turn)
      case (ended n ret)
      then show ?thesis by (simp add: clock_keeps)
    next
      case (turned n rfds i ev re1 p3 p5)
      have "pool_le none (p\<lparr>po_clock := n\<rparr>) p3"
        using check_places_le [OF turned(1) no_cb] valid_all_places by fastforce
      then have p3: "keeps p p3" by (rule keeps_trans [OF clock_keeps pool_le_keeps])
      have "keeps p3 (global_event_handler ev p3)" by (rule pool_le_keeps, rule pool_le_fields) simp_all
      then have "keeps p3 p5" using turned(2) init_keeps by (fastforce split: if_splits intro: keeps_trans)
      then have p5: "keeps p p5" by (rule keeps_trans [OF p3])
      have later: "keeps p (p5\<lparr>po_clock := m\<rparr>)" for m using p5 clock_keeps by (rule keeps_trans)
      from turned(3) show ?thesis
      proof (elim disjE exE conjE)
        fix m
        assume "r = (Inr i, re1, p5\<lparr>po_clock := m\<rparr>)"
        then show ?thesis using later by simp
      next
        fix t p6 m
        assume "f net rq t re1 p6 = Some r" "p6 = p5\<lparr>po_clock := m\<rparr>"
        then show ?thesis using IH [of net rq t re1 p6 r] no_cb keeps_trans [OF later] by simp
      qed
    qed
  qed
  then show ?thesis using assms(2) by simp
qed

text \<open>A callback that reports no more than success is not counted.\<close>

definition plain_callback :: "'m request \<Rightarrow> bool" where
  "plain_callback rq \<longleftrightarrow> \<not> rq_outcon rq \<and> (case rq_callback rq of None \<Rightarrow> True | Some cb \<Rightarrow> \<forall>p con. fst (cb p con) \<le> 0)"

lemma plain_event: "plain_callback rq \<Longrightarrow> check_connection_event net rq c ev re p = Some (ret, ev', re', p') \<Longrightarrow> ret \<le> 0"
  by (auto simp: plain_callback_def check_connection_event_def check_error_def Let_def split: option.splits if_splits prod.splits) (metis fst_conv)+

lemma plain_count:
  assumes "check_places net rq rfds cs (i, ev, re, p) = Some (i', r)" "plain_callback rq"
  shows "i' = i"
  using assms
proof (induction cs arbitrary: i ev re p rule: length_induct)
  case (1 cs)
  show ?case
  proof (cases cs)
    case (Cons c ds)
    from 1(2) [unfolded Cons, THEN check_places_step] show ?thesis
    proof (elim disjE exE conjE)
      show ?thesis if "check_places net rq rfds ds (i, ev, re, p) = Some (i', r)" using 1(1) [rule_format, of ds i ev re p] 1(3) that Cons by simp
      fix ret ev1 re1 p1 cs' j
      assume "check_connection_event net rq c (insert EVENT_INPUT ev) re p = Some (ret, ev1, re1, p1)" "length cs' \<le> length ds"
        "check_places net rq rfds cs' (j, ev1, re1, p1) = Some (i', r)"
      moreover from this(1) have "ret \<le> 0" using 1(3) by (intro plain_event)
      moreover have "i' = j" using 1(1) [rule_format, of cs' j ev1 re1 p1] 1(3) calculation(2,3) Cons by simp
      ultimately show ?thesis if "j = i" using that by simp
      show ?thesis if "0 < ret" using that \<open>ret \<le> 0\<close> by simp
    qed
  qed (use 1 in simp)
qed

lemma plain_check_event:
  assumes "connection_pool_check_event net rq timeout re p = Some r"
  shows "plain_callback rq \<longrightarrow> (timeout = - 1 \<longrightarrow> isl (fst r) \<and> \<not> select_works net) \<and> (\<forall>i. fst r = Inr i \<longrightarrow> i = 0)"
proof (rule connection_pool_check_event.raw_induct [of "\<lambda>net rq t re p r. plain_callback rq \<longrightarrow> (t = - 1 \<longrightarrow> isl (fst r) \<and> \<not> select_works net) \<and> (\<forall>i. fst r = Inr i \<longrightarrow> i = 0)",
    OF _ assms], rule impI)
  fix f net rq timeout re p r
  assume IH: "\<And>net rq t re p r. f net rq t re p = Some r \<Longrightarrow> plain_callback rq \<longrightarrow> (t = - 1 \<longrightarrow> isl (fst r) \<and> \<not> select_works net) \<and> (\<forall>i. fst r = Inr i \<longrightarrow> i = 0)"
    and plain: "plain_callback rq"
    and body: "(case get_time net p of (ts, p1) \<Rightarrow>
        Option.bind (select_loop net timeout p1) (\<lambda>(ret, p2).
          case ret of
            Inl e \<Rightarrow> Some (Inl e, re, p2)
          | Inr rfds \<Rightarrow>
              if rfds = {} then Some (Inr 0, re, p2)
              else Option.bind (check_places net rq rfds (all_places p2) (0, {}, re, p2)) (\<lambda>(i, ev, re1, p3).
                let p4 = global_event_handler ev p3 in
                Option.bind (if po_connection_string_changed p4 then map_option snd (prelude_connection_pool_init net p4) else Some p4) (\<lambda>p5.
                  if timeout = - 1 \<and> i = 0 then f net rq timeout re1 p5
                  else case get_time net p5 of (te, p6) \<Rightarrow>
                    if i = 0 \<and> timeval_subtract te ts < timeout then f net rq (timeout - timeval_subtract te ts) re1 p6
                    else Some (Inr i, re1, p6))))) = Some r"
  from body show "(timeout = - 1 \<longrightarrow> isl (fst r) \<and> \<not> select_works net) \<and> (\<forall>i. fst r = Inr i \<longrightarrow> i = 0)"
  proof (cases rule: check_event_turn)
    case (ended n ret)
    then show ?thesis by auto
  next
    case (turned n rfds i ev re1 p3 p5)
    have "i = 0" using plain_count [OF turned(1) plain] .
    then show ?thesis using turned(3) IH plain by fastforce
  qed
qed

end
