(* ===== verification/PoolDelivery.thy ===== *)
theory PoolDelivery
  imports PoolSafety
begin

text \<open>
  What the connection pool does when the network works: a connection that is back gets the messages that were saved for it, then its list gets the messages
  of the pool, in the order in which they were saved.
\<close>

section \<open>Sending that succeeds\<close>

definition add_sent :: "'m list \<Rightarrow> 'm cnx \<Rightarrow> 'm cnx" where
  "add_sent ms x = x\<lparr>cx_con := (cx_con x)\<lparr>con_sent := con_sent (cx_con x) @ ms\<rparr>\<rparr>"

lemma add_sent_sel [simp]:
  "cx_failover (add_sent ms x) = cx_failover x" "cx_timer (add_sent ms x) = cx_timer x" "cx_freed (add_sent ms x) = cx_freed x" "con_alive (cx_con (add_sent ms x)) = con_alive (cx_con x)"
  "con_sent (cx_con (add_sent ms x)) = con_sent (cx_con x) @ ms" "con_fd (cx_con (add_sent ms x)) = con_fd (cx_con x)"
  by (simp_all add: add_sent_def)

lemma add_sent_append [simp]: "add_sent ms (add_sent ns x) = add_sent (ns @ ms) x" "add_sent [] x = x"
  by (simp_all add: add_sent_def)

text \<open>The step changes the connections \<open>f\<close> says, and nothing else that matters here.\<close>

definition only :: "(place \<Rightarrow> 'm cnx \<Rightarrow> 'm cnx) \<Rightarrow> 'm pool \<Rightarrow> 'm pool \<Rightarrow> bool" where
  "only f p p' \<longleftrightarrow> (\<forall>c. valid p c \<longrightarrow> cnx_at p' c = f c (cnx_at p c)) \<and> valid p' = valid p \<and> list_places p' = list_places p \<and>
     (\<forall>i. cl_dead (po_or_list p' ! i) = cl_dead (po_or_list p ! i)) \<and> po_failover p' = po_failover p"

lemma only_at: "only f p p' \<Longrightarrow> valid p c \<Longrightarrow> cnx_at p' c = f c (cnx_at p c)"
  unfolding only_def by blast

lemma only_same: "only f p p' \<Longrightarrow> valid p' = valid p \<and> list_places p' = list_places p \<and> cl_dead (po_or_list p' ! i) = cl_dead (po_or_list p ! i) \<and> po_failover p' = po_failover p"
  unfolding only_def by blast

lemma only_refl: "only (\<lambda>_. id) p p"
  unfolding only_def by simp

lemma only_trans: "only f p q \<Longrightarrow> only g q r \<Longrightarrow> only (\<lambda>c x. g c (f c x)) p r"
  unfolding only_def by metis

lemma only_cong: "only f p p' \<Longrightarrow> (\<And>c. valid p c \<Longrightarrow> f c (cnx_at p c) = g c (cnx_at p c)) \<Longrightarrow> only g p p'"
  unfolding only_def by simp

lemma only_upd_cnx:
  assumes "valid p c"
  shows "only ((\<lambda>_. id)(c := f)) p (upd_cnx c f p)"
proof -
  have "length (cl_and (po_or_list (upd_cnx c f p) ! i)) = length (cl_and (po_or_list p ! i))" for i
    by (simp add: upd_cnx_def upd_list_nth)
  moreover have "length (po_or_list (upd_cnx c f p)) = length (po_or_list p)" by (simp add: upd_cnx_def upd_list_def)
  moreover have "cl_dead (po_or_list (upd_cnx c f p) ! i) = cl_dead (po_or_list p ! i)" for i by (simp add: upd_cnx_def upd_list_nth)
  moreover have "po_failover (upd_cnx c f p) = po_failover p" by (simp add: upd_cnx_def upd_list_def)
  ultimately show ?thesis using assms by (simp add: only_def cnx_at_upd_cnx valid_def [abs_def] list_places_def [abs_def])
qed

lemma only_clock: "only f p q \<Longrightarrow> only f p (q\<lparr>po_clock := n\<rparr>)"
  unfolding only_def by (simp add: cnx_at_def valid_def [abs_def] list_places_def [abs_def])

abbreviation sends_work :: "'m network \<Rightarrow> bool" where
  "sends_work net \<equiv> \<forall>n. ne_send net n = Inr ()"

lemma do_send_works:
  assumes "sends_work net" "con_alive (cx_con (cnx_at p c))" "valid p c"
  shows "\<exists>p'. do_send net c msg p = Some (Inr (), p') \<and> only ((\<lambda>_. id)(c := add_sent [msg])) p p'"
proof -
  let ?con = "(cx_con (cnx_at p c))\<lparr>con_sent := con_sent (cx_con (cnx_at p c)) @ [msg]\<rparr>"
  have "do_send net c msg p = Some (Inr (), set_con c (po_clock p + 1, ?con) p)"
    using assms(1,2) by (subst do_send.simps) (simp add: prelude_connection_send_def)
  moreover have "only ((\<lambda>_. id)(c := add_sent [msg])) p (upd_cnx c (\<lambda>x. x\<lparr>cx_con := ?con\<rparr>) p)"
    using only_upd_cnx [OF assms(3)] by (rule only_cong) (simp add: add_sent_def)
  ultimately show ?thesis unfolding set_con_def by (simp add: only_clock)
qed


definition ready :: "'m pool \<Rightarrow> place \<Rightarrow> bool" where
  "ready p c \<longleftrightarrow> valid p c \<and> con_alive (cx_con (cnx_at p c)) \<and> \<not> cx_freed (cnx_at p c)"

lemma broadcast_works:
  assumes "sends_work net" "distinct cs" "\<forall>c \<in> set cs. ready p c"
  shows "\<exists>p'. broadcast_message net cs msg p = Some p' \<and> only (\<lambda>c. if c \<in> set cs then add_sent [msg] else id) p p'"
  using assms(2,3)
proof (induction cs arbitrary: p)
  case Nil
  have "only (\<lambda>c. if c \<in> set [] then add_sent [msg] else id) p p" using only_refl by (rule only_cong) simp
  moreover have "broadcast_message net [] msg p = Some p" by simp
  ultimately show ?case by blast
next
  case (Cons c cs)
  have r: "valid p c" "con_alive (cx_con (cnx_at p c))" "\<not> cx_freed (cnx_at p c)" using Cons.prems by (simp_all add: ready_def)
  obtain p1 where p1: "do_send net c msg p = Some (Inr (), p1)" "only ((\<lambda>_. id)(c := add_sent [msg])) p p1"
    using do_send_works [OF assms(1) r(2,1)] by blast
  have "ready p1 d" if d: "d \<in> set cs" for d
    using Cons.prems d only_same [OF p1(2)] only_at [OF p1(2), of d] by (auto simp: ready_def)
  then obtain p2 where p2: "broadcast_message net cs msg p1 = Some p2" "only (\<lambda>c. if c \<in> set cs then add_sent [msg] else id) p1 p2"
    using Cons.IH [of p1] Cons.prems(1) by auto
  have "broadcast_message net (c # cs) msg p = Some p2" using r p1(1) p2(1) by simp
  moreover have "only (\<lambda>d. if d \<in> set (c # cs) then add_sent [msg] else id) p p2"
    using only_trans [OF p1(2) p2(2)] by (rule only_cong) (use Cons.prems(1) in auto)
  ultimately show ?case by blast
qed

lemma list_places_distinct [simp]: "distinct (list_places p i)"
  by (simp add: list_places_def distinct_map inj_on_def)


section \<open>The list that gets a message\<close>

lemma walk_skips_dead:
  "\<forall>j \<in> set js. cl_dead (po_or_list p ! j) = cl_total (po_or_list p ! j) \<Longrightarrow> po_use_failover p \<Longrightarrow> walk_lists net (js @ is) msg p = walk_lists net is msg p"
  by (induction js) auto

text \<open>
  C26. A message goes to every connection of the first list that is not dead, and to no other connection.
\<close>

theorem broadcast_uses_first_list:
  assumes "sends_work net" "po_use_failover p" "i < length (po_or_list p)"
    and "\<forall>j < i. cl_dead (po_or_list p ! j) = cl_total (po_or_list p ! j)" "cl_dead (po_or_list p ! i) \<noteq> cl_total (po_or_list p ! i)"
    and "\<forall>c \<in> set (list_places p i). ready p c"
  shows "\<exists>p'. prelude_connection_pool_broadcast net msg p = Some p' \<and> po_failover p' = po_failover p \<and>
    (\<forall>c. valid p c \<longrightarrow> cnx_at p' c = (if fst c = i then add_sent [msg] (cnx_at p c) else cnx_at p c))"
proof -
  have "[0..<length (po_or_list p)] = [0..<i] @ i # [Suc i..<length (po_or_list p)]"
    using assms(3) upt_add_eq_append [of 0 i "length (po_or_list p) - i"] by (simp add: upt_conv_Cons)
  then have "prelude_connection_pool_broadcast net msg p = broadcast_message net (list_places p i) msg p"
    using assms(2,4,5) by (simp add: prelude_connection_pool_broadcast_def walk_manager_lists_def walk_skips_dead)
  moreover obtain p' where "broadcast_message net (list_places p i) msg p = Some p'"
      and o: "only (\<lambda>c. if c \<in> set (list_places p i) then add_sent [msg] else id) p p'"
    using broadcast_works [OF assms(1) list_places_distinct assms(6)] by blast
  moreover have "c \<in> set (list_places p i) \<longleftrightarrow> fst c = i" if "valid p c" for c
    using that by (cases c) (auto simp: list_places_def valid_def)
  ultimately show ?thesis using only_at [OF o] only_same [OF o] by (auto simp del: split_paired_All)
qed

definition living_pool :: "nat pool" where
  "living_pool = (prelude_connection_pool_new ''/d'' 0)\<lparr>po_or_list := map (\<lambda>k. \<lparr>cl_and = [\<lparr>cx_con = unix_connection\<lparr>con_alive := True, con_fd := k\<rparr>,
     cx_timer = False, cx_expire = 10, cx_failover = Some [], cx_freed = False\<rparr>], cl_dead = 0, cl_total = 1\<rparr>) [5, 6], po_failover := Some []\<rparr>"

theorem broadcast_uses_first_list_witness:
  "\<exists>p'. prelude_connection_pool_broadcast good_network 7 living_pool = Some p' \<and> con_sent (cx_con (cnx_at p' (0, 0))) = [7] \<and> con_sent (cx_con (cnx_at p' (1, 0))) = []"
proof -
  have "sends_work (good_network :: nat network)" by (simp add: good_network_def)
  then show ?thesis
    using broadcast_uses_first_list [of good_network living_pool 0 7]
    by (auto simp: living_pool_def prelude_connection_pool_new_def list_places_def ready_def valid_def cnx_at_def unix_connection_def)
qed

section \<open>Reconnection\<close>







text \<open>The milliseconds between two times, rounded down.\<close>

lemma timeval_subtract_floor:
  assumes "0 \<le> snd x" "snd x < 1000000" "0 \<le> snd y" "snd y < 1000000"
  shows "timeval_subtract x y = ((fst x * 1000000 + snd x) - (fst y * 1000000 + snd y)) div 1000"
proof (cases "snd x < snd y")
  case True
  then have "(snd y - snd x) div 1000000 = 0" using assms by simp
  then show ?thesis using True assms unfolding timeval_subtract_def Let_def by (simp add: algebra_simps)
next
  case False
  then show ?thesis using assms unfolding timeval_subtract_def Let_def by (simp add: algebra_simps)
qed

end
