(* ===== verification/CritTime.thy ===== *)
theory CritTime
  imports IdmefValue
begin

text \<open>
  Broken-down times as criterion values (\<open>src/idmef-criterion-value.c\<close>): texts like \<open>month:may mday:3\<close>, which name some fields of
  a date, their parser, their printer, and their comparison with the times of a message. A field that is not named is \<open>-1\<close>.
  The offset of the local time zone is an argument. A result \<open>None\<close> is undefined behaviour: an integer overflow.
\<close>

section \<open>Fields\<close>

text \<open>\<open>struct tm\<close> with the two fields that \<open>timegm\<close> ignores.\<close>

record btime = tm +
  tm_wday :: int
  tm_yday :: int

text \<open>\<open>atoi\<close>; a number that is not an \<open>int\<close> is undefined. Then arithmetic on \<open>int\<close>.\<close>

definition c_int :: "int \<Rightarrow> int option" where
  "c_int z = (if - (2 ^ 31) \<le> z \<and> z < 2 ^ 31 then Some z else None)"

definition atoi :: "string \<Rightarrow> int option" where
  "atoi s =
     (let t = dropWhile isspace s;
          neg = (t \<noteq> [] \<and> hd t = CHR ''-'');
          u = (if t \<noteq> [] \<and> hd t \<in> set ''+-'' then tl t else t);
          n = int (fst (scan 10 (length u) 0 u))
      in c_int (if neg then - n else n))"

text \<open>What a parser of a field returns: the value stored and 0, or \<open>-1\<close>.\<close>

datatype field_value = Value int | Rejected

definition btime_parse_simple :: "string \<Rightarrow> field_value option" where
  "btime_parse_simple s = map_option Value (atoi s)"

definition btime_parse_year :: "string \<Rightarrow> field_value option" where
  "btime_parse_year s = map_option Value (Option.bind (atoi s) (\<lambda>n. c_int (n - 1900)))"

definition months :: "string list" where
  "months = [''january'', ''february'', ''march'', ''april'', ''may'', ''june'', ''july'', ''august'', ''september'', ''october'',
     ''november'', ''december'']"

definition days :: "string list" where
  "days = [''sunday'', ''monday'', ''tuesday'', ''wednesday'', ''thursday'', ''friday'', ''saturday'']"

definition lower_char :: "char \<Rightarrow> char" where
  "lower_char c = (let n = of_char c :: nat in if 65 \<le> n \<and> n \<le> 90 then char_of (n + 32) else c)"

text \<open>The loop over a list of names.\<close>

fun name_index :: "string list \<Rightarrow> int \<Rightarrow> string \<Rightarrow> field_value" where
  "name_index [] i s = Rejected"
| "name_index (n # ns) i s = (if map lower_char s = n then Value i else name_index ns (i + 1) s)"

definition parse_name :: "string list \<Rightarrow> string \<Rightarrow> field_value option" where
  "parse_name names s =
     (if starts_digit 10 s then map_option Value (Option.bind (atoi s) (\<lambda>n. c_int (n - 1)))
      else Some (name_index names 0 s))"

definition btime_parse_month :: "string \<Rightarrow> field_value option" where
  "btime_parse_month = parse_name months"

definition btime_parse_wday :: "string \<Rightarrow> field_value option" where
  "btime_parse_wday = parse_name days"

definition btime_parse_gmtoff :: "string \<Rightarrow> field_value option" where
  "btime_parse_gmtoff s = map_option Value (Option.bind (atoi s) (\<lambda>n. c_int (n * 60 * 60)))"

section \<open>Parsing\<close>

datatype btime_field = Month | Wday | Year | Mday | Yday | Hour | Min | Sec | Gmtoff

definition field_table :: "(string \<times> btime_field \<times> (string \<Rightarrow> field_value option)) list" where
  "field_table = [
     (''month'', Month, btime_parse_month), (''wday'', Wday, btime_parse_wday), (''year'', Year, btime_parse_year),
     (''mday'', Mday, btime_parse_simple), (''yday'', Yday, btime_parse_simple), (''hour'', Hour, btime_parse_simple),
     (''min'', Min, btime_parse_simple), (''sec'', Sec, btime_parse_simple), (''gmtoff'', Gmtoff, btime_parse_gmtoff)]"

text \<open>
  A parser stores an \<open>int\<close> through the pointer of the table. The offset is a \<open>long\<close>, so that only its first four bytes are
  written.
\<close>

definition store_int :: "byte_order \<Rightarrow> int \<Rightarrow> u64 \<Rightarrow> u64" where
  "store_int bo z w = load64 bo (mem32 bo (word_of_int z) @ drop 4 (mem64 bo w))"

fun store_field :: "byte_order \<Rightarrow> btime_field \<Rightarrow> int \<Rightarrow> btime \<times> u64 \<Rightarrow> btime \<times> u64" where
  "store_field bo Month z (lt, g) = (lt\<lparr>tm_mon := z\<rparr>, g)"
| "store_field bo Wday z (lt, g) = (lt\<lparr>tm_wday := z\<rparr>, g)"
| "store_field bo Year z (lt, g) = (lt\<lparr>tm_year := z\<rparr>, g)"
| "store_field bo Mday z (lt, g) = (lt\<lparr>tm_mday := z\<rparr>, g)"
| "store_field bo Yday z (lt, g) = (lt\<lparr>tm_yday := z\<rparr>, g)"
| "store_field bo Hour z (lt, g) = (lt\<lparr>tm_hour := z\<rparr>, g)"
| "store_field bo Min z (lt, g) = (lt\<lparr>tm_min := z\<rparr>, g)"
| "store_field bo Sec z (lt, g) = (lt\<lparr>tm_sec := z\<rparr>, g)"
| "store_field bo Gmtoff z (lt, g) = (lt, store_int bo z g)"

definition find_field :: "string \<Rightarrow> (string \<times> btime_field \<times> (string \<Rightarrow> field_value option)) option" where
  "find_field s = find (\<lambda>(f, _). take (Suc (length f)) s = f @ '':'') field_table"

abbreviation BLANK :: char where "BLANK \<equiv> CHR '' ''"
abbreviation NUL_CHAR :: char where "NUL_CHAR \<equiv> CHR 0x00"

lemma find_field_length: "find_field s = Some (f, x) \<Longrightarrow> Suc (length f) \<le> length s"
proof -
  assume "find_field s = Some (f, x)"
  then have "take (Suc (length f)) s = f @ '':''" by (auto simp: find_field_def find_Some_iff)
  then have "length (take (Suc (length f)) s) = Suc (length f)" by simp
  then show ?thesis by simp
qed

text \<open>
  The loop: behind a field with its value the blank is replaced by a null byte in the text of the caller (\<open>text\<close> is the
  part that was passed), and further blanks are skipped. The loop goes on as long as there was a blank.
\<close>

function (sequential) btime_loop :: "byte_order \<Rightarrow> string \<Rightarrow> btime \<times> u64 \<Rightarrow> string \<Rightarrow> (int \<times> (btime \<times> u64) \<times> string) option" where
  "btime_loop bo text st s =
     (case find_field s of
        None \<Rightarrow> Some (- 1, st, text @ s)
      | Some (f, fld, parse) \<Rightarrow>
          (let arg = takeWhile (\<lambda>c. c \<noteq> BLANK) (drop (Suc (length f)) s);
               rest = dropWhile (\<lambda>c. c \<noteq> BLANK) (drop (Suc (length f)) s);
               text1 = text @ f @ '':'' @ arg
           in case parse arg of
                None \<Rightarrow> None
              | Some Rejected \<Rightarrow> Some (- 1, st, text1 @ (if rest = [] then [] else NUL_CHAR # tl rest))
              | Some (Value z) \<Rightarrow>
                  (if rest = [] then Some (0, store_field bo fld z st, text1)
                   else btime_loop bo (text1 @ NUL_CHAR # takeWhile (\<lambda>c. c = BLANK) (tl rest)) (store_field bo fld z st)
                          (dropWhile (\<lambda>c. c = BLANK) (tl rest)))))"
  by pat_completeness auto
termination
proof (relation "measure (\<lambda>(_, _, _, s). length s)", goal_cases)
  case (2 bo buf st s x f y fld parse arg remain buf1 v z)
  have "Suc (length f) \<le> length s" using 2 find_field_length by auto
  moreover have "length (dropWhile (\<lambda>c. c = BLANK) (tl remain)) \<le> length remain"
    using length_dropWhile_le [of "\<lambda>c. c = BLANK" "tl remain"] by simp
  moreover have "length remain \<le> length s - Suc (length f)"
    using length_dropWhile_le [of "\<lambda>c. c \<noteq> BLANK" "drop (Suc (length f)) s"] 2 by simp
  ultimately show ?case by simp
qed simp

declare btime_loop.simps [simp del]

text \<open>
  \<open>prelude_get_gmt_offset\<close> gives an error or the offset in seconds. The hour is converted from the local zone to \<open>GMT\<close>: the
  quotient is a \<open>long\<close> and the difference is reduced to an \<open>int\<close>.
\<close>

definition btime_parse :: "byte_order \<Rightarrow> int + int \<Rightarrow> btime \<Rightarrow> string \<Rightarrow> (int \<times> btime \<times> string) option" where
  "btime_parse bo offset lt time =
     (case offset of
        Inl e \<Rightarrow> Some (e, lt, time)
      | Inr off \<Rightarrow>
          (case btime_loop bo [] (lt, word_of_int off) time of
             None \<Rightarrow> None
           | Some (ret, (lt', g), text) \<Rightarrow>
               if ret < 0 then Some (ret, lt', text)
               else Some (0, if tm_hour lt' = - 1 then lt'
                             else lt'\<lparr>tm_hour := sint (word_of_int (tm_hour lt' - sint g sdiv (60 * 60)) :: u32)\<rparr>, text)))"

definition unset_btime :: btime where
  "unset_btime = \<lparr>tm_sec = - 1, tm_min = - 1, tm_hour = - 1, tm_mday = - 1, tm_mon = - 1, tm_year = - 1, tm_wday = - 1, tm_yday = - 1\<rparr>"

text \<open>
  The value, or the negative code; with the text of the caller. An error of \<open>malloc\<close> is the given code. The pointer behind
  the first argument stays in place when the object was released; nothing reads it.
\<close>

definition idmef_criterion_value_new_broken_down_time ::
    "byte_order \<Rightarrow> (nat \<Rightarrow> bool) \<Rightarrow> int \<Rightarrow> int + int \<Rightarrow> string \<Rightarrow> ((int + btime) \<times> string) option" where
  "idmef_criterion_value_new_broken_down_time bo mem_ok enomem offset time =
     (if \<not> mem_ok 0 \<or> \<not> mem_ok 1 then Some (Inl enomem, time)
      else map_option (\<lambda>(ret, lt, text). (if ret < 0 then Inl ret else Inr lt, text)) (btime_parse bo offset unset_btime time))"

section \<open>Printing\<close>

definition print_field :: "string \<Rightarrow> int \<Rightarrow> int \<Rightarrow> string" where
  "print_field name z add = (if z = - 1 then [] else name @ '':'' @ dec_int 0 (z + add) @ [BLANK])"

definition btime_to_string :: "btime \<Rightarrow> string" where
  "btime_to_string lt =
     print_field ''year'' (tm_year lt) 1900 @ print_field ''yday'' (tm_yday lt) 0 @ print_field ''month'' (tm_mon lt) 0 @
     print_field ''mday'' (tm_mday lt) 0 @ print_field ''wday'' (tm_wday lt) 0 @ print_field ''hour'' (tm_hour lt) 0 @
     print_field ''min'' (tm_min lt) 0 @ print_field ''sec'' (tm_sec lt) 0"

section \<open>Matching\<close>

definition integer_compare :: "int \<Rightarrow> int \<Rightarrow> u32 \<Rightarrow> int" where
  "integer_compare found wanted op =
     (if op AND OP_EQUAL \<noteq> 0 \<and> found = wanted \<or> op AND OP_LESSER \<noteq> 0 \<and> found < wanted \<or>
         op AND OP_GREATER \<noteq> 0 \<and> wanted < found then 1 else 0)"

text \<open>\<open>gmtime_r\<close> with the day of the week and of the year: the first of January 1970 was a Thursday.\<close>

definition gmtime_full :: "nat \<Rightarrow> btime" where
  "gmtime_full t =
     (let u = gmtime_r t
      in tm.extend u \<lparr>tm_wday = (int t div 86400 + 4) mod 7, tm_yday = int t div 86400 - year_start (tm_year u + 1900)\<rparr>)"

definition apply_mask :: "btime \<Rightarrow> btime \<Rightarrow> btime" where
  "apply_mask wanted lt =
     (let mask = (\<lambda>c z. if c < 0 then - 1 else z)
      in \<lparr>tm_sec = mask (tm_sec wanted) (tm_sec lt), tm_min = mask (tm_min wanted) (tm_min lt), tm_hour = mask (tm_hour wanted) (tm_hour lt),
          tm_mday = mask (tm_mday wanted) (tm_mday lt), tm_mon = mask (tm_mon wanted) (tm_mon lt),
          tm_year = mask (tm_year wanted) (tm_year lt), tm_wday = mask (tm_wday wanted) (tm_wday lt),
          tm_yday = mask (tm_yday wanted) (tm_yday lt)\<rparr>)"

definition need_full_compare :: "btime \<Rightarrow> bool" where
  "need_full_compare wanted \<longleftrightarrow> \<not> (tm_sec wanted < 0 \<and> tm_min wanted < 0 \<and> tm_mon wanted < 0 \<and> tm_hour wanted < 0 \<and> tm_mday wanted < 0 \<and> tm_year wanted < 0)"

definition match_seconds :: "btime \<Rightarrow> u32 \<Rightarrow> nat \<Rightarrow> int" where
  "match_seconds wanted op sec =
     (let lt = apply_mask wanted (gmtime_full sec);
          full = need_full_compare wanted;
          op' = (if full then op OR OP_EQUAL else op);
          wday = (if tm_wday wanted < 0 then 1 else integer_compare (tm_wday lt) (tm_wday wanted) op');
          yday = (if tm_yday wanted < 0 then 1 else integer_compare (tm_yday lt) (tm_yday wanted) op')
      in if wday \<noteq> 1 then wday
         else if yday \<noteq> 1 then yday
         else if \<not> full then 1
         else integer_compare (timegm (tm.truncate lt)) (timegm (tm.truncate wanted)) op)"

text \<open>A null pointer as value, or as its time, is a failed assertion: an error as type, or 0 seconds.\<close>

definition do_btime_match :: "btime \<Rightarrow> u32 \<Rightarrow> 'o idmef_value_type option \<Rightarrow> int" where
  "do_btime_match wanted op v =
     (case v of
        None \<Rightarrow> - 1
      | Some x \<Rightarrow>
          (if vt_id x \<noteq> vt_num VT_TIME then - 1
           else match_seconds wanted op (case vt_data x of VD_time (Some t) \<Rightarrow> unat (it_sec t) | _ \<Rightarrow> 0)))"

definition btime_match :: "btime \<Rightarrow> u32 \<Rightarrow> 'o idmef_value_type option \<Rightarrow> int" where
  "btime_match wanted op v =
     (let ret = do_btime_match wanted op v
      in if ret < 0 then ret
         else if op AND OP_NOT \<noteq> 0 then (if ret = 1 then 0 else 1)
         else (if ret = 1 then 1 else 0))"

end
