(* ===== verification/CritTimeProps.thy ===== *)
theory CritTimeProps
  imports CritTime
begin

text \<open>
  What broken-down times match: the fields that are given are compared with those of the time of the message, from the year down to the second, where
  the date exists in the month; and the cases in which the parser, the printer and the comparison go wrong.
\<close>

section \<open>Fields in the order of their weight\<close>

definition date_fields :: "btime \<Rightarrow> int list" where
  "date_fields u = [tm_year u, tm_mon u, tm_mday u, tm_hour u, tm_min u, tm_sec u]"

fun lex_less :: "int list \<Rightarrow> int list \<Rightarrow> bool" where
  "lex_less (x # xs) (y # ys) \<longleftrightarrow> x < y \<or> x = y \<and> lex_less xs ys"
| "lex_less _ _ \<longleftrightarrow> False"

text \<open>The entries whose place is given in the first list.\<close>

fun select_given :: "int list \<Rightarrow> int list \<Rightarrow> int list" where
  "select_given (c # cs) (x # xs) = (if c < 0 then select_given cs xs else x # select_given cs xs)"
| "select_given _ _ = []"

definition dates_compare :: "u32 \<Rightarrow> int list \<Rightarrow> int list \<Rightarrow> bool" where
  "dates_compare op xs ys \<longleftrightarrow>
     op AND OP_EQUAL \<noteq> 0 \<and> xs = ys \<or> op AND OP_LESSER \<noteq> 0 \<and> lex_less xs ys \<or> op AND OP_GREATER \<noteq> 0 \<and> lex_less ys xs"

definition month_length :: "int \<Rightarrow> int \<Rightarrow> int" where
  "month_length y m = month_lengths (y + 1900 + m div 12) ! nat (m mod 12)"

text \<open>Each field is in its range or not given, and the day exists in the month; without a year the year is 1899.\<close>

definition date_ok :: "btime \<Rightarrow> bool" where
  "date_ok c \<longleftrightarrow> - 1 \<le> tm_sec c \<and> tm_sec c < 60 \<and> - 1 \<le> tm_min c \<and> tm_min c < 60 \<and> - 1 \<le> tm_hour c \<and> tm_hour c < 24 \<and>
     (tm_mday c = - 1 \<or> 1 \<le> tm_mday c \<and> tm_mday c \<le> month_length (tm_year c) (tm_mon c)) \<and>
     - 1 \<le> tm_mon c \<and> tm_mon c < 12 \<and> - 1 \<le> tm_year c"

definition btime_hit :: "btime \<Rightarrow> u32 \<Rightarrow> btime \<Rightarrow> bool" where
  "btime_hit c op g \<longleftrightarrow>
     (let op' = (if need_full_compare c then op OR OP_EQUAL else op)
      in (tm_wday c < 0 \<or> dates_compare op' [tm_wday g] [tm_wday c]) \<and> (tm_yday c < 0 \<or> dates_compare op' [tm_yday g] [tm_yday c]) \<and>
         (need_full_compare c \<longrightarrow> dates_compare op (select_given (date_fields c) (date_fields g)) (select_given (date_fields c) (date_fields c))))"

lemma select_given_equal:
  "length xs = length cs \<Longrightarrow> length ys = length cs \<Longrightarrow> (\<forall>i < length cs. cs ! i < 0 \<longrightarrow> xs ! i = ys ! i) \<Longrightarrow>
     (select_given cs xs = select_given cs ys \<longleftrightarrow> xs = ys) \<and> (lex_less (select_given cs xs) (select_given cs ys) \<longleftrightarrow> lex_less xs ys)"
proof (induction cs xs arbitrary: ys rule: select_given.induct)
  case (1 c cs x xs)
  then obtain y ys' where ys: "ys = y # ys'" by (cases ys) auto
  have "\<forall>i < length cs. cs ! i < 0 \<longrightarrow> xs ! i = ys' ! i" using "1.prems"(3) unfolding ys by fastforce
  moreover have "c < 0 \<Longrightarrow> x = y" using "1.prems"(3) unfolding ys by fastforce
  ultimately show ?case using 1 unfolding ys by (cases "c < 0") auto
qed auto

section \<open>Numbers with digits\<close>

lemma digits_less:
  fixes a b k x y :: int
  assumes "x - y < k" "y - x < k"
  shows "a * k + x < b * k + y \<longleftrightarrow> a < b \<or> a = b \<and> x < y" "a * k + x = b * k + y \<longleftrightarrow> a = b \<and> x = y"
proof -
  have k: "0 < k" using assms by linarith
  have up: "c < d \<Longrightarrow> c * k + k \<le> d * k" for c d :: int
    using mult_right_mono [of "c + 1" d k] k by (simp add: distrib_right)
  have "a < b \<Longrightarrow> a * k + x < b * k + y" "b < a \<Longrightarrow> b * k + y < a * k + x" using up [of a b] up [of b a] assms by linarith+
  then show "a * k + x < b * k + y \<longleftrightarrow> a < b \<or> a = b \<and> x < y" "a * k + x = b * k + y \<longleftrightarrow> a = b \<and> x = y"
    by (cases a b rule: linorder_cases; force)+
qed

text \<open>The first day of a month, and the days of the months between two.\<close>

definition month_start :: "int \<Rightarrow> int \<Rightarrow> int" where
  "month_start y m = year_start (y + 1900 + m div 12) + sum_list (take (nat (m mod 12)) (month_lengths (y + 1900 + m div 12)))"

lemma timegm_month_start:
  "timegm u = (((month_start (tm_year u) (tm_mon u) + tm_mday u - 1) * 24 + tm_hour u) * 60 + tm_min u) * 60 + tm_sec u"
  by (simp add: timegm_def month_start_def Let_def)

lemma sum_take_mono:
  assumes "\<forall>x \<in> set xs. 0 \<le> (x :: int)" "m \<le> n"
  shows "sum_list (take m xs) \<le> sum_list (take n xs)"
proof -
  have "take n xs = take m xs @ take (n - m) (drop m xs)" using assms(2) take_add [of m "n - m" xs] by simp
  moreover have "0 \<le> sum_list (take (n - m) (drop m xs))"
    using assms(1) by (intro sum_list_nonneg) (meson in_set_dropD in_set_takeD)
  ultimately show ?thesis by simp
qed

lemma month_lengths_nonneg: "\<forall>l \<in> set (month_lengths y). 0 \<le> l"
  using month_lengths_bounds by fastforce

lemma length_month_lengths [simp]: "length (month_lengths y) = 12"
  by (simp add: month_lengths_def)

lemma next_month:
  assumes "n < 12" "m < 12" "y < z \<or> y = z \<and> m < n"
  shows "year_start y + sum_list (take m (month_lengths y)) + month_lengths y ! m \<le> year_start z + sum_list (take n (month_lengths z))"
proof -
  have e: "sum_list (take m (month_lengths y)) + month_lengths y ! m = sum_list (take (Suc m) (month_lengths y))"
    using assms(2) by (simp add: take_Suc_conv_app_nth)
  show ?thesis
  proof (cases "y < z")
    case True
    have "sum_list (take (Suc m) (month_lengths y)) \<le> sum_list (take 12 (month_lengths y))"
      using assms(2) by (intro sum_take_mono month_lengths_nonneg) simp
    then have "year_start y + sum_list (take (Suc m) (month_lengths y)) \<le> year_start (y + 1)"
      by (simp add: year_start_Suc sum_month_lengths)
    moreover have "year_start (y + 1) \<le> year_start z" using True by (intro year_start_mono) simp
    moreover have "sum_list (take 0 (month_lengths z)) \<le> sum_list (take n (month_lengths z))" by (intro sum_take_mono month_lengths_nonneg) simp
    ultimately show ?thesis using e by simp
  next
    case False
    then have "sum_list (take (Suc m) (month_lengths y)) \<le> sum_list (take n (month_lengths y))"
      using assms(3) by (intro sum_take_mono month_lengths_nonneg) simp
    then show ?thesis using e False assms(3) by simp
  qed
qed

lemma month_start_next:
  assumes "y < z \<or> y = z \<and> m < n" "m = - 1 \<and> n = - 1 \<or> 0 \<le> m \<and> m < 12 \<and> 0 \<le> n \<and> n < 12"
  shows "month_start y m + month_length y m \<le> month_start z n"
proof -
  have "y + 1900 + m div 12 < z + 1900 + n div 12 \<or> y + 1900 + m div 12 = z + 1900 + n div 12 \<and> nat (m mod 12) < nat (n mod 12)"
    using assms by auto
  then show ?thesis unfolding month_start_def month_length_def by (intro next_month) simp_all
qed

lemma month_length_bounds: "28 \<le> month_length y m" "month_length y m \<le> 31"
proof -
  have "month_length y m \<in> set (month_lengths (y + 1900 + m div 12))" unfolding month_length_def by (intro nth_mem) simp
  then show "28 \<le> month_length y m" "month_length y m \<le> 31" by (auto simp: month_lengths_def split: if_splits)
qed

lemma day_order:
  assumes "m = - 1 \<and> n = - 1 \<or> 0 \<le> m \<and> m < 12 \<and> 0 \<le> n \<and> n < 12"
    and "d = - 1 \<and> e = - 1 \<or> 1 \<le> d \<and> d \<le> month_length y m \<and> 1 \<le> e \<and> e \<le> month_length z n"
  shows "month_start y m + d - 1 < month_start z n + e - 1 \<longleftrightarrow> lex_less [y, m, d] [z, n, e]"
    "month_start y m + d - 1 = month_start z n + e - 1 \<longleftrightarrow> [y, m, d] = [z, n, e]"
proof -
  have lt: "y < z \<or> y = z \<and> m < n \<Longrightarrow> month_start y m + d < month_start z n + e"
    using month_start_next [of y z m n] month_length_bounds [of y m] assms by auto
  have gt: "z < y \<or> z = y \<and> n < m \<Longrightarrow> month_start z n + e < month_start y m + d"
    using month_start_next [of z y n m] month_length_bounds [of z n] assms by auto
  have "y < z \<or> y = z \<and> m < n \<or> z < y \<or> z = y \<and> n < m \<or> y = z \<and> m = n" by linarith
  then show "month_start y m + d - 1 < month_start z n + e - 1 \<longleftrightarrow> lex_less [y, m, d] [z, n, e]"
    "month_start y m + d - 1 = month_start z n + e - 1 \<longleftrightarrow> [y, m, d] = [z, n, e]"
    using lt gt by auto
qed

definition comparable :: "btime \<Rightarrow> btime \<Rightarrow> bool" where
  "comparable u v \<longleftrightarrow>
     (tm_mon u = - 1 \<and> tm_mon v = - 1 \<or> 0 \<le> tm_mon u \<and> tm_mon u < 12 \<and> 0 \<le> tm_mon v \<and> tm_mon v < 12) \<and>
     (tm_mday u = - 1 \<and> tm_mday v = - 1 \<or>
      1 \<le> tm_mday u \<and> tm_mday u \<le> month_length (tm_year u) (tm_mon u) \<and> 1 \<le> tm_mday v \<and> tm_mday v \<le> month_length (tm_year v) (tm_mon v)) \<and>
     \<bar>tm_hour u - tm_hour v\<bar> < 24 \<and> \<bar>tm_min u - tm_min v\<bar> < 60 \<and> \<bar>tm_sec u - tm_sec v\<bar> < 60"

lemma timegm_order:
  assumes "comparable u v"
  shows "timegm (tm.truncate u) < timegm (tm.truncate v) \<longleftrightarrow> lex_less (date_fields u) (date_fields v)"
    "timegm (tm.truncate u) = timegm (tm.truncate v) \<longleftrightarrow> date_fields u = date_fields v"
proof -
  note day = day_order [of "tm_mon u" "tm_mon v" "tm_mday u" "tm_mday v" "tm_year u" "tm_year v"]
  have g: "timegm (tm.truncate w) = (((month_start (tm_year w) (tm_mon w) + tm_mday w - 1) * 24 + tm_hour w) * 60 + tm_min w) * 60 + tm_sec w" for w :: btime
    by (simp add: timegm_month_start tm.truncate_def)
  have c: "tm_mon u = - 1 \<and> tm_mon v = - 1 \<or> 0 \<le> tm_mon u \<and> tm_mon u < 12 \<and> 0 \<le> tm_mon v \<and> tm_mon v < 12"
    "tm_mday u = - 1 \<and> tm_mday v = - 1 \<or>
      1 \<le> tm_mday u \<and> tm_mday u \<le> month_length (tm_year u) (tm_mon u) \<and> 1 \<le> tm_mday v \<and> tm_mday v \<le> month_length (tm_year v) (tm_mon v)"
    "tm_hour u - tm_hour v < 24" "tm_hour v - tm_hour u < 24" "tm_min u - tm_min v < 60" "tm_min v - tm_min u < 60"
    "tm_sec u - tm_sec v < 60" "tm_sec v - tm_sec u < 60"
    using assms by (auto simp: comparable_def)
  note digits = digits_less [OF c(3,4)] digits_less [OF c(5,6)] digits_less [OF c(7,8)]
  show "timegm (tm.truncate u) < timegm (tm.truncate v) \<longleftrightarrow> lex_less (date_fields u) (date_fields v)"
    unfolding g digits using day(1) [OF c(1,2)] day(2) [OF c(1,2)] by (auto simp: date_fields_def)
  show "timegm (tm.truncate u) = timegm (tm.truncate v) \<longleftrightarrow> date_fields u = date_fields v"
    unfolding g digits using day(2) [OF c(1,2)] by (auto simp: date_fields_def)
qed

lemma integer_compare_hit: "integer_compare x y op = (if dates_compare op [x] [y] then 1 else 0)"
  by (auto simp: integer_compare_def dates_compare_def)

lemma timegm_compare:
  "comparable u v \<Longrightarrow>
     integer_compare (timegm (tm.truncate u)) (timegm (tm.truncate v)) op = (if dates_compare op (date_fields u) (date_fields v) then 1 else 0)"
proof -
  assume c: "comparable u v"
  then have "comparable v u" by (auto simp: comparable_def)
  from timegm_order(1) [OF this] timegm_order [OF c] show ?thesis by (auto simp: integer_compare_def dates_compare_def)
qed

section \<open>The time of a message\<close>

lemma gmtime_full_simps:
  "tm_sec (gmtime_full t) = tm_sec (gmtime_r t)" "tm_min (gmtime_full t) = tm_min (gmtime_r t)"
  "tm_hour (gmtime_full t) = tm_hour (gmtime_r t)" "tm_mday (gmtime_full t) = tm_mday (gmtime_r t)"
  "tm_mon (gmtime_full t) = tm_mon (gmtime_r t)" "tm_year (gmtime_full t) = tm_year (gmtime_r t)"
  by (simp_all add: gmtime_full_def Let_def tm.extend_def)

text \<open>February has one day more in a leap year, and 1899 is none.\<close>

lemma day_in_1899:
  assumes "d \<le> month_lengths y ! nat m" "0 \<le> m" "m < 12" "\<not> (m = 1 \<and> d = 29)" "d \<le> 31"
  shows "d \<le> month_length (- 1) m"
proof -
  have "m = 0 \<or> m = 1 \<or> m = 2 \<or> m = 3 \<or> m = 4 \<or> m = 5 \<or> m = 6 \<or> m = 7 \<or> m = 8 \<or> m = 9 \<or> m = 10 \<or> m = 11" using assms(2,3) by arith
  then show ?thesis using assms(1,4,5) by (elim disjE) (auto simp: month_length_def month_lengths_def leap_year_def split: if_splits)
qed

text \<open>A given day and month, without a year, on the 29th of February.\<close>

definition leap_day :: "btime \<Rightarrow> btime \<Rightarrow> bool" where
  "leap_day c g \<longleftrightarrow> tm_year c < 0 \<and> 0 \<le> tm_mon c \<and> 0 \<le> tm_mday c \<and> tm_mon g = 1 \<and> tm_mday g = 29"

lemma month_length_1899: "month_length y (- 1) = 31"
  by (simp add: month_length_def month_lengths_def)

lemma masked_comparable:
  assumes "t < 2 ^ 32" "date_ok c" "\<not> leap_day c (gmtime_full t)"
  shows "comparable (apply_mask c (gmtime_full t)) c"
proof -
  note v = timegm_gmtime [OF assms(1), unfolded tm_valid_def]
  let ?g = "gmtime_full t" let ?u = "apply_mask c ?g"
  have mon: "tm_mon ?u = - 1 \<and> tm_mon c = - 1 \<or> 0 \<le> tm_mon ?u \<and> tm_mon ?u < 12 \<and> 0 \<le> tm_mon c \<and> tm_mon c < 12"
    using v(1) assms(2) by (auto simp: apply_mask_def Let_def date_ok_def gmtime_full_simps)
  have "tm_mday (gmtime_r t) \<le> month_length (tm_year ?u) (tm_mon ?u)" if "0 \<le> tm_mday c"
  proof (cases "tm_mon c < 0")
    case True
    then show ?thesis using v(1) by (simp add: apply_mask_def Let_def month_length_1899)
  next
    case m: False
    show ?thesis
    proof (cases "tm_year c < 0")
      case True
      then have "\<not> (tm_mon (gmtime_r t) = 1 \<and> tm_mday (gmtime_r t) = 29)"
        using m that assms(3) by (auto simp: leap_day_def gmtime_full_simps)
      then have "tm_mday (gmtime_r t) \<le> month_length (- 1) (tm_mon (gmtime_r t))" using v by (intro day_in_1899 [where y = "tm_year (gmtime_r t) + 1900"]) auto
      then show ?thesis using True m by (simp add: apply_mask_def Let_def gmtime_full_simps)
    next
      case False
      then show ?thesis using v m by (simp add: apply_mask_def Let_def gmtime_full_simps month_length_def)
    qed
  qed
  then have mday: "tm_mday ?u = - 1 \<and> tm_mday c = - 1 \<or> 1 \<le> tm_mday ?u \<and> tm_mday ?u \<le> month_length (tm_year ?u) (tm_mon ?u) \<and>
      1 \<le> tm_mday c \<and> tm_mday c \<le> month_length (tm_year c) (tm_mon c)"
    using v(1) assms(2) by (auto simp: apply_mask_def Let_def date_ok_def gmtime_full_simps)
  show ?thesis unfolding comparable_def
    using mon mday v(1) assms(2) by (auto simp: apply_mask_def Let_def date_ok_def gmtime_full_simps)
qed

text \<open>A field that is not given is \<open>-1\<close> on both sides, and the others are not masked.\<close>

lemma select_masked:
  assumes "date_ok c"
  shows "select_given (date_fields c) (date_fields (apply_mask c g)) = select_given (date_fields c) (date_fields g)"
    "\<forall>i < length (date_fields c). date_fields c ! i < 0 \<longrightarrow> date_fields (apply_mask c g) ! i = date_fields c ! i"
  using assms by (auto simp: date_fields_def apply_mask_def Let_def date_ok_def less_Suc_eq nth_Cons')

lemma masked_compare:
  assumes "date_ok c"
  shows "dates_compare op (date_fields (apply_mask c g)) (date_fields c) =
    dates_compare op (select_given (date_fields c) (date_fields g)) (select_given (date_fields c) (date_fields c))"
proof -
  let ?f = "date_fields c" let ?m = "date_fields (apply_mask c g)"
  have l: "length ?m = length ?f" by (simp add: date_fields_def)
  have m: "\<forall>i < length ?f. ?f ! i < 0 \<longrightarrow> ?m ! i = ?f ! i" "\<forall>i < length ?f. ?f ! i < 0 \<longrightarrow> ?f ! i = ?m ! i"
    using select_masked(2) [OF assms, of g] by auto
  have "(select_given ?f ?m = select_given ?f ?f \<longleftrightarrow> ?m = ?f) \<and> (lex_less (select_given ?f ?m) (select_given ?f ?f) \<longleftrightarrow> lex_less ?m ?f) \<and>
      (lex_less (select_given ?f ?f) (select_given ?f ?m) \<longleftrightarrow> lex_less ?f ?m)"
    using select_given_equal [OF l refl m(1)] select_given_equal [OF refl l m(2)] by simp
  then show ?thesis by (simp add: dates_compare_def select_masked(1) [OF assms, of g, symmetric])
qed

lemma match_seconds_hit:
  assumes "t < 2 ^ 32" "date_ok c" "\<not> leap_day c (gmtime_full t)"
  shows "match_seconds c op t = (if btime_hit c op (gmtime_full t) then 1 else 0)"
proof -
  have w: "\<not> tm_wday c < 0 \<Longrightarrow> tm_wday (apply_mask c g) = tm_wday g" "\<not> tm_yday c < 0 \<Longrightarrow> tm_yday (apply_mask c g) = tm_yday g" for g
    by (simp_all add: apply_mask_def Let_def)
  note full = timegm_compare [OF masked_comparable [OF assms], unfolded masked_compare [OF assms(2)]]
  show ?thesis unfolding match_seconds_def Let_def full by (auto simp: btime_hit_def Let_def w integer_compare_hit)
qed

section \<open>What the parser reads\<close>

lemma find_field_entry: "e \<in> set field_table \<Longrightarrow> find_field (fst e @ CHR '':'' # r) = Some e"
  unfolding field_table_def find_field_def set_simps by (elim insertE emptyE; hypsubst; simp)

fun join_with :: "char \<Rightarrow> string list \<Rightarrow> string" where
  "join_with c [] = []"
| "join_with c [s] = s"
| "join_with c (s # ss) = s @ c # join_with c ss"

text \<open>A field of a text: its entry in the table, its argument, and the number that is read from the argument.\<close>

type_synonym field_item = "(string \<times> btime_field \<times> (string \<Rightarrow> field_value option)) \<times> string \<times> int"

fun field_text :: "field_item \<Rightarrow> string" where
  "field_text (e, arg, z) = fst e @ CHR '':'' # arg"

fun readable :: "field_item \<Rightarrow> bool" where
  "readable (e, arg, z) \<longleftrightarrow> e \<in> set field_table \<and> BLANK \<notin> set arg \<and> NUL_CHAR \<notin> set arg \<and> snd (snd e) arg = Some (Value z)"

fun store_item :: "byte_order \<Rightarrow> field_item \<Rightarrow> btime \<times> u64 \<Rightarrow> btime \<times> u64" where
  "store_item bo (e, arg, z) st = store_field bo (fst (snd e)) z st"

lemma field_names: "e \<in> set field_table \<Longrightarrow> fst e \<noteq> [] \<and> hd (fst e) \<noteq> BLANK \<and> NUL_CHAR \<notin> set (fst e)"
  unfolding field_table_def by (elim disjE | simp)+

lemma field_text_start: "readable i \<Longrightarrow> field_text i \<noteq> [] \<and> hd (field_text i) \<noteq> BLANK"
  using field_names [of "fst i"] by (cases i) (simp add: hd_append)

lemma join_start: "readable i \<Longrightarrow> \<exists>c s. join_with b (field_text i # ss) = c # s \<and> c \<noteq> BLANK"
  using field_text_start [of i] by (cases "field_text i"; cases ss) auto

lemma drop_name: "drop (Suc (length n)) (n @ c # x) = x"
  by simp

lemma takeWhile_arg: "c \<notin> set a \<Longrightarrow> takeWhile (\<lambda>d. d \<noteq> c) a = a \<and> takeWhile (\<lambda>d. d \<noteq> c) (a @ c # r) = a"
  by (induction a) auto

lemma dropWhile_arg: "c \<notin> set a \<Longrightarrow> dropWhile (\<lambda>d. d \<noteq> c) a = [] \<and> dropWhile (\<lambda>d. d \<noteq> c) (a @ c # r) = c # r"
  by (induction a) auto

lemma btime_loop_step:
  assumes "(n, f, p) \<in> set field_table" "BLANK \<notin> set a" "p a = Some (Value z)"
  shows "btime_loop bo buf st (n @ CHR '':'' # a) = Some (0, store_field bo f z st, buf @ n @ CHR '':'' # a)"
    "btime_loop bo buf st (n @ CHR '':'' # a @ BLANK # r) =
       btime_loop bo ((buf @ n @ CHR '':'' # a) @ NUL_CHAR # takeWhile (\<lambda>c. c = BLANK) r) (store_field bo f z st) (dropWhile (\<lambda>c. c = BLANK) r)"
proof -
  note t = takeWhile_arg [OF assms(2), THEN conjunct1] takeWhile_arg [OF assms(2), THEN conjunct2]
    dropWhile_arg [OF assms(2), THEN conjunct1] dropWhile_arg [OF assms(2), THEN conjunct2]
  note e = find_field_entry [OF assms(1), unfolded fst_conv]
  show "btime_loop bo buf st (n @ CHR '':'' # a) = Some (0, store_field bo f z st, buf @ n @ CHR '':'' # a)"
    by (subst btime_loop.simps) (simp only: e drop_name t assms(3) Let_def option.case prod.case field_value.case if_True, simp)
  show "btime_loop bo buf st (n @ CHR '':'' # a @ BLANK # r) =
      btime_loop bo ((buf @ n @ CHR '':'' # a) @ NUL_CHAR # takeWhile (\<lambda>c. c = BLANK) r) (store_field bo f z st) (dropWhile (\<lambda>c. c = BLANK) r)"
    by (subst btime_loop.simps) (simp only: e drop_name t assms(3) Let_def option.case prod.case field_value.case list.distinct if_False list.sel, simp)
qed

lemma btime_loop_reads:
  "\<forall>j \<in> set (i # is). readable j \<Longrightarrow>
   btime_loop bo buf st (join_with BLANK (map field_text (i # is))) =
     Some (0, fold (store_item bo) (i # is) st, buf @ join_with NUL_CHAR (map field_text (i # is)))"
proof (induction "is" arbitrary: i buf st)
  case Nil
  obtain n f p a z where i: "i = ((n, f, p), a, z)" by (metis prod.exhaust)
  have r: "(n, f, p) \<in> set field_table" "BLANK \<notin> set a" "p a = Some (Value z)" using Nil by (auto simp: i)
  show ?case using btime_loop_step(1) [OF r] by (simp add: i)
next
  case (Cons j js)
  obtain n f p a z where i: "i = ((n, f, p), a, z)" by (metis prod.exhaust)
  have r: "(n, f, p) \<in> set field_table" "BLANK \<notin> set a" "p a = Some (Value z)" using Cons.prems by (auto simp: i)
  let ?r = "join_with BLANK (map field_text (j # js))"
  obtain c s where "?r = c # s" "c \<noteq> BLANK" using join_start [of j BLANK "map field_text js"] Cons.prems by auto
  then have b: "takeWhile (\<lambda>c. c = BLANK) ?r = []" "dropWhile (\<lambda>c. c = BLANK) ?r = ?r" by simp_all
  have "btime_loop bo buf st (join_with BLANK (map field_text (i # j # js))) =
      btime_loop bo ((buf @ n @ CHR '':'' # a) @ [NUL_CHAR]) (store_field bo f z st) ?r"
    using btime_loop_step(2) [OF r, of bo buf st ?r] b by (simp add: i)
  also have "\<dots> = Some (0, fold (store_item bo) (j # js) (store_field bo f z st),
      ((buf @ n @ CHR '':'' # a) @ [NUL_CHAR]) @ join_with NUL_CHAR (map field_text (j # js)))"
    by (rule Cons.IH) (use Cons.prems in simp)
  finally show ?case by (simp add: i)
qed

text \<open>A text that ends with a blank is not accepted: behind the blank the loop looks for one more field.\<close>

lemma btime_loop_no_blank: "btime_loop bo buf st s = Some (ret, st', r) \<Longrightarrow> \<not> ret < 0 \<Longrightarrow> s \<noteq> [] \<and> last s \<noteq> BLANK"
proof (induction bo buf st s rule: btime_loop.induct)
  case (1 bo buf st s)
  then obtain n f p where e: "find_field s = Some (n, f, p)" by (auto simp: btime_loop.simps [of bo buf] split: option.splits)
  define a where "a = takeWhile (\<lambda>c. c \<noteq> BLANK) (drop (Suc (length n)) s)"
  define rest where "rest = dropWhile (\<lambda>c. c \<noteq> BLANK) (drop (Suc (length n)) s)"
  from "1.prems" obtain z where z: "p a = Some (Value z)"
    by (auto simp: btime_loop.simps [of bo buf] e a_def Let_def split: option.splits field_value.splits)
  have s: "s = take (Suc (length n)) s @ a @ rest" by (simp add: a_def rest_def)
  have "take (Suc (length n)) s = n @ '':''" using e by (auto simp: find_field_def find_Some_iff)
  then have s2: "s = n @ CHR '':'' # a @ rest" using s by simp
  show ?case
  proof (cases "rest = []")
    case True
    have "BLANK \<notin> set a" using set_takeWhileD unfolding a_def by force
    then have "last (CHR '':'' # a) \<noteq> BLANK" by (cases a rule: rev_cases) auto
    then show ?thesis using s2 True by simp
  next
    case False
    have "dropWhile (\<lambda>c. c = BLANK) (tl rest) \<noteq> [] \<and> last (dropWhile (\<lambda>c. c = BLANK) (tl rest)) \<noteq> BLANK"
      by (rule "1.IH" [OF e refl refl a_def rest_def refl z refl False _ "1.prems"(2)])
        (use "1.prems"(1) z False in \<open>simp add: btime_loop.simps [of bo buf _ s] e a_def [symmetric] rest_def [symmetric] Let_def\<close>)
    moreover have "tl rest = takeWhile (\<lambda>c. c = BLANK) (tl rest) @ dropWhile (\<lambda>c. c = BLANK) (tl rest)" by simp
    ultimately have "tl rest \<noteq> [] \<and> last (tl rest) \<noteq> BLANK" by (metis append_is_Nil_conv last_appendR)
    then have "last rest \<noteq> BLANK" using False by (metis last_tl)
    then show ?thesis using s2 False by (metis append_is_Nil_conv last_ConsR last_appendR list.distinct(1))
  qed
qed

lemma print_field_end: "print_field n z k \<noteq> [] \<Longrightarrow> last (print_field n z k) = BLANK"
  by (auto simp: print_field_def split: if_splits)

lemma btime_to_string_end: "btime_to_string lt \<noteq> [] \<Longrightarrow> last (btime_to_string lt) = BLANK"
  unfolding btime_to_string_def using print_field_end
  by (metis append_Nil2 append_is_Nil_conv last_appendR)

section \<open>Numbers in a text\<close>

lemma atoi_dec: "n < 2 ^ 31 \<Longrightarrow> atoi (dec n) = Some (int n)"
proof -
  assume n: "n < 2 ^ 31"
  obtain c r where d: "dec n = c # r" using hd_dec [of n] by (cases "dec n") auto
  have "c \<in> set ''0123456789''" using set_dec [of n] d by auto
  then have c: "\<not> isspace c" "c \<notin> set ''+-''" by (auto simp: isspace_def)
  then have sp: "dropWhile isspace (dec n) = dec n" and sg: "(dec n \<noteq> [] \<and> hd (dec n) = CHR ''-'') = False" "(dec n \<noteq> [] \<and> hd (dec n) \<in> set ''+-'') = False"
    by (auto simp: d)
  have "scan 10 (length (dec n)) 0 (dec n) = (n, [])" using scan_dec [of "[]" n] by (simp add: starts_digit_def)
  then show ?thesis unfolding atoi_def Let_def sp sg using n by (simp add: c_int_def)
qed

lemma dec_chars: "BLANK \<notin> set (dec n)" "NUL_CHAR \<notin> set (dec n)" using set_dec [of n] by auto

definition hour_item :: "nat \<Rightarrow> field_item" where
  "hour_item h = ((''hour'', Hour, btime_parse_simple), dec h, int h)"

lemma readable_hour: "h < 2 ^ 31 \<Longrightarrow> readable (hour_item h)"
  using dec_chars [of h] by (simp add: hour_item_def field_table_def btime_parse_simple_def atoi_dec)

text \<open>The upper half of the offset stays: that of a positive number is all zeros, that of a negative one all ones.\<close>

lemma uint_of_be64: "uint (of_be64 (be32 x @ be32 y)) = uint x * 2 ^ 32 + uint y"
proof -
  have "of_be64 (be32 x @ be32 y) = push_bit 32 (ucast x) OR ucast y"
    by (simp add: be32_def of_be32_be32_elems del: of_be32.simps)
  also have "\<dots> = word_cat x y" by (rule bit_word_eqI) (auto simp: bit_simps dest: bit_imp_le_length)
  also have "\<dots> = word_of_int (uint x * 2 ^ 32 + uint y)" by (simp only: word_cat_eq push_bit_eq_mult ucast_eq) simp
  finally have e: "of_be64 (be32 x @ be32 y) = word_of_int (uint x * 2 ^ 32 + uint y)" .
  have "uint (of_be64 (be32 x @ be32 y)) = (uint x * 2 ^ 32 + uint y) mod 2 ^ 64" unfolding e uint_word_of_int by simp
  moreover have "uint x < 2 ^ 32" "uint y < 2 ^ 32" using uint_lt2p [of x] uint_lt2p [of y] by simp_all
  ultimately show ?thesis by simp
qed

lemma wrap_mod: "- k \<le> v \<Longrightarrow> v < k \<Longrightarrow> v mod k = (if v < 0 then v + k else v)" for v k :: int
proof -
  assume "- k \<le> v" "v < k"
  then have "v < 0 \<Longrightarrow> (v + k) mod k = v + k" "0 \<le> v \<Longrightarrow> v mod k = v" by (intro mod_pos_pos_trivial; linarith)+
  moreover have "(v + k) mod k = v mod k" by simp
  ultimately show ?thesis by (simp only: not_less [symmetric] split: if_splits) auto
qed

lemma sint_of_uint:
  fixes w :: u64
  assumes "uint w = (if v < 0 then v + 2 ^ 64 else v)" "- (2 ^ 63) \<le> v" "v < 2 ^ 63"
  shows "sint w = v"
proof -
  have "v mod 2 ^ 64 = uint w" using wrap_mod [of "2 ^ 64" v] assms by simp
  then have "uint (word_of_int v :: u64) = uint w" by (simp add: uint_word_of_int)
  then have "w = word_of_int v" by (metis word_of_int_uint)
  then show ?thesis using assms(2,3) by (simp add: signed_of_int signed_take_bit_int_eq_self)
qed

lemma store_int_offset:
  assumes "- (2 ^ 31) \<le> z" "z < 2 ^ 31" "- (2 ^ 31) \<le> off" "off < 2 ^ 31"
  shows "sint (store_int Little_Endian z (word_of_int off)) = (if z < 0 \<and> 0 \<le> off then z + 2 ^ 32 else if 0 \<le> z \<and> off < 0 then z - 2 ^ 32 else z)"
    "sint (store_int Big_Endian z (word_of_int off)) = z * 2 ^ 32 + off mod 2 ^ 32"
proof -
  define hi :: u32 where "hi = ucast (drop_bit 32 (word_of_int off :: u64))"
  define lo :: u32 where "lo = ucast (word_of_int off :: u64)"
  have mem: "be64 (word_of_int off) = be32 hi @ be32 lo" by (simp add: be64_def hi_def lo_def)
  have lo: "uint lo = off mod 2 ^ 32"
  proof -
    have "lo = word_of_int off" unfolding lo_def by (rule bit_word_eqI) (simp add: bit_simps)
    then show ?thesis by (simp add: uint_word_of_int)
  qed
  have hi: "uint hi = (if off < 0 then 2 ^ 32 - 1 else 0)"
  proof -
    have "uint (word_of_int off :: u64) = (if off < 0 then off + 2 ^ 64 else off)"
      using wrap_mod [of "2 ^ 64" off] assms by (simp add: uint_word_of_int)
    moreover have "off < 0 \<Longrightarrow> (off + 2 ^ 64) div 2 ^ 32 = 2 ^ 32 - 1" "0 \<le> off \<Longrightarrow> off div 2 ^ 32 = 0" using assms by simp_all
    ultimately show ?thesis
      by (simp add: hi_def unsigned_ucast_eq take_bit_eq_mod drop_bit_eq_div uint_div)
  qed
  have z: "uint (word_of_int z :: u32) = (if z < 0 then z + 2 ^ 32 else z)"
    using wrap_mod [of "2 ^ 32" z] assms by (simp add: uint_word_of_int)
  have le: "store_int Little_Endian z (word_of_int off) = of_be64 (be32 hi @ be32 (word_of_int z))"
    by (simp add: store_int_def load64_def mem32_def mem64_def mem)
  have be: "store_int Big_Endian z (word_of_int off) = of_be64 (be32 (word_of_int z) @ be32 lo)"
    by (simp add: store_int_def load64_def mem32_def mem64_def mem)
  show "sint (store_int Little_Endian z (word_of_int off)) = (if z < 0 \<and> 0 \<le> off then z + 2 ^ 32 else if 0 \<le> z \<and> off < 0 then z - 2 ^ 32 else z)"
    unfolding le using assms by (intro sint_of_uint) (auto simp: uint_of_be64 hi z)
  show "sint (store_int Big_Endian z (word_of_int off)) = z * 2 ^ 32 + off mod 2 ^ 32"
    unfolding be using assms by (intro sint_of_uint) (auto simp: uint_of_be64 lo z)
qed

section \<open>Properties\<close>

text \<open>
  C16. A broken-down time is compared with the time of a message field by field: the fields that are given, from the year down to the second, are compared
  lexicographically under the operator, the day of the week and of the year must match as well, and an operator with \<open>NOT\<close> inverts the result. This holds
  when each field is in its range and the day exists in its month; the 29th of February is excluded when the day and the month are given without a year.
\<close>

theorem btime_match_dates:
  assumes "vt_id v = vt_num VT_TIME" "vt_data v = VD_time (Some t)" "date_ok c" "\<not> leap_day c (gmtime_full (unat (it_sec t)))"
  shows "btime_match c op (Some v) = (if btime_hit c op (gmtime_full (unat (it_sec t))) \<noteq> (op AND OP_NOT \<noteq> 0) then 1 else 0)"
proof -
  have "unat (it_sec t) < 2 ^ 32" using unsigned_less [of "it_sec t"] by simp
  from match_seconds_hit [OF this assms(3,4), of op] assms(1,2)
  show ?thesis by (simp add: btime_match_def do_btime_match_def Let_def)
qed

definition time_value :: "u32 \<Rightarrow> unit idmef_value_type" where
  "time_value sec = \<lparr>vt_id = vt_num VT_TIME, vt_data = VD_time (Some \<lparr>it_refcount = 1, it_sec = sec, it_usec = 0, it_gmt_offset = 0\<rparr>)\<rparr>"

lemma gmtime_second_day: "gmtime_full 90000 = \<lparr>tm_sec = 0, tm_min = 0, tm_hour = 1, tm_mday = 2, tm_mon = 0, tm_year = 70, tm_wday = 5, tm_yday = 1\<rparr>"
proof -
  have "year_up 1 1970 = 1970" by (simp add: year_up.simps year_start_def)
  then show ?thesis by (simp add: gmtime_full_def gmtime_r_def year_start_def month_lengths_def Let_def tm.extend_def)
qed

theorem btime_match_dates_witness: "btime_match (unset_btime\<lparr>tm_mon := 0, tm_mday := 3\<rparr>) (OP_LESSER OR OP_EQUAL) (Some (time_value 90000)) = 1"
  using btime_match_dates [of "time_value 90000" "\<lparr>it_refcount = 1, it_sec = 90000, it_usec = 0, it_gmt_offset = 0\<rparr>"
      "unset_btime\<lparr>tm_mon := 0, tm_mday := 3\<rparr>" "OP_LESSER OR OP_EQUAL"]
  by (simp add: time_value_def date_ok_def unset_btime_def leap_day_def gmtime_second_day btime_hit_def need_full_compare_def Let_def
      dates_compare_def date_fields_def month_length_def month_lengths_def)

text \<open>The fields of a text without an offset.\<close>

definition set_item :: "field_item \<Rightarrow> btime \<Rightarrow> btime" where
  "set_item i lt = fst (store_item Little_Endian i (lt, 0))"

definition hour_to_gmt :: "int \<Rightarrow> btime \<Rightarrow> btime" where
  "hour_to_gmt off lt = (if tm_hour lt = - 1 then lt else lt\<lparr>tm_hour := sint (word_of_int (tm_hour lt - off sdiv 3600) :: u32)\<rparr>)"

abbreviation item_field :: "field_item \<Rightarrow> btime_field" where
  "item_field i \<equiv> fst (snd (fst i))"

lemma store_item_no_offset: "item_field i \<noteq> Gmtoff \<Longrightarrow> store_item bo i (lt, g) = (set_item i lt, g)"
proof -
  obtain n f p a z where i: "i = ((n, f, p), a, z)" by (metis prod.exhaust)
  assume "item_field i \<noteq> Gmtoff"
  then show ?thesis by (cases f) (simp_all add: i set_item_def)
qed

lemma fold_store_no_offset: "\<forall>j \<in> set is. item_field j \<noteq> Gmtoff \<Longrightarrow> fold (store_item bo) is (lt, g) = (fold set_item is lt, g)"
  by (induction "is" arbitrary: lt) (simp_all add: store_item_no_offset)


lemma broken_down_time_reads:
  assumes "\<forall>j \<in> set (i # is). readable j \<and> item_field j \<noteq> Gmtoff" "- (2 ^ 63) \<le> off" "off < 2 ^ 63"
  shows "idmef_criterion_value_new_broken_down_time bo (\<lambda>_. True) e (Inr off) (join_with BLANK (map field_text (i # is))) =
      Some (Inr (hour_to_gmt off (fold set_item (i # is) unset_btime)), join_with NUL_CHAR (map field_text (i # is)))"
proof -
  have "sint (word_of_int off :: u64) = off" using assms(2,3) by (simp add: signed_of_int signed_take_bit_int_eq_self)
  then show ?thesis
    using btime_loop_reads [of i "is" bo "[]" "(unset_btime, word_of_int off)"] fold_store_no_offset [of "i # is" bo] assms(1)
    by (simp add: idmef_criterion_value_new_broken_down_time_def btime_parse_def hour_to_gmt_def)
qed




text \<open>A negative hour, or one behind the end of the day.\<close>

lemma parse_hour:
  assumes "h < 24" "- 14 \<le> off" "off \<le> 14"
  shows "idmef_criterion_value_new_broken_down_time bo (\<lambda>_. True) e (Inr (off * 3600)) (''hour:'' @ dec h) =
    Some (Inr (unset_btime\<lparr>tm_hour := int h - off\<rparr>), ''hour:'' @ dec h)"
proof -
  have "sgn off * (\<bar>off\<bar> * 3600 div 3600) = off" by (simp add: sgn_mult_abs)
  then have q: "off * 3600 sdiv 3600 = off" by (simp add: signed_divide_int_def abs_mult sgn_mult)
  have "idmef_criterion_value_new_broken_down_time bo (\<lambda>_. True) e (Inr (off * 3600)) (join_with BLANK (map field_text [hour_item h])) =
      Some (Inr (hour_to_gmt (off * 3600) (fold set_item [hour_item h] unset_btime)), join_with NUL_CHAR (map field_text [hour_item h]))"
    using broken_down_time_reads [of "hour_item h" "[]" "off * 3600" bo e] readable_hour [of h] assms by (simp add: hour_item_def)
  moreover have "sint (word_of_int (int h - off) :: u32) = int h - off" using assms by (intro sint_u32_small) simp_all
  then have "hour_to_gmt (off * 3600) (fold set_item [hour_item h] unset_btime) = unset_btime\<lparr>tm_hour := int h - off\<rparr>"
    by (simp add: hour_to_gmt_def hour_item_def set_item_def q)
  ultimately show ?thesis by (simp add: hour_item_def)
qed

lemma sec_bound: "unat (it_sec x) < 4294967296" using unsigned_less [of "it_sec x"] by simp

lemma hour_alone:
  assumes "vt_id v = vt_num VT_TIME"
  shows "z < 0 \<Longrightarrow> do_btime_match (unset_btime\<lparr>tm_hour := z\<rparr>) op (Some v) = 1"
    "24 \<le> z \<Longrightarrow> do_btime_match (unset_btime\<lparr>tm_hour := z\<rparr>) OP_EQUAL (Some v) = 0"
proof -
  show "z < 0 \<Longrightarrow> do_btime_match (unset_btime\<lparr>tm_hour := z\<rparr>) op (Some v) = 1"
    using assms by (simp add: do_btime_match_def match_seconds_def need_full_compare_def unset_btime_def Let_def)
  assume z: "24 \<le> z"
  define t where "t = (case vt_data v of VD_time (Some x) \<Rightarrow> unat (it_sec x) | _ \<Rightarrow> 0)"
  have "t < 2 ^ 32" by (auto simp: t_def sec_bound split: vt_data.splits option.splits)
  then have "tm_hour (gmtime_r t) < 24" using timegm_gmtime(1) by (simp add: tm_valid_def)
  moreover have "timegm (tm.truncate (apply_mask (unset_btime\<lparr>tm_hour := z\<rparr>) (gmtime_full t))) - timegm (tm.truncate (unset_btime\<lparr>tm_hour := z\<rparr>)) =
      (tm_hour (gmtime_r t) - z) * 3600"
    using z by (simp add: timegm_month_start tm.truncate_def apply_mask_def unset_btime_def Let_def gmtime_full_simps)
  ultimately have "timegm (tm.truncate (apply_mask (unset_btime\<lparr>tm_hour := z\<rparr>) (gmtime_full t))) \<noteq> timegm (tm.truncate (unset_btime\<lparr>tm_hour := z\<rparr>))"
    using z by auto
  then show "do_btime_match (unset_btime\<lparr>tm_hour := z\<rparr>) OP_EQUAL (Some v) = 0"
    using assms z by (simp add: do_btime_match_def match_seconds_def need_full_compare_def integer_compare_def t_def [symmetric] Let_def)
qed

text \<open>
  C35. The hour of a criterion is moved to \<open>GMT\<close> without its day: \<open>hour:h\<close> in a zone more than \<open>h\<close> hours east becomes negative, which
  means that it is not given, so that it matches every time under every operator without \<open>NOT\<close>; in a zone in which it falls behind the end of
  the day it is equal to no time.
\<close>

theorem hour_zone_defects:
  assumes "h < 24" "- 14 \<le> off" "off \<le> 14"
  shows "\<exists>c. idmef_criterion_value_new_broken_down_time bo (\<lambda>_. True) e (Inr (off * 3600)) (''hour:'' @ dec h) = Some (Inr c, ''hour:'' @ dec h) \<and>
    (int h < off \<longrightarrow> (\<forall>op (v :: 'o idmef_value_type). op AND OP_NOT = 0 \<and> vt_id v = vt_num VT_TIME \<longrightarrow> btime_match c op (Some v) = 1)) \<and>
    (24 \<le> int h - off \<longrightarrow> (\<forall>v :: 'o idmef_value_type. vt_id v = vt_num VT_TIME \<longrightarrow> btime_match c OP_EQUAL (Some v) = 0))"
  using parse_hour [OF assms, of bo e]
  by (intro exI [of _ "unset_btime\<lparr>tm_hour := int h - off\<rparr>"] conjI) (simp_all add: btime_match_def hour_alone)

theorem hour_zone_defects_witness:
  "\<exists>c. idmef_criterion_value_new_broken_down_time Little_Endian (\<lambda>_. True) (- 1) (Inr 7200) ''hour:1'' = Some (Inr c, ''hour:1'') \<and>
    btime_match c OP_EQUAL (Some (time_value 90000)) = 1 \<and> btime_match c OP_LESSER (Some (time_value 0)) = 1"
proof -
  have "''hour:'' @ dec 1 = ''hour:1''" by (simp add: dec.simps digit_char_def)
  then show ?thesis using hour_zone_defects [of 1 2 Little_Endian "- 1", where ?'o = unit] by (auto simp: time_value_def)
qed

lemma gmtoff_item: "readable ((''gmtoff'', Gmtoff, btime_parse_gmtoff), ''-5'', - 18000)"
  by (simp add: field_table_def btime_parse_gmtoff_def atoi_def isspace_def char_digit_def c_int_def Let_def)

lemma gmtoff_east:
  assumes "0 \<le> off" "off < 2 ^ 31"
  shows "btime_parse Little_Endian (Inr off) unset_btime ''hour:12 gmtoff:-5'' =
    Some (0, unset_btime\<lparr>tm_hour := 12 - 1193041\<rparr>, ''hour:12'' @ NUL_CHAR # ''gmtoff:-5'')"
proof -
  have d: "dec 12 = ''12''" by (simp add: dec.simps digit_char_def)
  have i: "hour_item 12 = ((''hour'', Hour, btime_parse_simple), ''12'', 12)" by (simp add: hour_item_def d)
  have "btime_loop Little_Endian [] (unset_btime, word_of_int off) ''hour:12 gmtoff:-5'' =
      Some (0, (unset_btime\<lparr>tm_hour := 12\<rparr>, store_int Little_Endian (- 18000) (word_of_int off)), ''hour:12'' @ NUL_CHAR # ''gmtoff:-5'')"
    using btime_loop_reads [of "hour_item 12" "[((''gmtoff'', Gmtoff, btime_parse_gmtoff), ''-5'', - 18000)]" Little_Endian "[]" "(unset_btime, word_of_int off)"]
      readable_hour [of 12] gmtoff_item by (simp add: i)
  moreover have "sint (store_int Little_Endian (- 18000) (word_of_int off)) = 4294949296" using store_int_offset(1) [of "- 18000" off] assms by simp
  moreover have "sint (- 1193029 :: u32) = - 1193029" using sint_u32_small [of "- 1193029"] by simp
  ultimately show ?thesis by (simp add: btime_parse_def signed_divide_int_def)
qed

lemma leap_day_2024: "timegm (tm.truncate (apply_mask (unset_btime\<lparr>tm_mon := 2, tm_mday := 1\<rparr>) (gmtime_full 1709208000))) =
    timegm (tm.truncate (unset_btime\<lparr>tm_mon := 2, tm_mday := 1\<rparr>))"
proof -
  have "year_up 19782 1970 = 2024" by (simp add: year_up.simps year_start_def)
  then have "gmtime_r 1709208000 = \<lparr>tm_sec = 0, tm_min = 0, tm_hour = 12, tm_mday = 29, tm_mon = 1, tm_year = 124\<rparr>"
    by (simp add: gmtime_r_def year_start_def month_lengths_def leap_year_def Let_def)
  then show ?thesis
    by (simp add: apply_mask_def gmtime_full_simps unset_btime_def tm.truncate_def timegm_def year_start_def month_lengths_def leap_year_def Let_def)
qed

text \<open>
  The text printed for a broken-down time is never read back, because it ends with a blank; an offset of a text with another sign than that of the
  local zone moves the hour by more than a million hours; \<open>month:march mday:1\<close> matches the 29th of February of a leap year; and a year before
  1900 is taken as not given, so that it matches every time.
\<close>

theorem broken_down_time_defects:
  shows "(\<forall>bo off lt lt' lt'' r. btime_parse bo (Inr off) lt' (btime_to_string lt) \<noteq> Some (0, lt'', r)) \<and>
    (\<forall>off. 0 \<le> off \<and> off < 2 ^ 31 \<longrightarrow>
       btime_parse Little_Endian (Inr off) unset_btime ''hour:12 gmtoff:-5'' =
         Some (0, unset_btime\<lparr>tm_hour := 12 - 1193041\<rparr>, ''hour:12'' @ NUL_CHAR # ''gmtoff:-5'')) \<and>
    btime_match (unset_btime\<lparr>tm_mon := 2, tm_mday := 1\<rparr>) OP_EQUAL (Some (time_value 1709208000)) = 1 \<and>
    btime_parse_year ''1800'' = Some (Value (- 100)) \<and> (\<forall>t. btime_match (unset_btime\<lparr>tm_year := - 100\<rparr>) OP_EQUAL (Some (time_value t)) = 1)"
proof (intro conjI allI)
  fix bo off lt lt' lt'' r
  show "btime_parse bo (Inr off) lt' (btime_to_string lt) \<noteq> Some (0, lt'', r)"
    using btime_loop_no_blank [of bo "[]" "(lt', word_of_int off)" "btime_to_string lt"] btime_to_string_end [of lt]
    by (auto simp: btime_parse_def split: option.splits)
next
  fix off :: int
  show "0 \<le> off \<and> off < 2 ^ 31 \<longrightarrow>
       btime_parse Little_Endian (Inr off) unset_btime ''hour:12 gmtoff:-5'' =
         Some (0, unset_btime\<lparr>tm_hour := 12 - 1193041\<rparr>, ''hour:12'' @ NUL_CHAR # ''gmtoff:-5'')"
    using gmtoff_east [of off] by blast
next
  show "btime_match (unset_btime\<lparr>tm_mon := 2, tm_mday := 1\<rparr>) OP_EQUAL (Some (time_value 1709208000)) = 1"
    using leap_day_2024 by (simp add: btime_match_def do_btime_match_def match_seconds_def integer_compare_def time_value_def Let_def)
      (simp add: unset_btime_def)
next
  show "btime_parse_year ''1800'' = Some (Value (- 100))"
    by (simp add: btime_parse_year_def atoi_def isspace_def char_digit_def c_int_def Let_def)
qed (simp add: btime_match_def do_btime_match_def match_seconds_def need_full_compare_def time_value_def unset_btime_def Let_def)

theorem broken_down_time_defects_witness:
  "btime_parse Little_Endian (Inr 3600) unset_btime ''hour:12 gmtoff:-5'' =
    Some (0, unset_btime\<lparr>tm_hour := 12 - 1193041\<rparr>, ''hour:12'' @ NUL_CHAR # ''gmtoff:-5'')"
  using broken_down_time_defects by simp

end
