(* ===== verification/CritValue.thy ===== *)
theory CritValue
  imports CritTime
begin

text \<open>
  Criterion values (\<open>src/idmef-criterion-value.c\<close>): what the right hand side of a criterion is compared by. It is a value of the message
  format, a regular expression or a broken-down time. The latter two are blocks of memory that a clone shares with its source; the heap says which
  of them are allocated. The functions of the regular expression library are parameters, and so is the clone of a value. A result
  \<open>None\<close> is undefined behaviour, as the use of a block that was released. A negative \<open>int\<close> is an error.
\<close>

section \<open>Regular expressions\<close>

text \<open>The library that the program is built with decides what a return value means.\<close>

datatype regex_library = Posix | Pcre

record 'r regex_functions =
  rx_library :: regex_library
  rx_compile :: "bool \<Rightarrow> string \<Rightarrow> 'r option"
  rx_exec :: "'r \<Rightarrow> byte list \<Rightarrow> int"






section \<open>Objects\<close>

datatype cv_type = CVT_VALUE | CVT_REGEX | CVT_BROKEN_DOWN_TIME

datatype 'o cv_pointer = To_Value "'o idmef_value_type idmef_value" | To_Block nat

record 'o criterion_value =
  cv_value :: "'o cv_pointer"
  cv_need_free :: bool
  cv_type :: cv_type

datatype 'r cv_block = Regex_Block string 'r | Time_Block btime

type_synonym 'r cv_heap = "nat \<Rightarrow> 'r cv_block option"

definition code_int :: "prelude_error_code \<Rightarrow> int" where
  "code_int c = prelude_error_make 0 (error_code_value c)"

text \<open>The blocks of the constructors get the given address.\<close>

definition criterion_value_new_time ::
    "byte_order \<Rightarrow> (nat \<Rightarrow> bool) \<Rightarrow> int + int \<Rightarrow> nat \<Rightarrow> 'r cv_heap \<Rightarrow> string \<Rightarrow> (int + 'o criterion_value \<times> 'r cv_heap) option" where
  "criterion_value_new_time bo mem_ok offset a h time =
     map_option (\<lambda>(r, text). map_sum id (\<lambda>lt. (\<lparr>cv_value = To_Block a, cv_need_free = True, cv_type = CVT_BROKEN_DOWN_TIME\<rparr>, h(a \<mapsto> Time_Block lt))) r)
       (idmef_criterion_value_new_broken_down_time bo mem_ok (code_int PRELUDE_ERROR_ENOMEM) offset time)"

definition idmef_criterion_value_new_regex ::
    "(nat \<Rightarrow> bool) \<Rightarrow> 'r regex_functions \<Rightarrow> nat \<Rightarrow> 'r cv_heap \<Rightarrow> string \<Rightarrow> u32 \<Rightarrow> int + 'o criterion_value \<times> 'r cv_heap" where
  "idmef_criterion_value_new_regex mem_ok rx a h regex op =
     (if \<not> mem_ok 0 \<or> \<not> mem_ok 1 \<or> \<not> mem_ok 2 then Inl (code_int PRELUDE_ERROR_ENOMEM)
      else case rx_compile rx (op AND OP_NOCASE \<noteq> 0) regex of
          None \<Rightarrow> Inl (code_int PRELUDE_ERROR_IDMEF_CRITERION_INVALID_REGEX)
        | Some r \<Rightarrow> Inr (\<lparr>cv_value = To_Block a, cv_need_free = True, cv_type = CVT_REGEX\<rparr>, h(a \<mapsto> Regex_Block regex r)))"

definition value_type_id :: "'o idmef_value_type idmef_value \<Rightarrow> int" where
  "value_type_id v = (case v of Scalar x \<Rightarrow> vt_id x | VList _ \<Rightarrow> vt_num VT_LIST)"

definition idmef_criterion_value_new_value ::
    "'o operations list \<Rightarrow> bool \<Rightarrow> 'o idmef_value_type idmef_value \<Rightarrow> u32 \<Rightarrow> (int + 'o criterion_value) option" where
  "idmef_criterion_value_new_value tbl mem_ok v op =
     map_option (\<lambda>r. case r of
         Inl e \<Rightarrow> Inl (code_int e)
       | Inr _ \<Rightarrow> if \<not> mem_ok then Inl (code_int PRELUDE_ERROR_ENOMEM)
                else Inr \<lparr>cv_value = To_Value v, cv_need_free = True, cv_type = CVT_VALUE\<rparr>)
       (idmef_value_type_check_operator tbl (value_type_id v) op)"

section \<open>Operations by type\<close>






definition idmef_criterion_value_get_value :: "'o criterion_value \<Rightarrow> 'o idmef_value_type idmef_value option" where
  "idmef_criterion_value_get_value cv =
     (if cv_type cv = CVT_VALUE then case cv_value cv of To_Value v \<Rightarrow> Some v | To_Block _ \<Rightarrow> None else None)"

definition idmef_criterion_value_get_broken_down_time :: "'o criterion_value \<Rightarrow> nat option" where
  "idmef_criterion_value_get_broken_down_time cv =
     (if cv_type cv = CVT_BROKEN_DOWN_TIME then case cv_value cv of To_Block a \<Rightarrow> Some a | To_Value _ \<Rightarrow> None else None)"

text \<open>The text of the expression, undefined when its block was released.\<close>

definition idmef_criterion_value_get_regex :: "'r cv_heap \<Rightarrow> 'o criterion_value \<Rightarrow> string option option" where
  "idmef_criterion_value_get_regex h cv =
     (if cv_type cv \<noteq> CVT_REGEX then Some None
      else case cv_value cv of
          To_Block a \<Rightarrow> Option.bind (h a) (\<lambda>b. case b of Regex_Block s _ \<Rightarrow> Some (Some s) | Time_Block _ \<Rightarrow> None)
        | To_Value _ \<Rightarrow> None)"

definition idmef_criterion_value_get_type :: "'o criterion_value \<Rightarrow> cv_type" where
  "idmef_criterion_value_get_type cv = cv_type cv"

section \<open>Clones\<close>

text \<open>An object that was made by a constructor, or a clone of one, fits to its block.\<close>

definition block_fits :: "'r cv_heap \<Rightarrow> 'o criterion_value \<Rightarrow> bool" where
  "block_fits h cv \<longleftrightarrow>
     (case cv_value cv of
        To_Value _ \<Rightarrow> cv_type cv = CVT_VALUE
      | To_Block a \<Rightarrow> (case h a of
            None \<Rightarrow> False
          | Some (Regex_Block _ _) \<Rightarrow> cv_type cv = CVT_REGEX
          | Some (Time_Block _) \<Rightarrow> cv_type cv = CVT_BROKEN_DOWN_TIME))"

lemma map_sum_Inr: "map_sum f g s = Inr y \<longleftrightarrow> (\<exists>x. s = Inr x \<and> y = g x)"
  by (cases s) auto

lemma new_fits:
  "idmef_criterion_value_new_regex mem_ok rx a h regex op = Inr (cv, h') \<Longrightarrow> block_fits h' cv \<and> cv_need_free cv \<and> cv_value cv = To_Block a"
  "criterion_value_new_time bo mem_ok offset a h time = Some (Inr (cv, h')) \<Longrightarrow> block_fits h' cv \<and> cv_need_free cv \<and> cv_value cv = To_Block a"
  "idmef_criterion_value_new_value tbl ok v op = Some (Inr cv) \<Longrightarrow> block_fits h cv"
  by (auto simp: idmef_criterion_value_new_regex_def criterion_value_new_time_def idmef_criterion_value_new_value_def block_fits_def map_sum_Inr
      split: if_splits option.splits sum.splits)





end
