(* ===== verification/Spec2Isabelle.thy ===== *)
theory Spec2Isabelle
  imports Extract IoDelimited Msgbuf Socket PString PList PHash Timer Async ConfigProps Crc32 Failover Ident Variable JsonString IdmefTime Criteria IdmefPathShare IdmefCast PoolDelivery CritTimeProps CritValue
begin

text \<open>
  Verification of the core of libprelude, the library by which sensors and managers of the Prelude intrusion
  detection system exchange messages. All paths are relative to \<open>src/\<close> of the repository.

  \<^bold>\<open>The program.\<close> A sensor describes an event as an IDMEF message: times (\<open>idmef-time.c\<close>), values and criteria on them
  (\<open>idmef-value.c\<close>, \<open>idmef-criteria.c\<close>), identified by a UUID (\<open>prelude-ident.c\<close>). The message is serialised field by field
  into a message buffer (\<open>prelude-msgbuf.c\<close>), which cuts it into fragments (\<open>prelude-msg.c\<close>) and writes them to an output
  object (\<open>prelude-io.c\<close>). A pool of connections (\<open>prelude-connection-pool.c\<close>) chooses who gets a message; what cannot be sent goes to
  failover files (\<open>prelude-failover.c\<close>) until a connection is back. The
  receiver reads the fragments from a non-blocking socket and hands out the fields again. Strings, lists, hash tables,
  timers, variables and error values are the library's own.

  \<^bold>\<open>Theories.\<close>
  \<^item> \<open>Base\<close>: bytes, words, byte orders, blocks of memory, \<open>size_t\<close> arithmetic, the lemma collections. \<open>CText\<close>: digits as the C
    library prints and scans them.
  \<^item> \<open>PError\<close> (\<open>libprelude-error/prelude-error.c\<close>): error values packed from source, code and flag, and their unpacking.
  \<^item> \<open>Extract\<close> (\<open>include/prelude-extract.h\<close>): integers in network byte order on hosts of both byte orders.
  \<^item> \<open>PIo\<close>, \<open>IoDelimited\<close> (\<open>prelude-io.c\<close>): buffers, files and descriptors. The locales \<open>byte_source\<close>, \<open>live_source\<close>,
    \<open>patient_source\<close> and \<open>byte_sink\<close> state what readers and writers promise; buffers, sockets and the failover file interpret them.
  \<^item> \<open>PMsg\<close>, \<open>PMsg_Read\<close>, \<open>PMsg_Write\<close> (\<open>prelude-msg.c\<close>): messages, with reading as a refinement of a parser of byte streams
    and writing as a refinement of a list of fragments (locale \<open>fragment_flush\<close>). \<open>Msgbuf\<close> (\<open>prelude-msgbuf.c\<close>) puts both
    together; \<open>Socket\<close> runs the reader on a descriptor that delivers the stream in arbitrary pieces.
  \<^item> \<open>Failover\<close> (\<open>prelude-failover.c\<close>): the data file as a queue of messages, the journal and recovery from it; \<open>Crc32\<close> (\<open>common.c\<close>)
    is the checksum of the journal.
  \<^item> \<open>Connection\<close> (\<open>prelude-connection.c\<close>): addresses, permissions and the states of a connection over a network that is a parameter. \<open>Pool\<close>,
    \<open>PoolSetup\<close>, \<open>PoolEvents\<close> (\<open>prelude-connection-pool.c\<close>): the pool, its initialisation, and waiting for events; a failover is the queue that \<open>Failover\<close>
    shows it to be. \<open>PoolProps\<close> proves every operation a step that keeps messages; \<open>PoolSafety\<close> and \<open>PoolDelivery\<close> hold what follows.
  \<^item> \<open>PString\<close> (\<open>prelude-string.c\<close>), \<open>PList\<close> (\<open>include/prelude-list.h\<close>, locale \<open>list_store\<close>), \<open>PHash\<close> (\<open>prelude-hash.c\<close>, locale
    \<open>hash_key\<close>), \<open>Timer\<close> (\<open>prelude-timer.c\<close>), \<open>Variable\<close> (\<open>variable.c\<close>, locale \<open>dictionary\<close>), \<open>Ident\<close> (\<open>prelude-ident.c\<close>).
  \<^item> \<open>Config\<close>, \<open>ConfigProps\<close> (\<open>config-engine.c\<close>): configuration files as arrays of lines, their parsing, searching and editing.
  \<^item> \<open>Async\<close> (\<open>prelude-async.c\<close>): the thread that runs jobs, as a step relation in which the sections that hold the lock interleave.
  \<^item> \<open>Unicode\<close> (\<open>common.c\<close>) and \<open>JsonString\<close> (\<open>idmef-message-print-json.c\<close>, \<open>idmef-message-read-json.c\<close>): strings of JSON messages.
  \<^item> \<open>Ntp\<close> (\<open>ntp.c\<close>, \<open>include/ntp.h\<close>) and \<open>IdmefTime\<close> (\<open>idmef-time.c\<close>): times, their two text formats and their order.
  \<^item> \<open>Criteria\<close> (\<open>idmef-criteria.c\<close>, \<open>idmef-criterion-value.c\<close>, \<open>idmef-value.c\<close>): criteria trees and their evaluation on values.
    \<open>CritValue\<close> has the objects that a criterion compares by, over a heap that clones share; \<open>CritTime\<close>, \<open>CritTimeProps\<close> their broken-down times.
  \<^item> \<open>IdmefClass\<close> (\<open>idmef-class.c\<close>, \<open>include/idmef-tree-data.h\<close>): the tables of the message classes. \<open>IdmefPath\<close> (\<open>idmef-path.c\<close>): paths into
    messages; \<open>IdmefPathProps\<close> types them in the tables, \<open>IdmefPathText\<close> relates elements and texts, \<open>IdmefPathShare\<close> is about the cache.
  \<^item> \<open>IdmefData\<close>, \<open>Base64\<close> (\<open>idmef-data.c\<close>): data objects over an explicit memory, and their text. \<open>IdmefValueType\<close>, \<open>IdmefValueProps\<close>
    (\<open>idmef-value-type.c\<close>): typed values and the table of their operations. \<open>IdmefValue\<close>, \<open>IdmefCast\<close> (\<open>idmef-value.c\<close>): lists of values, matching, conversion.

  \<^bold>\<open>How the code is represented.\<close> A struct is a record with the fields of the source, a prefix naming the struct. A function that
  changes an object returns the new object. An error return is \<open>Inl\<close> of the error code, or the negative number where the code matters.
  \<open>None\<close> as the result of a function stands for undefined behaviour (a read or write outside of a block, a failed assertion) or
  for a loop that does not end; a theorem that a function returns \<open>Some\<close> therefore shows memory safety and termination. Integers
  have the width of the source where they can wrap around. Allocation is a parameter \<open>mem_ok\<close>, so that its failure is a branch of
  the model, except in \<open>Config\<close> and \<open>Async\<close>, where memory suffices; system calls, the clock, time zones, the random generator, \<open>vsnprintf\<close>, path lookup, regular expressions and the network are parameters too.

  \<^bold>\<open>What is shown.\<close> Fields that are put into a message buffer come out of the receiver in order, through fragmentation, a change of byte
  order and a socket that delivers arbitrary pieces; field access stays inside of the message; the failover files are a queue that
  survives crashes; the connection pool loses no message whatever the network does, and delivers saved ones in order when it works; the hash table, the lists and the variables implement maps and sequences; timers are called when due and in order; jobs
  run in the order of addition in every interleaving, and all of them before the thread ends; the
  string functions keep their strings terminated and append, copy and compare as they should; the checksum equals polynomial division and
  detects bursts; the encodings of error values, integers, strings, bytes, Unicode escapes and times are inverted by their decoders;
  typed values are converted exactly and matched pair by pair; criteria are
  boolean formulas, and their dates are compared field by field; paths are typed in the class tables, denoted by their texts and shared safely through their cache; configuration files are written as they were read but for the lines that were set. Where the code does not do what it means to do, a theorem says what it does instead: the reading of a truncated
  message, the rollback of the failover, damaged journals, truncation of borrowed strings, repeated identifiers, flushed timers, JSON escapes of
  control bytes, NTP stamps at the start of a second, offsets west of Greenwich, comparison of times with different offsets, removal of
  configuration entries, shared clones of paths, reserved indices, long names of paths,
  connections counted dead or alive wrongly, events that are not counted,
  references over owned data, the order of numbers in memory, bounds of narrow integers, clones of lists,
  clones of criterion values, hours of other time zones.

  \<^bold>\<open>Termination and bounds.\<close> No definition uses fuel. Loops whose end depends on their environment are \<open>partial_function (option)\<close>, and the
  theorems about them state that they return. Sizes are bounded by the width of the integers that hold them: 32 bits for the length of a
  message, 64 bits for \<open>size_t\<close>, 63 bits for file offsets.

  \<^bold>\<open>Not modelled.\<close> The TLS layer with the sockets below a connection, the client and its profile, plugins, logging, threads and daemon mode
  are calls to the operating system and other libraries. The functions for the classes of the message tree (\<open>idmef-tree-wrap.c\<close>,
  \<open>idmef-message-*.c\<close>) and the parser of criteria are generated. Options, the access
  to values by their paths and the choice of a criterion value for a path are left out. In \<open>IdmefPath\<close> keys are values: that a clone shares the keys behind
  the depth of the path is not seen. Language bindings, the administration tool and the portability library are outside of the core.
\<close>

end
